(* ===== verification/Prelude.thy ===== *)
theory Prelude
  imports
    Main
    "HOL-Library.Char_ord"
    "HOL-Library.List_Lexorder"
    "HOL-Library.Sublist"
    "HOL-Library.AList"
begin

text \<open>
  Shared vocabulary of the development.

  Go strings are byte strings and are modelled as \<open>string\<close> (one \<open>char\<close> per
  byte); the Go zero value \<open>""\<close> is \<open>[]\<close>. A Go slice is a list (\<open>nil\<close> and the
  empty slice are the same list, as every reader in the program treats them alike).
  A Go \<open>map[string]V\<close> is an association list with distinct keys: lookup is
  \<open>map_of\<close>, assignment is \<open>AList.update\<close>, \<open>maps.Copy\<close> is \<open>AList.merge\<close>, and
  the order of the list is the (unspecified) order a \<open>range\<close> loop visits the map in,
  so a theorem that holds for every list holds for every iteration order. A nil map and an
  empty map are the same list. A pointer that may be nil is an \<open>option\<close>.

  The second half models the functions of Go's standard library the program relies on
  (\<open>strings\<close>, \<open>strconv\<close>, \<open>path\<close>).
\<close>

named_theorems go_str \<open>facts about the string and path functions of the standard library\<close>
named_theorems go_map \<open>facts about maps modelled as association lists\<close>

section \<open>Maps\<close>

type_synonym 'v smap = "(string \<times> 'v) list"

abbreviation m_get :: "'v smap \<Rightarrow> string \<Rightarrow> 'v option" where
  "m_get \<equiv> map_of"

abbreviation m_has :: "'v smap \<Rightarrow> string \<Rightarrow> bool" where
  "m_has m k \<equiv> map_of m k \<noteq> None"

abbreviation m_put :: "string \<Rightarrow> 'v \<Rightarrow> 'v smap \<Rightarrow> 'v smap" where
  "m_put \<equiv> AList.update"

abbreviation m_copy :: "'v smap \<Rightarrow> 'v smap \<Rightarrow> 'v smap" where
  "m_copy dst src \<equiv> AList.merge dst src"

abbreviation m_keys :: "'v smap \<Rightarrow> string list" where
  "m_keys m \<equiv> map fst m"

definition wf_map :: "'v smap \<Rightarrow> bool" where
  "wf_map m \<longleftrightarrow> distinct (m_keys m)"

definition sorted_keys :: "'v smap \<Rightarrow> string list" where
  "sorted_keys m = sort (m_keys m)"

lemma m_get_put [simp, go_map]: "m_get (m_put k v m) = (m_get m)(k \<mapsto> v)"
  by (rule update_conv')

lemma m_get_copy [simp, go_map]: "m_get (m_copy m n) = m_get m ++ m_get n"
  by (rule merge_conv')

lemma wf_map_Nil [simp, go_map]: "wf_map []"
  by (simp add: wf_map_def)

lemma wf_map_put [simp, go_map]: "wf_map m \<Longrightarrow> wf_map (m_put k v m)"
  by (simp add: wf_map_def distinct_update)

lemma wf_map_copy [simp, go_map]: "wf_map m \<Longrightarrow> wf_map (m_copy m n)"
  by (simp add: wf_map_def distinct_merge)

lemma set_sorted_keys [simp, go_map]: "set (sorted_keys m) = fst ` set m"
  by (simp add: sorted_keys_def)

lemma sorted_sorted_keys [simp, go_map]: "sorted (sorted_keys m)"
  by (simp add: sorted_keys_def)

lemma m_has_iff [go_map]: "m_has m k \<longleftrightarrow> k \<in> fst ` set m"
  by (simp add: map_of_eq_None_iff)

lemma m_get_None_iff [go_map]: "m_get m k = None \<longleftrightarrow> k \<notin> fst ` set m"
  by (rule map_of_eq_None_iff)

lemma m_get_in_set: "m_get m k = Some v \<Longrightarrow> (k, v) \<in> set m"
  by (rule map_of_SomeD)

lemma wf_map_get_iff: "wf_map m \<Longrightarrow> m_get m k = Some v \<longleftrightarrow> (k, v) \<in> set m"
  by (simp add: wf_map_def)

section \<open>The Go idiom \<open>if ov != zero \<dots>\<close>\<close>

definition or_str :: "string \<Rightarrow> string \<Rightarrow> string" where
  "or_str b ov = (if ov \<noteq> [] then ov else b)"

definition or_int :: "int \<Rightarrow> int \<Rightarrow> int" where
  "or_int b ov = (if ov \<noteq> 0 then ov else b)"

definition or_ptr :: "'a option \<Rightarrow> 'a option \<Rightarrow> 'a option" where
  "or_ptr b ov = (if ov \<noteq> None then ov else b)"

definition or_list :: "'a list \<Rightarrow> 'a list \<Rightarrow> 'a list" where
  "or_list b ov = (if length ov > 0 then ov else b)"

text \<open>
  The algebra shared by everything that is layered in the program: an operation that lets an
  override win over a base, associative and with an empty layer as neutral element.
\<close>

locale layering =
  fixes ov :: "'a \<Rightarrow> 'a \<Rightarrow> 'a" and empty :: 'a
  assumes assoc: "ov (ov a b) c = ov a (ov b c)"
    and left_neutral: "ov empty a = a"
    and right_neutral: "ov a empty = a"
begin

text \<open>Folding a list of layers from the left is the same as merging two halves separately.\<close>

lemma fold_from: "foldl ov a ls = ov a (foldl ov empty ls)"
proof (induction ls arbitrary: a)
  case Nil
  show ?case by (simp add: right_neutral)
next
  case (Cons l ls)
  have "foldl ov a (l # ls) = ov (ov a l) (foldl ov empty ls)"
    using Cons.IH[of "ov a l"] by simp
  also have "\<dots> = ov a (ov l (foldl ov empty ls))" by (rule assoc)
  also have "ov l (foldl ov empty ls) = foldl ov empty (l # ls)"
    using Cons.IH[of l] by (simp add: left_neutral)
  finally show ?case .
qed

lemma fold_append: "foldl ov empty (xs @ ys) = ov (foldl ov empty xs) (foldl ov empty ys)"
  by (simp add: fold_from[of "foldl ov empty xs"])

end

text \<open>A layering in which the right operand decides whenever it is not empty.\<close>

locale override = layering +
  assumes wins: "b \<noteq> empty \<Longrightarrow> ov a b = b"
begin

lemma fold_last_wins: "l \<noteq> empty \<Longrightarrow> foldl ov empty (ls @ [l]) = l"
  by (simp add: wins)

end

interpretation str_ov: override or_str "[]"
  by unfold_locales (auto simp: or_str_def)

interpretation int_ov: override or_int 0
  by unfold_locales (auto simp: or_int_def)

interpretation ptr_ov: override or_ptr None
  by unfold_locales (auto simp: or_ptr_def)

interpretation list_ov: override or_list "[]"
  by unfold_locales (auto simp: or_list_def)

interpretation cat_ov: layering "(@)" "[]"
  by unfold_locales auto

interpretation map_ov: layering "(++)" Map.empty
  by unfold_locales (auto simp: map_add_assoc)

section \<open>Strings\<close>

text \<open>
  \<open>strings.Cut\<close> with a one-character separator: the parts before and after its first
  occurrence, or \<open>None\<close> when it does not occur.
\<close>

definition cut :: "char \<Rightarrow> string \<Rightarrow> (string \<times> string) option" where
  "cut c s = (if c \<in> set s
     then Some (takeWhile (\<lambda>x. x \<noteq> c) s, tl (dropWhile (\<lambda>x. x \<noteq> c) s)) else None)"

lemma cut_None_iff [go_str]: "cut c s = None \<longleftrightarrow> c \<notin> set s"
  by (simp add: cut_def)

lemma cut_Some_iff [go_str]: "cut c s = Some (a, b) \<longleftrightarrow> s = a @ c # b \<and> c \<notin> set a"
proof
  assume *: "cut c s = Some (a, b)"
  then have c: "c \<in> set s" and ab: "a = takeWhile (\<lambda>x. x \<noteq> c) s"
    "b = tl (dropWhile (\<lambda>x. x \<noteq> c) s)" by (auto simp: cut_def split: if_splits)
  have ne: "dropWhile (\<lambda>x. x \<noteq> c) s \<noteq> []" using c by (simp add: dropWhile_eq_Nil_conv)
  have "hd (dropWhile (\<lambda>x. x \<noteq> c) s) = c" using hd_dropWhile[OF ne] by simp
  then have "dropWhile (\<lambda>x. x \<noteq> c) s = c # b" using ne ab by (metis list.collapse)
  moreover have "s = takeWhile (\<lambda>x. x \<noteq> c) s @ dropWhile (\<lambda>x. x \<noteq> c) s" by simp
  ultimately show "s = a @ c # b \<and> c \<notin> set a" using ab by (metis set_takeWhileD)
next
  assume "s = a @ c # b \<and> c \<notin> set a"
  then show "cut c s = Some (a, b)" by (auto simp: cut_def takeWhile_append dropWhile_append)
qed

definition has_prefix :: "string \<Rightarrow> string \<Rightarrow> bool" where
  "has_prefix s p \<longleftrightarrow> take (length p) s = p"

definition has_suffix :: "string \<Rightarrow> string \<Rightarrow> bool" where
  "has_suffix s p \<longleftrightarrow> has_prefix (rev s) (rev p)"

definition trim_suffix :: "string \<Rightarrow> string \<Rightarrow> string" where
  "trim_suffix s p = (if has_suffix s p then take (length s - length p) s else s)"

lemma has_prefix_iff [go_str]: "has_prefix s p \<longleftrightarrow> (\<exists>t. s = p @ t)"
  unfolding has_prefix_def by (metis append_eq_conv_conj append_take_drop_id)

lemma has_suffix_iff [go_str]: "has_suffix s p \<longleftrightarrow> (\<exists>t. s = t @ p)"
  unfolding has_suffix_def has_prefix_iff
  by (metis rev_append rev_rev_ident)

text \<open>\<open>strings.Contains\<close>.\<close>

fun contains_str :: "string \<Rightarrow> string \<Rightarrow> bool" where
  "contains_str [] p \<longleftrightarrow> p = []"
| "contains_str (c # s) p \<longleftrightarrow> has_prefix (c # s) p \<or> contains_str s p"

lemma contains_str_iff [go_str]: "contains_str s p \<longleftrightarrow> (\<exists>a b. s = a @ p @ b)"
proof (induction s)
  case Nil
  show ?case by simp
next
  case (Cons c s)
  show ?case
  proof
    assume "contains_str (c # s) p"
    then consider "has_prefix (c # s) p" | "contains_str s p" by auto
    then show "\<exists>a b. c # s = a @ p @ b"
    proof cases
      case 1
      then show ?thesis by (metis append_Nil has_prefix_iff)
    next
      case 2
      then show ?thesis using Cons.IH by (metis append_Cons)
    qed
  next
    assume "\<exists>a b. c # s = a @ p @ b"
    then obtain a b where ab: "c # s = a @ p @ b" by blast
    show "contains_str (c # s) p"
    proof (cases a)
      case Nil
      then have "has_prefix (c # s) p" using ab by (auto simp: has_prefix_iff)
      then show ?thesis by simp
    next
      case (Cons x xs)
      then show ?thesis using ab Cons.IH by auto
    qed
  qed
qed

text \<open>
  \<open>strings.ReplaceAll\<close> for a non-empty \<open>old\<close>: non-overlapping occurrences, left to right.
\<close>

fun replace_all :: "string \<Rightarrow> string \<Rightarrow> string \<Rightarrow> string" where
  "replace_all old new [] = []"
| "replace_all old new (c # s) =
     (if old \<noteq> [] \<and> has_prefix (c # s) old
      then new @ replace_all old new (drop (length old - 1) s)
      else c # replace_all old new s)"

text \<open>Go's \<open>unicode.IsSpace\<close> on the single bytes of ASCII.\<close>

definition is_space :: "char \<Rightarrow> bool" where
  "is_space c \<longleftrightarrow> of_char c \<in> {9, 10, 11, 12, 13, 32 :: nat}"

definition trim_left :: "(char \<Rightarrow> bool) \<Rightarrow> string \<Rightarrow> string" where
  "trim_left p s = dropWhile p s"

definition trim_right :: "(char \<Rightarrow> bool) \<Rightarrow> string \<Rightarrow> string" where
  "trim_right p s = rev (dropWhile p (rev s))"

definition trim_space :: "string \<Rightarrow> string" where
  "trim_space s = trim_right is_space (trim_left is_space s)"

text \<open>\<open>strings.Split\<close> and \<open>strings.Join\<close> with a one-character separator.\<close>

fun split_on :: "char \<Rightarrow> string \<Rightarrow> string list" where
  "split_on c [] = [[]]"
| "split_on c (x # s) = (if x = c then [] # split_on c s
     else (x # hd (split_on c s)) # tl (split_on c s))"

fun join_on :: "string \<Rightarrow> string list \<Rightarrow> string" where
  "join_on sep [] = []"
| "join_on sep [x] = x"
| "join_on sep (x # y # ys) = x @ sep @ join_on sep (y # ys)"

lemma split_on_ne [simp]: "split_on c s \<noteq> []"
  by (cases s) auto

lemma join_split [go_str]: "join_on [c] (split_on c s) = s"
proof (induction s)
  case Nil
  show ?case by simp
next
  case (Cons x s)
  obtain h t where ht: "split_on c s = h # t" using split_on_ne by (metis list.exhaust)
  then show ?case using Cons.IH by (cases t) auto
qed

lemma split_on_no_sep: "t \<in> set (split_on c s) \<Longrightarrow> c \<notin> set t"
proof (induction s arbitrary: t)
  case Nil
  then show ?case by simp
next
  case (Cons x s)
  then show ?case
    by (cases "split_on c s") (auto split: if_splits)
qed

text \<open>
  ASCII case mapping. \<open>strings.EqualFold\<close> and \<open>strings.ToUpper\<close> also fold letters outside
  ASCII, which are multi-byte here and are left alone.
\<close>

definition to_lower_char :: "char \<Rightarrow> char" where
  "to_lower_char c = (let n = of_char c :: nat in if 65 \<le> n \<and> n \<le> 90 then char_of (n + 32) else c)"

definition to_upper_char :: "char \<Rightarrow> char" where
  "to_upper_char c = (let n = of_char c :: nat in if 97 \<le> n \<and> n \<le> 122 then char_of (n - 32) else c)"

definition equal_fold :: "string \<Rightarrow> string \<Rightarrow> bool" where
  "equal_fold s t \<longleftrightarrow> map to_lower_char s = map to_lower_char t"

section \<open>Numbers and quoting\<close>

fun digits :: "nat \<Rightarrow> string" where
  "digits n = (if n < 10 then [char_of (48 + n)]
     else digits (n div 10) @ [char_of (48 + n mod 10)])"

declare digits.simps [simp del]

text \<open>\<open>strconv.Itoa\<close>, and the \<open>%d\<close> verb.\<close>

definition itoa :: "int \<Rightarrow> string" where
  "itoa i = (if i < 0 then CHR ''-'' # digits (nat (- i)) else digits (nat i))"

lemma digits_in: "d \<in> set (digits n) \<Longrightarrow> 48 \<le> (of_char d :: nat) \<and> (of_char d :: nat) \<le> 57"
proof (induction n rule: digits.induct)
  case (1 n)
  then show ?case
    by (subst (asm) (2) digits.simps) (auto split: if_splits simp: take_bit_eq_mod)
qed

definition undigits :: "string \<Rightarrow> nat" where
  "undigits s = foldl (\<lambda>a d. 10 * a + (of_char d - 48)) 0 s"

lemma undigits_digits [go_str]: "undigits (digits n) = n"
proof (induction n rule: digits.induct)
  case (1 n)
  show ?case
  proof (cases "n < 10")
    case True
    then show ?thesis by (subst digits.simps) (simp add: undigits_def)
  next
    case False
    then have "undigits (digits n) = 10 * undigits (digits (n div 10)) + n mod 10"
      by (subst digits.simps) (simp add: undigits_def)
    then show ?thesis using 1[OF False] by simp
  qed
qed

lemma digits_inj: "digits m = digits n \<longleftrightarrow> m = n"
  by (metis undigits_digits)

lemma digits_no_minus: "digits k \<noteq> CHR ''-'' # x"
proof
  assume "digits k = CHR ''-'' # x"
  then have "CHR ''-'' \<in> set (digits k)" by simp
  from digits_in[OF this] show False by simp
qed

lemma itoa_inj: "itoa m = itoa n \<longleftrightarrow> m = n"
  using digits_no_minus digits_no_minus[symmetric]
  by (cases "m < 0"; cases "n < 0") (simp_all add: itoa_def digits_inj nat_eq_iff)

lemma itoa_chars: "d \<in> set (itoa n) \<Longrightarrow> d = CHR ''-'' \<or> 48 \<le> (of_char d :: nat) \<and> (of_char d :: nat) \<le> 57"
  by (auto simp: itoa_def dest: digits_in split: if_splits)

lemma split_on_app: "c \<notin> set x \<Longrightarrow> split_on c (x @ c # s) = x # split_on c s"
  by (induction x) auto

lemma split_on_none: "c \<notin> set x \<Longrightarrow> split_on c x = [x]"
  by (induction x) auto

lemma split_join: "xs \<noteq> [] \<Longrightarrow> \<forall>x\<in>set xs. c \<notin> set x \<Longrightarrow> split_on c (join_on [c] xs) = xs"
  by (induction "[c]" xs rule: join_on.induct) (auto simp: split_on_app split_on_none)

lemma join_on_inj:
  "xs \<noteq> [] \<Longrightarrow> ys \<noteq> [] \<Longrightarrow> \<forall>x\<in>set xs. c \<notin> set x \<Longrightarrow> \<forall>x\<in>set ys. c \<notin> set x \<Longrightarrow>
   join_on [c] xs = join_on [c] ys \<longleftrightarrow> xs = ys"
  by (metis split_join)
text \<open>
  The \<open>%q\<close> verb, used in error messages only: Go escapes on printable ASCII and the usual
  control characters; other bytes are kept.
\<close>

definition q_char :: "char \<Rightarrow> string" where
  "q_char c = (if c = CHR ''\"'' then [CHR 0x5C, CHR ''\"'']
     else if c = CHR 0x5C then [CHR 0x5C, CHR 0x5C]
     else if c = CHR 0x0A then [CHR 0x5C, CHR ''n'']
     else if c = CHR 0x09 then [CHR 0x5C, CHR ''t'']
     else if c = CHR 0x0D then [CHR 0x5C, CHR ''r''] else [c])"

definition quoted :: "string \<Rightarrow> string" where
  "quoted s = CHR ''\"'' # concat (map q_char s) @ [CHR ''\"'']"

section \<open>Slash-separated paths (package \<open>path\<close>)\<close>

text \<open>One element of \<open>path.Clean\<close>; the accumulator holds the kept elements, last first.\<close>

definition clean_step :: "bool \<Rightarrow> string list \<Rightarrow> string \<Rightarrow> string list" where
  "clean_step rooted acc e =
     (if e = [] \<or> e = ''.'' then acc
      else if e = ''..'' then
        (case acc of
           [] \<Rightarrow> if rooted then [] else [e]
         | t # ts \<Rightarrow> if t = ''..'' then e # acc else ts)
      else e # acc)"

definition path_clean :: "string \<Rightarrow> string" where
  "path_clean p =
     (if p = [] then ''.''
      else let rooted = (hd p = CHR ''/'');
               body = join_on ''/'' (rev (foldl (clean_step rooted) [] (split_on (CHR ''/'') p)))
           in if rooted then CHR ''/'' # body else if body = [] then ''.'' else body)"

definition path_join :: "string list \<Rightarrow> string" where
  "path_join es = (let ne = filter (\<lambda>e. e \<noteq> []) es
     in if ne = [] then [] else path_clean (join_on ''/'' ne))"

text \<open>\<open>path.Dir\<close>: all but the last element, cleaned. \<open>path.Base\<close>: the last element.\<close>

definition path_dir :: "string \<Rightarrow> string" where
  "path_dir p = path_clean (rev (dropWhile (\<lambda>c. c \<noteq> CHR ''/'') (rev p)))"

definition path_base :: "string \<Rightarrow> string" where
  "path_base p =
     (if p = [] then ''.''
      else let q = trim_right (\<lambda>c. c = CHR ''/'') p
           in if q = [] then ''/''
              else rev (takeWhile (\<lambda>c. c \<noteq> CHR ''/'') (rev q)))"

definition is_abs :: "string \<Rightarrow> bool" where
  "is_abs p \<longleftrightarrow> has_prefix p ''/''"

end
