(* ===== verification/Errors.thy ===== *)
theory Errors
  imports Prelude
begin

text \<open>
  The typed errors of \<open>internal/errors\<close> and their process exit codes.

  \<open>goerr\<close> has one constructor per error type the program builds or inspects:
  \<open>Text\<close> is \<open>errors.New\<close>, or \<open>fmt.Errorf\<close> without \<open>%w\<close>, or an error of a library the
  program only prints; \<open>Wrap pre e post\<close> is \<open>fmt.Errorf("pre%wpost", e)\<close>;
  \<open>Canceled\<close> and \<open>DeadlineExceeded\<close> are the two errors of package \<open>context\<close>;
  \<open>Exit_error\<close> is the non-zero exit of a remote command (what \<open>ssh.IsExitError\<close>
  recognises). A function that returns \<open>(T, error)\<close> returns \<open>goerr + T\<close>, and one that
  returns \<open>error\<close> returns \<open>goerr option\<close>.
\<close>

datatype goerr =
    Text string
  | Wrap string goerr string
  | ConfigError string "goerr option"
  | VersionError string string string bool bool
  | LockedError string string
  | SkippedHostsError string "string list"
  | UnreachableError goerr
  | CommandError string goerr
  | PluginError string "goerr option"
  | Exit_error nat
  | Canceled
  | DeadlineExceeded

type_synonym 'a res = "goerr + 'a"

abbreviation wrapf :: "string \<Rightarrow> goerr \<Rightarrow> goerr" where
  "wrapf msg e \<equiv> Wrap (msg @ '': '') e []"

definition map_err :: "(goerr \<Rightarrow> goerr) \<Rightarrow> 'a res \<Rightarrow> 'a res" where
  "map_err f r = (case r of Inl e \<Rightarrow> Inl (f e) | Inr x \<Rightarrow> Inr x)"

definition res_bind :: "'a res \<Rightarrow> ('a \<Rightarrow> 'b res) \<Rightarrow> 'b res" where
  "res_bind r f = (case r of Inl e \<Rightarrow> Inl e | Inr x \<Rightarrow> f x)"

lemma res_bind_simps [simp]: "res_bind (Inl e) f = Inl e" "res_bind (Inr x) f = f x"
  by (simp_all add: res_bind_def)

lemma res_bind_Inr_iff: "res_bind r f = Inr y \<longleftrightarrow> (\<exists>x. r = Inr x \<and> f x = Inr y)"
  by (cases r) simp_all

lemma map_err_simps [simp]: "map_err f (Inl e) = Inl (f e)" "map_err f (Inr x) = Inr x"
  by (simp_all add: map_err_def)

text \<open>A loop \<open>for _, x := range xs { y, err := f(x); if err != nil { return nil, err }; \<dots> }\<close>.\<close>

fun res_map :: "('a \<Rightarrow> 'b res) \<Rightarrow> 'a list \<Rightarrow> 'b list res" where
  "res_map f [] = Inr []"
| "res_map f (x # xs) = (case f x of Inl e \<Rightarrow> Inl e
     | Inr y \<Rightarrow> (case res_map f xs of Inl e \<Rightarrow> Inl e | Inr ys \<Rightarrow> Inr (y # ys)))"

lemma res_map_Inr_iff: "res_map f xs = Inr ys \<longleftrightarrow> list_all2 (\<lambda>x y. f x = Inr y) xs ys"
proof (induction xs arbitrary: ys)
  case Nil
  show ?case by auto
next
  case (Cons x xs)
  have "res_map f (x # xs) = Inr ys \<longleftrightarrow> (\<exists>y zs. ys = y # zs \<and> f x = Inr y \<and> res_map f xs = Inr zs)"
    by (auto split: sum.splits)
  then show ?case by (simp add: Cons.IH list_all2_Cons1)
qed

lemma res_map_length: "res_map f xs = Inr ys \<Longrightarrow> length ys = length xs"
  by (auto simp: res_map_Inr_iff dest: list_all2_lengthD)

text \<open>A loop that stops at the first error of a check.\<close>

fun first_err :: "('a \<Rightarrow> goerr option) \<Rightarrow> 'a list \<Rightarrow> goerr option" where
  "first_err f [] = None"
| "first_err f (x # xs) = (case f x of Some e \<Rightarrow> Some e | None \<Rightarrow> first_err f xs)"

lemma first_err_None_iff: "first_err f xs = None \<longleftrightarrow> (\<forall>x\<in>set xs. f x = None)"
  by (induction xs) (auto split: option.splits)

lemma first_err_Some: "first_err f xs = Some e \<Longrightarrow> \<exists>x\<in>set xs. f x = Some e"
  by (induction xs) (auto split: option.splits)

text \<open>A sequence of checks with early returns.\<close>

definition checks :: "goerr option list \<Rightarrow> goerr option" where
  "checks cs = first_err (\<lambda>c. c) cs"

lemma checks_None_iff [simp]: "checks cs = None \<longleftrightarrow> list_all (\<lambda>c. c = None) cs"
  by (simp add: checks_def first_err_None_iff list_all_iff)

section \<open>Messages\<close>

text \<open>The \<open>Error()\<close> method of each type.\<close>

fun error_msg :: "goerr \<Rightarrow> string" where
  "error_msg (Text s) = s"
| "error_msg (Wrap pre e post) = pre @ error_msg e @ post"
| "error_msg (ConfigError m None) = m"
| "error_msg (ConfigError m (Some e)) = (if m = [] then error_msg e else m @ '': '' @ error_msg e)"
| "error_msg (VersionError have mn mx tooOld tooNew) =
     (if tooNew
      then ''Deployfile version '' @ have @ '' needs a newer whoosh (this build supports up to ''
           @ mx @ ''), upgrade the tool''
      else ''Deployfile version '' @ have @ '' is no longer supported, this whoosh needs version >= ''
           @ mn)"
| "error_msg (LockedError stage host) =
     ''stage '' @ quoted stage @ '' is locked by another deploy on '' @ host
       @ '', run deploy:unlock if it is stale''"
| "error_msg (SkippedHostsError stage hosts) =
     ''stage '' @ quoted stage @ '' deployed, but '' @ itoa (int (length hosts))
       @ '' host(s) were unreachable and skipped: '' @ join_on '', '' hosts"
| "error_msg (UnreachableError e) = error_msg e"
| "error_msg (CommandError h e) = error_msg e"
| "error_msg (PluginError m None) = m"
| "error_msg (PluginError m (Some e)) = m @ '': '' @ error_msg e"
| "error_msg (Exit_error n) = ''Process exited with status '' @ itoa (int n)"
| "error_msg Canceled = ''context canceled''"
| "error_msg DeadlineExceeded = ''context deadline exceeded''"

section \<open>The Unwrap chain\<close>

fun unwrap :: "goerr \<Rightarrow> goerr option" where
  "unwrap (Wrap pre e post) = Some e"
| "unwrap (ConfigError m e) = e"
| "unwrap (UnreachableError e) = Some e"
| "unwrap (CommandError h e) = Some e"
| "unwrap (PluginError m e) = e"
| "unwrap _ = None"

lemma unwrap_size: "unwrap e = Some e' \<Longrightarrow> size e' < size e"
  by (cases e) auto

text \<open>The error itself and everything it wraps, outermost first: what \<open>errors.Is/As\<close> walk.\<close>

function chain :: "goerr \<Rightarrow> goerr list" where
  "chain e = (case unwrap e of None \<Rightarrow> [e] | Some e' \<Rightarrow> e # chain e')"
  by pat_completeness auto
termination
  by (relation "measure size") (auto dest: unwrap_size)

declare chain.simps [simp del]

lemma chain_ne [simp]: "chain e \<noteq> []"
  by (subst chain.simps) (simp split: option.splits)

lemma chain_head: "hd (chain e) = e"
  by (subst chain.simps) (simp split: option.splits)

lemma chain_simps [simp]:
  "chain (Text s) = [Text s]"
  "chain (Wrap pre e post) = Wrap pre e post # chain e"
  "chain (ConfigError m None) = [ConfigError m None]"
  "chain (ConfigError m (Some e)) = ConfigError m (Some e) # chain e"
  "chain (VersionError a b c d f) = [VersionError a b c d f]"
  "chain (LockedError a b) = [LockedError a b]"
  "chain (SkippedHostsError a hs) = [SkippedHostsError a hs]"
  "chain (UnreachableError e) = UnreachableError e # chain e"
  "chain (CommandError h e) = CommandError h e # chain e"
  "chain (PluginError m None) = [PluginError m None]"
  "chain (PluginError m (Some e)) = PluginError m (Some e) # chain e"
  "chain (Exit_error n) = [Exit_error n]"
  "chain Canceled = [Canceled]"
  "chain DeadlineExceeded = [DeadlineExceeded]"
  by (subst chain.simps; simp)+

text \<open>\<open>RootCause\<close>: the loop that follows \<open>Unwrap\<close> to its end.\<close>

function root_cause :: "goerr \<Rightarrow> goerr" where
  "root_cause e = (case unwrap e of None \<Rightarrow> e | Some inner \<Rightarrow> root_cause inner)"
  by pat_completeness auto
termination
  by (relation "measure size") (auto dest: unwrap_size)

declare root_cause.simps [simp del]

lemma root_cause_last: "root_cause e = last (chain e)"
proof (induction e rule: root_cause.induct)
  case (1 e)
  then show ?case
    by (cases "unwrap e") (simp_all add: root_cause.simps[of e] chain.simps[of e])
qed

definition is_canceled :: "goerr \<Rightarrow> bool" where
  "is_canceled e \<longleftrightarrow> Canceled \<in> set (chain e)"

text \<open>The test \<open>errors.Is(err, context.Canceled) || errors.Is(err, context.DeadlineExceeded)\<close>.\<close>

definition is_ctx_err :: "goerr \<Rightarrow> bool" where
  "is_ctx_err e \<longleftrightarrow> Canceled \<in> set (chain e) \<or> DeadlineExceeded \<in> set (chain e)"

fun is_unreachable_type :: "goerr \<Rightarrow> bool" where
  "is_unreachable_type (UnreachableError e) = True"
| "is_unreachable_type _ = False"

definition is_unreachable :: "goerr \<Rightarrow> bool" where
  "is_unreachable e \<longleftrightarrow> list_ex is_unreachable_type (chain e)"

fun is_exit_type :: "goerr \<Rightarrow> bool" where
  "is_exit_type (Exit_error n) = True"
| "is_exit_type _ = False"

definition is_exit_error :: "goerr \<Rightarrow> bool" where
  "is_exit_error e \<longleftrightarrow> list_ex is_exit_type (chain e)"

lemma is_ctx_err_simps [simp]:
  "is_ctx_err (Text s) = False"
  "is_ctx_err (Wrap pre e post) = is_ctx_err e"
  "is_ctx_err (UnreachableError e) = is_ctx_err e"
  "is_ctx_err (CommandError h e) = is_ctx_err e"
  "is_ctx_err (Exit_error n) = False"
  "is_ctx_err Canceled" "is_ctx_err DeadlineExceeded"
  by (simp_all add: is_ctx_err_def)

lemma is_unreachable_simps [simp]:
  "is_unreachable (Text s) = False"
  "is_unreachable (Wrap pre e post) = is_unreachable e"
  "is_unreachable (UnreachableError e) = True"
  "is_unreachable (CommandError h e) = is_unreachable e"
  "is_unreachable (Exit_error n) = False"
  "is_unreachable Canceled = False" "is_unreachable DeadlineExceeded = False"
  by (simp_all add: is_unreachable_def)

lemma is_exit_error_simps [simp]:
  "is_exit_error (Text s) = False"
  "is_exit_error (Wrap pre e post) = is_exit_error e"
  "is_exit_error (UnreachableError e) = is_exit_error e"
  "is_exit_error (CommandError h e) = is_exit_error e"
  "is_exit_error (Exit_error n) = True"
  "is_exit_error Canceled = False" "is_exit_error DeadlineExceeded = False"
  by (simp_all add: is_exit_error_def)

section \<open>Exit codes\<close>

definition CodeOK :: int where "CodeOK = 0"
definition CodeUnknown :: int where "CodeUnknown = 1"
definition CodeUsage :: int where "CodeUsage = 2"
definition CodeInterrupted :: int where "CodeInterrupted = 130"
definition CodeConfig :: int where "CodeConfig = 10"
definition CodeLocked :: int where "CodeLocked = 11"
definition CodeUnreachable :: int where "CodeUnreachable = 20"
definition CodeSkippedHosts :: int where "CodeSkippedHosts = 21"
definition CodeCommandFailed :: int where "CodeCommandFailed = 30"
definition CodePlugin :: int where "CodePlugin = 40"

lemmas code_defs = CodeOK_def CodeUnknown_def CodeUsage_def CodeInterrupted_def CodeConfig_def
  CodeLocked_def CodeUnreachable_def CodeSkippedHosts_def CodeCommandFailed_def CodePlugin_def

text \<open>The \<open>Code()\<close> method: \<open>None\<close> for the types that do not implement \<open>Error\<close>.\<close>

fun code_method :: "goerr \<Rightarrow> int option" where
  "code_method (ConfigError m e) = Some CodeConfig"
| "code_method (VersionError a b c d e) = Some CodeConfig"
| "code_method (LockedError s h) = Some CodeLocked"
| "code_method (SkippedHostsError s hs) = Some CodeSkippedHosts"
| "code_method (UnreachableError e) = Some CodeUnreachable"
| "code_method (CommandError h e) = Some CodeCommandFailed"
| "code_method (PluginError m e) = Some CodePlugin"
| "code_method _ = None"

text \<open>\<open>AsType[Error]\<close>: the code of the first error of the chain that has one.\<close>

definition as_coded :: "goerr \<Rightarrow> int option" where
  "as_coded e = (case List.map_filter code_method (chain e) of [] \<Rightarrow> None | c # _ \<Rightarrow> Some c)"

definition code :: "goerr option \<Rightarrow> int" where
  "code err = (case err of None \<Rightarrow> CodeOK
     | Some e \<Rightarrow> (case as_coded e of Some c \<Rightarrow> c | None \<Rightarrow> CodeUnknown))"

definition as_config :: "goerr option \<Rightarrow> goerr option" where
  "as_config err = (case err of None \<Rightarrow> None
     | Some e \<Rightarrow> if code (Some e) \<noteq> CodeUnknown then Some e else Some (ConfigError [] (Some e)))"

lemma as_coded_simps [simp]:
  "as_coded (Text s) = None"
  "as_coded (Wrap pre e post) = as_coded e"
  "as_coded (ConfigError m x) = Some CodeConfig"
  "as_coded (UnreachableError e) = Some CodeUnreachable"
  "as_coded (CommandError h e) = Some CodeCommandFailed"
  "as_coded (PluginError m x) = Some CodePlugin"
  "as_coded (SkippedHostsError s hs) = Some CodeSkippedHosts"
  "as_coded (VersionError a b c d f) = Some CodeConfig"
  "as_coded (Exit_error n) = None"
  "as_coded Canceled = None" "as_coded DeadlineExceeded = None"
  by (cases x; simp add: as_coded_def List.map_filter_simps)+

text \<open>
  A message may be wrapped around an error any number of times without changing the exit
  status the process ends with: \<open>errors.Code\<close> sees through every \<open>fmt.Errorf("\<dots>%w")\<close> layer.
\<close>

theorem code_through_wraps:
  "code (Some (foldr (\<lambda>(pre, post) e. Wrap pre e post) layers e)) = code (Some e)"
proof -
  have "as_coded (foldr (\<lambda>(pre, post) e. Wrap pre e post) layers e) = as_coded e"
    by (induction layers) auto
  then show ?thesis by (simp add: code_def)
qed

lemma as_config_code: "code (as_config (Some e)) \<noteq> CodeUnknown"
  by (auto simp: as_config_def code_def code_defs)

lemma as_config_idem: "as_config (as_config err) = as_config err"
  by (cases err) (auto simp: as_config_def code_def code_defs)

lemma as_config_msg: "map_option error_msg (as_config err) = map_option error_msg err"
  by (cases err) (auto simp: as_config_def)

lemma code_range:
  "code err \<in> {CodeOK, CodeUnknown, CodeConfig, CodeLocked, CodeUnreachable, CodeSkippedHosts,
     CodeCommandFailed, CodePlugin}"
proof (cases err)
  case (Some e)
  have "set (List.map_filter code_method es) \<subseteq> {CodeConfig, CodeLocked, CodeUnreachable,
      CodeSkippedHosts, CodeCommandFailed, CodePlugin}" for es
  proof (induction es)
    case (Cons a es)
    then show ?case by (cases a) (auto simp: List.map_filter_simps)
  qed (simp add: List.map_filter_simps)
  from this[of "chain e"] show ?thesis
    using Some by (cases "List.map_filter code_method (chain e)")
      (auto simp: code_def as_coded_def)
qed (simp add: code_def)

text \<open>
  Marking a load failure as a configuration error (\<open>AsConfig\<close>) keeps nil as nil, never changes
  the printed message, always leaves an error with a specific exit code, keeps a code the error
  already carries, and changes nothing when it is applied again.
\<close>

theorem as_config_correct:
  "map_option error_msg (as_config err) = map_option error_msg err
   \<and> as_config (as_config err) = as_config err
   \<and> code (as_config err) = (if code err = CodeUnknown then CodeConfig else code err)"
proof -
  have "code (as_config err) = (if code err = CodeUnknown then CodeConfig else code err)"
    by (cases err) (auto simp: as_config_def code_def code_defs)
  then show ?thesis by (simp add: as_config_idem as_config_msg)
qed

end
