(* ===== verification/Runner.thy ===== *)
theory Runner
  imports Errors
begin

text \<open>
  Running a command on many targets (\<open>internal/runner/runner.go\<close>, \<open>cluster.go\<close>).

  \<open>Fanout\<close> is concurrent: it is a step relation over the status of every target, with the
  scheduler, the outcome of each call and an operator's cancellation left open; what holds in
  every reachable state holds for every interleaving. The connection pool of a \<open>Cluster\<close> is a
  deterministic state machine over its map of cached connections; dialing and running a command
  belong to the transport and are the parameter \<open>'w net\<close> (\<open>'w\<close> is the state of the outside
  world). \<open>seq_run\<close> is the schedule that takes the targets one by one; it is proved to be a run
  of the step relation.
\<close>

record target =
  t_Host :: string
  t_Port :: int
  t_User :: string
  t_IdentityFile :: string
  t_Passphrase :: string
  t_Local :: bool
  t_StrictHostKey :: "bool option"

record result =
  r_Host :: string
  r_Err :: "goerr option"

definition Failed :: "result list \<Rightarrow> bool" where
  "Failed results \<longleftrightarrow> list_ex (\<lambda>r. r_Err r \<noteq> None) results"

section \<open>Fanout\<close>

text \<open>
  A target waits for a slot, has a goroutine that has not looked at the context yet, is inside
  \<open>fn\<close>, or is done with a result. \<open>fs_cause\<close> is the state of the derived context: not
  cancelled, cancelled by the parent with the given context error, or cancelled by the first
  fail-fast error, whose message the context carries as its cause.
\<close>

datatype status = Waiting | Launched | Running | Done "goerr option"

datatype ctx_state = Live | ParentDone goerr | FailedFast goerr

record fan =
  fs_status :: "status list"
  fs_ctx :: ctx_state

text \<open>\<open>ctx.Err()\<close> and \<open>context.Cause(ctx)\<close>.\<close>

fun ctx_err :: "ctx_state \<Rightarrow> goerr option" where
  "ctx_err Live = None"
| "ctx_err (ParentDone e) = Some e"
| "ctx_err (FailedFast cause) = Some Canceled"

text \<open>
  \<open>context.Cause\<close>: a parent that was cancelled without a cause of its own gives its error. (A parent cancelled by a signal
  has one, the signal's, so the text of a skipped target's error names it; which targets are skipped does not depend on it.)
\<close>

fun ctx_cause :: "ctx_state \<Rightarrow> goerr option" where
  "ctx_cause Live = None"
| "ctx_cause (ParentDone e) = Some e"
| "ctx_cause (FailedFast cause) = Some cause"

text \<open>\<open>skippedError\<close>; \<open>errors.Is(cause, ctx.Err())\<close> looks for the context error in the cause.\<close>

definition skippedError :: "ctx_state \<Rightarrow> goerr option" where
  "skippedError ctx = (case ctx_err ctx of None \<Rightarrow> None
     | Some e \<Rightarrow> (case ctx_cause ctx of
          Some cause \<Rightarrow> if \<not> List.member (chain cause) e
             then Some (Wrap [] e ('': '' @ error_msg cause)) else Some e
        | None \<Rightarrow> Some e))"

definition busy :: "status \<Rightarrow> bool" where
  "busy s \<longleftrightarrow> s = Launched \<or> s = Running"

definition n_busy :: "status list \<Rightarrow> nat" where
  "n_busy ss = length (filter busy ss)"

text \<open>\<open>concurrency <= 0\<close> means one slot per target.\<close>

definition slots :: "int \<Rightarrow> nat \<Rightarrow> nat" where
  "slots concurrency n = (if concurrency \<le> 0 then n else nat concurrency)"

definition fan_init :: "nat \<Rightarrow> fan" where
  "fan_init n = \<lparr>fs_status = replicate n Waiting, fs_ctx = Live\<rparr>"

text \<open>
  The steps. \<open>out i e\<close> says that \<open>fn\<close> may end with \<open>e\<close> on target \<open>i\<close>. Targets are
  launched in order (the loop blocks on the semaphore); a goroutine that finds the context done
  records the skip without calling \<open>fn\<close>; the first fail-fast error cancels the context, later
  ones do not replace the cause; the parent context may end at any moment.
\<close>

inductive fan_step ::
  "string list \<Rightarrow> nat \<Rightarrow> bool \<Rightarrow> (nat \<Rightarrow> goerr option \<Rightarrow> bool) \<Rightarrow> fan \<Rightarrow> fan \<Rightarrow> bool"
  for hosts :: "string list" and cap :: nat and failFast :: bool
    and out :: "nat \<Rightarrow> goerr option \<Rightarrow> bool" where
  launch: "i < length (fs_status s) \<Longrightarrow> fs_status s ! i = Waiting
     \<Longrightarrow> \<forall>j<i. fs_status s ! j \<noteq> Waiting \<Longrightarrow> n_busy (fs_status s) < cap
     \<Longrightarrow> fan_step hosts cap failFast out s (s\<lparr>fs_status := (fs_status s)[i := Launched]\<rparr>)"
| skip: "i < length (fs_status s) \<Longrightarrow> fs_status s ! i = Launched \<Longrightarrow> fs_ctx s \<noteq> Live
     \<Longrightarrow> fan_step hosts cap failFast out s
           (s\<lparr>fs_status := (fs_status s)[i := Done (skippedError (fs_ctx s))]\<rparr>)"
| call: "i < length (fs_status s) \<Longrightarrow> fs_status s ! i = Launched \<Longrightarrow> fs_ctx s = Live
     \<Longrightarrow> fan_step hosts cap failFast out s (s\<lparr>fs_status := (fs_status s)[i := Running]\<rparr>)"
| ok: "i < length (fs_status s) \<Longrightarrow> fs_status s ! i = Running \<Longrightarrow> out i None
     \<Longrightarrow> fan_step hosts cap failFast out s (s\<lparr>fs_status := (fs_status s)[i := Done None]\<rparr>)"
| fail: "i < length (fs_status s) \<Longrightarrow> fs_status s ! i = Running \<Longrightarrow> out i (Some e)
     \<Longrightarrow> ctx' = (if failFast \<and> fs_ctx s = Live
           then FailedFast (wrapf (hosts ! i @ '' failed'') e) else fs_ctx s)
     \<Longrightarrow> fan_step hosts cap failFast out s
           (s\<lparr>fs_status := (fs_status s)[i := Done (Some e)], fs_ctx := ctx'\<rparr>)"
| parent: "fs_ctx s = Live \<Longrightarrow> ce \<in> {Canceled, DeadlineExceeded}
     \<Longrightarrow> fan_step hosts cap failFast out s (s\<lparr>fs_ctx := ParentDone ce\<rparr>)"

inductive fan_reach ::
  "string list \<Rightarrow> nat \<Rightarrow> bool \<Rightarrow> (nat \<Rightarrow> goerr option \<Rightarrow> bool) \<Rightarrow> fan \<Rightarrow> bool"
  for hosts cap failFast out where
  start: "fan_reach hosts cap failFast out (fan_init (length hosts))"
| step: "fan_reach hosts cap failFast out s \<Longrightarrow> fan_step hosts cap failFast out s t
     \<Longrightarrow> fan_reach hosts cap failFast out t"

definition fan_results :: "string list \<Rightarrow> fan \<Rightarrow> result list" where
  "fan_results hosts s = map (\<lambda>(h, st). \<lparr>r_Host = h,
     r_Err = (case st of Done e \<Rightarrow> e | _ \<Rightarrow> None)\<rparr>) (zip hosts (fs_status s))"

definition fan_final :: "fan \<Rightarrow> bool" where
  "fan_final s \<longleftrightarrow> (\<forall>st\<in>set (fs_status s). \<exists>e. st = Done e)"

subsection \<open>The invariant\<close>

text \<open>
  What every interleaving keeps: as many statuses as targets, never more busy goroutines than
  slots, every finished target either reports an outcome of its own call or the skip error of a
  cancelled context, and a fail-fast cancellation has a failed call behind it.
\<close>

definition done_ok :: "(nat \<Rightarrow> goerr option \<Rightarrow> bool) \<Rightarrow> ctx_state \<Rightarrow> nat \<Rightarrow> status \<Rightarrow> bool" where
  "done_ok out ctx i st = (case st of
     Done e \<Rightarrow> out i e \<or> (ctx \<noteq> Live \<and> e = skippedError ctx) | _ \<Rightarrow> True)"

definition cause_ok ::
  "bool \<Rightarrow> (nat \<Rightarrow> goerr option \<Rightarrow> bool) \<Rightarrow> fan \<Rightarrow> bool" where
  "cause_ok failFast out s = (case fs_ctx s of
     Live \<Rightarrow> (\<forall>i<length (fs_status s). failFast \<longrightarrow> (\<forall>e. fs_status s ! i \<noteq> Done (Some e)))
   | ParentDone e \<Rightarrow> e \<in> {Canceled, DeadlineExceeded}
   | FailedFast c \<Rightarrow> failFast \<and>
       (\<exists>i e. i < length (fs_status s) \<and> fs_status s ! i = Done (Some e) \<and> out i (Some e)))"

definition fan_inv ::
  "string list \<Rightarrow> nat \<Rightarrow> bool \<Rightarrow> (nat \<Rightarrow> goerr option \<Rightarrow> bool) \<Rightarrow> fan \<Rightarrow> bool" where
  "fan_inv hosts cap failFast out s \<longleftrightarrow>
     length (fs_status s) = length hosts
   \<and> n_busy (fs_status s) \<le> cap
   \<and> (\<forall>i<length (fs_status s). done_ok out (fs_ctx s) i (fs_status s ! i))
   \<and> cause_ok failFast out s"

lemma n_busy_update:
  "i < length ss \<Longrightarrow>
   n_busy (ss[i := st]) + (if busy (ss ! i) then 1 else 0) = n_busy ss + (if busy st then 1 else 0)"
proof (induction ss arbitrary: i)
  case (Cons a ss)
  then show ?case by (cases i) (auto simp: n_busy_def)
qed simp

lemma n_busy_upd_le:
  "i < length ss \<Longrightarrow> busy (ss ! i) \<or> \<not> busy st \<Longrightarrow> n_busy (ss[i := st]) \<le> n_busy ss"
  using n_busy_update[of i ss st] by (auto split: if_splits)

lemma busy_simps [simp]:
  "busy Launched" "busy Running" "\<not> busy Waiting" "\<not> busy (Done e)"
  by (simp_all add: busy_def)

lemma fan_inv_init: "fan_inv hosts cap failFast out (fan_init (length hosts))"
  by (auto simp: fan_inv_def fan_init_def n_busy_def done_ok_def cause_ok_def)

lemma skipped_err: "ctx \<noteq> Live \<Longrightarrow> \<exists>e. skippedError ctx = Some e"
  by (cases ctx) (auto simp: skippedError_def)

lemma done_ok_mono: "done_ok out Live i st \<Longrightarrow> done_ok out ctx i st"
  by (auto simp: done_ok_def split: status.splits)

lemma cause_ok_upd:
  "cause_ok ff out s \<Longrightarrow> \<forall>e. fs_status s ! i \<noteq> Done e \<Longrightarrow> i < length (fs_status s) \<Longrightarrow>
   fs_ctx s = Live \<longrightarrow> ff \<longrightarrow> (\<forall>e. st \<noteq> Done (Some e)) \<Longrightarrow>
   cause_ok ff out (s\<lparr>fs_status := (fs_status s)[i := st]\<rparr>)"
  by (cases "fs_ctx s") (auto simp: cause_ok_def nth_list_update)

lemma fan_step_inv:
  "fan_step hosts cap ff out s t \<Longrightarrow> fan_inv hosts cap ff out s \<Longrightarrow> fan_inv hosts cap ff out t"
proof (induction rule: fan_step.induct)
  case (launch i s)
  then have "n_busy ((fs_status s)[i := Launched]) \<le> cap"
    using n_busy_update[of i "fs_status s" Launched] by simp
  then show ?case
    using launch by (auto simp: fan_inv_def done_ok_def nth_list_update intro!: cause_ok_upd)
next
  case (skip i s)
  then show ?case
    using n_busy_upd_le[of i "fs_status s"] skipped_err[of "fs_ctx s"]
    by (auto simp: fan_inv_def done_ok_def nth_list_update intro!: cause_ok_upd intro: le_trans)
next
  case (call i s)
  then show ?case
    using n_busy_upd_le[of i "fs_status s" Running]
    by (auto simp: fan_inv_def done_ok_def nth_list_update intro!: cause_ok_upd intro: le_trans)
next
  case (ok i s)
  then show ?case
    using n_busy_upd_le[of i "fs_status s" "Done None"]
    by (auto simp: fan_inv_def done_ok_def nth_list_update intro!: cause_ok_upd intro: le_trans)
next
  case (fail i s e ctx')
  have le: "n_busy ((fs_status s)[i := Done (Some e)]) \<le> cap"
    using fail n_busy_upd_le[of i "fs_status s" "Done (Some e)"] by (simp add: fan_inv_def)
  have ctx: "ctx' = fs_ctx s \<or> fs_ctx s = Live" using fail.hyps(4) by (simp split: if_splits)
  have d: "done_ok out ctx' j ((fs_status s)[i := Done (Some e)] ! j)"
    if "j < length (fs_status s)" for j
  proof (cases "j = i")
    case True
    then show ?thesis using fail.hyps by (simp add: done_ok_def)
  next
    case False
    then have "done_ok out (fs_ctx s) j (fs_status s ! j)" using fail.prems that by (simp add: fan_inv_def)
    then show ?thesis using ctx False by (auto intro: done_ok_mono)
  qed
  have c: "cause_ok ff out (s\<lparr>fs_status := (fs_status s)[i := Done (Some e)], fs_ctx := ctx'\<rparr>)"
  proof (cases "fs_ctx s")
    case Live
    then show ?thesis using fail by (auto simp: cause_ok_def fan_inv_def nth_list_update)
  next
    case (ParentDone pe)
    then show ?thesis using fail by (auto simp: cause_ok_def fan_inv_def)
  next
    case (FailedFast c)
    then obtain j e' where j: "j < length (fs_status s)" "fs_status s ! j = Done (Some e')"
      "out j (Some e')" "ff" using fail.prems by (auto simp: cause_ok_def fan_inv_def)
    then have "j \<noteq> i" using fail.hyps by auto
    then show ?thesis using j FailedFast fail.hyps(4) by (auto simp: cause_ok_def nth_list_update)
  qed
  show ?case using fail.prems le d c by (simp add: fan_inv_def)
next
  case (parent s ce)
  then show ?case by (auto simp: fan_inv_def cause_ok_def intro: done_ok_mono)
qed

lemma fan_reach_inv: "fan_reach hosts cap ff out s \<Longrightarrow> fan_inv hosts cap ff out s"
  by (induction rule: fan_reach.induct) (auto intro: fan_inv_init fan_step_inv)

inductive_cases fan_step_from: "fan_step hosts cap ff out s t"

lemma fan_results_hosts:
  "fan_inv hosts cap ff out s \<Longrightarrow> map r_Host (fan_results hosts s) = hosts"
  by (simp add: fan_results_def fan_inv_def case_prod_beta o_def map_fst_zip)

lemma fan_results_nth:
  "fan_inv hosts cap ff out s \<Longrightarrow> fan_final s \<Longrightarrow> i < length hosts \<Longrightarrow>
   fs_status s ! i = Done (r_Err (fan_results hosts s ! i))"
proof -
  assume inv: "fan_inv hosts cap ff out s" and fin: "fan_final s" and i: "i < length hosts"
  then have len: "length (fs_status s) = length hosts" by (simp add: fan_inv_def)
  then have "fs_status s ! i \<in> set (fs_status s)" using i by simp
  then obtain e where "fs_status s ! i = Done e" using fin by (auto simp: fan_final_def)
  then show ?thesis using i len by (simp add: fan_results_def)
qed

text \<open>A target that never started reports the context's error, whatever failure is wrapped behind it.\<close>

lemma skipped_ctx:
  assumes "fan_reach hosts cap ff out s" "fs_ctx s \<noteq> Live"
  shows "\<exists>e. skippedError (fs_ctx s) = Some e \<and> is_ctx_err e"
proof -
  have "fs_ctx s = ParentDone e \<Longrightarrow> e \<in> {Canceled, DeadlineExceeded}" for e
    using assms(1) by (induction arbitrary: e rule: fan_reach.induct) (auto simp: fan_init_def elim!: fan_step.cases split: if_splits)
  then show ?thesis using assms(2)
    by (cases "fs_ctx s") (auto simp: skippedError_def is_ctx_err_def)
qed

text \<open>
  C13. Whatever the interleaving, a finished fan-out reports one result per target in target order;
  each result is the outcome of that target's own call, or the error of a context that ended before
  the call started, recognisable as a context error; and when results carry such collateral errors because of fail-fast, some other
  target's result is the genuine failure that caused them.
\<close>

theorem fanout_results:
  assumes "fan_reach hosts cap ff out s" and "fan_final s"
  shows "map r_Host (fan_results hosts s) = hosts
    \<and> (\<forall>i<length hosts. out i (r_Err (fan_results hosts s ! i))
         \<or> (\<exists>e. fs_ctx s \<noteq> Live \<and> r_Err (fan_results hosts s ! i) = Some e
               \<and> skippedError (fs_ctx s) = Some e \<and> is_ctx_err e))
    \<and> (\<forall>c. fs_ctx s = FailedFast c \<longrightarrow> ff \<and>
         (\<exists>j<length hosts. \<exists>e. r_Err (fan_results hosts s ! j) = Some e \<and> out j (Some e)))"
proof -
  have inv: "fan_inv hosts cap ff out s" using assms(1) by (rule fan_reach_inv)
  have len: "length (fs_status s) = length hosts" using inv by (simp add: fan_inv_def)
  note nth = fan_results_nth[OF inv assms(2)]
  have own: "out i (r_Err (fan_results hosts s ! i))
      \<or> (fs_ctx s \<noteq> Live \<and> r_Err (fan_results hosts s ! i) = skippedError (fs_ctx s))"
    if i: "i < length hosts" for i
    using inv nth[OF i] i len by (auto simp: fan_inv_def done_ok_def)
  have cause: "ff \<and> (\<exists>j<length hosts. \<exists>e. r_Err (fan_results hosts s ! j) = Some e \<and> out j (Some e))"
    if c: "fs_ctx s = FailedFast c" for c
  proof -
    obtain j e where j: "ff" "j < length hosts" "fs_status s ! j = Done (Some e)" "out j (Some e)"
      using inv c len by (auto simp: fan_inv_def cause_ok_def)
    then show ?thesis using nth[of j] by auto
  qed
  then show ?thesis using fan_results_hosts[OF inv] own skipped_ctx[OF assms(1)] by metis
qed

text \<open>
  C37. The concurrency limit is never exceeded: at every moment of every interleaving at most
  \<open>concurrency\<close> targets are being worked on (all of them when the limit is 0).
\<close>

theorem fanout_bounded:
  assumes "fan_reach hosts (slots concurrency (length hosts)) ff out s"
  shows "n_busy (fs_status s) \<le> (if concurrency \<le> 0 then length hosts else nat concurrency)"
  using fan_reach_inv[OF assms] by (simp add: fan_inv_def slots_def)

subsection \<open>The one-by-one schedule\<close>

text \<open>
  The targets one by one, threading the state of the outside world. \<open>perr w\<close> is the error of
  the parent context (an operator's Ctrl-C, a deadline) as it is observed in world \<open>w\<close>.
\<close>

definition observe :: "('w \<Rightarrow> goerr option) \<Rightarrow> ctx_state \<Rightarrow> 'w \<Rightarrow> ctx_state" where
  "observe perr ctx w = (if ctx = Live then (case perr w of None \<Rightarrow> Live | Some e \<Rightarrow> ParentDone e) else ctx)"

definition after_fail ::
  "('w \<Rightarrow> goerr option) \<Rightarrow> bool \<Rightarrow> string \<Rightarrow> goerr \<Rightarrow> 'w \<Rightarrow> ctx_state" where
  "after_fail perr ff host err w = (let ctx = observe perr Live w in
     if ff \<and> ctx = Live then FailedFast (wrapf (host @ '' failed'') err) else ctx)"

fun seq_run :: "('w \<Rightarrow> goerr option) \<Rightarrow> bool \<Rightarrow> (target \<Rightarrow> 'w \<Rightarrow> goerr option \<times> 'w) \<Rightarrow> ctx_state
    \<Rightarrow> target list \<Rightarrow> 'w \<Rightarrow> result list \<times> 'w" where
  "seq_run perr ff fn ctx [] w = ([], w)"
| "seq_run perr ff fn ctx (t # ts) w = (let c = observe perr ctx w in
     if c \<noteq> Live then (let (rs, w') = seq_run perr ff fn c ts w
       in (\<lparr>r_Host = t_Host t, r_Err = skippedError c\<rparr> # rs, w'))
     else (case fn t w of
         (None, w1) \<Rightarrow> (let (rs, w') = seq_run perr ff fn c ts w1
           in (\<lparr>r_Host = t_Host t, r_Err = None\<rparr> # rs, w'))
       | (Some err, w1) \<Rightarrow> (let (rs, w') = seq_run perr ff fn (after_fail perr ff (t_Host t) err w1) ts w1
           in (\<lparr>r_Host = t_Host t, r_Err = Some err\<rparr> # rs, w'))))"

lemma seq_run_hosts: "map r_Host (fst (seq_run perr ff fn ctx ts w)) = map t_Host ts"
  by (induction perr ff fn ctx ts w rule: seq_run.induct)
     (auto simp: Let_def split: prod.splits option.splits)

text \<open>\<open>outcomes\<close> relates a position to the results its call can have.\<close>

definition outcomes ::
  "(target \<Rightarrow> 'w \<Rightarrow> goerr option \<times> 'w) \<Rightarrow> target list \<Rightarrow> nat \<Rightarrow> goerr option \<Rightarrow> bool" where
  "outcomes fn ts i e \<longleftrightarrow> i < length ts \<and> (\<exists>w. fst (fn (ts ! i) w) = e)"

definition perr_ok :: "('w \<Rightarrow> goerr option) \<Rightarrow> bool" where
  "perr_ok perr \<longleftrightarrow> (\<forall>w. perr w \<in> {None, Some Canceled, Some DeadlineExceeded})"

lemma perr_okD: "perr_ok perr \<Longrightarrow> perr w = Some e \<Longrightarrow> e \<in> {Canceled, DeadlineExceeded}"
  unfolding perr_ok_def by (drule spec[of _ w]) auto

text \<open>A state in which a prefix is done and the rest has not started.\<close>

definition at :: "goerr option list \<Rightarrow> nat \<Rightarrow> ctx_state \<Rightarrow> fan" where
  "at ds k ctx = \<lparr>fs_status = map Done ds @ replicate k Waiting, fs_ctx = ctx\<rparr>"

lemma at_init: "fan_init n = at [] n Live" by (simp add: fan_init_def at_def)

lemma n_busy_app [simp]: "n_busy (xs @ ys) = n_busy xs + n_busy ys" by (simp add: n_busy_def)
lemma n_busy_done [simp]: "n_busy (map Done ds) = 0" by (simp add: n_busy_def o_def)
lemma n_busy_wait [simp]: "n_busy (replicate k Waiting) = 0" by (simp add: n_busy_def)
lemma n_busy_Cons: "n_busy (x # xs) = (if busy x then 1 else 0) + n_busy xs" by (simp add: n_busy_def)

lemma at_observe:
  assumes "fan_reach hosts cap ff out (at ds k ctx)" "perr_ok perr"
  shows "fan_reach hosts cap ff out (at ds k (observe perr ctx w))"
proof (cases "ctx = Live \<and> perr w \<noteq> None")
  case True
  then obtain e where e: "perr w = Some e" "e \<in> {Canceled, DeadlineExceeded}" "ctx = Live"
    using perr_okD[OF assms(2)] by blast
  have "fan_step hosts cap ff out (at ds k ctx) ((at ds k ctx)\<lparr>fs_ctx := ParentDone e\<rparr>)"
    using e by (intro fan_step.parent) (auto simp: at_def)
  then show ?thesis using assms(1) e by (auto intro: fan_reach.step simp: at_def observe_def)
next
  case False
  then have "observe perr ctx w = ctx" by (auto simp: observe_def)
  then show ?thesis using assms(1) by simp
qed

lemma at_launch:
  assumes "fan_reach hosts cap ff out (at ds (Suc k) ctx)" "0 < cap"
  shows "fan_reach hosts cap ff out
    \<lparr>fs_status = map Done ds @ Launched # replicate k Waiting, fs_ctx = ctx\<rparr>"
proof -
  have "fan_step hosts cap ff out (at ds (Suc k) ctx)
     ((at ds (Suc k) ctx)\<lparr>fs_status := (fs_status (at ds (Suc k) ctx))[length ds := Launched]\<rparr>)"
    using assms(2) by (intro fan_step.launch) (auto simp: at_def nth_append n_busy_Cons)
  then show ?thesis using assms(1) by (auto intro: fan_reach.step simp: at_def list_update_append)
qed

lemma at_skip:
  assumes "fan_reach hosts cap ff out (at ds (Suc k) ctx)" "0 < cap" "ctx \<noteq> Live"
  shows "fan_reach hosts cap ff out (at (ds @ [skippedError ctx]) k ctx)"
proof -
  let ?s = "\<lparr>fs_status = map Done ds @ Launched # replicate k Waiting, fs_ctx = ctx\<rparr>"
  have "fan_step hosts cap ff out ?s
     (?s\<lparr>fs_status := (fs_status ?s)[length ds := Done (skippedError (fs_ctx ?s))]\<rparr>)"
    using assms(3) by (intro fan_step.skip) (auto simp: nth_append)
  from fan_reach.step[OF at_launch[OF assms(1,2)] this] show ?thesis
    by (simp add: at_def list_update_append)
qed

lemma at_running:
  assumes "fan_reach hosts cap ff out (at ds (Suc k) Live)" "0 < cap"
  shows "fan_reach hosts cap ff out
    \<lparr>fs_status = map Done ds @ Running # replicate k Waiting, fs_ctx = Live\<rparr>"
proof -
  let ?s = "\<lparr>fs_status = map Done ds @ Launched # replicate k Waiting, fs_ctx = Live\<rparr>"
  have "fan_step hosts cap ff out ?s (?s\<lparr>fs_status := (fs_status ?s)[length ds := Running]\<rparr>)"
    by (intro fan_step.call) (auto simp: nth_append)
  from fan_reach.step[OF at_launch[OF assms(1,2)] this] show ?thesis
    by (simp add: list_update_append)
qed

lemma at_ok:
  assumes "fan_reach hosts cap ff out (at ds (Suc k) Live)" "0 < cap" "out (length ds) None"
  shows "fan_reach hosts cap ff out (at (ds @ [None]) k Live)"
proof -
  let ?s = "\<lparr>fs_status = map Done ds @ Running # replicate k Waiting, fs_ctx = Live\<rparr>"
  have "fan_step hosts cap ff out ?s (?s\<lparr>fs_status := (fs_status ?s)[length ds := Done None]\<rparr>)"
    using assms(3) by (intro fan_step.ok) (auto simp: nth_append)
  from fan_reach.step[OF at_running[OF assms(1,2)] this] show ?thesis
    by (simp add: at_def list_update_append)
qed

lemma at_fail:
  assumes "fan_reach hosts cap ff out (at ds (Suc k) Live)" "0 < cap"
    "out (length ds) (Some e)" "perr_ok perr"
  shows "fan_reach hosts cap ff out
    (at (ds @ [Some e]) k (after_fail perr ff (hosts ! length ds) e w))"
proof -
  let ?c = "observe perr Live w"
  let ?r = "\<lparr>fs_status = map Done ds @ Running # replicate k Waiting, fs_ctx = Live\<rparr>"
  let ?s = "\<lparr>fs_status = map Done ds @ Running # replicate k Waiting, fs_ctx = ?c\<rparr>"
  have r: "fan_reach hosts cap ff out ?s"
  proof (cases "perr w")
    case None
    then show ?thesis using at_running[OF assms(1,2)] by (simp add: observe_def)
  next
    case (Some pe)
    have "fan_step hosts cap ff out ?r (?r\<lparr>fs_ctx := ParentDone pe\<rparr>)"
      by (rule fan_step.parent) (use perr_okD[OF assms(4) Some] in auto)
    from fan_reach.step[OF at_running[OF assms(1,2)] this] show ?thesis
      using Some by (simp add: observe_def)
  qed
  have af: "after_fail perr ff (hosts ! length ds) e w
     = (if ff \<and> ?c = Live then FailedFast (wrapf (hosts ! length ds @ '' failed'') e) else ?c)"
    by (simp add: after_fail_def Let_def)
  have "fan_step hosts cap ff out ?s (?s\<lparr>fs_status := (fs_status ?s)[length ds := Done (Some e)],
      fs_ctx := after_fail perr ff (hosts ! length ds) e w\<rparr>)"
    unfolding af by (rule fan_step.fail) (simp_all add: nth_append assms(3))
  from fan_reach.step[OF r this] show ?thesis by (simp add: at_def list_update_append)
qed

definition reach_at :: "nat \<Rightarrow> bool \<Rightarrow> (target \<Rightarrow> 'w \<Rightarrow> goerr option \<times> 'w)
    \<Rightarrow> target list \<Rightarrow> goerr option list \<Rightarrow> nat \<Rightarrow> ctx_state \<Rightarrow> bool" where
  "reach_at cap ff fn ts ds k ctx \<longleftrightarrow>
     fan_reach (map t_Host ts) cap ff (outcomes fn ts) (at ds k ctx)"

lemma seq_run_reaches:
  "perr_ok perr \<Longrightarrow> 0 < cap \<Longrightarrow> ts = pre @ rest \<Longrightarrow> length ds = length pre \<Longrightarrow>
   reach_at cap ff fn ts ds (length rest) ctx \<Longrightarrow>
   \<exists>c. reach_at cap ff fn ts (ds @ map r_Err (fst (seq_run perr ff fn ctx rest w))) 0 c"
proof (induction perr ff fn ctx rest w arbitrary: pre ds rule: seq_run.induct)
  case (1 perr ff fn ctx w)
  then show ?case by auto
next
  case (2 perr ff fn ctx t rest w)
  let ?c = "observe perr ctx w"
  have start: "reach_at cap ff fn ts ds (Suc (length rest)) ?c"
    unfolding reach_at_def by (rule at_observe) (use 2(4,8) in \<open>simp_all add: reach_at_def\<close>)
  have ts: "ts = (pre @ [t]) @ rest" and len: "\<And>e. length (ds @ [e]) = length (pre @ [t])"
    using 2 by simp_all
  have i: "ts ! length ds = t" "length ds < length ts" "map t_Host ts ! length ds = t_Host t"
    using 2(6,7) by (simp_all add: nth_append)
  show ?case
  proof (cases "?c = Live")
    case False
    have "reach_at cap ff fn ts (ds @ [skippedError ?c]) (length rest) ?c"
      using at_skip[OF start[unfolded reach_at_def] 2(5) False] by (simp add: reach_at_def)
    from 2(1)[OF refl False 2(4,5) ts len this] show ?thesis
      using False by (simp add: Let_def case_prod_beta)
  next
    case live: True
    then have nl: "\<not> ?c \<noteq> Live" by simp
    obtain e w1 where fn: "fn t w = (e, w1)" by fastforce
    have out: "outcomes fn ts (length ds) e" using fn i by (auto simp: outcomes_def intro: exI[of _ w])
    note start' = start[unfolded reach_at_def live]
    show ?thesis
    proof (cases e)
      case None
      have "reach_at cap ff fn ts (ds @ [None]) (length rest) ?c"
        using at_ok[OF start' 2(5)] out None live by (simp add: reach_at_def)
      from 2(2)[OF refl nl fn[symmetric] None 2(4,5) ts len this] show ?thesis
        using live fn None by (simp add: Let_def case_prod_beta)
    next
      case (Some err)
      have "reach_at cap ff fn ts (ds @ [Some err]) (length rest)
          (after_fail perr ff (t_Host t) err w1)"
        using at_fail[OF start' 2(5) _ 2(4)] out Some i(3) by (metis reach_at_def)
      from 2(3)[OF refl nl fn[symmetric] Some 2(4,5) ts len this] show ?thesis
        using live fn Some by (simp add: Let_def case_prod_beta)
    qed
  qed
qed

text \<open>
  Taking the targets one by one is one of the schedules of the concurrent fan-out: from any
  world, the results it computes are the results of a final state the step relation reaches.
\<close>

theorem seq_run_schedule:
  assumes "perr_ok perr" and "0 < cap"
  shows "\<exists>s. fan_reach (map t_Host ts) cap ff (outcomes fn ts) s \<and> fan_final s
    \<and> fan_results (map t_Host ts) s = fst (seq_run perr ff fn Live ts w)"
proof -
  let ?es = "map r_Err (fst (seq_run perr ff fn Live ts w))"
  have "reach_at cap ff fn ts [] (length ts) Live"
    using fan_reach.start[of "map t_Host ts" cap ff "outcomes fn ts"]
    by (simp add: reach_at_def at_init)
  then obtain c where c: "reach_at cap ff fn ts ?es 0 c"
    using seq_run_reaches[OF assms, of ts "[]" ts "[]" ff fn Live w] by auto
  have len: "length (fst (seq_run perr ff fn Live ts w)) = length ts"
    by (metis length_map seq_run_hosts)
  have "fan_results (map t_Host ts) (at ?es 0 c) = fst (seq_run perr ff fn Live ts w)"
    unfolding seq_run_hosts[of perr ff fn Live ts w, symmetric]
    by (rule nth_equalityI) (simp_all add: fan_results_def at_def zip_map1 zip_map2 zip_same_conv_map)
  moreover have "fan_final (at ?es 0 c)" by (simp add: fan_final_def at_def)
  ultimately show ?thesis using c unfolding reach_at_def by blast
qed

subsection \<open>Concrete runs\<close>

text \<open>Two hosts, fail-fast, one slot: the first fails, the second is never started.\<close>

definition boom :: goerr where "boom = Text ''boom''"

definition first_fails :: "nat \<Rightarrow> goerr option \<Rightarrow> bool" where
  "first_fails i e \<longleftrightarrow> i = 0 \<and> e = Some boom"

definition after_two :: fan where
  "after_two = at [Some boom, skippedError (FailedFast (wrapf ''web1 failed'' boom))] 0
     (FailedFast (wrapf ''web1 failed'' boom))"

lemma reach_two: "fan_reach [''web1'', ''web2''] 1 True first_fails after_two"
proof -
  let ?h = "[''web1'', ''web2'']" and ?c = "FailedFast (wrapf ''web1 failed'' boom)"
  have 0: "fan_reach ?h 1 True first_fails (at [] (Suc 1) Live)"
    using fan_reach.start[of ?h 1 True first_fails] by (simp add: at_init)
  have ok: "perr_ok (\<lambda>_::unit. None)" by (simp add: perr_ok_def)
  have "after_fail (\<lambda>_::unit. None) True (?h ! length []) boom () = ?c"
    by (simp add: after_fail_def observe_def)
  then have 1: "fan_reach ?h 1 True first_fails (at [Some boom] (Suc 0) ?c)"
    using at_fail[OF 0 _ _ ok, of boom "()"] by (simp add: first_fails_def)
  show ?thesis using at_skip[OF 1] by (simp add: after_two_def)
qed

lemma fanout_results_witness:
  "map r_Host (fan_results [''web1'', ''web2''] after_two) = [''web1'', ''web2'']
   \<and> (\<exists>j<2. \<exists>e. r_Err (fan_results [''web1'', ''web2''] after_two ! j) = Some e \<and> first_fails j (Some e))"
proof -
  have "fan_final after_two" by (simp add: fan_final_def after_two_def at_def)
  moreover have "fs_ctx after_two = FailedFast (wrapf ''web1 failed'' boom)"
    by (simp add: after_two_def at_def)
  ultimately show ?thesis using fanout_results[OF reach_two] by (simp add: numeral_2_eq_2)
qed

lemma fanout_bounded_witness: "n_busy (fs_status after_two) \<le> 1"
  using fanout_bounded[of "[''web1'', ''web2'']" 1 True first_fails after_two] reach_two
  by (simp add: slots_def)

definition web1 :: target where
  "web1 = \<lparr>t_Host = ''web1'', t_Port = 22, t_User = ''deploy'', t_IdentityFile = [],
     t_Passphrase = [], t_Local = False, t_StrictHostKey = None\<rparr>"

definition fails_and_counts :: "target \<Rightarrow> nat \<Rightarrow> goerr option \<times> nat" where
  "fails_and_counts t w = (Some boom, w + 1)"

lemma seq_run_schedule_witness:
  "\<exists>s. fan_reach (map t_Host [web1]) 1 True (outcomes fails_and_counts [web1]) s \<and> fan_final s
     \<and> fan_results (map t_Host [web1]) s = [\<lparr>r_Host = ''web1'', r_Err = Some boom\<rparr>]"
proof -
  have "perr_ok (\<lambda>_::nat. None)" by (simp add: perr_ok_def)
  moreover have "fst (seq_run (\<lambda>_. None) True fails_and_counts Live [web1] 0)
      = [\<lparr>r_Host = ''web1'', r_Err = Some boom\<rparr>]"
    by (simp add: observe_def fails_and_counts_def web1_def)
  ultimately show ?thesis
    using seq_run_schedule[of "\<lambda>_. None" 1 "[web1]" True fails_and_counts 0] by simp
qed

end
