(* ===== verification/Masking.thy ===== *)
theory Masking
  imports Prelude
begin

text \<open>
  Masking of secrets (\<open>internal/masking/masking.go\<close>): the registry of literal secrets that
  \<open>AddSecret\<close> fills, and the replacement of registered values. The built-in regular-expression
  rules are applied by the engine of the \<open>regexp\<close> package: \<open>String\<close> takes them as the list of the
  replacement functions they denote, in the order of the table. The streaming writer is in theory
  Lines.
\<close>

definition Placeholder :: string where "Placeholder = ''[FILTERED]''"

definition minSecretLen :: nat where "minSecretLen = 4"

text \<open>The registry: the secrets in use, longest first, and the set that removes duplicates.\<close>

record registry =
  secrets :: "string list"
  secretSet :: "string set"

definition no_secrets :: registry where
  "no_secrets = \<lparr>secrets = [], secretSet = {}\<rparr>"

definition is_eol :: "char \<Rightarrow> bool" where
  "is_eol c \<longleftrightarrow> of_char c = (10 :: nat) \<or> of_char c = (13 :: nat)"

text \<open>\<open>strings.FieldsFuncSeq\<close>: the maximal non-empty runs without a separator.\<close>

function fields_func :: "(char \<Rightarrow> bool) \<Rightarrow> string \<Rightarrow> string list" where
  "fields_func p [] = []"
| "fields_func p (c # s) = (if p c then fields_func p s
     else (c # takeWhile (\<lambda>x. \<not> p x) s) # fields_func p (dropWhile (\<lambda>x. \<not> p x) s))"
  by pat_completeness auto
termination
  by (relation "measure (length \<circ> snd)") (auto simp: less_Suc_eq_le length_dropWhile_le)

definition secret_values :: "string \<Rightarrow> string list" where
  "secret_values s = (let s = trim_space s in
     if length s < minSecretLen then []
     else s # (if list_ex is_eol s
       then filter (\<lambda>l. minSecretLen \<le> length l) (map trim_space (fields_func is_eol s)) else []))"

definition add_value :: "string \<Rightarrow> registry \<Rightarrow> registry" where
  "add_value v r = (if v \<in> secretSet r then r
     else r\<lparr>secretSet := insert v (secretSet r), secrets := secrets r @ [v]\<rparr>)"

text \<open>\<open>slices.SortStableFunc\<close> by descending length.\<close>

definition longest_first :: "string list \<Rightarrow> string list" where
  "longest_first = sort_key (\<lambda>s. - int (length s))"

definition AddSecret :: "string \<Rightarrow> registry \<Rightarrow> registry" where
  "AddSecret s r = (case secret_values s of [] \<Rightarrow> r
     | vs \<Rightarrow> (let r' = fold add_value vs r in r'\<lparr>secrets := longest_first (secrets r')\<rparr>))"

definition replaceSecrets :: "registry \<Rightarrow> string \<Rightarrow> string" where
  "replaceSecrets r s = fold (\<lambda>sec s. if contains_str s sec then replace_all sec Placeholder s else s)
     (secrets r) s"

definition mask_String :: "bool \<Rightarrow> (string \<Rightarrow> string) list \<Rightarrow> registry \<Rightarrow> string \<Rightarrow> string" where
  "mask_String disabled rules r s = (if disabled then s
     else fold (\<lambda>rule s. rule s) rules (replaceSecrets r s))"

section \<open>The registry\<close>

definition registry_ok :: "registry \<Rightarrow> bool" where
  "registry_ok r \<longleftrightarrow> distinct (secrets r) \<and> set (secrets r) = secretSet r
     \<and> sorted_wrt (\<lambda>a b. length b \<le> length a) (secrets r)
     \<and> (\<forall>v\<in>set (secrets r). minSecretLen \<le> length v \<and> trim_space v = v)"

lemma dropWhile_idem [simp]: "dropWhile p (dropWhile p s) = dropWhile p s"
  by (induction s) auto

lemma trim_left_right: "trim_left p (trim_right p (trim_left p s)) = trim_right p (trim_left p s)"
proof (cases "trim_left p s")
  case (Cons c t)
  then have c: "\<not> p c" by (metis hd_dropWhile list.discI list.sel(1) trim_left_def)
  then have "trim_right p (c # t) = c # trim_right p t"
    by (simp add: trim_right_def dropWhile_append)
  then show ?thesis using Cons c by (simp add: trim_left_def)
next
  case Nil
  have "trim_left p (trim_right p []) = trim_right p []" by (simp add: trim_left_def trim_right_def)
  then show ?thesis unfolding Nil .
qed

lemma trim_space_idem [simp]: "trim_space (trim_space s) = trim_space s"
  by (simp add: trim_space_def trim_left_right) (simp add: trim_right_def)

lemma secret_values_ok:
  "v \<in> set (secret_values s) \<Longrightarrow> minSecretLen \<le> length v \<and> trim_space v = v"
  by (auto simp: secret_values_def Let_def split: if_splits)

lemma fold_add_values:
  "secretSet (fold add_value vs r) = secretSet r \<union> set vs"
  "distinct (secrets r) \<Longrightarrow> set (secrets r) = secretSet r \<Longrightarrow>
   distinct (secrets (fold add_value vs r)) \<and> set (secrets (fold add_value vs r)) = secretSet r \<union> set vs"
proof (induction vs arbitrary: r)
  case (Cons v vs)
  {
    case 1
    show ?case using Cons(1)[of "add_value v r"] by (auto simp: add_value_def)
  next
    case 2
    then show ?case using Cons(2)[of "add_value v r"] by (auto simp: add_value_def)
  }
qed auto

lemma longest_first_sorted: "sorted_wrt (\<lambda>a b. length b \<le> length a) (longest_first xs)"
proof -
  have "sorted (map (\<lambda>s. - int (length s)) (longest_first xs))"
    by (simp add: longest_first_def)
  then show ?thesis by (simp add: sorted_wrt_map)
qed

text \<open>
  Registering a value keeps the registry well formed (no duplicates, longest first, no value
  shorter than four characters, every value trimmed), forgets nothing, and adds exactly the trimmed
  value and, when it spans lines, each of its trimmed lines that is long enough.
\<close>

theorem AddSecret_registry:
  assumes "registry_ok r"
  shows "registry_ok (AddSecret s r)
    \<and> set (secrets (AddSecret s r)) = set (secrets r) \<union> set (secret_values s)"
proof (cases "secret_values s")
  case Nil
  then show ?thesis using assms by (simp add: AddSecret_def)
next
  case (Cons v vs)
  let ?r = "fold add_value (v # vs) r"
  have r: "distinct (secrets ?r)" "set (secrets ?r) = secretSet r \<union> set (v # vs)"
    "secretSet ?r = secretSet r \<union> set (v # vs)"
    using fold_add_values(1)[of "v # vs" r] fold_add_values(2)[of r "v # vs"] assms unfolding registry_ok_def by blast+
  have a: "AddSecret s r = ?r\<lparr>secrets := longest_first (secrets ?r)\<rparr>"
    by (simp add: AddSecret_def Cons Let_def)
  have p: "set (longest_first (secrets ?r)) = set (secrets ?r)"
    "distinct (longest_first (secrets ?r)) = distinct (secrets ?r)"
    by (simp_all add: longest_first_def)
  show ?thesis
    using r p assms secret_values_ok[of _ s] longest_first_sorted[of "secrets ?r"]
    unfolding a registry_ok_def Cons by auto
qed

section \<open>What replacement removes\<close>

text \<open>
  A value that neither holds a bracket nor is a part of the word \<open>FILTERED\<close> cannot be assembled
  from the placeholder and its surroundings.
\<close>

definition plain_secret :: "string \<Rightarrow> bool" where
  "plain_secret t \<longleftrightarrow> t \<noteq> [] \<and> CHR ''['' \<notin> set t \<and> CHR '']'' \<notin> set t
     \<and> \<not> contains_str ''FILTERED'' t"

lemma plain_secretD: "plain_secret t \<Longrightarrow> t \<noteq> []" "plain_secret t \<Longrightarrow> CHR ''['' \<notin> set t"
  by (simp_all add: plain_secret_def)

lemma replace_prefix:
  "has_prefix (replace_all old Placeholder s) t \<Longrightarrow> CHR ''['' \<notin> set t \<Longrightarrow> has_prefix s t"
proof (induction old Placeholder s arbitrary: t rule: replace_all.induct)
  case (1 old)
  then show ?case by simp
next
  case (2 old c s)
  show ?case
  proof (cases t)
    case Nil
    then show ?thesis by (simp add: has_prefix_iff)
  next
    case (Cons x t')
    show ?thesis
    proof (cases "old \<noteq> [] \<and> has_prefix (c # s) old")
      case True
      then show ?thesis using 2(3,4) Cons by (auto simp: has_prefix_iff Placeholder_def)
    next
      case False
      then have "x = c" "has_prefix (replace_all old Placeholder s) t'"
        using 2(3) Cons by (auto simp: has_prefix_iff)
      then show ?thesis using 2(2)[OF False] 2(4) Cons by (auto simp: has_prefix_iff)
    qed
  qed
qed

lemma in_placeholder:
  assumes "plain_secret t" "contains_str (Placeholder @ s) t"
  shows "contains_str s t"
proof -
  obtain a b where ab: "Placeholder @ s = a @ t @ b" using assms(2) by (auto simp: contains_str_iff)
  have nth: "t ! i = (Placeholder @ s) ! (length a + i)" if "i < length t" for i
    using that unfolding ab by (simp add: nth_append)
  have t: "t \<noteq> []" "CHR ''['' \<notin> set t" "CHR '']'' \<notin> set t" "\<not> contains_str ''FILTERED'' t"
    using assms(1) by (auto simp: plain_secret_def)
  have ph: "length Placeholder = 10" "Placeholder ! 0 = CHR ''[''" "Placeholder ! 9 = CHR '']''"
    by (simp_all add: Placeholder_def)
  have "t ! 0 \<in> set t" using t(1) by simp
  then have "length a \<noteq> 0" using nth[of 0] t(1,2) ph by (auto simp: nth_append Placeholder_def)
  show ?thesis
  proof (cases "10 \<le> length a")
    case True
    then have "s = drop 10 a @ t @ b" using arg_cong[OF ab, of "drop 10"] ph by simp
    then show ?thesis by (auto simp: contains_str_iff)
  next
    case False
    have "length a + length t \<le> 9"
    proof (rule ccontr)
      assume "\<not> length a + length t \<le> 9"
      then have "t ! (9 - length a) = CHR '']''" "9 - length a < length t"
        using nth[of "9 - length a"] False ph by (auto simp: nth_append)
      then show False using t(3) by (metis nth_mem)
    qed
    moreover obtain k where k: "length a = Suc k" using \<open>length a \<noteq> 0\<close> by (cases "length a") auto
    ultimately have le: "Suc k + length t \<le> 9" by simp
    have F: "''FILTERED'' = take 8 (drop 1 (Placeholder @ s))" by (simp add: Placeholder_def)
    have "take 8 (drop 1 (a @ t @ b)) = take k (drop 1 a) @ t @ take (8 - k - length t) b"
      using le k by (simp add: take_append)
    then show ?thesis using t(4) F unfolding ab contains_str_iff by metis
  qed
qed

lemma replace_contains:
  "plain_secret t \<Longrightarrow> contains_str (replace_all old Placeholder s) t \<Longrightarrow>
   contains_str s t \<and> (t = old \<longrightarrow> False)"
proof (induction old Placeholder s rule: replace_all.induct)
  case (1 old)
  then show ?case by (simp add: plain_secret_def)
next
  case (2 old c s)
  show ?case
  proof (cases "old \<noteq> [] \<and> has_prefix (c # s) old")
    case True
    let ?d = "drop (length old - 1) s"
    have "contains_str (replace_all old Placeholder ?d) t"
      using 2(4) True in_placeholder[OF 2(3)] by simp
    then have *: "contains_str ?d t \<and> (t = old \<longrightarrow> False)" using 2(1)[OF True] 2(3) by blast
    then have "contains_str s t"
      unfolding contains_str_iff by (metis append.assoc append_take_drop_id)
    then show ?thesis using * by simp
  next
    case False
    have r: "replace_all old Placeholder (c # s) = c # replace_all old Placeholder s"
      using False by (simp only: replace_all.simps if_False)
    consider "has_prefix (c # replace_all old Placeholder s) t"
      | "contains_str (replace_all old Placeholder s) t" using 2(4) unfolding r by auto
    then show ?thesis
    proof cases
      case 1
      then obtain t' where t': "t = c # t'" "has_prefix (replace_all old Placeholder s) t'"
        using plain_secretD(1)[OF 2(3)] by (cases t) (auto simp: has_prefix_iff)
      then have "has_prefix s t'" using replace_prefix plain_secretD(2)[OF 2(3)] by auto
      then have *: "has_prefix (c # s) t" using t' by (auto simp: has_prefix_iff)
      then have "t \<noteq> old" using False t'(1) by blast
      then show ?thesis using * by simp
    next
      case 2
      then have "contains_str s t \<and> (t = old \<longrightarrow> False)" using "2.hyps"(2)[OF False] "2.prems"(1) by blast
      then show ?thesis by simp
    qed
  qed
qed

lemma fold_replace_contains:
  "plain_secret t \<Longrightarrow>
   contains_str (fold (\<lambda>sec s. if contains_str s sec then replace_all sec Placeholder s else s) secs s) t
   \<Longrightarrow> contains_str s t \<and> t \<notin> set secs"
proof (induction secs arbitrary: s)
  case (Cons sec secs)
  then show ?case using replace_contains[of t sec s] by (auto split: if_splits)
qed simp

lemma replace_removes:
  assumes "plain_secret t"
  shows "(t \<in> set (secrets r) \<longrightarrow> \<not> contains_str (replaceSecrets r s) t)
    \<and> (contains_str (replaceSecrets r s) t \<longrightarrow> contains_str s t)"
  using fold_replace_contains[OF assms, of "secrets r" s] unfolding replaceSecrets_def by blast

text \<open>
  No registered secret survives replacement: after \<open>replaceSecrets\<close> a registered value without
  brackets that is not part of the placeholder's own word occurs nowhere in the text, whatever other
  secrets overlap it; and replacement never makes such a value appear where it was not.
\<close>

theorem replaceSecrets_removes:
  assumes "plain_secret t"
  shows "(t \<in> set (secrets r) \<longrightarrow> \<not> contains_str (replaceSecrets r s) t)
    \<and> (contains_str (replaceSecrets r s) t \<longrightarrow> contains_str s t)"
  by (rule replace_removes[OF assms])

text \<open>
  A value registered with \<open>AddSecret\<close> is masked line by line: however the registry grew before
  and after, no text that went through \<open>replaceSecrets\<close> holds the trimmed value or any of its long
  enough lines.
\<close>

theorem AddSecret_masks:
  assumes "registry_ok r" and "v \<in> set (secret_values s)" and "plain_secret v"
  shows "\<not> contains_str (replaceSecrets (fold AddSecret later (AddSecret s r)) text) v"
proof -
  have "registry_ok r' \<Longrightarrow> v \<in> set (secrets r') \<Longrightarrow> v \<in> set (secrets (fold AddSecret later r'))" for r'
    by (induction later arbitrary: r') (auto simp: AddSecret_registry)
  then have "v \<in> set (secrets (fold AddSecret later (AddSecret s r)))"
    using AddSecret_registry[OF assms(1), of s] assms(2) by blast
  then show ?thesis
    using fold_replace_contains[OF assms(3)] unfolding replaceSecrets_def by blast
qed

section \<open>Concrete values\<close>

definition demo_registry :: registry where
  "demo_registry = AddSecret ''hunter22'' (AddSecret ''  hunter2 '' no_secrets)"

lemma no_secrets_ok: "registry_ok no_secrets" by (simp add: registry_ok_def no_secrets_def)

lemma demo_values: "secret_values ''hunter22'' = [''hunter22'']" by code_simp

lemma demo_plain: "plain_secret ''hunter22''" by code_simp

lemma AddSecret_registry_witness:
  "registry_ok (AddSecret ''hunter22'' no_secrets) \<and> secrets demo_registry = [''hunter22'', ''hunter2'']"
proof -
  have "secrets demo_registry = [''hunter22'', ''hunter2'']" by code_simp
  then show ?thesis using AddSecret_registry[OF no_secrets_ok, of "''hunter22''"] by blast
qed

lemma replaceSecrets_removes_witness:
  "\<not> contains_str (replaceSecrets demo_registry ''pw=hunter22;'') ''hunter22''
   \<and> replaceSecrets demo_registry ''pw=hunter22;'' = ''pw=[FILTERED];''"
proof -
  have "''hunter22'' \<in> set (secrets demo_registry)" by code_simp
  moreover have "replaceSecrets demo_registry ''pw=hunter22;'' = ''pw=[FILTERED];''" by code_simp
  ultimately show ?thesis using replaceSecrets_removes[OF demo_plain] by blast
qed

lemma AddSecret_masks_witness:
  "\<not> contains_str (replaceSecrets (AddSecret ''other'' (AddSecret ''hunter22'' no_secrets)) ''x'') ''hunter22''"
  using AddSecret_masks[OF no_secrets_ok, of "''hunter22''" "''hunter22''" "[''other'']" "''x''"]
    demo_values demo_plain by simp

end
