(* ===== verification/Ast_Model.thy ===== *)
theory Ast_Model
  imports Errors
begin

text \<open>
  The Deployfile data model (\<open>internal/deployfile/ast/model.go\<close>, \<open>phases.go\<close>,
  \<open>filters.go\<close>): one record per struct with its fields in the source's order, prefixed with
  the struct's name, and the methods of those structs. A \<open>*bool\<close> is a \<open>bool option\<close>, an
  \<open>any\<close> decoded from YAML is a \<open>yval\<close>, and a plugin-registered Go function is
  represented by a token (\<open>HookFunc\<close>) that the code which runs it interprets.
\<close>

section \<open>Structs\<close>

datatype yval =
    YNull | YBool bool | YInt int | YOther string | YStr string
  | YMap "(string \<times> yval) list" | YList "yval list"

datatype hook_func = HookFunc string

record app =
  app_Name :: string
  app_Repo :: string
  app_Branch :: string
  app_DeployTo :: string
  app_KeepReleases :: int

record ssh_identity =
  id_Path :: string
  id_Content :: string
  id_Passphrase :: string
  id_Recursive :: bool

record bastion =
  bas_Address :: string
  bas_Port :: int
  bas_User :: string
  bas_IdentityFile :: string
  bas_IdentityFilePassphrase :: string

record ssh_cfg =
  ssh_User :: string
  ssh_Port :: int
  ssh_IdentityFile :: string
  ssh_IdentityFilePassphrase :: string
  ssh_KnownHostsFile :: string
  ssh_StrictHostKey :: "bool option"
  ssh_AcceptNew :: "bool option"
  ssh_ForwardAgent :: "bool option"
  ssh_ForwardKey :: string
  ssh_Identities :: "ssh_identity smap"
  ssh_Bastion :: "bastion option"

record host =
  host_Address :: string
  host_Roles :: "string list"
  host_User :: string
  host_Port :: int
  host_IdentityFile :: string
  host_IdentityFilePassphrase :: string
  host_Local :: bool
  host_Primary :: bool
  host_Deploy :: "bool option"
  host_Required :: "bool option"
  host_Source :: string

record script =
  sc_Name :: string
  sc_Path :: string
  sc_Script :: string
  sc_Interpreter :: string
  sc_Template :: bool

record task =
  task_Desc :: string
  task_Cmds :: "string list"
  task_Scripts :: "script list"
  task_Deps :: "string list"
  task_Dir :: string
  task_Envs :: "string smap"
  task_Roles :: "string list"
  task_Local :: bool
  task_Once :: bool
  task_Silent :: bool
  task_SilentOutput :: bool
  task_ContinueOnError :: bool
  task_NotifyFailure :: "bool option"
  task_NonDeploy :: bool
  task_AllHosts :: bool
  task_StrictHostKey :: "bool option"
  task_Hidden :: bool
  task_Only :: "string list"
  task_Except :: "string list"
  task_Replace :: string
  task_Output :: string
  task_Action :: string
  task_With :: "yval smap"

record hooks =
  hooks_Before :: "string list smap"
  hooks_After :: "string list smap"

record custom_phase =
  cp_Name :: string
  cp_Before :: string
  cp_After :: string
  cp_Task :: string

record plugin_action_spec =
  pa_Name :: string
  pa_Params :: "yval smap"

record plugin_spec =
  ps_Name :: string
  ps_Enabled :: "bool option"
  ps_Only :: "string list"
  ps_Except :: "string list"
  ps_Params :: "yval smap"
  ps_Actions :: "plugin_action_spec list"

record log_cfg =
  log_Level :: string
  log_Format :: string
  log_Output :: string
  log_Color :: "bool option"
  log_File :: string
  log_FileFormat :: string
  log_RawRemoteLog :: "bool option"

record deploy_file =
  cfg_Version :: string
  cfg_Description :: string
  cfg_Include :: "string list"
  cfg_App :: app
  cfg_LinkedFiles :: "string list"
  cfg_LinkedDirs :: "string list"
  cfg_Vars :: "yval smap"
  cfg_Envs :: "string smap"
  cfg_EnvFiles :: "string list"
  cfg_SSH :: ssh_cfg
  cfg_Hosts :: "host list"
  cfg_Tasks :: "task option smap"
  cfg_Hooks :: hooks
  cfg_ScriptsDir :: string
  cfg_OnUnreachable :: string
  cfg_Log :: log_cfg
  cfg_Plugins :: "plugin_spec list"
  cfg_CustomPhases :: "custom_phase list"
  cfg_Stage :: string
  cfg_Dir :: string
  cfg_SkippedPlugins :: "string list"
  cfg_Imports :: "string smap smap"
  cfg_EnvFileValues :: "string smap"
  cfg_HookFuncsBefore :: "hook_func list smap"
  cfg_HookFuncsAfter :: "hook_func list smap"

text \<open>The Go zero values.\<close>

definition zero_app :: app where
  "zero_app = \<lparr>app_Name = [], app_Repo = [], app_Branch = [], app_DeployTo = [],
     app_KeepReleases = 0\<rparr>"

definition zero_ssh :: ssh_cfg where
  "zero_ssh = \<lparr>ssh_User = [], ssh_Port = 0, ssh_IdentityFile = [],
     ssh_IdentityFilePassphrase = [], ssh_KnownHostsFile = [], ssh_StrictHostKey = None,
     ssh_AcceptNew = None, ssh_ForwardAgent = None, ssh_ForwardKey = [], ssh_Identities = [],
     ssh_Bastion = None\<rparr>"

definition zero_host :: host where
  "zero_host = \<lparr>host_Address = [], host_Roles = [], host_User = [], host_Port = 0,
     host_IdentityFile = [], host_IdentityFilePassphrase = [], host_Local = False,
     host_Primary = False, host_Deploy = None, host_Required = None, host_Source = []\<rparr>"

definition zero_script :: script where
  "zero_script = \<lparr>sc_Name = [], sc_Path = [], sc_Script = [], sc_Interpreter = [],
     sc_Template = False\<rparr>"

definition zero_task :: task where
  "zero_task = \<lparr>task_Desc = [], task_Cmds = [], task_Scripts = [], task_Deps = [], task_Dir = [],
     task_Envs = [], task_Roles = [], task_Local = False, task_Once = False, task_Silent = False,
     task_SilentOutput = False, task_ContinueOnError = False, task_NotifyFailure = None,
     task_NonDeploy = False, task_AllHosts = False, task_StrictHostKey = None,
     task_Hidden = False, task_Only = [], task_Except = [], task_Replace = [], task_Output = [],
     task_Action = [], task_With = []\<rparr>"

definition zero_log :: log_cfg where
  "zero_log = \<lparr>log_Level = [], log_Format = [], log_Output = [], log_Color = None, log_File = [],
     log_FileFormat = [], log_RawRemoteLog = None\<rparr>"

definition zero_plugin :: plugin_spec where
  "zero_plugin = \<lparr>ps_Name = [], ps_Enabled = None, ps_Only = [], ps_Except = [], ps_Params = [],
     ps_Actions = []\<rparr>"

definition zero_cfg :: deploy_file where
  "zero_cfg = \<lparr>cfg_Version = [], cfg_Description = [], cfg_Include = [], cfg_App = zero_app,
     cfg_LinkedFiles = [], cfg_LinkedDirs = [], cfg_Vars = [], cfg_Envs = [], cfg_EnvFiles = [],
     cfg_SSH = zero_ssh, cfg_Hosts = [], cfg_Tasks = [],
     cfg_Hooks = \<lparr>hooks_Before = [], hooks_After = []\<rparr>, cfg_ScriptsDir = [],
     cfg_OnUnreachable = [], cfg_Log = zero_log, cfg_Plugins = [], cfg_CustomPhases = [],
     cfg_Stage = [], cfg_Dir = [], cfg_SkippedPlugins = [], cfg_Imports = [],
     cfg_EnvFileValues = [], cfg_HookFuncsBefore = [], cfg_HookFuncsAfter = []\<rparr>"

lemmas zero_defs = zero_app_def zero_ssh_def zero_host_def zero_script_def zero_task_def
  zero_log_def zero_plugin_def zero_cfg_def

section \<open>Methods of the structs\<close>

text \<open>A \<open>source:dest\<close> entry; a bare path is both.\<close>

definition ParseLinkedPath :: "string \<Rightarrow> string \<times> string" where
  "ParseLinkedPath entry = (case cut (CHR '':'') entry of
     Some (src, dst) \<Rightarrow> (src, dst) | None \<Rightarrow> (entry, entry))"

definition RawOutput :: "log_cfg \<Rightarrow> bool" where
  "RawOutput l = (case log_RawRemoteLog l of Some b \<Rightarrow> b
     | None \<Rightarrow> \<not> equal_fold (log_Format l) ''json'')"

definition AddImport :: "string \<Rightarrow> string \<Rightarrow> string \<Rightarrow> deploy_file \<Rightarrow> deploy_file" where
  "AddImport namespace key v c =
     (let imports = cfg_Imports c;
          ns = (case m_get imports namespace of None \<Rightarrow> [] | Some m \<Rightarrow> m)
      in c\<lparr>cfg_Imports := m_put namespace (m_put key v ns) imports\<rparr>)"

definition AddTask :: "string \<Rightarrow> task option \<Rightarrow> deploy_file \<Rightarrow> deploy_file" where
  "AddTask name t c = c\<lparr>cfg_Tasks := m_put name t (cfg_Tasks c)\<rparr>"

text \<open>\<open>m[key] = append(m[key], xs...)\<close>: a missing key reads as nil.\<close>

definition m_append :: "string \<Rightarrow> 'a list \<Rightarrow> 'a list smap \<Rightarrow> 'a list smap" where
  "m_append key xs m = m_put key ((case m_get m key of None \<Rightarrow> [] | Some l \<Rightarrow> l) @ xs) m"

definition m_list :: "'a list smap \<Rightarrow> string \<Rightarrow> 'a list" where
  "m_list m k = (case m_get m k of None \<Rightarrow> [] | Some l \<Rightarrow> l)"

definition AddHookBefore :: "string \<Rightarrow> string list \<Rightarrow> deploy_file \<Rightarrow> deploy_file" where
  "AddHookBefore key tasks c =
     c\<lparr>cfg_Hooks := (cfg_Hooks c)\<lparr>hooks_Before := m_append key tasks (hooks_Before (cfg_Hooks c))\<rparr>\<rparr>"

definition AddHookAfter :: "string \<Rightarrow> string list \<Rightarrow> deploy_file \<Rightarrow> deploy_file" where
  "AddHookAfter key tasks c =
     c\<lparr>cfg_Hooks := (cfg_Hooks c)\<lparr>hooks_After := m_append key tasks (hooks_After (cfg_Hooks c))\<rparr>\<rparr>"

definition AddHookFuncBefore :: "string \<Rightarrow> hook_func \<Rightarrow> deploy_file \<Rightarrow> deploy_file" where
  "AddHookFuncBefore phase fn c =
     c\<lparr>cfg_HookFuncsBefore := m_append phase [fn] (cfg_HookFuncsBefore c)\<rparr>"

definition AddHookFuncAfter :: "string \<Rightarrow> hook_func \<Rightarrow> deploy_file \<Rightarrow> deploy_file" where
  "AddHookFuncAfter phase fn c =
     c\<lparr>cfg_HookFuncsAfter := m_append phase [fn] (cfg_HookFuncsAfter c)\<rparr>"

definition AddPhase :: "custom_phase \<Rightarrow> deploy_file \<Rightarrow> deploy_file" where
  "AddPhase p c = c\<lparr>cfg_CustomPhases := cfg_CustomPhases c @ [p]\<rparr>"

lemma m_list_append [simp]:
  "m_list (m_append k xs m) j = (if j = k then m_list m k @ xs else m_list m j)"
  by (simp add: m_list_def m_append_def)

definition stageActive :: "string \<Rightarrow> string list \<Rightarrow> string list \<Rightarrow> bool" where
  "stageActive stage only ex =
     (if List.member ex stage then False
      else if length only = 0 then True
      else List.member only stage)"

definition ActiveForStage_plugin :: "plugin_spec \<Rightarrow> string \<Rightarrow> bool" where
  "ActiveForStage_plugin p stage = stageActive stage (ps_Only p) (ps_Except p)"

definition IsEnabled :: "plugin_spec \<Rightarrow> bool" where
  "IsEnabled p = (case ps_Enabled p of None \<Rightarrow> True | Some b \<Rightarrow> b)"

definition ActiveForStage :: "task \<Rightarrow> string \<Rightarrow> bool" where
  "ActiveForStage t stage = stageActive stage (task_Only t) (task_Except t)"

definition HasRole :: "host \<Rightarrow> string \<Rightarrow> bool" where
  "HasRole h role = List.member (host_Roles h) role"

definition DeployEnabled :: "host \<Rightarrow> bool" where
  "DeployEnabled h = (case host_Deploy h of None \<Rightarrow> True | Some b \<Rightarrow> b)"

definition IsRequired :: "host \<Rightarrow> bool" where
  "IsRequired h = (case host_Required h of None \<Rightarrow> False | Some b \<Rightarrow> b)"

lemma stageActive_iff: "stageActive s only ex \<longleftrightarrow> s \<notin> set ex \<and> (only = [] \<or> s \<in> set only)"
  by (simp add: stageActive_def)

text \<open>The redacting \<open>MarshalYAML\<close> methods: what reaches the config dump and \<open>{{.config}}\<close>.\<close>

definition masked_mark :: string where "masked_mark = ''[MASKED]''"

definition mask_nonempty :: "string \<Rightarrow> string" where
  "mask_nonempty s = (if s \<noteq> [] then masked_mark else s)"

definition MarshalYAML_identity :: "ssh_identity \<Rightarrow> ssh_identity" where
  "MarshalYAML_identity i =
     i\<lparr>id_Content := mask_nonempty (id_Content i), id_Passphrase := mask_nonempty (id_Passphrase i)\<rparr>"

definition MarshalYAML_bastion :: "bastion \<Rightarrow> bastion" where
  "MarshalYAML_bastion b =
     b\<lparr>bas_IdentityFilePassphrase := mask_nonempty (bas_IdentityFilePassphrase b)\<rparr>"

text \<open>
  The marshaller calls the methods of the values inside (\<open>identities\<close>, \<open>bastion\<close>), as the
  comment in the source says.
\<close>

definition MarshalYAML_ssh :: "ssh_cfg \<Rightarrow> ssh_cfg" where
  "MarshalYAML_ssh s =
     s\<lparr>ssh_IdentityFilePassphrase := mask_nonempty (ssh_IdentityFilePassphrase s),
       ssh_Identities := map (\<lambda>(k, i). (k, MarshalYAML_identity i)) (ssh_Identities s),
       ssh_Bastion := map_option MarshalYAML_bastion (ssh_Bastion s)\<rparr>"

definition MarshalYAML_host :: "host \<Rightarrow> host" where
  "MarshalYAML_host h =
     h\<lparr>host_IdentityFilePassphrase := mask_nonempty (host_IdentityFilePassphrase h)\<rparr>"

section \<open>Phases\<close>

definition PhaseStarting :: string where "PhaseStarting = ''deploy:starting''"
definition PhaseCheck :: string where "PhaseCheck = ''deploy:check''"
definition PhaseInit :: string where "PhaseInit = ''deploy:init''"
definition PhaseStarted :: string where "PhaseStarted = ''deploy:started''"
definition PhaseUpdating :: string where "PhaseUpdating = ''deploy:updating''"
definition PhaseSymlink :: string where "PhaseSymlink = ''deploy:symlink''"
definition PhaseUpdated :: string where "PhaseUpdated = ''deploy:updated''"
definition PhasePublishing :: string where "PhasePublishing = ''deploy:publishing''"
definition PhasePublished :: string where "PhasePublished = ''deploy:published''"
definition PhaseFinishing :: string where "PhaseFinishing = ''deploy:finishing''"
definition PhaseFinished :: string where "PhaseFinished = ''deploy:finished''"
definition PhaseFailed :: string where "PhaseFailed = ''deploy:failed''"
definition PhaseRollback :: string where "PhaseRollback = ''deploy:rollback''"

lemmas phase_defs = PhaseStarting_def PhaseCheck_def PhaseInit_def PhaseStarted_def
  PhaseUpdating_def PhaseSymlink_def PhaseUpdated_def PhasePublishing_def PhasePublished_def
  PhaseFinishing_def PhaseFinished_def PhaseFailed_def PhaseRollback_def

definition BuiltinPhases :: "string list" where
  "BuiltinPhases = [PhaseStarting, PhaseCheck, PhaseInit, PhaseStarted, PhaseUpdating,
     PhaseSymlink, PhaseUpdated, PhasePublishing, PhasePublished, PhaseFinishing, PhaseFinished]"

definition IsBuiltinPhase :: "string \<Rightarrow> bool" where
  "IsBuiltinPhase name = List.member BuiltinPhases name"

lemma distinct_BuiltinPhases: "distinct BuiltinPhases"
  by (simp add: BuiltinPhases_def phase_defs)

lemma failed_not_builtin: "\<not> IsBuiltinPhase PhaseFailed" "\<not> IsBuiltinPhase PhaseRollback"
  by (simp_all add: IsBuiltinPhase_def BuiltinPhases_def phase_defs)

section \<open>Host filters\<close>

definition FilterByRoles :: "host list \<Rightarrow> string list \<Rightarrow> host list" where
  "FilterByRoles hosts roles =
     (if length roles = 0 then hosts else filter (\<lambda>h. list_ex (HasRole h) roles) hosts)"

definition FilterDeployable :: "host list \<Rightarrow> host list" where
  "FilterDeployable hosts = filter DeployEnabled hosts"

definition FilterNonDeployable :: "host list \<Rightarrow> host list" where
  "FilterNonDeployable hosts = filter (\<lambda>h. \<not> DeployEnabled h) hosts"

fun first_primary :: "host list \<Rightarrow> host option" where
  "first_primary [] = None"
| "first_primary (h # hs) = (if host_Primary h then Some h else first_primary hs)"

definition PickPrimary :: "host list \<Rightarrow> host list" where
  "PickPrimary hosts =
     (if length hosts = 0 then []
      else case first_primary hosts of Some h \<Rightarrow> [h] | None \<Rightarrow> take 1 hosts)"

definition FilterByAddresses :: "host list \<Rightarrow> string list \<Rightarrow> host list" where
  "FilterByAddresses hosts addrs =
     (if length addrs = 0 then hosts else filter (\<lambda>h. List.member addrs (host_Address h)) hosts)"

lemma FilterByRoles_set:
  "h \<in> set (FilterByRoles hosts roles) \<longleftrightarrow>
     h \<in> set hosts \<and> (roles = [] \<or> (\<exists>r\<in>set roles. r \<in> set (host_Roles h)))"
  by (auto simp: FilterByRoles_def HasRole_def list_ex_iff)

lemma FilterByAddresses_set:
  "h \<in> set (FilterByAddresses hosts addrs) \<longleftrightarrow>
     h \<in> set hosts \<and> (addrs = [] \<or> host_Address h \<in> set addrs)"
  by (auto simp: FilterByAddresses_def)

lemma first_primary_None: "first_primary hs = None \<longleftrightarrow> (\<forall>h\<in>set hs. \<not> host_Primary h)"
  by (induction hs) auto

lemma first_primary_Some:
  "first_primary hs = Some h \<Longrightarrow> \<exists>pre post. hs = pre @ h # post \<and> host_Primary h
     \<and> (\<forall>x\<in>set pre. \<not> host_Primary x)"
proof (induction hs)
  case (Cons a hs)
  show ?case
  proof (cases "host_Primary a")
    case True
    then show ?thesis using Cons.prems by (metis append_Nil empty_iff empty_set first_primary.simps(2) option.inject)
  next
    case False
    then obtain pre post where "hs = pre @ h # post" "host_Primary h" "\<forall>x\<in>set pre. \<not> host_Primary x"
      using Cons by auto
    then show ?thesis using False by (intro exI[of _ "a # pre"] exI[of _ post]) auto
  qed
qed simp

lemma PickPrimary_length: "length (PickPrimary hs) = (if hs = [] then 0 else 1)"
  by (cases hs) (auto simp: PickPrimary_def split: option.splits)

lemma PickPrimary_subset: "set (PickPrimary hs) \<subseteq> set hs"
  by (cases hs) (auto simp: PickPrimary_def dest!: first_primary_Some split: option.splits)

text \<open>
  Single-host work (\<open>once:\<close> tasks, the deploy lock) goes to exactly one of the candidates: the
  first one marked primary when any is, otherwise the first candidate; no candidate gives none.
\<close>

theorem PickPrimary_spec:
  "(hosts = [] \<and> PickPrimary hosts = [])
   \<or> (\<exists>pre h post. hosts = pre @ h # post \<and> PickPrimary hosts = [h]
        \<and> filter host_Primary pre = []
        \<and> (if filter host_Primary hosts = [] then pre = [] else host_Primary h))"
proof (cases "first_primary hosts")
  case None
  then have "filter host_Primary hosts = []" by (simp add: first_primary_None)
  then show ?thesis using None by (cases hosts) (auto simp: PickPrimary_def)
next
  case (Some h)
  then obtain pre post where *: "hosts = pre @ h # post" "host_Primary h"
    "\<forall>x\<in>set pre. \<not> host_Primary x" using first_primary_Some by blast
  moreover have "PickPrimary hosts = [h]" using Some * by (simp add: PickPrimary_def)
  moreover have "filter host_Primary pre = []" using *(3) by simp
  ultimately show ?thesis by auto
qed

text \<open>An SSH section with every secret replaced by whether it is there.\<close>

definition ssh_secret_shape :: "ssh_cfg \<Rightarrow> ssh_cfg" where
  "ssh_secret_shape s = s\<lparr>
     ssh_IdentityFilePassphrase := (if ssh_IdentityFilePassphrase s = [] then [] else ''x''),
     ssh_Identities := map (\<lambda>(k, i). (k, i\<lparr>
         id_Content := (if id_Content i = [] then [] else ''x''),
         id_Passphrase := (if id_Passphrase i = [] then [] else ''x'')\<rparr>)) (ssh_Identities s),
     ssh_Bastion := map_option (\<lambda>b. b\<lparr>bas_IdentityFilePassphrase :=
         (if bas_IdentityFilePassphrase b = [] then [] else ''x'')\<rparr>) (ssh_Bastion s)\<rparr>"

lemma marshal_of_shape: "MarshalYAML_ssh s = MarshalYAML_ssh (ssh_secret_shape s)"
proof -
  have "MarshalYAML_identity (i\<lparr>id_Content := (if id_Content i = [] then [] else ''x''),
      id_Passphrase := (if id_Passphrase i = [] then [] else ''x'')\<rparr>) = MarshalYAML_identity i" for i
    by (simp add: MarshalYAML_identity_def mask_nonempty_def)
  moreover have "MarshalYAML_bastion (b\<lparr>bas_IdentityFilePassphrase :=
      (if bas_IdentityFilePassphrase b = [] then [] else ''x'')\<rparr>) = MarshalYAML_bastion b" for b
    by (simp add: MarshalYAML_bastion_def mask_nonempty_def)
  ultimately show ?thesis
    by (cases "ssh_Bastion s")
      (simp_all add: MarshalYAML_ssh_def ssh_secret_shape_def mask_nonempty_def case_prod_beta o_def)
qed

text \<open>
  The redacted configuration that templates and the config dump see keeps nothing but the
  presence of each key's secret: two configurations that differ only in passphrases and inline key
  material (present in both or absent in both) are rendered identically.
\<close>

theorem marshal_hides_secrets:
  "ssh_secret_shape s = ssh_secret_shape s' \<Longrightarrow> MarshalYAML_ssh s = MarshalYAML_ssh s'"
  using marshal_of_shape[of s] marshal_of_shape[of s'] by simp

theorem marshal_hides_secrets_witness:
  "MarshalYAML_ssh (zero_ssh\<lparr>ssh_IdentityFilePassphrase := ''hunter2'',
       ssh_Identities := [(''ci'', \<lparr>id_Path = [], id_Content = ''PEM-A'', id_Passphrase = [],
          id_Recursive = False\<rparr>)]\<rparr>)
   = MarshalYAML_ssh (zero_ssh\<lparr>ssh_IdentityFilePassphrase := ''correct horse'',
       ssh_Identities := [(''ci'', \<lparr>id_Path = [], id_Content = ''PEM-B'', id_Passphrase = [],
          id_Recursive = False\<rparr>)]\<rparr>)"
  by (rule marshal_hides_secrets) (simp add: ssh_secret_shape_def zero_ssh_def)

end
