(* ===== verification/Params.thy ===== *)
theory Params
  imports Ast_Model Errors
begin

text \<open>
  Layering parameter maps (\<open>MergeParams\<close> of \<open>whoosh.go\<close>), as plugins lay a task's \<open>with:\<close> over an
  action's defaults. Values have no identity here, so the deep copies of the code are the values.
\<close>

fun copyParamValue :: "yval \<Rightarrow> yval" where
  "copyParamValue (YMap m) = YMap (map (\<lambda>(k, v). (k, copyParamValue v)) m)"
| "copyParamValue (YList vs) = YList (map copyParamValue vs)"
| "copyParamValue v = v"

lemma copy_id [simp]: "copyParamValue v = v"
  by (induction v rule: copyParamValue.induct) (auto intro!: map_idI)

text \<open>The second loop of \<open>MergeParams\<close>; it recurses where both sides hold a map.\<close>

function merge_over :: "yval smap \<Rightarrow> (string \<times> yval) list \<Rightarrow> yval smap" where
  "merge_over out [] = out"
| "merge_over out ((k, YMap om) # rest) = (case m_get out k of
      Some (YMap bm) \<Rightarrow> merge_over (m_put k (YMap (merge_over bm om)) out) rest
    | _ \<Rightarrow> merge_over (m_put k (YMap om) out) rest)"
| "\<not> (\<exists>om. v = YMap om) \<Longrightarrow> merge_over out ((k, v) # rest) = merge_over (m_put k v out) rest"
  by (auto) (metis neq_Nil_conv surj_pair)
termination by (relation "measure (\<lambda>(out, over). size_list (size_prod (\<lambda>_. 0) size) over)") auto

definition MergeParams :: "yval smap \<Rightarrow> yval smap \<Rightarrow> yval smap" where
  "MergeParams base over = merge_over (map (\<lambda>(k, v). (k, copyParamValue v)) base)
     (map (\<lambda>(k, v). (k, copyParamValue v)) over)"

lemma MergeParams_eq [simp]: "MergeParams base over = merge_over base over"
  by (simp add: MergeParams_def)

section \<open>What the layers give\<close>

definition over_val :: "yval option \<Rightarrow> yval \<Rightarrow> yval" where
  "over_val b v = (case (b, v) of (Some (YMap bm), YMap om) \<Rightarrow> YMap (MergeParams bm om) | _ \<Rightarrow> v)"

lemma merge_step: "merge_over out ((k, v) # rest) = merge_over (m_put k (over_val (m_get out k) v) out) rest"
  by (cases v) (auto simp: over_val_def split: option.split yval.split)

lemma merge_wf: "wf_map out \<Longrightarrow> wf_map (merge_over out over)"
proof (induction over arbitrary: out)
  case (Cons kv rest)
  then show ?case by (cases kv) (simp add: merge_step del: merge_over.simps)
qed simp

lemma lookup_merge:
  assumes "wf_map over"
  shows "m_get (MergeParams base over) k = (case m_get over k of
      None \<Rightarrow> m_get base k | Some v \<Rightarrow> Some (over_val (m_get base k) v))"
proof -
  have "m_get (merge_over out over) k = (case m_get over k of
      None \<Rightarrow> m_get out k | Some v \<Rightarrow> Some (over_val (m_get out k) v))" for out
    using assms
  proof (induction over arbitrary: out)
    case (Cons kv rest)
    obtain j v where kv: "kv = (j, v)" by fastforce
    have d: "wf_map rest" "m_get rest j = None" using Cons.prems kv by (auto simp: wf_map_def map_of_eq_None_iff)
    then show ?case using Cons.IH[of "m_put j (over_val (m_get out j) v) out"] kv
      by (auto simp: merge_step simp del: merge_over.simps split: option.split)
  qed simp
  then show ?thesis by simp
qed

text \<open>
  Each key of the layered parameters has the value of the upper layer, merged into the lower one's
  where both are maps, and the lower layer's where the upper one does not name it.
\<close>

theorem MergeParams_lookup:
  assumes "wf_map over"
  shows "m_get (MergeParams base over) k = (case m_get over k of
      None \<Rightarrow> m_get base k | Some v \<Rightarrow> Some (over_val (m_get base k) v))"
  by (rule lookup_merge[OF assms])

text \<open>Every map in a value has each key once.\<close>

fun deep_wf :: "yval \<Rightarrow> bool" where
  "deep_wf (YMap m) \<longleftrightarrow> wf_map m \<and> (\<forall>kv\<in>set m. deep_wf (snd kv))"
| "deep_wf v \<longleftrightarrow> True"

lemma merge_self: "set over \<subseteq> set m \<Longrightarrow> deep_wf (YMap m) \<Longrightarrow> merge_over m over = m"
proof (induction "size_list (size_prod (\<lambda>_. 0) size) over" arbitrary: m over rule: less_induct)
  case less
  show ?case
  proof (cases over)
    case (Cons kv rest)
    obtain k v where kv: "kv = (k, v)" by fastforce
    have "(k, v) \<in> set m" "distinct (map fst m)" using less.prems Cons kv by (auto simp: wf_map_def)
    then have g: "m_get m k = Some v" by simp
    have "deep_wf v" using less.prems Cons kv by fastforce
    moreover have "merge_over om om = om" if "v = YMap om" "deep_wf (YMap om)" for om
      using that by (intro less.hyps) (simp_all add: Cons kv)
    ultimately have "over_val (Some v) v = v" by (cases v) (auto simp: over_val_def)
    then have "merge_over m over = merge_over m rest" using update_triv[OF g] by (simp add: Cons kv merge_step g del: merge_over.simps)
    also have "\<dots> = m" using less.prems by (intro less.hyps) (auto simp: Cons kv)
    finally show ?thesis .
  qed simp
qed

lemma put_set: "kv \<in> set (m_put k v m) \<Longrightarrow> kv = (k, v) \<or> kv \<in> set m"
  by (induction m) (auto split: if_splits)

lemma put_deep: "deep_wf (YMap m) \<Longrightarrow> deep_wf v \<Longrightarrow> deep_wf (YMap (m_put k v m))"
  using put_set[of _ k v m] by (fastforce simp: wf_map_def distinct_update)

lemma merge_deep: "deep_wf (YMap out) \<Longrightarrow> deep_wf (YMap over) \<Longrightarrow> deep_wf (YMap (merge_over out over))"
proof (induction "size_list (size_prod (\<lambda>_. 0) size) over" arbitrary: out over rule: less_induct)
  case less
  show ?case
  proof (cases over)
    case (Cons kv rest)
    obtain k v where kv: "kv = (k, v)" by fastforce
    have v: "deep_wf v" "deep_wf (YMap rest)" using less.prems(2) Cons kv by (auto simp: wf_map_def)
    have g: "deep_wf b" if "m_get out k = Some b" for b
      using less.prems(1) map_of_SomeD[OF that] by fastforce
    have n: "deep_wf (YMap (merge_over bm om))" if "m_get out k = Some (YMap bm)" "v = YMap om" for bm om
      using g[OF that(1)] v(1) that(2) by (intro less.hyps) (simp_all add: Cons kv)
    have "deep_wf (over_val (m_get out k) v)"
      using n v(1) by (auto simp: over_val_def simp del: deep_wf.simps split: option.split yval.split)
    then have "deep_wf (YMap (m_put k (over_val (m_get out k) v) out))" using put_deep less.prems(1) by blast
    then have "deep_wf (YMap (merge_over (m_put k (over_val (m_get out k) v) out) rest))"
      using v(2) by (intro less.hyps) (simp add: Cons kv)
    then show ?thesis by (simp add: Cons kv merge_step del: deep_wf.simps merge_over.simps)
  qed (use less.prems in simp)
qed

lemma MergeParams_empty: "MergeParams base [] = base" by simp

end
