(* ===== verification/Shell.thy ===== *)
theory Shell
  imports Lines
begin

text \<open>
  Shell commands: the quoting functions and the template renderer of \<open>internal/shtmpl\<close>, and the
  command wrapping of \<open>internal/executor/shell.go\<close> with its three templates.

  The specification they are held against is a reader for the part of the POSIX shell language that
  quoting is about: words, quotes, escapes, expansion points and operator characters (\<open>sh_tokens\<close>),
  and the lines of a here-document (\<open>heredoc\<close>). The reader stops where it meets what it does not read: command
  substitution, arithmetic, and parameter expansions other than \<open>$NAME\<close> and \<open>${NAME}\<close>. Comments and the grammar
  above tokens are not part of it.
\<close>

definition sq :: char where "sq = CHR 0x27"
definition dq :: char where "dq = CHR 0x22"
definition bsl :: char where "bsl = CHR 0x5C"
definition btick :: char where "btick = CHR 0x60"
definition dollar :: char where "dollar = CHR 0x24"

lemmas sh_chars = sq_def dq_def bsl_def btick_def dollar_def nl_def

section \<open>Quoting\<close>

definition Quote :: "string \<Rightarrow> string" where
  "Quote s = [sq] @ replace_all [sq] [sq, bsl, sq, sq] s @ [sq]"

definition dq_escape :: "char \<Rightarrow> string" where
  "dq_escape c = (if c \<in> {bsl, dq, btick} then [bsl, c] else [c])"

definition QuoteDouble :: "string \<Rightarrow> string" where
  "QuoteDouble s = [dq] @ concat (map dq_escape s) @ [dq]"

text \<open>\<open>MustRender\<close> trims the newlines at the end of what the template gives.\<close>

definition MustRender :: "string \<Rightarrow> string" where
  "MustRender s = trim_right (\<lambda>c. c = nl) s"

section \<open>Environments\<close>

record env_value =
  ev_Value :: string
  ev_Expand :: bool

type_synonym env = "env_value smap"

definition SetLiteral :: "env \<Rightarrow> string smap \<Rightarrow> env" where
  "SetLiteral e m = fold (\<lambda>(k, v) e. m_put k \<lparr>ev_Value = v, ev_Expand = False\<rparr> e) m e"

definition SetExpand :: "env \<Rightarrow> string smap \<Rightarrow> env" where
  "SetExpand e m = fold (\<lambda>(k, v) e. m_put k \<lparr>ev_Value = v, ev_Expand = True\<rparr> e) m e"

definition env_word :: "env_value \<Rightarrow> string" where
  "env_word v = (if ev_Expand v then QuoteDouble (ev_Value v) else Quote (ev_Value v))"

text \<open>\<open>range\<close> over a map visits the keys in sorted order.\<close>

definition env_range :: "(string \<Rightarrow> env_value \<Rightarrow> string) \<Rightarrow> env \<Rightarrow> string" where
  "env_range f e = concat (map (\<lambda>k. f k (the (m_get e k))) (sorted_keys e))"

definition cd_part :: "string \<Rightarrow> string" where
  "cd_part dir = (if dir \<noteq> [] then ''cd '' @ Quote dir @ '' && '' else [])"

definition wrapRemote :: "string \<Rightarrow> string \<Rightarrow> env \<Rightarrow> string" where
  "wrapRemote command dir e = MustRender
     (env_range (\<lambda>k v. ''export '' @ k @ ''='' @ env_word v @ ''; '') e @ cd_part dir @ command)"

definition WrapCommand :: "string \<Rightarrow> string \<Rightarrow> env \<Rightarrow> string" where
  "WrapCommand command dir e = wrapRemote command dir e"

definition DefaultInterpreter :: string where "DefaultInterpreter = ''/bin/sh''"

definition script_eof :: string where "script_eof = ''__WHOOSH_SCRIPT_EOF__''"

definition script_text :: "string \<Rightarrow> string \<Rightarrow> string \<Rightarrow> env \<Rightarrow> string" where
  "script_text interpreter content dir e =
     env_range (\<lambda>k v. ''export '' @ k @ ''='' @ env_word v @ [nl]) e @ cd_part dir
     @ interpreter @ '' <<'' @ [sq] @ script_eof @ [sq, nl] @ content @ script_eof @ [nl]"

definition buildScriptCommand :: "string \<Rightarrow> string \<Rightarrow> string \<Rightarrow> env \<Rightarrow> string" where
  "buildScriptCommand interpreter content dir e = MustRender (script_text
     (or_str DefaultInterpreter interpreter)
     (if has_suffix content [nl] then content else content @ [nl]) dir e)"

definition writeFileCmd :: "string \<Rightarrow> string \<Rightarrow> string" where
  "writeFileCmd path content = MustRender (''mkdir -p '' @ Quote (path_dir path)
     @ '' && (umask 077 && printf '' @ [sq] @ ''%s'' @ [sq] @ '' '' @ Quote content
     @ '' > '' @ Quote path @ '')'' @ [nl])"

section \<open>Reading shell text\<close>

text \<open>
  A word is a list of items: a literal character, or the dollar sign of a parameter the shell expands there,
  whose name follows. Command substitution and the forms of \<open>${}\<close> beyond a name take text of their own, up
  to a bracket that can lie behind any quote, so the reader does not read past one of them, nor past a
  backtick.
\<close>

datatype item = Lit char | Dollar

datatype quote_mode = Plain | InSingle | InDouble

definition is_blank :: "char \<Rightarrow> bool" where
  "is_blank c \<longleftrightarrow> c = CHR '' '' \<or> c = CHR 0x09"

definition is_op :: "char \<Rightarrow> bool" where
  "is_op c \<longleftrightarrow> c \<in> set '';&|<>()'' \<or> c = nl"

definition add_item :: "item \<Rightarrow> (item list \<times> string) option \<Rightarrow> (item list \<times> string) option" where
  "add_item i r = map_option (\<lambda>(is, s). (i # is, s)) r"

definition var_char :: "char \<Rightarrow> bool" where
  "var_char c = (let n = of_char c :: nat in 65 \<le> n \<and> n \<le> 90 \<or> 97 \<le> n \<and> n \<le> 122 \<or> 48 \<le> n \<and> n \<le> 57 \<or> n = 95)"

text \<open>What follows a dollar sign that at most expands a parameter.\<close>

fun dollar_ok :: "string \<Rightarrow> bool" where
  "dollar_ok [] = True"
| "dollar_ok (c # s) =
     (if c = CHR ''{'' then takeWhile var_char s \<noteq> [] \<and> has_prefix (dropWhile var_char s) ''}''
      else c \<noteq> CHR ''('' \<and> c \<noteq> CHR ''['' \<and> \<not> (c = bsl \<and> has_prefix s [nl]))"

fun sh_lex :: "quote_mode \<Rightarrow> string \<Rightarrow> (item list \<times> string) option" where
  "sh_lex Plain [] = Some ([], [])"
| "sh_lex InSingle [] = None"
| "sh_lex InDouble [] = None"
| "sh_lex Plain (c # s) =
     (if is_blank c \<or> is_op c then Some ([], c # s)
      else if c = sq then sh_lex InSingle s
      else if c = dq then sh_lex InDouble s
      else if c = bsl then (case s of [] \<Rightarrow> Some ([Lit bsl], [])
         | d # s' \<Rightarrow> if d = nl then sh_lex Plain s' else add_item (Lit d) (sh_lex Plain s'))
      else if c = dollar then (if dollar_ok s \<and> (s = [] \<or> hd s \<notin> {sq, dq}) then add_item Dollar (sh_lex Plain s) else None)
      else if c = btick then None
      else add_item (Lit c) (sh_lex Plain s))"
| "sh_lex InSingle (c # s) =
     (if c = sq then sh_lex Plain s else add_item (Lit c) (sh_lex InSingle s))"
| "sh_lex InDouble (c # s) =
     (if c = dq then sh_lex Plain s
      else if c = bsl then (case s of [] \<Rightarrow> None
         | d # s' \<Rightarrow> if d = nl then sh_lex InDouble s'
             else if d \<in> {dollar, btick, dq, bsl} then add_item (Lit d) (sh_lex InDouble s')
             else add_item (Lit bsl) (add_item (Lit d) (sh_lex InDouble s')))
      else if c = dollar then (if dollar_ok s then add_item Dollar (sh_lex InDouble s) else None)
      else if c = btick then None
      else add_item (Lit c) (sh_lex InDouble s))"

definition add_items :: "item list \<Rightarrow> (item list \<times> string) option \<Rightarrow> (item list \<times> string) option" where
  "add_items js r = map_option (\<lambda>(is, s). (js @ is, s)) r"

lemma add_items_simps [simp]:
  "add_items [] r = r" "add_items (i # js) r = add_item i (add_items js r)"
  "add_items js (add_items ks r) = add_items (js @ ks) r"
  by (cases r; auto simp: add_items_def add_item_def)+

lemma add_item_flip: "add_item i r = add_items [i] r" by simp

text \<open>A single-quoted value reads back as exactly its characters, in any context.\<close>

lemma lex_single:
  "sh_lex InSingle (replace_all [sq] [sq, bsl, sq, sq] s @ sq # t) = add_items (map Lit s) (sh_lex Plain t)"
  by (induction s) (auto simp: has_prefix_iff sh_chars is_blank_def is_op_def)

lemma lex_Quote: "sh_lex Plain (Quote s @ t) = add_items (map Lit s) (sh_lex Plain t)"
  using lex_single[of s t] by (simp add: Quote_def sh_chars is_blank_def is_op_def)

definition dq_item :: "char \<Rightarrow> item" where
  "dq_item c = (if c = dollar then Dollar else Lit c)"

text \<open>A value with no dollar sign but those of \<open>$NAME\<close> and \<open>${NAME}\<close>, and those that are only text.\<close>

fun plain_refs :: "string \<Rightarrow> bool" where
  "plain_refs [] = True"
| "plain_refs (c # s) = ((c = dollar \<longrightarrow> dollar_ok s) \<and> plain_refs s)"

lemma escape_var_char: "var_char c \<Longrightarrow> dq_escape c = [c]"
  by (auto simp: dq_escape_def var_char_def sh_chars Let_def)

lemma quote_marks: "\<not> var_char dq" "\<not> var_char bsl" "\<not> var_char btick"
  by (simp_all add: var_char_def sh_chars)

lemma escape_while:
  "takeWhile var_char (concat (map dq_escape s) @ dq # t) = takeWhile var_char s"
  "dropWhile var_char (concat (map dq_escape s) @ dq # t) = concat (map dq_escape (dropWhile var_char s)) @ dq # t"
proof (induction s)
  case (Cons c s)
  case 1
  then show ?case using Cons.IH by (cases "var_char c") (auto simp: escape_var_char dq_escape_def quote_marks)
  case 2
  then show ?case using Cons.IH by (cases "var_char c") (auto simp: escape_var_char dq_escape_def quote_marks)
qed (simp_all add: quote_marks)

lemma escape_brace: "has_prefix (concat (map dq_escape s) @ dq # t) ''}'' \<longleftrightarrow> has_prefix s ''}''"
  by (cases s) (auto simp: has_prefix_def dq_escape_def sh_chars)

lemma dollar_escape: "dollar_ok s \<Longrightarrow> dollar_ok (concat (map dq_escape s) @ dq # t)"
proof (cases s)
  case (Cons c s')
  assume ok: "dollar_ok s"
  show ?thesis
  proof (cases "c \<in> {bsl, dq, btick}")
    case True
    then show ?thesis by (auto simp: Cons dq_escape_def has_prefix_def sh_chars)
  next
    case False
    then show ?thesis using ok by (auto simp: Cons dq_escape_def escape_while escape_brace)
  qed
qed (simp add: sh_chars)

lemma lex_double:
  "plain_refs s \<Longrightarrow> sh_lex InDouble (concat (map dq_escape s) @ dq # t) = add_items (map dq_item s) (sh_lex Plain t)"
proof (induction s)
  case (Cons c s)
  have IH: "sh_lex InDouble (concat (map dq_escape s) @ dq # t) = add_items (map dq_item s) (sh_lex Plain t)"
    using Cons by simp
  have marks: "dollar \<noteq> bsl" "dollar \<noteq> dq" "dollar \<noteq> btick" "bsl \<noteq> dq" "nl \<noteq> bsl" "nl \<noteq> dq" "nl \<noteq> btick"
    by (simp_all add: sh_chars)
  consider (ref) "c = dollar" | (esc) "c \<in> {bsl, dq, btick}" | (lit) "c \<notin> {dollar, bsl, dq, btick}" by blast
  then show ?case
  proof cases
    case ref
    then have "dq_escape c = [dollar]" "dq_item c = Dollar" using marks by (simp_all add: dq_escape_def dq_item_def)
    then show ?thesis using dollar_escape[of s t] Cons.prems ref marks IH by simp
  next
    case esc
    then have "dq_escape c = [bsl, c]" "dq_item c = Lit c" "c \<noteq> nl" using marks by (auto simp: dq_escape_def dq_item_def)
    then show ?thesis using esc marks IH by auto
  next
    case lit
    then have "dq_escape c = [c]" "dq_item c = Lit c" by (simp_all add: dq_escape_def dq_item_def)
    then show ?thesis using lit IH by simp
  qed
qed simp

lemma lex_QuoteDouble: "plain_refs s \<Longrightarrow> sh_lex Plain (QuoteDouble s @ t) = add_items (map dq_item s) (sh_lex Plain t)"
  using lex_double[of s t] by (simp add: QuoteDouble_def sh_chars is_blank_def is_op_def)

section \<open>Tokens\<close>

text \<open>From a word that cannot be read on, the rest of the text is one token.\<close>

datatype token = Word "item list" | Op char | Unread string

lemma lex_length: "sh_lex m s = Some (w, r) \<Longrightarrow> length r \<le> length s"
  by (induction m s arbitrary: w r rule: sh_lex.induct)
     (auto simp: add_item_def split: if_splits list.splits, (fastforce dest: le_SucI)+)

lemma lex_shorter:
  "sh_lex Plain (c # s) = Some (w, r) \<Longrightarrow> \<not> is_blank c \<Longrightarrow> \<not> is_op c \<Longrightarrow> length r < Suc (length s)"
  by (auto simp: add_item_def less_Suc_eq_le split: if_splits list.splits dest: lex_length intro: le_SucI)

function sh_tokens :: "string \<Rightarrow> token list option" where
  "sh_tokens [] = Some []"
| "sh_tokens (c # s) =
     (if is_blank c then sh_tokens s
      else if is_op c then map_option ((#) (Op c)) (sh_tokens s)
      else (case sh_lex Plain (c # s) of None \<Rightarrow> Some [Unread (c # s)]
        | Some (w, r) \<Rightarrow> map_option ((#) (Word w)) (sh_tokens r)))"
  by pat_completeness auto
termination
  by (relation "measure length") (auto simp del: sh_lex.simps dest: lex_shorter)

declare sh_tokens.simps [simp del]

definition prepend :: "token list \<Rightarrow> token list option \<Rightarrow> token list option" where
  "prepend ts r = map_option ((@) ts) r"

lemma prepend_simps [simp]:
  "prepend [] r = r" "prepend ts (prepend us r) = prepend (ts @ us) r"
  "map_option ((#) t) r = prepend [t] r"
  by (cases r; simp add: prepend_def)+

lemma tokens_blank [simp]: "sh_tokens (CHR '' '' # s) = sh_tokens s"
  by (simp add: sh_tokens.simps is_blank_def)

lemma tokens_op: "is_op c \<Longrightarrow> \<not> is_blank c \<Longrightarrow> sh_tokens (c # s) = prepend [Op c] (sh_tokens s)"
  by (simp add: sh_tokens.simps)

definition plain_char :: "char \<Rightarrow> bool" where
  "plain_char c \<longleftrightarrow> \<not> is_blank c \<and> \<not> is_op c \<and> c \<notin> {sq, dq, bsl, dollar, btick}"

lemma lex_plain: "list_all plain_char k \<Longrightarrow> sh_lex Plain (k @ t) = add_items (map Lit k) (sh_lex Plain t)"
  by (induction k) (auto simp: plain_char_def)

definition ends_word :: "string \<Rightarrow> bool" where
  "ends_word t = (case t of [] \<Rightarrow> True | c # _ \<Rightarrow> is_blank c \<or> is_op c)"

lemma lex_end: "ends_word t \<Longrightarrow> sh_lex Plain t = Some ([], t)"
  by (cases t) (auto simp: ends_word_def)

text \<open>A non-empty text that reads as one word up to the end of the word.\<close>

lemma tokens_word:
  assumes "s \<noteq> []" "\<not> is_blank (hd s)" "\<not> is_op (hd s)"
    "sh_lex Plain (s @ t) = add_items w (sh_lex Plain t)" "ends_word t"
  shows "sh_tokens (s @ t) = prepend [Word w] (sh_tokens t)"
proof -
  have "sh_lex Plain (s @ t) = Some (w, t)"
    using assms(4) lex_end[OF assms(5)] by (simp add: add_items_def)
  then show ?thesis using assms(1,2,3) by (cases s) (simp_all add: sh_tokens.simps)
qed

lemma tokens_plain:
  "k \<noteq> [] \<Longrightarrow> list_all plain_char k \<Longrightarrow> ends_word t \<Longrightarrow>
   sh_tokens (k @ t) = prepend [Word (map Lit k)] (sh_tokens t)"
  by (rule tokens_word) (auto simp: lex_plain plain_char_def neq_Nil_conv)

definition env_items :: "env_value \<Rightarrow> item list" where
  "env_items v = map (if ev_Expand v then dq_item else Lit) (ev_Value v)"

definition value_ok :: "env_value \<Rightarrow> bool" where
  "value_ok v \<longleftrightarrow> (ev_Expand v \<longrightarrow> plain_refs (ev_Value v))"

lemma lex_env_word: "value_ok v \<Longrightarrow> sh_lex Plain (env_word v @ t) = add_items (env_items v) (sh_lex Plain t)"
  by (simp add: value_ok_def env_word_def env_items_def lex_Quote lex_QuoteDouble)

lemma plain_export: "list_all plain_char ''export''" "list_all plain_char ''cd''" "plain_char (CHR ''='')"
  by (simp_all add: plain_char_def is_blank_def is_op_def sh_chars)

lemma tokens_assign:
  assumes "list_all plain_char k" "ends_word t" "value_ok v"
  shows "sh_tokens (k @ ''='' @ env_word v @ t) = prepend [Word (map Lit (k @ ''='') @ env_items v)] (sh_tokens t)"
proof -
  have k: "list_all plain_char (k @ ''='')" using assms plain_export by simp
  have "sh_lex Plain ((k @ ''='' @ env_word v) @ t) = add_items (map Lit (k @ ''='') @ env_items v) (sh_lex Plain t)"
    using lex_plain[OF k, of "env_word v @ t"] by (simp add: lex_env_word assms(3))
  moreover have "plain_char (hd (k @ ''='' @ env_word v))"
    using k by (cases k) auto
  ultimately show ?thesis
    using tokens_word[of "k @ ''='' @ env_word v" t] assms(2) by (simp add: plain_char_def)
qed

definition export_tokens :: "char \<Rightarrow> string \<Rightarrow> env_value \<Rightarrow> token list" where
  "export_tokens sep k v = [Word (map Lit ''export''), Word (map Lit (k @ ''='') @ env_items v), Op sep]"

definition cd_tokens :: "string \<Rightarrow> token list" where
  "cd_tokens dir = (if dir = [] then [] else
     [Word (map Lit ''cd''), Word (map Lit dir), Op (CHR ''&''), Op (CHR ''&'')])"

lemma tokens_export:
  assumes "list_all plain_char k" "is_op c" "\<not> is_blank c" "value_ok v"
  shows "sh_tokens (''export '' @ k @ ''='' @ env_word v @ c # t) = prepend (export_tokens c k v) (sh_tokens t)"
proof -
  have "sh_tokens (''export'' @ CHR '' '' # k @ ''='' @ env_word v @ c # t)
      = prepend [Word (map Lit ''export'')] (sh_tokens (CHR '' '' # k @ ''='' @ env_word v @ c # t))"
    using plain_export by (intro tokens_plain) (simp_all add: ends_word_def is_blank_def)
  then show ?thesis
    using tokens_assign[of k "c # t" v] assms by (simp add: ends_word_def tokens_op export_tokens_def)
qed

lemma Quote_head: "\<exists>x. Quote s = sq # x" by (simp add: Quote_def)

lemma tokens_Quote: "ends_word t \<Longrightarrow> sh_tokens (Quote s @ t) = prepend [Word (map Lit s)] (sh_tokens t)"
  using Quote_head[of s] by (intro tokens_word) (auto simp: lex_Quote sh_chars is_blank_def is_op_def)

lemma tokens_cd: "sh_tokens (cd_part dir @ t) = prepend (cd_tokens dir) (sh_tokens t)"
proof (cases "dir = []")
  case False
  have "sh_tokens (''cd'' @ CHR '' '' # Quote dir @ '' && '' @ t)
      = prepend [Word (map Lit ''cd'')] (sh_tokens (CHR '' '' # Quote dir @ '' && '' @ t))"
    using plain_export by (intro tokens_plain) (simp_all add: ends_word_def is_blank_def)
  then show ?thesis
    using False tokens_Quote[of "'' && '' @ t" dir]
    by (simp add: cd_part_def cd_tokens_def ends_word_def is_blank_def tokens_op is_op_def)
qed (simp add: cd_part_def cd_tokens_def)

lemma trim_right_app: "a = [] \<or> \<not> p (last a) \<Longrightarrow> trim_right p (a @ b) = a @ trim_right p b"
proof -
  assume a: "a = [] \<or> \<not> p (last a)"
  show ?thesis
  proof (cases "\<forall>c\<in>set b. p c")
    case True
    then have "dropWhile p (rev b @ rev a) = rev a" "dropWhile p (rev b) = []"
      using a by (cases "rev a"; auto simp: dropWhile_append last_conv_nth rev_eq_Cons_iff)+
    then show ?thesis by (simp add: trim_right_def)
  next
    case False
    then show ?thesis by (auto simp: trim_right_def dropWhile_append)
  qed
qed

definition env_plain :: "env \<Rightarrow> bool" where
  "env_plain e \<longleftrightarrow> (\<forall>k\<in>set (sorted_keys e). list_all plain_char k)"

text \<open>Its expandable values hold no expansion but those of parameters.\<close>

definition env_refs :: "env \<Rightarrow> bool" where
  "env_refs e \<longleftrightarrow> (\<forall>k\<in>set (sorted_keys e). value_ok (the (m_get e k)))"

definition env_tokens :: "char \<Rightarrow> env \<Rightarrow> token list" where
  "env_tokens c e = concat (map (\<lambda>k. export_tokens c k (the (m_get e k))) (sorted_keys e))"

lemma tokens_env:
  assumes "env_plain e" "env_refs e" "is_op c" "\<not> is_blank c" and b: "\<And>t. sh_tokens (b @ t) = sh_tokens t"
  shows "sh_tokens (env_range (\<lambda>k v. ''export '' @ k @ ''='' @ env_word v @ c # b) e @ t)
    = prepend (env_tokens c e) (sh_tokens t)"
proof -
  have "\<forall>k\<in>set ks. list_all plain_char k \<and> value_ok (the (m_get e k)) \<Longrightarrow>
    sh_tokens (concat (map (\<lambda>k. ''export '' @ k @ ''='' @ env_word (the (m_get e k)) @ c # b) ks) @ t)
    = prepend (concat (map (\<lambda>k. export_tokens c k (the (m_get e k))) ks)) (sh_tokens t)" for ks
  proof (induction ks)
    case (Cons k ks)
    then show ?case
      using tokens_export[of k c "the (m_get e k)" "b @ concat (map (\<lambda>k. ''export '' @ k @ ''=''
          @ env_word (the (m_get e k)) @ c # b) ks) @ t"] assms(3,4) by (simp add: b)
  qed simp
  then show ?thesis using assms(1,2) by (simp add: env_range_def env_tokens_def env_plain_def env_refs_def)
qed

lemma prefix_end:
  "env_range (\<lambda>k v. ''export '' @ k @ ''='' @ env_word v @ ''; '') e @ cd_part dir = []
   \<or> last (env_range (\<lambda>k v. ''export '' @ k @ ''='' @ env_word v @ ''; '') e @ cd_part dir) \<noteq> nl"
proof (cases "dir = []")
  case True
  then show ?thesis
    by (cases "sorted_keys e" rule: rev_cases) (simp_all add: env_range_def cd_part_def sh_chars)
qed (simp add: cd_part_def sh_chars)

text \<open>
  C20. Nothing in an environment value or a directory can break out of its word, as long as the values
  to be expanded hold no expansion but \<open>$NAME\<close> and \<open>${NAME}\<close>, which is what expanding them is for: a wrapped
  command reads back as one \<open>export\<close> of exactly that name and value per variable, in name order (a literal
  value character for character, whatever it is, an expandable one with expansion points at its dollar
  signs only), then one \<open>cd\<close> to exactly that directory, then whatever the command reads as.
\<close>

theorem wrapRemote_tokens:
  assumes "env_plain e" and "env_refs e"
  shows "sh_tokens (wrapRemote command dir e)
    = prepend (env_tokens (CHR '';'') e @ cd_tokens dir) (sh_tokens (MustRender command))"
proof -
  let ?p = "env_range (\<lambda>k v. ''export '' @ k @ ''='' @ env_word v @ ''; '') e"
  have "wrapRemote command dir e = (?p @ cd_part dir) @ MustRender command"
    using trim_right_app[of "?p @ cd_part dir" "\<lambda>c. c = nl" command] prefix_end[of e dir]
    unfolding wrapRemote_def MustRender_def by (metis append.assoc)
  moreover have "sh_tokens (?p @ cd_part dir @ MustRender command)
      = prepend (env_tokens (CHR '';'') e) (sh_tokens (cd_part dir @ MustRender command))"
    using assms by (intro tokens_env) (simp_all add: is_op_def is_blank_def)
  ultimately show ?thesis by (simp add: tokens_cd)
qed

text \<open>
  The condition on expandable values is needed: backticks are escaped, a \<open>$(\<close> is not, and it swallows the
  quote that ends its value and the commands after it.
\<close>

lemma dollar_paren_escapes:
  "sh_tokens (wrapRemote ''ls'' [] [(''A'', \<lparr>ev_Value = ''$('', ev_Expand = True\<rparr>)])
    = Some [Word (map Lit ''export''), Unread (''A='' @ [dq] @ ''$('' @ [dq] @ ''; ls'')]"
  by code_simp

section \<open>Here-documents\<close>

text \<open>
  The shell takes the lines up to the first one that is exactly the delimiter; a quoted delimiter
  means that they are taken verbatim.
\<close>

definition heredoc :: "string \<Rightarrow> string \<Rightarrow> (string list \<times> string list) option" where
  "heredoc delim s = (let ls = split_on nl s in
     if delim \<in> set ls then Some (takeWhile (\<lambda>l. l \<noteq> delim) ls, tl (dropWhile (\<lambda>l. l \<noteq> delim) ls)) else None)"

definition script_lines :: "string \<Rightarrow> string list" where
  "script_lines content = butlast (split_on nl (if has_suffix content [nl] then content else content @ [nl]))"

definition script_head :: "string \<Rightarrow> string \<Rightarrow> env \<Rightarrow> string" where
  "script_head interpreter dir e = env_range (\<lambda>k v. ''export '' @ k @ ''='' @ env_word v @ [nl]) e
     @ cd_part dir @ or_str DefaultInterpreter interpreter @ '' <<'' @ [sq] @ script_eof @ [sq]"

lemma split_on_snoc: "split_on c (s @ [c]) = split_on c s @ [[]]"
  by (induction s) (auto simp: neq_Nil_conv)

lemma split_on_end: "c \<notin> set t \<Longrightarrow> split_on c (s @ c # t) = split_on c s @ [t]"
  by (induction s) (auto simp: split_on_none)

lemma take_to: "d \<notin> set xs \<Longrightarrow>
  takeWhile (\<lambda>l. l \<noteq> d) (xs @ d # ys) = xs \<and> dropWhile (\<lambda>l. l \<noteq> d) (xs @ d # ys) = d # ys"
  by (induction xs) auto

lemma eof_facts: "nl \<notin> set script_eof" "script_eof \<noteq> []" "last script_eof \<noteq> nl"
  by (simp_all add: script_eof_def nl_def)

lemma buildScript_shape:
  "buildScriptCommand interpreter content dir e = script_head interpreter dir e @ [nl]
     @ (if has_suffix content [nl] then content else content @ [nl]) @ script_eof"
proof -
  let ?c = "if has_suffix content [nl] then content else content @ [nl]"
  have "buildScriptCommand interpreter content dir e
      = trim_right (\<lambda>c. c = nl) ((script_head interpreter dir e @ [nl] @ ?c @ script_eof) @ [nl])"
    by (simp add: buildScriptCommand_def MustRender_def script_text_def script_head_def)
  also have "\<dots> = script_head interpreter dir e @ [nl] @ ?c @ script_eof"
    using eof_facts by (subst trim_right_app) (simp_all, simp_all add: trim_right_def)
  finally show ?thesis .
qed

text \<open>
  C36. A script reaches its interpreter verbatim: the command built for it is one command line, which
  exports the environment, changes directory and starts the interpreter with a quoted here-document,
  and the here-document holds exactly the lines of the script and nothing is left after it, as long
  as no line of the script is the delimiter itself.
\<close>

theorem buildScript_verbatim:
  assumes "script_eof \<notin> set (script_lines content)"
  shows "\<exists>body. buildScriptCommand interpreter content dir e = script_head interpreter dir e @ [nl] @ body
    \<and> heredoc script_eof body = Some (script_lines content, [])"
proof -
  define c where "c = (if has_suffix content [nl] then content else content @ [nl])"
  have "has_suffix c [nl]" by (auto simp: c_def has_suffix_iff)
  then obtain c' where c': "c = c' @ [nl]" by (auto simp: has_suffix_iff)
  have l: "script_lines content = split_on nl c'"
    unfolding script_lines_def c_def[symmetric] c' split_on_snoc by simp
  have "split_on nl (c @ script_eof) = script_lines content @ [script_eof]"
    unfolding l c' using split_on_end[OF eof_facts(1), of c'] by simp
  then have "heredoc script_eof (c @ script_eof) = Some (script_lines content, [])"
    using assms take_to[of script_eof "script_lines content" "[]"] by (simp add: heredoc_def)
  then show ?thesis using buildScript_shape unfolding c_def by blast
qed

text \<open>
  The condition is needed: a script with the delimiter on a line of its own is cut there, and its
  later lines are left to the login shell.
\<close>

lemma script_delimiter_cuts:
  "\<exists>body. buildScriptCommand [] (''a'' @ [nl] @ script_eof @ [nl] @ ''b'') [] []
      = script_head [] [] [] @ [nl] @ body
    \<and> heredoc script_eof body = Some ([''a''], [''b'', script_eof])"
proof -
  let ?c = "''a'' @ [nl] @ script_eof @ [nl] @ ''b''"
  have "\<not> has_suffix ?c [nl]" by (auto simp: has_suffix_iff nl_def)
  then have "buildScriptCommand [] ?c [] [] = script_head [] [] [] @ [nl] @ (?c @ [nl] @ script_eof)"
    by (simp add: buildScript_shape)
  moreover have "split_on nl (?c @ [nl] @ script_eof) = [''a'', script_eof, ''b'', script_eof]"
    using eof_facts(1) split_on_app[of nl "script_eof" "''b'' @ nl # script_eof"]
    by (simp add: split_on_none nl_def)
  then have "heredoc script_eof (?c @ [nl] @ script_eof) = Some ([''a''], [''b'', script_eof])"
    by (simp add: heredoc_def) (simp add: script_eof_def)
  ultimately show ?thesis by blast
qed

text \<open>
  Writing a file reads back as: create the parent directory, then, under a private umask in a
  subshell, print exactly the content into exactly the path, whatever bytes the two hold.
\<close>

theorem writeFileCmd_tokens:
  "sh_tokens (writeFileCmd path content) = Some
     [Word (map Lit ''mkdir''), Word (map Lit ''-p''), Word (map Lit (path_dir path)), Op (CHR ''&''), Op (CHR ''&''),
      Op (CHR ''(''), Word (map Lit ''umask''), Word (map Lit ''077''), Op (CHR ''&''), Op (CHR ''&''),
      Word (map Lit ''printf''), Word (map Lit ''%s''), Word (map Lit content), Op (CHR ''>''),
      Word (map Lit path), Op (CHR '')'')]"
proof -
  have w: "sh_tokens (k @ CHR '' '' # t) = prepend [Word (map Lit k)] (sh_tokens t)"
    if "k \<noteq> []" "list_all plain_char k" for k t
    using tokens_plain[OF that, of "CHR '' '' # t"] by (simp add: ends_word_def is_blank_def)
  have q: "sh_tokens (Quote x @ CHR '' '' # t) = prepend [Word (map Lit x)] (sh_tokens t)" for x t
    using tokens_Quote[of "CHR '' '' # t" x] by (simp add: ends_word_def is_blank_def)
  have o: "sh_tokens (c # t) = prepend [Op c] (sh_tokens t)" if "c \<in> set ''&>()''" for c t
    using that by (intro tokens_op) (auto simp: is_op_def is_blank_def)
  have p: "list_all plain_char ''mkdir''" "list_all plain_char ''-p''" "list_all plain_char ''umask''"
      "list_all plain_char ''077''" "list_all plain_char ''printf''"
    by (simp_all add: plain_char_def is_blank_def is_op_def sh_chars)
  have s: "[sq] @ ''%s'' @ [sq] = Quote ''%s''" by (simp add: Quote_def has_prefix_def sh_chars)
  have e: "writeFileCmd path content = ''mkdir'' @ CHR '' '' # ''-p'' @ CHR '' '' # Quote (path_dir path)
     @ CHR '' '' # CHR ''&'' # CHR ''&'' # CHR '' '' # CHR ''('' # ''umask'' @ CHR '' '' # ''077'' @ CHR '' ''
     # CHR ''&'' # CHR ''&'' # CHR '' '' # ''printf'' @ CHR '' '' # Quote ''%s'' @ CHR '' '' # Quote content
     @ CHR '' '' # CHR ''>'' # CHR '' '' # Quote path @ [CHR '')'']"
    unfolding writeFileCmd_def MustRender_def s[symmetric]
    by (simp add: trim_right_def nl_def)
  have l: "sh_tokens (Quote path @ [CHR '')'']) = Some [Word (map Lit path), Op (CHR '')'')]"
    using tokens_Quote[of "[CHR '')'']" path]
    by (simp add: ends_word_def is_op_def is_blank_def o sh_tokens.simps prepend_def)
  note ws = w[of "''mkdir''", OF _ p(1), simplified] w[of "''-p''", OF _ p(2), simplified]
    w[of "''umask''", OF _ p(3), simplified] w[of "''077''", OF _ p(4), simplified]
    w[of "''printf''", OF _ p(5), simplified]
  show ?thesis unfolding e by (simp add: ws q o l) (simp add: prepend_def)
qed

section \<open>A concrete command\<close>

definition demo_env :: env where
  "demo_env = [(''PATH'', \<lparr>ev_Value = ''/opt:$PATH'', ev_Expand = True\<rparr>),
     (''MSG'', \<lparr>ev_Value = [sq] @ ''; rm -rf /'', ev_Expand = False\<rparr>)]"

lemma demo_keys: "sorted_keys demo_env = [''MSG'', ''PATH'']" by code_simp

lemma wrapRemote_tokens_witness:
  "sh_tokens (wrapRemote ''ls'' ''/srv/a b'' demo_env) = prepend
     (export_tokens (CHR '';'') ''MSG'' \<lparr>ev_Value = [sq] @ ''; rm -rf /'', ev_Expand = False\<rparr>
      @ export_tokens (CHR '';'') ''PATH'' \<lparr>ev_Value = ''/opt:$PATH'', ev_Expand = True\<rparr>
      @ cd_tokens ''/srv/a b'') (sh_tokens (MustRender ''ls''))"
proof -
  have "env_plain demo_env"
    unfolding env_plain_def demo_keys by (simp add: plain_char_def is_blank_def is_op_def sh_chars)
  moreover have "env_tokens (CHR '';'') demo_env
    = export_tokens (CHR '';'') ''MSG'' \<lparr>ev_Value = [sq] @ ''; rm -rf /'', ev_Expand = False\<rparr>
      @ export_tokens (CHR '';'') ''PATH'' \<lparr>ev_Value = ''/opt:$PATH'', ev_Expand = True\<rparr>"
    unfolding env_tokens_def demo_keys by (simp add: demo_env_def)
  moreover have "env_refs demo_env" unfolding env_refs_def demo_keys by (simp add: demo_env_def value_ok_def) code_simp
  ultimately show ?thesis using wrapRemote_tokens[of demo_env "''ls''" "''/srv/a b''"] by simp
qed

lemma buildScript_verbatim_witness:
  "\<exists>body. buildScriptCommand [] ''echo $1'' [] demo_env = script_head [] [] demo_env @ [nl] @ body
    \<and> heredoc script_eof body = Some ([''echo $1''], [])"
proof -
  have "\<not> has_suffix ''echo $1'' [nl]" by (simp add: has_suffix_def has_prefix_def nl_def)
  then have l: "script_lines ''echo $1'' = [''echo $1'']" by (simp add: script_lines_def nl_def)
  show ?thesis using buildScript_verbatim[of "''echo $1''" "[]" "[]" demo_env]
    unfolding l by (simp add: script_eof_def)
qed

end
