(* ===== verification/Cluster.thy ===== *)
theory Cluster
  imports Runner Lines
begin

text \<open>
  The cluster of \<open>internal/runner/cluster.go\<close>: a pool of cached connections over the transports.
  The transports are the parameter \<open>'w net\<close>: what dialing a target and running a command on a
  connection return, and the error of the caller's context, in the world \<open>'w\<close>. \<open>Run\<close> is the
  fan-out over the pool in the one-by-one schedule of theory Runner.
\<close>

text \<open>\<open>ssh.Target\<close> with the effective host-key strictness, i.e. the arguments of \<open>ssh.Dial\<close>.\<close>

record dial_args =
  d_Host :: string
  d_Port :: int
  d_User :: string
  d_IdentityFile :: string
  d_Passphrase :: string
  d_Strict :: bool

text \<open>A connection is the local shell, or an SSH client with what it was dialled with.\<close>

datatype conn = LocalConn | SshConn dial_args nat

record 'w net =
  net_dial :: "dial_args \<Rightarrow> 'w \<Rightarrow> (goerr + nat) \<times> 'w"
  net_run :: "conn \<Rightarrow> string \<Rightarrow> 'w \<Rightarrow> ((bool \<times> string) list \<times> goerr option) \<times> 'w"
  net_ctx :: "'w \<Rightarrow> goerr option"

type_synonym pool = "(string, goerr + conn) map"

record cluster =
  c_Strict :: bool
  c_conns :: pool

definition NewCluster :: "bool \<Rightarrow> cluster" where
  "NewCluster strict = \<lparr>c_Strict = strict, c_conns = Map.empty\<rparr>"

section \<open>Error categories\<close>

definition classify :: "target \<Rightarrow> goerr \<Rightarrow> goerr" where
  "classify t err = (if is_ctx_err err then err
     else if \<not> t_Local t \<and> \<not> is_exit_error err then UnreachableError err
     else CommandError (t_Host t) err)"

definition dialError :: "goerr option \<Rightarrow> goerr \<Rightarrow> goerr" where
  "dialError ctx err = (case ctx of Some e \<Rightarrow> e | None \<Rightarrow> UnreachableError err)"

text \<open>
  The category of a failed run: a context error stays as it is, a remote failure that is not a
  command exit marks the host unreachable, everything else is a command failure of that host; so a
  failure is never of two categories, and a local target is never unreachable by its own doing.
\<close>

theorem classify_categories:
  "(is_ctx_err err \<and> classify t err = err)
   \<or> (\<not> is_ctx_err err \<and> \<not> t_Local t \<and> \<not> is_exit_error err \<and> classify t err = UnreachableError err
        \<and> code (Some (classify t err)) = CodeUnreachable)
   \<or> (\<not> is_ctx_err err \<and> (t_Local t \<or> is_exit_error err) \<and> classify t err = CommandError (t_Host t) err
        \<and> code (Some (classify t err)) = CodeCommandFailed)"
  by (auto simp: classify_def code_def)

section \<open>The connection pool\<close>

definition strictness :: "cluster \<Rightarrow> target \<Rightarrow> bool" where
  "strictness c t = (case t_StrictHostKey t of Some b \<Rightarrow> b | None \<Rightarrow> c_Strict c)"

lemma strictness_cong: "c_Strict c = c_Strict d \<Longrightarrow> strictness c t = strictness d t"
  by (simp add: strictness_def split: option.split)

definition conn_key :: "bool \<Rightarrow> target \<Rightarrow> string" where
  "conn_key strict t = (if t_Local t then ''local'' @ [CHR 0x00] @ t_Host t
     else join_on [CHR 0x00] [''ssh'', t_Host t, itoa (t_Port t), t_User t, t_IdentityFile t,
       (if strict then ''strict'' else ''insecure'')])"

definition dial_of :: "bool \<Rightarrow> target \<Rightarrow> dial_args" where
  "dial_of strict t = \<lparr>d_Host = t_Host t, d_Port = t_Port t, d_User = t_User t,
     d_IdentityFile = t_IdentityFile t, d_Passphrase = t_Passphrase t, d_Strict = strict\<rparr>"

text \<open>The body of \<open>once.Do\<close>.\<close>

definition open_conn :: "'w net \<Rightarrow> bool \<Rightarrow> target \<Rightarrow> 'w \<Rightarrow> (goerr + conn) \<times> 'w" where
  "open_conn net strict t w = (if t_Local t then (Inr LocalConn, w)
     else (case net_dial net (dial_of strict t) w of
         (Inl err, w') \<Rightarrow> (Inl err, w')
       | (Inr h, w') \<Rightarrow> (Inr (SshConn (dial_of strict t) h), w')))"

definition is_ctx_failure :: "goerr + conn \<Rightarrow> bool" where
  "is_ctx_failure e = (case e of Inl err \<Rightarrow> is_ctx_err err | Inr _ \<Rightarrow> False)"

definition conn_at :: "'w net \<Rightarrow> cluster \<Rightarrow> target \<Rightarrow> 'w \<Rightarrow> (goerr + conn) \<times> cluster \<times> 'w" where
  "conn_at net c t w = (let strict = strictness c t; key = conn_key strict t;
      (e, w') = (case c_conns c key of Some e \<Rightarrow> (e, w) | None \<Rightarrow> open_conn net strict t w)
    in (e, c\<lparr>c_conns := (if is_ctx_failure e then (c_conns c)(key := None)
                         else (c_conns c)(key \<mapsto> e))\<rparr>, w'))"

text \<open>The connection of an entry is what dialing this target would give.\<close>

fun conn_fits :: "bool \<Rightarrow> target \<Rightarrow> goerr + conn \<Rightarrow> bool" where
  "conn_fits strict t (Inl e) \<longleftrightarrow> \<not> t_Local t"
| "conn_fits strict t (Inr LocalConn) \<longleftrightarrow> t_Local t"
| "conn_fits strict t (Inr (SshConn d h)) \<longleftrightarrow> \<not> t_Local t \<and> d_Host d = t_Host t \<and> d_Port d = t_Port t
     \<and> d_User d = t_User t \<and> d_IdentityFile d = t_IdentityFile t \<and> d_Strict d = strict"

text \<open>Names without a NUL byte, which the key is built from.\<close>

definition nul_free :: "target \<Rightarrow> bool" where
  "nul_free t \<longleftrightarrow> CHR 0x00 \<notin> set (t_Host t) \<and> CHR 0x00 \<notin> set (t_User t) \<and> CHR 0x00 \<notin> set (t_IdentityFile t)"

definition pool_ok :: "cluster \<Rightarrow> bool" where
  "pool_ok c \<longleftrightarrow> (\<forall>key e. c_conns c key = Some e \<longrightarrow> \<not> is_ctx_failure e
     \<and> (\<exists>strict t. nul_free t \<and> key = conn_key strict t \<and> conn_fits strict t e))"

lemma itoa_nul: "CHR 0x00 \<notin> set (itoa n)"
  using itoa_chars[of "CHR 0x00" n] by auto

lemma conn_key_local: "t_Local t \<Longrightarrow> conn_key strict t = join_on [CHR 0x00] [''local'', t_Host t]"
  by (simp add: conn_key_def)

definition key_fields :: "bool \<Rightarrow> target \<Rightarrow> string list" where
  "key_fields strict t = (if t_Local t then [''local'', t_Host t]
     else [''ssh'', t_Host t, itoa (t_Port t), t_User t, t_IdentityFile t,
       (if strict then ''strict'' else ''insecure'')])"

lemma conn_key_fields: "conn_key strict t = join_on [CHR 0x00] (key_fields strict t)"
  by (simp add: conn_key_def key_fields_def)

lemma key_fields_nul: "nul_free t \<Longrightarrow> \<forall>x\<in>set (key_fields strict t). CHR 0x00 \<notin> set x"
  by (auto simp: nul_free_def key_fields_def itoa_nul)

lemma key_fields_ne: "key_fields strict t \<noteq> []" by (simp add: key_fields_def)

lemma conn_key_eq:
  "nul_free t \<Longrightarrow> nul_free u \<Longrightarrow> conn_key s t = conn_key r u \<longleftrightarrow> key_fields s t = key_fields r u"
  unfolding conn_key_fields by (intro join_on_inj key_fields_ne key_fields_nul)

lemma key_fields_fit:
  "key_fields s t = key_fields r u \<Longrightarrow> conn_fits s t e \<Longrightarrow> conn_fits r u e"
  by (cases "(s, t, e)" rule: conn_fits.cases)
     (auto simp: key_fields_def itoa_inj split: if_splits)

lemma open_conn_fits: "open_conn net strict t w = (e, w') \<Longrightarrow> conn_fits strict t e"
  by (auto simp: open_conn_def dial_of_def split: if_splits prod.splits sum.splits)

lemma pool_ok_new [simp]: "pool_ok (NewCluster strict)"
  by (simp add: pool_ok_def NewCluster_def)

lemma conn_at_step:
  assumes "pool_ok c" "nul_free t" "conn_at net c t w = (e, c', w')"
  shows "pool_ok c' \<and> conn_fits (strictness c t) t e"
proof -
  let ?s = "strictness c t" and ?k = "conn_key (strictness c t) t"
  have fit: "conn_fits ?s t e"
  proof (cases "c_conns c ?k")
    case None
    then show ?thesis using assms(3)
      by (auto simp: conn_at_def Let_def split: prod.splits intro: open_conn_fits)
  next
    case (Some e0)
    then have "e = e0" using assms(3) by (simp add: conn_at_def Let_def)
    moreover obtain s u where "nul_free u" "?k = conn_key s u" "conn_fits s u e0"
      using assms(1) Some unfolding pool_ok_def by blast
    ultimately show ?thesis using key_fields_fit conn_key_eq[OF assms(2)] by metis
  qed
  moreover have "c_conns c' = (if is_ctx_failure e then (c_conns c)(?k := None) else (c_conns c)(?k \<mapsto> e))"
    using assms(3) by (auto simp: conn_at_def Let_def split: prod.splits)
  ultimately show ?thesis using assms(1,2) unfolding pool_ok_def by (auto split: if_splits)
qed

fun conns_at :: "'w net \<Rightarrow> cluster \<Rightarrow> target list \<Rightarrow> 'w \<Rightarrow> cluster \<times> 'w" where
  "conns_at net c [] w = (c, w)"
| "conns_at net c (t # ts) w = (case conn_at net c t w of (e, c', w') \<Rightarrow> conns_at net c' ts w')"

lemma conns_at_pool:
  "pool_ok c \<Longrightarrow> list_all nul_free ts \<Longrightarrow> conns_at net c ts w = (c', w') \<Longrightarrow> pool_ok c' \<and> c_Strict c' = c_Strict c"
proof (induction ts arbitrary: c w)
  case (Cons t ts)
  obtain e c1 w1 where 1: "conn_at net c t w = (e, c1, w1)" by (metis prod_cases3)
  have st: "c_Strict c1 = c_Strict c" using 1 by (auto simp: conn_at_def Let_def split: prod.splits)
  show ?case using Cons.IH[of c1 w1] Cons.prems 1 conn_at_step[OF Cons.prems(1) _ 1] st by simp
qed simp

text \<open>
  C5. Two inventory entries never share a connection they should not: after any sequence of requests
  for NUL-free targets, the connection handed out for a target was dialled to that target's address,
  port, user and identity and with the host-key strictness in force for it, and a local target always
  gets the local shell.
\<close>

theorem pooled_conn_fits:
  assumes "list_all nul_free ts" and "nul_free t"
    and "conns_at net (NewCluster strict) ts w = (c, w1)"
    and "conn_at net c t w1 = (Inr cn, c', w2)"
  shows "conn_fits (case t_StrictHostKey t of Some b \<Rightarrow> b | None \<Rightarrow> strict) t (Inr cn)"
  using conn_at_step[OF _ assms(2,4)] conns_at_pool[OF pool_ok_new assms(1,3)]
  by (simp add: strictness_def NewCluster_def split: option.splits)

text \<open>
  A dial that failed is remembered, so a host is not dialled twice; but a dial that ended with a
  context error is forgotten, and the next request dials again.
\<close>

theorem failed_dial_cached:
  assumes "conn_at net c t w = (e, c', w1)"
  shows "conn_at net c' t w2 = (if is_ctx_failure e
     then (let (e', w3) = open_conn net (strictness c t) t w2 in
       (e', c'\<lparr>c_conns := (c_conns c')(conn_key (strictness c t) t :=
          (if is_ctx_failure e' then None else Some e'))\<rparr>, w3))
     else (e, c', w2))"
proof -
  let ?k = "conn_key (strictness c t) t"
  have c': "c' = c\<lparr>c_conns := (c_conns c)(?k := (if is_ctx_failure e then None else Some e))\<rparr>"
    using assms by (auto simp: conn_at_def Let_def split: prod.splits)
  then have "strictness c' t = strictness c t" by (intro strictness_cong) simp
  then show ?thesis using c' by (auto simp: conn_at_def Let_def split: prod.splits)
qed

section \<open>Running commands\<close>

text \<open>
  A command's output is a list of writes, each to stdout or (\<open>True\<close>) to stderr. The two go through
  line writers of their own, both for the host; the deferred flushes run last first.
\<close>

fun stream_out :: "(bool \<times> string) list \<Rightarrow> 'w line_writer \<Rightarrow> 'w line_writer \<Rightarrow> 'w \<Rightarrow> 'w" where
  "stream_out [] so se w = snd (LineWriter_Flush so (snd (LineWriter_Flush se w)))"
| "stream_out ((is_err, p) # ps) so se w =
     (if is_err then (case LineWriter_Write p se w of (_, se', w') \<Rightarrow> stream_out ps so se' w')
      else (case LineWriter_Write p so w of (_, so', w') \<Rightarrow> stream_out ps so' se w'))"

text \<open>
  The state of a run is the pool and the world; \<open>wr\<close> makes the writer for a host, whose
  destination is part of the world. A failed dial or command ends the call with its category.
\<close>

definition run_on :: "'w net \<Rightarrow> (string \<Rightarrow> 'w line_writer) \<Rightarrow> (string \<Rightarrow> string) \<Rightarrow> target
    \<Rightarrow> cluster \<times> 'w \<Rightarrow> goerr option \<times> cluster \<times> 'w" where
  "run_on net wr cmdFor t cw = (case conn_at net (fst cw) t (snd cw) of
      (Inl err, c, w) \<Rightarrow> (Some (dialError (net_ctx net w) err), c, w)
    | (Inr cn, c, w) \<Rightarrow> (case net_run net cn (cmdFor (t_Host t)) w of
          ((out, r), w') \<Rightarrow> (map_option (classify t) r, c,
             stream_out out (wr (t_Host t)) (wr (t_Host t)) w')))"

definition Run :: "'w net \<Rightarrow> (string \<Rightarrow> 'w line_writer) \<Rightarrow> target list \<Rightarrow> (string \<Rightarrow> string) \<Rightarrow> bool
    \<Rightarrow> cluster \<times> 'w \<Rightarrow> result list \<times> cluster \<times> 'w" where
  "Run net wr targets cmdFor failFast cw =
     seq_run (net_ctx net \<circ> snd) failFast (run_on net wr cmdFor) Live targets cw"

text \<open>\<open>Capture\<close> buffers stdout and streams stderr only.\<close>

definition stdout_of :: "(bool \<times> string) list \<Rightarrow> string" where
  "stdout_of out = concat (map snd (filter (\<lambda>(e, p). \<not> e) out))"

definition Capture :: "'w net \<Rightarrow> (string \<Rightarrow> 'w line_writer) \<Rightarrow> target \<Rightarrow> string \<Rightarrow> cluster \<times> 'w
    \<Rightarrow> string res \<times> cluster \<times> 'w" where
  "Capture net wr t cmd cw = (case conn_at net (fst cw) t (snd cw) of
      (Inl err, c, w) \<Rightarrow> (Inl (dialError (net_ctx net w) err), c, w)
    | (Inr cn, c, w) \<Rightarrow> (case net_run net cn cmd w of
          ((out, r), w') \<Rightarrow> ((case r of None \<Rightarrow> Inr (trim_space (stdout_of out)) | Some err \<Rightarrow> Inl (classify t err)),
             c, stream_out (filter fst out) (wr (t_Host t)) (wr (t_Host t)) w')))"

definition Close :: "cluster \<Rightarrow> cluster" where
  "Close c = c\<lparr>c_conns := Map.empty\<rparr>"

text \<open>What every error of a run is: a context error, an unreachable host or a failed command.\<close>

definition categorised :: "goerr \<Rightarrow> bool" where
  "categorised e \<longleftrightarrow> is_ctx_err e \<or> is_unreachable e \<or> (\<exists>h x. e = CommandError h x)"

lemma classify_categorised: "categorised (classify t e)"
  by (simp add: classify_def categorised_def)

lemma dialError_categorised: "perr_ok (net_ctx net) \<Longrightarrow> categorised (dialError (net_ctx net w) err)"
  using perr_okD[of "net_ctx net" w]
  by (auto simp: dialError_def categorised_def split: option.splits)

lemma run_on_categorised:
  assumes "perr_ok (net_ctx net)" "run_on net wr cmdFor t cw = (Some e, cw')"
  shows "categorised e"
  using assms(2) dialError_categorised[OF assms(1)]
  by (auto simp: run_on_def classify_categorised split: prod.splits sum.splits)

lemma Capture_categorised:
  assumes "perr_ok (net_ctx net)" "Capture net wr t cmd cw = (Inl e, cw')"
  shows "categorised e"
  using assms(2) dialError_categorised[OF assms(1)]
  by (auto simp: Capture_def classify_categorised split: prod.splits sum.splits option.splits)

lemma Run_hosts: "map r_Host (fst (Run net wr targets cmdFor ff cw)) = map t_Host targets"
  by (simp add: Run_def seq_run_hosts)

section \<open>A concrete pool\<close>

definition demo_net :: "nat net" where
  "demo_net = \<lparr>net_dial = (\<lambda>d w. (if d_Host d = ''down'' then Inl boom else Inr w, w + 1)),
     net_run = (\<lambda>c cmd w. (([(False, ''ok'')], None), w)), net_ctx = (\<lambda>w. None)\<rparr>"

definition lax :: "target \<Rightarrow> target" where "lax t = t\<lparr>t_StrictHostKey := Some False\<rparr>"

lemmas demo_simps = conn_at_def Let_def strictness_def NewCluster_def conn_key_def open_conn_def
  demo_net_def dial_of_def web1_def lax_def is_ctx_failure_def

lemma pooled_conn_fits_witness:
  "\<exists>cn c' w. conn_at demo_net (fst (conns_at demo_net (NewCluster True) [web1] 0)) (lax web1) 1
      = (Inr cn, c', w) \<and> conn_fits False (lax web1) (Inr cn)"
proof -
  obtain cn c' w where r: "conn_at demo_net (fst (conns_at demo_net (NewCluster True) [web1] 0))
      (lax web1) 1 = (Inr cn, c', w)"
    by (simp add: demo_simps)
  obtain c where c: "conns_at demo_net (NewCluster True) [web1] 0 = (c, 1)"
    by (simp add: demo_simps)
  have "conn_fits False (lax web1) (Inr cn)"
    using pooled_conn_fits[of "[web1]" "lax web1" demo_net True 0 c 1 cn c' w] r c
    by (simp add: nul_free_def web1_def lax_def)
  then show ?thesis using r by blast
qed

lemma failed_dial_cached_witness:
  "\<exists>c'. conn_at demo_net (NewCluster True) (web1\<lparr>t_Host := ''down''\<rparr>) 0 = (Inl boom, c', 1)
     \<and> conn_at demo_net c' (web1\<lparr>t_Host := ''down''\<rparr>) 5 = (Inl boom, c', 5)"
proof -
  obtain c' where r: "conn_at demo_net (NewCluster True) (web1\<lparr>t_Host := ''down''\<rparr>) 0 = (Inl boom, c', 1)"
    by (simp add: demo_simps boom_def)
  show ?thesis using r failed_dial_cached[OF r, of 5] by (simp add: is_ctx_failure_def boom_def)
qed

end
