(* ===== verification/Ast_Merge.thy ===== *)
theory Ast_Merge
  imports Ast_Model
begin

text \<open>
  Layering configurations (\<open>ast/merge.go\<close>) and filling in omitted values
  (\<open>ast/defaults.go\<close>).

  A stack of layers is shown to resolve, setting by setting, to what its last layer says, and \<open>Merge\<close> to
  be associative with the empty configuration as a neutral element on the merged fields (so nesting
  includes and listing them flat give the same configuration), up to the order inside a map, which
  nothing in Go can observe. \<open>ApplyDefaults\<close> is shown to be
  idempotent, also when inventory appended hosts between the two runs.
\<close>

section \<open>Merge\<close>

definition mergeMap :: "'v smap \<Rightarrow> 'v smap \<Rightarrow> 'v smap" where
  "mergeMap b ov = m_copy (m_copy [] b) ov"

definition mergeHooks :: "hooks \<Rightarrow> hooks \<Rightarrow> hooks" where
  "mergeHooks b ov = \<lparr>hooks_Before = mergeMap (hooks_Before b) (hooks_Before ov),
     hooks_After = mergeMap (hooks_After b) (hooks_After ov)\<rparr>"

definition mergeLog :: "log_cfg \<Rightarrow> log_cfg \<Rightarrow> log_cfg" where
  "mergeLog b ov = b\<lparr>
     log_Level := or_str (log_Level b) (log_Level ov),
     log_Format := or_str (log_Format b) (log_Format ov),
     log_Output := or_str (log_Output b) (log_Output ov),
     log_Color := or_ptr (log_Color b) (log_Color ov),
     log_File := or_str (log_File b) (log_File ov),
     log_FileFormat := or_str (log_FileFormat b) (log_FileFormat ov),
     log_RawRemoteLog := or_ptr (log_RawRemoteLog b) (log_RawRemoteLog ov)\<rparr>"

definition mergeApp :: "app \<Rightarrow> app \<Rightarrow> app" where
  "mergeApp b ov = b\<lparr>
     app_Name := or_str (app_Name b) (app_Name ov),
     app_Repo := or_str (app_Repo b) (app_Repo ov),
     app_Branch := or_str (app_Branch b) (app_Branch ov),
     app_DeployTo := or_str (app_DeployTo b) (app_DeployTo ov),
     app_KeepReleases := or_int (app_KeepReleases b) (app_KeepReleases ov)\<rparr>"

definition mergeSSH :: "ssh_cfg \<Rightarrow> ssh_cfg \<Rightarrow> ssh_cfg" where
  "mergeSSH b ov = b\<lparr>
     ssh_User := or_str (ssh_User b) (ssh_User ov),
     ssh_Port := or_int (ssh_Port b) (ssh_Port ov),
     ssh_IdentityFile := or_str (ssh_IdentityFile b) (ssh_IdentityFile ov),
     ssh_IdentityFilePassphrase :=
       or_str (ssh_IdentityFilePassphrase b) (ssh_IdentityFilePassphrase ov),
     ssh_KnownHostsFile := or_str (ssh_KnownHostsFile b) (ssh_KnownHostsFile ov),
     ssh_StrictHostKey := or_ptr (ssh_StrictHostKey b) (ssh_StrictHostKey ov),
     ssh_AcceptNew := or_ptr (ssh_AcceptNew b) (ssh_AcceptNew ov),
     ssh_ForwardAgent := or_ptr (ssh_ForwardAgent b) (ssh_ForwardAgent ov),
     ssh_ForwardKey := or_str (ssh_ForwardKey b) (ssh_ForwardKey ov),
     ssh_Bastion := or_ptr (ssh_Bastion b) (ssh_Bastion ov),
     ssh_Identities := mergeMap (ssh_Identities b) (ssh_Identities ov)\<rparr>"

definition Merge :: "deploy_file \<Rightarrow> deploy_file \<Rightarrow> deploy_file" where
  "Merge b ov = b\<lparr>
     cfg_Version := or_str (cfg_Version b) (cfg_Version ov),
     cfg_Description := or_str (cfg_Description b) (cfg_Description ov),
     cfg_ScriptsDir := or_str (cfg_ScriptsDir b) (cfg_ScriptsDir ov),
     cfg_OnUnreachable := or_str (cfg_OnUnreachable b) (cfg_OnUnreachable ov),
     cfg_Plugins := cfg_Plugins b @ cfg_Plugins ov,
     cfg_App := mergeApp (cfg_App b) (cfg_App ov),
     cfg_LinkedFiles := or_list (cfg_LinkedFiles b) (cfg_LinkedFiles ov),
     cfg_LinkedDirs := or_list (cfg_LinkedDirs b) (cfg_LinkedDirs ov),
     cfg_SSH := mergeSSH (cfg_SSH b) (cfg_SSH ov),
     cfg_Log := mergeLog (cfg_Log b) (cfg_Log ov),
     cfg_Vars := mergeMap (cfg_Vars b) (cfg_Vars ov),
     cfg_Envs := mergeMap (cfg_Envs b) (cfg_Envs ov),
     cfg_EnvFiles := cfg_EnvFiles b @ cfg_EnvFiles ov,
     cfg_Hosts := cfg_Hosts b @ cfg_Hosts ov,
     cfg_CustomPhases := cfg_CustomPhases b @ cfg_CustomPhases ov,
     cfg_Tasks := mergeMap (cfg_Tasks b) (cfg_Tasks ov),
     cfg_Hooks := mergeHooks (cfg_Hooks b) (cfg_Hooks ov)\<rparr>"

lemma m_get_mergeMap [simp, go_map]: "m_get (mergeMap b ov) = m_get b ++ m_get ov"
  by (simp add: mergeMap_def)

lemma wf_mergeMap [simp, go_map]: "wf_map (mergeMap b ov)"
  by (simp add: mergeMap_def)

text \<open>
  What a reader can observe of a configuration: every map as the function from keys to values
  it is. The fields \<open>Merge\<close> copies from the base alone (\<open>include\<close> and the runtime-only
  fields) are left out.
\<close>

definition obs_hooks :: "hooks \<Rightarrow> (string \<rightharpoonup> string list) \<times> (string \<rightharpoonup> string list)" where
  "obs_hooks h = (m_get (hooks_Before h), m_get (hooks_After h))"

definition obs_eq :: "deploy_file \<Rightarrow> deploy_file \<Rightarrow> bool" where
  "obs_eq c d \<longleftrightarrow>
     cfg_Version c = cfg_Version d \<and> cfg_Description c = cfg_Description d
   \<and> cfg_App c = cfg_App d
   \<and> cfg_LinkedFiles c = cfg_LinkedFiles d \<and> cfg_LinkedDirs c = cfg_LinkedDirs d
   \<and> m_get (cfg_Vars c) = m_get (cfg_Vars d) \<and> m_get (cfg_Envs c) = m_get (cfg_Envs d)
   \<and> cfg_EnvFiles c = cfg_EnvFiles d
   \<and> (cfg_SSH c)\<lparr>ssh_Identities := []\<rparr> = (cfg_SSH d)\<lparr>ssh_Identities := []\<rparr>
   \<and> m_get (ssh_Identities (cfg_SSH c)) = m_get (ssh_Identities (cfg_SSH d))
   \<and> cfg_Hosts c = cfg_Hosts d
   \<and> m_get (cfg_Tasks c) = m_get (cfg_Tasks d)
   \<and> obs_hooks (cfg_Hooks c) = obs_hooks (cfg_Hooks d)
   \<and> cfg_ScriptsDir c = cfg_ScriptsDir d \<and> cfg_OnUnreachable c = cfg_OnUnreachable d
   \<and> cfg_Log c = cfg_Log d \<and> cfg_Plugins c = cfg_Plugins d
   \<and> cfg_CustomPhases c = cfg_CustomPhases d"

lemmas merge_defs = Merge_def mergeApp_def mergeSSH_def mergeLog_def mergeHooks_def obs_eq_def
  obs_hooks_def


lemmas ov_neutrals = str_ov.left_neutral str_ov.right_neutral int_ov.left_neutral
  int_ov.right_neutral ptr_ov.left_neutral ptr_ov.right_neutral list_ov.left_neutral
  list_ov.right_neutral

lemma obs_eq_refl [simp]: "obs_eq c c"
  by (simp add: obs_eq_def)

lemma obs_eq_sym: "obs_eq c d \<Longrightarrow> obs_eq d c"
  by (simp add: obs_eq_def)

lemma obs_eq_trans [trans]: "obs_eq c d \<Longrightarrow> obs_eq d e \<Longrightarrow> obs_eq c e"
  by (simp add: obs_eq_def)

lemma mergeSSH_shape:
  "(mergeSSH b ov)\<lparr>ssh_Identities := []\<rparr>
     = (mergeSSH (b\<lparr>ssh_Identities := []\<rparr>) (ov\<lparr>ssh_Identities := []\<rparr>))\<lparr>ssh_Identities := []\<rparr>"
  by (simp add: mergeSSH_def)

lemma mergeSSH_cong:
  "s\<lparr>ssh_Identities := []\<rparr> = s'\<lparr>ssh_Identities := []\<rparr> \<Longrightarrow>
   t\<lparr>ssh_Identities := []\<rparr> = t'\<lparr>ssh_Identities := []\<rparr> \<Longrightarrow>
   (mergeSSH s t)\<lparr>ssh_Identities := []\<rparr> = (mergeSSH s' t')\<lparr>ssh_Identities := []\<rparr>"
  by (simp only: mergeSSH_shape[of s t] mergeSSH_shape[of s' t'])

lemma mergeSSH_identities [simp]:
  "m_get (ssh_Identities (mergeSSH s t)) = m_get (ssh_Identities s) ++ m_get (ssh_Identities t)"
  by (simp add: mergeSSH_def)

lemma Merge_cong: "obs_eq a a' \<Longrightarrow> obs_eq b b' \<Longrightarrow> obs_eq (Merge a b) (Merge a' b')"
  by (simp add: obs_eq_def Merge_def obs_hooks_def mergeHooks_def
      mergeSSH_cong[of "cfg_SSH a" "cfg_SSH a'" "cfg_SSH b" "cfg_SSH b'"])

lemma mergeApp_assoc: "mergeApp (mergeApp a b) c = mergeApp a (mergeApp b c)"
  by (simp add: mergeApp_def str_ov.assoc int_ov.assoc)

lemma mergeLog_assoc: "mergeLog (mergeLog a b) c = mergeLog a (mergeLog b c)"
  by (simp add: mergeLog_def str_ov.assoc ptr_ov.assoc)

lemma mergeSSH_assoc:
  "(mergeSSH (mergeSSH a b) c)\<lparr>ssh_Identities := []\<rparr> = (mergeSSH a (mergeSSH b c))\<lparr>ssh_Identities := []\<rparr>"
  by (simp add: mergeSSH_def str_ov.assoc ptr_ov.assoc int_ov.assoc)

lemma Merge_layers: "obs_eq (Merge (Merge a b) c) (Merge a (Merge b c))"
  by (simp add: obs_eq_def Merge_def obs_hooks_def mergeHooks_def mergeApp_assoc mergeLog_assoc
      mergeSSH_assoc str_ov.assoc list_ov.assoc)

lemma merge_zero_parts:
  "mergeApp zero_app a = a" "mergeApp a zero_app = a"
  "mergeLog zero_log l = l" "mergeLog l zero_log = l"
  "(mergeSSH zero_ssh s)\<lparr>ssh_Identities := []\<rparr> = s\<lparr>ssh_Identities := []\<rparr>"
  "(mergeSSH s zero_ssh)\<lparr>ssh_Identities := []\<rparr> = s\<lparr>ssh_Identities := []\<rparr>"
  by (simp_all add: mergeApp_def mergeLog_def mergeSSH_def zero_defs ov_neutrals)

lemma Merge_zero_left: "obs_eq (Merge zero_cfg c) c"
  by (simp add: obs_eq_def Merge_def obs_hooks_def mergeHooks_def zero_cfg_def merge_zero_parts
      ov_neutrals) (simp add: zero_ssh_def)

lemma Merge_zero_right: "obs_eq (Merge c zero_cfg) c"
  by (simp add: obs_eq_def Merge_def obs_hooks_def mergeHooks_def zero_cfg_def merge_zero_parts
      ov_neutrals) (simp add: zero_ssh_def)

section \<open>A stack of layers\<close>

text \<open>
  The value a stack of layers gives a setting: that of the last one which sets it, or the zero value; an
  entry of a map is that of the last layer with the key.
\<close>

definition last_set :: "'b \<Rightarrow> ('a \<Rightarrow> 'b) \<Rightarrow> 'a list \<Rightarrow> 'b" where
  "last_set z f cs = (let vs = filter (\<lambda>v. v \<noteq> z) (map f cs) in if vs = [] then z else last vs)"

definition last_entry :: "('a \<Rightarrow> 'v smap) \<Rightarrow> 'a list \<Rightarrow> string \<Rightarrow> 'v option" where
  "last_entry f cs k = last_set None (\<lambda>c. m_get (f c) k) cs"

lemma last_set_simps [simp]:
  "last_set z f [] = z" "last_set z f (cs @ [c]) = (if f c = z then last_set z f cs else f c)"
  by (simp_all add: last_set_def)

definition layered :: "deploy_file list \<Rightarrow> deploy_file" where
  "layered cs = foldl Merge zero_cfg cs"

lemma layered_simps [simp]: "layered [] = zero_cfg" "layered (cs @ [c]) = Merge (layered cs) c"
  by (simp_all add: layered_def)

lemma layered_set:
  assumes "\<And>b s. f (Merge b s) = (if f s = z then f b else f s)" "f zero_cfg = z"
  shows "f (layered cs) = last_set z f cs"
  by (induction cs rule: rev_induct) (simp_all add: assms)

lemma layered_entry:
  assumes "\<And>b s. m_get (f (Merge b s)) = m_get (f b) ++ m_get (f s)" "f zero_cfg = []"
  shows "m_get (f (layered cs)) = last_entry f cs"
proof
  show "m_get (f (layered cs)) k = last_entry f cs k" for k
    unfolding last_entry_def
    by (rule layered_set[of "\<lambda>c. m_get (f c) k"]) (auto simp: assms map_add_def split: option.split)
qed

lemma layered_concat:
  assumes "\<And>b s. f (Merge b s) = f b @ f s" "f zero_cfg = []"
  shows "f (layered cs) = concat (map f cs)"
  by (induction cs rule: rev_induct) (simp_all add: assms)

lemma layered_append: "obs_eq (layered (xs @ ys)) (Merge (layered xs) (layered ys))"
proof (induction ys rule: rev_induct)
  case Nil
  then show ?case using Merge_zero_right[THEN obs_eq_sym] by simp
next
  case (snoc y ys)
  have "obs_eq (Merge (layered (xs @ ys)) y) (Merge (Merge (layered xs) (layered ys)) y)"
    using Merge_cong[OF snoc] by simp
  then show ?case using obs_eq_trans[OF _ Merge_layers] by (simp flip: append_assoc)
qed

text \<open>The settings of each kind.\<close>

definition text_settings :: "(deploy_file \<Rightarrow> string) list" where
  "text_settings = [cfg_Version, cfg_Description, cfg_ScriptsDir, cfg_OnUnreachable,
     \<lambda>c. app_Name (cfg_App c), \<lambda>c. app_Repo (cfg_App c), \<lambda>c. app_Branch (cfg_App c), \<lambda>c. app_DeployTo (cfg_App c),
     \<lambda>c. ssh_User (cfg_SSH c), \<lambda>c. ssh_IdentityFile (cfg_SSH c), \<lambda>c. ssh_IdentityFilePassphrase (cfg_SSH c),
     \<lambda>c. ssh_KnownHostsFile (cfg_SSH c), \<lambda>c. ssh_ForwardKey (cfg_SSH c), \<lambda>c. log_Level (cfg_Log c),
     \<lambda>c. log_Format (cfg_Log c), \<lambda>c. log_Output (cfg_Log c), \<lambda>c. log_File (cfg_Log c), \<lambda>c. log_FileFormat (cfg_Log c)]"

definition number_settings :: "(deploy_file \<Rightarrow> int) list" where
  "number_settings = [\<lambda>c. app_KeepReleases (cfg_App c), \<lambda>c. ssh_Port (cfg_SSH c)]"

definition flag_settings :: "(deploy_file \<Rightarrow> bool option) list" where
  "flag_settings = [\<lambda>c. ssh_StrictHostKey (cfg_SSH c), \<lambda>c. ssh_AcceptNew (cfg_SSH c), \<lambda>c. ssh_ForwardAgent (cfg_SSH c),
     \<lambda>c. log_Color (cfg_Log c), \<lambda>c. log_RawRemoteLog (cfg_Log c)]"

definition list_settings :: "(deploy_file \<Rightarrow> string list) list" where
  "list_settings = [cfg_LinkedFiles, cfg_LinkedDirs]"

lemmas setting_lists = text_settings_def number_settings_def flag_settings_def list_settings_def

text \<open>
  C33. How layers resolve, from the bottom up (the includes of a file before it, the base before the stage): every setting is
  that of the last layer that sets it, and unset when none does; the variables, environments, tasks, hooks and ssh
  identities merge by key, a later layer replacing the whole value of the key; hosts, plugins, env files and
  custom phases add up in the order of the layers. And the grouping does not matter: a part of the stack may be
  merged first.
\<close>

theorem Merge_layering:
  "map (\<lambda>f. f (layered cs)) text_settings = map (\<lambda>f. last_set [] f cs) text_settings
   \<and> map (\<lambda>f. f (layered cs)) number_settings = map (\<lambda>f. last_set 0 f cs) number_settings
   \<and> map (\<lambda>f. f (layered cs)) flag_settings = map (\<lambda>f. last_set None f cs) flag_settings
   \<and> map (\<lambda>f. f (layered cs)) list_settings = map (\<lambda>f. last_set [] f cs) list_settings
   \<and> ssh_Bastion (cfg_SSH (layered cs)) = last_set None (\<lambda>c. ssh_Bastion (cfg_SSH c)) cs
   \<and> m_get (cfg_Vars (layered cs)) = last_entry cfg_Vars cs
   \<and> m_get (cfg_Envs (layered cs)) = last_entry cfg_Envs cs
   \<and> m_get (cfg_Tasks (layered cs)) = last_entry cfg_Tasks cs
   \<and> m_get (hooks_Before (cfg_Hooks (layered cs))) = last_entry (\<lambda>c. hooks_Before (cfg_Hooks c)) cs
   \<and> m_get (hooks_After (cfg_Hooks (layered cs))) = last_entry (\<lambda>c. hooks_After (cfg_Hooks c)) cs
   \<and> m_get (ssh_Identities (cfg_SSH (layered cs))) = last_entry (\<lambda>c. ssh_Identities (cfg_SSH c)) cs
   \<and> cfg_Hosts (layered cs) = concat (map cfg_Hosts cs)
   \<and> cfg_Plugins (layered cs) = concat (map cfg_Plugins cs)
   \<and> cfg_EnvFiles (layered cs) = concat (map cfg_EnvFiles cs)
   \<and> cfg_CustomPhases (layered cs) = concat (map cfg_CustomPhases cs)
   \<and> obs_eq (layered (xs @ ys)) (Merge (layered xs) (layered ys))"
proof (intro conjI)
  show "obs_eq (layered (xs @ ys)) (Merge (layered xs) (layered ys))" by (rule layered_append)
qed (simp_all only: setting_lists list.map list.inject simp_thms,
  (intro conjI layered_set layered_entry layered_concat;
   simp add: merge_defs zero_defs or_str_def or_int_def or_ptr_def or_list_def split: option.split)+)

section \<open>Defaults\<close>

definition DefaultKeepReleases :: int where "DefaultKeepReleases = 5"
definition DefaultBranch :: string where "DefaultBranch = ''master''"
definition DefaultSSHPort :: int where "DefaultSSHPort = 22"
definition OnUnreachableAbort :: string where "OnUnreachableAbort = ''abort''"
definition OnUnreachableSkip :: string where "OnUnreachableSkip = ''skip''"
definition HostSourceConfig :: string where "HostSourceConfig = ''config''"

text \<open>One iteration of the loop over the hosts, with the connection defaults of \<open>ssh:\<close>.\<close>

definition default_source :: "host \<Rightarrow> host" where
  "default_source h = (if host_Source h = [] then h\<lparr>host_Source := HostSourceConfig\<rparr> else h)"

definition default_label :: "host \<Rightarrow> host" where
  "default_label h = (if host_Address h = [] then h\<lparr>host_Address := ''localhost''\<rparr> else h)"

definition default_port :: "ssh_cfg \<Rightarrow> host \<Rightarrow> host" where
  "default_port s h = (if host_Port h = 0 then h\<lparr>host_Port := ssh_Port s\<rparr> else h)"

definition default_user :: "ssh_cfg \<Rightarrow> host \<Rightarrow> host" where
  "default_user s h = (if host_User h = [] then h\<lparr>host_User := ssh_User s\<rparr> else h)"

definition default_passphrase :: "ssh_cfg \<Rightarrow> host \<Rightarrow> host" where
  "default_passphrase s h = (if host_IdentityFilePassphrase h = []
     then h\<lparr>host_IdentityFilePassphrase := ssh_IdentityFilePassphrase s\<rparr> else h)"

definition default_identity :: "ssh_cfg \<Rightarrow> host \<Rightarrow> host" where
  "default_identity s h = (if host_IdentityFile h = []
     then default_passphrase s (h\<lparr>host_IdentityFile := ssh_IdentityFile s\<rparr>) else h)"

definition default_host :: "ssh_cfg \<Rightarrow> host \<Rightarrow> host" where
  "default_host s h0 =
     (let h = default_source h0
      in if host_Local h then default_label h
         else default_identity s (default_user s (default_port s h)))"

definition default_app :: "app \<Rightarrow> app" where
  "default_app a =
     (let a = (if app_KeepReleases a = 0 then a\<lparr>app_KeepReleases := DefaultKeepReleases\<rparr> else a)
      in if app_Branch a = [] then a\<lparr>app_Branch := DefaultBranch\<rparr> else a)"

definition default_ssh :: "ssh_cfg \<Rightarrow> ssh_cfg" where
  "default_ssh s = (if ssh_Port s = 0 then s\<lparr>ssh_Port := DefaultSSHPort\<rparr> else s)"

definition ApplyDefaults :: "deploy_file \<Rightarrow> deploy_file" where
  "ApplyDefaults c = c\<lparr>
     cfg_App := default_app (cfg_App c),
     cfg_SSH := default_ssh (cfg_SSH c),
     cfg_Hosts := map (default_host (default_ssh (cfg_SSH c))) (cfg_Hosts c)\<rparr>"

lemma default_host_closed:
  "default_host s h =
     (if host_Local h
      then h\<lparr>host_Source := or_str HostSourceConfig (host_Source h),
             host_Address := or_str ''localhost'' (host_Address h)\<rparr>
      else h\<lparr>host_Source := or_str HostSourceConfig (host_Source h),
             host_Port := or_int (ssh_Port s) (host_Port h),
             host_User := or_str (ssh_User s) (host_User h),
             host_IdentityFile := or_str (ssh_IdentityFile s) (host_IdentityFile h),
             host_IdentityFilePassphrase :=
               (if host_IdentityFile h = [] then or_str (ssh_IdentityFilePassphrase s)
                  (host_IdentityFilePassphrase h) else host_IdentityFilePassphrase h)\<rparr>)"
  by (cases h) (simp add: default_host_def default_source_def default_label_def default_port_def
      default_user_def default_identity_def default_passphrase_def or_str_def or_int_def)

lemma or_idem [simp]:
  "or_str b (or_str b x) = or_str b x" "or_int i (or_int i j) = or_int i j"
  by (simp_all add: or_str_def or_int_def)

lemma default_host_idem: "default_host s (default_host s h) = default_host s h"
  by (cases "host_Local h"; cases "host_IdentityFile h = []")
    (simp_all add: default_host_closed, simp_all add: or_str_def)

lemma default_host_frame [simp]:
  "host_Roles (default_host s h) = host_Roles h"
  "host_Local (default_host s h) = host_Local h"
  "host_Primary (default_host s h) = host_Primary h"
  "host_Deploy (default_host s h) = host_Deploy h"
  "host_Required (default_host s h) = host_Required h"
  by (simp_all add: default_host_closed)

lemma default_ssh_idem [simp]: "default_ssh (default_ssh s) = default_ssh s"
  by (simp add: default_ssh_def DefaultSSHPort_def)

lemma default_app_idem [simp]: "default_app (default_app a) = default_app a"
  by (simp add: default_app_def Let_def DefaultKeepReleases_def DefaultBranch_def)

lemma ApplyDefaults_idem: "ApplyDefaults (ApplyDefaults c) = ApplyDefaults c"
  by (simp add: ApplyDefaults_def default_host_idem)

text \<open>
  Filling in defaults can be repeated: a second run changes nothing, and when an inventory
  plugin appended hosts after the first run, the second run leaves the settled hosts exactly as
  they are and fills in only the new ones, from the same connection defaults.
\<close>

theorem ApplyDefaults_rerun:
  "ApplyDefaults (ApplyDefaults c) = ApplyDefaults c
   \<and> cfg_Hosts (ApplyDefaults ((ApplyDefaults c)\<lparr>cfg_Hosts := cfg_Hosts (ApplyDefaults c) @ new\<rparr>))
     = cfg_Hosts (ApplyDefaults c) @ map (default_host (cfg_SSH (ApplyDefaults c))) new"
  by (simp add: ApplyDefaults_idem) (simp add: ApplyDefaults_def default_host_idem)

text \<open>
  A key's passphrase never reaches a host that brings its own key: after defaults, a remote host
  that declared an identity file keeps its own passphrase, whatever \<open>ssh:\<close> holds, and a host that
  inherits the key file also inherits the passphrase unless it set one.
\<close>

theorem passphrase_follows_key:
  "host_Local h = False \<Longrightarrow>
   host_IdentityFilePassphrase (default_host s h)
     = (if host_IdentityFile h \<noteq> [] \<or> host_IdentityFilePassphrase h \<noteq> []
        then host_IdentityFilePassphrase h else ssh_IdentityFilePassphrase s)"
  by (simp add: default_host_closed or_str_def)

theorem passphrase_follows_key_witness:
  "host_IdentityFilePassphrase (default_host (zero_ssh\<lparr>ssh_IdentityFile := ''~/.ssh/ci'',
       ssh_IdentityFilePassphrase := ''s3cret''\<rparr>)
     (zero_host\<lparr>host_Address := ''web1'', host_IdentityFile := ''~/.ssh/web''\<rparr>)) = []"
  by (subst passphrase_follows_key) (simp_all add: zero_host_def)

end
