(* ===== verification/Ast_Validate.thy ===== *)
theory Ast_Validate
  imports Ast_Merge
begin

text \<open>
  The schema checks on a resolved configuration (\<open>ast/validate.go\<close>, \<open>ast/version.go\<close>).

  The semantic-version library (Masterminds/semver, third party) is the parameter \<open>'v semver\<close>.
  Each check is a \<open>goerr option\<close> in the source's order, and \<open>first_err\<close> returns the first one
  that fails, as the early returns do. The main results characterise the accepted configurations
  exactly, in both directions.
\<close>

section \<open>The schema version gate\<close>

record 'v semver =
  sv_parse :: "string \<Rightarrow> goerr + 'v"
  sv_less :: "'v \<Rightarrow> 'v \<Rightarrow> bool"
  sv_greater :: "'v \<Rightarrow> 'v \<Rightarrow> bool"
  sv_show :: "'v \<Rightarrow> string"

definition SchemaVersion :: "'v semver \<Rightarrow> 'v" where
  "SchemaVersion sv = projr (sv_parse sv ''1.0.0'')"

definition MinSchemaVersion :: "'v semver \<Rightarrow> 'v" where
  "MinSchemaVersion sv = projr (sv_parse sv ''1.0.0'')"

definition checkVersion :: "'v semver \<Rightarrow> string \<Rightarrow> goerr option" where
  "checkVersion sv raw =
     (if raw = [] then None
      else case sv_parse sv raw of
        Inl err \<Rightarrow> Some (ConfigError (''invalid version '' @ quoted raw) (Some err))
      | Inr v \<Rightarrow>
          if sv_less sv v (MinSchemaVersion sv)
          then Some (VersionError (sv_show sv v) (sv_show sv (MinSchemaVersion sv)) [] True False)
          else if sv_greater sv v (SchemaVersion sv)
          then Some (VersionError (sv_show sv v) [] (sv_show sv (SchemaVersion sv)) False True)
          else None)"

section \<open>Environment names\<close>

definition env_start :: "char \<Rightarrow> bool" where
  "env_start c = (let n = of_char c :: nat in
     65 \<le> n \<and> n \<le> 90 \<or> 97 \<le> n \<and> n \<le> 122 \<or> n = 95)"

definition env_rest :: "char \<Rightarrow> bool" where
  "env_rest c = (let n = of_char c :: nat in env_start c \<or> 48 \<le> n \<and> n \<le> 57)"

text \<open>The regular expression \<open>^[A-Za-z_][A-Za-z0-9_]*$\<close>.\<close>

definition envNameRe :: "string \<Rightarrow> bool" where
  "envNameRe k = (case k of [] \<Rightarrow> False | c # cs \<Rightarrow> env_start c \<and> list_all env_rest cs)"

definition invalidEnvName :: "string smap \<Rightarrow> string option" where
  "invalidEnvName envs = List.find (\<lambda>k. \<not> envNameRe k) (sorted_keys envs)"

lemma invalidEnvName_None: "invalidEnvName envs = None \<longleftrightarrow> (\<forall>k\<in>fst ` set envs. envNameRe k)"
  by (auto simp: invalidEnvName_def find_None_iff)

text \<open>
  A rejected environment map is always reported by its smallest offending name, so the message
  does not depend on the order the map is visited in.
\<close>

theorem invalidEnvName_least:
  "invalidEnvName envs = Some k \<Longrightarrow>
   k \<in> fst ` set envs \<and> \<not> envNameRe k
   \<and> (\<forall>j\<in>fst ` set envs. envNameRe j \<or> k \<le> j)"
proof -
  assume "invalidEnvName envs = Some k"
  then obtain i where i: "i < length (sorted_keys envs)" "\<not> envNameRe (sorted_keys envs ! i)"
    "k = sorted_keys envs ! i" "\<forall>j<i. envNameRe (sorted_keys envs ! j)"
    by (auto simp: invalidEnvName_def find_Some_iff)
  have least: "envNameRe j \<or> k \<le> j" if jm: "j \<in> set (sorted_keys envs)" for j
  proof -
    obtain m where m: "m < length (sorted_keys envs)" "j = sorted_keys envs ! m"
      using jm by (metis in_set_conv_nth)
    show ?thesis
    proof (cases "m < i")
      case True
      then show ?thesis using i(4) m(2) by blast
    next
      case False
      then have "k \<le> j"
        using i(1,3) m sorted_nth_mono[OF sorted_sorted_keys[of envs], of i m] by simp
      then show ?thesis by blast
    qed
  qed
  moreover have "k \<in> set (sorted_keys envs)" using i(1,3) nth_mem by metis
  ultimately show ?thesis using i(2,3) set_sorted_keys[of envs] by blast
qed

theorem invalidEnvName_least_witness:
  "\<not> envNameRe ''1BAD'' \<and> (envNameRe ''bad-name'' \<or> ''1BAD'' \<le> ''bad-name'')"
proof -
  have "invalidEnvName [(''GOOD'', []), (''bad-name'', []), (''1BAD'', [])] = Some ''1BAD''"
    by code_simp
  from invalidEnvName_least[OF this] show ?thesis by simp
qed

section \<open>Validate\<close>

definition err_if :: "bool \<Rightarrow> string \<Rightarrow> goerr option" where
  "err_if b msg = (if b then Some (ConfigError msg None) else None)"

lemma err_if_None [simp]: "err_if b msg = None \<longleftrightarrow> \<not> b"
  by (simp add: err_if_def)

definition check_bastion :: "bastion option \<Rightarrow> goerr option" where
  "check_bastion ob = (case ob of None \<Rightarrow> None
     | Some b \<Rightarrow> checks
        [err_if (bas_Address b = []) ''ssh.bastion.address is required'',
         err_if (bas_IdentityFilePassphrase b \<noteq> [] \<and> bas_IdentityFile b = [])
           ''ssh.bastion.identity_file_passphrase set but no identity_file to decrypt''])"

definition idx :: "string \<Rightarrow> nat \<Rightarrow> string" where
  "idx field i = field @ ''['' @ itoa (int i) @ '']''"

definition check_host :: "nat \<times> host \<Rightarrow> goerr option" where
  "check_host = (\<lambda>(i, h). checks
     [err_if (host_Address h = [] \<and> \<not> host_Local h)
        (idx ''hosts'' i @ ''.address is required (or set local: true)''),
      err_if (host_IdentityFilePassphrase h \<noteq> [] \<and> host_IdentityFile h = [] \<and> \<not> host_Local h)
        (idx ''hosts'' i @ ''.identity_file_passphrase set but no identity_file to decrypt'')])"

definition check_linked :: "string \<Rightarrow> nat \<times> string \<Rightarrow> goerr option" where
  "check_linked field = (\<lambda>(i, f). case ParseLinkedPath f of (src, dst) \<Rightarrow>
     err_if (src = [] \<or> dst = [])
       (idx field i @ '' '' @ quoted f @
        '': source and destination must both be non-empty (use \"source:dest\", no spaces)''))"

definition check_script :: "string \<Rightarrow> nat \<times> script \<Rightarrow> goerr option" where
  "check_script name = (\<lambda>(i, s).
     err_if ((sc_Path s \<noteq> []) = (sc_Script s \<noteq> []))
       (''task '' @ quoted name @ '' '' @ idx ''scripts'' i @
        '': set exactly one of 'path' or 'script'' @ [CHR 0x27]))"

definition check_task :: "string \<times> task option \<Rightarrow> goerr option" where
  "check_task = (\<lambda>(name, ot). case ot of None \<Rightarrow> None
     | Some t \<Rightarrow> checks
        [case invalidEnvName (task_Envs t) of
           Some k \<Rightarrow> Some (ConfigError (''task '' @ quoted name @ '' envs: '' @ quoted k @
             '' is not a valid shell variable name'') None)
         | None \<Rightarrow> None,
         first_err (check_script name) (List.enumerate 0 (task_Scripts t)),
         err_if (task_Action t \<noteq> [] \<and> (length (task_Cmds t) > 0 \<or> length (task_Scripts t) > 0))
           (''task '' @ quoted name @ '': 'action' cannot be combined with cmds/scripts''),
         err_if (task_Output t \<notin> {[], ''json'', ''text'', ''lines''})
           (''task '' @ quoted name @ '': invalid output '' @ quoted (task_Output t) @
            '' (want json, text, or lines)''),
         err_if (task_Output t \<noteq> [] \<and> task_Action t \<noteq> [])
           (''task '' @ quoted name @ '': 'output' cannot be combined with 'action'' @ [CHR 0x27])])"

definition check_plugin :: "nat \<times> plugin_spec \<Rightarrow> goerr option" where
  "check_plugin = (\<lambda>(i, p). err_if (ps_Name p = []) (idx ''plugins'' i @ '': 'name' is required''))"

definition check_identity :: "ssh_identity smap \<Rightarrow> string \<Rightarrow> goerr option" where
  "check_identity ids name = (case m_get ids name of None \<Rightarrow> None
     | Some i \<Rightarrow> checks
        [err_if ((id_Path i \<noteq> []) = (id_Content i \<noteq> []))
           (''ssh.identities.'' @ name @ '': set exactly one of 'path' or 'content'' @ [CHR 0x27]),
         err_if (id_Recursive i \<and> id_Path i = [])
           (''ssh.identities.'' @ name @ '': 'recursive' requires 'path'' @ [CHR 0x27])])"

definition Validate :: "'v semver \<Rightarrow> deploy_file \<Rightarrow> goerr option" where
  "Validate sv c = checks
     [checkVersion sv (cfg_Version c),
      err_if (app_Name (cfg_App c) = []) ''app.name is required'',
      err_if (app_DeployTo (cfg_App c) = []) ''app.deploy_to is required'',
      err_if (app_KeepReleases (cfg_App c) < 0)
        (''app.keep_releases must not be negative (got '' @ itoa (app_KeepReleases (cfg_App c)) @ '')''),
      err_if (cfg_OnUnreachable c \<notin> {[], OnUnreachableAbort, OnUnreachableSkip})
        (''on_unreachable '' @ quoted (cfg_OnUnreachable c) @ '' is invalid (want '' @
         quoted OnUnreachableAbort @ '' or '' @ quoted OnUnreachableSkip @ '')''),
      err_if (ssh_IdentityFilePassphrase (cfg_SSH c) \<noteq> [] \<and> ssh_IdentityFile (cfg_SSH c) = [])
        ''ssh.identity_file_passphrase requires ssh.identity_file (identities entries have their own passphrase)'',
      check_bastion (ssh_Bastion (cfg_SSH c)),
      first_err check_host (List.enumerate 0 (cfg_Hosts c)),
      first_err (check_linked ''linked_files'') (List.enumerate 0 (cfg_LinkedFiles c)),
      first_err (check_linked ''linked_dirs'') (List.enumerate 0 (cfg_LinkedDirs c)),
      (case invalidEnvName (cfg_Envs c) of
         Some k \<Rightarrow> Some (ConfigError (''envs: '' @ quoted k @ '' is not a valid shell variable name'') None)
       | None \<Rightarrow> None),
      first_err check_task (cfg_Tasks c),
      first_err check_plugin (List.enumerate 0 (cfg_Plugins c)),
      first_err (check_identity (ssh_Identities (cfg_SSH c))) (sorted_keys (ssh_Identities (cfg_SSH c)))]"

section \<open>What an accepted configuration satisfies\<close>

definition linked_ok :: "string \<Rightarrow> bool" where
  "linked_ok f \<longleftrightarrow> fst (ParseLinkedPath f) \<noteq> [] \<and> snd (ParseLinkedPath f) \<noteq> []"

definition host_ok :: "host \<Rightarrow> bool" where
  "host_ok h \<longleftrightarrow> host_Local h \<or>
     host_Address h \<noteq> [] \<and> (host_IdentityFilePassphrase h = [] \<or> host_IdentityFile h \<noteq> [])"

definition bastion_ok :: "bastion \<Rightarrow> bool" where
  "bastion_ok b \<longleftrightarrow>
     bas_Address b \<noteq> [] \<and> (bas_IdentityFilePassphrase b = [] \<or> bas_IdentityFile b \<noteq> [])"

definition task_ok :: "task \<Rightarrow> bool" where
  "task_ok t \<longleftrightarrow>
     (\<forall>k\<in>fst ` set (task_Envs t). envNameRe k)
   \<and> (\<forall>s\<in>set (task_Scripts t). (sc_Path s = []) \<noteq> (sc_Script s = []))
   \<and> (task_Action t \<noteq> [] \<longrightarrow> task_Cmds t = [] \<and> task_Scripts t = [] \<and> task_Output t = [])
   \<and> task_Output t \<in> {[], ''json'', ''text'', ''lines''}"

definition identity_ok :: "ssh_identity \<Rightarrow> bool" where
  "identity_ok i \<longleftrightarrow> (id_Path i = []) \<noteq> (id_Content i = []) \<and> (id_Recursive i \<longrightarrow> id_Path i \<noteq> [])"

definition valid_cfg :: "'v semver \<Rightarrow> deploy_file \<Rightarrow> bool" where
  "valid_cfg sv c \<longleftrightarrow>
     checkVersion sv (cfg_Version c) = None
   \<and> app_Name (cfg_App c) \<noteq> [] \<and> app_DeployTo (cfg_App c) \<noteq> [] \<and> 0 \<le> app_KeepReleases (cfg_App c)
   \<and> cfg_OnUnreachable c \<in> {[], OnUnreachableAbort, OnUnreachableSkip}
   \<and> (ssh_IdentityFilePassphrase (cfg_SSH c) = [] \<or> ssh_IdentityFile (cfg_SSH c) \<noteq> [])
   \<and> pred_option bastion_ok (ssh_Bastion (cfg_SSH c))
   \<and> list_all host_ok (cfg_Hosts c)
   \<and> list_all linked_ok (cfg_LinkedFiles c) \<and> list_all linked_ok (cfg_LinkedDirs c)
   \<and> (\<forall>k\<in>fst ` set (cfg_Envs c). envNameRe k)
   \<and> (\<forall>(n, ot)\<in>set (cfg_Tasks c). pred_option task_ok ot)
   \<and> list_all (\<lambda>p. ps_Name p \<noteq> []) (cfg_Plugins c)
   \<and> (\<forall>n i. m_get (ssh_Identities (cfg_SSH c)) n = Some i \<longrightarrow> identity_ok i)"

lemma enumerate_all: "(\<forall>p\<in>set (List.enumerate n xs). P (snd p)) \<longleftrightarrow> list_all P xs"
  by (induction xs arbitrary: n) auto

lemma check_host_None: "check_host p = None \<longleftrightarrow> host_ok (snd p)"
  by (cases p) (auto simp: check_host_def host_ok_def first_err_None_iff)

lemma check_linked_None: "check_linked field p = None \<longleftrightarrow> linked_ok (snd p)"
  by (cases p) (auto simp: check_linked_def linked_ok_def split: prod.splits)

lemma check_plugin_None: "check_plugin p = None \<longleftrightarrow> ps_Name (snd p) \<noteq> []"
  by (cases p) (auto simp: check_plugin_def)

lemma check_script_None: "check_script n p = None \<longleftrightarrow> (sc_Path (snd p) = []) \<noteq> (sc_Script (snd p) = [])"
  by (cases p) (auto simp: check_script_def)

lemma check_bastion_None: "check_bastion ob = None \<longleftrightarrow> pred_option bastion_ok ob"
  by (cases ob) (auto simp: check_bastion_def bastion_ok_def first_err_None_iff)

lemma env_check_None:
  "(case invalidEnvName e of Some k \<Rightarrow> Some (f k :: goerr) | None \<Rightarrow> None) = None
     \<longleftrightarrow> (\<forall>k\<in>fst ` set e. envNameRe k)"
  using invalidEnvName_None[of e] by (cases "invalidEnvName e") simp_all

lemma check_task_None: "check_task p = None \<longleftrightarrow> pred_option task_ok (snd p)"
proof (cases p)
  case (Pair n ot)
  have scripts: "first_err (check_script n) (List.enumerate 0 ss) = None
      \<longleftrightarrow> (\<forall>s\<in>set ss. (sc_Path s = []) \<noteq> (sc_Script s = []))" for ss
    by (simp only: first_err_None_iff check_script_None list_all_iff
        enumerate_all[where P = "\<lambda>s. (sc_Path s = []) \<noteq> (sc_Script s = [])"])
  show ?thesis
  proof (cases ot)
    case (Some t)
    show ?thesis
      unfolding Pair Some check_task_def prod.case option.case checks_None_iff list.pred_inject
        env_check_None scripts err_if_None snd_conv option.pred_inject task_ok_def
      by auto
  qed (simp add: Pair check_task_def)
qed

lemma check_identities_None:
  "first_err (check_identity ids) (sorted_keys ids) = None
     \<longleftrightarrow> (\<forall>n i. m_get ids n = Some i \<longrightarrow> identity_ok i)"
proof -
  have "check_identity ids n = None \<longleftrightarrow> (\<forall>i. m_get ids n = Some i \<longrightarrow> identity_ok i)" for n
    by (auto simp: check_identity_def identity_ok_def first_err_None_iff split: option.splits)
  then have "first_err (check_identity ids) (sorted_keys ids) = None
      \<longleftrightarrow> (\<forall>n\<in>fst ` set ids. \<forall>i. m_get ids n = Some i \<longrightarrow> identity_ok i)"
    by (simp add: first_err_None_iff)
  also have "\<dots> \<longleftrightarrow> (\<forall>n i. m_get ids n = Some i \<longrightarrow> identity_ok i)"
    by (metis m_get_in_set fst_conv image_eqI)
  finally show ?thesis .
qed

text \<open>
  The schema check is exact: a resolved configuration is accepted if and only if it satisfies
  the documented requirements, every one of them (version in range, application name and root,
  non-negative keep_releases, a known on_unreachable policy, passphrases only with the key they
  decrypt, addressed or local hosts, two-sided linked paths, shell-valid environment names,
  well-formed tasks and scripts, named plugins and single-source identities).
\<close>

theorem Validate_iff: "Validate sv c = None \<longleftrightarrow> valid_cfg sv c"
proof -
  have hosts: "first_err check_host (List.enumerate 0 hs) = None \<longleftrightarrow> list_all host_ok hs" for hs
    by (simp add: first_err_None_iff check_host_None enumerate_all[where P = host_ok])
  have linked: "first_err (check_linked f) (List.enumerate 0 ls) = None \<longleftrightarrow> list_all linked_ok ls" for f ls
    by (simp add: first_err_None_iff check_linked_None enumerate_all[where P = linked_ok])
  have plugins: "first_err check_plugin (List.enumerate 0 ps) = None
      \<longleftrightarrow> list_all (\<lambda>p. ps_Name p \<noteq> []) ps" for ps
    by (simp add: first_err_None_iff check_plugin_None enumerate_all[where P = "\<lambda>p. ps_Name p \<noteq> []"])
  have tasks: "first_err check_task ts = None \<longleftrightarrow> (\<forall>(n, ot)\<in>set ts. pred_option task_ok ot)" for ts
    by (auto simp: first_err_None_iff check_task_None)
  show ?thesis
    unfolding Validate_def valid_cfg_def checks_None_iff list.pred_inject err_if_None hosts linked
      plugins tasks env_check_None check_bastion_None check_identities_None
    by (auto simp: not_less)
qed

lemma first_err_all_config:
  "(\<And>x e. x \<in> set xs \<Longrightarrow> f x = Some e \<Longrightarrow> code (Some e) = CodeConfig) \<Longrightarrow>
   first_err f xs = Some e \<Longrightarrow> code (Some e) = CodeConfig"
  using first_err_Some[of f xs e] by blast

section \<open>ValidateHooks\<close>

definition hook_points :: "deploy_file \<Rightarrow> string list" where
  "hook_points c = [PhaseFailed, PhaseRollback] @ BuiltinPhases @ map cp_Name (cfg_CustomPhases c)"

definition has_task :: "deploy_file \<Rightarrow> string \<Rightarrow> bool" where
  "has_task c name = (case m_get (cfg_Tasks c) name of Some (Some t) \<Rightarrow> True | _ \<Rightarrow> False)"

definition check_hook_key :: "deploy_file \<Rightarrow> string \<Rightarrow> string list smap \<Rightarrow> string \<Rightarrow> goerr option" where
  "check_hook_key c kind m key = checks
     [err_if (\<not> List.member (hook_points c) key \<and> \<not> has_task c key)
        (''hooks.'' @ kind @ '' '' @ quoted key @ '': not a deploy phase, custom phase, or task''),
      first_err (\<lambda>tn. err_if (\<not> has_task c tn)
          (''hooks.'' @ kind @ '' '' @ quoted key @ '': task '' @ quoted tn @ '' not found''))
        (m_list m key)]"

definition check_hooks :: "deploy_file \<Rightarrow> string \<Rightarrow> string list smap \<Rightarrow> goerr option" where
  "check_hooks c kind m = first_err (check_hook_key c kind m) (sorted_keys m)"

definition ValidateHooks :: "deploy_file \<Rightarrow> goerr option" where
  "ValidateHooks c = checks
     [check_hooks c ''before'' (hooks_Before (cfg_Hooks c)),
      check_hooks c ''after'' (hooks_After (cfg_Hooks c)),
      err_if (length (m_list (hooks_Before (cfg_Hooks c)) PhaseFailed) > 0)
        (''hooks.before '' @ quoted PhaseFailed @
         '' is never run (deploy:failed only fires 'after' hooks)'')]"

lemma check_hooks_None:
  "check_hooks c kind m = None \<longleftrightarrow>
     (\<forall>key\<in>fst ` set m. (key \<in> set (hook_points c) \<or> has_task c key)
        \<and> (\<forall>tn\<in>set (m_list m key). has_task c tn))"
  by (auto simp: check_hooks_def first_err_None_iff check_hook_key_def)

text \<open>
  No hook is silently dead: the check passes exactly when every hook key names something that
  fires (a built-in or custom phase, deploy:failed, deploy:rollback, or an existing task), every
  task a hook names exists, and nothing is registered before deploy:failed.
\<close>

theorem ValidateHooks_iff:
  "ValidateHooks c = None \<longleftrightarrow>
     (\<forall>m\<in>{hooks_Before (cfg_Hooks c), hooks_After (cfg_Hooks c)}. \<forall>key\<in>fst ` set m.
        (IsBuiltinPhase key \<or> key \<in> {PhaseFailed, PhaseRollback}
           \<or> key \<in> cp_Name ` set (cfg_CustomPhases c) \<or> has_task c key)
        \<and> (\<forall>tn\<in>set (m_list m key). has_task c tn))
   \<and> m_list (hooks_Before (cfg_Hooks c)) PhaseFailed = []"
proof -
  have points: "key \<in> set (hook_points c) \<longleftrightarrow> IsBuiltinPhase key \<or> key \<in> {PhaseFailed, PhaseRollback}
      \<or> key \<in> cp_Name ` set (cfg_CustomPhases c)" for key
    by (auto simp: hook_points_def IsBuiltinPhase_def)
  show ?thesis
    unfolding ValidateHooks_def checks_None_iff list.pred_inject err_if_None check_hooks_None points
    by auto
qed

theorem ValidateHooks_iff_witness:
  "ValidateHooks (zero_cfg\<lparr>cfg_Tasks := [(''restart'', Some zero_task)],
     cfg_Hooks := \<lparr>hooks_Before = [], hooks_After = [(PhasePublishing, [''restart''])]\<rparr>\<rparr>) = None"
  by (subst ValidateHooks_iff)
    (simp add: zero_cfg_def IsBuiltinPhase_def BuiltinPhases_def m_list_def has_task_def)

end
