(* ===== verification/Load.thy ===== *)
theory Load
  imports Ast_Validate
begin

text \<open>
  Loading a configuration (\<open>internal/deployfile/deployfile.go\<close>, \<open>load.go\<close>, \<open>tasks.go\<close>): finding
  the shared file and the stage file, resolving \<open>include:\<close>, merging, defaults, env files and
  validation.

  The file system is the record \<open>fs\<close> of what the system calls answer; decoding a YAML document
  and reading a dotenv file belong to third-party packages and are two of its functions. Include
  resolution takes fuel, because nothing in the code bounds an include tree except the files that
  exist; \<open>resolve_total\<close> shows that one more than the number of readable files is enough.
\<close>

datatype stat_res = NotExist goerr | StatErr goerr | IsFile | IsDir

record fs =
  fs_stat :: "string \<Rightarrow> stat_res"
  fs_readfile :: "string \<Rightarrow> goerr + string"
  fs_readdir :: "string \<Rightarrow> goerr + (string \<times> bool) list"
  fs_getwd :: "goerr + string"
  yaml_decode :: "string \<Rightarrow> goerr + deploy_file"
  dotenv_read :: "string \<Rightarrow> goerr + string smap"

definition stat_err :: "stat_res \<Rightarrow> goerr option" where
  "stat_err r = (case r of NotExist e \<Rightarrow> Some e | StatErr e \<Rightarrow> Some e | _ \<Rightarrow> None)"

definition res_apply :: "('a \<Rightarrow> 'b) \<Rightarrow> 'a res \<Rightarrow> 'b res" where
  "res_apply g r = (case r of Inl e \<Rightarrow> Inl e | Inr x \<Rightarrow> Inr (g x))"

definition stat_ok :: "fs \<Rightarrow> string \<Rightarrow> bool" where
  "stat_ok f p \<longleftrightarrow> stat_err (fs_stat f p) = None"

text \<open>The \<open>%v\<close> verb on a list of strings.\<close>

definition show_list :: "string list \<Rightarrow> string" where
  "show_list xs = ''['' @ join_on '' '' xs @ '']''"

text \<open>\<open>filepath.Ext\<close> of a name without a directory, and \<open>filepath.Abs\<close>.\<close>

definition path_ext :: "string \<Rightarrow> string" where
  "path_ext p = (let base = rev (takeWhile (\<lambda>c. c \<noteq> CHR ''/'') (rev p)) in
     if CHR ''.'' \<in> set base then CHR ''.'' # rev (takeWhile (\<lambda>c. c \<noteq> CHR ''.'') (rev base)) else [])"

definition path_abs :: "fs \<Rightarrow> string \<Rightarrow> goerr + string" where
  "path_abs f p = (if is_abs p then Inr (path_clean p)
     else res_apply (\<lambda>wd. path_join [wd, p]) (fs_getwd f))"

section \<open>Finding the files\<close>

definition DefaultDeployfiles :: "string list" where
  "DefaultDeployfiles = [''Whooshfile.yml'', ''Whooshfile.yaml'', ''whooshfile.yml'',
     ''whooshfile.yaml'', ''Whooshfile'', ''Deployfile.yml'', ''Deployfile.yaml'',
     ''deployfile.yml'', ''deployfile.yaml'', ''Deployfile'', ''.Whooshfile.yml'',
     ''.Whooshfile.yaml'', ''.whooshfile.yml'', ''.whooshfile.yaml'', ''.Whooshfile'',
     ''.Deployfile.yml'', ''.Deployfile.yaml'', ''.deployfile.yml'', ''.deployfile.yaml'',
     ''.Deployfile'']"

definition StageDirs :: "string list" where
  "StageDirs = [''whoosh'', ''.whoosh'', ''deploy'', ''.deploy'']"

definition stageExts :: "string list" where
  "stageExts = [''.yml'', ''.yaml'']"

definition Discover :: "fs \<Rightarrow> string \<Rightarrow> string \<Rightarrow> string res" where
  "Discover f dir ovr = (if ovr \<noteq> [] then
       (case stat_err (fs_stat f ovr) of
          Some err \<Rightarrow> Inl (wrapf (''deployfile '' @ quoted ovr) err)
        | None \<Rightarrow> Inr ovr)
     else (case List.find (\<lambda>name. stat_ok f (path_join [dir, name])) DefaultDeployfiles of
          Some name \<Rightarrow> Inr (path_join [dir, name])
        | None \<Rightarrow> Inl (Text (''no Deployfile found in '' @ dir @ '' (looked for ''
            @ show_list DefaultDeployfiles @ '')''))))"

definition stage_candidates :: "string \<Rightarrow> string \<Rightarrow> string list" where
  "stage_candidates deployfileDir stage =
     concat (map (\<lambda>sd. map (\<lambda>ext. path_join [deployfileDir, sd, stage @ ext]) stageExts) StageDirs)"

definition stagePath :: "fs \<Rightarrow> string \<Rightarrow> string \<Rightarrow> string res" where
  "stagePath f deployfileDir stage =
     (case List.find (stat_ok f) (stage_candidates deployfileDir stage) of
        Some p \<Rightarrow> Inr p
      | None \<Rightarrow> Inl (Text (''stage '' @ quoted stage @ '' not found: expected '' @ hd StageDirs
          @ ''/'' @ stage @ ''.yml (in one of '' @ show_list StageDirs @ '')'')))"

section \<open>Reading one file\<close>

definition readConfig :: "fs \<Rightarrow> string \<Rightarrow> deploy_file res" where
  "readConfig f path = (case fs_readfile f path of
      Inl err \<Rightarrow> Inl (wrapf (''read '' @ path) err)
    | Inr data \<Rightarrow> (case yaml_decode f data of
        Inl err \<Rightarrow> Inl (wrapf (''parse '' @ path) err) | Inr c \<Rightarrow> Inr c))"

record stage_info =
  si_Name :: string
  si_Path :: string
  si_Description :: string

text \<open>
  One directory entry in the loop of \<open>ListStages\<close>; the accumulator holds the names seen and the
  stages found.
\<close>

definition stage_entry :: "fs \<Rightarrow> string \<Rightarrow> string \<Rightarrow> string \<Rightarrow> string \<times> bool
    \<Rightarrow> string list \<times> stage_info list \<Rightarrow> string list \<times> stage_info list" where
  "stage_entry f deployfileDir sd ext e acc = (case acc of (seen, stages) \<Rightarrow>
     if snd e \<or> path_ext (fst e) \<noteq> ext then (seen, stages)
     else (let name = trim_suffix (fst e) (path_ext (fst e)) in
       if List.member seen name then (seen, stages)
       else (let rel = path_join [sd, fst e];
           desc = (case readConfig f (path_join [deployfileDir, rel]) of
              Inr cfg \<Rightarrow> cfg_Description cfg | Inl _ \<Rightarrow> [])
         in (seen @ [name], stages @ [\<lparr>si_Name = name, si_Path = rel, si_Description = desc\<rparr>]))))"

definition stage_dir :: "fs \<Rightarrow> string \<Rightarrow> string \<Rightarrow> string list \<times> stage_info list
    \<Rightarrow> string list \<times> stage_info list" where
  "stage_dir f deployfileDir sd acc = (case fs_readdir f (path_join [deployfileDir, sd]) of
      Inl _ \<Rightarrow> acc
    | Inr entries \<Rightarrow> fold (\<lambda>ext acc. fold (stage_entry f deployfileDir sd ext) entries acc) stageExts acc)"

definition ListStages :: "fs \<Rightarrow> string \<Rightarrow> stage_info list" where
  "ListStages f deployfileDir =
     sort_key si_Name (snd (fold (stage_dir f deployfileDir) StageDirs ([], [])))"

section \<open>Includes\<close>

text \<open>
  The result of a resolution: an error, the merged configuration, or nothing for a file that was
  merged before; with the files seen so far. \<open>None\<close> on the outside means that the fuel ran out.
\<close>

type_synonym resolved = "(deploy_file option res \<times> string list) option"

text \<open>The loop over \<open>self.Include\<close>; \<open>rec\<close> is the recursive call.\<close>

fun include_loop :: "(string \<Rightarrow> string list \<Rightarrow> resolved) \<Rightarrow> string \<Rightarrow> string list \<Rightarrow> deploy_file
    \<Rightarrow> string list \<Rightarrow> (deploy_file res \<times> string list) option" where
  "include_loop rec dir [] merged seen = Some (Inr merged, seen)"
| "include_loop rec dir (inc # incs) merged seen =
     (case rec (if is_abs inc then inc else path_join [dir, inc]) seen of
        None \<Rightarrow> None
      | Some (Inl err, seen') \<Rightarrow> Some (Inl err, seen')
      | Some (Inr None, seen') \<Rightarrow> include_loop rec dir incs merged seen'
      | Some (Inr (Some incCfg), seen') \<Rightarrow> include_loop rec dir incs (Merge merged incCfg) seen')"

fun resolveIncludes :: "nat \<Rightarrow> fs \<Rightarrow> string \<Rightarrow> string list \<Rightarrow> string list \<Rightarrow> resolved" where
  "resolveIncludes 0 f path anc seen = None"
| "resolveIncludes (Suc n) f path anc seen = (case path_abs f path of
      Inl err \<Rightarrow> Some (Inl err, seen)
    | Inr ap \<Rightarrow>
        if List.member anc ap
        then Some (Inl (Text (''circular include: '' @ ap @ '' (via '' @ show_list anc @ '')'')), seen)
        else if List.member seen ap then Some (Inr None, seen)
        else (case readConfig f path of
            Inl err \<Rightarrow> Some (Inl err, seen @ [ap])
          | Inr self \<Rightarrow>
              if cfg_Include self = [] then Some (Inr (Some self), seen @ [ap])
              else (case include_loop (\<lambda>p s. resolveIncludes n f p (anc @ [ap]) s) (path_dir path)
                      (cfg_Include self) zero_cfg (seen @ [ap]) of
                  None \<Rightarrow> None
                | Some (Inl err, seen') \<Rightarrow> Some (Inl err, seen')
                | Some (Inr merged, seen') \<Rightarrow>
                    Some (Inr (Some ((Merge merged self)\<lparr>cfg_Include := []\<rparr>)), seen'))))"

section \<open>Loading\<close>

fun env_loop :: "fs \<Rightarrow> string \<Rightarrow> string list \<Rightarrow> string smap \<Rightarrow> string smap res" where
  "env_loop f dir [] values = Inr values"
| "env_loop f dir (p # ps) values =
     (if p = [] then env_loop f dir ps values
      else (let p' = (if is_abs p then p else path_join [dir, p]) in
        (case fs_stat f p' of NotExist _ \<Rightarrow> env_loop f dir ps values
         | _ \<Rightarrow> (case dotenv_read f p' of
              Inl err \<Rightarrow> Inl (wrapf (''read env file '' @ p') err)
            | Inr kv \<Rightarrow> env_loop f dir ps (m_copy values kv)))))"

definition loadEnvFiles :: "fs \<Rightarrow> deploy_file \<Rightarrow> deploy_file res" where
  "loadEnvFiles f c = (if cfg_EnvFiles c = [] then Inr c
     else res_apply (\<lambda>values. c\<lparr>cfg_EnvFileValues := values\<rparr>) (env_loop f (cfg_Dir c) (cfg_EnvFiles c) []))"

definition finish_load :: "'v semver \<Rightarrow> fs \<Rightarrow> string \<Rightarrow> string \<Rightarrow> deploy_file \<Rightarrow> deploy_file res" where
  "finish_load sv f deployfilePath stage merged =
     (case loadEnvFiles f (ApplyDefaults (merged\<lparr>cfg_Stage := stage, cfg_Dir := path_dir deployfilePath\<rparr>)) of
        Inl err \<Rightarrow> Inl err
      | Inr cfg \<Rightarrow> (case Validate sv cfg of Some err \<Rightarrow> Inl err | None \<Rightarrow> Inr cfg))"

definition Load :: "nat \<Rightarrow> 'v semver \<Rightarrow> fs \<Rightarrow> string \<Rightarrow> string \<Rightarrow> deploy_file res option" where
  "Load fuel sv f deployfilePath stage = (case resolveIncludes fuel f deployfilePath [] [] of
      None \<Rightarrow> None
    | Some (Inl err, _) \<Rightarrow> Some (Inl err)
    | Some (Inr base, seen) \<Rightarrow> (case stagePath f (path_dir deployfilePath) stage of
        Inl err \<Rightarrow> Some (Inl err)
      | Inr sp \<Rightarrow> (case resolveIncludes fuel f sp [] seen of
          None \<Rightarrow> None
        | Some (Inl err, _) \<Rightarrow> Some (Inl err)
        | Some (Inr stageCfg, _) \<Rightarrow> Some (finish_load sv f deployfilePath stage
            (Merge (case base of Some b \<Rightarrow> b | None \<Rightarrow> zero_cfg)
                   (case stageCfg of Some s \<Rightarrow> s | None \<Rightarrow> zero_cfg))))))"

definition TasksForStage :: "nat \<Rightarrow> fs \<Rightarrow> string \<Rightarrow> string \<Rightarrow> task option smap res option" where
  "TasksForStage fuel f path stage = (case resolveIncludes fuel f path [] [] of
      None \<Rightarrow> None
    | Some (Inl err, _) \<Rightarrow> Some (Inl err)
    | Some (Inr base, seen) \<Rightarrow>
        (let b = (case base of Some b \<Rightarrow> b | None \<Rightarrow> zero_cfg) in
         case stagePath f (path_dir path) stage of
           Inl _ \<Rightarrow> Some (Inr (cfg_Tasks b))
         | Inr sp \<Rightarrow> (case resolveIncludes fuel f sp [] seen of
             None \<Rightarrow> None
           | Some (Inr (Some stageCfg), _) \<Rightarrow> Some (Inr (cfg_Tasks (Merge b stageCfg)))
           | Some _ \<Rightarrow> Some (Inr (cfg_Tasks b)))))"

definition ScriptsLocation :: "fs \<Rightarrow> deploy_file \<Rightarrow> string" where
  "ScriptsLocation f c = (if cfg_ScriptsDir c \<noteq> [] then
       (if is_abs (cfg_ScriptsDir c) then cfg_ScriptsDir c else path_join [cfg_Dir c, cfg_ScriptsDir c])
     else (case List.find (\<lambda>sd. fs_stat f (path_join [cfg_Dir c, sd]) = IsDir) StageDirs of
         Some sd \<Rightarrow> path_join [cfg_Dir c, sd, ''scripts'']
       | None \<Rightarrow> path_join [cfg_Dir c, hd StageDirs, ''scripts'']))"

section \<open>Includes terminate\<close>

text \<open>The absolute names of the files that can be read and parsed, in one finite set.\<close>

definition readable_in :: "fs \<Rightarrow> string set \<Rightarrow> bool" where
  "readable_in f U \<longleftrightarrow> finite U
     \<and> (\<forall>p a c. path_abs f p = Inr a \<longrightarrow> readConfig f p = Inr c \<longrightarrow> a \<in> U)"

lemma include_loop_seen:
  assumes rec: "\<And>p s. set s0 \<subseteq> set s \<Longrightarrow> \<exists>x s'. rec p s = Some (x, s') \<and> set s \<subseteq> set s'"
  shows "set s0 \<subseteq> set seen \<Longrightarrow>
   \<exists>x s'. include_loop rec dir incs merged seen = Some (x, s') \<and> set seen \<subseteq> set s'"
proof (induction incs arbitrary: merged seen)
  case (Cons inc incs)
  obtain x s' where r: "rec (if is_abs inc then inc else path_join [dir, inc]) seen = Some (x, s')"
      "set seen \<subseteq> set s'"
    using rec[OF Cons.prems] by blast
  have rest: "\<exists>x s''. include_loop rec dir incs m s' = Some (x, s'') \<and> set seen \<subseteq> set s''" for m
    using Cons.IH[of s' m] Cons.prems r(2) by fastforce
  show ?case
  proof (cases x)
    case (Inl e)
    then show ?thesis using r by simp
  next
    case (Inr oc)
    then show ?thesis using r rest by (cases oc) simp_all
  qed
qed simp

lemma resolve_total:
  assumes U: "readable_in f U"
  shows "card (U - set seen) < n \<Longrightarrow>
    \<exists>x seen'. resolveIncludes n f path anc seen = Some (x, seen') \<and> set seen \<subseteq> set seen'"
proof (induction n arbitrary: path anc seen)
  case (Suc n)
  show ?case
  proof (cases "path_abs f path")
    case (Inr a)
    show ?thesis
    proof (cases "a \<in> set anc \<or> a \<in> set seen \<or> (\<exists>e. readConfig f path = Inl e)
        \<or> (\<exists>c. readConfig f path = Inr c \<and> cfg_Include c = [])")
      case True
      then show ?thesis using Inr by auto
    next
      case False
      then obtain self where self: "readConfig f path = Inr self" "cfg_Include self \<noteq> []"
        by (cases "readConfig f path") auto
      have a: "a \<in> U - set seen" using U Inr self(1) False by (auto simp: readable_in_def)
      have rec: "\<exists>x s'. resolveIncludes n f p (anc @ [a]) s = Some (x, s') \<and> set s \<subseteq> set s'"
        if "set (seen @ [a]) \<subseteq> set s" for p s
      proof -
        have "U - set s \<subset> U - set seen" using that a by auto
        moreover have "finite (U - set seen)" using U by (simp add: readable_in_def)
        ultimately have "card (U - set s) < n"
          using Suc.prems psubset_card_mono[of "U - set seen" "U - set s"] by linarith
        then show ?thesis by (rule Suc.IH)
      qed
      obtain x s' where l: "include_loop (\<lambda>p s. resolveIncludes n f p (anc @ [a]) s) (path_dir path)
          (cfg_Include self) zero_cfg (seen @ [a]) = Some (x, s')" "set (seen @ [a]) \<subseteq> set s'"
        using include_loop_seen[of "seen @ [a]" "\<lambda>p s. resolveIncludes n f p (anc @ [a]) s",
            OF rec order_refl] by blast
      then show ?thesis using Inr False self by (cases x) simp_all
    qed
  qed auto
qed simp

section \<open>Every file is merged once, after its includes\<close>

text \<open>The path an entry of \<open>include:\<close> names in the file at \<open>p\<close>.\<close>

definition inc_path :: "string \<Rightarrow> string \<Rightarrow> string" where
  "inc_path p inc = (if is_abs inc then inc else path_join [path_dir p, inc])"

text \<open>
  The walk over an include tree, as a relation: from a path and the names done before, the files met, each
  with its absolute name and its content, and the names done then. A file comes after what its includes
  bring in, which are walked in the order they are listed, and not at all when its name is done.
\<close>

inductive visit :: "fs \<Rightarrow> string set \<Rightarrow> string \<Rightarrow> (string \<times> string \<times> deploy_file) list \<Rightarrow> string set \<Rightarrow> bool"
  and visit_all :: "fs \<Rightarrow> string set \<Rightarrow> string list \<Rightarrow> (string \<times> string \<times> deploy_file) list \<Rightarrow> string set \<Rightarrow> bool"
  for f where
  visit_done: "path_abs f p = Inr a \<Longrightarrow> a \<in> D \<Longrightarrow> visit f D p [] D"
| visit_file: "path_abs f p = Inr a \<Longrightarrow> a \<notin> D \<Longrightarrow> readConfig f p = Inr cfg
    \<Longrightarrow> visit_all f (insert a D) (map (inc_path p) (cfg_Include cfg)) files D'
    \<Longrightarrow> visit f D p (files @ [(a, p, cfg)]) D'"
| visit_none: "visit_all f D [] [] D"
| visit_next: "visit f D p files1 D1 \<Longrightarrow> visit_all f D1 ps files2 D2 \<Longrightarrow> visit_all f D (p # ps) (files1 @ files2) D2"

lemma visit_snoc: "visit_all f D ps files1 D1 \<Longrightarrow> visit f D1 p files2 D2 \<Longrightarrow> visit_all f D (ps @ [p]) (files1 @ files2) D2"
proof (induction ps arbitrary: D files1)
  case Nil
  then have "files1 = []" "D1 = D" by (auto elim: visit_all.cases)
  then show ?case using visit_next[OF Nil.prems(2) visit_none] by simp
next
  case (Cons q ps)
  from Cons.prems(1) show ?case
    by (cases rule: visit_all.cases) (auto intro: visit_next Cons.IH[OF _ Cons.prems(2)])
qed

lemma visit_read:
  "visit f D p files D' \<Longrightarrow> list_all (\<lambda>(a, p, cfg). path_abs f p = Inr a \<and> readConfig f p = Inr cfg) files"
  "visit_all f D ps files D' \<Longrightarrow> list_all (\<lambda>(a, p, cfg). path_abs f p = Inr a \<and> readConfig f p = Inr cfg) files"
  by (induction rule: visit_visit_all.inducts) auto

text \<open>Every include of every file names a file of \<open>D\<close> or an earlier one.\<close>

fun includes_first :: "fs \<Rightarrow> string set \<Rightarrow> (string \<times> string \<times> deploy_file) list \<Rightarrow> bool" where
  "includes_first f D [] = True"
| "includes_first f D ((a, p, cfg) # files) =
     (list_all (\<lambda>inc. \<exists>b. path_abs f (inc_path p inc) = Inr b \<and> b \<in> D) (cfg_Include cfg) \<and> includes_first f (insert a D) files)"

lemma includes_first_append:
  "includes_first f D (xs @ ys) \<longleftrightarrow> includes_first f D xs \<and> includes_first f (D \<union> fst ` set xs) ys"
  by (induction f D xs rule: includes_first.induct) auto

text \<open>
  \<open>merged_from f anc seen seen' c files\<close>: the configuration \<open>c\<close> is the stack of these files, bottom first;
  none was seen before, none occurs twice, they are what is seen now, and their includes come earlier or
  were complete before, which the files of the chain \<open>anc\<close> are not.
\<close>

definition merged_from :: "fs \<Rightarrow> string set \<Rightarrow> string list \<Rightarrow> string list \<Rightarrow> deploy_file
    \<Rightarrow> (string \<times> string \<times> deploy_file) list \<Rightarrow> bool" where
  "merged_from f anc seen seen' c files \<longleftrightarrow> distinct (map fst files)
     \<and> fst ` set files \<inter> set seen = {} \<and> set seen' = set seen \<union> fst ` set files
     \<and> includes_first f (set seen - anc) files
     \<and> obs_eq c (layered (map (snd \<circ> snd) files))"

lemma merged_Merge:
  assumes "merged_from f anc s s1 b fs1" "merged_from f anc s1 s2 c fs2" "anc \<subseteq> set s"
  shows "merged_from f anc s s2 (Merge b c) (fs1 @ fs2)"
proof -
  have "obs_eq (Merge b c) (Merge (layered (map (snd \<circ> snd) fs1)) (layered (map (snd \<circ> snd) fs2)))"
    using assms by (intro Merge_cong) (simp_all add: merged_from_def)
  also have "obs_eq \<dots> (layered (map (snd \<circ> snd) (fs1 @ fs2)))"
    using obs_eq_sym[OF layered_append] by simp
  finally have "obs_eq (Merge b c) (layered (map (snd \<circ> snd) (fs1 @ fs2)))" .
  moreover have "set s1 - anc = (set s - anc) \<union> fst ` set fs1" using assms(1,3) by (auto simp: merged_from_def)
  ultimately show ?thesis using assms by (auto simp: merged_from_def includes_first_append)
qed

lemma merged_none: "merged_from f anc s s zero_cfg []" by (simp add: merged_from_def)

lemma merged_own:
  assumes "merged_from f (insert a anc) (s @ [a]) s' m files" "a \<notin> set s" "anc \<subseteq> set s"
    and "list_all (\<lambda>inc. \<exists>b. path_abs f (inc_path p inc) = Inr b \<and> b \<in> set s' - insert a anc) (cfg_Include self)"
  shows "merged_from f anc s s' (Merge m self) (files @ [(a, p, self)])"
proof -
  have "obs_eq (Merge m self) (Merge (layered (map (snd \<circ> snd) files)) self)"
    using assms(1) by (intro Merge_cong) (simp_all add: merged_from_def)
  moreover have "set (s @ [a]) - insert a anc = set s - anc" using assms(2) by auto
  moreover have "set s' - insert a anc = (set s - anc) \<union> fst ` set files"
    using assms(1-3) by (auto simp: merged_from_def)
  moreover from this have "list_all (\<lambda>inc. \<exists>b. path_abs f (inc_path p inc) = Inr b \<and> b \<in> (set s - anc) \<union> fst ` set files) (cfg_Include self)"
    using assms(4) by simp
  ultimately show ?thesis using assms(1-3) by (auto simp: merged_from_def includes_first_append)
qed

text \<open>What a resolution of a path achieves.\<close>

definition resolved_path :: "fs \<Rightarrow> string set \<Rightarrow> string list \<Rightarrow> string \<Rightarrow> deploy_file option \<Rightarrow> string list \<Rightarrow> bool" where
  "resolved_path f anc seen p oc seen' \<longleftrightarrow> (case oc of
      None \<Rightarrow> seen' = seen \<and> (\<exists>a. path_abs f p = Inr a \<and> a \<in> set seen - anc)
    | Some c \<Rightarrow> \<exists>files a self. merged_from f anc seen seen' c (files @ [(a, p, self)])
        \<and> path_abs f p = Inr a \<and> visit f (set seen) p (files @ [(a, p, self)]) (set seen'))"

lemma include_loop_merged:
  assumes rec: "\<And>p s oc s'. anc \<subseteq> set s \<Longrightarrow> rec p s = Some (Inr oc, s') \<Longrightarrow> resolved_path f anc s p oc s'"
  shows "include_loop rec dir incs merged seen = Some (Inr c, seen') \<Longrightarrow> anc \<subseteq> set s0 \<Longrightarrow>
   merged_from f anc s0 seen merged files0 \<Longrightarrow> visit_all f (set s0) ps files0 (set seen) \<Longrightarrow>
   list_all (\<lambda>q. \<exists>b. path_abs f q = Inr b \<and> b \<in> set seen - anc) ps \<Longrightarrow>
   (\<And>inc. (if is_abs inc then inc else path_join [dir, inc]) = ip inc) \<Longrightarrow>
   \<exists>files. merged_from f anc s0 seen' c files \<and> visit_all f (set s0) (ps @ map ip incs) files (set seen')
     \<and> list_all (\<lambda>q. \<exists>b. path_abs f q = Inr b \<and> b \<in> set seen' - anc) (ps @ map ip incs)"
proof (induction incs arbitrary: merged seen files0 ps)
  case (Cons inc incs)
  have sub: "anc \<subseteq> set seen" using Cons.prems(2,3) by (auto simp: merged_from_def)
  obtain x s1 where r: "rec (ip inc) seen = Some (x, s1)"
    using Cons.prems(1,6) by (cases "rec (ip inc) seen") (auto split: prod.splits)
  obtain oc where x: "x = Inr oc" using Cons.prems(1,6) r by (cases x) auto
  have res: "resolved_path f anc seen (ip inc) oc s1" using rec[OF sub] r x by blast
  show ?case
  proof (cases oc)
    case None
    have n: "s1 = seen" "\<exists>a. path_abs f (ip inc) = Inr a \<and> a \<in> set seen - anc"
      using res by (simp_all add: resolved_path_def None)
    have "visit f (set seen) (ip inc) [] (set seen)" using n(2) visit_done by fastforce
    from visit_snoc[OF Cons.prems(4) this] have "visit_all f (set s0) (ps @ [ip inc]) files0 (set seen)" by simp
    moreover have "include_loop rec dir incs merged seen = Some (Inr c, seen')"
      using Cons.prems(1,6) r x None n(1) by simp
    ultimately show ?thesis
      using Cons.IH[OF _ Cons.prems(2,3), of "ps @ [ip inc]"] Cons.prems(5,6) n(2) by simp
  next
    case (Some ic)
    then obtain files a self where m: "merged_from f anc seen s1 ic (files @ [(a, ip inc, self)])"
      and v: "visit f (set seen) (ip inc) (files @ [(a, ip inc, self)]) (set s1)" and a: "path_abs f (ip inc) = Inr a"
      using res by (auto simp: resolved_path_def)
    have l: "include_loop rec dir incs (Merge merged ic) s1 = Some (Inr c, seen')"
      using Cons.prems(1,6) r x Some by simp
    have "a \<in> set s1 - anc" "set seen \<subseteq> set s1" using m sub by (auto simp: merged_from_def)
    then have "list_all (\<lambda>q. \<exists>b. path_abs f q = Inr b \<and> b \<in> set s1 - anc) (ps @ [ip inc])"
      using a list.pred_mono_strong[OF Cons.prems(5), of "\<lambda>q. \<exists>b. path_abs f q = Inr b \<and> b \<in> set s1 - anc"] by auto
    then show ?thesis
      using Cons.IH[OF l Cons.prems(2) merged_Merge[OF Cons.prems(3) m Cons.prems(2)] visit_snoc[OF Cons.prems(4) v]]
        Cons.prems(6) by simp
  qed
qed auto

lemma obs_eq_include: "obs_eq (c\<lparr>cfg_Include := x\<rparr>) d = obs_eq c d"
  by (simp add: obs_eq_def)

lemma resolve_merged:
  "set anc \<subseteq> set seen \<Longrightarrow> resolveIncludes n f path anc seen = Some (Inr oc, seen') \<Longrightarrow>
   resolved_path f (set anc) seen path oc seen'"
proof (induction n arbitrary: path anc seen oc seen')
  case (Suc n)
  obtain a where a: "path_abs f path = Inr a" using Suc.prems(2) by (cases "path_abs f path") auto
  have anc: "a \<notin> set anc" using Suc.prems(2) a by (auto split: if_splits)
  show ?case
  proof (cases "a \<in> set seen")
    case True
    then show ?thesis using Suc.prems(2) a anc by (auto simp: resolved_path_def)
  next
    case new: False
    obtain self where self: "readConfig f path = Inr self"
      using Suc.prems(2) a anc new by (cases "readConfig f path") auto
    show ?thesis
    proof (cases "cfg_Include self = []")
      case True
      then have r: "oc = Some self" "seen' = seen @ [a]" using Suc.prems(2) a anc new self by auto
      have "visit f (set seen) path ([] @ [(a, path, self)]) (insert a (set seen))"
        by (rule visit_file[OF a new self]) (simp add: True visit_none)
      moreover have "merged_from f (set anc) seen (seen @ [a]) self ([] @ [(a, path, self)])"
        using new True obs_eq_sym[OF Merge_zero_left] by (simp add: merged_from_def layered_def)
      ultimately have "resolved_path f (set anc) seen path (Some self) (seen @ [a])"
        unfolding resolved_path_def option.case using a
        by (intro exI[of _ "[]"] exI[of _ a] exI[of _ self]) simp
      then show ?thesis using r by simp
    next
      case False
      let ?rec = "\<lambda>p s. resolveIncludes n f p (anc @ [a]) s"
      obtain m where l: "include_loop ?rec (path_dir path) (cfg_Include self) zero_cfg (seen @ [a]) = Some (Inr m, seen')"
        and oc: "oc = Some ((Merge m self)\<lparr>cfg_Include := []\<rparr>)"
        using Suc.prems(2) a anc new self False by (auto split: option.splits sum.splits)
      have "\<exists>files. merged_from f (insert a (set anc)) (seen @ [a]) seen' m files
          \<and> visit_all f (set (seen @ [a])) ([] @ map (inc_path path) (cfg_Include self)) files (set seen')
          \<and> list_all (\<lambda>q. \<exists>b. path_abs f q = Inr b \<and> b \<in> set seen' - insert a (set anc)) ([] @ map (inc_path path) (cfg_Include self))"
      proof (rule include_loop_merged[OF _ l _ merged_none visit_none])
        show "resolved_path f (insert a (set anc)) s p oc' s'"
          if "insert a (set anc) \<subseteq> set s" "?rec p s = Some (Inr oc', s')" for p s oc' s'
          using Suc.IH[of "anc @ [a]" s p oc' s'] that by simp
      qed (use Suc.prems(1) in \<open>auto simp: inc_path_def\<close>)
      then obtain files where m: "merged_from f (insert a (set anc)) (seen @ [a]) seen' m files"
        and v: "visit_all f (insert a (set seen)) (map (inc_path path) (cfg_Include self)) files (set seen')"
        and i: "list_all (\<lambda>q. \<exists>b. path_abs f q = Inr b \<and> b \<in> set seen' - insert a (set anc)) (map (inc_path path) (cfg_Include self))"
        by auto
      have "merged_from f (set anc) seen seen' (Merge m self) (files @ [(a, path, self)])"
        by (rule merged_own[OF m new Suc.prems(1)]) (use i in \<open>simp add: list_all_iff\<close>)
      then have "merged_from f (set anc) seen seen' ((Merge m self)\<lparr>cfg_Include := []\<rparr>) (files @ [(a, path, self)])"
        unfolding merged_from_def obs_eq_include .
      then show ?thesis using visit_file[OF a new self v] a oc by (auto simp: resolved_path_def)
    qed
  qed
qed simp

section \<open>The loaded configuration\<close>

text \<open>
  C9. Loading always ends: when the files that can be read and parsed are finitely many, a load with fuel above their
  number returns a configuration or an error, whatever the include graph (cycles and diamonds included).
\<close>

theorem Load_terminates:
  assumes "readable_in f U" and "card U < fuel"
  shows "\<exists>r. Load fuel sv f path stage = Some r"
proof -
  have fin: "finite U" using assms(1) by (simp add: readable_in_def)
  have c: "card (U - set s) < fuel" for s
    using assms(2) card_mono[OF fin, of "U - set s"] by auto
  obtain x s1 where 1: "resolveIncludes fuel f path [] [] = Some (x, s1)"
    using resolve_total[OF assms(1) c] by blast
  obtain y s2 where 2: "\<And>sp. \<exists>y s2. resolveIncludes fuel f sp [] s1 = Some (y, s2)"
    using resolve_total[OF assms(1) c] by blast
  show ?thesis
  proof (cases x)
    case (Inr base)
    show ?thesis
    proof (cases "stagePath f (path_dir path) stage")
      case sp: (Inr sp)
      obtain y s2 where "resolveIncludes fuel f sp [] s1 = Some (y, s2)" using 2 by blast
      then show ?thesis using 1 Inr sp by (cases y) (simp_all add: Load_def)
    qed (simp add: Load_def 1 Inr)
  qed (simp add: Load_def 1)
qed

lemma layered_lists:
  "cfg_Hosts (layered cs) = concat (map cfg_Hosts cs)" "cfg_Plugins (layered cs) = concat (map cfg_Plugins cs)"
  by (rule layered_concat; simp add: Merge_def zero_cfg_def)+

lemma obs_eq_lists: "obs_eq c d \<Longrightarrow> cfg_Hosts c = cfg_Hosts d \<and> cfg_Plugins c = cfg_Plugins d"
  by (simp add: obs_eq_def)

lemma loadEnvFiles_frame:
  "loadEnvFiles f c = Inr d \<Longrightarrow> \<exists>v. d = c\<lparr>cfg_EnvFileValues := v\<rparr> \<or> d = c"
  by (auto simp: loadEnvFiles_def res_apply_def split: if_splits sum.splits)

lemma finish_load_ok:
  "finish_load sv f path stage m = Inr c \<Longrightarrow> Validate sv c = None
   \<and> cfg_Stage c = stage \<and> cfg_Plugins c = cfg_Plugins m
   \<and> cfg_Hosts c = map (default_host (cfg_SSH c)) (cfg_Hosts m)"
  by (auto simp: finish_load_def ApplyDefaults_def dest!: loadEnvFiles_frame
      split: sum.splits option.splits)

text \<open>
  C3. What a load merges is the include tree of the Deployfile and then that of the stage file found for it: both are
  walked depth first, every file after its includes and these in the order listed, and a file met again, under
  the Deployfile, the stage file or both, is left out. So no file occurs twice, each was read, all that a file
  includes comes before it, a cycle being refused, and the last of each walk is its root (or the stage file is one
  of the Deployfile's includes). The configuration is the stack of these files with the defaults, the
  env files and the validation applied; in particular its hosts and plugins are theirs in that order.
\<close>

theorem Load_files_once:
  assumes "Load fuel sv f path stage = Some (Inr c)"
  shows "\<exists>sp bs ss D D' m. stagePath f (path_dir path) stage = Inr sp
      \<and> visit f {} path bs D \<and> visit f D sp ss D'
      \<and> distinct (map fst (bs @ ss)) \<and> includes_first f {} (bs @ ss)
      \<and> list_all (\<lambda>(a, p, cfg). path_abs f p = Inr a \<and> readConfig f p = Inr cfg) (bs @ ss)
      \<and> bs \<noteq> [] \<and> fst (snd (last bs)) = path
      \<and> (if ss = [] then (\<exists>a. path_abs f sp = Inr a \<and> a \<in> fst ` set bs) else fst (snd (last ss)) = sp)
      \<and> obs_eq m (layered (map (snd \<circ> snd) (bs @ ss))) \<and> finish_load sv f path stage m = Inr c
      \<and> cfg_Hosts c = map (default_host (cfg_SSH c)) (concat (map (cfg_Hosts \<circ> snd \<circ> snd) (bs @ ss)))
      \<and> cfg_Plugins c = concat (map (cfg_Plugins \<circ> snd \<circ> snd) (bs @ ss))
      \<and> cfg_Stage c = stage \<and> Validate sv c = None"
proof -
  obtain base s1 where 1: "resolveIncludes fuel f path [] [] = Some (Inr base, s1)"
    using assms by (auto simp: Load_def split: option.splits sum.splits)
  obtain sp where 2: "stagePath f (path_dir path) stage = Inr sp"
    using assms 1 by (auto simp: Load_def split: sum.splits)
  obtain st s2 where 3: "resolveIncludes fuel f sp [] s1 = Some (Inr st, s2)"
    using assms 1 2 by (auto simp: Load_def split: option.splits sum.splits)
  obtain b where b: "base = Some b" using resolve_merged[OF _ 1] by (cases base) (auto simp: resolved_path_def)
  define d where "d = (case st of Some c \<Rightarrow> c | None \<Rightarrow> zero_cfg)"
  have fin: "finish_load sv f path stage (Merge b d) = Inr c"
    using assms 1 2 3 by (simp add: Load_def b d_def)
  obtain bs where bs: "merged_from f {} [] s1 b bs" "visit f {} path bs (set s1)" "bs \<noteq> []" "fst (snd (last bs)) = path"
    using resolve_merged[OF _ 1] by (auto simp: resolved_path_def b)
  have "\<exists>ss. merged_from f {} s1 s2 d ss \<and> visit f (set s1) sp ss (set s2)
      \<and> (if ss = [] then (\<exists>a. path_abs f sp = Inr a \<and> a \<in> set s1) else fst (snd (last ss)) = sp)"
  proof (cases st)
    case None
    then show ?thesis using resolve_merged[OF _ 3] merged_none visit_done
      by (intro exI[of _ "[]"]) (auto simp: resolved_path_def d_def)
  next
    case (Some sc)
    then have "resolved_path f {} s1 sp (Some sc) s2" using resolve_merged[OF _ 3] by simp
    then obtain files a self where "merged_from f {} s1 s2 sc (files @ [(a, sp, self)])"
      "visit f (set s1) sp (files @ [(a, sp, self)]) (set s2)" by (auto simp: resolved_path_def)
    then show ?thesis by (intro exI[of _ "files @ [(a, sp, self)]"]) (simp add: d_def Some)
  qed
  then obtain ss where ss: "merged_from f {} s1 s2 d ss" "visit f (set s1) sp ss (set s2)"
    "if ss = [] then (\<exists>a. path_abs f sp = Inr a \<and> a \<in> set s1) else fst (snd (last ss)) = sp" by blast
  have m: "merged_from f {} [] s2 (Merge b d) (bs @ ss)" by (rule merged_Merge[OF bs(1) ss(1)]) simp
  have s1: "set s1 = fst ` set bs" using bs(1) by (simp add: merged_from_def)
  have l: "cfg_Hosts (Merge b d) = concat (map (cfg_Hosts \<circ> snd \<circ> snd) (bs @ ss))"
      "cfg_Plugins (Merge b d) = concat (map (cfg_Plugins \<circ> snd \<circ> snd) (bs @ ss))"
    using obs_eq_lists[of "Merge b d" "layered (map (snd \<circ> snd) (bs @ ss))"] m
    by (simp_all add: merged_from_def layered_lists comp_assoc)
  have read: "list_all (\<lambda>(a, p, cfg). path_abs f p = Inr a \<and> readConfig f p = Inr cfg) (bs @ ss)"
    using visit_read(1)[OF bs(2)] visit_read(1)[OF ss(2)] by simp
  show ?thesis
  proof (intro exI conjI)
    show "stagePath f (path_dir path) stage = Inr sp" by (rule 2)
    show "visit f {} path bs (set s1)" "visit f (set s1) sp ss (set s2)" "bs \<noteq> []" "fst (snd (last bs)) = path"
      by (fact bs(2) ss(2) bs(3,4))+
    show "distinct (map fst (bs @ ss))" "includes_first f {} (bs @ ss)"
      "obs_eq (Merge b d) (layered (map (snd \<circ> snd) (bs @ ss)))"
      using m by (simp_all add: merged_from_def)
    show "if ss = [] then (\<exists>a. path_abs f sp = Inr a \<and> a \<in> fst ` set bs) else fst (snd (last ss)) = sp"
      using ss(3) unfolding s1 .
    show "finish_load sv f path stage (Merge b d) = Inr c" by (rule fin)
    show "cfg_Hosts c = map (default_host (cfg_SSH c)) (concat (map (cfg_Hosts \<circ> snd \<circ> snd) (bs @ ss)))"
      "cfg_Plugins c = concat (map (cfg_Plugins \<circ> snd \<circ> snd) (bs @ ss))" "cfg_Stage c = stage" "Validate sv c = None"
      using finish_load_ok[OF fin] l by simp_all
  qed (rule read)
qed

section \<open>A concrete project\<close>

definition demo_cfg :: deploy_file where
  "demo_cfg = zero_cfg\<lparr>cfg_App := zero_app\<lparr>app_Name := ''shop'', app_DeployTo := ''/srv''\<rparr>,
     cfg_Hosts := [zero_host\<lparr>host_Address := ''w''\<rparr>], cfg_SSH := zero_ssh\<lparr>ssh_User := ''d''\<rparr>\<rparr>"

definition demo_files :: "string list" where
  "demo_files = [''/W'', ''/whoosh/s.yml'']"

definition demo_fs :: fs where
  "demo_fs = \<lparr>fs_stat = (\<lambda>p. IsFile),
     fs_readfile = (\<lambda>p. if p \<in> set demo_files then Inr p else Inl (Text ''gone'')),
     fs_readdir = (\<lambda>p. Inr []), fs_getwd = Inr ''/'', yaml_decode = (\<lambda>p. Inr demo_cfg),
     dotenv_read = (\<lambda>p. Inr [])\<rparr>"

definition demo_sv :: "nat semver" where
  "demo_sv = \<lparr>sv_parse = (\<lambda>s. Inr 1), sv_less = (<), sv_greater = (>), sv_show = (\<lambda>n. itoa (int n))\<rparr>"

lemmas demo_path_simps = path_abs_def is_abs_def has_prefix_def path_clean_def clean_step_def
  path_join_def

lemma demo_include: "cfg_Include demo_cfg = []" by (simp add: demo_cfg_def zero_cfg_def)

lemma demo_resolve:
  "resolveIncludes 3 demo_fs ''/W'' [] [] = Some (Inr (Some demo_cfg), [''/W''])"
  "resolveIncludes 3 demo_fs ''/whoosh/s.yml'' [] [''/W''] = Some (Inr (Some demo_cfg), demo_files)"
  by (simp_all add: demo_fs_def demo_path_simps readConfig_def demo_include demo_files_def numeral_3_eq_3)

lemma demo_stage: "stagePath demo_fs ''/'' ''s'' = Inr ''/whoosh/s.yml''"
  by (simp add: stagePath_def stage_candidates_def StageDirs_def stageExts_def stat_ok_def stat_err_def
      demo_fs_def demo_path_simps)

lemma demo_dir: "path_dir ''/W'' = ''/''" by code_simp

lemma demo_finish: "\<exists>c. finish_load demo_sv demo_fs ''/W'' ''s'' (Merge demo_cfg demo_cfg) = Inr c"
proof -
  have "Validate demo_sv (ApplyDefaults ((Merge demo_cfg demo_cfg)\<lparr>cfg_Stage := ''s'', cfg_Dir := ''/''\<rparr>)) = None"
    by code_simp
  then show ?thesis
    by (simp add: finish_load_def loadEnvFiles_def demo_dir ApplyDefaults_def Merge_def demo_cfg_def zero_cfg_def)
qed

lemma demo_load: "\<exists>c. Load 3 demo_sv demo_fs ''/W'' ''s'' = Some (Inr c)"
  using demo_finish by (simp add: Load_def demo_resolve demo_stage demo_dir)

text \<open>A Deployfile and a stage file that include the same file.\<close>

definition inc_fs :: fs where
  "inc_fs = demo_fs\<lparr>fs_readfile := (\<lambda>p. if p \<in> set (''/inc.yml'' # demo_files) then Inr p else Inl (Text ''gone'')),
     yaml_decode := (\<lambda>p. Inr (if p = ''/inc.yml'' then zero_cfg\<lparr>cfg_Hosts := [zero_host\<lparr>host_Address := ''i''\<rparr>]\<rparr>
       else if p = ''/W'' then demo_cfg\<lparr>cfg_Include := [''inc.yml'']\<rparr>
       else zero_cfg\<lparr>cfg_Include := [''../inc.yml''], cfg_Hosts := [zero_host\<lparr>host_Address := ''s''\<rparr>]\<rparr>))\<rparr>"

lemma inc_load: "case Load 4 demo_sv inc_fs ''/W'' ''s'' of Some (Inr c) \<Rightarrow> map host_Address (cfg_Hosts c) = [''i'', ''w'', ''s''] | _ \<Rightarrow> False"
  by code_simp

lemma Load_files_once_witness:
  "\<exists>c bs ss. Load 4 demo_sv inc_fs ''/W'' ''s'' = Some (Inr c) \<and> distinct (map fst (bs @ ss)) \<and> includes_first inc_fs {} (bs @ ss)
     \<and> map host_Address (map (default_host (cfg_SSH c)) (concat (map (cfg_Hosts \<circ> snd \<circ> snd) (bs @ ss)))) = [''i'', ''w'', ''s'']"
proof -
  obtain c where c: "Load 4 demo_sv inc_fs ''/W'' ''s'' = Some (Inr c)" "map host_Address (cfg_Hosts c) = [''i'', ''w'', ''s'']"
    using inc_load by (auto split: option.splits sum.splits)
  obtain bs ss where "distinct (map fst (bs @ ss))" "includes_first inc_fs {} (bs @ ss)"
    and h: "cfg_Hosts c = map (default_host (cfg_SSH c)) (concat (map (cfg_Hosts \<circ> snd \<circ> snd) (bs @ ss)))"
    using Load_files_once[OF c(1)] by blast
  then show ?thesis using c(1) c(2)[unfolded h] by (intro exI[of _ c] exI[of _ bs] exI[of _ ss] conjI)
qed

lemma Load_terminates_witness: "\<exists>r. Load 3 demo_sv demo_fs ''/W'' ''s'' = Some r"
proof -
  have "readable_in demo_fs (set demo_files)"
    by (auto simp: readable_in_def readConfig_def demo_fs_def demo_files_def demo_path_simps split: if_splits)
  moreover have "card (set demo_files) < 3" by (simp add: demo_files_def)
  ultimately show ?thesis using Load_terminates by blast
qed

end
