(* ===== verification/Varstmpl.thy ===== *)
theory Varstmpl
  imports Ast_Model Errors
begin

text \<open>
  Template rendering (\<open>internal/varstmpl/varstmpl.go\<close>): the context a command is rendered against,
  the map of names it exposes, the environment lookup, and the deep rendering of parameter maps.

  Parsing and executing a template are the work of \<open>text/template\<close> and the sprig helpers: the record
  \<open>'t engine\<close> holds them as functions. Executing a template may mark values as secret
  (\<open>sensitive\<close>, \<open>envSecret\<close>); the engine returns them and every render carries them along, in order,
  for the masking registry.
\<close>

record tctx =
  tc_Vars :: "yval smap"
  tc_AppName :: string
  tc_Repo :: string
  tc_Branch :: string
  tc_Stage :: string
  tc_DeployTo :: string
  tc_ReleasesPath :: string
  tc_SharedPath :: string
  tc_RepoPath :: string
  tc_CurrentPath :: string
  tc_ReleasePath :: string
  tc_ReleaseTimestamp :: string
  tc_CommitHash :: string
  tc_PreviousCommitHash :: string
  tc_Changelog :: string
  tc_KeepReleases :: int
  tc_Deployer :: string
  tc_Host :: string
  tc_Roles :: "string list"
  tc_Phase :: string
  tc_DeployError :: string
  tc_Tasks :: "yval smap"
  tc_Config :: yval
  tc_Imports :: "string smap smap"
  tc_EnvFileValues :: "string smap"
  tc_GlobalEnvValues :: "string smap"

record 't engine =
  eng_parse :: "string \<Rightarrow> goerr + 't"
  eng_exec :: "'t \<Rightarrow> bool \<Rightarrow> (string \<Rightarrow> string) \<Rightarrow> yval smap \<Rightarrow> string res \<times> string list"
  eng_env :: "string \<Rightarrow> string option"

definition lookupEnv :: "(string \<Rightarrow> string option) \<Rightarrow> tctx \<Rightarrow> string \<Rightarrow> string" where
  "lookupEnv env c name = (case env name of Some v \<Rightarrow> v
     | None \<Rightarrow> (case m_get (tc_GlobalEnvValues c) name of Some v \<Rightarrow> v
        | None \<Rightarrow> (case m_get (tc_EnvFileValues c) name of Some v \<Rightarrow> v | None \<Rightarrow> [])))"

definition well_known :: "tctx \<Rightarrow> yval smap" where
  "well_known c =
    [(''config'', tc_Config c), (''app_name'', YStr (tc_AppName c)), (''repo'', YStr (tc_Repo c)),
     (''branch'', YStr (tc_Branch c)), (''stage'', YStr (tc_Stage c)),
     (''deploy_to'', YStr (tc_DeployTo c)), (''releases_path'', YStr (tc_ReleasesPath c)),
     (''shared_path'', YStr (tc_SharedPath c)), (''repo_path'', YStr (tc_RepoPath c)),
     (''current_path'', YStr (tc_CurrentPath c)), (''release_path'', YStr (tc_ReleasePath c)),
     (''release_timestamp'', YStr (tc_ReleaseTimestamp c)), (''commit_hash'', YStr (tc_CommitHash c)),
     (''previous_commit_hash'', YStr (tc_PreviousCommitHash c)), (''changelog'', YStr (tc_Changelog c)),
     (''keep_releases'', YInt (tc_KeepReleases c)), (''deployer'', YStr (tc_Deployer c)),
     (''host'', YStr (tc_Host c)), (''roles'', YList (map YStr (tc_Roles c))),
     (''phase'', YStr (tc_Phase c)), (''error'', YStr (tc_DeployError c)), (''tasks'', YMap (tc_Tasks c))]"

definition import_values :: "tctx \<Rightarrow> yval smap" where
  "import_values c = map (\<lambda>(ns, kv). (ns, YMap (map (\<lambda>(k, v). (k, YStr v)) kv))) (tc_Imports c)"

definition put_all :: "yval smap \<Rightarrow> yval smap \<Rightarrow> yval smap" where
  "put_all kvs m = fold (\<lambda>(k, v) m. m_put k v m) kvs m"

definition Data :: "tctx \<Rightarrow> yval smap" where
  "Data c = put_all (import_values c) (put_all (well_known c) (m_copy [] (tc_Vars c)))"

definition RenderWith :: "'t engine \<Rightarrow> string \<Rightarrow> tctx \<Rightarrow> bool \<Rightarrow> string res \<times> string list" where
  "RenderWith en text c strict = (case eng_parse en text of
      Inl err \<Rightarrow> (Inl (wrapf (''parse template '' @ quoted text) err), [])
    | Inr t \<Rightarrow> (case eng_exec en t strict (lookupEnv (eng_env en) c) (Data c) of
        (Inl err, secs) \<Rightarrow> (Inl (wrapf (''render template '' @ quoted text) (root_cause err)), secs)
      | (Inr s, secs) \<Rightarrow> (Inr s, secs)))"

definition Render :: "'t engine \<Rightarrow> string \<Rightarrow> tctx \<Rightarrow> string res \<times> string list" where
  "Render en text c = RenderWith en text c True"

text \<open>The deep rendering stops at the first error; a map adds its key to the error.\<close>

fun renderParamValue :: "'t engine \<Rightarrow> tctx \<Rightarrow> bool \<Rightarrow> yval \<Rightarrow> yval res \<times> string list"
  and render_entries :: "'t engine \<Rightarrow> tctx \<Rightarrow> bool \<Rightarrow> (string \<times> yval) list \<Rightarrow> (string \<times> yval) list res \<times> string list"
  and render_elems :: "'t engine \<Rightarrow> tctx \<Rightarrow> bool \<Rightarrow> yval list \<Rightarrow> yval list res \<times> string list" where
  "renderParamValue en c strict (YStr s) = (case RenderWith en s c strict of
      (Inl e, secs) \<Rightarrow> (Inl e, secs) | (Inr r, secs) \<Rightarrow> (Inr (YStr r), secs))"
| "renderParamValue en c strict (YMap m) = (case render_entries en c strict m of
      (Inl e, secs) \<Rightarrow> (Inl e, secs) | (Inr m', secs) \<Rightarrow> (Inr (YMap m'), secs))"
| "renderParamValue en c strict (YList l) = (case render_elems en c strict l of
      (Inl e, secs) \<Rightarrow> (Inl e, secs) | (Inr l', secs) \<Rightarrow> (Inr (YList l'), secs))"
| "renderParamValue en c strict YNull = (Inr YNull, [])"
| "renderParamValue en c strict (YBool b) = (Inr (YBool b), [])"
| "renderParamValue en c strict (YInt i) = (Inr (YInt i), [])"
| "renderParamValue en c strict (YOther s) = (Inr (YOther s), [])"
| "render_entries en c strict [] = (Inr [], [])"
| "render_entries en c strict ((k, v) # kvs) = (case renderParamValue en c strict v of
      (Inl e, secs) \<Rightarrow> (Inl (wrapf k e), secs)
    | (Inr v', secs) \<Rightarrow> (case render_entries en c strict kvs of
          (Inl e, secs') \<Rightarrow> (Inl e, secs @ secs') | (Inr kvs', secs') \<Rightarrow> (Inr ((k, v') # kvs'), secs @ secs')))"
| "render_elems en c strict [] = (Inr [], [])"
| "render_elems en c strict (v # vs) = (case renderParamValue en c strict v of
      (Inl e, secs) \<Rightarrow> (Inl e, secs)
    | (Inr v', secs) \<Rightarrow> (case render_elems en c strict vs of
          (Inl e, secs') \<Rightarrow> (Inl e, secs @ secs') | (Inr vs', secs') \<Rightarrow> (Inr (v' # vs'), secs @ secs')))"

definition RenderParams :: "'t engine \<Rightarrow> yval smap \<Rightarrow> tctx \<Rightarrow> bool \<Rightarrow> yval smap res \<times> string list" where
  "RenderParams en params c strict = render_entries en c strict params"

section \<open>Which value a name has\<close>

lemma m_get_put_all: "m_get (put_all kvs m) = m_get m ++ map_of (rev kvs)"
proof (induction kvs arbitrary: m)
  case Nil
  then show ?case by (simp add: put_all_def)
next
  case (Cons kv kvs)
  obtain k v where kv: "kv = (k, v)" by (cases kv)
  show ?case using Cons[of "m_put k v m"]
    by (simp add: put_all_def kv map_add_assoc[symmetric] map_add_upd_left dom_map_of_conv_image_fst)
       (simp add: map_add_def fun_eq_iff split: option.splits)
qed

lemma rev_distinct: "distinct (map fst kvs) \<Longrightarrow> map_of (rev kvs) = map_of kvs"
proof -
  assume d: "distinct (map fst kvs)"
  then have "map_of (rev kvs) k = Some v \<longleftrightarrow> map_of kvs k = Some v" for k v
    using map_of_eq_Some_iff[OF d] map_of_eq_Some_iff[of "rev kvs" k v] by (simp flip: rev_map)
  then have "map_of (rev kvs) k = map_of kvs k" for k by (metis not_Some_eq)
  then show ?thesis by blast
qed

lemma well_known_distinct: "distinct (map fst (well_known c))" by (simp add: well_known_def)

lemma import_keys: "map fst (import_values c) = map fst (tc_Imports c)"
  by (simp add: import_values_def case_prod_beta o_def)

text \<open>
  A template name means, in this order: the values a plugin imported under it, the deployment's
  own value, the user's variable. So a user variable can never replace a well-known key, but an
  import namespace of the same name does.
\<close>

theorem Data_precedence:
  assumes "wf_map (tc_Imports c)"
  shows "m_get (Data c) k = (case m_get (import_values c) k of Some v \<Rightarrow> Some v
     | None \<Rightarrow> (case m_get (well_known c) k of Some v \<Rightarrow> Some v | None \<Rightarrow> m_get (tc_Vars c) k))"
proof -
  have "distinct (map fst (import_values c))" using assms by (simp add: import_keys wf_map_def)
  then have "m_get (Data c) = (m_get (tc_Vars c) ++ m_get (well_known c)) ++ m_get (import_values c)"
    by (simp add: Data_def m_get_put_all rev_distinct well_known_distinct)
  then show ?thesis by (simp add: map_add_def split: option.split)
qed

section \<open>What rendering parameters does\<close>

text \<open>The strings of a value, at any depth, and the value with each of them replaced.\<close>

inductive leaf_of :: "string \<Rightarrow> yval \<Rightarrow> bool" where
  leaf_str: "leaf_of s (YStr s)"
| leaf_map: "(k, v) \<in> set m \<Longrightarrow> leaf_of s v \<Longrightarrow> leaf_of s (YMap m)"
| leaf_list: "v \<in> set l \<Longrightarrow> leaf_of s v \<Longrightarrow> leaf_of s (YList l)"

inductive_simps leaf_simps [simp]: "leaf_of s YNull" "leaf_of s (YBool b)" "leaf_of s (YInt i)" "leaf_of s (YOther t)"
  "leaf_of s (YStr t)"

inductive_simps leaf_of_map: "leaf_of s (YMap m)"

inductive_simps leaf_of_list: "leaf_of s (YList l)"

lemma leaf_Nil [simp]: "\<not> leaf_of s (YMap [])" "\<not> leaf_of s (YList [])"
  by (simp_all add: leaf_of_map leaf_of_list)

lemma leaf_Cons [simp]:
  "leaf_of s (YMap ((k, v) # m)) \<longleftrightarrow> leaf_of s v \<or> leaf_of s (YMap m)"
  "leaf_of s (YList (v # l)) \<longleftrightarrow> leaf_of s v \<or> leaf_of s (YList l)"
  by (auto simp: leaf_of_map leaf_of_list)

fun map_text :: "(string \<Rightarrow> string) \<Rightarrow> yval \<Rightarrow> yval" where
  "map_text f (YStr s) = YStr (f s)"
| "map_text f (YMap m) = YMap (map (\<lambda>(k, v). (k, map_text f v)) m)"
| "map_text f (YList l) = YList (map (map_text f) l)"
| "map_text f YNull = YNull"
| "map_text f (YBool b) = YBool b"
| "map_text f (YInt i) = YInt i"
| "map_text f (YOther s) = YOther s"

text \<open>
  A result that stands for the rendering of the strings \<open>L\<close>: either all of them rendered and the secrets
  they used were noted, or one failed, its secrets noted, and the error is its own under the keys on the way.
\<close>

definition render_result :: "(string \<Rightarrow> string res \<times> string list) \<Rightarrow> (string \<Rightarrow> bool) \<Rightarrow> 'a \<Rightarrow> 'a res \<times> string list \<Rightarrow> bool" where
  "render_result f L out r \<longleftrightarrow> (case r of
     (Inr v, secs) \<Rightarrow> v = out \<and> (\<forall>s. L s \<longrightarrow> (\<exists>t. fst (f s) = Inr t)) \<and> set secs = (\<Union>s\<in>Collect L. set (snd (f s)))
   | (Inl err, secs) \<Rightarrow> \<exists>s e keys. L s \<and> fst (f s) = Inl e \<and> err = foldr wrapf keys e \<and> set (snd (f s)) \<subseteq> set secs)"

lemma render_result_none [simp]: "render_result f (\<lambda>s. False) out (Inr v, []) \<longleftrightarrow> v = out"
  by (simp add: render_result_def)

lemma render_result_one: "render_result f ((=) s) (projr (fst (f s))) (f s)"
  by (cases "f s"; cases "fst (f s)") (auto simp: render_result_def intro: exI[of _ "[]"])

lemma render_result_map:
  "render_result f L out (r, secs) \<Longrightarrow> render_result f L (g out) (case r of Inl e \<Rightarrow> (Inl e, secs) | Inr v \<Rightarrow> (Inr (g v), secs))"
  by (auto simp: render_result_def split: sum.splits)

lemma render_result_then:
  assumes "render_result f L v (r, secs)" "\<And>v'. r = Inr v' \<Longrightarrow> render_result f M w (r', secs')"
  shows "render_result f (\<lambda>s. L s \<or> M s) (g v w) (case r of Inl e \<Rightarrow> (Inl (foldr wrapf keys e), secs)
    | Inr v \<Rightarrow> (case r' of Inl e \<Rightarrow> (Inl e, secs @ secs') | Inr w \<Rightarrow> (Inr (g v w), secs @ secs')))"
proof (cases r)
  case (Inl e)
  then obtain s e' ks where s: "L s" "fst (f s) = Inl e'" "e = foldr wrapf ks e'" "set (snd (f s)) \<subseteq> set secs"
    using assms(1) by (auto simp: render_result_def)
  have "foldr wrapf keys e = foldr wrapf (keys @ ks) e'" using s(3) by simp
  then have "\<exists>ks'. foldr wrapf keys e = foldr wrapf ks' e'" by blast
  then show ?thesis using Inl s(1,2,4) by (simp add: render_result_def) blast
next
  case (Inr v')
  show ?thesis
  proof (cases r')
    case (Inl e)
    then show ?thesis using Inr assms(2)[OF Inr] by (fastforce simp: render_result_def)
  next
    case (Inr w')
    have "Collect (\<lambda>s. L s \<or> M s) = Collect L \<union> Collect M" by blast
    then show ?thesis using assms(1) assms(2)[OF \<open>r = Inr v'\<close>] Inr \<open>r = Inr v'\<close> by (auto simp: render_result_def)
  qed
qed

lemma render_leaves:
  defines "f \<equiv> \<lambda>(en :: 't engine) c strict s. RenderWith en s c strict"
  defines "t \<equiv> \<lambda>(en :: 't engine) c strict. map_text (\<lambda>s. projr (fst (RenderWith en s c strict)))"
  shows "render_result (f en c strict) (\<lambda>s. leaf_of s v) (t en c strict v) (renderParamValue en c strict v)"
    and "render_result (f en c strict) (\<lambda>s. leaf_of s (YMap m)) (map (\<lambda>(k, v). (k, t en c strict v)) m) (render_entries en c strict m)"
    and "render_result (f en c strict) (\<lambda>s. leaf_of s (YList l)) (map (t en c strict) l) (render_elems en c strict l)"
proof (induction en c strict v and en c strict m and en c strict l
      rule: renderParamValue_render_entries_render_elems.induct)
  case (1 en c strict t)
  have "render_result (f en c strict) (\<lambda>s. leaf_of s (YStr t)) (projr (fst (f en c strict t))) (RenderWith en t c strict)"
    using render_result_one[of "f en c strict" t] by (simp add: f_def)
  then show ?case
    by (cases "RenderWith en t c strict") (auto simp: t_def f_def dest: render_result_map[where g = YStr] split: sum.splits)
next
  case (2 en c strict m)
  then show ?case
    by (cases "render_entries en c strict m") (auto simp: t_def dest: render_result_map[where g = YMap] split: sum.splits)
next
  case (3 en c strict l)
  then show ?case
    by (cases "render_elems en c strict l") (auto simp: t_def dest: render_result_map[where g = YList] split: sum.splits)
next
  case (9 en c strict k v kvs)
  obtain r secs where v: "renderParamValue en c strict v = (r, secs)" by fastforce
  obtain r' secs' where kvs: "render_entries en c strict kvs = (r', secs')" by fastforce
  have hd: "render_result (f en c strict) (\<lambda>s. leaf_of s v) (t en c strict v) (r, secs)" using 9(1) v by simp
  have tl: "render_result (f en c strict) (\<lambda>s. leaf_of s (YMap kvs)) (map (\<lambda>(k, v). (k, t en c strict v)) kvs) (r', secs')"
    if "r = Inr v'" for v' using 9(2)[OF v[symmetric] that] kvs by simp
  show ?case using render_result_then[OF hd tl, where g = "\<lambda>v m. (k, v) # m" and keys = "[k]"] v kvs by (simp cong: sum.case_cong)
next
  case (11 en c strict v vs)
  obtain r secs where v: "renderParamValue en c strict v = (r, secs)" by fastforce
  obtain r' secs' where vs: "render_elems en c strict vs = (r', secs')" by fastforce
  have hd: "render_result (f en c strict) (\<lambda>s. leaf_of s v) (t en c strict v) (r, secs)" using 11(1) v by simp
  have tl: "render_result (f en c strict) (\<lambda>s. leaf_of s (YList vs)) (map (t en c strict) vs) (r', secs')"
    if "r = Inr v'" for v' using 11(2)[OF v[symmetric] that] vs by simp
  show ?case using render_result_then[OF hd tl, where g = "(#)" and keys = "[]"] v vs by (simp cong: sum.case_cong)
qed (simp_all add: t_def)

text \<open>
  C35. Rendering the parameters of an action succeeds exactly when every string in them renders, at any depth, and
  then the result is the parameters with each string replaced by its own rendering, the keys, the order, the
  nesting and every other value untouched, and the secrets noted are those the strings used. Otherwise the
  error is that of a string that does not render, under the keys on the way to it, and its secrets are noted.
\<close>

theorem RenderParams_text:
  "case RenderParams en params c strict of
     (Inr out, secs) \<Rightarrow> (\<forall>s. leaf_of s (YMap params) \<longrightarrow> (\<exists>t. fst (RenderWith en s c strict) = Inr t))
       \<and> out = map (\<lambda>(k, v). (k, map_text (\<lambda>s. projr (fst (RenderWith en s c strict))) v)) params
       \<and> set secs = (\<Union>s \<in> {s. leaf_of s (YMap params)}. set (snd (RenderWith en s c strict)))
   | (Inl err, secs) \<Rightarrow> \<exists>s e keys. leaf_of s (YMap params) \<and> fst (RenderWith en s c strict) = Inl e
       \<and> err = foldr wrapf keys e \<and> set (snd (RenderWith en s c strict)) \<subseteq> set secs"
  using render_leaves(2)[where en = en and c = c and strict = strict and m = params] unfolding RenderParams_def render_result_def
  by (auto split: prod.splits sum.splits)

section \<open>A concrete engine\<close>

definition zero_tctx :: tctx where
  "zero_tctx = \<lparr>tc_Vars = [], tc_AppName = [], tc_Repo = [], tc_Branch = [], tc_Stage = [],
     tc_DeployTo = [], tc_ReleasesPath = [], tc_SharedPath = [], tc_RepoPath = [], tc_CurrentPath = [],
     tc_ReleasePath = [], tc_ReleaseTimestamp = [], tc_CommitHash = [], tc_PreviousCommitHash = [],
     tc_Changelog = [], tc_KeepReleases = 0, tc_Deployer = [], tc_Host = [], tc_Roles = [],
     tc_Phase = [], tc_DeployError = [], tc_Tasks = [], tc_Config = YNull, tc_Imports = [],
     tc_EnvFileValues = [], tc_GlobalEnvValues = []\<rparr>"

text \<open>An engine whose templates are literal text.\<close>

definition text_engine :: "string engine" where
  "text_engine = \<lparr>eng_parse = Inr, eng_exec = (\<lambda>t strict env data. (Inr t, [])), eng_env = (\<lambda>n. None)\<rparr>"

lemma Data_precedence_witness:
  "m_get (Data (zero_tctx\<lparr>tc_Vars := [(''stage'', YStr ''mine''), (''x'', YInt 1)], tc_Stage := ''prod''\<rparr>)) ''stage''
     = Some (YStr ''prod'')"
  by (subst Data_precedence) (simp_all add: zero_tctx_def well_known_def import_values_def)

text \<open>An engine that writes its text backwards and notes it as a secret.\<close>

definition rev_engine :: "string engine" where
  "rev_engine = text_engine\<lparr>eng_exec := (\<lambda>t strict env data. if t = ''bad'' then (Inl (Text ''no''), []) else (Inr (rev t), [t]))\<rparr>"

lemma RenderParams_text_witness:
  "\<exists>secs. RenderParams rev_engine [(''a'', YList [YStr ''xy'', YMap [(''b'', YStr ''uv'')], YInt 3])] zero_tctx True
      = (Inr [(''a'', YList [YStr ''yx'', YMap [(''b'', YStr ''vu'')], YInt 3])], secs) \<and> set secs = {''xy'', ''uv''}
    \<and> (\<exists>err. fst (RenderParams rev_engine [(''a'', YList [YStr ''bad''])] zero_tctx True) = Inl err)"
proof -
  let ?ps = "[(''a'', YList [YStr ''xy'', YMap [(''b'', YStr ''uv'')], YInt 3])]"
  have r: "RenderWith rev_engine s c b = (if s = ''bad'' then (Inl (wrapf (''render template '' @ quoted ''bad'') (root_cause (Text ''no''))), [])
      else (Inr (rev s), [s]))" for s c b
    by (simp add: RenderWith_def rev_engine_def text_engine_def)
  then have ok: "fst (RenderWith rev_engine s c b) = Inr (rev s)" "snd (RenderWith rev_engine s c b) = [s]" if "s \<noteq> ''bad''" for s c b
    using that by simp_all
  obtain o1 secs where 1: "RenderParams rev_engine ?ps zero_tctx True = (o1, secs)" by fastforce
  obtain o2 secs2 where 2: "RenderParams rev_engine [(''a'', YList [YStr ''bad''])] zero_tctx True = (o2, secs2)" by fastforce
  have l: "leaf_of s (YMap ?ps) \<Longrightarrow> s \<noteq> ''bad''" "{s. leaf_of s (YMap ?ps)} = {''xy'', ''uv''}"
    "leaf_of ''bad'' (YMap [(''a'', YList [YStr ''bad''])])" for s by auto
  note T1 = RenderParams_text[where en = rev_engine and params = ?ps and c = zero_tctx and strict = True, unfolded 1 l(2) prod.case]
  note T2 = RenderParams_text[where en = rev_engine and params = "[(''a'', YList [YStr ''bad''])]" and c = zero_tctx
      and strict = True, unfolded 2 prod.case]
  have "o1 = Inr [(''a'', YList [YStr ''yx'', YMap [(''b'', YStr ''vu'')], YInt 3])] \<and> set secs = {''xy'', ''uv''}"
  proof (cases o1)
    case (Inl err)
    then obtain s e where "leaf_of s (YMap ?ps)" "fst (RenderWith rev_engine s zero_tctx True) = Inl e" using T1 by auto
    then show ?thesis using ok(1)[OF l(1)] by simp
  next
    case (Inr out)
    then show ?thesis using T1 by (simp add: ok insert_commute)
  qed
  moreover have "\<exists>err. o2 = Inl err"
  proof (cases o2)
    case (Inr out)
    then have "\<exists>t. fst (RenderWith rev_engine ''bad'' zero_tctx True) = Inr t" using T2 l(3) by simp
    then show ?thesis by (simp add: r)
  qed blast
  ultimately show ?thesis using 1 2 by auto
qed

end
