(* ===== verification/Plugins.thy ===== *)
theory Plugins
  imports Ast_Model Errors
begin

text \<open>
  The plugin framework (\<open>internal/plugins\<close>): the table of compiled-in plugins, the registry their
  configuration fills, and the running of startup hooks.

  A plugin is what its interfaces return: the effect of \<open>Configure\<close> on the registry, its version and
  its commands. An action is a program over the services the executor hands it: \<open>Print\<close> writes to the
  command stream, \<open>WriteFile\<close>, \<open>RunCommand\<close> and \<open>CaptureCommand\<close> are the three host interfaces,
  \<open>World\<close> is any operator-side effect (a cloud call) whose answer the rest of the action depends on,
  \<open>Secret\<close> registers a value with the masker, \<open>Mask\<close> asks for the masking of that moment, and \<open>Ret\<close> is the result. \<open>Configure\<close> and a startup hook may
  use the outside too; they return the values they registered.
\<close>

datatype 'w prog =
    Ret "goerr option"
  | Print string "'w prog"
  | WriteFile string string "goerr option \<Rightarrow> 'w prog"
  | RunCommand string "goerr option \<Rightarrow> 'w prog"
  | CaptureCommand string "goerr + string \<Rightarrow> 'w prog"
  | Secret string "'w prog"
  | Mask "(string \<Rightarrow> string) \<Rightarrow> 'w prog"
  | World "'w \<Rightarrow> 'w prog \<times> 'w"

type_synonym 'w action = "yval smap \<Rightarrow> 'w prog"
type_synonym 'w startup = "deploy_file \<Rightarrow> 'w \<Rightarrow> goerr option \<times> deploy_file \<times> string list \<times> 'w"

record 'w plugin_registry =
  rg_actions :: "'w action smap"
  rg_startups :: "'w startup list"

record 'w plugin_command =
  pc_Name :: string
  pc_Short :: string
  pc_Run :: "deploy_file \<Rightarrow> 'w plugin_registry \<Rightarrow> string list \<Rightarrow> 'w \<Rightarrow> goerr option \<times> 'w"

text \<open>The optional interfaces are \<open>None\<close> where a plugin does not implement them.\<close>

record 'w plugin =
  pl_Configure :: "plugin_spec \<Rightarrow> 'w plugin_registry \<Rightarrow> 'w \<Rightarrow> goerr option \<times> 'w plugin_registry \<times> string list \<times> 'w"
  pl_Version :: "string option"
  pl_Commands :: "'w plugin_command list option"

section \<open>The table of plugins\<close>

record 'w plugin_table =
  pt_factories :: "'w plugin smap"
  pt_defaults :: "string list"

text \<open>\<open>None\<close> is the panic on a duplicate name.\<close>

definition Register :: "string \<Rightarrow> 'w plugin \<Rightarrow> 'w plugin_table \<Rightarrow> 'w plugin_table option" where
  "Register name f tbl = (if m_has (pt_factories tbl) name then None
     else Some (tbl\<lparr>pt_factories := m_put name f (pt_factories tbl)\<rparr>))"

definition RegisterDefault :: "string \<Rightarrow> 'w plugin \<Rightarrow> 'w plugin_table \<Rightarrow> 'w plugin_table option" where
  "RegisterDefault name f tbl = (case Register name f tbl of None \<Rightarrow> None
     | Some tbl' \<Rightarrow> Some (tbl'\<lparr>pt_defaults := pt_defaults tbl' @ [name]\<rparr>))"

definition DefaultSpecs :: "'w plugin_table \<Rightarrow> plugin_spec list \<Rightarrow> plugin_spec list" where
  "DefaultSpecs tbl listed = fold (\<lambda>name out.
     if name \<in> ps_Name ` set listed then out else out @ [zero_plugin\<lparr>ps_Name := name\<rparr>])
     (pt_defaults tbl) listed"

definition IsRegistered :: "'w plugin_table \<Rightarrow> string \<Rightarrow> bool" where
  "IsRegistered tbl name \<longleftrightarrow> m_has (pt_factories tbl) name"

definition Registered :: "'w plugin_table \<Rightarrow> string list" where
  "Registered tbl = sorted_keys (pt_factories tbl)"

definition plugin_version :: "'w plugin \<Rightarrow> string" where
  "plugin_version f = (case pl_Version f of Some v \<Rightarrow> v | None \<Rightarrow> [])"

definition RegisteredInfo :: "'w plugin_table \<Rightarrow> (string \<times> string) list" where
  "RegisteredInfo tbl = sort_key fst (map (\<lambda>(name, f). (name, plugin_version f)) (pt_factories tbl))"

section \<open>The registry\<close>

definition newRegistry :: "'w plugin_registry" where
  "newRegistry = \<lparr>rg_actions = [], rg_startups = []\<rparr>"

definition AddAction :: "string \<Rightarrow> 'w action \<Rightarrow> 'w plugin_registry \<Rightarrow> goerr option \<times> 'w plugin_registry" where
  "AddAction name fn r = (if m_has (rg_actions r) name
     then (Some (Text (''action '' @ quoted name @ '' already registered'')), r)
     else (None, r\<lparr>rg_actions := m_put name fn (rg_actions r)\<rparr>))"

definition AddStartup :: "'w startup \<Rightarrow> 'w plugin_registry \<Rightarrow> 'w plugin_registry" where
  "AddStartup fn r = r\<lparr>rg_startups := rg_startups r @ [fn]\<rparr>"

definition Action :: "'w plugin_registry \<Rightarrow> string \<Rightarrow> 'w action option" where
  "Action r name = m_get (rg_actions r) name"

text \<open>An error without a code of its own becomes a plugin error.\<close>

definition plugin_code :: "string \<Rightarrow> goerr \<Rightarrow> goerr" where
  "plugin_code msg err = (if as_coded err \<noteq> None then err else PluginError msg (Some err))"

fun run_startups :: "'w startup list \<Rightarrow> deploy_file \<Rightarrow> 'w \<Rightarrow> goerr option \<times> deploy_file \<times> string list \<times> 'w" where
  "run_startups [] cfg w = (None, cfg, [], w)"
| "run_startups (fn # fns) cfg w = (case fn cfg w of
      (Some err, cfg', secs, w') \<Rightarrow> (Some (plugin_code ''startup hook'' err), cfg', secs, w')
    | (None, cfg', secs, w') \<Rightarrow> (case run_startups fns cfg' w' of
          (r, cfg'', secs', w'') \<Rightarrow> (r, cfg'', secs @ secs', w'')))"

definition RunStartup :: "'w plugin_registry \<Rightarrow> deploy_file \<Rightarrow> 'w \<Rightarrow> goerr option \<times> deploy_file \<times> string list \<times> 'w" where
  "RunStartup r = run_startups (rg_startups r)"

fun load_specs :: "'w plugin_table \<Rightarrow> plugin_spec list \<Rightarrow> 'w plugin_registry \<Rightarrow> 'w
    \<Rightarrow> 'w plugin_registry res \<times> string list \<times> 'w" where
  "load_specs tbl [] reg w = (Inr reg, [], w)"
| "load_specs tbl (spec # specs) reg w = (case m_get (pt_factories tbl) (ps_Name spec) of
      None \<Rightarrow> (Inl (ConfigError (''unknown plugin '' @ quoted (ps_Name spec) @ '' (not built into this binary)'') None), [], w)
    | Some f \<Rightarrow> (case pl_Configure f spec reg w of
          (Some err, reg', secs, w') \<Rightarrow> (Inl (PluginError (''plugin '' @ quoted (ps_Name spec)) (Some err)), secs, w')
        | (None, reg', secs, w') \<Rightarrow> (case load_specs tbl specs reg' w' of (r, secs', w'') \<Rightarrow> (r, secs @ secs', w''))))"

definition Load_plugins :: "'w plugin_table \<Rightarrow> plugin_spec list \<Rightarrow> 'w \<Rightarrow> 'w plugin_registry res \<times> string list \<times> 'w" where
  "Load_plugins tbl specs w = load_specs tbl specs newRegistry w"

definition plugin_commands :: "'w plugin_table \<Rightarrow> plugin_spec list \<Rightarrow> 'w plugin_command list" where
  "plugin_commands tbl specs = fold (\<lambda>spec out. case m_get (pt_factories tbl) (ps_Name spec) of
      None \<Rightarrow> out
    | Some f \<Rightarrow> (case pl_Commands f of Some cs \<Rightarrow> out @ cs | None \<Rightarrow> out)) specs []"

section \<open>Registration\<close>

text \<open>The names a plugin's configuration may take: never one that is taken, never a second time.\<close>

definition registry_wf :: "'w plugin_registry \<Rightarrow> bool" where
  "registry_wf r \<longleftrightarrow> wf_map (rg_actions r)"

lemma AddAction_spec:
  "fst (AddAction name fn r) = None \<longleftrightarrow> Action r name = None"
  "fst (AddAction name fn r) = None \<Longrightarrow> Action (snd (AddAction name fn r)) k = (if k = name then Some fn else Action r k)"
  "fst (AddAction name fn r) \<noteq> None \<Longrightarrow> snd (AddAction name fn r) = r"
  "registry_wf r \<Longrightarrow> registry_wf (snd (AddAction name fn r))"
  by (auto simp: AddAction_def Action_def registry_wf_def)

lemma filter_fold_snoc: "fold (\<lambda>x out. if P x then out else out @ [f x]) xs ys = ys @ map f (filter (\<lambda>x. \<not> P x) xs)"
  by (induction xs arbitrary: ys) auto

text \<open>
  The plugins that load are the listed ones, in their order, followed by the always-on plugins the
  Deployfile does not name, each as a bare spec; a listed spec always wins, and listing nothing new
  adds nothing: the completion is idempotent.
\<close>

theorem DefaultSpecs_spec:
  "DefaultSpecs tbl listed = listed @ map (\<lambda>n. zero_plugin\<lparr>ps_Name := n\<rparr>)
       (filter (\<lambda>n. n \<notin> ps_Name ` set listed) (pt_defaults tbl))
   \<and> ps_Name ` set (DefaultSpecs tbl listed) = ps_Name ` set listed \<union> set (pt_defaults tbl)
   \<and> DefaultSpecs tbl (DefaultSpecs tbl listed) = DefaultSpecs tbl listed"
proof -
  have d: "DefaultSpecs tbl listed = listed @ map (\<lambda>n. zero_plugin\<lparr>ps_Name := n\<rparr>)
       (filter (\<lambda>n. n \<notin> ps_Name ` set listed) (pt_defaults tbl))" for listed
    by (simp add: DefaultSpecs_def filter_fold_snoc)
  have n: "ps_Name ` set (DefaultSpecs tbl listed) = ps_Name ` set listed \<union> set (pt_defaults tbl)"
  proof -
    have "ps_Name ` (\<lambda>n. zero_plugin\<lparr>ps_Name := n\<rparr>) ` A = A" for A by (simp add: image_image)
    then show ?thesis by (auto simp: d image_Un simp del: image_image)
  qed
  then have "filter (\<lambda>n. n \<notin> ps_Name ` set (DefaultSpecs tbl listed)) (pt_defaults tbl) = []"
    by (auto simp: filter_empty_conv)
  then show ?thesis using d n d[of "DefaultSpecs tbl listed"] by simp
qed

section \<open>Errors of loading and starting\<close>

lemma plugin_code_coded: "as_coded (plugin_code msg err) \<noteq> None"
  by (simp add: plugin_code_def)

text \<open>
  Loading succeeds exactly when every listed plugin is compiled in and configures itself, one after
  the other on one registry; otherwise it stops at the first that does not: with the exit code of a bad
  configuration for an unknown name, and as a plugin error around the cause for a failed
  configuration.
\<close>

definition configured :: "'w plugin_table \<Rightarrow> plugin_spec \<Rightarrow> 'w plugin_registry \<times> 'w \<Rightarrow> 'w plugin_registry \<times> 'w \<Rightarrow> bool" where
  "configured tbl spec st st' \<longleftrightarrow> (\<exists>f secs. m_get (pt_factories tbl) (ps_Name spec) = Some f
     \<and> pl_Configure f spec (fst st) (snd st) = (None, fst st', secs, snd st'))"

definition refused :: "'w plugin_table \<Rightarrow> plugin_spec \<Rightarrow> 'w plugin_registry \<Rightarrow> 'w \<Rightarrow> goerr \<Rightarrow> bool" where
  "refused tbl spec reg w err \<longleftrightarrow> (case m_get (pt_factories tbl) (ps_Name spec) of
      None \<Rightarrow> code (Some err) = CodeConfig
    | Some f \<Rightarrow> \<exists>cause. fst (pl_Configure f spec reg w) = Some cause
        \<and> err = PluginError (''plugin '' @ quoted (ps_Name spec)) (Some cause))"

lemma load_specs_spec:
  "case load_specs tbl specs r w of
     (Inr reg, secs, w') \<Rightarrow> \<exists>sts. length sts = Suc (length specs) \<and> sts ! 0 = (r, w) \<and> last sts = (reg, w')
       \<and> (\<forall>i<length specs. configured tbl (specs ! i) (sts ! i) (sts ! Suc i))
   | (Inl err, secs, w') \<Rightarrow> \<exists>i<length specs. \<exists>reg secs1 w1. load_specs tbl (take i specs) r w = (Inr reg, secs1, w1)
       \<and> refused tbl (specs ! i) reg w1 err"
proof (induction tbl specs r w rule: load_specs.induct)
  case (1 tbl r w)
  then show ?case by (auto intro!: exI[of _ "[(r, w)]"])
next
  case (2 tbl s specs r w)
  show ?case
  proof (cases "m_get (pt_factories tbl) (ps_Name s)")
    case None
    then show ?thesis by (auto simp: code_def refused_def intro!: exI[of _ 0])
  next
    case (Some f)
    obtain o' r' ss w1 where c: "pl_Configure f s r w = (o', r', ss, w1)" by (metis prod_cases4)
    show ?thesis
    proof (cases o')
      case (Some err)
      then show ?thesis using \<open>m_get _ _ = Some f\<close> c by (auto simp: refused_def intro!: exI[of _ 0])
    next
      case None
      have step: "configured tbl s (r, w) (r', w1)" using \<open>m_get _ _ = Some f\<close> c None by (simp add: configured_def)
      obtain r2 ss2 w2 where rest: "load_specs tbl specs r' w1 = (r2, ss2, w2)" by (metis prod_cases3)
      have whole: "load_specs tbl (s # specs) r w = (r2, ss @ ss2, w2)" using \<open>m_get _ _ = Some f\<close> c None rest by simp
      have ih: "case (r2, ss2, w2) of
          (Inr reg, secs, w') \<Rightarrow> \<exists>sts. length sts = Suc (length specs) \<and> sts ! 0 = (r', w1) \<and> last sts = (reg, w')
            \<and> (\<forall>i<length specs. configured tbl (specs ! i) (sts ! i) (sts ! Suc i))
        | (Inl err, secs, w') \<Rightarrow> \<exists>i<length specs. \<exists>reg secs1 w3. load_specs tbl (take i specs) r' w1 = (Inr reg, secs1, w3)
            \<and> refused tbl (specs ! i) reg w3 err"
        using 2[OF \<open>m_get _ _ = Some f\<close> c[symmetric] None] c None rest by auto
      show ?thesis
      proof (cases r2)
        case (Inl err)
        then obtain i reg secs1 w3 where i: "i < length specs" "load_specs tbl (take i specs) r' w1 = (Inr reg, secs1, w3)"
          "refused tbl (specs ! i) reg w3 err" using ih by auto
        have "load_specs tbl (take (Suc i) (s # specs)) r w = (Inr reg, ss @ secs1, w3)"
          using i(2) c None \<open>m_get _ _ = Some f\<close> by simp
        then show ?thesis unfolding whole using Inl i by (auto intro!: exI[of _ "Suc i"])
      next
        case (Inr reg)
        then obtain sts where "length sts = Suc (length specs)" "sts ! 0 = (r', w1)" "last sts = (reg, w2)"
          "\<forall>i<length specs. configured tbl (specs ! i) (sts ! i) (sts ! Suc i)" using ih by auto
        then show ?thesis unfolding whole using Inr step
          by (auto simp: nth_Cons' less_Suc_eq_0_disj intro!: exI[of _ "(r, w) # sts"])
      qed
    qed
  qed
qed

theorem Load_plugins_spec:
  "case Load_plugins tbl specs w of
     (Inr reg, secs, w') \<Rightarrow> \<exists>sts. length sts = Suc (length specs) \<and> sts ! 0 = (newRegistry, w) \<and> last sts = (reg, w')
       \<and> (\<forall>i<length specs. configured tbl (specs ! i) (sts ! i) (sts ! Suc i))
   | (Inl err, secs, w') \<Rightarrow> \<exists>i<length specs. \<exists>reg secs1 w1. Load_plugins tbl (take i specs) w = (Inr reg, secs1, w1)
       \<and> refused tbl (specs ! i) reg w1 err"
  unfolding Load_plugins_def by (rule load_specs_spec)

text \<open>
  A failed startup always has an exit code of its own: the code the hook's error carries, and the
  plugin code when it carries none, so a startup failure never ends in the generic code.
\<close>

theorem RunStartup_code:
  assumes "RunStartup r cfg w = (Some err, cfg', secs, w')"
  shows "\<exists>fn\<in>set (rg_startups r). \<exists>c v c' ss v' e0. fn c v = (Some e0, c', ss, v')
    \<and> code (Some err) = (case as_coded e0 of Some k \<Rightarrow> k | None \<Rightarrow> CodePlugin)"
proof -
  have "run_startups fns c v = (Some err, cfg', secs, w') \<Longrightarrow>
     \<exists>fn\<in>set fns. \<exists>c v c' ss v' e0. fn c v = (Some e0, c', ss, v') \<and> err = plugin_code ''startup hook'' e0" for fns c v secs
  proof (induction fns arbitrary: c v secs)
    case (Cons fn fns)
    obtain o' c' ss v' where f: "fn c v = (o', c', ss, v')" by (metis prod_cases4)
    show ?case
    proof (cases o')
      case None
      then show ?thesis using Cons f by (auto split: prod.splits)
    next
      case (Some e0)
      then have "err = plugin_code ''startup hook'' e0" "fn c v = (Some e0, c', ss, v')" using Cons.prems f by simp_all
      then show ?thesis by (metis list.set_intros(1))
    qed
  qed simp
  then obtain fn c v c' ss v' e0 where "fn \<in> set (rg_startups r)" "fn c v = (Some e0, c', ss, v')"
    "err = plugin_code ''startup hook'' e0"
    using assms unfolding RunStartup_def by blast
  moreover have "code (Some (plugin_code ''startup hook'' e0)) = (case as_coded e0 of Some k \<Rightarrow> k | None \<Rightarrow> CodePlugin)"
    by (simp add: code_def plugin_code_def split: option.splits)
  ultimately show ?thesis by blast
qed

section \<open>A concrete registry\<close>

definition failing_startup :: "nat startup" where
  "failing_startup cfg w = (Some (Text ''no instances''), cfg, [], w + 1)"

lemma RunStartup_code_witness:
  "\<exists>err. fst (RunStartup (AddStartup failing_startup newRegistry) zero_cfg 0) = Some err
     \<and> code (Some err) = CodePlugin"
proof -
  have s: "rg_startups (AddStartup failing_startup newRegistry) = [failing_startup]"
    by (simp add: AddStartup_def newRegistry_def)
  have r: "RunStartup (AddStartup failing_startup newRegistry) zero_cfg 0
      = (Some (PluginError ''startup hook'' (Some (Text ''no instances''))), zero_cfg, [], 1)"
    by (simp add: RunStartup_def AddStartup_def newRegistry_def failing_startup_def plugin_code_def)
  show ?thesis using r RunStartup_code[OF r] s by (auto simp: failing_startup_def)
qed

definition no_plugins :: "nat plugin_table" where
  "no_plugins = \<lparr>pt_factories = [], pt_defaults = []\<rparr>"

lemma Load_plugins_spec_witness:
  "\<exists>err. Load_plugins no_plugins [zero_plugin\<lparr>ps_Name := ''aws''\<rparr>] 0 = (Inl err, [], 0) \<and> code (Some err) = CodeConfig"
proof -
  obtain err where e: "Load_plugins no_plugins [zero_plugin\<lparr>ps_Name := ''aws''\<rparr>] 0 = (Inl err, [], 0)"
    by (simp add: Load_plugins_def no_plugins_def)
  then show ?thesis using Load_plugins_spec[where tbl = no_plugins and specs = "[zero_plugin\<lparr>ps_Name := ''aws''\<rparr>]" and w = 0]
    by (simp add: no_plugins_def refused_def)
qed

end
