(* ===== verification/Executor.thy ===== *)
theory Executor
  imports Cluster Shell Load Varstmpl Plugins
begin

text \<open>
  The state of the executor and its output (\<open>internal/executor/executor.go\<close>, \<open>targets.go\<close>,
  \<open>logging.go\<close>, \<open>capture_output.go\<close>), with the directory layout of \<open>internal/paths\<close>.

  The state has two parts. The fields of \<open>core\<close> decide what a task runs and how it renders; the
  fields \<open>exec\<close> adds are the outside: the connection pool, the output written so far and the world
  \<open>'w\<close>. A step that only talks to hosts and writes output keeps the core, which
  \<open>core.truncate\<close> projects.

  The record \<open>ext\<close> collects what is not code of the repository: the template engine, the
  transports, file reading, JSON decoding, the regular expressions, the \<open>%v\<close> of a parameter map; and
  what is fixed for a run: the plugin registry, the hook functions plugins installed, and the state of
  the time-bounded context the lock is released under.
\<close>

section \<open>Paths\<close>

record layout =
  l_DeployTo :: string
  l_ReleasesPath :: string
  l_SharedPath :: string
  l_RepoPath :: string
  l_CurrentPath :: string

definition paths_For :: "string \<Rightarrow> layout" where
  "paths_For deployTo = \<lparr>l_DeployTo = deployTo, l_ReleasesPath = path_join [deployTo, ''releases''],
     l_SharedPath = path_join [deployTo, ''shared''], l_RepoPath = path_join [deployTo, ''repo''],
     l_CurrentPath = path_join [deployTo, ''current'']\<rparr>"

definition layout_Release :: "layout \<Rightarrow> string \<Rightarrow> string" where
  "layout_Release l timestamp = path_join [l_ReleasesPath l, timestamp]"

section \<open>State\<close>

text \<open>A structured log record: level, message, attributes.\<close>

datatype level = Info | Warn

record log_rec =
  lr_level :: level
  lr_msg :: string
  lr_args :: "(string \<times> string) list"

record sink =
  sk_text :: string
  sk_records :: "log_rec list"

record core =
  e_cfg :: deploy_file
  e_dryRun :: bool
  e_verbose :: bool
  e_roles :: "string list"
  e_limit :: "string list"
  e_concurrency :: int
  e_scriptsDir :: string
  e_env :: "string smap"
  e_base :: tctx
  e_ctxCache :: "(string, tctx) map"
  e_logMode :: bool
  e_logTask :: string
  e_color :: bool
  e_skipped :: "string list"
  e_unreachable :: "string list"
  e_policy :: string
  e_required :: "string list"
  e_secrets :: registry

record 'w exec = core +
  e_cluster :: cluster
  e_capture :: "sink option"
  e_buf :: string
  e_raw :: string
  e_records :: "log_rec list"
  e_world :: 'w

record ('t, 'w) ext =
  x_engine :: "'t engine"
  x_net :: "'w net"
  x_disabled :: bool
  x_rules :: "(string \<Rightarrow> string) list"
  x_readfile :: "string \<Rightarrow> goerr + string"
  x_json :: "string \<Rightarrow> goerr + yval"
  x_show :: "yval smap \<Rightarrow> string"
  x_reg :: "'w plugin_registry option"
  x_hook :: "hook_func \<Rightarrow> 'w \<Rightarrow> string list \<times> goerr option \<times> 'w"
  x_unlock_ctx :: "'w \<Rightarrow> goerr option"

text \<open>\<open>namespaceSet\<close> and \<open>actionNamespace\<close>; a set of names is the list of them.\<close>

definition namespaceSet :: "string list \<Rightarrow> string list" where
  "namespaceSet names = remdups names"

definition actionNamespace :: "string \<Rightarrow> string" where
  "actionNamespace action = (case cut (CHR '':'') action of
     Some (ns, rest) \<Rightarrow> if ns \<noteq> [] then ns else action | None \<Rightarrow> action)"

record exec_options =
  o_Strict :: bool
  o_DryRun :: bool
  o_Verbose :: bool
  o_Roles :: "string list"
  o_Limit :: "string list"
  o_Concurrency :: int
  o_Color :: bool

definition base_context :: "deploy_file \<Rightarrow> string \<Rightarrow> yval \<Rightarrow> tctx" where
  "base_context cfg deployer cfgMap = (let layout = paths_For (app_DeployTo (cfg_App cfg)) in
    \<lparr>tc_Vars = cfg_Vars cfg, tc_AppName = app_Name (cfg_App cfg), tc_Repo = app_Repo (cfg_App cfg),
     tc_Branch = app_Branch (cfg_App cfg), tc_Stage = cfg_Stage cfg, tc_DeployTo = l_DeployTo layout,
     tc_ReleasesPath = l_ReleasesPath layout, tc_SharedPath = l_SharedPath layout,
     tc_RepoPath = l_RepoPath layout, tc_CurrentPath = l_CurrentPath layout,
     tc_ReleasePath = l_CurrentPath layout, tc_ReleaseTimestamp = [], tc_CommitHash = [],
     tc_PreviousCommitHash = [], tc_Changelog = [], tc_KeepReleases = app_KeepReleases (cfg_App cfg),
     tc_Deployer = deployer, tc_Host = [], tc_Roles = [], tc_Phase = [], tc_DeployError = [],
     tc_Tasks = [], tc_Config = cfgMap, tc_Imports = cfg_Imports cfg,
     tc_EnvFileValues = cfg_EnvFileValues cfg, tc_GlobalEnvValues = []\<rparr>)"

text \<open>
  \<open>New\<close>; the operator's name, the marshalled config, the scripts directory and what was logged
  and registered before are arguments.
\<close>

definition New_executor :: "deploy_file \<Rightarrow> exec_options \<Rightarrow> string \<Rightarrow> yval \<Rightarrow> string \<Rightarrow> registry \<Rightarrow> 'w \<Rightarrow> 'w exec" where
  "New_executor cfg opts deployer cfgMap scripts reg w =
    \<lparr>e_cfg = cfg, e_dryRun = o_DryRun opts, e_verbose = o_Verbose opts, e_roles = o_Roles opts,
     e_limit = o_Limit opts, e_concurrency = o_Concurrency opts, e_scriptsDir = scripts,
     e_env = cfg_Envs cfg, e_base = base_context cfg deployer cfgMap, e_ctxCache = Map.empty,
     e_logMode = (\<not> RawOutput (cfg_Log cfg)), e_logTask = [], e_color = o_Color opts,
     e_skipped = namespaceSet (cfg_SkippedPlugins cfg), e_unreachable = [], e_policy = [],
     e_required = [], e_secrets = reg, e_cluster = NewCluster (o_Strict opts), e_capture = None,
     e_buf = [], e_raw = [], e_records = [], e_world = w\<rparr>"

section \<open>Output\<close>

definition slog :: "level \<Rightarrow> string \<Rightarrow> (string \<times> string) list \<Rightarrow> 'w exec \<Rightarrow> 'w exec" where
  "slog lv msg args e = e\<lparr>e_records := e_records e @ [\<lparr>lr_level = lv, lr_msg = msg, lr_args = args\<rparr>]\<rparr>"

definition mask_for :: "('t, 'w) ext \<Rightarrow> 'w exec \<Rightarrow> string \<Rightarrow> string" where
  "mask_for x e = mask_String (x_disabled x) (x_rules x) (e_secrets e)"

text \<open>\<open>e.out\<close>: the masking writer over the console, or the sink of a silent task.\<close>

definition console_write :: "('t, 'w) ext \<Rightarrow> string \<Rightarrow> 'w exec \<Rightarrow> 'w exec" where
  "console_write x p e = (case Writer_Write (x_disabled x) (mask_for x e) append_to p (e_buf e, e_raw e) of
     (r, buf, raw) \<Rightarrow> e\<lparr>e_buf := buf, e_raw := raw\<rparr>)"

definition console_flush :: "('t, 'w) ext \<Rightarrow> 'w exec \<Rightarrow> 'w exec" where
  "console_flush x e = (case Writer_Flush (mask_for x e) append_to (e_buf e, e_raw e) of
     (r, buf, raw) \<Rightarrow> e\<lparr>e_buf := buf, e_raw := raw\<rparr>)"

definition out_write :: "('t, 'w) ext \<Rightarrow> string \<Rightarrow> 'w exec \<Rightarrow> 'w exec" where
  "out_write x p e = (case e_capture e of
      Some sk \<Rightarrow> e\<lparr>e_capture := Some (sk\<lparr>sk_text := sk_text sk @ p\<rparr>)\<rparr>
    | None \<Rightarrow> console_write x p e)"

definition sink_add :: "string \<Rightarrow> (string \<times> string) list \<Rightarrow> sink \<Rightarrow> sink" where
  "sink_add msg args sk = sk\<lparr>sk_records := sk_records sk @ [\<lparr>lr_level = Info, lr_msg = msg, lr_args = args\<rparr>]\<rparr>"

definition outputArgs :: "('t, 'w) ext \<Rightarrow> 'w exec \<Rightarrow> string \<Rightarrow> string \<Rightarrow> string \<Rightarrow> (string \<times> string) list" where
  "outputArgs x e host key val =
     (if e_logTask e \<noteq> [] then [(''task'', e_logTask e)] else [])
     @ (if host \<noteq> [] then [(''host'', host)] else []) @ [(key, mask_for x e val)]"

text \<open>An \<open>output\<close> or \<open>exec\<close> record, deferred while a silent task runs.\<close>

definition emit_rec :: "string \<Rightarrow> (string \<times> string) list \<Rightarrow> 'w exec \<Rightarrow> 'w exec" where
  "emit_rec msg args e = (case e_capture e of
      Some sk \<Rightarrow> e\<lparr>e_capture := Some (sink_add msg args sk)\<rparr> | None \<Rightarrow> slog Info msg args e)"

definition logLine :: "('t, 'w) ext \<Rightarrow> string \<Rightarrow> string \<Rightarrow> 'w exec \<Rightarrow> 'w exec" where
  "logLine x host line e = emit_rec ''output'' (outputArgs x e host ''output'' line) e"

definition logExec :: "('t, 'w) ext \<Rightarrow> string \<Rightarrow> string \<Rightarrow> 'w exec \<Rightarrow> bool \<times> 'w exec" where
  "logExec x host command e = (if \<not> e_logMode e then (False, e)
     else (True, emit_rec ''exec'' (outputArgs x e host ''command'' command) e))"

definition logDryRun :: "('t, 'w) ext \<Rightarrow> string \<Rightarrow> string \<Rightarrow> 'w exec \<Rightarrow> bool \<times> 'w exec" where
  "logDryRun x host command e = (if \<not> e_logMode e then (False, e)
     else (True, slog Info ''dry-run'' (outputArgs x e host ''command'' command) e))"

definition echoExec :: "('t, 'w) ext \<Rightarrow> string \<Rightarrow> string \<Rightarrow> 'w exec \<Rightarrow> 'w exec" where
  "echoExec x host command e = (case logExec x host command e of
      (True, e') \<Rightarrow> e'
    | (False, e') \<Rightarrow> if host = [] then out_write x (''$ '' @ command @ [nl]) e'
        else out_write x (HostLabel host (e_color e') @ '' $ '' @ command @ [nl]) e')"

definition echoDryRun :: "('t, 'w) ext \<Rightarrow> string \<Rightarrow> string \<Rightarrow> 'w exec \<Rightarrow> 'w exec" where
  "echoDryRun x host line e = (case logDryRun x host line e of
      (True, e') \<Rightarrow> e'
    | (False, e') \<Rightarrow> if host = [] then out_write x (''[dry-run] '' @ line @ [nl]) e'
        else out_write x (''[dry-run] '' @ host @ '': '' @ line @ [nl]) e')"

definition echoDryRunLocal :: "('t, 'w) ext \<Rightarrow> string \<Rightarrow> 'w exec \<Rightarrow> 'w exec" where
  "echoDryRunLocal x line e = (case logDryRun x ''local'' line e of
      (True, e') \<Rightarrow> e' | (False, e') \<Rightarrow> out_write x (''[dry-run][local] '' @ line @ [nl]) e')"

definition beginCapture :: "'w exec \<Rightarrow> 'w exec" where
  "beginCapture e = e\<lparr>e_capture := Some \<lparr>sk_text = [], sk_records = []\<rparr>\<rparr>"

definition endCapture :: "('t, 'w) ext \<Rightarrow> goerr option \<Rightarrow> 'w exec \<Rightarrow> 'w exec" where
  "endCapture x runErr e = (case e_capture e of None \<Rightarrow> e
     | Some sk \<Rightarrow> (let e' = e\<lparr>e_capture := None\<rparr> in
         if runErr = None then e'
         else if e_logMode e' then e'\<lparr>e_records := e_records e' @ sk_records sk\<rparr>
         else if sk_text sk = [] then e'
         else console_flush x (console_write x (sk_text sk) e')))"

section \<open>The cluster as the executor uses it\<close>

definition lift_net :: "'w net \<Rightarrow> 'w exec net" where
  "lift_net net = \<lparr>
     net_dial = (\<lambda>d e. case net_dial net d (e_world e) of (r, w) \<Rightarrow> (r, e\<lparr>e_world := w\<rparr>)),
     net_run = (\<lambda>c cmd e. case net_run net c cmd (e_world e) of (r, w) \<Rightarrow> (r, e\<lparr>e_world := w\<rparr>)),
     net_ctx = (\<lambda>e. net_ctx net (e_world e))\<rparr>"

definition host_writer :: "('t, 'w) ext \<Rightarrow> bool \<Rightarrow> bool \<Rightarrow> string \<Rightarrow> 'w exec line_writer" where
  "host_writer x logMode color host = (if logMode then NewLogWriter host (logLine x)
     else NewPrefixWriter (\<lambda>s e. (None, out_write x s e)) (HostLabel host color @ '' ''))"

definition ctx_Err :: "('t, 'w) ext \<Rightarrow> 'w exec \<Rightarrow> goerr option" where
  "ctx_Err x e = net_ctx (x_net x) (e_world e)"

definition cluster_Run :: "('t, 'w) ext \<Rightarrow> target list \<Rightarrow> (string \<Rightarrow> string) \<Rightarrow> bool \<Rightarrow> 'w exec
    \<Rightarrow> result list \<times> 'w exec" where
  "cluster_Run x targets cmdFor failFast e =
     (case Run (lift_net (x_net x)) (host_writer x (e_logMode e) (e_color e)) targets cmdFor failFast
        (e_cluster e, e) of (rs, c, e') \<Rightarrow> (rs, e'\<lparr>e_cluster := c\<rparr>))"

definition cluster_Capture :: "('t, 'w) ext \<Rightarrow> target \<Rightarrow> string \<Rightarrow> 'w exec \<Rightarrow> string res \<times> 'w exec" where
  "cluster_Capture x t cmd e =
     (case Capture (lift_net (x_net x)) (host_writer x (e_logMode e) (e_color e)) t cmd (e_cluster e, e) of
        (r, c, e') \<Rightarrow> (r, e'\<lparr>e_cluster := c\<rparr>))"

text \<open>\<open>runLocalShell\<close>: both streams go to one writer, which is closed after the run.\<close>

definition runLocalShell :: "('t, 'w) ext \<Rightarrow> string \<Rightarrow> 'w exec line_writer \<Rightarrow> 'w exec \<Rightarrow> goerr option \<times> 'w exec" where
  "runLocalShell x command lw e = (case net_run (lift_net (x_net x)) LocalConn command e of
     ((out, r), e') \<Rightarrow> (map_option (wrapf ''local command failed'') r, lw_stream (map snd out) lw e'))"

section \<open>What talking to hosts keeps\<close>

definition core_of :: "'w exec \<Rightarrow> core" where
  "core_of e = core.truncate e"

lemma core_of_eq: "core_of e = core_of d \<longleftrightarrow>
    e_cfg e = e_cfg d \<and> e_dryRun e = e_dryRun d \<and> e_verbose e = e_verbose d \<and> e_roles e = e_roles d
  \<and> e_limit e = e_limit d \<and> e_concurrency e = e_concurrency d \<and> e_scriptsDir e = e_scriptsDir d
  \<and> e_env e = e_env d \<and> e_base e = e_base d \<and> e_ctxCache e = e_ctxCache d \<and> e_logMode e = e_logMode d
  \<and> e_logTask e = e_logTask d \<and> e_color e = e_color d \<and> e_skipped e = e_skipped d
  \<and> e_unreachable e = e_unreachable d \<and> e_policy e = e_policy d \<and> e_required e = e_required d
  \<and> e_secrets e = e_secrets d"
  by (simp add: core_of_def core.truncate_def)

named_theorems frame \<open>steps that keep the core of the executor\<close>

lemma core_upd [simp, frame]:
  "core_of (e\<lparr>e_cluster := c\<rparr>) = core_of e" "core_of (e\<lparr>e_capture := k\<rparr>) = core_of e"
  "core_of (e\<lparr>e_buf := b\<rparr>) = core_of e" "core_of (e\<lparr>e_raw := r\<rparr>) = core_of e"
  "core_of (e\<lparr>e_records := l\<rparr>) = core_of e" "core_of (e\<lparr>e_world := w\<rparr>) = core_of e"
  by (simp_all add: core_of_eq)

lemma core_slog [simp, frame]: "core_of (slog lv msg args e) = core_of e"
  by (simp add: slog_def)

lemma core_console [simp, frame]:
  "core_of (console_write x p e) = core_of e" "core_of (console_flush x e) = core_of e"
  by (simp_all add: console_write_def console_flush_def split: prod.splits)

lemma core_out [simp, frame]: "core_of (out_write x p e) = core_of e"
  by (simp add: out_write_def split: option.split)

lemma core_emit [simp, frame]: "core_of (emit_rec msg args e) = core_of e"
  by (simp add: emit_rec_def split: option.split)

lemma core_logLine [simp, frame]: "core_of (logLine x host line e) = core_of e"
  by (simp add: logLine_def)

lemma core_echo [simp, frame]:
  "core_of (echoExec x host cmd e) = core_of e" "core_of (echoDryRun x host cmd e) = core_of e"
  "core_of (echoDryRunLocal x cmd e) = core_of e"
  by (simp_all add: echoExec_def echoDryRun_def echoDryRunLocal_def logExec_def logDryRun_def)

lemma core_capture [simp, frame]:
  "core_of (beginCapture e) = core_of e" "core_of (endCapture x r e) = core_of e"
  by (simp_all add: beginCapture_def endCapture_def Let_def split: option.split)

text \<open>An invariant of the destination is an invariant of a line writer over it.\<close>

lemma lw_loop_inv:
  "(\<And>l w. P w \<Longrightarrow> P (snd (em l w))) \<Longrightarrow> P w \<Longrightarrow> P (snd (snd (lw_loop em buf w)))"
proof (induction em buf w rule: lw_loop.induct)
  case (1 em buf w)
  then show ?case
    by (subst lw_loop_next) (auto simp: lw_next_def split: option.splits prod.splits if_splits, (metis snd_conv)+)
qed

definition keeps :: "('o \<Rightarrow> bool) \<Rightarrow> 'o line_writer \<Rightarrow> bool" where
  "keeps P lw \<longleftrightarrow> (\<forall>l w. P w \<longrightarrow> P (snd (emit lw l w)))"

lemma Write_keeps:
  "keeps P lw \<Longrightarrow> P w \<Longrightarrow> LineWriter_Write p lw w = (r, lw', w') \<Longrightarrow> keeps P lw' \<and> P w'"
  using lw_loop_inv[of P "emit lw" w "lw_buf lw @ p"]
  by (auto simp: LineWriter_Write_def keeps_def split: prod.splits)

lemma Flush_keeps: "keeps P lw \<Longrightarrow> P w \<Longrightarrow> P (snd (LineWriter_Flush lw w))"
  by (simp add: LineWriter_Flush_def keeps_def)

lemma stream_out_keeps: "keeps P so \<Longrightarrow> keeps P se \<Longrightarrow> P w \<Longrightarrow> P (stream_out ps so se w)"
proof (induction ps so se w rule: stream_out.induct)
  case (1 so se w)
  then show ?case by (simp add: Flush_keeps)
next
  case (2 is_err p ps so se w)
  obtain r se' w' where e: "LineWriter_Write p se w = (r, se', w')" by (metis prod_cases3)
  obtain q so' v where o': "LineWriter_Write p so w = (q, so', v)" by (metis prod_cases3)
  show ?case
  proof (cases is_err)
    case True
    then show ?thesis using 2(1)[OF True e[symmetric] refl 2(3)] Write_keeps[OF 2(4,5) e] e by simp
  next
    case False
    then show ?thesis using 2(2)[OF False o'[symmetric] refl _ 2(4)] Write_keeps[OF 2(3,5) o'] o' by simp
  qed
qed

lemma lw_stream_keeps: "keeps P lw \<Longrightarrow> P w \<Longrightarrow> P (lw_stream ps lw w)"
proof (induction ps arbitrary: lw w)
  case Nil
  then show ?case by (simp add: lw_stream_def Flush_keeps)
next
  case (Cons p ps)
  obtain r lw' w' where w: "LineWriter_Write p lw w = (r, lw', w')" by (metis prod_cases3)
  then show ?case using Cons.IH[of lw' w'] Write_keeps[OF Cons.prems w] by (simp add: lw_stream_def)
qed

lemma seq_run_keeps:
  "(\<And>t w e w'. fn t w = (e, w') \<Longrightarrow> P w \<Longrightarrow> P w') \<Longrightarrow> P w \<Longrightarrow> P (snd (seq_run perr ff fn ctx ts w))"
proof (induction perr ff fn ctx ts w rule: seq_run.induct)
  case (1 perr ff fn ctx w)
  then show ?case by simp
next
  case (2 perr ff fn ctx t ts w)
  let ?c = "observe perr ctx w"
  show ?case
  proof (cases "?c = Live")
    case False
    then show ?thesis using 2(1)[OF refl _ 2(4,5)] by (simp add: Let_def case_prod_beta)
  next
    case live: True
    obtain e w1 where fn: "fn t w = (e, w1)" by fastforce
    have P1: "P w1" using 2(4)[OF fn 2(5)] .
    have nl: "\<not> ?c \<noteq> Live" using live by simp
    show ?thesis
    proof (cases e)
      case None
      then show ?thesis using 2(2)[OF refl nl fn[symmetric] None 2(4) P1] live fn
        by (simp add: Let_def case_prod_beta)
    next
      case (Some err)
      then show ?thesis using 2(3)[OF refl nl fn[symmetric] Some 2(4) P1] live fn
        by (simp add: Let_def case_prod_beta)
    qed
  qed
qed

definition net_keeps :: "('w \<Rightarrow> bool) \<Rightarrow> 'w net \<Rightarrow> bool" where
  "net_keeps P net \<longleftrightarrow> (\<forall>d w. P w \<longrightarrow> P (snd (net_dial net d w))) \<and> (\<forall>c m w. P w \<longrightarrow> P (snd (net_run net c m w)))"

lemma conn_at_keeps: "net_keeps P net \<Longrightarrow> P w \<Longrightarrow> conn_at net c t w = (e, c', w') \<Longrightarrow> P w'"
proof -
  assume net: "net_keeps P net" and P: "P w" and c: "conn_at net c t w = (e, c', w')"
  have "P (snd (open_conn net (strictness c t) t w))"
    using net P by (auto simp: open_conn_def net_keeps_def split: prod.splits sum.splits) (metis snd_conv)+
  then show ?thesis using P c by (auto simp: conn_at_def Let_def split: prod.splits option.splits)
qed

lemma run_on_keeps:
  assumes "net_keeps P net" "\<And>h. keeps P (wr h)" "P (snd cw)" "run_on net wr cmdFor t cw = (e, cw')"
  shows "P (snd cw')"
proof -
  obtain r c w where c: "conn_at net (fst cw) t (snd cw) = (r, c, w)" by (metis prod_cases3)
  have w: "P w" using conn_at_keeps[OF assms(1,3) c] .
  show ?thesis
  proof (cases r)
    case (Inl err)
    then show ?thesis using assms(4) c w by (auto simp: run_on_def)
  next
    case (Inr cn)
    obtain out r' w' where n: "net_run net cn (cmdFor (t_Host t)) w = ((out, r'), w')" by (metis prod.collapse)
    then have "P w'" using assms(1) w by (auto simp: net_keeps_def) (metis snd_conv)
    then show ?thesis
      using assms(4) c n Inr stream_out_keeps[of P "wr (t_Host t)" "wr (t_Host t)" w' out, OF assms(2) assms(2)]
      by (auto simp: run_on_def)
  qed
qed

lemma Run_keeps:
  "net_keeps P net \<Longrightarrow> (\<And>h. keeps P (wr h)) \<Longrightarrow> P w \<Longrightarrow> P (snd (snd (Run net wr ts cmdFor ff (c, w))))"
  unfolding Run_def
  by (rule seq_run_keeps[where P = "\<lambda>cw. P (snd cw)"]) (auto intro: run_on_keeps)

lemma Capture_keeps:
  assumes "net_keeps P net" "\<And>h. keeps P (wr h)" "P w"
  shows "P (snd (snd (Capture net wr t cmd (c, w))))"
proof -
  obtain r c1 w1 where c: "conn_at net c t w = (r, c1, w1)" by (metis prod_cases3)
  have w1: "P w1" using conn_at_keeps[OF assms(1,3) c] .
  show ?thesis
  proof (cases r)
    case (Inl err)
    then show ?thesis using c w1 by (simp add: Capture_def)
  next
    case (Inr cn)
    obtain out r' w' where n: "net_run net cn cmd w1 = ((out, r'), w')" by (metis prod.collapse)
    then have "P w'" using assms(1) w1 by (auto simp: net_keeps_def) (metis snd_conv)
    then show ?thesis
      using c n Inr stream_out_keeps[of P "wr (t_Host t)" "wr (t_Host t)" w' "filter fst out", OF assms(2) assms(2)]
      by (simp add: Capture_def)
  qed
qed

lemma host_writer_keeps: "keeps (\<lambda>e. core_of e = k) (host_writer x m c h)"
  by (simp add: keeps_def host_writer_def NewLogWriter_def NewPrefixWriter_def emit_def)

lemma lift_net_keeps: "net_keeps (\<lambda>e. core_of e = k) (lift_net net)"
  by (simp add: net_keeps_def lift_net_def split: prod.split)

lemma core_Run [simp, frame]: "core_of (snd (cluster_Run x ts cmdFor ff e)) = core_of e"
  unfolding cluster_Run_def case_prod_beta snd_conv core_upd
  by (rule Run_keeps[where P = "\<lambda>d. core_of d = core_of e", OF lift_net_keeps host_writer_keeps refl])

lemma core_Capture [simp, frame]: "core_of (snd (cluster_Capture x t cmd e)) = core_of e"
  unfolding cluster_Capture_def case_prod_beta snd_conv core_upd
  by (rule Capture_keeps[where P = "\<lambda>d. core_of d = core_of e", OF lift_net_keeps host_writer_keeps refl])

lemma core_local:
  assumes "keeps (\<lambda>d. core_of d = core_of e) lw"
  shows "core_of (snd (runLocalShell x cmd lw e)) = core_of e"
proof -
  have "core_of (snd (net_run (lift_net (x_net x)) LocalConn cmd e)) = core_of e"
    by (simp add: lift_net_def split: prod.split)
  then show ?thesis
    unfolding runLocalShell_def case_prod_beta snd_conv
    by (rule lw_stream_keeps[where P = "\<lambda>d. core_of d = core_of e", OF assms])
qed

lemma cluster_Run_hosts: "map r_Host (fst (cluster_Run x ts cmdFor ff e)) = map t_Host ts"
  unfolding cluster_Run_def case_prod_beta fst_conv by (rule Run_hosts)

section \<open>A concrete outside\<close>

text \<open>Templates are literal text, the host \<open>down\<close> cannot be dialled, every command prints \<open>ok\<close>.\<close>

definition demo_ext :: "(string, nat) ext" where
  "demo_ext = \<lparr>x_engine = text_engine, x_net = demo_net, x_disabled = False, x_rules = [],
     x_readfile = (\<lambda>p. Inl boom), x_json = (\<lambda>s. Inr (YStr s)), x_show = (\<lambda>m. []), x_reg = None,
     x_hook = (\<lambda>f w. ([], None, w)), x_unlock_ctx = (\<lambda>w. None)\<rparr>"

end
