(* ===== verification/Commands.thy ===== *)
theory Commands
  imports Shell Executor
begin

text \<open>
  The shell commands of the release lifecycle (\<open>internal/deploy/commands.go\<close> with its templates and
  \<open>internal/deploy/scm/git.go\<close> with its templates), and the identity of the operator
  (\<open>internal/operator/operator.go\<close>).

  A template is translated with its data: \<open>sh\<close> is \<open>Quote\<close>, the literal text stays literal.
\<close>

section \<open>Text with quotes\<close>

definition dquoted :: "string \<Rightarrow> string" where "dquoted s = [dq] @ s @ [dq]"
definition squoted :: "string \<Rightarrow> string" where "squoted s = [sq] @ s @ [sq]"
definition line_of :: "string list \<Rightarrow> string" where "line_of parts = concat parts @ [nl]"

section \<open>Directories and links\<close>

definition linked_source :: "layout \<Rightarrow> string \<Rightarrow> string" where
  "linked_source l f = path_join [l_SharedPath l, fst (ParseLinkedPath f)]"

definition structure_dirs :: "layout \<Rightarrow> string list \<Rightarrow> string list \<Rightarrow> string list" where
  "structure_dirs l linkedFiles linkedDirs = [l_ReleasesPath l, l_SharedPath l]
     @ map (linked_source l) linkedDirs @ map (\<lambda>f. path_dir (linked_source l f)) linkedFiles"

definition ensureStructureCmd :: "layout \<Rightarrow> string list \<Rightarrow> string list \<Rightarrow> string" where
  "ensureStructureCmd l linkedFiles linkedDirs = MustRender
     (line_of [''set -e'']
      @ ''mkdir -p'' @ concat (map (\<lambda>d. '' '' @ Quote d) (structure_dirs l linkedFiles linkedDirs))
      @ (if linkedFiles = [] then []
         else [nl] @ ''missing=0''
           @ concat (map (\<lambda>f. [nl] @ ''[ -e '' @ Quote f @ '' ] || { echo ''
               @ squoted ''deploy:check: missing linked file:'' @ '' '' @ Quote f @ '' >&2; missing=1; }'')
               (map (linked_source l) linkedFiles))
           @ [nl] @ ''[ '' @ dquoted ''$missing'' @ '' = 0 ] || { echo ''
           @ squoted ''deploy:check: create the missing linked file(s) in shared/ before deploying''
           @ '' >&2; exit 1; }'')
      @ [nl])"

record link_spec =
  ls_Shared :: string
  ls_Target :: string
  ls_SharedParent :: string
  ls_TargetParent :: string

definition dir_link :: "layout \<Rightarrow> string \<Rightarrow> string \<Rightarrow> link_spec" where
  "dir_link l release d = (let (src, dst) = ParseLinkedPath d; target = path_join [release, dst]
     in \<lparr>ls_Shared = path_join [l_SharedPath l, src], ls_Target = target, ls_SharedParent = [],
         ls_TargetParent = path_dir target\<rparr>)"

definition file_link :: "layout \<Rightarrow> string \<Rightarrow> string \<Rightarrow> link_spec" where
  "file_link l release f = (let (src, dst) = ParseLinkedPath f; shared = path_join [l_SharedPath l, src];
       target = path_join [release, dst]
     in \<lparr>ls_Shared = shared, ls_Target = target, ls_SharedParent = path_dir shared,
         ls_TargetParent = path_dir target\<rparr>)"

definition symlinkSharedScript :: "layout \<Rightarrow> string \<Rightarrow> string list \<Rightarrow> string list \<Rightarrow> string" where
  "symlinkSharedScript l release linkedFiles linkedDirs = MustRender
     (line_of [''set -e'']
      @ concat (map (\<lambda>k. line_of [''mkdir -p '', Quote (ls_Shared k), '' '', Quote (ls_TargetParent k)]
          @ line_of [''rm -rf '', Quote (ls_Target k)]
          @ line_of [''ln -s '', Quote (ls_Shared k), '' '', Quote (ls_Target k)]) (map (dir_link l release) linkedDirs))
      @ concat (map (\<lambda>k. line_of [''mkdir -p '', Quote (ls_SharedParent k), '' '', Quote (ls_TargetParent k)]
          @ line_of [''ln -sf '', Quote (ls_Shared k), '' '', Quote (ls_Target k)]) (map (file_link l release) linkedFiles))
      @ [nl])"

section \<open>Release and revision\<close>

definition publishCmd :: "string \<Rightarrow> string \<Rightarrow> string" where
  "publishCmd release current = (let tmp = current @ ''.tmp'' in MustRender
     (''rm -f '' @ Quote tmp @ ''; ln -s '' @ Quote release @ '' '' @ Quote tmp @ ''; mv -T '' @ Quote tmp
      @ '' '' @ Quote current @ '' 2>/dev/null || { rm -f '' @ Quote current @ ''; mv '' @ Quote tmp @ '' ''
      @ Quote current @ ''; }'' @ [nl]))"

definition writeRevisionCmd :: "string \<Rightarrow> string \<Rightarrow> string \<Rightarrow> string \<Rightarrow> string" where
  "writeRevisionCmd repoPath release branch revTime = MustRender
     (''git -C '' @ Quote repoPath @ '' rev-parse '' @ Quote branch @ '' > ''
      @ Quote (path_join [release, ''REVISION'']) @ '' && printf '' @ squoted (''%s'' @ [bsl] @ ''n'') @ '' ''
      @ Quote revTime @ '' > '' @ Quote (path_join [release, ''REVISION_TIME'']) @ [nl])"

definition currentRevisionCmd :: "layout \<Rightarrow> string" where
  "currentRevisionCmd l = MustRender
     (''cat '' @ Quote (path_join [l_CurrentPath l, ''REVISION'']) @ '' 2>/dev/null || true'' @ [nl])"

definition hex_lower :: "char \<Rightarrow> bool" where
  "hex_lower c \<longleftrightarrow> c \<in> set ''0123456789abcdef''"

definition isCommitSHA :: "string \<Rightarrow> bool" where
  "isCommitSHA s \<longleftrightarrow> 7 \<le> length s \<and> length s \<le> 64 \<and> list_all hex_lower s"

definition changelogMaxCommits :: int where "changelogMaxCommits = 100"

definition changelogCmd :: "string \<Rightarrow> string \<Rightarrow> string \<Rightarrow> string" where
  "changelogCmd repoPath prev cur = MustRender
     (''git -C '' @ Quote repoPath @ '' log --no-merges --max-count='' @ itoa changelogMaxCommits
      @ '' --pretty=format:'' @ squoted ''%H|%an|%ae|%s'' @ '' '' @ Quote (prev @ ''..'' @ cur) @ [nl])"

definition logRevisionCmd :: "layout \<Rightarrow> string \<Rightarrow> string \<Rightarrow> string \<Rightarrow> string \<Rightarrow> string" where
  "logRevisionCmd l release branch releaseTimestamp user = MustRender
     (''printf '' @ squoted (''Branch %s (at %s) deployed as release %s by %s'' @ [bsl] @ ''n'') @ '' ''
      @ Quote branch @ '' '' @ dquoted (''$(cat '' @ Quote (path_join [release, ''REVISION'']) @ '')'') @ '' ''
      @ Quote releaseTimestamp @ '' '' @ Quote user @ '' >> ''
      @ Quote (path_join [l_DeployTo l, ''revisions.log'']) @ [nl])"

definition cleanupCmd :: "string \<Rightarrow> int \<Rightarrow> string" where
  "cleanupCmd releasesPath keep = MustRender
     (line_of [''cd '', Quote releasesPath, '' || exit 0'']
      @ line_of [''count=$(ls -1 | wc -l)'']
      @ line_of [''remove=$((count - '', itoa keep, ''))'']
      @ line_of [''if [ '', dquoted ''$remove'', '' -gt 0 ]; then'']
      @ line_of [''  ls -1 | sort | head -n '', dquoted ''$remove'', '' | while IFS= read -r d; do rm -rf '',
          dquoted ''$d'', ''; done'']
      @ line_of [''fi''])"

section \<open>The lock\<close>

definition lock_path :: "layout \<Rightarrow> string" where
  "lock_path l = path_join [l_DeployTo l, ''.deploy.lock'']"

definition lockCmd :: "layout \<Rightarrow> string \<Rightarrow> string" where
  "lockCmd l info = MustRender
     (line_of [''mkdir -p '', Quote (l_DeployTo l)]
      @ line_of [''if (set -C; printf '', squoted ''%s'', '' '', Quote info, '' > '', Quote (lock_path l),
          '') 2>/dev/null; then :; else echo '', dquoted (''stage is locked by: $(cat '' @ Quote (lock_path l)
            @ '' 2>/dev/null)''), '' >&2; exit 1; fi''])"

definition unlockCmd :: "layout \<Rightarrow> string" where
  "unlockCmd l = MustRender (''rm -f '' @ Quote (lock_path l) @ [nl])"

section \<open>Rollback and listing\<close>

definition rollbackScript :: "layout \<Rightarrow> bool \<Rightarrow> string" where
  "rollbackScript l cleanup = (let rel = l_ReleasesPath l; cur = l_CurrentPath l in MustRender
     (line_of [''set -e'']
      @ line_of [''cd '', dquoted rel, '' 2>/dev/null || { echo '', dquoted ''no releases directory'', '' >&2; exit 1; }'']
      @ line_of [''cur='', dquoted (''$(readlink '' @ dquoted cur @ '' 2>/dev/null || true)'')]
      @ line_of [''curbase='', dquoted (''$(basename '' @ dquoted ''$cur'' @ '')'')]
      @ line_of [''if ! ls -1 | grep -qx '', dquoted ''$curbase'', ''; then echo '',
          dquoted (''current release '' @ squoted ''$curbase'' @ '' not found in releases''), '' >&2; exit 1; fi'']
      @ line_of [''prev='', dquoted []]
      @ line_of [''for r in $(ls -1 | sort); do'']
      @ line_of [''  if [ '', dquoted ''$r'', '' = '', dquoted ''$curbase'', '' ]; then break; fi'']
      @ line_of [''  prev='', dquoted ''$r'']
      @ line_of [''done'']
      @ line_of [''if [ -z '', dquoted ''$prev'', '' ]; then echo '',
          dquoted ''no earlier release to roll back to (current: $curbase)'', '' >&2; exit 1; fi'']
      @ line_of [''rm -f '', dquoted (cur @ ''.tmp'')]
      @ line_of [''ln -s '', dquoted (rel @ ''/$prev''), '' '', dquoted (cur @ ''.tmp'')]
      @ line_of [''mv -T '', dquoted (cur @ ''.tmp''), '' '', dquoted cur, '' 2>/dev/null || { rm -f '', dquoted cur,
          ''; mv '', dquoted (cur @ ''.tmp''), '' '', dquoted cur, ''; }'']
      @ line_of [''echo '', dquoted ''rolled back: $curbase -> $prev'']
      @ (if cleanup then line_of [''rm -rf '', dquoted (rel @ ''/$curbase'')]
           @ line_of [''echo '', dquoted ''removed rolled-back release: $curbase''] else [])
      @ [nl]))"

definition releasesScript :: "layout \<Rightarrow> string" where
  "releasesScript l = (let rel = l_ReleasesPath l in MustRender
     (line_of [''cur='', dquoted (''$(basename '' @ dquoted (''$(readlink '' @ dquoted (l_CurrentPath l)
         @ '' 2>/dev/null)'') @ '')'')]
      @ line_of [''if [ ! -d '', dquoted rel, '' ]; then echo '', dquoted ''(no releases)'', ''; exit 0; fi'']
      @ line_of [''for r in $(ls -1 '', dquoted rel, '' | sort); do'']
      @ line_of [''  if [ '', dquoted ''$r'', '' = '', dquoted ''$cur'', '' ]; then echo '', dquoted ''$r (current)'',
          ''; else echo '', dquoted ''$r'', ''; fi'']
      @ line_of [''done'']))"

section \<open>Git\<close>

record git =
  g_Repo :: string
  g_Branch :: string

definition EnsureMirror :: "git \<Rightarrow> string \<Rightarrow> string" where
  "EnsureMirror g repoPath = MustRender
     (line_of [''if [ -d '', Quote repoPath, ''/objects ]; then'']
      @ line_of [''  if [ '', dquoted (''$(git -C '' @ Quote repoPath @ '' config --get remote.origin.url 2>/dev/null)''),
          '' != '', Quote (g_Repo g), '' ]; then'']
      @ line_of [''    rm -f '', Quote repoPath, ''/config.lock'']
      @ line_of [''    git -C '', Quote repoPath, '' remote set-url origin '', Quote (g_Repo g)]
      @ line_of [''  fi'']
      @ line_of [''  git -C '', Quote repoPath, '' remote update --prune'']
      @ line_of [''else'']
      @ line_of [''  git clone --mirror '', Quote (g_Repo g), '' '', Quote repoPath]
      @ line_of [''fi''])"

definition CreateRelease :: "git \<Rightarrow> string \<Rightarrow> string \<Rightarrow> string" where
  "CreateRelease g repoPath releasePath = MustRender
     (line_of [''{ [ ! -e '', Quote releasePath, '' ] || { echo release already exists: '', Quote releasePath,
        '' >&2; false; }; } && mkdir -p '', Quote releasePath, '' && git -C '', Quote repoPath, '' archive '',
        Quote (g_Branch g), '' | tar -x -f - -C '', Quote releasePath])"

definition Revision :: "git \<Rightarrow> string \<Rightarrow> string" where
  "Revision g repoPath = MustRender (line_of [''git -C '', Quote repoPath, '' rev-parse '', Quote (g_Branch g)])"

section \<open>The operator\<close>

definition resolve_operator :: "(string \<Rightarrow> string) \<Rightarrow> string \<Rightarrow> string" where
  "resolve_operator getenv gitName =
     (if trim_space (getenv ''DEPLOYER'') \<noteq> [] then trim_space (getenv ''DEPLOYER'')
      else if trim_space gitName \<noteq> [] then trim_space gitName
      else if trim_space (getenv ''USER'') \<noteq> [] then trim_space (getenv ''USER'')
      else ''unknown'')"

section \<open>Reading the commands back\<close>

lemma word_then [simp]: "sh_tokens (Quote x @ CHR '' '' # t) = prepend [Word (map Lit x)] (sh_tokens t)"
  using tokens_Quote[of "CHR '' '' # t" x] by (simp add: ends_word_def is_blank_def)

lemma word_semi [simp]: "sh_tokens (Quote x @ CHR '';'' # t) = prepend [Word (map Lit x), Op (CHR '';'')] (sh_tokens t)"
  using tokens_Quote[of "CHR '';'' # t" x] by (simp add: ends_word_def is_op_def is_blank_def tokens_op)

lemma word_end [simp]: "sh_tokens (Quote x) = Some [Word (map Lit x)]"
  using tokens_Quote[of "[]" x] by (simp add: ends_word_def sh_tokens.simps prepend_def)

lemma plain_then:
  "k \<noteq> [] \<Longrightarrow> list_all plain_char k \<Longrightarrow> sh_tokens (k @ CHR '' '' # t) = prepend [Word (map Lit k)] (sh_tokens t)"
  using tokens_plain[of k "CHR '' '' # t"] by (simp add: ends_word_def is_blank_def)

lemma op_then: "c \<in> set '';&|<>()'' \<Longrightarrow> sh_tokens (c # t) = prepend [Op c] (sh_tokens t)"
  by (intro tokens_op) (auto simp: is_op_def is_blank_def)

text \<open>A literal piece of template text as its words and operators.\<close>

definition lits :: "string \<Rightarrow> token" where "lits s = Word (map Lit s)"

lemma plain_words:
  "list_all plain_char ''rm''" "list_all plain_char ''-f''" "list_all plain_char ''ln''" "list_all plain_char ''-s''"
  "list_all plain_char ''mv''" "list_all plain_char ''-T''" "list_all plain_char ''2''"
  "list_all plain_char ''/dev/null''" "list_all plain_char ''{''" "list_all plain_char ''}''"
  "list_all plain_char ''git''" "list_all plain_char ''-C''" "list_all plain_char ''rev-parse''"
  by (simp_all add: plain_char_def is_blank_def is_op_def sh_chars)

lemma trim_quote: "trim_right (\<lambda>c. c = nl) (Quote x @ [nl]) = Quote x"
proof -
  have "last (Quote x) = sq" "Quote x \<noteq> []" by (simp_all add: Quote_def)
  then have "trim_right (\<lambda>c. c = nl) (Quote x @ [nl]) = Quote x @ trim_right (\<lambda>c. c = nl) [nl]"
    by (intro trim_right_app) (simp add: sq_def nl_def)
  then show ?thesis by (simp add: trim_right_def)
qed

lemmas plain_pieces =
  plain_then[of "''rm''", simplified] plain_then[of "''-f''", simplified] plain_then[of "''ln''", simplified]
  plain_then[of "''-s''", simplified] plain_then[of "''mv''", simplified] plain_then[of "''-T''", simplified]
  plain_then[of "''/dev/null''", simplified] plain_then[of "''{''", simplified] plain_then[of "''git''", simplified]
  plain_then[of "''-C''", simplified] plain_then[of "''rev-parse''", simplified]

lemmas read_back = plain_pieces plain_words[simplified] op_then

lemma two_redirect: "sh_tokens (CHR ''2'' # CHR ''>'' # t) = prepend [lits ''2'', Op (CHR ''>'')] (sh_tokens t)"
  using tokens_plain[of "''2''" "CHR ''>'' # t"] plain_words(7)
  by (simp add: ends_word_def is_op_def op_then lits_def)

lemma brace_end: "sh_tokens [CHR ''}''] = Some [lits ''}'']"
  using tokens_plain[of "''}''" "[]"] plain_words(10) by (simp add: ends_word_def sh_tokens.simps prepend_def lits_def)

text \<open>
  The commands that move the live release, release the lock and resolve the revision read back as
  exactly the intended words: every path, branch and release is one literal word, whatever characters
  it holds, and the live link is replaced by renaming a temporary link over it.
\<close>

theorem release_commands_tokens:
  "sh_tokens (publishCmd release current) = Some
     [lits ''rm'', lits ''-f'', lits (current @ ''.tmp''), Op (CHR '';''),
      lits ''ln'', lits ''-s'', lits release, lits (current @ ''.tmp''), Op (CHR '';''),
      lits ''mv'', lits ''-T'', lits (current @ ''.tmp''), lits current, lits ''2'', Op (CHR ''>''), lits ''/dev/null'',
      Op (CHR ''|''), Op (CHR ''|''), lits ''{'', lits ''rm'', lits ''-f'', lits current, Op (CHR '';''),
      lits ''mv'', lits (current @ ''.tmp''), lits current, Op (CHR '';''), lits ''}'']
   \<and> sh_tokens (unlockCmd l) = Some [lits ''rm'', lits ''-f'', lits (lock_path l)]
   \<and> sh_tokens (Revision g repo) = Some [lits ''git'', lits ''-C'', lits repo, lits ''rev-parse'', lits (g_Branch g)]"
proof (intro conjI)
  let ?tmp = "current @ ''.tmp''"
  let ?body = "''rm'' @ CHR '' '' # ''-f'' @ CHR '' '' # Quote ?tmp @ CHR '';'' # CHR '' '' # ''ln'' @ CHR '' '' # ''-s''
     @ CHR '' '' # Quote release @ CHR '' '' # Quote ?tmp @ CHR '';'' # CHR '' '' # ''mv'' @ CHR '' '' # ''-T'' @ CHR '' ''
     # Quote ?tmp @ CHR '' '' # Quote current @ CHR '' '' # CHR ''2'' # CHR ''>'' # ''/dev/null'' @ CHR '' '' # CHR ''|'' # CHR ''|''
     # CHR '' '' # ''{'' @ CHR '' '' # ''rm'' @ CHR '' '' # ''-f'' @ CHR '' '' # Quote current @ CHR '';'' # CHR '' ''
     # ''mv'' @ CHR '' '' # Quote ?tmp @ CHR '' '' # Quote current @ CHR '';'' # CHR '' '' # [CHR ''}'']"
  have e: "publishCmd release current = ?body"
    by (simp add: publishCmd_def Let_def MustRender_def trim_right_def nl_def)
  have "sh_tokens ?body = Some
     [lits ''rm'', lits ''-f'', lits ?tmp, Op (CHR '';''),
      lits ''ln'', lits ''-s'', lits release, lits ?tmp, Op (CHR '';''),
      lits ''mv'', lits ''-T'', lits ?tmp, lits current, lits ''2'', Op (CHR ''>''), lits ''/dev/null'',
      Op (CHR ''|''), Op (CHR ''|''), lits ''{'', lits ''rm'', lits ''-f'', lits current, Op (CHR '';''),
      lits ''mv'', lits ?tmp, lits current, Op (CHR '';''), lits ''}'']"
    by (simp add: read_back two_redirect brace_end) (simp add: lits_def prepend_def)
  then show "sh_tokens (publishCmd release current) = Some
     [lits ''rm'', lits ''-f'', lits ?tmp, Op (CHR '';''),
      lits ''ln'', lits ''-s'', lits release, lits ?tmp, Op (CHR '';''),
      lits ''mv'', lits ''-T'', lits ?tmp, lits current, lits ''2'', Op (CHR ''>''), lits ''/dev/null'',
      Op (CHR ''|''), Op (CHR ''|''), lits ''{'', lits ''rm'', lits ''-f'', lits current, Op (CHR '';''),
      lits ''mv'', lits ?tmp, lits current, Op (CHR '';''), lits ''}'']" unfolding e .
next
  have t: "trim_right (\<lambda>c. c = nl) (p @ Quote x @ [nl]) = p @ Quote x" if "p \<noteq> [] \<and> last p \<noteq> nl" for p x
    using that trim_right_app[of p "\<lambda>c. c = nl" "Quote x @ [nl]"] trim_quote by simp
  have "unlockCmd l = ''rm'' @ CHR '' '' # ''-f'' @ CHR '' '' # Quote (lock_path l)"
    using t[of "''rm -f ''" "lock_path l"] by (simp add: unlockCmd_def MustRender_def nl_def)
  then show "sh_tokens (unlockCmd l) = Some [lits ''rm'', lits ''-f'', lits (lock_path l)]"
    by (simp add: read_back) (simp add: lits_def prepend_def)
  have "Revision g repo = ''git'' @ CHR '' '' # ''-C'' @ CHR '' '' # Quote repo @ CHR '' '' # ''rev-parse'' @ CHR '' '' # Quote (g_Branch g)"
    using t[of "''git -C '' @ Quote repo @ '' rev-parse ''" "g_Branch g"]
    by (simp add: Revision_def line_of_def MustRender_def nl_def)
  then show "sh_tokens (Revision g repo) = Some [lits ''git'', lits ''-C'', lits repo, lits ''rev-parse'', lits (g_Branch g)]"
    by (simp add: read_back) (simp add: lits_def prepend_def)
qed

end
