(* ===== verification/Hosts.thy ===== *)
theory Hosts
  imports Executor
begin

text \<open>
  Which hosts a step runs on, and what happens to a host that cannot be reached
  (\<open>internal/executor/targets.go\<close> and the host part of \<open>executor.go\<close>): the filters, the
  \<open>on_unreachable\<close> policy, the error a step reports, and the setters of the render context, each of
  which drops the cached contexts.
\<close>

section \<open>Errors of a step\<close>

fun first_error :: "goerr option \<Rightarrow> result list \<Rightarrow> goerr option" where
  "first_error canceled [] = canceled"
| "first_error canceled (r # rs) = (case r_Err r of
      None \<Rightarrow> first_error canceled rs
    | Some err \<Rightarrow> if is_ctx_err err
        then first_error (case canceled of None \<Rightarrow> Some (wrapf (r_Host r) err) | Some c \<Rightarrow> Some c) rs
        else Some (wrapf (r_Host r) err))"

definition firstError :: "result list \<Rightarrow> goerr option" where
  "firstError results = first_error None results"

text \<open>The failures of a step, and those that are more than a cancellation.\<close>

definition failures :: "result list \<Rightarrow> (string \<times> goerr) list" where
  "failures rs = List.map_filter (\<lambda>r. map_option (Pair (r_Host r)) (r_Err r)) rs"

lemma failures_simps [simp]:
  "failures [] = []"
  "failures (r # rs) = (case r_Err r of None \<Rightarrow> failures rs | Some e \<Rightarrow> (r_Host r, e) # failures rs)"
  by (simp_all add: failures_def map_filter_simps split: option.split)

definition real_failures :: "result list \<Rightarrow> (string \<times> goerr) list" where
  "real_failures rs = filter (\<lambda>(h, e). \<not> is_ctx_err e) (failures rs)"

definition host_error :: "(string \<times> goerr) list \<Rightarrow> goerr option" where
  "host_error fs = (case fs of [] \<Rightarrow> None | (h, e) # _ \<Rightarrow> Some (wrapf h e))"

lemma first_error_real:
  "first_error c rs = (case real_failures rs of [] \<Rightarrow>
      (case c of Some e \<Rightarrow> Some e | None \<Rightarrow> host_error (failures rs)) | fs \<Rightarrow> host_error fs)"
  by (induction c rs rule: first_error.induct)
     (auto simp: real_failures_def host_error_def split: option.splits list.splits)

text \<open>
  The error a step reports is the first real failure in host order, whatever cancellations came
  with it; a cancellation is reported only when every failure is one, and then the first; and there
  is no error exactly when no host failed.
\<close>

theorem firstError_spec:
  "firstError rs = (if real_failures rs \<noteq> [] then host_error (real_failures rs) else host_error (failures rs))
   \<and> (firstError rs = None \<longleftrightarrow> \<not> Failed rs)"
proof -
  have "Failed rs \<longleftrightarrow> failures rs \<noteq> []"
    by (induction rs) (auto simp: Failed_def split: option.split)
  then show ?thesis
    by (auto simp: firstError_def first_error_real host_error_def real_failures_def split: list.splits)
qed

section \<open>The unreachable-host policy\<close>

fun skip_scan :: "(string \<Rightarrow> bool) \<Rightarrow> goerr option \<Rightarrow> result list \<Rightarrow> goerr option" where
  "skip_scan required canceled [] = canceled"
| "skip_scan required canceled (r # rs) = (case r_Err r of
      None \<Rightarrow> skip_scan required canceled rs
    | Some err \<Rightarrow>
        if is_ctx_err err
        then skip_scan required (case canceled of None \<Rightarrow> Some (wrapf (r_Host r) err) | Some c \<Rightarrow> Some c) rs
        else if \<not> is_unreachable err then Some (wrapf (r_Host r) err)
        else if required (r_Host r)
        then Some (wrapf (''required host '' @ r_Host r @ '' unreachable'') err)
        else skip_scan required canceled rs)"

text \<open>The dropped hosts are handed to \<open>drop_host\<close> in result order.\<close>

definition SkipUnreachable :: "host list \<Rightarrow> result list \<Rightarrow> (string \<Rightarrow> bool)
    \<Rightarrow> (string \<Rightarrow> goerr \<Rightarrow> 's \<Rightarrow> 's) \<Rightarrow> 's \<Rightarrow> (host list \<times> goerr option) \<times> 's" where
  "SkipUnreachable hosts results required drop_host s = (case skip_scan required None results of
      Some err \<Rightarrow> ((hosts, Some err), s)
    | None \<Rightarrow> (let dropped = map fst (failures results);
          s' = fold (\<lambda>(h, err). drop_host h err) (failures results) s
        in if dropped = [] then ((hosts, None), s')
           else ((filter (\<lambda>h. host_Address h \<notin> set dropped) hosts, None), s')))"

definition MarkUnreachable :: "string \<Rightarrow> 'w exec \<Rightarrow> 'w exec" where
  "MarkUnreachable host e = e\<lparr>e_unreachable := List.insert host (e_unreachable e)\<rparr>"

definition UnreachableHosts :: "'w exec \<Rightarrow> string list" where
  "UnreachableHosts e = sort (e_unreachable e)"

definition SetUnreachablePolicy :: "string \<Rightarrow> string list \<Rightarrow> 'w exec \<Rightarrow> 'w exec" where
  "SetUnreachablePolicy policy required e = e\<lparr>e_policy := policy, e_required := required\<rparr>"

definition skipUnreachable :: "'w exec \<Rightarrow> bool" where
  "skipUnreachable e \<longleftrightarrow> e_policy e = OnUnreachableSkip"

definition drop_warned :: "string \<Rightarrow> string \<Rightarrow> goerr \<Rightarrow> 'w exec \<Rightarrow> 'w exec" where
  "drop_warned task host err e = MarkUnreachable host
     (slog Warn ''host unreachable, skipping'' [(''task'', task), (''host'', host), (''error'', error_msg err)] e)"

definition applyUnreachablePolicy :: "string \<Rightarrow> host list \<Rightarrow> result list \<Rightarrow> 'w exec
    \<Rightarrow> (host list \<times> goerr option) \<times> 'w exec" where
  "applyUnreachablePolicy task hosts results e =
     (if \<not> skipUnreachable e then ((hosts, firstError results), e)
      else SkipUnreachable hosts results (\<lambda>h. List.member (e_required e) h) (drop_warned task) e)"

definition dropUnreachable :: "('t, 'w) ext \<Rightarrow> string \<Rightarrow> string \<Rightarrow> goerr \<Rightarrow> 'w exec \<Rightarrow> bool \<times> 'w exec" where
  "dropUnreachable x task host err e =
     (if \<not> skipUnreachable e \<or> ctx_Err x e \<noteq> None \<or> \<not> is_unreachable err \<or> List.member (e_required e) host
      then (False, e) else (True, drop_warned task host err e))"

definition filterExcluded :: "'w exec \<Rightarrow> host list \<Rightarrow> host list" where
  "filterExcluded e hosts = filter (\<lambda>h. \<not> List.member (e_unreachable e) (host_Address h)) hosts"

section \<open>The hosts of a step\<close>

definition exec_Hosts :: "'w exec \<Rightarrow> host list" where
  "exec_Hosts e = filterExcluded e
     (FilterByAddresses (FilterByRoles (FilterDeployable (cfg_Hosts (e_cfg e))) (e_roles e)) (e_limit e))"

definition task_pool :: "task \<Rightarrow> host list \<Rightarrow> host list" where
  "task_pool t hosts = (if task_AllHosts t then hosts
     else if task_NonDeploy t then FilterNonDeployable hosts else FilterDeployable hosts)"

definition targetsForTask :: "'w exec \<Rightarrow> task \<Rightarrow> host list" where
  "targetsForTask e t = (let hosts = filterExcluded e (FilterByAddresses
       (FilterByRoles (FilterByRoles (task_pool t (cfg_Hosts (e_cfg e))) (task_Roles t)) (e_roles e)) (e_limit e))
     in if task_Once t \<and> length hosts > 1 then PickPrimary hosts else hosts)"

definition target_of :: "host \<Rightarrow> target" where
  "target_of h = \<lparr>t_Host = host_Address h, t_Port = host_Port h, t_User = host_User h,
     t_IdentityFile = host_IdentityFile h, t_Passphrase = host_IdentityFilePassphrase h,
     t_Local = host_Local h, t_StrictHostKey = None\<rparr>"

definition Targets :: "host list \<Rightarrow> target list" where
  "Targets hosts = map target_of hosts"

definition taskTargets :: "task \<Rightarrow> host list \<Rightarrow> target list" where
  "taskTargets t hosts = (case task_StrictHostKey t of None \<Rightarrow> Targets hosts
     | Some b \<Rightarrow> map (\<lambda>x. x\<lparr>t_StrictHostKey := Some b\<rparr>) (Targets hosts))"

section \<open>Literal commands\<close>

definition runOn :: "('t, 'w) ext \<Rightarrow> host list \<Rightarrow> string \<Rightarrow> bool \<Rightarrow> 'w exec \<Rightarrow> result list \<times> 'w exec" where
  "runOn x hosts command failFast e =
     (if hosts = [] then ([], e)
      else if e_dryRun e then ([], if e_verbose e
        then fold (\<lambda>h. echoDryRun x (host_Address h) command) hosts e else e)
      else cluster_Run x (Targets hosts) (\<lambda>_. command) failFast
        (if e_verbose e then echoExec x [] command e else e))"

definition RunOn :: "('t, 'w) ext \<Rightarrow> host list \<Rightarrow> string \<Rightarrow> 'w exec \<Rightarrow> goerr option \<times> 'w exec" where
  "RunOn x hosts command e = (case runOn x hosts command True e of
     (results, e') \<Rightarrow> (if Failed results then firstError results else None, e'))"

definition RunOnReport :: "('t, 'w) ext \<Rightarrow> host list \<Rightarrow> string \<Rightarrow> 'w exec \<Rightarrow> result list \<times> 'w exec" where
  "RunOnReport x hosts command e = runOn x hosts command False e"

definition exec_Capture :: "('t, 'w) ext \<Rightarrow> host \<Rightarrow> string \<Rightarrow> 'w exec \<Rightarrow> string res \<times> 'w exec" where
  "exec_Capture x h command e = cluster_Capture x (target_of h) command e"

section \<open>The render context\<close>

definition invalidateRenderCache :: "'w exec \<Rightarrow> 'w exec" where
  "invalidateRenderCache e = e\<lparr>e_ctxCache := Map.empty\<rparr>"

definition set_base :: "(tctx \<Rightarrow> tctx) \<Rightarrow> 'w exec \<Rightarrow> 'w exec" where
  "set_base f e = invalidateRenderCache (e\<lparr>e_base := f (e_base e)\<rparr>)"

definition SetReleaseContext :: "string \<Rightarrow> string \<Rightarrow> 'w exec \<Rightarrow> 'w exec" where
  "SetReleaseContext releasePath timestamp =
     set_base (\<lambda>b. b\<lparr>tc_ReleasePath := releasePath, tc_ReleaseTimestamp := timestamp\<rparr>)"

definition SetCommitHash :: "string \<Rightarrow> 'w exec \<Rightarrow> 'w exec" where
  "SetCommitHash hash = set_base (\<lambda>b. b\<lparr>tc_CommitHash := hash\<rparr>)"

definition SetPreviousCommitHash :: "string \<Rightarrow> 'w exec \<Rightarrow> 'w exec" where
  "SetPreviousCommitHash hash = set_base (\<lambda>b. b\<lparr>tc_PreviousCommitHash := hash\<rparr>)"

definition SetChangelog :: "string \<Rightarrow> 'w exec \<Rightarrow> 'w exec" where
  "SetChangelog lg = set_base (\<lambda>b. b\<lparr>tc_Changelog := lg\<rparr>)"

definition SetError :: "string \<Rightarrow> 'w exec \<Rightarrow> 'w exec" where
  "SetError msg = set_base (\<lambda>b. b\<lparr>tc_DeployError := msg\<rparr>)"

definition setPhase :: "string \<Rightarrow> 'w exec \<Rightarrow> 'w exec" where
  "setPhase phase = set_base (\<lambda>b. b\<lparr>tc_Phase := phase\<rparr>)"

definition setTaskState :: "string \<Rightarrow> yval \<Rightarrow> 'w exec \<Rightarrow> 'w exec" where
  "setTaskState name v = set_base (\<lambda>b. b\<lparr>tc_Tasks := m_put name v (tc_Tasks b)\<rparr>)"

definition exec_Close :: "('t, 'w) ext \<Rightarrow> 'w exec \<Rightarrow> 'w exec" where
  "exec_Close x e = console_flush x (e\<lparr>e_cluster := Close (e_cluster e)\<rparr>)"

section \<open>What the policy guarantees\<close>

definition droppable :: "(string \<Rightarrow> bool) \<Rightarrow> string \<times> goerr \<Rightarrow> bool" where
  "droppable required f = (case f of (h, e) \<Rightarrow> \<not> is_ctx_err e \<and> is_unreachable e \<and> \<not> required h)"

lemma skip_scan_None:
  "skip_scan required c rs = None \<longleftrightarrow> c = None \<and> (\<forall>f\<in>set (failures rs). droppable required f)"
  by (induction required c rs rule: skip_scan.induct) (auto simp: droppable_def split: option.splits)

lemma mark_unreachable [simp]:
  "set (e_unreachable (MarkUnreachable h e)) = insert h (set (e_unreachable e))"
  "e_required (MarkUnreachable h e) = e_required e" "e_policy (MarkUnreachable h e) = e_policy e"
  "e_cfg (MarkUnreachable h e) = e_cfg e"
  by (simp_all add: MarkUnreachable_def)

lemma slog_fields [simp]:
  "e_unreachable (slog lv m a e) = e_unreachable e" "e_required (slog lv m a e) = e_required e"
  "e_policy (slog lv m a e) = e_policy e" "e_cfg (slog lv m a e) = e_cfg e"
  by (simp_all add: slog_def)

lemma drop_all:
  "set (e_unreachable (fold (\<lambda>(h, err). drop_warned task h err) fs e)) = set (e_unreachable e) \<union> fst ` set fs"
  "e_required (fold (\<lambda>(h, err). drop_warned task h err) fs e) = e_required e"
  by (induction fs arbitrary: e) (auto simp: drop_warned_def)

lemma member_abs: "List.member xs = (\<lambda>h. h \<in> set xs)" by (rule ext) simp

text \<open>
  Under \<open>on_unreachable: skip\<close> a step goes on exactly when every failed host was unreachable, was
  not cancelled and is not required; then exactly the failed hosts leave the step and are marked.
  Otherwise the step fails, no host is marked and none is dropped. Under \<open>abort\<close> nothing is ever
  marked.
\<close>

theorem applyUnreachablePolicy_spec:
  assumes "applyUnreachablePolicy task hosts results e = ((live, err), e')"
  shows "(skipUnreachable e \<and> err = None \<longrightarrow>
            (\<forall>f\<in>set (failures results). droppable (\<lambda>h. h \<in> set (e_required e)) f)
          \<and> live = filter (\<lambda>h. host_Address h \<notin> fst ` set (failures results)) hosts
          \<and> set (e_unreachable e') = set (e_unreachable e) \<union> fst ` set (failures results))
       \<and> (err \<noteq> None \<or> \<not> skipUnreachable e \<longrightarrow> live = hosts \<and> e' = e)
       \<and> (skipUnreachable e \<longrightarrow> (err = None \<longleftrightarrow>
            (\<forall>f\<in>set (failures results). droppable (\<lambda>h. h \<in> set (e_required e)) f)))"
proof (cases "skipUnreachable e")
  case False
  then show ?thesis using assms by (simp add: applyUnreachablePolicy_def)
next
  case True
  let ?scan = "skip_scan (\<lambda>h. h \<in> set (e_required e)) None results"
  show ?thesis
  proof (cases ?scan)
    case None
    then have "live = filter (\<lambda>h. host_Address h \<notin> fst ` set (failures results)) hosts" "err = None"
        "e' = fold (\<lambda>(h, err). drop_warned task h err) (failures results) e"
      using assms True
      by (auto simp: applyUnreachablePolicy_def SkipUnreachable_def Let_def member_abs split: if_splits)
    then show ?thesis using None True drop_all(1)[of task "failures results" e]
      by (auto simp: skip_scan_None)
  next
    case (Some er)
    then have "\<not> (\<forall>f\<in>set (failures results). droppable (\<lambda>h. h \<in> set (e_required e)) f)"
      using skip_scan_None[of "\<lambda>h. h \<in> set (e_required e)" None results] by auto
    then show ?thesis using Some assms True by (auto simp: applyUnreachablePolicy_def SkipUnreachable_def member_abs)
  qed
qed

text \<open>The pool a task selects from, and the hosts a run may touch at all.\<close>

definition task_selects :: "'w exec \<Rightarrow> task \<Rightarrow> host \<Rightarrow> bool" where
  "task_selects e t h \<longleftrightarrow> h \<in> set (cfg_Hosts (e_cfg e))
     \<and> (task_AllHosts t \<or> DeployEnabled h \<noteq> task_NonDeploy t)
     \<and> (task_Roles t = [] \<or> (\<exists>r\<in>set (task_Roles t). HasRole h r))
     \<and> (e_roles e = [] \<or> (\<exists>r\<in>set (e_roles e). HasRole h r))
     \<and> (e_limit e = [] \<or> host_Address h \<in> set (e_limit e))
     \<and> host_Address h \<notin> set (e_unreachable e)"

lemma selected_set:
  "set (filterExcluded e (FilterByAddresses (FilterByRoles (FilterByRoles
      (task_pool t (cfg_Hosts (e_cfg e))) (task_Roles t)) (e_roles e)) (e_limit e))) = {h. task_selects e t h}"
  by (auto simp: task_selects_def filterExcluded_def FilterByAddresses_def FilterByRoles_def task_pool_def
      FilterNonDeployable_def FilterDeployable_def list_ex_iff)

lemma PickPrimary_sub: "set (PickPrimary hs) \<subseteq> set hs" "length (PickPrimary hs) \<le> 1"
  "hs \<noteq> [] \<Longrightarrow> PickPrimary hs \<noteq> []"
proof -
  have "first_primary hs = Some h \<Longrightarrow> h \<in> set hs" for h by (induction hs) (auto split: if_splits)
  then show "set (PickPrimary hs) \<subseteq> set hs" "length (PickPrimary hs) \<le> 1" "hs \<noteq> [] \<Longrightarrow> PickPrimary hs \<noteq> []"
    by (auto simp: PickPrimary_def dest: in_set_takeD split: option.splits)
qed

text \<open>
  A task runs on exactly the hosts it selects: in the inventory, allowed by its deploy flags, its
  roles, the global role and host filters, and not marked unreachable; a \<open>once\<close> task runs on one of
  them, and on none only when there is none.
\<close>

theorem targetsForTask_spec:
  "(\<not> task_Once t \<longrightarrow> set (targetsForTask e t) = {h. task_selects e t h})
   \<and> (\<forall>h\<in>set (targetsForTask e t). task_selects e t h)
   \<and> (task_Once t \<longrightarrow> length (targetsForTask e t) \<le> 1)
   \<and> (targetsForTask e t = [] \<longleftrightarrow> (\<forall>h. \<not> task_selects e t h))"
proof -
  define hs where "hs = filterExcluded e (FilterByAddresses (FilterByRoles (FilterByRoles
      (task_pool t (cfg_Hosts (e_cfg e))) (task_Roles t)) (e_roles e)) (e_limit e))"
  have set: "set hs = {h. task_selects e t h}" unfolding hs_def by (rule selected_set)
  have t: "targetsForTask e t = (if task_Once t \<and> length hs > 1 then PickPrimary hs else hs)"
    by (simp add: targetsForTask_def hs_def Let_def)
  have "hs = [] \<longleftrightarrow> (\<forall>h. \<not> task_selects e t h)" using set by (metis empty_Collect_eq set_empty)
  moreover have "targetsForTask e t = [] \<longleftrightarrow> hs = []" using PickPrimary_sub(3)[of hs] by (auto simp: t)
  ultimately show ?thesis using PickPrimary_sub[of hs] set by (auto simp: t)
qed

section \<open>A concrete step\<close>

definition two_web :: "host list" where
  "two_web = [zero_host\<lparr>host_Address := ''w1'', host_Roles := [''web'']\<rparr>, zero_host\<lparr>host_Address := ''w2''\<rparr>]"

definition demo_opts :: exec_options where
  "demo_opts = \<lparr>o_Strict = True, o_DryRun = False, o_Verbose = False, o_Roles = [], o_Limit = [],
     o_Concurrency = 0, o_Color = False\<rparr>"

definition demo_exec :: "nat exec" where
  "demo_exec = SetUnreachablePolicy OnUnreachableSkip [''w1'']
     (New_executor (zero_cfg\<lparr>cfg_Hosts := two_web\<rparr>) demo_opts [] YNull [] no_secrets 0)"

definition w2_down :: "result list" where
  "w2_down = [\<lparr>r_Host = ''w1'', r_Err = None\<rparr>, \<lparr>r_Host = ''w2'', r_Err = Some (UnreachableError boom)\<rparr>]"

lemma applyUnreachablePolicy_spec_witness:
  "\<exists>live e'. applyUnreachablePolicy ''t'' two_web w2_down demo_exec = ((live, None), e')
     \<and> map host_Address live = [''w1''] \<and> set (e_unreachable e') = {''w2''}"
proof -
  have p: "skipUnreachable demo_exec" "e_required demo_exec = [''w1'']" "e_unreachable demo_exec = []"
    by (simp_all add: skipUnreachable_def demo_exec_def SetUnreachablePolicy_def New_executor_def)
  obtain live err e' where r: "applyUnreachablePolicy ''t'' two_web w2_down demo_exec = ((live, err), e')"
    by (metis prod_cases3 surj_pair)
  have d: "\<forall>f\<in>set (failures w2_down). droppable (\<lambda>h. h \<in> set (e_required demo_exec)) f"
    by (simp add: w2_down_def droppable_def p boom_def)
  note s = applyUnreachablePolicy_spec[OF r]
  have e: "err = None" using s d p(1) by blast
  then have "live = filter (\<lambda>h. host_Address h \<notin> fst ` set (failures w2_down)) two_web"
    "set (e_unreachable e') = set (e_unreachable demo_exec) \<union> fst ` set (failures w2_down)"
    using s p(1) by blast+
  then show ?thesis using r e p by (simp add: w2_down_def two_web_def zero_host_def)
qed

lemma targetsForTask_spec_witness:
  "map host_Address (targetsForTask demo_exec (zero_task\<lparr>task_Roles := [''web'']\<rparr>)) = [''w1'']
   \<and> set (targetsForTask demo_exec (zero_task\<lparr>task_Roles := [''web'']\<rparr>))
     = {h. task_selects demo_exec (zero_task\<lparr>task_Roles := [''web'']\<rparr>) h}"
proof -
  have "map host_Address (targetsForTask demo_exec (zero_task\<lparr>task_Roles := [''web'']\<rparr>)) = [''w1'']"
    by code_simp
  moreover have "\<not> task_Once (zero_task\<lparr>task_Roles := [''web'']\<rparr>)" by (simp add: zero_task_def)
  ultimately show ?thesis
    using targetsForTask_spec[of "zero_task\<lparr>task_Roles := [''web'']\<rparr>" demo_exec] by blast
qed

end
