(* ===== verification/Render.thy ===== *)
theory Render
  imports Hosts
begin

text \<open>
  What a command sees (\<open>internal/executor/render.go\<close>): the render context of a host with its cache,
  the exported environment and the working directory.

  The cache is held against \<open>fresh_context\<close>, the context computed from the current state: the
  invariant \<open>cache_ok\<close> says that every cached context is the fresh one.
\<close>

section \<open>Names\<close>

definition upper_alnum :: "char \<Rightarrow> bool" where
  "upper_alnum c \<longleftrightarrow> (65 \<le> (of_char c :: nat) \<and> of_char c \<le> (90 :: nat))
     \<or> (48 \<le> (of_char c :: nat) \<and> of_char c \<le> (57 :: nat))"

fun env_name_loop :: "bool \<Rightarrow> string \<Rightarrow> string" where
  "env_name_loop underscore [] = []"
| "env_name_loop underscore (r # rs) =
     (if upper_alnum r then r # env_name_loop False rs
      else if \<not> underscore then CHR ''_'' # env_name_loop True rs
      else env_name_loop underscore rs)"

definition EnvName :: "string \<Rightarrow> string" where
  "EnvName s = (let u = (\<lambda>c. c = CHR ''_'') in
     trim_right u (trim_left u (env_name_loop False (map to_upper_char s))))"

definition ImportEnv :: "string smap smap \<Rightarrow> string smap" where
  "ImportEnv imports = fold (\<lambda>(ns, kv) out.
     fold (\<lambda>(k, v) out. m_put (EnvName (ns @ ''_'' @ k)) v out) kv out) imports []"

definition scriptLabel :: "script \<Rightarrow> string" where
  "scriptLabel sc = (if sc_Name sc \<noteq> [] then sc_Name sc
     else if sc_Path sc \<noteq> [] then path_base (sc_Path sc) else ''inline'')"

definition rolesFor :: "'w exec \<Rightarrow> string \<Rightarrow> string list" where
  "rolesFor e host = fold (\<lambda>h roles. if host_Address h \<noteq> host then roles
       else fold (\<lambda>r roles. if List.member roles r then roles else roles @ [r]) (host_Roles h) roles)
     (cfg_Hosts (e_cfg e)) []"

section \<open>Contexts\<close>

definition baseContext :: "'w exec \<Rightarrow> string \<Rightarrow> tctx" where
  "baseContext e host = (e_base e)\<lparr>tc_Host := host, tc_Roles := rolesFor e host\<rparr>"

definition add_secrets :: "string list \<Rightarrow> 'w exec \<Rightarrow> 'w exec" where
  "add_secrets secs e = e\<lparr>e_secrets := fold AddSecret secs (e_secrets e)\<rparr>"

text \<open>Rendering the values of an environment map; the first error ends it.\<close>

fun render_values :: "(string \<Rightarrow> string res \<times> string list) \<Rightarrow> string smap \<Rightarrow> string smap res \<times> string list" where
  "render_values rd [] = (Inr [], [])"
| "render_values rd ((k, v) # kvs) = (case rd v of
      (Inl err, secs) \<Rightarrow> (Inl (wrapf (''env '' @ quoted k) err), secs)
    | (Inr rv, secs) \<Rightarrow> (case render_values rd kvs of
          (Inl err, secs') \<Rightarrow> (Inl err, secs @ secs')
        | (Inr out, secs') \<Rightarrow> (Inr ((k, rv) # out), secs @ secs')))"

definition globalEnv :: "('t, 'w) ext \<Rightarrow> string \<Rightarrow> 'w exec \<Rightarrow> string smap res \<times> string list" where
  "globalEnv x host e = (if e_env e = [] then (Inr [], [])
     else render_values (\<lambda>v. RenderWith (x_engine x) v (baseContext e host) (\<not> e_dryRun e)) (e_env e))"

definition put_ctx :: "string \<Rightarrow> tctx \<Rightarrow> 'w exec \<Rightarrow> 'w exec" where
  "put_ctx host c e = e\<lparr>e_ctxCache := (e_ctxCache e)(host \<mapsto> c)\<rparr>"

definition renderContext :: "('t, 'w) ext \<Rightarrow> string \<Rightarrow> 'w exec \<Rightarrow> tctx res \<times> 'w exec" where
  "renderContext x host e = (case e_ctxCache e host of
      Some c \<Rightarrow> (Inr c, e)
    | None \<Rightarrow> (case globalEnv x host e of
          (Inl err, secs) \<Rightarrow>
            if \<not> e_dryRun e then (Inl err, add_secrets secs e)
            else (Inr (baseContext e host), put_ctx host (baseContext e host) (add_secrets secs e))
        | (Inr ge, secs) \<Rightarrow>
            (let c = (baseContext e host)\<lparr>tc_GlobalEnvValues := ge\<rparr>
             in (Inr c, put_ctx host c (add_secrets secs e)))))"

definition exec_render :: "('t, 'w) ext \<Rightarrow> string \<Rightarrow> string \<Rightarrow> 'w exec \<Rightarrow> string res \<times> 'w exec" where
  "exec_render x raw host e = (case renderContext x host e of
      (Inl err, e') \<Rightarrow> (Inl err, e')
    | (Inr c, e') \<Rightarrow> (case RenderWith (x_engine x) raw c (\<not> e_dryRun e') of
          (r, secs) \<Rightarrow> (r, add_secrets secs e')))"

text \<open>\<open>renderEnvMap\<close> renders each value with \<open>render\<close>.\<close>

fun renderEnvMap :: "('t, 'w) ext \<Rightarrow> string smap \<Rightarrow> string \<Rightarrow> 'w exec \<Rightarrow> string smap res \<times> 'w exec" where
  "renderEnvMap x [] host e = (Inr [], e)"
| "renderEnvMap x ((k, v) # kvs) host e = (case exec_render x v host e of
      (Inl err, e') \<Rightarrow> (Inl (wrapf (''env '' @ quoted k) err), e')
    | (Inr rv, e') \<Rightarrow> (case renderEnvMap x kvs host e' of
          (Inl err, e'') \<Rightarrow> (Inl err, e'') | (Inr out, e'') \<Rightarrow> (Inr ((k, rv) # out), e'')))"

definition deploy_env :: "tctx \<Rightarrow> string \<Rightarrow> string list \<Rightarrow> string smap" where
  "deploy_env b host roles =
    [(''DEPLOY_TO'', tc_DeployTo b), (''RELEASES_PATH'', tc_ReleasesPath b), (''SHARED_PATH'', tc_SharedPath b),
     (''REPO_PATH'', tc_RepoPath b), (''CURRENT_PATH'', tc_CurrentPath b), (''RELEASE_PATH'', tc_ReleasePath b),
     (''RELEASE_TIMESTAMP'', tc_ReleaseTimestamp b), (''COMMIT_HASH'', tc_CommitHash b),
     (''PREVIOUS_COMMIT_HASH'', tc_PreviousCommitHash b), (''APP_NAME'', tc_AppName b),
     (''BRANCH'', tc_Branch b), (''REPO'', tc_Repo b), (''STAGE'', tc_Stage b), (''DEPLOYER'', tc_Deployer b),
     (''HOST'', host), (''ROLES'', join_on '','' roles), (''DEPLOY_PHASE'', tc_Phase b),
     (''DEPLOY_ERROR'', tc_DeployError b), (''DEPLOY_CHANGELOG'', tc_Changelog b),
     (''KEEP_RELEASES'', itoa (tc_KeepReleases b))]"

definition execEnv :: "('t, 'w) ext \<Rightarrow> string \<Rightarrow> task \<Rightarrow> 'w exec \<Rightarrow> env res \<times> 'w exec" where
  "execEnv x host t e = (case renderContext x host e of
      (Inl err, e1) \<Rightarrow> (Inl err, e1)
    | (Inr c, e1) \<Rightarrow>
        (let env = SetLiteral (SetLiteral (SetExpand (SetLiteral [] (cfg_EnvFileValues (e_cfg e1)))
               (tc_GlobalEnvValues c)) (deploy_env (e_base e1) host (tc_Roles c)))
             (ImportEnv (cfg_Imports (e_cfg e1)))
         in (case renderEnvMap x (task_Envs t) host e1 of
              (Inl err, e2) \<Rightarrow> (Inl err, e2)
            | (Inr taskEnv, e2) \<Rightarrow> (Inr (SetExpand env taskEnv), e2))))"

definition readScriptFile :: "('t, 'w) ext \<Rightarrow> 'w exec \<Rightarrow> string \<Rightarrow> string res" where
  "readScriptFile x e p = (let full = (if is_abs p then p else path_join [e_scriptsDir e, p]) in
     (case x_readfile x full of Inl err \<Rightarrow> Inl (wrapf (''read script '' @ quoted p) err) | Inr d \<Rightarrow> Inr d))"

definition taskDir :: "('t, 'w) ext \<Rightarrow> task \<Rightarrow> string \<Rightarrow> 'w exec \<Rightarrow> string res \<times> 'w exec" where
  "taskDir x t host e = (if task_Dir t \<noteq> [] then exec_render x (task_Dir t) host e
     else if task_Local t then (Inr [], e) else (Inr (tc_ReleasePath (e_base e)), e))"

definition exec_renderParams :: "('t, 'w) ext \<Rightarrow> yval smap \<Rightarrow> 'w exec \<Rightarrow> yval smap res \<times> 'w exec" where
  "exec_renderParams x params e = (case renderContext x [] e of
      (Inl err, e') \<Rightarrow> (Inl err, e')
    | (Inr c, e') \<Rightarrow> (case RenderParams (x_engine x) params c (\<not> e_dryRun e') of
          (r, secs) \<Rightarrow> (r, add_secrets secs e')))"

section \<open>The cache is transparent\<close>

definition fresh_context :: "('t, 'w) ext \<Rightarrow> string \<Rightarrow> 'w exec \<Rightarrow> tctx res" where
  "fresh_context x host e = (case fst (globalEnv x host e) of
      Inl err \<Rightarrow> if e_dryRun e then Inr (baseContext e host) else Inl err
    | Inr ge \<Rightarrow> Inr ((baseContext e host)\<lparr>tc_GlobalEnvValues := ge\<rparr>))"

definition cache_ok :: "('t, 'w) ext \<Rightarrow> 'w exec \<Rightarrow> bool" where
  "cache_ok x e \<longleftrightarrow> (\<forall>host c. e_ctxCache e host = Some c \<longrightarrow> fresh_context x host e = Inr c)"

text \<open>What a context depends on.\<close>

definition ctx_inputs :: "'w exec \<Rightarrow> tctx \<times> string smap \<times> bool \<times> deploy_file" where
  "ctx_inputs e = (e_base e, e_env e, e_dryRun e, e_cfg e)"

lemma baseContext_cong: "ctx_inputs e = ctx_inputs d \<Longrightarrow> baseContext e h = baseContext d h"
  by (simp add: ctx_inputs_def baseContext_def rolesFor_def)

lemma fresh_cong: "ctx_inputs e = ctx_inputs d \<Longrightarrow> fresh_context x h e = fresh_context x h d"
proof -
  assume i: "ctx_inputs e = ctx_inputs d"
  then have "globalEnv x h e = globalEnv x h d"
    using baseContext_cong[OF i] by (simp add: globalEnv_def ctx_inputs_def)
  then show ?thesis using baseContext_cong[OF i, of h] i
    by (simp add: fresh_context_def ctx_inputs_def split: sum.split)
qed

text \<open>
  \<open>evolves x e d\<close>: the state \<open>d\<close> renders as \<open>e\<close> does, and its cache is coherent if that of
  \<open>e\<close> was.
\<close>

definition evolves :: "('t, 'w) ext \<Rightarrow> 'w exec \<Rightarrow> 'w exec \<Rightarrow> bool" where
  "evolves x e d \<longleftrightarrow> ctx_inputs d = ctx_inputs e \<and> (cache_ok x e \<longrightarrow> cache_ok x d)"

lemma evolves_refl [simp]: "evolves x e e" by (simp add: evolves_def)

lemma evolves_trans [trans]: "evolves x e d \<Longrightarrow> evolves x d c \<Longrightarrow> evolves x e c"
  by (simp add: evolves_def)

lemma evolves_same:
  "ctx_inputs d = ctx_inputs e \<Longrightarrow> e_ctxCache d = e_ctxCache e \<Longrightarrow> evolves x e d"
  using fresh_cong[of d e x] by (simp add: evolves_def cache_ok_def)

lemma evolves_core: "core_of d = core_of e \<Longrightarrow> evolves x e d"
  by (rule evolves_same) (simp_all add: core_of_eq ctx_inputs_def)

lemma evolves_secrets [simp]: "evolves x e (add_secrets secs e)"
  by (rule evolves_same) (simp_all add: add_secrets_def ctx_inputs_def)

lemma renderContext_spec:
  assumes "cache_ok x e" "renderContext x host e = (r, e')"
  shows "r = fresh_context x host e"
proof (cases "e_ctxCache e host")
  case None
  then show ?thesis using assms(2)
    by (auto simp: renderContext_def fresh_context_def Let_def split: prod.splits sum.splits if_splits)
next
  case (Some c)
  then show ?thesis using assms by (simp add: renderContext_def cache_ok_def)
qed

lemma renderContext_evolves: "evolves x e (snd (renderContext x host e))"
proof (cases "e_ctxCache e host")
  case (Some c)
  then show ?thesis by (simp add: renderContext_def)
next
  case None
  have put: "evolves x e (put_ctx host c (add_secrets secs e))" if "fresh_context x host e = Inr c" for c secs
  proof -
    let ?d = "put_ctx host c (add_secrets secs e)"
    have i: "ctx_inputs ?d = ctx_inputs e" by (simp add: put_ctx_def add_secrets_def ctx_inputs_def)
    have "cache_ok x e \<Longrightarrow> cache_ok x ?d"
      using that fresh_cong[OF i, of x] by (auto simp: cache_ok_def put_ctx_def add_secrets_def)
    then show ?thesis using i by (simp add: evolves_def)
  qed
  show ?thesis using None put
    by (auto simp: renderContext_def fresh_context_def Let_def split: prod.splits sum.splits)
qed

lemma exec_render_evolves: "evolves x e (snd (exec_render x raw host e))"
  using renderContext_evolves[of x e host]
  by (auto simp: exec_render_def split: prod.splits sum.splits intro: evolves_trans)

lemma renderEnvMap_evolves: "evolves x e (snd (renderEnvMap x m host e))"
proof (induction x m host e rule: renderEnvMap.induct)
  case (2 x k v kvs host e)
  then show ?case using exec_render_evolves[of x e v host]
    by (auto split: prod.splits sum.splits intro: evolves_trans)
qed simp

lemma execEnv_evolves: "evolves x e (snd (execEnv x host t e))"
proof -
  obtain r e1 where 1: "renderContext x host e = (r, e1)" by fastforce
  have "evolves x e e1" using renderContext_evolves[of x e host] 1 by simp
  then show ?thesis using 1 renderEnvMap_evolves[of x e1 "task_Envs t" host]
    by (auto simp: execEnv_def Let_def split: prod.splits sum.splits intro: evolves_trans)
qed

lemma taskDir_evolves: "evolves x e (snd (taskDir x t host e))"
  by (simp add: taskDir_def exec_render_evolves)

lemma exec_renderParams_evolves: "evolves x e (snd (exec_renderParams x params e))"
  using renderContext_evolves[of x e "[]"]
  by (auto simp: exec_renderParams_def split: prod.splits sum.splits intro: evolves_trans)

text \<open>A setter of the context empties the cache, so it cannot leave a stale entry.\<close>

lemma set_base_cache [simp]: "cache_ok x (set_base f e)"
  by (simp add: cache_ok_def set_base_def invalidateRenderCache_def)

lemmas setters = SetReleaseContext_def SetCommitHash_def SetPreviousCommitHash_def SetChangelog_def
  SetError_def setPhase_def setTaskState_def

lemma New_cache [simp]: "cache_ok x (New_executor cfg opts dep m sc reg w)"
  by (simp add: cache_ok_def New_executor_def)

text \<open>
  C32. The cached render contexts are never stale: from a coherent state, rendering a context gives
  exactly the context computed from the current deploy state, and leaves a coherent state; a new
  executor is coherent, and so is the state after any setter (release, commit, changelog, phase,
  error, task state).
\<close>

theorem render_cache_transparent:
  assumes "cache_ok x e"
  shows "fst (renderContext x host e) = fresh_context x host e
    \<and> cache_ok x (snd (renderContext x host e))
    \<and> cache_ok x (snd (execEnv x host t e)) \<and> cache_ok x (snd (exec_render x raw host e))
    \<and> cache_ok x (SetReleaseContext p ts e) \<and> cache_ok x (SetCommitHash sha e)
    \<and> cache_ok x (SetChangelog lg e) \<and> cache_ok x (SetError msg e) \<and> cache_ok x (setPhase ph e)
    \<and> cache_ok x (setTaskState n v e)"
  using assms renderContext_spec[OF assms, of host] renderContext_evolves[of x e host]
    execEnv_evolves[of x e host t] exec_render_evolves[of x e raw host]
  by (auto simp: evolves_def setters prod_eq_iff)

section \<open>Which value a shell variable has\<close>

lemma SetLiteral_get: "wf_map m \<Longrightarrow> m_get (SetLiteral e m) k = (case m_get m k of
     Some v \<Rightarrow> Some \<lparr>ev_Value = v, ev_Expand = False\<rparr> | None \<Rightarrow> m_get e k)"
proof (induction m arbitrary: e)
  case (Cons kv m)
  obtain j v where kv: "kv = (j, v)" by (cases kv)
  have "wf_map m" "j \<notin> fst ` set m" using Cons.prems kv by (auto simp: wf_map_def)
  then show ?case
    using Cons.IH[of "m_put j \<lparr>ev_Value = v, ev_Expand = False\<rparr> e"] kv
    by (auto simp: SetLiteral_def dest: map_of_eq_None_iff[THEN iffD2] split: option.splits)
qed (simp add: SetLiteral_def)

lemma SetExpand_get: "wf_map m \<Longrightarrow> m_get (SetExpand e m) k = (case m_get m k of
     Some v \<Rightarrow> Some \<lparr>ev_Value = v, ev_Expand = True\<rparr> | None \<Rightarrow> m_get e k)"
proof (induction m arbitrary: e)
  case (Cons kv m)
  obtain j v where kv: "kv = (j, v)" by (cases kv)
  have "wf_map m" "j \<notin> fst ` set m" using Cons.prems kv by (auto simp: wf_map_def)
  then show ?case
    using Cons.IH[of "m_put j \<lparr>ev_Value = v, ev_Expand = True\<rparr> e"] kv
    by (auto simp: SetExpand_def dest: map_of_eq_None_iff[THEN iffD2] split: option.splits)
qed (simp add: SetExpand_def)

lemma deploy_env_wf: "wf_map (deploy_env b host roles)"
  by (simp add: wf_map_def deploy_env_def)

lemma fold_puts_wf: "wf_map out \<Longrightarrow> wf_map (fold (\<lambda>(k, v) out. m_put (f k) v out) kv out)"
  by (induction kv arbitrary: out) auto

lemma ImportEnv_wf: "wf_map (ImportEnv imports)"
proof -
  have gen: "wf_map out \<Longrightarrow> wf_map (fold (\<lambda>(ns, kv) out. fold (\<lambda>(k, v) out. m_put (g ns k) v out) kv out) imps out)"
    for imps out and g :: "string \<Rightarrow> string \<Rightarrow> string"
    by (induction imps arbitrary: out) (auto simp: fold_puts_wf)
  show ?thesis unfolding ImportEnv_def
    by (rule gen[of "[]" "\<lambda>ns k. EnvName (ns @ ''_'' @ k)"]) (simp add: wf_map_def)
qed

lemma renderEnvMap_keys: "fst (renderEnvMap x m host e) = Inr out \<Longrightarrow> map fst out = map fst m"
proof (induction x m host e arbitrary: out rule: renderEnvMap.induct)
  case (2 x k v kvs host e)
  obtain r e' where r: "exec_render x v host e = (r, e')" by fastforce
  show ?case
  proof (cases r)
    case (Inl err)
    then show ?thesis using 2(2) r by simp
  next
    case (Inr rv)
    obtain q e'' where q: "renderEnvMap x kvs host e' = (q, e'')" by fastforce
    show ?thesis
    proof (cases q)
      case (Inl err)
      then show ?thesis using 2(2) r Inr q by simp
    next
      case Inr': (Inr out')
      then show ?thesis using 2(1)[OF r[symmetric] Inr, of out'] 2(2) r Inr q by auto
    qed
  qed
qed simp

lemma render_values_keys: "fst (render_values rd m) = Inr out \<Longrightarrow> map fst out = map fst m"
  by (induction rd m arbitrary: out rule: render_values.induct) (auto split: prod.splits sum.splits)

text \<open>The value one layer of the environment gives a name, literal or expandable.\<close>

definition layer :: "bool \<Rightarrow> string smap \<Rightarrow> string \<Rightarrow> env_value option" where
  "layer expand m k = map_option (\<lambda>v. \<lparr>ev_Value = v, ev_Expand = expand\<rparr>) (m_get m k)"

definition first_of :: "'a option list \<Rightarrow> 'a option" where
  "first_of os = (case List.find (\<lambda>v. v \<noteq> None) os of Some v \<Rightarrow> v | None \<Rightarrow> None)"

lemma execEnv_layers:
  assumes "execEnv x host t e = (Inr env, e')" and "cache_ok x e"
    and "wf_map (cfg_EnvFileValues (e_cfg e))" and "wf_map (e_env e)" and "wf_map (task_Envs t)"
    and "wf_map (tc_GlobalEnvValues (e_base e))"
  shows "\<exists>c taskEnv. fresh_context x host e = Inr c \<and> map fst taskEnv = map fst (task_Envs t)
    \<and> (\<forall>k. m_get env k = first_of [layer True taskEnv k, layer False (ImportEnv (cfg_Imports (e_cfg e))) k,
          layer False (deploy_env (e_base e) host (tc_Roles c)) k, layer True (tc_GlobalEnvValues c) k,
          layer False (cfg_EnvFileValues (e_cfg e)) k])"
proof -
  obtain r e1 where 1: "renderContext x host e = (r, e1)" by fastforce
  have i: "ctx_inputs e1 = ctx_inputs e" using renderContext_evolves[of x e host] 1 by (simp add: evolves_def)
  obtain c where c: "r = Inr c" using assms(1) 1 by (cases r) (simp_all add: execEnv_def)
  have fresh: "fresh_context x host e = Inr c" using renderContext_spec[OF assms(2) 1] c by simp
  obtain taskEnv e2 where 2: "renderEnvMap x (task_Envs t) host e1 = (Inr taskEnv, e2)"
    using assms(1) 1 c by (auto simp: execEnv_def Let_def split: prod.splits sum.splits)
  have keys: "map fst taskEnv = map fst (task_Envs t)"
    using renderEnvMap_keys[of x "task_Envs t" host e1 taskEnv] 2 by simp
  have wfg: "wf_map (tc_GlobalEnvValues c)"
  proof (cases "fst (globalEnv x host e)")
    case (Inl err)
    then have "c = baseContext e host" using fresh by (simp add: fresh_context_def split: if_splits)
    then show ?thesis using assms(6) by (simp add: baseContext_def)
  next
    case (Inr ge)
    then have "c = (baseContext e host)\<lparr>tc_GlobalEnvValues := ge\<rparr>" using fresh by (simp add: fresh_context_def)
    moreover have "wf_map ge" using Inr render_values_keys assms(4)
      by (auto simp: globalEnv_def wf_map_def split: if_splits)
    ultimately show ?thesis by simp
  qed
  have env: "env = SetExpand (SetLiteral (SetLiteral (SetExpand (SetLiteral [] (cfg_EnvFileValues (e_cfg e)))
      (tc_GlobalEnvValues c)) (deploy_env (e_base e) host (tc_Roles c))) (ImportEnv (cfg_Imports (e_cfg e)))) taskEnv"
    using assms(1) 1 c 2 i by (simp add: execEnv_def Let_def ctx_inputs_def)
  have wft: "wf_map taskEnv" using keys assms(5) by (simp add: wf_map_def)
  have "m_get env k = first_of [layer True taskEnv k, layer False (ImportEnv (cfg_Imports (e_cfg e))) k,
          layer False (deploy_env (e_base e) host (tc_Roles c)) k, layer True (tc_GlobalEnvValues c) k,
          layer False (cfg_EnvFileValues (e_cfg e)) k]" for k
    unfolding env by (simp add: SetExpand_get SetLiteral_get wft wfg deploy_env_wf ImportEnv_wf assms(3)
        first_of_def layer_def split: option.split)
  then show ?thesis using fresh keys by blast
qed

text \<open>
  C21. The environment exported for a command: a name means the task's value, else the plugin import,
  else the deployment's own value, else the global \<open>envs\<close> value rendered for the host, else the
  \<open>env_files\<close> value. Only the two user-written layers may expand at run time; every other
  value is exported literally.
\<close>

theorem execEnv_precedence:
  assumes "execEnv x host t e = (Inr env, e')" and "cache_ok x e"
    and "wf_map (cfg_EnvFileValues (e_cfg e))" and "wf_map (e_env e)" and "wf_map (task_Envs t)"
    and "wf_map (tc_GlobalEnvValues (e_base e))"
  shows "\<exists>c taskEnv. fresh_context x host e = Inr c \<and> map fst taskEnv = map fst (task_Envs t)
    \<and> (\<forall>k. m_get env k = first_of [layer True taskEnv k, layer False (ImportEnv (cfg_Imports (e_cfg e))) k,
          layer False (deploy_env (e_base e) host (tc_Roles c)) k, layer True (tc_GlobalEnvValues c) k,
          layer False (cfg_EnvFileValues (e_cfg e)) k])"
  using assms by (rule execEnv_layers)

section \<open>A concrete context\<close>

definition demo_render :: "nat exec" where
  "demo_render = demo_exec\<lparr>e_env := [(''PATH'', ''$HOME/bin'')]\<rparr>"

lemma demo_render_cache: "cache_ok demo_ext demo_render" "e_ctxCache demo_render = Map.empty"
  by (simp_all add: cache_ok_def demo_render_def demo_exec_def SetUnreachablePolicy_def New_executor_def)

lemma demo_render_env: "globalEnv demo_ext ''w1'' demo_render = (Inr [(''PATH'', ''$HOME/bin'')], [])"
  by (simp add: globalEnv_def demo_render_def demo_ext_def text_engine_def RenderWith_def Render_def)

lemma render_cache_transparent_witness:
  "fst (renderContext demo_ext ''w1'' demo_render)
     = Inr ((baseContext demo_render ''w1'')\<lparr>tc_GlobalEnvValues := [(''PATH'', ''$HOME/bin'')]\<rparr>)
   \<and> cache_ok demo_ext (snd (renderContext demo_ext ''w1'' demo_render))"
  using render_cache_transparent[OF demo_render_cache(1)]
  by (simp add: fresh_context_def demo_render_env)

definition mine :: task where
  "mine = zero_task\<lparr>task_Envs := [(''HOST'', ''mine'')]\<rparr>"

lemma demo_execEnv: "\<exists>ev e2. execEnv demo_ext ''w1'' mine demo_render = (Inr ev, e2)"
proof -
  have "\<exists>c e1. renderContext demo_ext ''w1'' demo_render = (Inr c, e1)"
    by (simp add: renderContext_def demo_render_cache demo_render_env Let_def)
  moreover have "\<exists>out e2. renderEnvMap demo_ext [(''HOST'', ''mine'')] ''w1'' e = (Inr out, e2)"
    if "\<exists>c e1. renderContext demo_ext ''w1'' e = (Inr c, e1)" for e
    using that by (auto simp: exec_render_def RenderWith_def demo_ext_def text_engine_def split: prod.split)
  moreover have "\<exists>c e2. renderContext demo_ext ''w1'' e1 = (Inr c, e2)"
    if "renderContext demo_ext ''w1'' demo_render = (Inr c, e1)" for c e1
    using that by (auto simp: renderContext_def demo_render_cache demo_render_env Let_def put_ctx_def)
  ultimately show ?thesis by (fastforce simp: execEnv_def mine_def Let_def)
qed

lemma execEnv_precedence_witness:
  "\<exists>env e' v. execEnv demo_ext ''w1'' mine demo_render = (Inr env, e')
     \<and> m_get env ''HOST'' = Some \<lparr>ev_Value = v, ev_Expand = True\<rparr>
     \<and> m_get env ''PATH'' = Some \<lparr>ev_Value = ''$HOME/bin'', ev_Expand = True\<rparr>
     \<and> m_get env ''STAGE'' = Some \<lparr>ev_Value = [], ev_Expand = False\<rparr>"
proof -
  have e: "e_env demo_render = [(''PATH'', ''$HOME/bin'')]" "tc_GlobalEnvValues (e_base demo_render) = []"
    "cfg_Imports (e_cfg demo_render) = []" "cfg_EnvFileValues (e_cfg demo_render) = []"
    "tc_Stage (e_base demo_render) = []"
    by (simp_all add: demo_render_def demo_exec_def SetUnreachablePolicy_def New_executor_def
        base_context_def Let_def zero_cfg_def)
  obtain env e' where r: "execEnv demo_ext ''w1'' mine demo_render = (Inr env, e')" using demo_execEnv by blast
  have "\<exists>c te. fresh_context demo_ext ''w1'' demo_render = Inr c \<and> map fst te = [''HOST'']
    \<and> (\<forall>k. m_get env k = first_of [layer True te k, layer False (ImportEnv []) k,
      layer False (deploy_env (e_base demo_render) ''w1'' (tc_Roles c)) k, layer True (tc_GlobalEnvValues c) k,
      layer False [] k])"
    using execEnv_precedence[OF r demo_render_cache(1)] e by (simp add: wf_map_def mine_def)
  then obtain c te where
    c: "fresh_context demo_ext ''w1'' demo_render = Inr c" and te: "map fst te = [''HOST'']"
    and v: "\<forall>k. m_get env k = first_of [layer True te k, layer False (ImportEnv []) k,
      layer False (deploy_env (e_base demo_render) ''w1'' (tc_Roles c)) k, layer True (tc_GlobalEnvValues c) k,
      layer False [] k]"
    by (elim exE conjE) simp
  have g: "tc_GlobalEnvValues c = [(''PATH'', ''$HOME/bin'')]"
    using c by (auto simp: fresh_context_def demo_render_env)
  obtain x where x: "te = [(''HOST'', x)]" using te by (cases te) auto
  show ?thesis using r e v[THEN spec, of "''HOST''"] v[THEN spec, of "''PATH''"] v[THEN spec, of "''STAGE''"] g x
    by (simp add: first_of_def layer_def ImportEnv_def deploy_env_def)
qed

end
