(* ===== verification/Steps.thy ===== *)
theory Steps
  imports Render
begin

text \<open>
  The bodies of a task (\<open>internal/executor/run.go\<close>, \<open>capture.go\<close>, \<open>action.go\<close>): building a task's
  commands for a host, running them on the task's hosts or on the operator's machine, capturing an
  output, and running a plugin action with its host services.

  \<open>kept x e d\<close> is what every step guarantees of the state \<open>d\<close> it leaves from \<open>e\<close>; it is a preorder,
  so each operation is one lemma.
\<close>

section \<open>Building commands\<close>

record built =
  b_cmd :: string
  b_display :: string

record 'w exec_step =
  st_label :: string
  st_isScript :: bool
  st_build :: "string \<Rightarrow> 'w exec \<Rightarrow> built res \<times> 'w exec"

text \<open>The environment, then the directory, then the command they are baked into.\<close>

definition build_in :: "('t, 'w) ext \<Rightarrow> task \<Rightarrow> (string \<Rightarrow> env \<Rightarrow> built) \<Rightarrow> string \<Rightarrow> 'w exec \<Rightarrow> built res \<times> 'w exec" where
  "build_in x t mk host e = (case execEnv x host t e of
      (Inl err, e1) \<Rightarrow> (Inl err, e1)
    | (Inr env, e1) \<Rightarrow> (case taskDir x t host e1 of
          (Inl err, e2) \<Rightarrow> (Inl err, e2) | (Inr dir, e2) \<Rightarrow> (Inr (mk dir env), e2)))"

definition build_cmd :: "('t, 'w) ext \<Rightarrow> task \<Rightarrow> string \<Rightarrow> string \<Rightarrow> 'w exec \<Rightarrow> built res \<times> 'w exec" where
  "build_cmd x t raw host e = (case exec_render x raw host e of
      (Inl err, e1) \<Rightarrow> (Inl err, e1)
    | (Inr rendered, e1) \<Rightarrow> build_in x t (\<lambda>dir env. \<lparr>b_cmd = wrapRemote rendered dir env, b_display = rendered\<rparr>) host e1)"

definition build_script :: "('t, 'w) ext \<Rightarrow> task \<Rightarrow> script \<Rightarrow> string \<Rightarrow> bool \<Rightarrow> string \<Rightarrow> 'w exec \<Rightarrow> built res \<times> 'w exec" where
  "build_script x t sc content templated host e =
     (case (if templated then exec_render x content host e else (Inr content, e)) of
      (Inl err, e1) \<Rightarrow> (Inl err, e1)
    | (Inr body, e1) \<Rightarrow> build_in x t
        (\<lambda>dir env. \<lparr>b_cmd = buildScriptCommand (sc_Interpreter sc) body dir env, b_display = []\<rparr>) host e1)"

definition script_content :: "('t, 'w) ext \<Rightarrow> 'w exec \<Rightarrow> script \<Rightarrow> (string \<times> bool) res" where
  "script_content x e sc = (if sc_Script sc \<noteq> [] then Inr (sc_Script sc, True)
     else (case readScriptFile x e (sc_Path sc) of Inl err \<Rightarrow> Inl err
        | Inr d \<Rightarrow> Inr (d, sc_Template sc \<or> has_suffix (sc_Path sc) ''.tmpl'')))"

definition script_step :: "('t, 'w) ext \<Rightarrow> task \<Rightarrow> 'w exec \<Rightarrow> script \<Rightarrow> 'w exec_step res" where
  "script_step x t e sc = (case script_content x e sc of Inl err \<Rightarrow> Inl err
     | Inr (content, templated) \<Rightarrow> Inr \<lparr>st_label = scriptLabel sc, st_isScript = True,
          st_build = build_script x t sc content templated\<rparr>)"

definition taskSteps :: "('t, 'w) ext \<Rightarrow> task \<Rightarrow> 'w exec \<Rightarrow> 'w exec_step list res" where
  "taskSteps x t e = (case res_map (script_step x t e) (task_Scripts t) of Inl err \<Rightarrow> Inl err
     | Inr scripts \<Rightarrow> Inr (map (\<lambda>(i, raw). \<lparr>st_label = ''cmd '' @ itoa (int i), st_isScript = False,
          st_build = build_cmd x t raw\<rparr>) (enumerate 1 (task_Cmds t)) @ scripts))"

definition announceStep :: "'w exec_step \<Rightarrow> 'w exec \<Rightarrow> 'w exec" where
  "announceStep st e = (if st_isScript st then slog Info ''script'' [(''name'', st_label st)] e else e)"

definition stepLine :: "'w exec \<Rightarrow> 'w exec_step \<Rightarrow> built \<Rightarrow> string" where
  "stepLine e st b = (if e_verbose e then b_cmd b
     else if st_isScript st then ''script '' @ st_label st else b_display b)"

section \<open>On the task's hosts\<close>

fun build_hosts :: "'w exec_step \<Rightarrow> host list \<Rightarrow> built smap \<Rightarrow> 'w exec \<Rightarrow> built smap res \<times> 'w exec" where
  "build_hosts st [] m e = (Inr m, e)"
| "build_hosts st (h # hs) m e = (case st_build st (host_Address h) e of
      (Inl err, e1) \<Rightarrow> (Inl err, e1)
    | (Inr b, e1) \<Rightarrow> build_hosts st hs (m_put (host_Address h) b m) e1)"

text \<open>A Go map read of a missing key is the zero value.\<close>

definition built_for :: "built smap \<Rightarrow> string \<Rightarrow> built" where
  "built_for m h = (case m_get m h of Some b \<Rightarrow> b | None \<Rightarrow> \<lparr>b_cmd = [], b_display = []\<rparr>)"

definition warn_failures :: "string \<Rightarrow> result list \<Rightarrow> 'w exec \<Rightarrow> 'w exec" where
  "warn_failures name rs e = fold (\<lambda>(h, err). slog Warn ''host command failed (continuing)''
     [(''task'', name), (''host'', h), (''error'', error_msg err)]) (failures rs) e"

text \<open>What the loop over the steps does after one of them: return, or go on with some hosts.\<close>

datatype outcome = Return "goerr option" | Go_on "host list"

definition remote_step :: "('t, 'w) ext \<Rightarrow> string \<Rightarrow> task \<Rightarrow> 'w exec_step \<Rightarrow> built smap \<Rightarrow> host list \<Rightarrow> 'w exec
    \<Rightarrow> outcome \<times> 'w exec" where
  "remote_step x name t st rendered hosts e =
     (let e1 = (if \<not> st_isScript st \<or> e_verbose e
          then fold (\<lambda>h. echoExec x (host_Address h) (stepLine e st (built_for rendered (host_Address h)))) hosts e
          else e)
      in (case cluster_Run x (taskTargets t hosts) (\<lambda>h. b_cmd (built_for rendered h))
            (\<not> task_ContinueOnError t \<and> \<not> skipUnreachable e1) e1 of
        (results, e2) \<Rightarrow>
          if \<not> Failed results then (Go_on hosts, e2)
          else if task_ContinueOnError t then (Go_on hosts, warn_failures name results e2)
          else (case applyUnreachablePolicy name hosts results e2 of
              ((live, Some err), e3) \<Rightarrow> (Return (Some err), e3)
            | ((live, None), e3) \<Rightarrow>
                if live = [] then (Return None,
                  slog Warn ''all task hosts unreachable, skipping remaining steps'' [(''task'', name)] e3)
                else (Go_on live, e3))))"

fun remote_steps :: "('t, 'w) ext \<Rightarrow> string \<Rightarrow> task \<Rightarrow> 'w exec_step list \<Rightarrow> host list \<Rightarrow> 'w exec
    \<Rightarrow> goerr option \<times> 'w exec" where
  "remote_steps x name t [] hosts e = (None, e)"
| "remote_steps x name t (st # sts) hosts e = (case build_hosts st hosts [] e of
      (Inl err, e1) \<Rightarrow> (Some err, e1)
    | (Inr rendered, e1) \<Rightarrow>
        (let e2 = announceStep st e1
         in if e_dryRun e2 then remote_steps x name t sts hosts
              (fold (\<lambda>h. echoDryRun x (host_Address h) (stepLine e2 st (built_for rendered (host_Address h)))) hosts e2)
            else (case remote_step x name t st rendered hosts e2 of
                (Return r, e3) \<Rightarrow> (r, e3) | (Go_on live, e3) \<Rightarrow> remote_steps x name t sts live e3)))"

definition runRemote :: "('t, 'w) ext \<Rightarrow> string \<Rightarrow> task \<Rightarrow> 'w exec \<Rightarrow> goerr option \<times> 'w exec" where
  "runRemote x name t e = (let hosts = targetsForTask e t
     in if hosts = [] then (None, slog Warn ''no hosts match task'' [(''task'', name)] e)
        else (case taskSteps x t e of Inl err \<Rightarrow> (Some err, e) | Inr sts \<Rightarrow> remote_steps x name t sts hosts e))"

section \<open>On the operator's machine\<close>

fun local_steps :: "('t, 'w) ext \<Rightarrow> task \<Rightarrow> 'w exec_step list \<Rightarrow> 'w exec \<Rightarrow> goerr option \<times> 'w exec" where
  "local_steps x t [] e = (None, e)"
| "local_steps x t (st # sts) e = (case st_build st ''local'' e of
      (Inl err, e1) \<Rightarrow> (Some err, e1)
    | (Inr b, e1) \<Rightarrow>
        (let e2 = announceStep st e1
         in if e_dryRun e2 then local_steps x t sts (echoDryRunLocal x (stepLine e2 st b) e2)
            else (let e3 = (if \<not> st_isScript st \<or> e_verbose e2 then echoExec x ''local'' (stepLine e2 st b) e2 else e2)
              in (case runLocalShell x (b_cmd b) (host_writer x (e_logMode e3) (e_color e3) ''local'') e3 of
                  (None, e4) \<Rightarrow> local_steps x t sts e4
                | (Some err, e4) \<Rightarrow> if task_ContinueOnError t
                    then local_steps x t sts (slog Warn ''continuing past error'' [(''error'', error_msg err)] e4)
                    else (Some err, e4)))))"

definition runLocal :: "('t, 'w) ext \<Rightarrow> task \<Rightarrow> 'w exec \<Rightarrow> goerr option \<times> 'w exec" where
  "runLocal x t e = (case taskSteps x t e of Inl err \<Rightarrow> (Some err, e) | Inr sts \<Rightarrow> local_steps x t sts e)"

section \<open>Capturing an output\<close>

fun capture_steps :: "('t, 'w) ext \<Rightarrow> string \<Rightarrow> task \<Rightarrow> target \<Rightarrow> 'w exec_step list \<Rightarrow> string \<Rightarrow> 'w exec
    \<Rightarrow> string res \<times> 'w exec" where
  "capture_steps x name t target [] out e = (Inr (trim_space out), e)"
| "capture_steps x name t target (st # sts) out e = (case st_build st (t_Host target) e of
      (Inl err, e1) \<Rightarrow> (Inl err, e1)
    | (Inr b, e1) \<Rightarrow>
        (let e2 = announceStep st e1
         in if e_dryRun e2 then
              (let line = stepLine e2 st b
               in (case logDryRun x (t_Host target) (''capture: '' @ line) e2 of
                   (True, e3) \<Rightarrow> capture_steps x name t target sts out e3
                 | (False, e3) \<Rightarrow> capture_steps x name t target sts out
                     (out_write x (''[dry-run] capture '' @ t_Host target @ '': '' @ line @ [nl]) e3)))
            else (case cluster_Capture x target (b_cmd b) e2 of
                (Inr s, e3) \<Rightarrow> capture_steps x name t target sts (out @ s @ [nl]) e3
              | (Inl err, e3) \<Rightarrow> if task_ContinueOnError t
                  then capture_steps x name t target sts out
                    (slog Warn ''continuing past error'' [(''task'', name), (''error'', error_msg err)] e3)
                  else (Inl (wrapf (t_Host target) err), e3))))"

definition captureOn :: "('t, 'w) ext \<Rightarrow> string \<Rightarrow> task \<Rightarrow> target \<Rightarrow> 'w exec_step list \<Rightarrow> 'w exec
    \<Rightarrow> string res \<times> 'w exec" where
  "captureOn x name t target sts e = capture_steps x name t target sts [] e"

fun capture_any :: "('t, 'w) ext \<Rightarrow> string \<Rightarrow> task \<Rightarrow> 'w exec_step list \<Rightarrow> target list \<Rightarrow> string res \<Rightarrow> 'w exec
    \<Rightarrow> string res \<times> 'w exec" where
  "capture_any x name t sts [] r e = (r, e)"
| "capture_any x name t sts (target # ts) r e = (case captureOn x name t target sts e of
      (Inr raw, e1) \<Rightarrow> (Inr raw, e1)
    | (Inl err, e1) \<Rightarrow> if t_Local target then (Inl err, e1)
        else (case dropUnreachable x name (t_Host target) err e1 of
            (False, e2) \<Rightarrow> (Inl err, e2)
          | (True, e2) \<Rightarrow> capture_any x name t sts ts (Inl err) e2))"

definition parseOutput :: "('t, 'w) ext \<Rightarrow> string \<Rightarrow> string \<Rightarrow> yval res" where
  "parseOutput x format raw =
     (if format = ''json'' then
        (if raw = [] then Inr (YMap []) else (case x_json x raw of
            Inl err \<Rightarrow> Inl (wrapf ''parse json output'' err) | Inr v \<Rightarrow> Inr v))
      else if format = ''lines'' then
        (if raw = [] then Inr (YList []) else Inr (YList (map YStr (split_on nl raw))))
      else Inr (YStr raw))"

definition store_output :: "('t, 'w) ext \<Rightarrow> string \<Rightarrow> task \<Rightarrow> string \<Rightarrow> 'w exec \<Rightarrow> goerr option \<times> 'w exec" where
  "store_output x name t raw e = (case parseOutput x (task_Output t) raw of
      Inl err \<Rightarrow> (Some (wrapf (''task '' @ quoted name) err), e)
    | Inr v \<Rightarrow> (None, setTaskState name v e))"

definition local_target :: target where
  "local_target = \<lparr>t_Host = ''local'', t_Port = 0, t_User = [], t_IdentityFile = [], t_Passphrase = [],
     t_Local = True, t_StrictHostKey = None\<rparr>"

definition runCapture :: "('t, 'w) ext \<Rightarrow> string \<Rightarrow> task \<Rightarrow> 'w exec \<Rightarrow> goerr option \<times> 'w exec" where
  "runCapture x name t e = (let servers = targetsForTask e t
     in if \<not> task_Local t \<and> servers = []
        then store_output x name t [] (slog Warn ''no hosts match task'' [(''task'', name)] e)
        else (case taskSteps x t e of Inl err \<Rightarrow> (Some err, e)
          | Inr sts \<Rightarrow> (case capture_any x name t sts
                (if task_Local t then [local_target] else taskTargets t servers) (Inr []) e of
              (Inl err, e1) \<Rightarrow> (Some err, e1)
            | (Inr raw, e1) \<Rightarrow> store_output x name t raw e1)))"

section \<open>Actions\<close>

definition runOnTargets :: "('t, 'w) ext \<Rightarrow> task \<Rightarrow> host list \<Rightarrow> (string \<Rightarrow> string) \<Rightarrow> 'w exec
    \<Rightarrow> goerr option \<times> 'w exec" where
  "runOnTargets x t hosts cmdFor e = (let live = filterExcluded e hosts
     in (case cluster_Run x (taskTargets t live) cmdFor (\<not> skipUnreachable e) e of
       (results, e1) \<Rightarrow> (case applyUnreachablePolicy (task_Action t) live results e1 of
           ((_, err), e2) \<Rightarrow> (err, e2))))"

definition host_RunCommand :: "('t, 'w) ext \<Rightarrow> task \<Rightarrow> host list \<Rightarrow> string \<Rightarrow> 'w exec \<Rightarrow> goerr option \<times> 'w exec" where
  "host_RunCommand x t hosts cmd e =
     (if hosts = [] then (None, slog Warn ''no hosts match the action task; nothing to run'' [(''cmd'', cmd)] e)
      else runOnTargets x t hosts (\<lambda>_. cmd) (fold (\<lambda>h. echoExec x (host_Address h) cmd) hosts e))"

fun capture_first :: "('t, 'w) ext \<Rightarrow> task \<Rightarrow> host list \<Rightarrow> string \<Rightarrow> 'w exec \<Rightarrow> string res \<times> 'w exec" where
  "capture_first x t [] cmd e = (Inl (Text ''no hosts match the action task, nothing to capture''), e)"
| "capture_first x t (h # hs) cmd e =
     (case cluster_Capture x (hd (taskTargets t [h])) cmd (echoExec x (host_Address h) cmd e) of
        (Inr out, e1) \<Rightarrow> (Inr out, e1)
      | (Inl err, e1) \<Rightarrow> (case dropUnreachable x (task_Action t) (host_Address h) err e1 of
            (False, e2) \<Rightarrow> (Inl err, e2) | (True, e2) \<Rightarrow> capture_first x t hs cmd e2))"

definition host_CaptureCommand :: "('t, 'w) ext \<Rightarrow> task \<Rightarrow> host list \<Rightarrow> string \<Rightarrow> 'w exec \<Rightarrow> string res \<times> 'w exec" where
  "host_CaptureCommand x t hosts cmd e = capture_first x t (filterExcluded e hosts) cmd e"

fun write_cmds :: "('t, 'w) ext \<Rightarrow> task \<Rightarrow> string \<Rightarrow> string \<Rightarrow> host list \<Rightarrow> string smap \<Rightarrow> 'w exec
    \<Rightarrow> string smap res \<times> 'w exec" where
  "write_cmds x t path content [] cmds e = (Inr cmds, e)"
| "write_cmds x t path content (h # hs) cmds e =
     (case (if is_abs path then (Inr path, e)
            else (case taskDir x t (host_Address h) e of
                (Inl err, e1) \<Rightarrow> (Inl err, e1) | (Inr dir, e1) \<Rightarrow> (Inr (path_join [dir, path]), e1))) of
        (Inl err, e1) \<Rightarrow> (Inl err, e1)
      | (Inr full, e1) \<Rightarrow>
          (let msg = ''rendering '' @ full @ '' ('' @ itoa (int (length content)) @ '' bytes)''
           in write_cmds x t path content hs (m_put (host_Address h) (writeFileCmd full content) cmds)
             (if e_logMode e1 then logLine x (host_Address h) msg e1
              else out_write x (HostLabel (host_Address h) (e_color e1) @ '' '' @ msg @ [nl]) e1)))"

definition host_WriteFile :: "('t, 'w) ext \<Rightarrow> task \<Rightarrow> host list \<Rightarrow> string \<Rightarrow> string \<Rightarrow> 'w exec \<Rightarrow> goerr option \<times> 'w exec" where
  "host_WriteFile x t hosts path content e =
     (if hosts = [] then (None, slog Warn ''no hosts match the action task; nothing to render'' [(''path'', path)] e)
      else (case write_cmds x t path content hosts [] e of
          (Inl err, e1) \<Rightarrow> (Some err, e1)
        | (Inr cmds, e1) \<Rightarrow> runOnTargets x t hosts (\<lambda>h. case m_get cmds h of Some c \<Rightarrow> c | None \<Rightarrow> []) e1))"

text \<open>An action's program over the host services bound to the task.\<close>

primrec run_prog :: "('t, 'w) ext \<Rightarrow> task \<Rightarrow> host list \<Rightarrow> 'w prog \<Rightarrow> 'w exec \<Rightarrow> goerr option \<times> 'w exec" where
  "run_prog x t hosts (Ret r) e = (r, e)"
| "run_prog x t hosts (Print s k) e = run_prog x t hosts k (out_write x s e)"
| "run_prog x t hosts (WriteFile path content k) e = (case host_WriteFile x t hosts path content e of
      (r, e1) \<Rightarrow> run_prog x t hosts (k r) e1)"
| "run_prog x t hosts (RunCommand cmd k) e = (case host_RunCommand x t hosts cmd e of
      (r, e1) \<Rightarrow> run_prog x t hosts (k r) e1)"
| "run_prog x t hosts (CaptureCommand cmd k) e = (case host_CaptureCommand x t hosts cmd e of
      (r, e1) \<Rightarrow> run_prog x t hosts (k r) e1)"
| "run_prog x t hosts (Secret s k) e = run_prog x t hosts k (add_secrets [s] e)"
| "run_prog x t hosts (Mask k) e = run_prog x t hosts (k (mask_String (x_disabled x) (x_rules x) (e_secrets e))) e"
| "run_prog x t hosts (World f) e = (case map_prod (run_prog x t hosts) id (f (e_world e)) of
      (run, w) \<Rightarrow> run (e\<lparr>e_world := w\<rparr>))"

lemmas run_World = run_prog.simps(8)

definition runAction :: "('t, 'w) ext \<Rightarrow> task \<Rightarrow> 'w exec \<Rightarrow> goerr option \<times> 'w exec" where
  "runAction x t e = (case exec_renderParams x (task_With t) e of
      (Inl err, e1) \<Rightarrow> (Some (wrapf (''action '' @ quoted (task_Action t)) err), e1)
    | (Inr params, e1) \<Rightarrow>
        if e_dryRun e1 then (None, echoDryRun x []
          (''action '' @ task_Action t @ '' with '' @ x_show x params) e1)
        else (case x_reg x of
            None \<Rightarrow> (Some (Text (''action '' @ quoted (task_Action t) @ '': no plugins loaded'')), e1)
          | Some reg \<Rightarrow> (case Action reg (task_Action t) of
              None \<Rightarrow> (Some (Text (''unknown action '' @ quoted (task_Action t)
                  @ '' (no loaded plugins registers it)'')), e1)
            | Some fn \<Rightarrow> (case run_prog x t (targetsForTask e1 t) (fn params) e1 of
                (None, e2) \<Rightarrow> (None, e2)
              | (Some err, e2) \<Rightarrow> (Some (plugin_code (''action '' @ quoted (task_Action t)) err), e2)))))"

section \<open>What every step keeps\<close>

text \<open>The part of the core no step changes.\<close>

definition fixed :: "'w exec \<Rightarrow> core" where
  "fixed e = (core_of e)\<lparr>e_ctxCache := Map.empty, e_secrets := no_secrets, e_unreachable := [],
     e_base := (e_base e)\<lparr>tc_Tasks := []\<rparr>\<rparr>"

text \<open>
  What is shown of the commands: the console text, and the \<open>output\<close> and \<open>exec\<close> records. Nothing of it
  changes while a silent task is captured.
\<close>

definition cmd_msgs :: "string list" where "cmd_msgs = [''output'', ''exec'']"

lemma cmd_msgs_iff [simp]: "m \<in> set cmd_msgs \<longleftrightarrow> m = ''output'' \<or> m = ''exec''"
  by (simp add: cmd_msgs_def)

definition shown :: "'w exec \<Rightarrow> string \<times> string \<times> log_rec list" where
  "shown e = (e_raw e, e_buf e, filter (\<lambda>r. lr_msg r \<in> set cmd_msgs) (e_records e))"

definition kept :: "('t, 'w) ext \<Rightarrow> 'w exec \<Rightarrow> 'w exec \<Rightarrow> bool" where
  "kept x e d \<longleftrightarrow> fixed d = fixed e
     \<and> (cache_ok x e \<longrightarrow> cache_ok x d)
     \<and> set (e_unreachable e) \<subseteq> set (e_unreachable d)
     \<and> set (e_unreachable d) - set (e_unreachable e) \<subseteq> (if skipUnreachable e then - set (e_required e) else {})
     \<and> (e_dryRun e \<longrightarrow> e_world d = e_world e \<and> e_cluster d = e_cluster e)
     \<and> (e_capture d = None \<longleftrightarrow> e_capture e = None)
     \<and> (e_capture e \<noteq> None \<longrightarrow> shown d = shown e)"

lemma fixed_eq: "fixed e = fixed d \<longleftrightarrow>
    e_cfg e = e_cfg d \<and> e_dryRun e = e_dryRun d \<and> e_verbose e = e_verbose d \<and> e_roles e = e_roles d
  \<and> e_limit e = e_limit d \<and> e_concurrency e = e_concurrency d \<and> e_scriptsDir e = e_scriptsDir d
  \<and> e_env e = e_env d \<and> (e_base e)\<lparr>tc_Tasks := []\<rparr> = (e_base d)\<lparr>tc_Tasks := []\<rparr>
  \<and> e_logMode e = e_logMode d \<and> e_logTask e = e_logTask d \<and> e_color e = e_color d
  \<and> e_skipped e = e_skipped d \<and> e_policy e = e_policy d \<and> e_required e = e_required d"
  by (simp add: fixed_def core_of_def core.truncate_def)

lemma kept_refl [simp]: "kept x e e" by (simp add: kept_def)

lemma kept_fields: "kept x e d \<Longrightarrow> e_cfg d = e_cfg e \<and> e_dryRun d = e_dryRun e \<and> e_policy d = e_policy e
    \<and> e_required d = e_required e \<and> e_skipped d = e_skipped e \<and> e_logTask d = e_logTask e
    \<and> e_logMode d = e_logMode e \<and> e_verbose d = e_verbose e \<and> skipUnreachable d = skipUnreachable e"
  by (simp add: kept_def fixed_eq skipUnreachable_def)

lemma kept_trans [trans]:
  assumes "kept x e d" "kept x d c"
  shows "kept x e c"
proof -
  have "e_dryRun d = e_dryRun e" "skipUnreachable d = skipUnreachable e" "e_required d = e_required e"
    using kept_fields[OF assms(1)] by simp_all
  then show ?thesis using assms unfolding kept_def by (auto split: if_splits)
qed

text \<open>A step that keeps the core, the world and the pool.\<close>

definition quiet :: "'w exec \<Rightarrow> 'w exec \<Rightarrow> bool" where
  "quiet e d \<longleftrightarrow> core_of d = core_of e \<and> e_world d = e_world e \<and> e_cluster d = e_cluster e
     \<and> (e_capture d = None \<longleftrightarrow> e_capture e = None) \<and> (e_capture e \<noteq> None \<longrightarrow> shown d = shown e)"

lemma kept_core:
  assumes "core_of d = core_of e" "e_dryRun e \<Longrightarrow> e_world d = e_world e \<and> e_cluster d = e_cluster e"
    "e_capture d = None \<longleftrightarrow> e_capture e = None" "e_capture e \<noteq> None \<Longrightarrow> shown d = shown e"
  shows "kept x e d"
  using assms evolves_core[OF assms(1), of x] by (auto simp: kept_def fixed_eq core_of_eq evolves_def)

lemma kept_quiet: "quiet e d \<Longrightarrow> kept x e d"
  by (rule kept_core) (simp_all add: quiet_def)

lemma quiet_refl [simp]: "quiet e e" by (simp add: quiet_def)
lemma quiet_trans: "quiet e d \<Longrightarrow> quiet d c \<Longrightarrow> quiet e c" by (simp add: quiet_def)

lemma quiet_slog [simp]: "m \<notin> set cmd_msgs \<Longrightarrow> quiet e (slog lv m a e)"
  by (simp add: quiet_def) (simp add: slog_def shown_def)

lemma quiet_slog_open [simp]: "e_capture e = None \<Longrightarrow> quiet e (slog lv m a e)"
  by (simp add: quiet_def) (simp add: slog_def)

lemma quiet_out [simp]: "quiet e (out_write x p e)"
  by (simp add: quiet_def) (simp add: out_write_def console_write_def shown_def split: option.split prod.split)

lemma quiet_emit [simp]: "quiet e (emit_rec m a e)"
  by (cases "e_capture e", simp add: emit_rec_def, simp add: emit_rec_def quiet_def shown_def)

lemma quiet_logLine [simp]: "quiet e (logLine x h l e)" by (simp add: logLine_def)

lemma quiet_echo [simp]:
  "quiet e (echoExec x h c e)" "quiet e (echoDryRun x h c e)" "quiet e (echoDryRunLocal x c e)"
  by (simp_all add: echoExec_def echoDryRun_def echoDryRunLocal_def logExec_def logDryRun_def cmd_msgs_def)

lemma quiet_fold: "(\<And>y e. quiet e (f y e)) \<Longrightarrow> quiet e (fold f ys e)"
proof (induction ys arbitrary: e)
  case (Cons y ys)
  then show ?case using quiet_trans[of e "f y e"] by simp
qed simp

lemma quiet_announce [simp]: "quiet e (announceStep st e)" by (simp add: announceStep_def cmd_msgs_def)

lemma quiet_warn [simp]: "quiet e (warn_failures name rs e)"
  unfolding warn_failures_def by (rule quiet_fold) (simp add: cmd_msgs_def split: prod.split)

lemma quiet_logDryRun [simp]: "quiet e (snd (logDryRun x h c e))" by (simp add: logDryRun_def cmd_msgs_def)

lemma kept_slog [simp]: "m \<notin> set cmd_msgs \<Longrightarrow> kept x e (slog lv m a e)"
  by (simp add: kept_quiet)

lemma kept_quiets [simp]:
  "kept x e (out_write x p e)" "kept x e (logLine x h l e)"
  "kept x e (echoExec x h c e)" "kept x e (echoDryRun x h c e)" "kept x e (announceStep st e)"
  "kept x e (snd (logDryRun x h c e))"
  by (simp_all add: kept_quiet)

text \<open>Rendering.\<close>

lemma kept_evolves:
  assumes "evolves x e d" "e_world d = e_world e" "e_cluster d = e_cluster e" "e_capture d = e_capture e"
    "fixed d = fixed e" "e_unreachable d = e_unreachable e" "shown d = shown e"
  shows "kept x e d"
  using assms by (simp add: kept_def evolves_def)

lemma renders_only:
  "e_world (snd (renderContext x h e)) = e_world e" "e_cluster (snd (renderContext x h e)) = e_cluster e"
  "e_capture (snd (renderContext x h e)) = e_capture e" "fixed (snd (renderContext x h e)) = fixed e"
  "e_unreachable (snd (renderContext x h e)) = e_unreachable e" "shown (snd (renderContext x h e)) = shown e"
  by (simp_all add: shown_def renderContext_def put_ctx_def add_secrets_def Let_def fixed_eq
      split: option.split prod.split sum.split)

lemma kept_renderContext: "kept x e (snd (renderContext x h e))"
  by (rule kept_evolves) (simp_all add: renderContext_evolves renders_only)

lemma kept_secrets [simp]: "kept x e (add_secrets secs e)"
  by (rule kept_evolves) (simp_all add: add_secrets_def shown_def fixed_eq evolves_secrets[unfolded add_secrets_def])

lemma kept_render: "kept x e (snd (exec_render x raw h e))"
proof -
  obtain r e1 where "renderContext x h e = (r, e1)" by fastforce
  then show ?thesis using kept_renderContext[of x e h] kept_trans[OF _ kept_secrets, of x e e1]
    by (auto simp: exec_render_def split: prod.split sum.split)
qed

lemma kept_renderEnvMap: "kept x e (snd (renderEnvMap x m h e))"
proof (induction x m h e rule: renderEnvMap.induct)
  case (2 x k v kvs h e)
  then show ?case using kept_render[of x e v h]
    by (auto split: prod.splits sum.splits intro: kept_trans)
qed simp

lemma kept_execEnv: "kept x e (snd (execEnv x h t e))"
proof -
  obtain r e1 where 1: "renderContext x h e = (r, e1)" by fastforce
  have "kept x e e1" using kept_renderContext[of x e h] 1 by simp
  then show ?thesis using 1 kept_renderEnvMap[of x e1 "task_Envs t" h]
    by (auto simp: execEnv_def Let_def split: prod.splits sum.splits intro: kept_trans)
qed

lemma kept_taskDir: "kept x e (snd (taskDir x t h e))"
  by (simp add: taskDir_def kept_render)

lemma kept_params: "kept x e (snd (exec_renderParams x ps e))"
proof -
  obtain r e1 where "renderContext x [] e = (r, e1)" by fastforce
  then show ?thesis using kept_renderContext[of x e "[]"] kept_trans[OF _ kept_secrets, of x e e1]
    by (auto simp: exec_renderParams_def split: prod.split sum.split)
qed

definition step_ok :: "('t, 'w) ext \<Rightarrow> 'w exec_step \<Rightarrow> bool" where
  "step_ok x st \<longleftrightarrow> (\<forall>h e. kept x e (snd (st_build st h e)))"

lemma kept_build_in: "kept x e (snd (build_in x t mk h e))"
proof -
  obtain r e1 where 1: "execEnv x h t e = (r, e1)" by fastforce
  have "kept x e e1" using kept_execEnv[of x e h t] 1 by simp
  then show ?thesis using 1 kept_taskDir[of x e1 t h]
    by (auto simp: build_in_def split: prod.splits sum.splits intro: kept_trans)
qed

lemma kept_build:
  "kept x e (snd (build_cmd x t raw h e))" "kept x e (snd (build_script x t sc content tm h e))"
  using kept_render[of x e raw h] kept_render[of x e content h] kept_build_in[of x]
  by (auto simp: build_cmd_def build_script_def split: prod.splits sum.splits intro: kept_trans)

lemma taskSteps_ok: "taskSteps x t e = Inr sts \<Longrightarrow> st \<in> set sts \<Longrightarrow> step_ok x st"
proof -
  assume s: "taskSteps x t e = Inr sts" "st \<in> set sts"
  then obtain scs where scs: "list_all2 (\<lambda>sc st. script_step x t e sc = Inr st) (task_Scripts t) scs"
    and sts: "sts = map (\<lambda>(i, raw). \<lparr>st_label = ''cmd '' @ itoa (int i), st_isScript = False,
      st_build = build_cmd x t raw\<rparr>) (enumerate 1 (task_Cmds t)) @ scs"
    by (auto simp: taskSteps_def res_map_Inr_iff split: sum.splits)
  have mem: "st \<in> set scs \<or> (\<exists>raw. st_build st = build_cmd x t raw)"
    using s(2) unfolding sts by auto
  have "st \<in> set scs \<Longrightarrow> \<exists>sc. script_step x t e sc = Inr st"
    using scs by (auto simp: list_all2_conv_all_nth in_set_conv_nth)
  then have "st \<in> set scs \<Longrightarrow> \<exists>sc content tm. st_build st = build_script x t sc content tm"
    by (auto simp: script_step_def split: sum.splits prod.splits) (metis sum.exhaust prod.exhaust exec_step.select_convs(3))
  then show ?thesis using mem kept_build[where x = x and t = t] by (auto simp: step_ok_def)
qed

lemma taskSteps_all_ok: "taskSteps x t e = Inr sts \<Longrightarrow> \<forall>st\<in>set sts. step_ok x st"
  using taskSteps_ok[of x t e sts] by blast

text \<open>Talking to hosts.\<close>

definition outside_inv :: "'w exec \<Rightarrow> 'w exec \<Rightarrow> bool" where
  "outside_inv e d \<longleftrightarrow> core_of d = core_of e \<and> (e_capture d = None \<longleftrightarrow> e_capture e = None)
     \<and> (e_capture e \<noteq> None \<longrightarrow> shown d = shown e)"

lemma inv_refl [simp]: "outside_inv e e" by (simp add: outside_inv_def)

lemma inv_upd [simp]:
  "outside_inv e (d\<lparr>e_world := w\<rparr>) = outside_inv e d" "outside_inv e (d\<lparr>e_cluster := c\<rparr>) = outside_inv e d"
  by (simp_all add: outside_inv_def shown_def)

lemma quiet_inv: "quiet d c \<Longrightarrow> outside_inv e d \<Longrightarrow> outside_inv e c"
  by (auto simp: quiet_def outside_inv_def)

lemma writer_inv: "keeps (outside_inv e) (host_writer x m c h)"
proof -
  have "outside_inv e d \<Longrightarrow> outside_inv e (out_write x p d)" "outside_inv e d \<Longrightarrow> outside_inv e (logLine x h' p d)"
    for d p h'
    using quiet_inv[OF quiet_out] quiet_inv[OF quiet_logLine] by blast+
  then show ?thesis by (simp add: keeps_def host_writer_def NewLogWriter_def NewPrefixWriter_def emit_def)
qed

lemma lift_inv: "net_keeps (outside_inv e) (lift_net net)"
  by (simp add: net_keeps_def lift_net_def split: prod.split)

lemma kept_outside: "outside_inv e d \<Longrightarrow> \<not> e_dryRun e \<Longrightarrow> kept x e d"
  by (rule kept_core) (simp_all add: outside_inv_def)

lemma kept_Run: "\<not> e_dryRun e \<Longrightarrow> kept x e (snd (cluster_Run x ts cmdFor ff e))"
proof -
  let ?P = "outside_inv e"
  have "?P (snd (snd (Run (lift_net (x_net x)) (host_writer x (e_logMode e) (e_color e)) ts cmdFor ff (e_cluster e, e))))"
    by (rule Run_keeps[OF lift_inv writer_inv]) simp
  then have "?P (snd (cluster_Run x ts cmdFor ff e))"
    by (simp add: cluster_Run_def case_prod_beta)
  then show "\<not> e_dryRun e \<Longrightarrow> ?thesis" by (rule kept_outside)
qed

lemma kept_Capture: "\<not> e_dryRun e \<Longrightarrow> kept x e (snd (cluster_Capture x t cmd e))"
proof -
  let ?P = "outside_inv e"
  have "?P (snd (snd (Capture (lift_net (x_net x)) (host_writer x (e_logMode e) (e_color e)) t cmd (e_cluster e, e))))"
    by (rule Capture_keeps[OF lift_inv writer_inv]) simp
  then have "?P (snd (cluster_Capture x t cmd e))"
    by (simp add: cluster_Capture_def case_prod_beta)
  then show "\<not> e_dryRun e \<Longrightarrow> ?thesis" by (rule kept_outside)
qed

lemma kept_local: "\<not> e_dryRun e \<Longrightarrow> kept x e (snd (runLocalShell x cmd (host_writer x m c h) e))"
proof -
  let ?P = "outside_inv e"
  have "?P (snd (net_run (lift_net (x_net x)) LocalConn cmd e))"
    by (simp add: lift_net_def split: prod.split)
  then have "?P (snd (runLocalShell x cmd (host_writer x m c h) e))"
    unfolding runLocalShell_def case_prod_beta snd_conv by (rule lw_stream_keeps[OF writer_inv])
  then show "\<not> e_dryRun e \<Longrightarrow> ?thesis" by (rule kept_outside)
qed

text \<open>Dropping hosts.\<close>

lemma kept_drop:
  assumes "skipUnreachable e" "h \<notin> set (e_required e)"
  shows "kept x e (drop_warned task h err e)"
proof -
  define d where "d = slog Warn ''host unreachable, skipping'' [(''task'', task), (''host'', h), (''error'', error_msg err)] e"
  have q: "kept x e d" unfolding d_def by (rule kept_slog) (simp add: cmd_msgs_def)
  have "kept x d (MarkUnreachable h d)" if "skipUnreachable d" "h \<notin> set (e_required d)"
  proof -
    have "evolves x d (MarkUnreachable h d)"
      by (rule evolves_same) (simp_all add: MarkUnreachable_def ctx_inputs_def)
    then show ?thesis using that
      by (auto simp: kept_def MarkUnreachable_def fixed_eq evolves_def shown_def)
  qed
  moreover have "skipUnreachable d" "h \<notin> set (e_required d)" using assms kept_fields[OF q] by simp_all
  ultimately show ?thesis using q unfolding drop_warned_def d_def[symmetric] by (blast intro: kept_trans)
qed

lemma kept_drop_all:
  "skipUnreachable e \<Longrightarrow> \<forall>f\<in>set fs. fst f \<notin> set (e_required e)
    \<Longrightarrow> kept x e (fold (\<lambda>(h, err). drop_warned task h err) fs e)"
proof (induction fs arbitrary: e)
  case (Cons f fs)
  obtain h err where f: "f = (h, err)" by fastforce
  have k: "kept x e (drop_warned task h err e)" using Cons.prems f by (intro kept_drop) auto
  then show ?case using Cons.IH[of "drop_warned task h err e"] Cons.prems f kept_fields[OF k]
    by (auto intro: kept_trans)
qed simp

lemma kept_policy: "kept x e (snd (applyUnreachablePolicy task hosts rs e))"
proof (cases "skipUnreachable e")
  case True
  have "skip_scan (\<lambda>h. h \<in> set (e_required e)) None rs = None
      \<Longrightarrow> \<forall>f\<in>set (failures rs). fst f \<notin> set (e_required e)"
    by (auto simp: skip_scan_None droppable_def split: prod.splits)
  then show ?thesis using kept_drop_all[OF True, of "failures rs" x task] True
    by (auto simp: applyUnreachablePolicy_def SkipUnreachable_def Let_def member_abs split: option.split)
qed (simp add: applyUnreachablePolicy_def)

lemma kept_dropUnreachable: "kept x e (snd (dropUnreachable x task h err e))"
  by (simp add: dropUnreachable_def kept_drop)

text \<open>The bodies.\<close>

lemma kept_build_hosts: "step_ok x st \<Longrightarrow> kept x e (snd (build_hosts st hs m e))"
proof (induction st hs m e rule: build_hosts.induct)
  case (2 st h hs m e)
  have "kept x e (snd (st_build st (host_Address h) e))" using 2(2) by (simp add: step_ok_def)
  then show ?case using 2 by (auto split: prod.splits sum.splits intro: kept_trans)
qed simp

lemma kept_remote_step:
  assumes "\<not> e_dryRun e"
  shows "kept x e (snd (remote_step x name t st m hosts e))"
proof -
  define e1 where "e1 = (if \<not> st_isScript st \<or> e_verbose e
    then fold (\<lambda>h. echoExec x (host_Address h) (stepLine e st (built_for m (host_Address h)))) hosts e else e)"
  have 1: "kept x e e1" unfolding e1_def by (auto intro!: kept_quiet quiet_fold)
  obtain rs e2 where r: "cluster_Run x (taskTargets t hosts) (\<lambda>h. b_cmd (built_for m h))
      (\<not> task_ContinueOnError t \<and> \<not> skipUnreachable e1) e1 = (rs, e2)" by fastforce
  have "kept x e1 e2" using kept_Run[of e1] r assms kept_fields[OF 1] by (metis snd_conv)
  with 1 have 2: "kept x e e2" by (rule kept_trans)
  obtain live err e3 where p: "applyUnreachablePolicy name hosts rs e2 = ((live, err), e3)"
    by (metis prod.collapse)
  have 3: "kept x e e3" using kept_trans[OF 2 kept_policy[of x e2 name hosts rs]] p by simp
  show ?thesis
    unfolding remote_step_def e1_def[symmetric] Let_def r prod.case
    using p 2 3 kept_trans[OF 3 kept_quiet[OF quiet_slog]] kept_trans[OF 2 kept_quiet[OF quiet_warn]]
    by (simp split: option.split)
qed

lemma kept_remote_steps:
  "\<forall>st\<in>set sts. step_ok x st \<Longrightarrow> kept x e (snd (remote_steps x name t sts hosts e))"
proof (induction x name t sts hosts e rule: remote_steps.induct)
  case (2 x name t st sts hosts e)
  obtain r e1 where b: "build_hosts st hosts [] e = (r, e1)" by fastforce
  have 1: "kept x e e1" using kept_build_hosts[of x st e hosts "[]"] 2(3) b by simp
  have k2: "kept x e (announceStep st e1)" by (rule kept_trans[OF 1 kept_quiet]) simp
  show ?case
  proof (cases r)
    case (Inl err)
    then show ?thesis using b 1 by simp
  next
    case (Inr m)
    let ?e2 = "announceStep st e1"
    show ?thesis
    proof (cases "e_dryRun ?e2")
      case True
      let ?e3 = "fold (\<lambda>h. echoDryRun x (host_Address h) (stepLine ?e2 st (built_for m (host_Address h)))) hosts ?e2"
      have 3: "kept x e ?e3" by (rule kept_trans[OF k2 kept_quiet[OF quiet_fold]]) simp
      show ?thesis using 2(1)[OF b[symmetric] Inr refl True] 2(3) kept_trans[OF 3] b Inr True
        by (simp add: Let_def)
    next
      case False
      obtain o' e3 where s: "remote_step x name t st m hosts ?e2 = (o', e3)" by fastforce
      have 3: "kept x e e3" using kept_trans[OF k2 kept_remote_step[OF False]] s by (metis snd_conv)
      show ?thesis using 2(2)[OF b[symmetric] Inr refl False s[symmetric]] 2(3) kept_trans[OF 3] 3 b Inr False s
        by (auto simp: Let_def split: outcome.split)
    qed
  qed
qed simp

lemma kept_runRemote: "kept x e (snd (runRemote x name t e))"
  using kept_remote_steps[OF taskSteps_all_ok[of x t e]]
  by (simp add: runRemote_def Let_def split: sum.split)

lemma kept_local_steps: "\<forall>st\<in>set sts. step_ok x st \<Longrightarrow> kept x e (snd (local_steps x t sts e))"
proof (induction x t sts e rule: local_steps.induct)
  case (2 x t st sts e)
  obtain r e1 where b: "st_build st ''local'' e = (r, e1)" by fastforce
  have 1: "kept x e e1" using 2(4) b by (auto simp: step_ok_def) (metis snd_conv)
  have k2: "kept x e (announceStep st e1)" by (rule kept_trans[OF 1 kept_quiet]) simp
  show ?case
  proof (cases r)
    case (Inl err)
    then show ?thesis using b 1 by simp
  next
    case (Inr bl)
    let ?e2 = "announceStep st e1"
    show ?thesis
    proof (cases "e_dryRun ?e2")
      case True
      have 3: "kept x e (echoDryRunLocal x (stepLine ?e2 st bl) ?e2)"
        by (rule kept_trans[OF k2 kept_quiet]) simp
      show ?thesis using 2(1)[OF b[symmetric] Inr refl True] 2(4) kept_trans[OF 3] b Inr True
        by (simp add: Let_def)
    next
      case False
      define e3 where "e3 = (if \<not> st_isScript st \<or> e_verbose ?e2 then echoExec x ''local'' (stepLine ?e2 st bl) ?e2 else ?e2)"
      have 3: "kept x e e3" unfolding e3_def using kept_trans[OF k2 kept_quiet] k2 by simp
      have nd: "\<not> e_dryRun e3" using False kept_fields[OF 3] kept_fields[OF k2] by simp
      obtain q e4 where s: "runLocalShell x (b_cmd bl) (host_writer x (e_logMode e3) (e_color e3) ''local'') e3 = (q, e4)"
        by fastforce
      have 4: "kept x e e4" using kept_trans[OF 3 kept_local[OF nd]] s by (metis snd_conv)
      show ?thesis
      proof (cases q)
        case None
        then show ?thesis using 2(2)[OF b[symmetric] Inr refl False e3_def s[symmetric]] 2(4) kept_trans[OF 4] b Inr False s
          by (simp add: Let_def e3_def)
      next
        case (Some err)
        have 5: "kept x e (slog Warn ''continuing past error'' [(''error'', error_msg err)] e4)"
          by (rule kept_trans[OF 4 kept_quiet]) simp
        show ?thesis
          using 2(3)[OF b[symmetric] Inr refl False e3_def s[symmetric] Some] 2(4) kept_trans[OF 5] 4 b Inr False s Some
          by (simp add: Let_def e3_def)
      qed
    qed
  qed
qed simp

lemma kept_runLocal: "kept x e (snd (runLocal x t e))"
  using kept_local_steps[OF taskSteps_all_ok[of x t e]] by (simp add: runLocal_def split: sum.split)

lemma kept_capture_steps:
  "\<forall>st\<in>set sts. step_ok x st \<Longrightarrow> kept x e (snd (capture_steps x name t target sts out e))"
proof (induction sts arbitrary: out e)
  case (Cons st sts)
  obtain r e1 where b: "st_build st (t_Host target) e = (r, e1)" by fastforce
  have "kept x e e1" using Cons.prems b by (auto simp: step_ok_def) (metis snd_conv)
  then have k2: "kept x e (announceStep st e1)" by (rule kept_trans) simp
  have ih: "kept x e d \<Longrightarrow> kept x e (snd (capture_steps x name t target sts out d))" for out d
    using Cons.IH[of d out] Cons.prems by (auto intro: kept_trans)
  show ?case
  proof (cases r)
    case (Inl err)
    then show ?thesis using b \<open>kept x e e1\<close> by simp
  next
    case (Inr bl)
    let ?e2 = "announceStep st e1"
    show ?thesis
    proof (cases "e_dryRun ?e2")
      case True
      obtain q e3 where l: "logDryRun x (t_Host target) (''capture: '' @ stepLine ?e2 st bl) ?e2 = (q, e3)"
        by fastforce
      have 3: "kept x e e3" using kept_trans[OF k2 kept_quiets(6)] l by (metis snd_conv)
      have "kept x e (out_write x p e3)" for p by (rule kept_trans[OF 3]) simp
      then show ?thesis using b Inr True l 3 ih by (simp add: Let_def split: bool.split)
    next
      case False
      obtain q e3 where s: "cluster_Capture x target (b_cmd bl) ?e2 = (q, e3)" by fastforce
      have 3: "kept x e e3" using kept_trans[OF k2 kept_Capture[OF False]] s by (metis snd_conv)
      have "kept x e (slog Warn ''continuing past error'' a e3)" for a by (rule kept_trans[OF 3]) simp
      then show ?thesis using b Inr False s 3 ih by (simp add: Let_def split: sum.split)
    qed
  qed
qed simp

lemma kept_capture_any:
  "\<forall>st\<in>set sts. step_ok x st \<Longrightarrow> kept x e (snd (capture_any x name t sts ts r e))"
proof (induction ts arbitrary: r e)
  case (Cons target ts)
  obtain q e1 where c: "captureOn x name t target sts e = (q, e1)" by fastforce
  have 1: "kept x e e1" using kept_capture_steps[OF Cons.prems] c by (metis captureOn_def snd_conv)
  show ?case
  proof (cases q)
    case (Inl err)
    obtain b e2 where d: "dropUnreachable x name (t_Host target) err e1 = (b, e2)" by fastforce
    have 2: "kept x e e2" using kept_trans[OF 1 kept_dropUnreachable] d by (metis snd_conv)
    then show ?thesis using kept_trans[OF 2 Cons.IH[OF Cons.prems]] c d Inl 1 by (simp split: bool.split)
  next
    case (Inr raw)
    then show ?thesis using c 1 by simp
  qed
qed simp

lemma kept_state: "kept x e (setTaskState name v e)"
  by (simp add: kept_def setTaskState_def)
     (simp add: set_base_def invalidateRenderCache_def fixed_eq skipUnreachable_def shown_def)

lemma kept_store: "kept x e (snd (store_output x name t raw e))"
  by (simp add: store_output_def kept_state split: sum.split)

lemma kept_runCapture: "kept x e (snd (runCapture x name t e))"
proof -
  have w: "kept x e (snd (store_output x name t raw (slog Warn ''no hosts match task'' a e)))" for raw a
    by (rule kept_trans[OF _ kept_store]) simp
  show ?thesis
  proof (cases "taskSteps x t e")
    case (Inl err)
    then show ?thesis using w by (simp add: runCapture_def Let_def)
  next
    case (Inr sts)
    obtain q e1 where c: "capture_any x name t sts
        (if task_Local t then [local_target] else taskTargets t (targetsForTask e t)) (Inr []) e = (q, e1)"
      by fastforce
    have 1: "kept x e e1" using kept_capture_any[OF taskSteps_all_ok[OF Inr]] c by (metis snd_conv)
    then show ?thesis using w Inr c kept_trans[OF 1 kept_store]
      by (simp add: runCapture_def Let_def split: sum.split)
  qed
qed

lemma kept_runOnTargets:
  assumes "\<not> e_dryRun e"
  shows "kept x e (snd (runOnTargets x t hosts cmdFor e))"
proof -
  obtain rs e1 where r: "cluster_Run x (taskTargets t (filterExcluded e hosts)) cmdFor (\<not> skipUnreachable e) e = (rs, e1)"
    by fastforce
  have 1: "kept x e e1" using kept_Run[OF assms] r by (metis snd_conv)
  then show ?thesis using r kept_trans[OF 1 kept_policy]
    by (simp add: runOnTargets_def Let_def case_prod_beta)
qed

lemma kept_RunCommand:
  assumes "\<not> e_dryRun e"
  shows "kept x e (snd (host_RunCommand x t hosts cmd e))"
proof -
  let ?e1 = "fold (\<lambda>h. echoExec x (host_Address h) cmd) hosts e"
  have 1: "kept x e ?e1" by (rule kept_quiet[OF quiet_fold]) simp
  have "\<not> e_dryRun ?e1" using assms kept_fields[OF 1] by simp
  then show ?thesis using kept_trans[OF 1 kept_runOnTargets] by (simp add: host_RunCommand_def)
qed

lemma kept_capture_first: "\<not> e_dryRun e \<Longrightarrow> kept x e (snd (capture_first x t hs cmd e))"
proof (induction hs arbitrary: e)
  case (Cons h hs)
  let ?e1 = "echoExec x (host_Address h) cmd e"
  have 1: "kept x e ?e1" by simp
  have nd: "\<not> e_dryRun ?e1" using Cons.prems kept_fields[OF 1] by simp
  obtain q e2 where c: "cluster_Capture x (hd (taskTargets t [h])) cmd ?e1 = (q, e2)" by fastforce
  have 2: "kept x e e2" using kept_trans[OF 1 kept_Capture[OF nd]] c by (metis snd_conv)
  show ?case
  proof (cases q)
    case (Inl err)
    obtain b e3 where d: "dropUnreachable x (task_Action t) (host_Address h) err e2 = (b, e3)" by fastforce
    have 3: "kept x e e3" using kept_trans[OF 2 kept_dropUnreachable] d by (metis snd_conv)
    then have "\<not> e_dryRun e3" using Cons.prems kept_fields by metis
    then show ?thesis using kept_trans[OF 3 Cons.IH] c d Inl 3 by (simp split: bool.split)
  next
    case (Inr out)
    then show ?thesis using c 2 by simp
  qed
qed simp

lemma kept_write_cmds: "kept x e (snd (write_cmds x t path content hs cmds e))"
proof (induction hs arbitrary: cmds e)
  case (Cons h hs)
  obtain r e1 where r: "(if is_abs path then (Inr path, e) else (case taskDir x t (host_Address h) e of
      (Inl err, e1) \<Rightarrow> (Inl err, e1) | (Inr dir, e1) \<Rightarrow> (Inr (path_join [dir, path]), e1))) = (r, e1)"
    by fastforce
  have 1: "kept x e e1" using r kept_taskDir[of x e t "host_Address h"]
    by (auto split: if_splits prod.splits sum.splits)
  have "kept x e (snd (write_cmds x t path content hs c (logLine x h' m e1)))"
    "kept x e (snd (write_cmds x t path content hs c (out_write x m e1)))" for c m h'
    using Cons.IH kept_trans[OF 1] by (metis kept_trans kept_quiets(1,2))+
  then show ?case using r 1 by (simp add: Let_def split: sum.split)
qed simp

lemma kept_WriteFile: "\<not> e_dryRun e \<Longrightarrow> kept x e (snd (host_WriteFile x t hosts path content e))"
proof -
  assume nd: "\<not> e_dryRun e"
  obtain r e1 where w: "write_cmds x t path content hosts [] e = (r, e1)" by fastforce
  have 1: "kept x e e1" using kept_write_cmds w by (metis snd_conv)
  have "\<not> e_dryRun e1" using nd kept_fields[OF 1] by simp
  then show ?thesis using w 1 kept_trans[OF 1 kept_runOnTargets]
    by (simp add: host_WriteFile_def split: sum.split)
qed

lemma kept_run_prog: "\<not> e_dryRun e \<Longrightarrow> kept x e (snd (run_prog x t hosts p e))"
proof (induction p arbitrary: e)
  case (Ret r)
  then show ?case by simp
next
  case (Print s k)
  have 1: "kept x e (out_write x s e)" by simp
  show ?case using kept_trans[OF 1 Print.IH] kept_fields[OF 1] Print.prems by simp
next
  case (WriteFile path content k)
  obtain r e1 where w: "host_WriteFile x t hosts path content e = (r, e1)" by fastforce
  have 1: "kept x e e1" using kept_WriteFile[OF WriteFile.prems] w by (metis snd_conv)
  show ?case using kept_trans[OF 1 WriteFile.IH[OF rangeI]] kept_fields[OF 1] WriteFile.prems w by simp
next
  case (RunCommand cmd k)
  obtain r e1 where w: "host_RunCommand x t hosts cmd e = (r, e1)" by fastforce
  have 1: "kept x e e1" using kept_RunCommand[OF RunCommand.prems] w by (metis snd_conv)
  show ?case using kept_trans[OF 1 RunCommand.IH[OF rangeI]] kept_fields[OF 1] RunCommand.prems w by simp
next
  case (CaptureCommand cmd k)
  obtain r e1 where w: "host_CaptureCommand x t hosts cmd e = (r, e1)" by fastforce
  have 1: "kept x e e1" using kept_capture_first[OF CaptureCommand.prems] w
    unfolding host_CaptureCommand_def by (metis snd_conv)
  show ?case using kept_trans[OF 1 CaptureCommand.IH[OF rangeI]] kept_fields[OF 1] CaptureCommand.prems w by simp
next
  case (Secret s k)
  have 1: "kept x e (add_secrets [s] e)" by simp
  show ?case using kept_trans[OF 1 Secret.IH] kept_fields[OF 1] Secret.prems by simp
next
  case (Mask k)
  then show ?case by simp
next
  case (World f)
  obtain q w where f: "f (e_world e) = (q, w)" by fastforce
  have 1: "kept x e (e\<lparr>e_world := w\<rparr>)" using World.prems by (intro kept_core) (simp_all add: shown_def)
  have "q \<in> Basic_BNFs.fsts (f (e_world e))" by (simp add: f prod_set_simps)
  from kept_trans[OF 1 World.IH[OF rangeI this]] show ?case using World.prems f by simp
qed

lemma kept_runAction: "kept x e (snd (runAction x t e))"
proof -
  obtain r e1 where p: "exec_renderParams x (task_With t) e = (r, e1)" by fastforce
  have 1: "kept x e e1" using kept_params p by (metis snd_conv)
  show ?thesis
  proof (cases "e_dryRun e1")
    case True
    have "kept x e (echoDryRun x h c e1)" for h c by (rule kept_trans[OF 1]) simp
    then show ?thesis using p 1 True by (simp add: runAction_def split: sum.split)
  next
    case False
    have "kept x e (snd (run_prog x t hosts q e1))" for hosts q
      by (rule kept_trans[OF 1 kept_run_prog[OF False]])
    then show ?thesis using p 1 False
      by (simp add: runAction_def case_prod_beta split: sum.split option.split prod.split)
  qed
qed

end
