(* ===== verification/Tasks.thy ===== *)
theory Tasks
  imports Steps
begin

text \<open>
  Running a task with its dependencies and hooks (\<open>internal/executor/deps.go\<close>, \<open>RunTask\<close> and
  \<open>RunTaskInPhase\<close> of \<open>executor.go\<close>).

  The recursion of \<open>runTask\<close> is on fuel; \<open>RunTask\<close> starts it with one more than the number of tasks,
  and \<open>RunTask_total\<close> shows that this is always enough. The abstract view of a run is its \<open>plan\<close>: the
  sequence of bodies the configuration alone determines, and \<open>RunTask_plan\<close> shows that a run is the
  execution of its plan up to the first failure.
\<close>

section \<open>One task\<close>

definition announce :: "string \<Rightarrow> task \<Rightarrow> 'w exec \<Rightarrow> 'w exec" where
  "announce name t e = (if task_Silent t then e
     else if task_Desc t \<noteq> [] then slog Info ''task'' [(''name'', name), (''desc'', task_Desc t)] e
     else slog Info ''task'' [(''name'', name)] e)"

definition dispatchTask :: "('t, 'w) ext \<Rightarrow> string \<Rightarrow> task \<Rightarrow> 'w exec \<Rightarrow> goerr option \<times> 'w exec" where
  "dispatchTask x name t e = (if task_Action t \<noteq> [] then runAction x t e
     else if task_Output t \<noteq> [] then runCapture x name t e
     else if task_Local t then runLocal x t e
     else runRemote x name t e)"

definition run_body :: "('t, 'w) ext \<Rightarrow> string \<Rightarrow> task \<Rightarrow> 'w exec \<Rightarrow> goerr option \<times> 'w exec" where
  "run_body x name t e = (let e1 = announce name t e
     in if task_SilentOutput t \<and> \<not> e_dryRun e1 \<and> e_capture e1 = None
        then (case dispatchTask x name t (beginCapture e1) of (r, e2) \<Rightarrow> (r, endCapture x r e2))
        else dispatchTask x name t e1)"

text \<open>A loop that stops at the first error, over a body that may run out of fuel.\<close>

fun run_each :: "('a \<Rightarrow> 's \<Rightarrow> (goerr option \<times> 's) option) \<Rightarrow> ('a \<Rightarrow> goerr \<Rightarrow> goerr) \<Rightarrow> 'a list \<Rightarrow> 's
    \<Rightarrow> (goerr option \<times> 's) option" where
  "run_each f wrap [] s = Some (None, s)"
| "run_each f wrap (a # as) s = (case f a s of
      None \<Rightarrow> None
    | Some (Some err, s') \<Rightarrow> Some (Some (wrap a err), s')
    | Some (None, s') \<Rightarrow> run_each f wrap as s')"

definition next_if_ok :: "(goerr option \<times> 's) option \<Rightarrow> ('s \<Rightarrow> (goerr option \<times> 's) option) \<Rightarrow> (goerr option \<times> 's) option" where
  "next_if_ok r f = (case r of Some (None, s) \<Rightarrow> f s | _ \<Rightarrow> r)"

definition hook_wrap :: "string \<Rightarrow> string \<Rightarrow> string \<Rightarrow> goerr \<Rightarrow> goerr" where
  "hook_wrap when task hook err = wrapf (when @ '' '' @ quoted task @ '' hook '' @ quoted hook) err"

definition runHooks :: "(string \<Rightarrow> 's \<Rightarrow> (goerr option \<times> 's) option) \<Rightarrow> string \<Rightarrow> string \<Rightarrow> string list \<Rightarrow> 's
    \<Rightarrow> (goerr option \<times> 's) option" where
  "runHooks run when task hooks e = run_each run (hook_wrap when task) hooks e"

definition set_log_task :: "string \<Rightarrow> 'w exec \<Rightarrow> 'w exec" where
  "set_log_task name e = e\<lparr>e_logTask := name\<rparr>"

definition unknown_task :: "string \<Rightarrow> goerr" where
  "unknown_task name = Text (''unknown task '' @ quoted name)"

definition task_cycle :: "string \<Rightarrow> goerr" where
  "task_cycle name = Text (''task dependency cycle through '' @ quoted name)"

definition skip_stage :: "string \<Rightarrow> 'w exec \<Rightarrow> 'w exec" where
  "skip_stage name e = slog Info ''skipping task: not active for this stage''
     [(''task'', name), (''stage'', cfg_Stage (e_cfg e))] e"

definition skip_plugin :: "string \<Rightarrow> task \<Rightarrow> 'w exec \<Rightarrow> 'w exec" where
  "skip_plugin name t e = slog Info ''skipping action task: plugins not active for this stage''
     [(''task'', name), (''action'', task_Action t), (''stage'', cfg_Stage (e_cfg e))] e"

definition plugin_skipped :: "string list \<Rightarrow> task \<Rightarrow> bool" where
  "plugin_skipped skipped t \<longleftrightarrow> task_Action t \<noteq> [] \<and> List.member skipped (actionNamespace (task_Action t))"

text \<open>\<open>None\<close> is running out of fuel.\<close>

primrec runTask :: "('t, 'w) ext \<Rightarrow> nat \<Rightarrow> string \<Rightarrow> string list \<Rightarrow> 'w exec \<Rightarrow> (goerr option \<times> 'w exec) option" where
  "runTask x 0 name stack e = None"
| "runTask x (Suc n) name stack e = (case m_get (cfg_Tasks (e_cfg e)) name of
      None \<Rightarrow> Some (Some (unknown_task name), e)
    | Some None \<Rightarrow> Some (Some (unknown_task name), e)
    | Some (Some t) \<Rightarrow>
        if List.member stack name then Some (Some (task_cycle name), e)
        else map_option (\<lambda>(r, d). (r, set_log_task (e_logTask e) d))
          (let e1 = set_log_task name e; run = (\<lambda>dep d. runTask x n dep (name # stack) d)
           in if \<not> ActiveForStage t (cfg_Stage (e_cfg e1)) then Some (None, skip_stage name e1)
              else if plugin_skipped (e_skipped e1) t then Some (None, skip_plugin name t e1)
              else next_if_ok (runHooks run ''before'' name (m_list (hooks_Before (cfg_Hooks (e_cfg e1))) name) e1)
                (\<lambda>e2. next_if_ok (run_each run (\<lambda>_ err. err) (task_Deps t) e2)
                (\<lambda>e3. next_if_ok (Some (run_body x name t e3))
                (\<lambda>e4. runHooks run ''after'' name (m_list (hooks_After (cfg_Hooks (e_cfg e4))) name) e4)))))"

definition task_fuel :: "'w exec \<Rightarrow> nat" where
  "task_fuel e = Suc (length (cfg_Tasks (e_cfg e)))"

definition RunTask :: "('t, 'w) ext \<Rightarrow> string \<Rightarrow> 'w exec \<Rightarrow> goerr option \<times> 'w exec" where
  "RunTask x name e = (case runTask x (task_fuel e) name [] e of Some r \<Rightarrow> r | None \<Rightarrow> (None, e))"

definition RunTaskInPhase :: "('t, 'w) ext \<Rightarrow> string \<Rightarrow> string \<Rightarrow> 'w exec \<Rightarrow> goerr option \<times> 'w exec" where
  "RunTaskInPhase x name phase e = (case RunTask x name (setPhase phase e) of
     (r, d) \<Rightarrow> (r, setPhase (tc_Phase (e_base e)) d))"

section \<open>The plan of a task\<close>

datatype act = Body string task | Skip_stage string | Skip_plugin string task | Stop_with goerr

text \<open>An entry of a plan: the hooks it runs under, outermost first, and what it does.\<close>

type_synonym entry = "(string \<times> string \<times> string) list \<times> act"

definition under :: "(string \<times> string \<times> string) \<Rightarrow> entry list \<Rightarrow> entry list" where
  "under hk p = map (\<lambda>(hks, a). (hk # hks, a)) p"

fun concat_opt :: "('a \<Rightarrow> 'b list option) \<Rightarrow> 'a list \<Rightarrow> 'b list option" where
  "concat_opt f [] = Some []"
| "concat_opt f (a # as) = (case f a of None \<Rightarrow> None
     | Some p \<Rightarrow> (case concat_opt f as of None \<Rightarrow> None | Some q \<Rightarrow> Some (p @ q)))"

definition task_parts :: "(string \<Rightarrow> entry list option) \<Rightarrow> deploy_file \<Rightarrow> string \<Rightarrow> task \<Rightarrow> entry list option" where
  "task_parts sub cfg name t =
     (case concat_opt (\<lambda>h. map_option (under (''before'', name, h)) (sub h)) (m_list (hooks_Before (cfg_Hooks cfg)) name) of
        None \<Rightarrow> None
      | Some before \<Rightarrow> (case concat_opt sub (task_Deps t) of
          None \<Rightarrow> None
        | Some deps \<Rightarrow> (case concat_opt (\<lambda>h. map_option (under (''after'', name, h)) (sub h))
              (m_list (hooks_After (cfg_Hooks cfg)) name) of
            None \<Rightarrow> None
          | Some after \<Rightarrow> Some (before @ deps @ [([], Body name t)] @ after))))"

primrec plan :: "deploy_file \<Rightarrow> string list \<Rightarrow> nat \<Rightarrow> string \<Rightarrow> string list \<Rightarrow> entry list option" where
  "plan cfg skipped 0 name stack = None"
| "plan cfg skipped (Suc n) name stack = (case m_get (cfg_Tasks cfg) name of
      None \<Rightarrow> Some [([], Stop_with (unknown_task name))]
    | Some None \<Rightarrow> Some [([], Stop_with (unknown_task name))]
    | Some (Some t) \<Rightarrow>
        if name \<in> set stack then Some [([], Stop_with (task_cycle name))]
        else if \<not> ActiveForStage t (cfg_Stage cfg) then Some [([], Skip_stage name)]
        else if plugin_skipped skipped t then Some [([], Skip_plugin name t)]
        else task_parts (\<lambda>dep. plan cfg skipped n dep (name # stack)) cfg name t)"

lemma task_parts_Some: "task_parts sub cfg name t = Some p \<longleftrightarrow> (\<exists>before deps after.
    concat_opt (\<lambda>h. map_option (under (''before'', name, h)) (sub h)) (m_list (hooks_Before (cfg_Hooks cfg)) name) = Some before
  \<and> concat_opt sub (task_Deps t) = Some deps
  \<and> concat_opt (\<lambda>h. map_option (under (''after'', name, h)) (sub h)) (m_list (hooks_After (cfg_Hooks cfg)) name) = Some after
  \<and> p = before @ deps @ [([], Body name t)] @ after)"
  by (auto simp: task_parts_def split: option.split)

fun run_act :: "('t, 'w) ext \<Rightarrow> act \<Rightarrow> 'w exec \<Rightarrow> goerr option \<times> 'w exec" where
  "run_act x (Body name t) e = (case run_body x name t (set_log_task name e) of
     (r, d) \<Rightarrow> (r, set_log_task (e_logTask e) d))"
| "run_act x (Skip_stage name) e = (None, skip_stage name e)"
| "run_act x (Skip_plugin name t) e = (None, skip_plugin name t e)"
| "run_act x (Stop_with err) e = (Some err, e)"

definition wrap_hooks :: "(string \<times> string \<times> string) list \<Rightarrow> goerr \<Rightarrow> goerr" where
  "wrap_hooks hks err = foldr (\<lambda>(when, task, hook) e. hook_wrap when task hook e) hks err"

fun run_plan :: "('t, 'w) ext \<Rightarrow> entry list \<Rightarrow> 'w exec \<Rightarrow> goerr option \<times> 'w exec" where
  "run_plan x [] e = (None, e)"
| "run_plan x ((hks, a) # p) e = (case run_act x a e of
      (Some err, d) \<Rightarrow> (Some (wrap_hooks hks err), d)
    | (None, d) \<Rightarrow> run_plan x p d)"

section \<open>What a task keeps\<close>

lemma kept_announce [simp]: "kept x e (announce name t e)"
  by (simp add: announce_def)

lemma kept_dispatch: "kept x e (snd (dispatchTask x name t e))"
  by (simp add: dispatchTask_def kept_runAction kept_runCapture kept_runLocal kept_runRemote)

lemma core_cong:
  assumes "core_of c = core_of d"
  shows "fixed c = fixed d" "cache_ok x c = cache_ok x d" "e_unreachable c = e_unreachable d"
    "skipUnreachable c = skipUnreachable d" "e_required c = e_required d" "e_dryRun c = e_dryRun d"
proof -
  show "fixed c = fixed d" "e_unreachable c = e_unreachable d"
    "skipUnreachable c = skipUnreachable d" "e_required c = e_required d" "e_dryRun c = e_dryRun d"
    using assms by (simp_all add: fixed_eq core_of_eq skipUnreachable_def)
  show "cache_ok x c = cache_ok x d"
    using evolves_core[OF assms, of x] evolves_core[OF assms[symmetric], of x] by (auto simp: evolves_def)
qed

lemma capture_end [simp]: "e_capture (endCapture x r d) = None"
  by (simp add: endCapture_def Let_def console_flush_def console_write_def split: option.split prod.split)

lemma kept_capture_pair:
  assumes "kept x (beginCapture e) d" "e_capture e = None" "\<not> e_dryRun e"
  shows "kept x e (endCapture x r d)"
proof -
  have c: "core_of (endCapture x r d) = core_of d" "core_of (beginCapture e) = core_of e" by simp_all
  show ?thesis
    unfolding kept_def core_cong[OF c(1)]
    using assms(1)[unfolded kept_def core_cong[OF c(2)]] assms(2,3) by simp
qed

lemma kept_body: "kept x e (snd (run_body x name t e))"
proof -
  let ?e1 = "announce name t e"
  have 1: "kept x e ?e1" by simp
  obtain r d where d: "dispatchTask x name t (beginCapture ?e1) = (r, d)" by fastforce
  have "kept x (beginCapture ?e1) d" using kept_dispatch d by (metis snd_conv)
  then have "e_capture ?e1 = None \<Longrightarrow> \<not> e_dryRun ?e1 \<Longrightarrow> kept x e (endCapture x r d)"
    using kept_trans[OF 1 kept_capture_pair] by blast
  then show ?thesis using d kept_trans[OF 1 kept_dispatch] by (simp add: run_body_def Let_def)
qed

text \<open>\<open>kept\<close> does not see a change of the log tag that is undone.\<close>

lemma log_fields [simp]:
  "cache_ok x (set_log_task n c) = cache_ok x c" "fixed (set_log_task n c) = (fixed c)\<lparr>e_logTask := n\<rparr>"
  "e_unreachable (set_log_task n c) = e_unreachable c" "skipUnreachable (set_log_task n c) = skipUnreachable c"
  "e_required (set_log_task n c) = e_required c" "e_dryRun (set_log_task n c) = e_dryRun c"
  "e_world (set_log_task n c) = e_world c" "e_cluster (set_log_task n c) = e_cluster c"
  "e_capture (set_log_task n c) = e_capture c" "shown (set_log_task n c) = shown c"
  "e_cfg (set_log_task n c) = e_cfg c" "e_skipped (set_log_task n c) = e_skipped c"
proof -
  show "cache_ok x (set_log_task n c) = cache_ok x c"
    using evolves_same[of "set_log_task n c" c x] evolves_same[of c "set_log_task n c" x]
    by (auto simp: evolves_def set_log_task_def ctx_inputs_def)
  show "fixed (set_log_task n c) = (fixed c)\<lparr>e_logTask := n\<rparr>"
    by (simp add: set_log_task_def fixed_def core_of_def core.truncate_def)
qed (simp_all add: set_log_task_def skipUnreachable_def shown_def)

lemma kept_log: "kept x e d \<Longrightarrow> kept x (set_log_task n e) (set_log_task n d)"
  by (auto simp: kept_def split: if_splits)

lemma log_log [simp]: "set_log_task a (set_log_task b e) = set_log_task a e"
  "e_logTask (set_log_task a e) = a" "set_log_task (e_logTask e) e = e"
  by (simp_all add: set_log_task_def)

lemma kept_act: "kept x e (snd (run_act x a e))"
proof (cases a)
  case (Body name t)
  have "kept x (set_log_task (e_logTask e) (set_log_task name e))
      (set_log_task (e_logTask e) (snd (run_body x name t (set_log_task name e))))"
    by (rule kept_log[OF kept_body])
  then show ?thesis using Body by (simp add: case_prod_beta)
qed (simp_all add: skip_stage_def skip_plugin_def)

lemma kept_plan: "kept x e (snd (run_plan x p e))"
proof (induction x p e rule: run_plan.induct)
  case (2 x hks a p e)
  obtain r d where a: "run_act x a e = (r, d)" by fastforce
  then have "kept x e d" using kept_act by (metis snd_conv)
  then show ?case using 2 a by (auto split: option.split intro: kept_trans)
qed simp

section \<open>A run executes its plan\<close>

lemma run_plan_append: "run_plan x (p @ q) e = (case run_plan x p e of
    (Some err, d) \<Rightarrow> (Some err, d) | (None, d) \<Rightarrow> run_plan x q d)"
  by (induction x p e rule: run_plan.induct) (auto split: prod.split option.split)

lemma run_plan_under: "run_plan x (under (when, t, hk) p) e = (case run_plan x p e of
    (Some err, d) \<Rightarrow> (Some (hook_wrap when t hk err), d) | (None, d) \<Rightarrow> (None, d))"
  by (induction x p e rule: run_plan.induct) (auto simp: under_def wrap_hooks_def split: prod.split option.split)

text \<open>The log tag an action starts with does not matter to it.\<close>

lemma skip_log: "skip_stage name (set_log_task l e) = set_log_task l (skip_stage name e)"
  "skip_plugin name t (set_log_task l e) = set_log_task l (skip_plugin name t e)"
  by (simp_all add: skip_stage_def skip_plugin_def slog_def set_log_task_def)

lemma run_act_log: "run_act x a (set_log_task l e) = map_prod id (set_log_task l) (run_act x a e)"
  by (cases a) (simp_all add: skip_log case_prod_beta)

lemma run_plan_log: "run_plan x p (set_log_task l e) = map_prod id (set_log_task l) (run_plan x p e)"
proof (induction x p e rule: run_plan.induct)
  case (2 x hks a p e)
  then show ?case by (cases "run_act x a e") (auto simp: run_act_log split: option.split)
qed simp

lemma kept_plan_env: "run_plan x p e = (r, d) \<Longrightarrow>
    e_cfg d = e_cfg e \<and> e_skipped d = e_skipped e \<and> e_logTask d = e_logTask e"
  using kept_fields[OF kept_plan[of x e p]] by simp

definition env_of :: "'w exec \<Rightarrow> deploy_file \<times> string list" where
  "env_of e = (e_cfg e, e_skipped e)"

definition wrap_err :: "(goerr \<Rightarrow> goerr) \<Rightarrow> goerr option \<times> 's \<Rightarrow> goerr option \<times> 's" where
  "wrap_err f r = (map_option f (fst r), snd r)"

lemma run_each_plan:
  assumes "concat_opt f names = Some p" "env_of e = c"
    and "\<And>a d q. env_of d = c \<Longrightarrow> f a = Some q \<Longrightarrow>
      \<exists>s. run a d = Some s \<and> run_plan x q d = wrap_err (wrap a) s"
  shows "run_each run wrap names e = Some (run_plan x p e)"
  using assms(1,2)
proof (induction names arbitrary: p e)
  case (Cons a names)
  obtain q ps where q: "f a = Some q" "concat_opt f names = Some ps" "p = q @ ps"
    using Cons.prems(1) by (auto split: option.splits)
  obtain r d where s: "run a e = Some (r, d)" "run_plan x q e = wrap_err (wrap a) (r, d)"
    using assms(3)[OF Cons.prems(2) q(1)] by fastforce
  have "env_of d = c" using kept_plan_env[of x q e] s(2) Cons.prems(2) by (simp add: env_of_def wrap_err_def)
  then show ?case using Cons.IH[OF q(2)] s q(3)
    by (simp add: run_plan_append wrap_err_def split: option.split)
qed simp

lemma hooks_plan:
  fixes e :: "'w exec"
  assumes "concat_opt (\<lambda>h. map_option (under (when, name, h)) (sub h)) hooks = Some p" "env_of e = c"
    and "\<And>a d q. env_of d = c \<Longrightarrow> sub a = Some q \<Longrightarrow> run a d = Some (run_plan x q d)"
  shows "runHooks run when name hooks e = Some (run_plan x p e)"
  unfolding runHooks_def
proof (rule run_each_plan[OF assms(1,2)])
  fix a q and d :: "'w exec"
  assume "env_of d = c" "map_option (under (when, name, a)) (sub a) = Some q"
  then obtain q' where "sub a = Some q'" "q = under (when, name, a) q'" "run a d = Some (run_plan x q' d)"
    using assms(3) by auto
  then show "\<exists>s. run a d = Some s \<and> run_plan x q d = wrap_err (hook_wrap when name a) s"
    by (auto simp: run_plan_under wrap_err_def split: prod.split option.split)
qed

lemma run_body_entry:
  assumes "e_logTask e = name"
  shows "run_plan x [([], Body name t)] e = run_body x name t e"
proof -
  obtain r d where b: "run_body x name t e = (r, d)" by fastforce
  have "e_logTask d = name" using kept_fields[OF kept_body[of x e name t]] b assms by simp
  moreover have "set_log_task name e = e" using assms by (simp add: set_log_task_def)
  moreover have "set_log_task name d = d" if "e_logTask d = name" using that by (simp add: set_log_task_def)
  ultimately show ?thesis using b assms by (auto simp: wrap_hooks_def split: option.split)
qed

lemma runTask_plan_gen:
  "plan cfg skipped n name stack = Some p \<Longrightarrow> env_of e = (cfg, skipped)
     \<Longrightarrow> runTask x n name stack e = Some (run_plan x p e)"
proof (induction n arbitrary: name stack p e)
  case (Suc n)
  have env: "e_cfg e = cfg" "e_skipped e = skipped" using Suc.prems(2) by (simp_all add: env_of_def)
  consider "m_get (cfg_Tasks cfg) name = None \<or> m_get (cfg_Tasks cfg) name = Some None"
    | t where "m_get (cfg_Tasks cfg) name = Some (Some t)"
    by (metis option.exhaust)
  then show ?case
  proof cases
    case 1
    then show ?thesis using Suc.prems env by (auto simp: wrap_hooks_def)
  next
    case (2 t)
    let ?e1 = "set_log_task name e"
    let ?run = "\<lambda>dep d. runTask x n dep (name # stack) d"
    let ?sub = "\<lambda>dep. plan cfg skipped n dep (name # stack)"
    have env1: "env_of ?e1 = (cfg, skipped)" using env by (simp add: env_of_def)
    have undo: "map_prod id (set_log_task (e_logTask e)) (run_plan x p ?e1) = run_plan x p e"
    proof -
      obtain r b where rb: "run_plan x p e = (r, b)" by fastforce
      have "set_log_task (e_logTask e) b = b" using kept_plan_env[OF rb] log_log(3)[of b] by simp
      then show ?thesis using rb by (simp add: run_plan_log)
    qed
    consider "name \<in> set stack" | "name \<notin> set stack" "\<not> ActiveForStage t (cfg_Stage cfg)"
      | "name \<notin> set stack" "ActiveForStage t (cfg_Stage cfg)" "plugin_skipped skipped t"
      | "name \<notin> set stack" "ActiveForStage t (cfg_Stage cfg)" "\<not> plugin_skipped skipped t" by blast
    then show ?thesis
    proof cases
      case 1
      then show ?thesis using Suc.prems env 2 by (auto simp: wrap_hooks_def)
    next
      case c2: 2
      then show ?thesis using Suc.prems env 2 undo by (auto simp: env1 skip_log)
    next
      case c3: 3
      then show ?thesis using Suc.prems env 2 undo by (auto simp: env1 skip_log)
    next
      case c4: 4
      obtain before deps after where
        b: "concat_opt (\<lambda>h. map_option (under (''before'', name, h)) (?sub h)) (m_list (hooks_Before (cfg_Hooks cfg)) name) = Some before"
        and d: "concat_opt ?sub (task_Deps t) = Some deps"
        and a: "concat_opt (\<lambda>h. map_option (under (''after'', name, h)) (?sub h)) (m_list (hooks_After (cfg_Hooks cfg)) name) = Some after"
        and p: "p = before @ deps @ [([], Body name t)] @ after"
        using Suc.prems(1) 2 c4 by (auto simp: task_parts_Some)
      note sub = Suc.IH[of _ "name # stack"]
      have step: "e_logTask e' = name \<and> env_of e' = (cfg, skipped)"
        if "run_plan x q d' = (r', e')" "e_logTask d' = name" "env_of d' = (cfg, skipped)" for q d' r' e'
        using kept_plan_env[OF that(1)] that(2,3) by (simp add: env_of_def)
      have inner: "next_if_ok (runHooks ?run ''before'' name (m_list (hooks_Before (cfg_Hooks (e_cfg ?e1))) name) ?e1)
                (\<lambda>e2. next_if_ok (run_each ?run (\<lambda>_ err. err) (task_Deps t) e2)
                (\<lambda>e3. next_if_ok (Some (run_body x name t e3))
                (\<lambda>e4. runHooks ?run ''after'' name (m_list (hooks_After (cfg_Hooks (e_cfg e4))) name) e4)))
             = Some (run_plan x p ?e1)"
      proof -
        obtain rb e2 where b2: "run_plan x before ?e1 = (rb, e2)" by fastforce
        have hb: "runHooks ?run ''before'' name (m_list (hooks_Before (cfg_Hooks cfg)) name) ?e1 = Some (rb, e2)"
          using hooks_plan[OF b env1, of ?run x] sub b2 by simp
        have e2: "e_logTask e2 = name" "env_of e2 = (cfg, skipped)" using step[OF b2] env1 by simp_all
        obtain rd e3 where d3: "run_plan x deps e2 = (rd, e3)" by fastforce
        have hd: "run_each ?run (\<lambda>_ err. err) (task_Deps t) e2 = Some (rd, e3)"
          using run_each_plan[OF d e2(2), of ?run x "\<lambda>_ err. err"] sub d3
          by (simp add: wrap_err_def option.map_ident)
        have e3: "e_logTask e3 = name" "env_of e3 = (cfg, skipped)" using step[OF d3] e2 by simp_all
        obtain rt e4 where t4: "run_body x name t e3 = (rt, e4)" by fastforce
        have t4': "run_plan x [([], Body name t)] e3 = (rt, e4)" unfolding run_body_entry[OF e3(1)] by (rule t4)
        have e4: "e_logTask e4 = name" "env_of e4 = (cfg, skipped)" using step[OF t4'] e3 by simp_all
        have ha: "runHooks ?run ''after'' name (m_list (hooks_After (cfg_Hooks cfg)) name) e4 = Some (run_plan x after e4)"
          using hooks_plan[OF a e4(2), of ?run x] sub by simp
        have cfg: "e_cfg ?e1 = cfg" "e_cfg e4 = cfg" using env e4(2) by (simp_all add: env_of_def)
        show ?thesis
          unfolding p cfg(1) hb next_if_ok_def run_plan_append b2
          using hd t4 t4' ha cfg(2) d3
          by (auto simp: run_plan_append split: option.split)
      qed
      then show ?thesis using 2 c4 env undo by (simp add: Let_def map_prod_def case_prod_beta)
    qed
  qed
qed simp

section \<open>Fuel\<close>

lemma concat_opt_total: "(\<And>a. a \<in> set as \<Longrightarrow> f a \<noteq> None) \<Longrightarrow> concat_opt f as \<noteq> None"
  by (induction as) fastforce+

lemma concat_opt_mono: "(\<And>a p. a \<in> set as \<Longrightarrow> f a = Some p \<Longrightarrow> g a = Some p) \<Longrightarrow> concat_opt f as = Some q \<Longrightarrow> concat_opt g as = Some q"
  by (induction as arbitrary: q) (auto split: option.splits)

lemma task_parts_total: "(\<And>a. sub a \<noteq> None) \<Longrightarrow> task_parts sub cfg name t \<noteq> None"
proof -
  assume sub: "\<And>a. sub a \<noteq> None"
  have c: "concat_opt sub as \<noteq> None" for as by (rule concat_opt_total) (rule sub)
  have h: "concat_opt (\<lambda>h. map_option (under (w, name, h)) (sub h)) as \<noteq> None" for as w
    by (rule concat_opt_total) (simp add: sub)
  obtain b where "concat_opt (\<lambda>h. map_option (under (''before'', name, h)) (sub h)) (m_list (hooks_Before (cfg_Hooks cfg)) name) = Some b"
    using h by fast
  moreover obtain d where "concat_opt sub (task_Deps t) = Some d" using c by fast
  moreover obtain a where "concat_opt (\<lambda>h. map_option (under (''after'', name, h)) (sub h)) (m_list (hooks_After (cfg_Hooks cfg)) name) = Some a"
    using h by fast
  ultimately have "task_parts sub cfg name t = Some (b @ d @ [([], Body name t)] @ a)" by (simp add: task_parts_Some)
  then show ?thesis by simp
qed

lemma task_parts_mono:
  assumes "\<And>a q. f a = Some q \<Longrightarrow> g a = Some q" "task_parts f cfg name t = Some p"
  shows "task_parts g cfg name t = Some p"
proof -
  have s: "concat_opt f as = Some q \<Longrightarrow> concat_opt g as = Some q" for as q
    by (rule concat_opt_mono) (rule assms(1))
  have h: "concat_opt (\<lambda>h. map_option (under (w, name, h)) (f h)) as = Some q \<Longrightarrow>
      concat_opt (\<lambda>h. map_option (under (w, name, h)) (g h)) as = Some q" for as w q
    by (rule concat_opt_mono) (auto dest: assms(1))
  show ?thesis using assms(2) s h unfolding task_parts_Some by blast
qed

lemma plan_total:
  "card (set (m_keys (cfg_Tasks cfg)) - set stack) < n \<Longrightarrow> plan cfg skipped n name stack \<noteq> None"
proof (induction n arbitrary: name stack)
  case (Suc n)
  show ?case
  proof (cases "m_get (cfg_Tasks cfg) name")
    case (Some to)
    show ?thesis
    proof (cases to)
      case (Some t)
      show ?thesis
      proof (cases "name \<in> set stack")
        case False
        have "name \<in> set (m_keys (cfg_Tasks cfg))"
          using \<open>m_get _ _ = Some to\<close> by (auto dest: map_of_SomeD simp: image_iff intro: bexI[rotated])
        then have "card (set (m_keys (cfg_Tasks cfg)) - set (name # stack)) < card (set (m_keys (cfg_Tasks cfg)) - set stack)"
          using False by (intro psubset_card_mono) auto
        then have sub: "plan cfg skipped n dep (name # stack) \<noteq> None" for dep using Suc by fastforce
        then show ?thesis using \<open>m_get _ _ = Some to\<close> Some False
            task_parts_total[of "\<lambda>dep. plan cfg skipped n dep (name # stack)" cfg name t]
          by simp
      qed (simp add: \<open>m_get _ _ = Some to\<close> Some)
    qed (simp add: \<open>m_get _ _ = Some to\<close>)
  qed simp
qed simp

lemma plan_mono: "plan cfg skipped n name stack = Some p \<Longrightarrow> n \<le> m \<Longrightarrow> plan cfg skipped m name stack = Some p"
proof (induction n arbitrary: name stack p m)
  case (Suc n)
  obtain m' where m: "m = Suc m'" "n \<le> m'" using Suc.prems(2) by (cases m) auto
  have sub: "plan cfg skipped n a st = Some q \<Longrightarrow> plan cfg skipped m' a st = Some q" for a st q
    using Suc.IH m(2) by blast
  show ?case using Suc.prems(1) task_parts_mono[OF sub] unfolding m(1)
    by (auto split: option.splits if_splits)
qed simp

lemma plan_enough: "length (cfg_Tasks cfg) < n \<Longrightarrow> plan cfg skipped n name [] \<noteq> None"
proof (rule plan_total)
  have "card (set (m_keys (cfg_Tasks cfg))) \<le> length (m_keys (cfg_Tasks cfg))" by (rule card_length)
  then show "length (cfg_Tasks cfg) < n \<Longrightarrow> card (set (m_keys (cfg_Tasks cfg)) - set []) < n" by simp
qed

definition plan_of :: "'w exec \<Rightarrow> string \<Rightarrow> entry list" where
  "plan_of e name = the (plan (e_cfg e) (e_skipped e) (task_fuel e) name [])"

lemma plan_of_Some: "length (cfg_Tasks (e_cfg e)) < n \<Longrightarrow> plan (e_cfg e) (e_skipped e) n name [] = Some (plan_of e name)"
  using plan_enough[of "e_cfg e" "task_fuel e" "e_skipped e" name]
    plan_mono[of "e_cfg e" "e_skipped e" "task_fuel e" name "[]" _ n]
  by (auto simp: plan_of_def task_fuel_def)

text \<open>
  C31. Whatever the dependencies and hooks, cycles included, a task run ends: any amount of fuel above
  the number of tasks gives a result, and the same one.
\<close>

theorem RunTask_total:
  assumes "length (cfg_Tasks (e_cfg e)) < n"
  shows "runTask x n name [] e = Some (RunTask x name e)"
proof -
  have "runTask x k name [] e = Some (run_plan x (plan_of e name) e)" if "length (cfg_Tasks (e_cfg e)) < k" for k
    by (rule runTask_plan_gen[OF plan_of_Some[OF that]]) (simp add: env_of_def)
  from this[OF assms] this[of "task_fuel e"] show ?thesis
    unfolding RunTask_def by (simp add: task_fuel_def del: runTask.simps)
qed

lemma RunTask_is_plan: "RunTask x name e = run_plan x (plan_of e name) e"
proof -
  have "runTask x (task_fuel e) name [] e = Some (run_plan x (plan_of e name) e)"
    by (rule runTask_plan_gen[OF plan_of_Some]) (simp_all add: env_of_def task_fuel_def)
  then show ?thesis unfolding RunTask_def by (simp del: runTask.simps)
qed

text \<open>What an entry is about; in a plan a task's dependencies are dealt with before its body.\<close>

fun about :: "string \<Rightarrow> entry \<Rightarrow> bool" where
  "about d (hks, Body name t) = (name = d)"
| "about d (hks, Skip_stage name) = (name = d)"
| "about d (hks, Skip_plugin name t) = (name = d)"
| "about d (hks, Stop_with err) = (err = unknown_task d \<or> err = task_cycle d)"

definition deps_first :: "entry list \<Rightarrow> bool" where
  "deps_first p \<longleftrightarrow> (\<forall>q1 hks name t q2. p = q1 @ (hks, Body name t) # q2 \<longrightarrow>
     (\<forall>d\<in>set (task_Deps t). \<exists>y\<in>set q1. about d y))"

lemma deps_first_append: "deps_first p \<Longrightarrow> deps_first q \<Longrightarrow> deps_first (p @ q)"
  unfolding deps_first_def
proof (intro allI impI ballI)
  fix q1 hks name t q2 d
  assume p: "\<forall>q1 hks name t q2. p = q1 @ (hks, Body name t) # q2 \<longrightarrow> (\<forall>d\<in>set (task_Deps t). \<exists>y\<in>set q1. about d y)"
    and q: "\<forall>q1 hks name t q2. q = q1 @ (hks, Body name t) # q2 \<longrightarrow> (\<forall>d\<in>set (task_Deps t). \<exists>y\<in>set q1. about d y)"
    and e: "p @ q = q1 @ (hks, Body name t) # q2" and d: "d \<in> set (task_Deps t)"
  from e consider us where "p = q1 @ (hks, Body name t) # us" | us where "q1 = p @ us" "q = us @ (hks, Body name t) # q2"
    by (auto simp: append_eq_append_conv2 Cons_eq_append_conv append_eq_Cons_conv)
  then show "\<exists>y\<in>set q1. about d y" using p q d by cases (metis, metis UnCI set_append)
qed

lemma about_under [simp]: "about d (hk # hks, a) = about d (hks, a)" by (cases a) simp_all

lemma deps_first_under: "deps_first p \<Longrightarrow> deps_first (under hk p)"
proof -
  have m: "under hk p = q1 @ (hks, Body name t) # q2 \<Longrightarrow>
      \<exists>r1 hs r2. p = r1 @ (hs, Body name t) # r2 \<and> q1 = under hk r1" for q1 hks name t q2
    by (auto simp: under_def map_eq_append_conv Cons_eq_map_conv)
  have "\<exists>z\<in>set (under hk r). about d z" if "y \<in> set r" "about d y" for y r d
  proof -
    note y = that
    then have "(hk # fst y, snd y) \<in> set (under hk r)" by (force simp: under_def split: prod.split)
    moreover have "about d (hk # fst y, snd y)" using y(2) by (cases y) simp
    ultimately show ?thesis by blast
  qed
  then show "deps_first p \<Longrightarrow> ?thesis" unfolding deps_first_def using m by metis
qed

lemma deps_first_concat:
  "(\<And>a q. a \<in> set as \<Longrightarrow> f a = Some q \<Longrightarrow> deps_first q) \<Longrightarrow> concat_opt f as = Some p \<Longrightarrow> deps_first p"
proof (induction as arbitrary: p)
  case Nil
  then show ?case by (simp add: deps_first_def)
next
  case (Cons a as)
  then show ?case by (auto split: option.splits intro!: deps_first_append)
qed

lemma plan_about: "plan cfg skipped n name stack = Some p \<Longrightarrow> \<exists>y\<in>set p. about name y"
  by (cases n) (auto simp: task_parts_Some split: option.splits if_splits)

lemma concat_has: "concat_opt f as = Some p \<Longrightarrow> a \<in> set as \<Longrightarrow> \<exists>q. f a = Some q \<and> set q \<subseteq> set p"
proof (induction as arbitrary: p)
  case (Cons b as)
  then obtain q ps where q: "f b = Some q" "concat_opt f as = Some ps" "p = q @ ps"
    by (auto split: option.splits)
  then show ?case using Cons.IH[OF q(2)] Cons.prems(2) by fastforce
qed simp

lemma deps_first_one:
  assumes "\<forall>d\<in>set (task_Deps t). \<exists>y\<in>set p. about d y" "deps_first p"
  shows "deps_first (p @ [(hks, Body name t)])"
  unfolding deps_first_def
proof (intro allI impI)
  fix q1 h nm u q2
  assume e: "p @ [(hks, Body name t)] = q1 @ (h, Body nm u) # q2"
  show "\<forall>d\<in>set (task_Deps u). \<exists>y\<in>set q1. about d y"
  proof (cases q2 rule: rev_cases)
    case Nil
    then show ?thesis using e assms(1) by simp
  next
    case (snoc ys y)
    then have "p = q1 @ (h, Body nm u) # ys" using e by simp
    then show ?thesis using assms(2) unfolding deps_first_def by blast
  qed
qed

lemma deps_first_plan: "plan cfg skipped n name stack = Some p \<Longrightarrow> deps_first p"
proof (induction n arbitrary: name stack p)
  case (Suc n)
  have single: "deps_first [([], a)]" if "\<And>nm t. a \<noteq> Body nm t" for a
    using that by (auto simp: deps_first_def Cons_eq_append_conv)
  let ?sub = "\<lambda>dep. plan cfg skipped n dep (name # stack)"
  consider "\<exists>a. p = [([], a)] \<and> (\<forall>nm t. a \<noteq> Body nm t)"
    | t before deps after where "p = before @ deps @ [([], Body name t)] @ after"
      "concat_opt (\<lambda>h. map_option (under (''before'', name, h)) (?sub h)) (m_list (hooks_Before (cfg_Hooks cfg)) name) = Some before"
      "concat_opt ?sub (task_Deps t) = Some deps"
      "concat_opt (\<lambda>h. map_option (under (''after'', name, h)) (?sub h)) (m_list (hooks_After (cfg_Hooks cfg)) name) = Some after"
    using Suc.prems by (auto simp: task_parts_Some split: option.splits if_splits)
  then show ?case
  proof cases
    case 1
    then show ?thesis using single by auto
  next
    case (2 t before deps after)
    have b: "deps_first before" "deps_first after"
      by (rule deps_first_concat[OF _ 2(2)] deps_first_concat[OF _ 2(4)], use Suc.IH deps_first_under in auto)+
    have d: "deps_first deps" by (rule deps_first_concat[OF _ 2(3)]) (use Suc.IH in auto)
    have "\<exists>y\<in>set (before @ deps). about d y" if "d \<in> set (task_Deps t)" for d
      using concat_has[OF 2(3) that] plan_about by fastforce
    then have "deps_first ((before @ deps) @ [([], Body name t)])"
      by (intro deps_first_one) (use b d in \<open>auto intro: deps_first_append\<close>)
    then have "deps_first (((before @ deps) @ [([], Body name t)]) @ after)"
      using b(2) by (rule deps_first_append)
    then show ?thesis using 2(1) by simp
  qed
qed simp

text \<open>
  C2. A task run is the execution of its plan: the list of task bodies and skips that the configuration
  alone determines, run in order up to the first failure, whose error is wrapped by the hooks it ran
  under. In the plan every body comes after an entry for each of the task's dependencies.
\<close>

theorem RunTask_plan:
  "plan (e_cfg e) (e_skipped e) (task_fuel e) name [] = Some (plan_of e name)
   \<and> deps_first (plan_of e name)
   \<and> RunTask x name e = run_plan x (plan_of e name) e"
proof -
  have "plan (e_cfg e) (e_skipped e) (task_fuel e) name [] = Some (plan_of e name)"
    by (rule plan_of_Some) (simp add: task_fuel_def)
  then show ?thesis using deps_first_plan RunTask_is_plan[of x name e] by blast
qed

section \<open>What a task run keeps\<close>

lemma kept_RunTask: "kept x e (snd (RunTask x name e))"
  by (simp add: RunTask_is_plan kept_plan)

lemma phase_fields [simp]:
  "cache_ok x (setPhase q c)" "e_unreachable (setPhase q c) = e_unreachable c"
  "skipUnreachable (setPhase q c) = skipUnreachable c" "e_required (setPhase q c) = e_required c"
  "e_dryRun (setPhase q c) = e_dryRun c" "e_world (setPhase q c) = e_world c"
  "e_cluster (setPhase q c) = e_cluster c" "e_capture (setPhase q c) = e_capture c"
  "shown (setPhase q c) = shown c"
  by (simp add: setPhase_def)
     (simp_all add: setPhase_def set_base_def invalidateRenderCache_def skipUnreachable_def shown_def)

lemma phase_back:
  assumes "kept x (setPhase ph e) d"
  shows "kept x e (setPhase (tc_Phase (e_base e)) d)"
proof -
  have "fixed (setPhase (tc_Phase (e_base e)) d) = fixed e"
  proof -
    have f: "fixed (setPhase q c) = (fixed c)\<lparr>e_base := (e_base (fixed c))\<lparr>tc_Phase := q\<rparr>\<rparr>" for q c
      by (simp add: setPhase_def set_base_def invalidateRenderCache_def fixed_def core_of_def core.truncate_def)
    have "fixed d = fixed (setPhase ph e)" using assms by (simp add: kept_def)
    moreover have "tc_Phase (e_base (fixed e)) = tc_Phase (e_base e)" by (simp add: fixed_def)
    ultimately show ?thesis using f[of "tc_Phase (e_base e)" d] f[of ph e] by simp
  qed
  then show ?thesis using assms by (auto simp: kept_def split: if_splits)
qed

lemma kept_RunTaskInPhase: "kept x e (snd (RunTaskInPhase x name ph e))"
  using phase_back[OF kept_RunTask[of x "setPhase ph e" name]]
  by (simp add: RunTaskInPhase_def case_prod_beta)

text \<open>
  A dry run touches nothing: running any task, with all its dependencies, hooks, captures and
  actions, leaves the hosts and the connection pool exactly as they were.
\<close>

theorem RunTask_dry:
  assumes "e_dryRun e"
  shows "e_world (snd (RunTask x name e)) = e_world e \<and> e_cluster (snd (RunTask x name e)) = e_cluster e
    \<and> e_world (snd (RunTaskInPhase x name phase e)) = e_world e
    \<and> e_cluster (snd (RunTaskInPhase x name phase e)) = e_cluster e"
  using kept_RunTask[of x e name] kept_RunTaskInPhase[of x e name phase] assms by (simp add: kept_def)

text \<open>
  What a task run leaves behind: the configuration, the log tag and the deploy context are those of
  the caller but for the outputs of tasks, the phase included, no output is left captured, and the
  render cache is coherent. Required hosts are never marked unreachable, and under the abort policy
  no host is.
\<close>

theorem RunTaskInPhase_keeps:
  assumes "RunTaskInPhase x name phase e = (r, d)" and "cache_ok x e"
    and "set (e_unreachable e) \<inter> set (e_required e) = {}"
  shows "e_cfg d = e_cfg e \<and> e_logTask d = e_logTask e
    \<and> (e_base d)\<lparr>tc_Tasks := []\<rparr> = (e_base e)\<lparr>tc_Tasks := []\<rparr>
    \<and> (e_capture d = None \<longleftrightarrow> e_capture e = None) \<and> cache_ok x d
    \<and> set (e_unreachable d) \<inter> set (e_required d) = {}
    \<and> set (e_unreachable e) \<subseteq> set (e_unreachable d)
    \<and> (skipUnreachable e \<or> set (e_unreachable d) = set (e_unreachable e))"
proof -
  have k: "kept x e d" using kept_RunTaskInPhase[of x e name phase] assms(1) by simp
  then have "set (e_unreachable d) - set (e_unreachable e) \<subseteq> (if skipUnreachable e then - set (e_required e) else {})"
    "set (e_unreachable e) \<subseteq> set (e_unreachable d)" "e_required d = e_required e" "cache_ok x d"
    "e_capture d = None \<longleftrightarrow> e_capture e = None"
    using assms(2) kept_fields[OF k] by (simp_all add: kept_def)
  moreover have "(e_base d)\<lparr>tc_Tasks := []\<rparr> = (e_base e)\<lparr>tc_Tasks := []\<rparr>" using k by (simp add: kept_def fixed_eq)
  ultimately show ?thesis using kept_fields[OF k] assms(3) by (auto split: if_splits)
qed

section \<open>Silent tasks\<close>

lemma shown_begin: "shown (beginCapture (announce name t e)) = shown e"
  by (simp add: beginCapture_def announce_def slog_def shown_def)

text \<open>
  The output of a \<open>silent_output\<close> task is held back while it runs. If the task succeeds nothing of
  it is ever shown; if it fails, exactly what was held back is shown, in order: the deferred records in
  log mode, else the text through the masking writer.
\<close>

theorem silent_output:
  assumes "task_SilentOutput t" "\<not> e_dryRun e" "e_capture e = None" and "run_body x name t e = (r, d)"
  shows "\<exists>d0 sk. dispatchTask x name t (beginCapture (announce name t e)) = (r, d0)
    \<and> e_capture d0 = Some sk \<and> shown d0 = shown e \<and> e_capture d = None
    \<and> (if r = None then shown d = shown e
       else if e_logMode d0 then e_records d = e_records d0 @ sk_records sk \<and> e_raw d = e_raw e
       else d = (if sk_text sk = [] then d0\<lparr>e_capture := None\<rparr>
                 else console_flush x (console_write x (sk_text sk) (d0\<lparr>e_capture := None\<rparr>))))"
proof -
  let ?b = "beginCapture (announce name t e)"
  obtain r0 d0 where dd: "dispatchTask x name t ?b = (r0, d0)" by fastforce
  have a: "kept x e (announce name t e)" by simp
  have "e_dryRun (announce name t e) = e_dryRun e" "e_capture (announce name t e) = e_capture e"
    using kept_fields[OF a] by (simp_all add: announce_def slog_def)
  then have rd: "r0 = r" "d = endCapture x r d0" using assms dd by (auto simp: run_body_def Let_def)
  have k: "kept x ?b d0" using kept_dispatch dd by (metis snd_conv)
  have cap: "e_capture ?b \<noteq> None" by (simp add: beginCapture_def)
  obtain sk where sk: "e_capture d0 = Some sk" using k cap by (auto simp: kept_def)
  have sh: "shown d0 = shown e" using k cap shown_begin[of name t e] by (simp add: kept_def)
  have "e_capture d = None" unfolding rd(2) by simp
  then show ?thesis using dd rd sk sh
    by (auto simp: endCapture_def Let_def shown_def)
qed

section \<open>Concrete runs\<close>

definition cyclic_cfg :: deploy_file where
  "cyclic_cfg = zero_cfg\<lparr>cfg_Tasks := [(''a'', Some (zero_task\<lparr>task_Deps := [''b'']\<rparr>)),
     (''b'', Some (zero_task\<lparr>task_Deps := [''a''], task_SilentOutput := True\<rparr>))]\<rparr>"

definition cyclic_exec :: "bool \<Rightarrow> nat exec" where
  "cyclic_exec dry = New_executor cyclic_cfg (demo_opts\<lparr>o_DryRun := dry\<rparr>) [] YNull [] no_secrets 0"

lemma cyclic_exec_simps:
  "e_cfg (cyclic_exec dry) = cyclic_cfg" "e_dryRun (cyclic_exec dry) = dry" "e_capture (cyclic_exec dry) = None"
  "e_unreachable (cyclic_exec dry) = []" "e_skipped (cyclic_exec dry) = []" "e_world (cyclic_exec dry) = 0"
  "length (cfg_Tasks cyclic_cfg) = 2"
  by (simp_all add: cyclic_exec_def New_executor_def cyclic_cfg_def zero_cfg_def namespaceSet_def)

lemma cyclic_plan: "plan cyclic_cfg [] 3 ''a'' [] = Some [([], Stop_with (task_cycle ''a''))]
    \<or> (\<exists>t u. plan cyclic_cfg [] 3 ''a'' [] = Some [([], Stop_with (task_cycle ''a'')), ([], Body ''b'' u), ([], Body ''a'' t)])"
  by (simp add: eval_nat_numeral cyclic_cfg_def zero_cfg_def zero_task_def task_parts_def m_list_def
      ActiveForStage_def stageActive_def plugin_skipped_def)

lemma RunTask_total_witness:
  "runTask demo_ext 9 ''a'' [] (cyclic_exec False) = Some (RunTask demo_ext ''a'' (cyclic_exec False))
   \<and> fst (RunTask demo_ext ''a'' (cyclic_exec False)) = Some (task_cycle ''a'')"
proof -
  have p: "plan_of (cyclic_exec False) ''a'' = [([], Stop_with (task_cycle ''a''))]
    \<or> (\<exists>t u. plan_of (cyclic_exec False) ''a'' = [([], Stop_with (task_cycle ''a'')), ([], Body ''b'' u), ([], Body ''a'' t)])"
    using cyclic_plan by (auto simp: plan_of_def task_fuel_def cyclic_exec_simps eval_nat_numeral)
  then have "fst (RunTask demo_ext ''a'' (cyclic_exec False)) = Some (task_cycle ''a'')"
    by (auto simp: RunTask_is_plan wrap_hooks_def)
  moreover have "runTask demo_ext 9 ''a'' [] (cyclic_exec False) = Some (RunTask demo_ext ''a'' (cyclic_exec False))"
    by (rule RunTask_total) (simp add: cyclic_exec_simps)
  ultimately show ?thesis by blast
qed

lemma RunTask_dry_witness:
  "e_world (snd (RunTask demo_ext ''a'' (cyclic_exec True))) = 0
   \<and> e_world (snd (RunTaskInPhase demo_ext ''a'' ''deploy:check'' (cyclic_exec True))) = 0"
  using RunTask_dry[of "cyclic_exec True" demo_ext "''a''" "''deploy:check''"] by (simp add: cyclic_exec_simps)

lemma RunTaskInPhase_keeps_witness:
  "\<exists>r d. RunTaskInPhase demo_ext ''a'' ''deploy:check'' (cyclic_exec False) = (r, d)
     \<and> e_unreachable d = [] \<and> e_cfg d = cyclic_cfg \<and> e_capture d = None"
proof -
  obtain r d where rd: "RunTaskInPhase demo_ext ''a'' ''deploy:check'' (cyclic_exec False) = (r, d)" by fastforce
  have c: "cache_ok demo_ext (cyclic_exec False)" "\<not> skipUnreachable (cyclic_exec False)"
    by (simp_all add: cyclic_exec_def) (simp add: skipUnreachable_def New_executor_def OnUnreachableSkip_def)
  show ?thesis using RunTaskInPhase_keeps[OF rd c(1)] rd c(2) by (simp add: cyclic_exec_simps)
qed

lemma silent_output_witness:
  "\<exists>r d. run_body demo_ext ''b'' (zero_task\<lparr>task_SilentOutput := True\<rparr>) (cyclic_exec False) = (r, d)
     \<and> e_capture d = None"
proof -
  obtain r d where rd: "run_body demo_ext ''b'' (zero_task\<lparr>task_SilentOutput := True\<rparr>) (cyclic_exec False) = (r, d)"
    by fastforce
  show ?thesis using silent_output[OF _ _ _ rd] rd by (auto simp: cyclic_exec_simps)
qed

end
