(* ===== verification/Hooked_Tasks.thy ===== *)
theory Hooked_Tasks
  imports Ast_Model
begin

text \<open>
  The contract of a plugin that adds tasks of its own and hooks each of them to a phase (\<open>cfg.AddTask\<close> followed by
  \<open>cfg.AddHookBefore\<close> or \<open>cfg.AddHookAfter\<close>), and what a sequence of such steps leaves behind.
\<close>

locale hooked_tasks =
  fixes inst :: "'h \<Rightarrow> deploy_file \<Rightarrow> deploy_file"
    and name :: "'h \<Rightarrow> string" and phase :: "'h \<Rightarrow> string" and after :: "'h \<Rightarrow> bool" and body :: "'h \<Rightarrow> task"
  assumes installs: "inst h cfg = (if after h then AddHookAfter else AddHookBefore) (phase h) [name h]
    (AddTask (name h) (Some (body h)) cfg)"
begin

lemma inst_simps:
  "cfg_Tasks (inst h cfg) = m_put (name h) (Some (body h)) (cfg_Tasks cfg)"
  "m_list (hooks_Before (cfg_Hooks (inst h cfg))) ph = m_list (hooks_Before (cfg_Hooks cfg)) ph
     @ (if \<not> after h \<and> phase h = ph then [name h] else [])"
  "m_list (hooks_After (cfg_Hooks (inst h cfg))) ph = m_list (hooks_After (cfg_Hooks cfg)) ph
     @ (if after h \<and> phase h = ph then [name h] else [])"
  "cfg_HookFuncsBefore (inst h cfg) = cfg_HookFuncsBefore cfg" "cfg_HookFuncsAfter (inst h cfg) = cfg_HookFuncsAfter cfg"
  "cfg_Imports (inst h cfg) = cfg_Imports cfg" "cfg_Envs (inst h cfg) = cfg_Envs cfg"
  by (auto simp: installs AddHookAfter_def AddHookBefore_def AddTask_def)

lemma hook_lists:
  "m_list (hooks_Before (cfg_Hooks (fold inst hs cfg))) ph = m_list (hooks_Before (cfg_Hooks cfg)) ph
     @ map name (filter (\<lambda>h. \<not> after h \<and> phase h = ph) hs)"
  "m_list (hooks_After (cfg_Hooks (fold inst hs cfg))) ph = m_list (hooks_After (cfg_Hooks cfg)) ph
     @ map name (filter (\<lambda>h. after h \<and> phase h = ph) hs)"
  by (induction hs arbitrary: cfg) (auto simp: inst_simps)

lemma keeps_rest:
  "cfg_HookFuncsBefore (fold inst hs cfg) = cfg_HookFuncsBefore cfg" "cfg_HookFuncsAfter (fold inst hs cfg) = cfg_HookFuncsAfter cfg"
  "cfg_Imports (fold inst hs cfg) = cfg_Imports cfg" "cfg_Envs (fold inst hs cfg) = cfg_Envs cfg"
  by (induction hs arbitrary: cfg) (auto simp: inst_simps)

lemma other_tasks: "n \<notin> name ` set hs \<Longrightarrow> m_get (cfg_Tasks (fold inst hs cfg)) n = m_get (cfg_Tasks cfg) n"
  by (induction hs arbitrary: cfg) (simp_all add: inst_simps)

lemma own_tasks: "distinct (map name hs) \<Longrightarrow> h \<in> set hs \<Longrightarrow> m_get (cfg_Tasks (fold inst hs cfg)) (name h) = Some (Some (body h))"
proof (induction hs arbitrary: cfg)
  case (Cons g hs)
  then show ?case using other_tasks[of "name g" hs "inst g cfg"] by (auto simp: inst_simps)
qed simp

end

end
