(* ===== verification/Systemd.thy ===== *)
theory Systemd
  imports Params Commands Tasks Hooked_Tasks
begin

text \<open>
  The systemd plugin (\<open>plugins/core/systemd/systemd.go\<close>): its parameters and their validation, the
  commands an action runs on a task's hosts, and the hook tasks it adds to the configuration.

  \<open>decode\<close> is the strict decoding of a parameter map into \<open>params\<close> (\<open>DecodeParamsStrict\<close>, a YAML round
  trip). The executor always binds a command runner before an action runs, so the error of a missing
  one has no counterpart: running a command is a constructor of \<open>prog\<close>.
\<close>

definition systemd_verbs :: "string smap" where
  "systemd_verbs = [(''systemd:start'', ''start''), (''systemd:stop'', ''stop''), (''systemd:restart'', ''restart''),
     (''systemd:enable'', ''enable''), (''systemd:disable'', ''disable''), (''systemd:daemon-reload'', ''daemon-reload'')]"

definition actionNames :: "string list" where "actionNames = sorted_keys systemd_verbs"

definition unit_char :: "char \<Rightarrow> bool" where
  "unit_char c \<longleftrightarrow> (let n = of_char c :: nat in
     65 \<le> n \<and> n \<le> 90 \<or> 97 \<le> n \<and> n \<le> 122 \<or> 48 \<le> n \<and> n \<le> 57 \<or> c \<in> set ''@:._'')"

definition unitName :: "string \<Rightarrow> bool" where
  "unitName s = (case s of [] \<Rightarrow> False | c # cs \<Rightarrow> unit_char c \<and> list_all (\<lambda>d. unit_char d \<or> d = CHR ''-'') cs)"

record systemd_params =
  sd_SystemUnitFiles :: "string list"
  sd_UserUnitFiles :: "string list"
  sd_Sudo :: bool
  sd_DaemonReload :: bool
  sd_Now :: bool
  sd_NoBlock :: bool
  sd_System :: "bool option"
  sd_User :: bool
  sd_Roles :: "string list"
  sd_Phase :: string
  sd_When :: string

section \<open>Validation and commands\<close>

definition sd_validate :: "string \<Rightarrow> systemd_params \<Rightarrow> goerr option" where
  "sd_validate verb p = (case List.find (\<lambda>u. \<not> unitName u) (sd_SystemUnitFiles p @ sd_UserUnitFiles p) of
      Some u \<Rightarrow> Some (Text (''systemd: invalid unit name '' @ quoted u))
    | None \<Rightarrow>
        if sd_When p \<noteq> [] \<and> \<not> equal_fold (sd_When p) ''before'' \<and> \<not> equal_fold (sd_When p) ''after''
        then Some (Text (''systemd: when must be \"before\" or \"after\", got '' @ quoted (sd_When p)))
        else if verb \<noteq> [] \<and> sd_Now p \<and> verb \<noteq> ''enable'' \<and> verb \<noteq> ''disable''
        then Some (Text (''systemd: '' @ verb @ '': now is only valid for enable/disable''))
        else if verb \<noteq> [] \<and> verb \<noteq> ''daemon-reload'' \<and> (sd_System p \<noteq> None \<or> sd_User p)
        then Some (Text (''systemd: '' @ verb @ '': system/user are daemon-reload params''))
        else None)"

definition sysPrefix :: "systemd_params \<Rightarrow> string" where
  "sysPrefix p = (if sd_Sudo p then ''sudo -n '' else [])"

definition quoteUnits :: "string list \<Rightarrow> string" where
  "quoteUnits units = join_on '' '' (map (\<lambda>u. [sq] @ u @ [sq]) units)"

definition sd_commands :: "string \<Rightarrow> systemd_params \<Rightarrow> string list res" where
  "sd_commands verb p =
     (if verb = ''daemon-reload'' then
        (let cmds = (if sd_System p = None \<or> sd_System p = Some True then [sysPrefix p @ ''systemctl daemon-reload''] else [])
               @ (if sd_User p then [''systemctl --user daemon-reload''] else [])
         in if cmds = [] then Inl (Text ''systemd: daemon-reload: nothing to do (system: false and user: false)'') else Inr cmds)
      else if length (sd_SystemUnitFiles p) + length (sd_UserUnitFiles p) = 0
      then Inl (Text (''systemd: '' @ verb @ '': no units configured (set system_unit_files and/or user_unit_files)''))
      else
        (let flags = (if sd_Now p then '' --now'' else []) @ (if sd_NoBlock p then '' --no-block'' else [])
         in Inr ((if sd_DaemonReload p then
               (if sd_SystemUnitFiles p \<noteq> [] then [sysPrefix p @ ''systemctl daemon-reload''] else [])
               @ (if sd_UserUnitFiles p \<noteq> [] then [''systemctl --user daemon-reload''] else []) else [])
            @ (if sd_SystemUnitFiles p \<noteq> []
               then [sysPrefix p @ ''systemctl '' @ verb @ flags @ '' '' @ quoteUnits (sd_SystemUnitFiles p)] else [])
            @ (if sd_UserUnitFiles p \<noteq> []
               then [''systemctl --user '' @ verb @ flags @ '' '' @ quoteUnits (sd_UserUnitFiles p)] else []))))"

section \<open>The actions\<close>

text \<open>The commands one after the other, up to the first failure.\<close>

fun run_commands :: "string list \<Rightarrow> 'w prog" where
  "run_commands [] = Ret None"
| "run_commands (cmd # cmds) = RunCommand cmd (\<lambda>r. case r of Some err \<Rightarrow> Ret (Some err) | None \<Rightarrow> run_commands cmds)"

definition spec_only :: "string list" where "spec_only = [''roles'', ''phase'', ''when'']"

definition systemd_run :: "(yval smap \<Rightarrow> systemd_params res) \<Rightarrow> yval smap \<Rightarrow> yval smap smap \<Rightarrow> string \<Rightarrow> 'w action" where
  "systemd_run decode global defaults action args =
     (let verb = (case m_get systemd_verbs action of Some v \<Rightarrow> v | None \<Rightarrow> []) in
      case List.find (\<lambda>k. m_has args k) spec_only of
        Some k \<Rightarrow> Ret (Some (Text (''systemd: '' @ action @ '': '' @ quoted k
          @ '' is a plugin-level param, not valid in a task's with block'')))
      | None \<Rightarrow> (let base = (case m_get defaults action of Some b \<Rightarrow> b | None \<Rightarrow> global) in
          case decode (MergeParams base args) of
            Inl err \<Rightarrow> Ret (Some (wrapf (''systemd: '' @ action) err))
          | Inr p \<Rightarrow> (case sd_validate verb p of
              Some err \<Rightarrow> Ret (Some err)
            | None \<Rightarrow> (case sd_commands verb p of
                Inl err \<Rightarrow> Ret (Some err) | Inr cmds \<Rightarrow> run_commands cmds))))"

section \<open>Configuration\<close>

record hook_spec =
  hs_task :: string
  hs_action :: string
  hs_phase :: string
  hs_after :: bool
  hs_roles :: "string list"
  hs_with :: "yval smap"

definition stripSpecOnly :: "yval smap \<Rightarrow> yval smap" where
  "stripSpecOnly m = filter (\<lambda>(k, v). k \<notin> set spec_only) m"

record systemd_conf =
  sc_defaults :: "yval smap smap"
  sc_hooks :: "hook_spec list"
  sc_names :: "string list"

definition no_conf :: systemd_conf where
  "no_conf = \<lparr>sc_defaults = [], sc_hooks = [], sc_names = []\<rparr>"

definition hook_name :: "string list \<Rightarrow> nat \<Rightarrow> string \<Rightarrow> string \<Rightarrow> string" where
  "hook_name taken i action phase = (let name = action @ ''@'' @ phase
     in if name \<in> set taken then name @ ''#'' @ itoa (int i) else name)"

text \<open>One entry of \<open>actions:\<close>.\<close>

definition config_action :: "(yval smap \<Rightarrow> systemd_params res) \<Rightarrow> yval smap \<Rightarrow> nat \<Rightarrow> plugin_action_spec
    \<Rightarrow> systemd_conf \<Rightarrow> systemd_conf res" where
  "config_action decode global i a s = (case m_get systemd_verbs (pa_Name a) of
      None \<Rightarrow> Inl (Text (''systemd: unknown action '' @ quoted (pa_Name a) @ '' (want one of ''
        @ join_on '', '' actionNames @ '')''))
    | Some verb \<Rightarrow> (let merged = MergeParams global (pa_Params a) in
        case decode merged of
          Inl err \<Rightarrow> Inl (wrapf (''systemd: '' @ pa_Name a @ '' params'') err)
        | Inr fp \<Rightarrow> (case sd_validate verb fp of
            Some err \<Rightarrow> Inl err
          | None \<Rightarrow> (let s1 = s\<lparr>sc_defaults := m_put (pa_Name a) merged (sc_defaults s)\<rparr> in
              if sd_Phase fp = [] then Inr s1
              else (let name = hook_name (sc_names s) i (pa_Name a) (sd_Phase fp) in
                Inr (s1\<lparr>sc_names := sc_names s @ [name], sc_hooks := sc_hooks s @ [\<lparr>hs_task = name,
                  hs_action = pa_Name a, hs_phase = sd_Phase fp, hs_after = equal_fold (sd_When fp) ''after'',
                  hs_roles = sd_Roles fp, hs_with = stripSpecOnly merged\<rparr>]\<rparr>))))))"

fun config_actions :: "(yval smap \<Rightarrow> systemd_params res) \<Rightarrow> yval smap \<Rightarrow> nat \<Rightarrow> plugin_action_spec list
    \<Rightarrow> systemd_conf \<Rightarrow> systemd_conf res" where
  "config_actions decode global i [] s = Inr s"
| "config_actions decode global i (a # as) s = (case config_action decode global i a s of
      Inl err \<Rightarrow> Inl err | Inr s1 \<Rightarrow> config_actions decode global (Suc i) as s1)"

definition hook_task :: "hook_spec \<Rightarrow> task" where
  "hook_task h = zero_task\<lparr>task_Desc := ''systemd: '' @ (case m_get systemd_verbs (hs_action h) of Some v \<Rightarrow> v | None \<Rightarrow> [])
       @ '' (hook at '' @ hs_phase h @ '')'', task_Hidden := True, task_Silent := True, task_Roles := hs_roles h,
     task_Action := hs_action h, task_With := hs_with h\<rparr>"

definition install_hook :: "hook_spec \<Rightarrow> deploy_file \<Rightarrow> deploy_file" where
  "install_hook h cfg = (if hs_after h then AddHookAfter else AddHookBefore) (hs_phase h) [hs_task h]
     (AddTask (hs_task h) (Some (hook_task h)) cfg)"

definition systemd_startup :: "hook_spec list \<Rightarrow> 'w startup" where
  "systemd_startup hs cfg w = (None, fold install_hook hs cfg, [], w)"

fun add_actions :: "(string \<times> 'w action) list \<Rightarrow> 'w plugin_registry \<Rightarrow> goerr option \<times> 'w plugin_registry" where
  "add_actions [] reg = (None, reg)"
| "add_actions ((name, fn) # fns) reg = (case AddAction name fn reg of
      (Some err, reg') \<Rightarrow> (Some err, reg') | (None, reg') \<Rightarrow> add_actions fns reg')"

text \<open>The actions are registered in some order of their names; the model takes the sorted one.\<close>

definition systemd_configure :: "(yval smap \<Rightarrow> systemd_params res) \<Rightarrow> plugin_spec \<Rightarrow> 'w plugin_registry
    \<Rightarrow> goerr option \<times> 'w plugin_registry" where
  "systemd_configure decode spec reg = (case decode (ps_Params spec) of
      Inl err \<Rightarrow> (Some (wrapf ''systemd params'' err), reg)
    | Inr gp \<Rightarrow> (case sd_validate [] gp of
        Some err \<Rightarrow> (Some err, reg)
      | None \<Rightarrow> (case config_actions decode (ps_Params spec) 0 (ps_Actions spec)
            no_conf of
          Inl err \<Rightarrow> (Some err, reg)
        | Inr s \<Rightarrow> (case add_actions (map (\<lambda>n. (n, systemd_run decode (ps_Params spec) (sc_defaults s) n)) actionNames) reg of
            (Some err, reg1) \<Rightarrow> (Some err, reg1)
          | (None, reg1) \<Rightarrow> (None, AddStartup (systemd_startup (sc_hooks s)) reg1)))))"

definition systemd_plugin :: "(yval smap \<Rightarrow> systemd_params res) \<Rightarrow> 'w plugin" where
  "systemd_plugin decode = \<lparr>pl_Configure = (\<lambda>spec reg w. (case systemd_configure decode spec reg of (r, reg') \<Rightarrow> (r, reg', [], w))),
      pl_Version = Some ''1.0.0'', pl_Commands = None\<rparr>"

section \<open>What the commands say\<close>

text \<open>The argument vectors the commands stand for.\<close>

definition sudo_words :: "systemd_params \<Rightarrow> string list" where
  "sudo_words p = (if sd_Sudo p then [''sudo'', ''-n''] else [])"

definition flag_words :: "systemd_params \<Rightarrow> string list" where
  "flag_words p = (if sd_Now p then [''--now''] else []) @ (if sd_NoBlock p then [''--no-block''] else [])"

definition argvs :: "string \<Rightarrow> systemd_params \<Rightarrow> string list list" where
  "argvs verb p = (let sys = sd_SystemUnitFiles p; usr = sd_UserUnitFiles p;
       sysReload = sudo_words p @ [''systemctl'', ''daemon-reload'']; usrReload = [''systemctl'', ''--user'', ''daemon-reload'']
     in if verb = ''daemon-reload''
        then (if sd_System p = Some False then [] else [sysReload]) @ (if sd_User p then [usrReload] else [])
        else (if sd_DaemonReload p \<and> sys \<noteq> [] then [sysReload] else []) @ (if sd_DaemonReload p \<and> usr \<noteq> [] then [usrReload] else [])
           @ (if sys \<noteq> [] then [sudo_words p @ [''systemctl'', verb] @ flag_words p @ sys] else [])
           @ (if usr \<noteq> [] then [[''systemctl'', ''--user'', verb] @ flag_words p @ usr] else []))"

definition reads :: "string \<Rightarrow> string \<Rightarrow> bool" where
  "reads raw w \<longleftrightarrow> (\<forall>t. ends_word t \<longrightarrow> sh_tokens (raw @ t) = prepend [lits w] (sh_tokens t))"

lemma reads_plain: "k \<noteq> [] \<Longrightarrow> list_all plain_char k \<Longrightarrow> reads k k"
  by (simp add: reads_def tokens_plain lits_def)

lemma reads_Quote: "reads (Quote s) s"
  by (simp add: reads_def tokens_Quote lits_def)

lemma reads_join: "list_all2 reads raws ws \<Longrightarrow> raws \<noteq> [] \<Longrightarrow> sh_tokens (join_on '' '' raws) = Some (map lits ws)"
proof (induction raws arbitrary: ws rule: induct_list012)
  case (2 r)
  then obtain w where "ws = [w]" "reads r w" by (auto simp: list_all2_Cons1)
  moreover have "ends_word []" by (simp add: ends_word_def)
  ultimately have "sh_tokens (r @ []) = prepend [lits w] (sh_tokens [])" unfolding reads_def by blast
  then show ?case using \<open>ws = [w]\<close> by (simp add: sh_tokens.simps prepend_def)
next
  case (3 r r2 rs)
  then obtain w ws' where w: "ws = w # ws'" "reads r w" "list_all2 reads (r2 # rs) ws'"
    by (auto simp: list_all2_Cons1)
  have "ends_word ('' '' @ join_on '' '' (r2 # rs))" by (simp add: ends_word_def is_blank_def)
  then have "sh_tokens (r @ '' '' @ join_on '' '' (r2 # rs)) = prepend [lits w] (sh_tokens (join_on '' '' (r2 # rs)))"
    using w(2) unfolding reads_def by fastforce
  then show ?case using 3(2)[OF w(3)] w(1) by (simp add: prepend_def)
qed simp

lemma join_app: "xs \<noteq> [] \<Longrightarrow> ys \<noteq> [] \<Longrightarrow> join_on sep (xs @ ys) = join_on sep xs @ sep @ join_on sep ys"
  by (induction xs rule: induct_list012) (auto simp: neq_Nil_conv)

lemma unit_quote: "unitName u \<Longrightarrow> [sq] @ u @ [sq] = Quote u"
proof -
  assume "unitName u"
  then have "sq \<notin> set u" by (auto simp: unitName_def unit_char_def sq_def Let_def list_all_iff split: list.splits)
  then have "replace_all [sq] r u = u" for r by (induction u) (auto simp: has_prefix_def)
  then show ?thesis by (simp add: Quote_def)
qed

lemma units_read:
  assumes "list_all unitName us"
  shows "list_all2 reads (map (\<lambda>u. [sq] @ u @ [sq]) us) us"
  using assms by (induction us) (auto simp: unit_quote reads_Quote simp del: append_Cons append_Nil)

text \<open>The words of a command before its units.\<close>

lemma plain_args:
  "list_all plain_char ''sudo''" "list_all plain_char ''-n''" "list_all plain_char ''systemctl''"
  "list_all plain_char ''--user''" "list_all plain_char ''--now''" "list_all plain_char ''--no-block''"
  "list_all plain_char ''daemon-reload''"
  by (simp_all add: plain_char_def is_blank_def is_op_def sh_chars)

lemma words_read: "list_all (\<lambda>k. k \<noteq> [] \<and> list_all plain_char k) ks \<Longrightarrow> list_all2 reads ks ks"
  by (induction ks) (auto intro: reads_plain)

definition verb_ok :: "string \<Rightarrow> bool" where
  "verb_ok verb \<longleftrightarrow> verb \<noteq> [] \<and> list_all plain_char verb"

lemma verbs_ok: "m_get systemd_verbs a = Some verb \<Longrightarrow> verb_ok verb"
  by (auto simp: systemd_verbs_def verb_ok_def plain_char_def is_blank_def is_op_def sh_chars split: if_splits)

lemma join_words: "ks \<noteq> [] \<Longrightarrow> us \<noteq> [] \<Longrightarrow> list_all unitName us \<Longrightarrow> list_all (\<lambda>k. k \<noteq> [] \<and> list_all plain_char k) ks
    \<Longrightarrow> sh_tokens (join_on '' '' ks @ '' '' @ quoteUnits us) = Some (map lits (ks @ us))"
  using reads_join[OF list_all2_appendI[OF words_read units_read], of ks us]
  by (simp add: join_app quoteUnits_def)

lemma reload_words:
  "sh_tokens (sysPrefix p @ ''systemctl daemon-reload'') = Some (map lits (sudo_words p @ [''systemctl'', ''daemon-reload'']))"
  "sh_tokens ''systemctl --user daemon-reload'' = Some (map lits [''systemctl'', ''--user'', ''daemon-reload''])"
  using reads_join[OF words_read, of "sudo_words p @ [''systemctl'', ''daemon-reload'']"]
    reads_join[OF words_read, of "[''systemctl'', ''--user'', ''daemon-reload'']"] plain_args
  by (auto simp: sudo_words_def sysPrefix_def split: if_splits)

lemma verb_words:
  assumes "verb_ok verb" "us \<noteq> []" "list_all unitName us"
  shows "sh_tokens (sysPrefix p @ ''systemctl '' @ verb @ (if sd_Now p then '' --now'' else []) @ (if sd_NoBlock p then '' --no-block'' else [])
        @ '' '' @ quoteUnits us) = Some (map lits (sudo_words p @ [''systemctl'', verb] @ flag_words p @ us))"
    and "sh_tokens (''systemctl --user '' @ verb @ (if sd_Now p then '' --now'' else []) @ (if sd_NoBlock p then '' --no-block'' else [])
        @ '' '' @ quoteUnits us) = Some (map lits ([''systemctl'', ''--user'', verb] @ flag_words p @ us))"
proof -
  have "list_all (\<lambda>k. k \<noteq> [] \<and> list_all plain_char k) (sudo_words p @ [''systemctl'', verb] @ flag_words p)"
    "list_all (\<lambda>k. k \<noteq> [] \<and> list_all plain_char k) ([''systemctl'', ''--user'', verb] @ flag_words p)"
    using assms(1) plain_args by (auto simp: sudo_words_def flag_words_def verb_ok_def)
  note j = join_words[OF _ assms(2,3) this(1)] join_words[OF _ assms(2,3) this(2)]
  show "sh_tokens (sysPrefix p @ ''systemctl '' @ verb @ (if sd_Now p then '' --now'' else []) @ (if sd_NoBlock p then '' --no-block'' else [])
        @ '' '' @ quoteUnits us) = Some (map lits (sudo_words p @ [''systemctl'', verb] @ flag_words p @ us))"
    using j(1) by (simp add: sudo_words_def flag_words_def sysPrefix_def split: if_splits)
  show "sh_tokens (''systemctl --user '' @ verb @ (if sd_Now p then '' --now'' else []) @ (if sd_NoBlock p then '' --no-block'' else [])
        @ '' '' @ quoteUnits us) = Some (map lits ([''systemctl'', ''--user'', verb] @ flag_words p @ us))"
    using j(2) by (simp add: flag_words_def split: if_splits)
qed

lemma valid_units:
  assumes "sd_validate verb p = None"
  shows "list_all unitName (sd_SystemUnitFiles p)" "list_all unitName (sd_UserUnitFiles p)"
  using assms by (auto simp: sd_validate_def list_all_iff find_None_iff split: option.splits)

text \<open>
  C4. The commands of a systemd action are, read by a shell, exactly the intended argument vectors: the
  reloads, then the verb with its flags on the system units, under \<open>sudo\<close> when asked, and on the
  user units, never under \<open>sudo\<close>; and no unit name can be taken for an option.
\<close>

theorem systemd_commands_words:
  assumes "m_get systemd_verbs action = Some verb" "sd_validate verb p = None" "sd_commands verb p = Inr cmds"
  shows "map sh_tokens cmds = map (\<lambda>ws. Some (map lits ws)) (argvs verb p) \<and> cmds \<noteq> []
    \<and> list_all (\<lambda>u. u \<noteq> [] \<and> hd u \<noteq> CHR ''-'') (sd_SystemUnitFiles p @ sd_UserUnitFiles p)"
proof -
  note u = valid_units[OF assms(2)]
  note v = verbs_ok[OF assms(1)]
  have "u \<noteq> [] \<and> hd u \<noteq> CHR ''-''" if "unitName u" for u
    using that by (auto simp: unitName_def unit_char_def Let_def split: list.splits)
  then have n: "list_all (\<lambda>u. u \<noteq> [] \<and> hd u \<noteq> CHR ''-'') (sd_SystemUnitFiles p @ sd_UserUnitFiles p)"
    using u by (auto simp: list_all_iff)
  have "map sh_tokens cmds = map (\<lambda>ws. Some (map lits ws)) (argvs verb p) \<and> cmds \<noteq> []"
  proof (cases "verb = ''daemon-reload''")
    case True
    then show ?thesis using assms(3) reload_words(1)[of p] reload_words(2)
      by (cases "sd_System p") (auto simp: sd_commands_def argvs_def Let_def split: if_splits simp del: append_Cons)
  next
    case False
    then show ?thesis using assms(3) reload_words(1)[of p] reload_words(2) verb_words[OF v _ u(1), of p] verb_words[OF v _ u(2), of p]
      by (auto simp: sd_commands_def argvs_def Let_def append_assoc simp del: append_Cons split: if_splits)
  qed
  then show ?thesis using n by blast
qed

section \<open>Running the commands\<close>

lemma run_commands_append: "run_prog x t hosts (run_commands (as @ bs)) e = (case run_prog x t hosts (run_commands as) e of
    (Some err, e1) \<Rightarrow> (Some err, e1) | (None, e1) \<Rightarrow> run_prog x t hosts (run_commands bs) e1)"
  by (induction as arbitrary: e) (auto split: prod.split option.split)

section \<open>The hook tasks\<close>

lemma hook_name_cases: "hook_name taken i a ph = a @ ''@'' @ ph \<and> a @ ''@'' @ ph \<notin> set taken
    \<or> hook_name taken i a ph = a @ ''@'' @ ph @ ''#'' @ itoa (int i)"
  by (simp add: hook_name_def Let_def)

text \<open>The names given so far: a base name, or one with the position of an earlier entry.\<close>

definition names_inv :: "nat \<Rightarrow> string list \<Rightarrow> bool" where
  "names_inv i taken \<longleftrightarrow> distinct taken
     \<and> (\<forall>n\<in>set taken. CHR ''#'' \<in> set n \<longrightarrow> (\<exists>base j. n = base @ ''#'' @ itoa (int j) \<and> CHR ''#'' \<notin> set base \<and> j < i))"

lemma hash_split: "a @ ''#'' @ x = b @ ''#'' @ y \<Longrightarrow> CHR ''#'' \<notin> set a \<Longrightarrow> CHR ''#'' \<notin> set b \<Longrightarrow> a = b \<and> x = y"
proof (induction a arbitrary: b)
  case Nil
  then show ?case by (cases b) auto
next
  case (Cons c a)
  then show ?case by (cases b) auto
qed

lemma verb_no_hash: "m_get systemd_verbs a = Some v \<Longrightarrow> CHR ''#'' \<notin> set a"
  by (auto simp: systemd_verbs_def split: if_splits)

lemma names_next:
  assumes "names_inv i taken" "CHR ''#'' \<notin> set a" "CHR ''#'' \<notin> set ph"
  shows "names_inv (Suc i) (taken @ [hook_name taken i a ph])"
proof -
  let ?b = "a @ ''@'' @ ph" and ?n = "hook_name taken i a ph"
  have b: "CHR ''#'' \<notin> set ?b" using assms(2,3) by simp
  consider "?n = ?b" "?b \<notin> set taken" | "?n = ?b @ ''#'' @ itoa (int i)"
    using hook_name_cases[of taken i a ph] by auto
  then have fresh: "?n \<notin> set taken"
  proof cases
    case 2
    show ?thesis
    proof
      assume "?n \<in> set taken"
      moreover have "CHR ''#'' \<in> set ?n" using 2 by simp
      ultimately obtain base j where "?n = base @ ''#'' @ itoa (int j)" "CHR ''#'' \<notin> set base" "j < i"
        using assms(1) unfolding names_inv_def by blast
      then have "itoa (int i) = itoa (int j)" using hash_split[of ?b _ base] 2 b by simp
      then show False using \<open>j < i\<close> by (simp add: itoa_inj)
    qed
  qed simp
  have "CHR ''#'' \<in> set ?n \<longrightarrow> (\<exists>base j. ?n = base @ ''#'' @ itoa (int j) \<and> CHR ''#'' \<notin> set base \<and> j < Suc i)"
    using hook_name_cases[of taken i a ph] b by (metis append.assoc lessI)
  moreover have "\<exists>base j. n = base @ ''#'' @ itoa (int j) \<and> CHR ''#'' \<notin> set base \<and> j < Suc i"
    if "n \<in> set taken" "CHR ''#'' \<in> set n" for n
    using assms(1) that unfolding names_inv_def by (meson less_SucI)
  ultimately show ?thesis using fresh assms(1) by (auto simp: names_inv_def)
qed

definition no_hash :: "hook_spec \<Rightarrow> bool" where
  "no_hash h \<longleftrightarrow> CHR ''#'' \<notin> set (hs_phase h)"

text \<open>What a configured entry leaves behind: its defaults, and its hook when it names a phase.\<close>

lemma config_step:
  assumes "config_action decode global i a s = Inr s1"
  shows "sc_defaults s1 = m_put (pa_Name a) (MergeParams global (pa_Params a)) (sc_defaults s)
    \<and> m_has systemd_verbs (pa_Name a)
    \<and> (sc_hooks s1 = sc_hooks s \<and> sc_names s1 = sc_names s
       \<or> (\<exists>h. sc_hooks s1 = sc_hooks s @ [h] \<and> sc_names s1 = sc_names s @ [hs_task h]
            \<and> hs_task h = hook_name (sc_names s) i (pa_Name a) (hs_phase h)
            \<and> hs_action h = pa_Name a \<and> hs_with h = stripSpecOnly (MergeParams global (pa_Params a))))"
  using assms by (auto simp: config_action_def Let_def simp del: MergeParams_eq split: option.splits sum.splits if_splits)

definition conf_inv :: "yval smap \<Rightarrow> plugin_action_spec list \<Rightarrow> nat \<Rightarrow> systemd_conf \<Rightarrow> bool" where
  "conf_inv global as i s \<longleftrightarrow> sc_names s = map hs_task (sc_hooks s)
     \<and> (list_all no_hash (sc_hooks s) \<longrightarrow> names_inv i (sc_names s))
     \<and> (\<forall>h\<in>set (sc_hooks s). \<exists>a\<in>set as. hs_action h = pa_Name a \<and> m_has systemd_verbs (hs_action h)
          \<and> hs_with h = stripSpecOnly (MergeParams global (pa_Params a)))"

lemma conf_step:
  assumes "conf_inv global as i s" "config_action decode global i a s = Inr s1" "a \<in> set as"
  shows "conf_inv global as (Suc i) s1"
proof -
  have keep: "names_inv i n \<Longrightarrow> names_inv (Suc i) n" for n
    unfolding names_inv_def by (meson less_SucI)
  note st = config_step[OF assms(2)]
  then consider "sc_hooks s1 = sc_hooks s" "sc_names s1 = sc_names s"
    | h where "sc_hooks s1 = sc_hooks s @ [h]" "sc_names s1 = sc_names s @ [hs_task h]"
        "hs_task h = hook_name (sc_names s) i (pa_Name a) (hs_phase h)"
        "hs_action h = pa_Name a" "hs_with h = stripSpecOnly (MergeParams global (pa_Params a))"
    by blast
  then show ?thesis
  proof cases
    case 1
    then show ?thesis using assms(1) keep by (auto simp: conf_inv_def)
  next
    case (2 h)
    have "CHR ''#'' \<notin> set (pa_Name a)" using st verb_no_hash by blast
    then have "list_all no_hash (sc_hooks s1) \<longrightarrow> names_inv (Suc i) (sc_names s1)"
      using 2 assms(1) names_next[of i "sc_names s" "pa_Name a" "hs_phase h"] by (auto simp: conf_inv_def no_hash_def)
    moreover have "\<exists>a\<in>set as. hs_action h = pa_Name a \<and> m_has systemd_verbs (hs_action h)
        \<and> hs_with h = stripSpecOnly (MergeParams global (pa_Params a))"
      using 2(4,5) assms(3) st by auto
    ultimately show ?thesis using 2(1,2) assms(1) by (auto simp: conf_inv_def)
  qed
qed

lemma conf_all:
  "config_actions decode global i bs s = Inr s' \<Longrightarrow> conf_inv global as i s \<Longrightarrow> set bs \<subseteq> set as
    \<Longrightarrow> \<exists>n. conf_inv global as n s'"
proof (induction bs arbitrary: i s)
  case (Cons b bs)
  then show ?case using conf_step[of global as i s decode b]
    by (auto split: sum.splits)
qed auto

lemma conf_start: "conf_inv global as 0 no_conf"
  by (simp add: conf_inv_def no_conf_def names_inv_def)

lemma defaults_last:
  "config_actions decode global i as s = Inr s' \<Longrightarrow> distinct (map pa_Name as) \<Longrightarrow>
   m_get (sc_defaults s') k = (case List.find (\<lambda>a. pa_Name a = k) as of
      Some a \<Rightarrow> Some (MergeParams global (pa_Params a)) | None \<Rightarrow> m_get (sc_defaults s) k)"
proof (induction as arbitrary: i s)
  case (Cons a as)
  obtain s1 where s1: "config_action decode global i a s = Inr s1" "config_actions decode global (Suc i) as s1 = Inr s'"
    using Cons.prems(1) by (auto split: sum.splits)
  have d: "m_get (sc_defaults s1) = (m_get (sc_defaults s))(pa_Name a \<mapsto> MergeParams global (pa_Params a))"
    using config_step[OF s1(1)] by simp
  have "List.find (\<lambda>b. pa_Name b = pa_Name a) as = None" using Cons.prems(2) by (auto simp: find_None_iff) (metis image_eqI)
  then show ?case using Cons.IH[OF s1(2)] Cons.prems(2) d by (auto split: option.split)
qed simp

section \<open>Hooks on the configuration\<close>



lemma strip_sub: "set (stripSpecOnly m) \<subseteq> set m" by (auto simp: stripSpecOnly_def)

text \<open>
  The parameters a hook task's action works with: when no action is configured twice they are exactly the
  entry's, although the hook's \<open>with:\<close> is laid over the action's defaults a second time.
\<close>

lemma hook_params:
  assumes c: "config_actions decode global 0 as no_conf = Inr s" and d: "distinct (map pa_Name as)"
    and wf: "deep_wf (YMap global)" "\<forall>a\<in>set as. deep_wf (YMap (pa_Params a))" and h: "h \<in> set (sc_hooks s)"
  shows "\<exists>a\<in>set as. hs_action h = pa_Name a \<and> m_get (sc_defaults s) (hs_action h) = Some (MergeParams global (pa_Params a))
    \<and> MergeParams (MergeParams global (pa_Params a)) (hs_with h) = MergeParams global (pa_Params a)"
proof -
  obtain n where inv: "conf_inv global as n s" using conf_all[OF c conf_start] by blast
  then obtain a where a: "a \<in> set as" "hs_action h = pa_Name a"
    "hs_with h = stripSpecOnly (MergeParams global (pa_Params a))" using h by (auto simp: conf_inv_def)
  have "List.find (\<lambda>b. pa_Name b = pa_Name a) as = Some a"
    using a(1) d by (induction as) auto
  then have "m_get (sc_defaults s) (pa_Name a) = Some (MergeParams global (pa_Params a))"
    using defaults_last[OF c d, of "pa_Name a"] by simp
  moreover have "merge_over (merge_over global (pa_Params a)) (stripSpecOnly (merge_over global (pa_Params a)))
      = merge_over global (pa_Params a)"
    using merge_self[OF strip_sub merge_deep] wf a(1) by blast
  ultimately show ?thesis using a by auto
qed

text \<open>
  With two entries for one action the defaults of the second reach the hook of the first: a unit only the
  second entry names is handled by the hook of the first as well.
\<close>

lemma duplicate_entries_leak:
  assumes "m_get p2 ''user_unit_files'' = Some v" "m_get p1 ''user_unit_files'' = None"
    and "m_get global ''user_unit_files'' = None" and wf: "wf_map p1" "wf_map p2" "wf_map global"
    and v: "\<not> (\<exists>m. v = YMap m)"
  shows "m_get (MergeParams (MergeParams global p2) (stripSpecOnly (MergeParams global p1))) ''user_unit_files'' = Some v"
proof -
  have "wf_map (stripSpecOnly m)" if "wf_map m" for m :: "yval smap"
    using that by (simp add: stripSpecOnly_def wf_map_def distinct_map_filter)
  then have w: "wf_map (stripSpecOnly (merge_over global p1))" using merge_wf wf(3) by blast
  have "m_get (merge_over global p1) ''user_unit_files'' = None"
    using lookup_merge[OF wf(1), of global "''user_unit_files''"] assms by simp
  then have "m_get (stripSpecOnly (merge_over global p1)) ''user_unit_files'' = None"
    by (auto simp: stripSpecOnly_def map_of_eq_None_iff)
  moreover have "m_get (merge_over global p2) ''user_unit_files'' = Some v"
    using lookup_merge[OF wf(2), of global "''user_unit_files''"] assms by (cases v) (auto simp: over_val_def)
  ultimately show ?thesis using lookup_merge[OF w, of "merge_over global p2" "''user_unit_files''"] by simp
qed

section \<open>A concrete configuration\<close>

definition demo_decode :: "yval smap \<Rightarrow> systemd_params res" where
  "demo_decode m = Inr \<lparr>sd_SystemUnitFiles = [''app.service''], sd_UserUnitFiles = [], sd_Sudo = True, sd_DaemonReload = True,
     sd_Now = False, sd_NoBlock = False, sd_System = None, sd_User = False, sd_Roles = [],
     sd_Phase = (case m_get m ''phase'' of Some (YStr s) \<Rightarrow> s | _ \<Rightarrow> []), sd_When = []\<rparr>"


lemma systemd_commands_words_witness:
  "\<exists>p cmds. demo_decode [] = Inr p \<and> sd_commands ''restart'' p = Inr cmds
     \<and> map sh_tokens cmds = [Some [lits ''sudo'', lits ''-n'', lits ''systemctl'', lits ''daemon-reload''],
         Some [lits ''sudo'', lits ''-n'', lits ''systemctl'', lits ''restart'', lits ''app.service'']]"
proof -
  obtain p cmds where p: "demo_decode [] = Inr p" "sd_commands ''restart'' p = Inr cmds"
    by (simp add: demo_decode_def sd_commands_def)
  have "m_get systemd_verbs ''systemd:restart'' = Some ''restart''" by (simp add: systemd_verbs_def)
  moreover have "sd_validate ''restart'' p = None"
    using p(1) by (auto simp: demo_decode_def sd_validate_def unitName_def unit_char_def)
  ultimately show ?thesis using p systemd_commands_words[of "''systemd:restart''" "''restart''" p cmds]
    by (auto simp: demo_decode_def argvs_def sudo_words_def flag_words_def)
qed


end
