(* ===== verification/Dotenv.thy ===== *)
theory Dotenv
  imports Shell Params Plugins
begin

text \<open>
  The packages the cloud plugins share: the dotenv rendering of \<open>plugins/aws/internal/dotenv\<close>, the
  writing of the file (\<open>plugins/aws/internal/envfile\<close>) and the layering of parameters
  (\<open>plugins/aws/internal/params\<close>).

  The specification of the rendering is a reader of dotenv files, for the entries the renderer makes:
  a bare empty value, or a double-quoted one with backslash escapes, in which an unescaped \<open>$\<close> is a
  point of expansion.
\<close>

section \<open>Keys\<close>

text \<open>
  The bytes of the UTF-8 character a string starts with, and one byte where it starts with none: an
  invalid byte counts as a character of its own.
\<close>

definition byte_in :: "nat \<Rightarrow> nat \<Rightarrow> char \<Rightarrow> bool" where
  "byte_in lo hi c \<longleftrightarrow> lo \<le> of_char c \<and> of_char c \<le> hi"

definition is_cont :: "char \<Rightarrow> bool" where "is_cont = byte_in 0x80 0xBF"

fun rune_width :: "string \<Rightarrow> nat" where
  "rune_width (a # b # s) =
     (if byte_in 0xC2 0xDF a \<and> is_cont b then 2
      else if byte_in 0xE0 0xEF a \<and> is_cont b \<and> (a = CHR 0xE0 \<longrightarrow> byte_in 0xA0 0xBF b)
          \<and> (a = CHR 0xED \<longrightarrow> byte_in 0x80 0x9F b) then (case s of c # _ \<Rightarrow> if is_cont c then 3 else 1 | [] \<Rightarrow> 1)
      else if byte_in 0xF0 0xF4 a \<and> is_cont b \<and> (a = CHR 0xF0 \<longrightarrow> byte_in 0x90 0xBF b)
          \<and> (a = CHR 0xF4 \<longrightarrow> byte_in 0x80 0x8F b)
        then (case s of c # d # _ \<Rightarrow> if is_cont c \<and> is_cont d then 4 else 1 | _ \<Rightarrow> 1)
      else 1)"
| "rune_width s = 1"

lemma rune_width_pos: "0 < rune_width s"
  by (cases s rule: rune_width.cases) (auto split: list.split)

function runes :: "string \<Rightarrow> string list" where
  "runes [] = []"
| "runes (c # s) = take (rune_width (c # s)) (c # s) # runes (drop (rune_width (c # s)) (c # s))"
  by pat_completeness auto
termination by (relation "measure length") (use rune_width_pos in \<open>auto simp: drop_Cons'\<close>)

definition key_char :: "char \<Rightarrow> bool" where
  "key_char c \<longleftrightarrow> byte_in 65 90 c \<or> byte_in 97 122 c \<or> byte_in 48 57 c \<or> c = CHR ''_''"

text \<open>
  What \<open>strings.ToUpper\<close> and the replacement of \<open>nonKey\<close> make of one character. Of the characters outside
  ASCII only the dotless i and the long s have an upper case inside it.
\<close>

definition key_rune :: "string \<Rightarrow> char" where
  "key_rune r = (case r of
      [c] \<Rightarrow> if key_char (to_upper_char c) then to_upper_char c else CHR ''_''
    | _ \<Rightarrow> if r = [CHR 0xC4, CHR 0xB1] then CHR ''I'' else if r = [CHR 0xC5, CHR 0xBF] then CHR ''S'' else CHR ''_'')"

definition NormalizeKey :: "string \<Rightarrow> string" where
  "NormalizeKey k = (let k' = trim_right (\<lambda>c. c = CHR ''_'') (trim_left (\<lambda>c. c = CHR ''_'') (map key_rune (runes k)))
     in if k' = [] then ''_'' else k')"

definition LastSegment :: "string \<Rightarrow> string" where
  "LastSegment name = rev (takeWhile (\<lambda>c. c \<noteq> CHR ''/'') (rev name))"

section \<open>The file\<close>

definition cr :: char where "cr = CHR 0x0D"

definition dotenv_value :: "bool \<Rightarrow> string \<Rightarrow> string" where
  "dotenv_value multiline v =
     (let v1 = replace_all [cr, nl] [nl] v;
          v2 = replace_all [bsl] [bsl, bsl] v1;
          v3 = replace_all [dq] [bsl, dq] v2;
          v4 = replace_all [dollar] [bsl, dollar] v3
      in if multiline then v4 else replace_all [nl] [bsl, CHR ''n''] v4)"

definition dotenv_entry :: "bool \<Rightarrow> string \<Rightarrow> string \<Rightarrow> string" where
  "dotenv_entry multiline k v = (if v = [] then k @ ''='' @ [nl]
     else k @ ''='' @ [dq] @ dotenv_value multiline v @ [dq, nl])"

definition Render_dotenv :: "string smap \<Rightarrow> bool \<Rightarrow> string" where
  "Render_dotenv e multiline = concat (map (\<lambda>k. dotenv_entry multiline k (the (m_get e k))) (sorted_keys e))"

section \<open>Writing it\<close>

text \<open>
  \<open>Write\<close>: on the task's hosts when the executor gave a writer, on the operator's machine otherwise. The
  two calls of the operating system are parameters.
\<close>

record 'w operator_fs =
  of_WriteFile :: "string \<Rightarrow> string \<Rightarrow> 'w \<Rightarrow> goerr option \<times> 'w"
  of_Chmod :: "string \<Rightarrow> 'w \<Rightarrow> goerr option \<times> 'w"

definition write_local :: "'w operator_fs \<Rightarrow> string \<Rightarrow> string \<Rightarrow> 'w \<Rightarrow> goerr option \<times> 'w" where
  "write_local fs path content w = (case of_WriteFile fs path content w of
      (Some err, w1) \<Rightarrow> (Some (wrapf (''write '' @ path) err), w1)
    | (None, w1) \<Rightarrow> (case of_Chmod fs path w1 of
        (Some err, w2) \<Rightarrow> (Some (wrapf (''chmod '' @ path) err), w2) | (None, w2) \<Rightarrow> (None, w2)))"

definition envfile_Write :: "'w operator_fs \<Rightarrow> bool \<Rightarrow> string \<Rightarrow> string \<Rightarrow> 'w prog" where
  "envfile_Write fs host_writer path content = (if host_writer then WriteFile path content Ret
     else World (\<lambda>w. case write_local fs path content w of (r, w') \<Rightarrow> (Ret r, w')))"

definition DecodeFeature :: "(yval smap \<Rightarrow> 'p res) \<Rightarrow> yval smap \<Rightarrow> yval smap \<Rightarrow> 'p res" where
  "DecodeFeature decode defaults own = decode (MergeParams defaults own)"

definition or_default :: "'a option \<Rightarrow> 'a \<Rightarrow> 'a" where
  "or_default p d = (case p of Some v \<Rightarrow> v | None \<Rightarrow> d)"

section \<open>Reading a dotenv file\<close>

text \<open>
  The value between double quotes: \<open>\\n\<close> and \<open>\\r\<close> are control characters, a backslash before any other
  character is that character, a bare \<open>$\<close> expands. \<open>None\<close> is a value that is never closed.
\<close>

fun read_quoted :: "string \<Rightarrow> (item list \<times> string) option" where
  "read_quoted [] = None"
| "read_quoted [c] = (if c = dq then Some ([], []) else None)"
| "read_quoted (c # d # s) =
     (if c = dq then Some ([], d # s)
      else if c = bsl then add_item (Lit (if d = CHR ''n'' then nl else if d = CHR ''r'' then cr else d)) (read_quoted s)
      else add_item (if c = dollar then Dollar else Lit c) (read_quoted (d # s)))"

text \<open>One entry per line: a key, then nothing or a quoted value up to the end of the line.\<close>

function read_dotenv :: "string \<Rightarrow> (string \<times> item list) list option" where
  "read_dotenv s = (if s = [] then Some [] else case cut (CHR ''='') s of
      None \<Rightarrow> None
    | Some (k, t) \<Rightarrow> (case t of
        [] \<Rightarrow> None
      | c # t1 \<Rightarrow> if c = nl then map_option (Cons (k, [])) (read_dotenv t1)
          else if c = dq then (case read_quoted t1 of
              Some (v, d # t2) \<Rightarrow> if d = nl \<and> length t2 < length s then map_option (Cons (k, v)) (read_dotenv t2) else None
            | _ \<Rightarrow> None)
          else None))"
  by auto
termination by (relation "measure length") (auto simp: cut_Some_iff)

declare read_dotenv.simps [simp del]

section \<open>Round trip\<close>

lemma replace_one: "replace_all [c] t s = concat (map (\<lambda>x. if x = c then t else [x]) s)"
  by (induction s) (auto simp: has_prefix_def)

definition esc_char :: "bool \<Rightarrow> char \<Rightarrow> string" where
  "esc_char multiline c = (if c \<in> {bsl, dq, dollar} then [bsl, c]
     else if c = nl \<and> \<not> multiline then [bsl, CHR ''n''] else [c])"

lemma concat_map_concat: "concat (map f (concat (map g s))) = concat (map (\<lambda>x. concat (map f (g x))) s)"
  by (induction s) auto

lemma dotenv_value_esc: "dotenv_value m v = concat (map (esc_char m) (replace_all [cr, nl] [nl] v))"
proof -
  have f: "(\<lambda>x. concat (map f (if x = c then [bsl, d] else [x]))) = (\<lambda>x. if x = c then f bsl @ f d else f x)"
    for f :: "char \<Rightarrow> string" and c d by auto
  show ?thesis
    by (cases m; simp only: dotenv_value_def Let_def if_True if_False replace_one concat_map_concat f)
      (auto intro!: arg_cong[where f = concat] map_cong simp: esc_char_def sh_chars)
qed

lemma read_esc: "read_quoted (esc_char m c @ s) = add_item (Lit c) (read_quoted s)" if "s \<noteq> []"
  using that by (cases s) (auto simp: esc_char_def sh_chars add_item_def)

lemma read_value: "read_quoted (concat (map (esc_char m) v) @ dq # s) = Some (map Lit v, s)"
proof (induction v)
  case Nil
  show ?case by (cases s) simp_all
next
  case (Cons c v)
  have "read_quoted (esc_char m c @ (concat (map (esc_char m) v) @ dq # s)) = Some (Lit c # map Lit v, s)"
    by (subst read_esc) (simp_all add: Cons.IH add_item_def)
  then show ?case by simp
qed

lemma crlf_Nil_iff: "replace_all [cr, nl] [nl] v = [] \<longleftrightarrow> v = []"
  by (cases v) auto

lemma read_entry:
  assumes "CHR ''='' \<notin> set k"
  shows "read_dotenv (dotenv_entry m k v @ s)
    = map_option (Cons (k, map Lit (replace_all [cr, nl] [nl] v))) (read_dotenv s)"
proof -
  have c: "cut (CHR ''='') (k @ CHR ''='' # t) = Some (k, t)" for t using assms by (simp add: cut_Some_iff)
  show ?thesis
  proof (cases v)
    case Nil
    then show ?thesis by (subst read_dotenv.simps) (simp add: dotenv_entry_def c)
  next
    case (Cons a b)
    obtain u where u: "u = replace_all [cr, nl] [nl] v" by blast
    have "read_quoted (dotenv_value m v @ dq # nl # s) = Some (map Lit u, nl # s)"
      unfolding dotenv_value_esc u by (rule read_value)
    moreover have "dotenv_entry m k v @ s = k @ CHR ''='' # dq # dotenv_value m v @ dq # nl # s"
      using Cons by (simp add: dotenv_entry_def)
    ultimately show ?thesis
      by (subst read_dotenv.simps) (simp add: c u[symmetric], simp add: sh_chars)
  qed
qed

lemma read_Render:
  assumes "list_all (\<lambda>k. CHR ''='' \<notin> set k) ks"
  shows "read_dotenv (concat (map (\<lambda>k. dotenv_entry m k (f k)) ks))
    = Some (map (\<lambda>k. (k, map Lit (replace_all [cr, nl] [nl] (f k)))) ks)"
  using assms
proof (induction ks)
  case Nil
  show ?case by (simp add: read_dotenv.simps)
next
  case (Cons k ks)
  then show ?case by (simp add: read_entry)
qed

text \<open>
  C23. A reader of the file gets back every entry under its key, in the order of the keys: the value as it was,
  with CR LF line ends as line feeds, every byte of it literal, so no \<open>$\<close> in a secret is expanded and no
  quote or backslash ends a value early, in both forms of a multi-line value.
\<close>

theorem Render_dotenv_roundtrip:
  assumes "list_all (\<lambda>(k, _). CHR ''='' \<notin> set k) e"
  shows "read_dotenv (Render_dotenv e multiline)
    = Some (map (\<lambda>k. (k, map Lit (replace_all [cr, nl] [nl] (the (m_get e k))))) (sorted_keys e))"
proof -
  have "list_all (\<lambda>k. CHR ''='' \<notin> set k) (sorted_keys e)"
    using assms by (auto simp: list_all_iff)
  then show ?thesis unfolding Render_dotenv_def by (rule read_Render)
qed

definition dotenv_demo :: "string smap" where
  "dotenv_demo = [(''TOKEN'', ''a$B\"c'' @ [bsl]), (''PEM'', ''x'' @ [cr, nl] @ ''y''), (''EMPTY'', [])]"

lemma Render_dotenv_roundtrip_witness:
  "read_dotenv (Render_dotenv dotenv_demo False) = Some [(''EMPTY'', []), (''PEM'', map Lit (''x'' @ [nl] @ ''y'')),
     (''TOKEN'', map Lit (''a$B\"c'' @ [bsl]))]"
proof -
  have "list_all (\<lambda>(k, _). CHR ''='' \<notin> set k) dotenv_demo" by (simp add: dotenv_demo_def)
  note r = Render_dotenv_roundtrip[OF this, of False]
  have "sorted_keys dotenv_demo = [''EMPTY'', ''PEM'', ''TOKEN'']" by code_simp
  then show ?thesis unfolding r by (simp add: dotenv_demo_def has_prefix_def sh_chars cr_def)
qed

section \<open>Keys are names\<close>

lemma key_rune_char: "key_char (key_rune r)" "to_upper_char (key_rune r) = key_rune r"
proof -
  have u: "to_upper_char (to_upper_char c) = to_upper_char c" for c
  proof (cases "97 \<le> (of_char c :: nat) \<and> (of_char c :: nat) \<le> 122")
    case True
    then have "(of_char c - 32) mod 256 = (of_char c - 32 :: nat)" by (intro mod_less) linarith
    moreover have "\<not> 97 \<le> (of_char c - 32 :: nat)" using True by linarith
    ultimately show ?thesis using True by (simp add: to_upper_char_def Let_def take_bit_eq_mod)
  qed (auto simp: to_upper_char_def Let_def)
  have k: "key_char CHR ''_''" "key_char CHR ''I''" "key_char CHR ''S''" by (simp_all add: key_char_def byte_in_def)
  have v: "to_upper_char CHR ''_'' = CHR ''_''" "to_upper_char CHR ''I'' = CHR ''I''" "to_upper_char CHR ''S'' = CHR ''S''"
    by (simp_all add: to_upper_char_def)
  show "key_char (key_rune r)" using k by (auto simp: key_rune_def split: list.split)
  show "to_upper_char (key_rune r) = key_rune r" using u v by (auto simp: key_rune_def split: list.split)
qed

definition env_key :: "string \<Rightarrow> bool" where
  "env_key k \<longleftrightarrow> k \<noteq> [] \<and> list_all (\<lambda>c. key_char c \<and> to_upper_char c = c) k
     \<and> (if hd k = CHR ''_'' \<or> last k = CHR ''_'' then k = ''_'' else True)"

lemma hd_dropWhile_not: "dropWhile p xs \<noteq> [] \<Longrightarrow> \<not> p (hd (dropWhile p xs))"
  by (rule hd_dropWhile)

lemma trim_both:
  assumes "t = trim_right p (trim_left p s)" "t \<noteq> []"
  shows "\<not> p (hd t) \<and> \<not> p (last t)"
proof -
  let ?l = "dropWhile p s" and ?r = "dropWhile p (rev (dropWhile p s))"
  have t: "t = rev ?r" "?r \<noteq> []" using assms by (simp_all add: trim_right_def trim_left_def)
  have l: "\<not> p (last t)" using hd_dropWhile_not[OF t(2)] t by (simp add: last_rev)
  obtain a where "rev ?l = a @ ?r" by (metis takeWhile_dropWhile_id)
  then have "?l = t @ rev a" using t by (metis rev_append rev_rev_ident)
  then have "hd ?l = hd t" "?l \<noteq> []" using assms(2) by simp_all
  then show ?thesis using l hd_dropWhile_not by metis
qed

lemma trim_set: "set (trim_right p (trim_left p s)) \<subseteq> set s"
proof
  fix x
  assume "x \<in> set (trim_right p (trim_left p s))"
  then have "x \<in> set (dropWhile p s)" unfolding trim_right_def trim_left_def set_rev by (auto dest: set_dropWhileD)
  then show "x \<in> set s" by (rule set_dropWhileD)
qed

lemma env_key_underscore: "env_key ''_''"
  by (simp add: env_key_def key_char_def to_upper_char_def byte_in_def)

lemma NormalizeKey_key: "env_key (NormalizeKey k)"
proof -
  define s where "s = map key_rune (runes k)"
  define t where "t = trim_right (\<lambda>c. c = CHR ''_'') (trim_left (\<lambda>c. c = CHR ''_'') s)"
  have n: "NormalizeKey k = (if t = [] then ''_'' else t)" by (simp add: NormalizeKey_def s_def t_def)
  have "set t \<subseteq> set s" using trim_set t_def by simp
  then have l: "list_all (\<lambda>c. key_char c \<and> to_upper_char c = c) t"
    by (auto simp: list_all_iff s_def key_rune_char)
  show ?thesis
  proof (cases "t = []")
    case False
    then show ?thesis using trim_both[OF t_def] l unfolding n env_key_def by simp
  qed (use n env_key_underscore in simp)
qed

lemma rune_width_key: "key_char c \<Longrightarrow> rune_width (c # s) = 1"
proof -
  assume "key_char c"
  then have "(of_char c :: nat) \<le> 122" by (cases "c = CHR ''_''") (auto simp: key_char_def byte_in_def)
  then have "\<not> byte_in 0xC2 0xDF c" "\<not> byte_in 0xE0 0xEF c" "\<not> byte_in 0xF0 0xF4 c" by (simp_all add: byte_in_def)
  then show ?thesis by (cases s) simp_all
qed

lemma runes_ascii: "list_all key_char s \<Longrightarrow> runes s = map (\<lambda>c. [c]) s"
  by (induction s) (simp_all add: rune_width_key)

lemma NormalizeKey_fixed: "env_key k \<Longrightarrow> NormalizeKey k = k"
proof -
  assume k: "env_key k"
  then have c: "list_all key_char k" "list_all (\<lambda>c. to_upper_char c = c) k" by (auto simp: env_key_def list_all_iff)
  have m: "map key_rune (runes k) = k" unfolding runes_ascii[OF c(1)]
    using c by (auto simp: key_rune_def list_all_iff intro!: map_idI)
  have "trim_right (\<lambda>c. c = CHR ''_'') (trim_left (\<lambda>c. c = CHR ''_'') k) = k" if ne: "k \<noteq> ''_''"
  proof -
    have h: "hd k \<noteq> CHR ''_''" "last k \<noteq> CHR ''_''" "k \<noteq> []" using k ne by (auto simp: env_key_def split: if_splits)
    then have "dropWhile (\<lambda>c. c = CHR ''_'') k = k" by (cases k) simp_all
    moreover have "dropWhile (\<lambda>c. c = CHR ''_'') (rev k) = rev k" using h by (cases k rule: rev_cases) simp_all
    ultimately show ?thesis by (simp add: trim_right_def trim_left_def)
  qed
  then show ?thesis using k
    unfolding NormalizeKey_def m Let_def
    by (cases "k = ''_''") (auto simp: trim_right_def trim_left_def env_key_def)
qed

text \<open>
  A normalised key is a non-empty name of upper-case letters, digits and inner underscores, whatever the
  bytes of the name it is made of, and exactly these names are left as they are.
\<close>

theorem NormalizeKey_names: "env_key (NormalizeKey k) \<and> (NormalizeKey k = k \<longleftrightarrow> env_key k)"
  using NormalizeKey_key NormalizeKey_fixed by metis

lemma env_key_no_eq: "env_key k \<Longrightarrow> CHR ''='' \<notin> set k"
  by (auto simp: env_key_def list_all_iff key_char_def byte_in_def)

lemma LastSegment_cut: "CHR ''/'' \<notin> set t \<Longrightarrow> LastSegment (d @ CHR ''/'' # t) = t"
  "CHR ''/'' \<notin> set t \<Longrightarrow> LastSegment t = t"
proof -
  assume t: "CHR ''/'' \<notin> set t"
  then have a: "list_all (\<lambda>c. c \<noteq> CHR ''/'') (rev t)" by (induction t) auto
  have w: "takeWhile p (x @ y) = x @ takeWhile p y" if "list_all p x" for p and x y :: string
    using that by (induction x) simp_all
  show "LastSegment (d @ CHR ''/'' # t) = t" by (simp add: LastSegment_def w[OF a])
  show "LastSegment t = t" using w[OF a, of "[]"] by (simp only: LastSegment_def append_Nil2 takeWhile.simps rev_rev_ident)
qed

end
