(* ===== verification/Import_Hooks.thy ===== *)
theory Import_Hooks
  imports Dotenv
begin

text \<open>
  What a startup hook that imports values owes the rest of the program (the contract of
  \<open>cfg.AddImport\<close> and \<open>whoosh.AddSecret\<close> in the plugins that read secrets): it changes the imports
  only, and every value it imports is registered for masking, also when it fails half-way.
\<close>

definition imported_values :: "deploy_file \<Rightarrow> string set" where
  "imported_values cfg = (\<Union>m\<in>snd ` set (cfg_Imports cfg). snd ` set m)"

lemma imported_values_AddImport: "imported_values (AddImport ns k v cfg) \<subseteq> insert v (imported_values cfg)"
proof
  fix u
  let ?m = "case m_get (cfg_Imports cfg) ns of None \<Rightarrow> [] | Some m \<Rightarrow> m"
  assume "u \<in> imported_values (AddImport ns k v cfg)"
  then obtain n m j where m: "(n, m) \<in> set (m_put ns (m_put k v ?m) (cfg_Imports cfg))" "(j, u) \<in> set m"
    by (force simp: imported_values_def AddImport_def Let_def)
  have old: "u \<in> imported_values cfg" if "(i, l) \<in> set (cfg_Imports cfg)" "(h, u) \<in> set l" for i l h
    using that by (force simp: imported_values_def)
  show "u \<in> insert v (imported_values cfg)"
  proof (cases "(n, m) \<in> set (cfg_Imports cfg)")
    case False
    then have "m = m_put k v ?m" using put_set[OF m(1)] by simp
    then consider "u = v" | "(j, u) \<in> set ?m" using put_set m(2) by fastforce
    then show ?thesis
    proof cases
      case 2
      then obtain l where l: "m_get (cfg_Imports cfg) ns = Some l" "(j, u) \<in> set l"
        by (cases "m_get (cfg_Imports cfg) ns") simp_all
      then show ?thesis using old[OF m_get_in_set[OF l(1)] l(2)] by simp
    qed simp
  qed (use old m in blast)
qed

lemma AddImport_only: "\<exists>I. AddImport ns k v cfg = cfg\<lparr>cfg_Imports := I\<rparr>"
  by (auto simp: AddImport_def Let_def)

text \<open>The configuration and the registered values a hook has at a point of its run.\<close>

definition imports_ok :: "deploy_file \<Rightarrow> deploy_file \<Rightarrow> string list \<Rightarrow> bool" where
  "imports_ok cfg cfg' secs \<longleftrightarrow> (\<exists>I. cfg' = cfg\<lparr>cfg_Imports := I\<rparr>)
     \<and> imported_values cfg' \<subseteq> imported_values cfg \<union> set secs"

lemma imports_ok_refl [simp]: "imports_ok cfg cfg []"
  by (auto simp: imports_ok_def intro!: exI[of _ "cfg_Imports cfg"])

lemma imports_ok_add: "imports_ok cfg cfg' secs \<Longrightarrow> imports_ok cfg (AddImport ns k v cfg') (secs @ [v])"
proof -
  assume a: "imports_ok cfg cfg' secs"
  obtain I where "AddImport ns k v cfg' = cfg'\<lparr>cfg_Imports := I\<rparr>" using AddImport_only by blast
  then show ?thesis using a imported_values_AddImport[of ns k v cfg'] by (auto simp: imports_ok_def)
qed

lemma imports_ok_trans: "imports_ok a b s \<Longrightarrow> imports_ok b c t \<Longrightarrow> imports_ok a c (s @ t)"
  by (auto simp: imports_ok_def)

locale import_hook =
  fixes fn :: "'w startup"
  assumes registers: "fn cfg w = (r, cfg', secs, w') \<Longrightarrow> imported_values cfg' \<subseteq> imported_values cfg \<union> set secs"
begin

lemma imports_known:
  assumes "fn cfg w = (r, cfg', secs, w')" "m_get (cfg_Imports cfg') ns = Some m" "m_get m k = Some v"
  shows "v \<in> imported_values cfg \<or> v \<in> set secs"
proof -
  have "v \<in> imported_values cfg'" using m_get_in_set[OF assms(2)] m_get_in_set[OF assms(3)]
    by (force simp: imported_values_def)
  then show ?thesis using registers[OF assms(1)] by blast
qed

end

text \<open>A hook that does nothing but import.\<close>

locale only_imports = import_hook +
  assumes only: "fn cfg w = (r, cfg', secs, w') \<Longrightarrow> \<exists>I. cfg' = cfg\<lparr>cfg_Imports := I\<rparr>"
begin

lemma keeps_rest:
  assumes "fn cfg w = (r, cfg', secs, w')"
  shows "cfg_Tasks cfg' = cfg_Tasks cfg \<and> cfg_Hooks cfg' = cfg_Hooks cfg \<and> cfg_Envs cfg' = cfg_Envs cfg \<and> cfg_Hosts cfg' = cfg_Hosts cfg"
  using only[OF assms] by auto

end

text \<open>The hooks of a registry, one after the other, keep the contract when each of them does.\<close>

lemma run_startups_import:
  "list_all import_hook fns \<Longrightarrow> run_startups fns cfg w = (r, cfg', secs, w') \<Longrightarrow>
     imported_values cfg' \<subseteq> imported_values cfg \<union> set secs"
proof (induction fns arbitrary: cfg w secs)
  case (Cons fn fns)
  obtain o1 c1 s1 w1 where f: "fn cfg w = (o1, c1, s1, w1)" by (metis prod_cases4)
  have i: "imported_values c1 \<subseteq> imported_values cfg \<union> set s1"
    using Cons.prems(1) import_hook.registers[where fn = fn] f by simp
  show ?case
  proof (cases o1)
    case (Some err)
    then show ?thesis using Cons.prems(2) f i by simp
  next
    case None
    then obtain s2 where g: "run_startups fns c1 w1 = (r, cfg', s2, w')" "secs = s1 @ s2"
      using Cons.prems(2) f by (auto split: prod.splits)
    have "imported_values cfg' \<subseteq> imported_values c1 \<union> set s2" using Cons.IH[OF _ g(1)] Cons.prems(1) by simp
    then show ?thesis unfolding g(2) using i by auto
  qed
qed simp

section \<open>Importing and exporting lists of variables\<close>

definition is_ok :: "'a + 'b \<Rightarrow> bool" where "is_ok r = (case r of Inl _ \<Rightarrow> False | Inr _ \<Rightarrow> True)"

text \<open>The elements a loop reaches that stops at the first one that fails.\<close>

definition reached :: "('a \<Rightarrow> bool) \<Rightarrow> 'a list \<Rightarrow> 'a list" where
  "reached ok xs = take (Suc (length (takeWhile ok xs))) xs"

lemma reached_simps [simp]:
  "reached ok [] = []" "reached ok (x # xs) = (if ok x then x # reached ok xs else [x])"
  by (simp_all add: reached_def)

lemma reached_all [simp]: "list_all ok xs \<Longrightarrow> reached ok xs = xs"
  by (induction xs) simp_all

definition put_imports :: "string \<Rightarrow> (string \<times> string) list \<Rightarrow> deploy_file \<Rightarrow> deploy_file" where
  "put_imports ns kvs = fold (\<lambda>(k, v). AddImport ns k v) kvs"

lemma put_imports_append [simp]: "put_imports ns (a @ b) cfg = put_imports ns b (put_imports ns a cfg)"
  by (simp add: put_imports_def)

lemma put_imports_Nil [simp]: "put_imports ns [] cfg = cfg"
  by (simp add: put_imports_def)

lemma imports_ok_put: "imports_ok cfg (put_imports ns kvs cfg) (map snd kvs)"
proof (induction kvs rule: rev_induct)
  case (snoc kv kvs)
  obtain k v where "kv = (k, v)" by fastforce
  then show ?case using imports_ok_add[OF snoc] by (simp add: put_imports_def)
qed simp

text \<open>Each value goes into the environment under its normalised key and is registered.\<close>

fun put_vars :: "(string \<times> string) list \<Rightarrow> string smap \<Rightarrow> (string smap \<Rightarrow> 'w prog) \<Rightarrow> 'w prog" where
  "put_vars [] e k = k e"
| "put_vars ((key, v) # kvs) e k = Secret v (put_vars kvs (m_put (NormalizeKey key) v e) k)"

end
