(* ===== verification/Rbenv.thy ===== *)
theory Rbenv
  imports Import_Hooks Render
begin

text \<open>
  The rbenv plugin (\<open>plugins/rbenv/rbenv.go\<close>): its parameters, the versions it asks for, the setup task it
  adds with the environment of the host script, and what it puts into the environment of later tasks.

  Strict decoding of the parameters, the operator's file system and the text of the host script
  (\<open>templates/setup.sh\<close>) are parameters.
\<close>

record extra_plugin =
  xp_Name :: string
  xp_Repo :: string
  xp_Version :: string

record rbenv_params =
  rb_Root :: string
  rb_RbenvRepo :: string
  rb_RubyBuildRepo :: string
  rb_DefaultGems :: "string list"
  rb_DefaultGemsRepo :: string
  rb_Plugins :: "extra_plugin list"
  rb_Versions :: "string list"
  rb_ReadRubyVersion :: "bool option"
  rb_RubyVersionFile :: string
  rb_Prune :: bool
  rb_Global :: string
  rb_Update :: bool
  rb_InstallRuby :: "bool option"
  rb_Shells :: "string list"
  rb_BuildEnv :: "string smap"
  rb_Roles :: "string list"
  rb_InjectPath :: "bool option"
  rb_TaskName :: string
  rb_Phase :: string
  rb_When :: string

definition defaultRoot :: string where "defaultRoot = ''$HOME/.rbenv''"
definition defaultTaskName :: string where "defaultTaskName = ''rbenv:setup''"

section \<open>Versions and plugins\<close>

definition expandRoot :: "string \<Rightarrow> string" where
  "expandRoot raw = (let root = trim_space raw in
     if root = [] then defaultRoot
     else if root = ''~'' then ''$HOME''
     else if has_prefix root ''~/'' then ''$HOME/'' @ drop 2 root
     else root)"

text \<open>The characters of \<open>strings.IndexAny(v, " \t\r\n")\<close>.\<close>

definition is_sep :: "char \<Rightarrow> bool" where
  "is_sep c \<longleftrightarrow> of_char c \<in> {32, 9, 13, 10 :: nat}"

definition trim_prefix :: "string \<Rightarrow> string \<Rightarrow> string" where
  "trim_prefix s p = (if has_prefix s p then drop (length p) s else s)"

definition readLocalRubyVersion :: "('w \<Rightarrow> string \<Rightarrow> string res) \<Rightarrow> 'w \<Rightarrow> string \<Rightarrow> string \<Rightarrow> string" where
  "readLocalRubyVersion read w dir file =
     (case read w (if is_abs file then file else path_join [dir, file]) of
        Inl _ \<Rightarrow> []
      | Inr data \<Rightarrow> trim_prefix (takeWhile (\<lambda>c. \<not> is_sep c) (trim_space data)) ''ruby-'')"

definition dedupe :: "string list \<Rightarrow> string list" where
  "dedupe vs = fold (\<lambda>v out. let s = trim_space v in if s = [] \<or> s \<in> set out then out else out @ [s]) vs []"

definition boolStr :: "bool \<Rightarrow> string" where "boolStr b = (if b then ''1'' else ''0'')"

text \<open>\<open>^[A-Za-z0-9][A-Za-z0-9._+-]*$\<close>\<close>

definition alnum :: "char \<Rightarrow> bool" where
  "alnum c \<longleftrightarrow> (let n = of_char c :: nat in 65 \<le> n \<and> n \<le> 90 \<or> 97 \<le> n \<and> n \<le> 122 \<or> 48 \<le> n \<and> n \<le> 57)"

definition rubyVersion :: "string \<Rightarrow> bool" where
  "rubyVersion v = (case v of [] \<Rightarrow> False | c # cs \<Rightarrow> alnum c \<and> list_all (\<lambda>d. alnum d \<or> d \<in> set ''._+-'') cs)"

definition desired_versions :: "('w \<Rightarrow> string \<Rightarrow> string res) \<Rightarrow> rbenv_params \<Rightarrow> deploy_file \<Rightarrow> 'w \<Rightarrow> string list" where
  "desired_versions read p cfg w =
     (let v = readLocalRubyVersion read w (cfg_Dir cfg) (or_str ''.ruby-version'' (rb_RubyVersionFile p)) in
      dedupe (rb_Versions p @ (if or_default (rb_ReadRubyVersion p) True \<and> v \<noteq> [] then [v] else [])
        @ (if rb_Global p \<noteq> [] then [rb_Global p] else [])))"

definition plugin_words :: "extra_plugin \<Rightarrow> string list" where
  "plugin_words x = [trim_space (xp_Name x), trim_space (xp_Repo x)]
     @ (if trim_space (xp_Version x) \<noteq> [] then [trim_space (xp_Version x)] else [])"

fun renderExtraPlugins :: "nat \<Rightarrow> extra_plugin list \<Rightarrow> string list res" where
  "renderExtraPlugins i [] = Inr []"
| "renderExtraPlugins i (x # xs) =
     (let name = trim_space (xp_Name x); repo = trim_space (xp_Repo x); version = trim_space (xp_Version x);
          at = ''rbenv: plugins['' @ itoa (int i) @ '']: '' in
      if name = [] \<or> repo = [] then Inl (Text (at @ ''both '' @ [sq] @ ''name'' @ [sq] @ '' and '' @ [sq] @ ''repo'' @ [sq] @ '' are required''))
      else (case List.find (\<lambda>(what, val). list_ex is_sep val) [(''name'', name), (''repo'', repo), (''version'', version)] of
          Some (what, val) \<Rightarrow> Inl (Text (at @ what @ '' '' @ quoted val @ '' must not contain whitespace''))
        | None \<Rightarrow> (case renderExtraPlugins (Suc i) xs of
            Inl err \<Rightarrow> Inl err
          | Inr lines \<Rightarrow> Inr ((name @ '' '' @ repo @ (if version \<noteq> [] then '' '' @ version else [])) # lines))))"

section \<open>The setup task\<close>

definition control_vars :: "rbenv_params \<Rightarrow> string \<Rightarrow> string list \<Rightarrow> string list \<Rightarrow> string smap" where
  "control_vars p root lines versions =
     [(''RBENV_ROOT'', root),
      (''RBENV_REPO'', or_str ''https://github.com/rbenv/rbenv.git'' (rb_RbenvRepo p)),
      (''RUBY_BUILD_REPO'', or_str ''https://github.com/rbenv/ruby-build.git'' (rb_RubyBuildRepo p)),
      (''RBENV_DEFAULT_GEMS_REPO'', or_str ''https://github.com/rbenv/rbenv-default-gems.git'' (rb_DefaultGemsRepo p)),
      (''RBENV_DEFAULT_GEMS_LIST'', join_on [nl] (rb_DefaultGems p)),
      (''RBENV_PLUGINS'', join_on [nl] lines),
      (''RBENV_VERSIONS'', join_on '' '' versions),
      (''RBENV_GLOBAL'', rb_Global p),
      (''RBENV_SHELLS'', join_on '' '' (if rb_Shells p = [] then [''bash'', ''zsh''] else rb_Shells p)),
      (''RBENV_PRUNE'', boolStr (rb_Prune p)),
      (''RBENV_UPDATE'', boolStr (rb_Update p)),
      (''RBENV_INSTALL_RUBY'', boolStr (or_default (rb_InstallRuby p) True)),
      (''RBENV_READ_RUBY_VERSION'', boolStr (or_default (rb_ReadRubyVersion p) True))]"

definition setup_env :: "rbenv_params \<Rightarrow> string \<Rightarrow> string list \<Rightarrow> string list \<Rightarrow> string smap" where
  "setup_env p root lines versions = fold (\<lambda>(k, v). m_put k v) (control_vars p root lines versions) (m_copy [] (rb_BuildEnv p))"

definition setup_task :: "string \<Rightarrow> rbenv_params \<Rightarrow> string smap \<Rightarrow> task" where
  "setup_task setupScript p env = zero_task\<lparr>
     task_Desc := ''Install/verify rbenv + ruby-build and ensure Ruby versions'', task_Dir := ''.'',
     task_Roles := rb_Roles p, task_Envs := env,
     task_Scripts := [zero_script\<lparr>sc_Name := ''rbenv-setup'', sc_Script := setupScript\<rparr>]\<rparr>"

section \<open>Startup and configuration\<close>

definition inject_path :: "string \<Rightarrow> deploy_file \<Rightarrow> deploy_file" where
  "inject_path root cfg = (let envs = m_put ''RBENV_ROOT'' root (cfg_Envs cfg) in
     cfg\<lparr>cfg_Envs := m_put ''PATH'' (root @ ''/bin:'' @ root @ ''/shims:''
       @ or_str ''$PATH'' (or_default (m_get envs ''PATH'') [])) envs\<rparr>)"

definition rbenv_context :: "rbenv_params \<Rightarrow> deploy_file \<Rightarrow> deploy_file" where
  "rbenv_context p cfg = (let root = expandRoot (rb_Root p) in AddImport ''rbenv'' ''root'' root
     (if or_default (rb_InjectPath p) True then inject_path root cfg else cfg))"

definition rbenv_startup :: "('w \<Rightarrow> string \<Rightarrow> string res) \<Rightarrow> string \<Rightarrow> rbenv_params \<Rightarrow> 'w startup" where
  "rbenv_startup read setupScript p cfg w =
     (let cfg1 = rbenv_context p cfg; versions = desired_versions read p cfg1 w in
      case List.find (\<lambda>v. \<not> rubyVersion v) versions of
        Some v \<Rightarrow> (Some (Text (''rbenv: invalid ruby version '' @ quoted v)), cfg1, [], w)
      | None \<Rightarrow> (case renderExtraPlugins 0 (rb_Plugins p) of
          Inl err \<Rightarrow> (Some err, cfg1, [], w)
        | Inr lines \<Rightarrow>
          (let name = or_str defaultTaskName (rb_TaskName p); phase = or_str PhaseUpdated (rb_Phase p);
               env = setup_env p (expandRoot (rb_Root p)) lines versions;
               cfg2 = AddTask name (Some (setup_task setupScript p env)) cfg1
           in (None, (if equal_fold (rb_When p) ''after'' then AddHookAfter else AddHookBefore) phase [name] cfg2, [], w))))"

definition rbenv_configure :: "(yval smap \<Rightarrow> rbenv_params res) \<Rightarrow> ('w \<Rightarrow> string \<Rightarrow> string res) \<Rightarrow> string
    \<Rightarrow> plugin_spec \<Rightarrow> 'w plugin_registry \<Rightarrow> goerr option \<times> 'w plugin_registry" where
  "rbenv_configure decode read setupScript spec reg = (case decode (ps_Params spec) of
      Inl err \<Rightarrow> (Some (wrapf ''rbenv params'' err), reg)
    | Inr p \<Rightarrow> (case ps_Actions spec of
        a # _ \<Rightarrow> (Some (Text (''rbenv: unknown feature '' @ quoted (pa_Name a)
          @ '' under actions: (the plugin is configured via params: only)'')), reg)
      | [] \<Rightarrow> if rb_When p \<noteq> [] \<and> \<not> equal_fold (rb_When p) ''before'' \<and> \<not> equal_fold (rb_When p) ''after''
          then (Some (Text (''rbenv: when must be \"before\" or \"after\", got '' @ quoted (rb_When p))), reg)
          else (None, AddStartup (rbenv_startup read setupScript p) reg)))"

definition rbenv_plugin :: "(yval smap \<Rightarrow> rbenv_params res) \<Rightarrow> ('w \<Rightarrow> string \<Rightarrow> string res) \<Rightarrow> string \<Rightarrow> 'w plugin" where
  "rbenv_plugin decode read setupScript = \<lparr>pl_Configure = (\<lambda>spec reg w. (case rbenv_configure decode read setupScript spec reg of
      (r, reg') \<Rightarrow> (r, reg', [], w))), pl_Version = Some ''1.0.0'', pl_Commands = None\<rparr>"

section \<open>What the host script is given\<close>

lemma fold_put_get: "m_get (fold (\<lambda>(k, v). m_put k v) kvs m) = m_get m ++ m_get (rev kvs)"
proof (induction kvs arbitrary: m)
  case (Cons kv kvs)
  have "(m_get m)(fst kv \<mapsto> snd kv) ++ m_get (rev kvs) = m_get m ++ m_get (rev (kv # kvs))"
    by (cases kv) (simp add: map_add_def fun_eq_iff split: option.split)
  then show ?case using Cons.IH[of "m_put (fst kv) (snd kv) m"] by (cases kv) (simp add: fun_upd_def)
qed simp

lemma control_vars_wf: "distinct (map fst (control_vars p root lines versions))"
  by (simp add: control_vars_def)

lemma setup_env_get: "m_get (setup_env p root lines versions) = m_get (rb_BuildEnv p) ++ m_get (control_vars p root lines versions)"
proof -
  have "m_get (rev (control_vars p root lines versions)) = m_get (control_vars p root lines versions)"
    using control_vars_wf[of p root lines versions] map_of_inject_set[of "rev (control_vars p root lines versions)" "control_vars p root lines versions"]
    by (simp add: rev_map[symmetric])
  then show ?thesis by (simp add: setup_env_def fold_put_get)
qed

lemma dedupe_inv: "distinct out \<Longrightarrow> let vs' = fold (\<lambda>v out. let s = trim_space v in if s = [] \<or> s \<in> set out then out else out @ [s]) vs out in
    distinct vs' \<and> set vs' = set out \<union> (trim_space ` set vs - {[]})"
proof (induction vs arbitrary: out)
  case (Cons v vs)
  let ?s = "trim_space v" and ?out = "if trim_space v = [] \<or> trim_space v \<in> set out then out else out @ [trim_space v]"
  have "distinct ?out" "set ?out = set out \<union> ({?s} - {[]})" using Cons.prems by auto
  then show ?case using Cons.IH[of ?out] by (auto simp: Let_def)
qed simp

lemma dedupe_spec: "distinct (dedupe vs)" "set (dedupe vs) = trim_space ` set vs - {[]}"
  using dedupe_inv[of "[]" vs] by (simp_all add: dedupe_def Let_def)

lemma version_chars: "rubyVersion v \<Longrightarrow> c \<in> set v \<Longrightarrow> c \<noteq> CHR '' '' \<and> dq_item c = Lit c"
  by (auto simp: rubyVersion_def alnum_def dq_item_def sh_chars Let_def list_all_iff split: list.splits)

lemma versions_literal:
  assumes "list_all rubyVersion vs"
  shows "env_items \<lparr>ev_Value = join_on '' '' vs, ev_Expand = True\<rparr> = map Lit (join_on '' '' vs)"
proof -
  have "dq_item c = Lit c" if "c \<in> set (join_on '' '' vs)" for c
    using that assms
  proof (induction vs rule: induct_list012)
    case (3 v1 v2 vs)
    moreover have "dq_item CHR '' '' = Lit CHR '' ''" by (simp add: dq_item_def sh_chars)
    ultimately show ?case using version_chars by auto
  qed (use version_chars in auto)
  then show ?thesis by (simp add: env_items_def)
qed

lemma versions_split: "list_all rubyVersion vs \<Longrightarrow> vs \<noteq> [] \<Longrightarrow> split_on (CHR '' '') (join_on '' '' vs) = vs"
  using version_chars by (intro split_join) (auto simp: list_all_iff)

lemma context_keeps: "cfg_Tasks (rbenv_context p cfg) = cfg_Tasks cfg" "cfg_Hooks (rbenv_context p cfg) = cfg_Hooks cfg"
  "cfg_Dir (rbenv_context p cfg) = cfg_Dir cfg"
  by (simp_all add: rbenv_context_def inject_path_def AddImport_def Let_def)

text \<open>
  The startup hook of the rbenv plugin either fails and adds no task and no hook, or adds exactly one task, hooked
  exactly once to its phase behind the hooks already there. The host script is given the plugin's own variables
  whatever \<open>build_env\<close> says, and the other variables of \<open>build_env\<close>. The versions are distinct and well formed, they are the
  configured ones, the global one and the one of the local file; although the variable is one the shell expands, it
  reads as exactly these words.
\<close>

theorem rbenv_startup_spec:
  assumes "rbenv_startup read sc p cfg w = (r, cfg', secs, w')"
  shows "let name = or_str defaultTaskName (rb_TaskName p); phase = or_str PhaseUpdated (rb_Phase p);
      after = equal_fold (rb_When p) ''after''; file = readLocalRubyVersion read w (cfg_Dir cfg) (or_str ''.ruby-version'' (rb_RubyVersionFile p));
      wanted = set (rb_Versions p) \<union> {rb_Global p} \<union> (if or_default (rb_ReadRubyVersion p) True then {file} else {}) in
    secs = [] \<and> w' = w \<and> (if r \<noteq> None then cfg' = rbenv_context p cfg else
      (\<exists>versions lines env. renderExtraPlugins 0 (rb_Plugins p) = Inr lines
        \<and> distinct versions \<and> list_all rubyVersion versions \<and> set versions = trim_space ` wanted - {[]}
        \<and> m_get env = m_get (rb_BuildEnv p) ++ m_get (control_vars p (expandRoot (rb_Root p)) lines versions)
        \<and> m_get (cfg_Tasks cfg') = (m_get (cfg_Tasks cfg))(name \<mapsto> Some (setup_task sc p env))
        \<and> (\<forall>ph. m_list (hooks_Before (cfg_Hooks cfg')) ph = m_list (hooks_Before (cfg_Hooks cfg)) ph @ (if \<not> after \<and> ph = phase then [name] else [])
            \<and> m_list (hooks_After (cfg_Hooks cfg')) ph = m_list (hooks_After (cfg_Hooks cfg)) ph @ (if after \<and> ph = phase then [name] else []))
        \<and> (versions = [] \<or> split_on (CHR '' '') (join_on '' '' versions) = versions)
        \<and> env_items \<lparr>ev_Value = join_on '' '' versions, ev_Expand = True\<rparr> = map Lit (join_on '' '' versions)))"
proof -
  let ?vs = "desired_versions read p (rbenv_context p cfg) w"
  let ?file = "readLocalRubyVersion read w (cfg_Dir cfg) (or_str ''.ruby-version'' (rb_RubyVersionFile p))"
  have empty: "trim_space [] = []" by (simp add: trim_space_def trim_left_def trim_right_def)
  have v: "distinct ?vs" "set ?vs = trim_space ` (set (rb_Versions p) \<union> {rb_Global p}
      \<union> (if or_default (rb_ReadRubyVersion p) True then {?file} else {})) - {[]}"
    using empty by (auto simp: desired_versions_def dedupe_spec context_keeps Let_def)
  show ?thesis
  proof (cases "r = None")
    case False
    then show ?thesis using assms by (auto simp: rbenv_startup_def Let_def split: option.splits sum.splits)
  next
    case True
    then have ok: "List.find (\<lambda>v. \<not> rubyVersion v) ?vs = None" using assms
      by (auto simp: rbenv_startup_def Let_def split: option.splits)
    then have l: "list_all rubyVersion ?vs" by (auto simp: find_None_iff list_all_iff)
    obtain lines where lines: "renderExtraPlugins 0 (rb_Plugins p) = Inr lines"
      using assms True ok by (auto simp: rbenv_startup_def Let_def split: sum.splits)
    let ?env = "setup_env p (expandRoot (rb_Root p)) lines ?vs"
    let ?name = "or_str defaultTaskName (rb_TaskName p)" and ?phase = "or_str PhaseUpdated (rb_Phase p)"
      and ?after = "equal_fold (rb_When p) ''after''"
    have cfg': "cfg' = (if ?after then AddHookAfter else AddHookBefore) ?phase [?name]
        (AddTask ?name (Some (setup_task sc p ?env)) (rbenv_context p cfg))" and same: "secs = []" "w' = w"
      using assms True ok lines by (auto simp: rbenv_startup_def Let_def)
    have tasks: "m_get (cfg_Tasks cfg') = (m_get (cfg_Tasks cfg))(?name \<mapsto> Some (setup_task sc p ?env))"
      using cfg' by (simp add: AddHookAfter_def AddHookBefore_def AddTask_def context_keeps)
    have hooks: "m_list (hooks_Before (cfg_Hooks cfg')) ph = m_list (hooks_Before (cfg_Hooks cfg)) ph
          @ (if \<not> ?after \<and> ph = ?phase then [?name] else [])"
        "m_list (hooks_After (cfg_Hooks cfg')) ph = m_list (hooks_After (cfg_Hooks cfg)) ph
          @ (if ?after \<and> ph = ?phase then [?name] else [])" for ph
      using cfg' by (simp_all add: AddHookAfter_def AddHookBefore_def AddTask_def context_keeps)
    have words: "?vs = [] \<or> split_on (CHR '' '') (join_on '' '' ?vs) = ?vs" using versions_split[OF l] by blast
    have n: "\<not> r \<noteq> None" using True by simp
    show ?thesis unfolding Let_def if_not_P[OF n]
      by (rule conjI, fact, rule conjI, fact, rule exI[of _ ?vs], rule exI[of _ lines], rule exI[of _ ?env])
        (intro conjI allI; (fact | rule hooks setup_env_get versions_literal[OF l]))
  qed
qed

section \<open>The list of extra plugins\<close>

lemma render_line: "renderExtraPlugins i (x # xs) = Inr lines \<Longrightarrow>
    \<exists>rest. lines = join_on '' '' (plugin_words x) # rest \<and> renderExtraPlugins (Suc i) xs = Inr rest
      \<and> list_all (\<lambda>v. v \<noteq> [] \<and> \<not> list_ex is_sep v) (plugin_words x)"
  by (auto simp: Let_def plugin_words_def split: if_splits sum.splits)

lemma no_sep: "\<not> list_ex is_sep v \<Longrightarrow> CHR '' '' \<notin> set v \<and> nl \<notin> set v"
  by (force simp: is_sep_def nl_def list_ex_iff)

lemma line_words:
  assumes "list_all (\<lambda>v. v \<noteq> [] \<and> \<not> list_ex is_sep v) (plugin_words x)"
  shows "split_on (CHR '' '') (join_on '' '' (plugin_words x)) = plugin_words x" "nl \<notin> set (join_on '' '' (plugin_words x))"
proof -
  have w: "CHR '' '' \<notin> set v \<and> nl \<notin> set v" if "v \<in> set (plugin_words x)" for v
    using assms that no_sep by (auto simp: list_all_iff)
  show "split_on (CHR '' '') (join_on '' '' (plugin_words x)) = plugin_words x"
    using w by (intro split_join) (auto simp: plugin_words_def)
  show "nl \<notin> set (join_on '' '' (plugin_words x))"
    using w by (auto simp: plugin_words_def nl_def)
qed

lemma lines_spec: "renderExtraPlugins i xs = Inr lines \<Longrightarrow> map (split_on (CHR '' '')) lines = map plugin_words xs
    \<and> (\<forall>l\<in>set lines. nl \<notin> set l) \<and> list_all (\<lambda>x. list_all (\<lambda>v. v \<noteq> [] \<and> \<not> list_ex is_sep v) (plugin_words x)) xs"
proof (induction xs arbitrary: i lines)
  case (Cons x xs)
  obtain rest where r: "lines = join_on '' '' (plugin_words x) # rest" "renderExtraPlugins (Suc i) xs = Inr rest"
    "list_all (\<lambda>v. v \<noteq> [] \<and> \<not> list_ex is_sep v) (plugin_words x)" using render_line[OF Cons.prems] by blast
  show ?case using Cons.IH[OF r(2)] line_words[OF r(3)] r(1,3) by simp
qed simp

text \<open>
  The host script reads the extra plugins back as they were written: the lines of the variable are the plugins in
  their order, the words of a line its name, its repository and, when one is set, its version, each of them without
  surrounding blanks and not empty.
\<close>

theorem renderExtraPlugins_roundtrip:
  assumes "renderExtraPlugins i xs = Inr lines" "xs \<noteq> []"
  shows "map (split_on (CHR '' '')) (split_on nl (join_on [nl] lines)) = map plugin_words xs
    \<and> list_all (\<lambda>x. list_all (\<lambda>v. v \<noteq> [] \<and> \<not> list_ex is_sep v) (plugin_words x)) xs"
proof -
  have l: "map (split_on (CHR '' '')) lines = map plugin_words xs" "\<forall>l\<in>set lines. nl \<notin> set l"
    using lines_spec[OF assms(1)] by blast+
  then have "lines \<noteq> []" using assms(2) by auto
  then have "split_on nl (join_on [nl] lines) = lines" using split_join l(2) by blast
  then show ?thesis using lines_spec[OF assms(1)] by simp
qed

section \<open>The root in the environment of later tasks\<close>

definition import_entries :: "string smap smap \<Rightarrow> string smap" where
  "import_entries imps = concat (map (\<lambda>(ns, kv). map (\<lambda>(k, v). (EnvName (ns @ ''_'' @ k), v)) kv) imps)"

lemma import_entries_iff: "(n, u) \<in> set (import_entries imps) \<longleftrightarrow>
    (\<exists>ns kv k. (ns, kv) \<in> set imps \<and> (k, u) \<in> set kv \<and> n = EnvName (ns @ ''_'' @ k))"
  by (auto simp: import_entries_def) force

lemma ImportEnv_entries: "m_get (ImportEnv imps) = m_get (rev (import_entries imps))"
proof -
  have inner: "fold (\<lambda>(k, v) out. m_put (EnvName (ns @ ''_'' @ k)) v out) kv out
      = fold (\<lambda>(k, v). m_put k v) (map (\<lambda>(k, v). (EnvName (ns @ ''_'' @ k), v)) kv) out" for ns kv and out :: "string smap"
    by (induction kv arbitrary: out) auto
  have "fold (\<lambda>(ns, kv) out. fold (\<lambda>(k, v) out. m_put (EnvName (ns @ ''_'' @ k)) v out) kv out) imps out
      = fold (\<lambda>(k, v). m_put k v) (import_entries imps) out" for out
    by (induction imps arbitrary: out) (auto simp: import_entries_def inner[simplified])
  then show ?thesis by (simp add: ImportEnv_def fold_put_get)
qed

lemma ImportEnv_unique:
  assumes "(n, v) \<in> set (import_entries imps)" "\<And>u. (n, u) \<in> set (import_entries imps) \<Longrightarrow> u = v"
  shows "m_get (ImportEnv imps) n = Some v"
proof -
  obtain u where u: "m_get (rev (import_entries imps)) n = Some u"
    using assms(1) weak_map_of_SomeI[of n v "rev (import_entries imps)"] by auto
  then have "u = v" using assms(2) m_get_in_set[OF u] by simp
  then show ?thesis using u by (simp add: ImportEnv_entries)
qed

lemma AddImport_entries:
  "set (import_entries (cfg_Imports (AddImport ns k v cfg))) \<subseteq> insert (EnvName (ns @ ''_'' @ k), v) (set (import_entries (cfg_Imports cfg)))"
  "(EnvName (ns @ ''_'' @ k), v) \<in> set (import_entries (cfg_Imports (AddImport ns k v cfg)))"
proof -
  let ?m = "case m_get (cfg_Imports cfg) ns of None \<Rightarrow> [] | Some m \<Rightarrow> m"
  have old: "(ns, ?m) \<in> set (cfg_Imports cfg) \<or> ?m = []" using m_get_in_set by (auto split: option.split)
  have imp: "cfg_Imports (AddImport ns k v cfg) = m_put ns (m_put k v ?m) (cfg_Imports cfg)"
    by (simp add: AddImport_def Let_def)
  have "(n, u) = (EnvName (ns @ ''_'' @ k), v) \<or> (n, u) \<in> set (import_entries (cfg_Imports cfg))"
    if new: "(n, u) \<in> set (import_entries (cfg_Imports (AddImport ns k v cfg)))" for n u
  proof -
    obtain ns' kv k' where e: "(ns', kv) \<in> set (m_put ns (m_put k v ?m) (cfg_Imports cfg))" "(k', u) \<in> set kv" "n = EnvName (ns' @ ''_'' @ k')"
      using new unfolding imp import_entries_iff by blast
    show ?thesis
    proof (cases "(ns', kv) \<in> set (cfg_Imports cfg)")
      case True
      then show ?thesis using e(2,3) import_entries_iff by blast
    next
      case False
      then have kv: "ns' = ns" "kv = m_put k v ?m" using put_set[OF e(1)] by simp_all
      then consider "(k', u) \<in> set ?m" | "(k', u) = (k, v)" using put_set e(2) by fast
      then show ?thesis
      proof cases
        case 1
        then have "?m \<noteq> []" by (metis empty_iff list.set(1))
        then have "(ns, ?m) \<in> set (cfg_Imports cfg)" using old by blast
        then show ?thesis using 1 e(3) unfolding kv(1) import_entries_iff by blast
      qed (use e(3) kv(1) in simp)
    qed
  qed
  then show "set (import_entries (cfg_Imports (AddImport ns k v cfg))) \<subseteq> insert (EnvName (ns @ ''_'' @ k), v) (set (import_entries (cfg_Imports cfg)))"
    by auto
  have "(ns, m_put k v ?m) \<in> set (cfg_Imports (AddImport ns k v cfg))"
    unfolding imp by (rule m_get_in_set) simp
  moreover have "(k, v) \<in> set (m_put k v ?m)" by (rule m_get_in_set) simp
  ultimately show "(EnvName (ns @ ''_'' @ k), v) \<in> set (import_entries (cfg_Imports (AddImport ns k v cfg)))"
    using import_entries_iff by blast
qed

lemma root_name: "EnvName (''rbenv'' @ ''_'' @ ''root'') = ''RBENV_ROOT''"
  by code_simp

text \<open>
  A deviation: the hook exports the root twice: as a global variable, which the shell of a host expands, and as the import
  \<open>rbenv.root\<close>, whose variable has the same name. Imports are exported literally and win over the global
  variables, so every later task without a root of its own is given the root unexpanded: with the default root, the
  path that starts with the five characters \<open>$HOME\<close>. The comment in \<open>rbenv.go\<close> and the plugin's README promise the expanded root.
\<close>

theorem rbenv_later_root:
  assumes "rbenv_startup read sc p cfg0 w = (r, cfg, secs, w')" and "cfg_Imports (e_cfg e) = cfg_Imports cfg"
    and "''RBENV_ROOT'' \<notin> fst ` set (import_entries (cfg_Imports cfg0))"
    and "execEnv x host t e = (Inr env, e')" and "m_get (task_Envs t) ''RBENV_ROOT'' = None"
    and "cache_ok x e" and "wf_map (cfg_EnvFileValues (e_cfg e))" and "wf_map (e_env e)" and "wf_map (task_Envs t)"
    and "wf_map (tc_GlobalEnvValues (e_base e))"
  shows "m_get env ''RBENV_ROOT'' = Some \<lparr>ev_Value = expandRoot (rb_Root p), ev_Expand = False\<rparr>
    \<and> env_items \<lparr>ev_Value = expandRoot (rb_Root p), ev_Expand = False\<rparr> = map Lit (expandRoot (rb_Root p))"
proof -
  let ?root = "expandRoot (rb_Root p)"
  have imps: "cfg_Imports (e_cfg e) = cfg_Imports (AddImport ''rbenv'' ''root'' ?root
      (if or_default (rb_InjectPath p) True then inject_path ?root cfg0 else cfg0))"
    using assms(1,2) by (auto simp: rbenv_startup_def rbenv_context_def AddHookAfter_def AddHookBefore_def AddTask_def Let_def
        split: option.splits sum.splits if_splits)
  have same: "cfg_Imports (if or_default (rb_InjectPath p) True then inject_path ?root cfg0 else cfg0) = cfg_Imports cfg0"
    by (simp add: inject_path_def Let_def)
  have "m_get (ImportEnv (cfg_Imports (e_cfg e))) ''RBENV_ROOT'' = Some ?root"
  proof (rule ImportEnv_unique)
    show "(''RBENV_ROOT'', ?root) \<in> set (import_entries (cfg_Imports (e_cfg e)))"
      using AddImport_entries(2)[of "''rbenv''" "''root''" ?root] unfolding imps root_name by blast
    fix u
    assume "(''RBENV_ROOT'', u) \<in> set (import_entries (cfg_Imports (e_cfg e)))"
    then show "u = ?root"
      using AddImport_entries(1)[of "''rbenv''" "''root''" ?root] assms(3) same unfolding imps root_name by force
  qed
  moreover obtain c :: tctx and te where te: "map fst te = map fst (task_Envs t)"
    and v: "\<forall>k. m_get env k = first_of [layer True te k, layer False (ImportEnv (cfg_Imports (e_cfg e))) k,
          layer False (deploy_env (e_base e) host (tc_Roles c)) k, layer True (tc_GlobalEnvValues c) k,
          layer False (cfg_EnvFileValues (e_cfg e)) k]"
    using execEnv_layers[OF assms(4,6-10)] by blast
  moreover have "m_get env ''RBENV_ROOT'' = first_of [layer True te ''RBENV_ROOT'', layer False (ImportEnv (cfg_Imports (e_cfg e))) ''RBENV_ROOT'',
          layer False (deploy_env (e_base e) host (tc_Roles c)) ''RBENV_ROOT'', layer True (tc_GlobalEnvValues c) ''RBENV_ROOT'',
          layer False (cfg_EnvFileValues (e_cfg e)) ''RBENV_ROOT'']"
    by (rule v[THEN spec])
  moreover have "m_get te ''RBENV_ROOT'' = None"
    using assms(5) te by (simp add: m_get_None_iff) (metis image_set)
  ultimately show ?thesis by (simp add: first_of_def layer_def env_items_def)
qed

section \<open>A concrete plugin\<close>

definition ruby :: rbenv_params where
  "ruby = \<lparr>rb_Root = [], rb_RbenvRepo = [], rb_RubyBuildRepo = [], rb_DefaultGems = [''bundler'', ''bcat ~>0.6''],
     rb_DefaultGemsRepo = [], rb_Plugins = [\<lparr>xp_Name = ''rbenv-vars'', xp_Repo = ''https://x/v.git '', xp_Version = ''v1''\<rparr>],
     rb_Versions = [''3.3.0'', '' 3.3.0''], rb_ReadRubyVersion = None, rb_RubyVersionFile = [], rb_Prune = False,
     rb_Global = ''3.2.1'', rb_Update = False, rb_InstallRuby = None, rb_Shells = [], rb_BuildEnv = [(''MAKEOPTS'', ''-j 1''), (''RBENV_PRUNE'', ''1'')],
     rb_Roles = [], rb_InjectPath = None, rb_TaskName = [], rb_Phase = [], rb_When = []\<rparr>"

definition no_file :: "nat \<Rightarrow> string \<Rightarrow> string res" where "no_file w path = Inl (Text ''no such file'')"

definition ruby_cfg :: deploy_file where
  "ruby_cfg = fst (snd (rbenv_startup no_file ''script'' ruby zero_cfg 0))"

lemma ruby_ok: "fst (rbenv_startup no_file ''script'' ruby zero_cfg 0) = None"
  by code_simp

lemma ruby_start: "\<exists>secs w. rbenv_startup no_file ''script'' ruby zero_cfg 0 = (None, ruby_cfg, secs, w)"
  using ruby_ok by (cases "rbenv_startup no_file ''script'' ruby zero_cfg 0") (auto simp: ruby_cfg_def)

lemma rbenv_startup_spec_witness:
  "\<exists>versions env. set versions = {''3.3.0'', ''3.2.1''}
     \<and> m_get (cfg_Tasks ruby_cfg) ''rbenv:setup'' = Some (Some (setup_task ''script'' ruby env))
     \<and> m_get env ''RBENV_PRUNE'' = Some ''0'' \<and> m_get env ''MAKEOPTS'' = Some ''-j 1''"
proof -
  obtain secs w where s: "rbenv_startup no_file ''script'' ruby zero_cfg 0 = (None, ruby_cfg, secs, w)" using ruby_start by blast
  have n: "or_str defaultTaskName (rb_TaskName ruby) = ''rbenv:setup''" by code_simp
  have f: "readLocalRubyVersion no_file 0 (cfg_Dir zero_cfg) (or_str ''.ruby-version'' (rb_RubyVersionFile ruby)) = []"
    by (simp add: readLocalRubyVersion_def no_file_def)
  have v: "trim_space ` (set (rb_Versions ruby) \<union> {rb_Global ruby} \<union> {[]}) - {[]} = {''3.3.0'', ''3.2.1''}"
    by code_simp
  have d: "(if or_default (rb_ReadRubyVersion ruby) True then {[]} else {}) = {[]::string}"
    by (simp add: ruby_def or_default_def)
  obtain versions lines env where e: "set versions = {''3.3.0'', ''3.2.1''}"
    "m_get env = m_get (rb_BuildEnv ruby) ++ m_get (control_vars ruby (expandRoot (rb_Root ruby)) lines versions)"
    "m_get (cfg_Tasks ruby_cfg) = (m_get (cfg_Tasks zero_cfg))(''rbenv:setup'' \<mapsto> Some (setup_task ''script'' ruby env))"
    using rbenv_startup_spec[OF s] unfolding Let_def n f d v by auto
  have "m_get env ''RBENV_PRUNE'' = Some ''0'' \<and> m_get env ''MAKEOPTS'' = Some ''-j 1''"
    unfolding e(2) by (simp add: control_vars_def ruby_def boolStr_def map_add_def)
  moreover have "m_get (cfg_Tasks ruby_cfg) ''rbenv:setup'' = Some (Some (setup_task ''script'' ruby env))"
    unfolding e(3) by simp
  ultimately show ?thesis using e(1) by blast
qed

lemma renderExtraPlugins_roundtrip_witness:
  "\<exists>lines. renderExtraPlugins 0 (rb_Plugins ruby) = Inr lines
     \<and> map (split_on (CHR '' '')) (split_on nl (join_on [nl] lines)) = [[''rbenv-vars'', ''https://x/v.git'', ''v1'']]"
proof -
  have "is_ok (renderExtraPlugins 0 (rb_Plugins ruby))" by code_simp
  then obtain lines where l: "renderExtraPlugins 0 (rb_Plugins ruby) = Inr lines" by (auto simp: is_ok_def split: sum.splits)
  have "rb_Plugins ruby \<noteq> []" by (simp add: ruby_def)
  from renderExtraPlugins_roundtrip[OF l this]
  have "map (split_on (CHR '' '')) (split_on nl (join_on [nl] lines)) = map plugin_words (rb_Plugins ruby)" by blast
  also have "map plugin_words (rb_Plugins ruby) = [[''rbenv-vars'', ''https://x/v.git'', ''v1'']]"
    by (simp add: ruby_def plugin_words_def trim_space_def trim_left_def trim_right_def is_space_def)
  finally show ?thesis using l by (intro exI[of _ lines] conjI)
qed

definition ruby_exec :: "nat exec" where
  "ruby_exec = demo_exec\<lparr>e_cfg := (e_cfg demo_exec)\<lparr>cfg_Imports := cfg_Imports ruby_cfg\<rparr>\<rparr>"

lemma rbenv_later_root_witness:
  "\<exists>env e'. execEnv demo_ext ''w1'' zero_task ruby_exec = (Inr env, e')
     \<and> m_get env ''RBENV_ROOT'' = Some \<lparr>ev_Value = ''$HOME/.rbenv'', ev_Expand = False\<rparr>"
proof -
  obtain secs w where s: "rbenv_startup no_file ''script'' ruby zero_cfg 0 = (None, ruby_cfg, secs, w)" using ruby_start by blast
  have c: "cache_ok demo_ext ruby_exec" "e_ctxCache ruby_exec = Map.empty" "e_env ruby_exec = []"
    "cfg_Imports (e_cfg ruby_exec) = cfg_Imports ruby_cfg" "wf_map (cfg_EnvFileValues (e_cfg ruby_exec))"
    "wf_map (tc_GlobalEnvValues (e_base ruby_exec))"
    by (simp_all add: cache_ok_def ruby_exec_def demo_exec_def SetUnreachablePolicy_def New_executor_def zero_cfg_def base_context_def Let_def)
  have "\<exists>env e'. execEnv demo_ext ''w1'' zero_task ruby_exec = (Inr env, e')"
    by (simp add: execEnv_def renderContext_def c globalEnv_def zero_task_def Let_def)
  then obtain env e' where r: "execEnv demo_ext ''w1'' zero_task ruby_exec = (Inr env, e')" by blast
  have "expandRoot (rb_Root ruby) = ''$HOME/.rbenv''" by code_simp
  moreover have "wf_map (task_Envs zero_task)" "m_get (task_Envs zero_task) ''RBENV_ROOT'' = None" "wf_map (e_env ruby_exec)"
    "''RBENV_ROOT'' \<notin> fst ` set (import_entries (cfg_Imports zero_cfg))"
    using c(3) by (simp_all add: zero_task_def zero_cfg_def import_entries_def)
  ultimately show ?thesis using r rbenv_later_root[OF s c(4) _ r _ c(1,5) _ _ c(6)] by metis
qed

end
