(* ===== verification/Slack_Changelog.thy ===== *)
theory Slack_Changelog
  imports Lines
begin

text \<open>
  The changelog of the Slack plugin (\<open>plugins/slack/changelog.go\<close>): the commits of a deploy, read from the lines the
  deployer captured, their links, and the messages they are posted in. Parsing a URL (\<open>net/url\<close>) is a parameter
  that gives the parts the code uses.
\<close>

definition maxAttachmentsPerMessage :: nat where "maxAttachmentsPerMessage = 20"
definition defaultMaxCommits :: int where "defaultMaxCommits = 20"
definition maxCommitsCap :: int where "maxCommitsCap = 100"
definition changelogColor :: string where "changelogColor = ''#36a64f''"

record changelog_params =
  cl_Enabled :: bool
  cl_CommitURL :: string
  cl_Authors :: "string smap"
  cl_MaxCommits :: int

record commit =
  cm_SHA :: string
  cm_Author :: string
  cm_Email :: string
  cm_Subject :: string

record attach_field =
  af_Title :: string
  af_Value :: string
  af_Short :: bool

record attachment =
  at_Color :: string
  at_Text :: string
  at_Fallback :: string
  at_Title :: string
  at_TitleLink :: string
  at_AuthorName :: string
  at_Fields :: "attach_field list"
  at_MrkdwnIn :: "string list"

record url =
  u_Scheme :: string
  u_Host :: string
  u_Hostname :: string
  u_Path :: string

section \<open>Commits\<close>

definition sha_char :: "char \<Rightarrow> bool" where
  "sha_char c \<longleftrightarrow> (let n = of_char c :: nat in 48 \<le> n \<and> n \<le> 57 \<or> 97 \<le> n \<and> n \<le> 102)"

definition isCommitSHA_slack :: "string \<Rightarrow> bool" where
  "isCommitSHA_slack s \<longleftrightarrow> list_all sha_char s \<and> 7 \<le> length s \<and> length s \<le> 64"

text \<open>\<open>strings.SplitN\<close> with a one-character separator.\<close>

fun split_n :: "char \<Rightarrow> nat \<Rightarrow> string \<Rightarrow> string list" where
  "split_n c 0 s = []"
| "split_n c (Suc 0) s = [s]"
| "split_n c (Suc (Suc n)) s = (case cut c s of None \<Rightarrow> [s] | Some (a, b) \<Rightarrow> a # split_n c (Suc n) b)"

definition parse_commit :: "string \<Rightarrow> commit option" where
  "parse_commit line = (case split_n (CHR ''|'') 4 (trim_space line) of
      [sha, author, email, subject] \<Rightarrow>
        if isCommitSHA_slack sha then Some \<lparr>cm_SHA = sha, cm_Author = author, cm_Email = email, cm_Subject = subject\<rparr> else None
    | _ \<Rightarrow> None)"

fun parse_lines :: "nat \<Rightarrow> string list \<Rightarrow> commit list \<Rightarrow> commit list" where
  "parse_lines limit [] cs = cs"
| "parse_lines limit (l # ls) cs = (if length cs = limit then cs
     else (case parse_commit l of None \<Rightarrow> parse_lines limit ls cs | Some c \<Rightarrow> parse_lines limit ls (cs @ [c])))"

definition parseCommits :: "string \<Rightarrow> nat \<Rightarrow> commit list" where
  "parseCommits out limit = parse_lines limit (split_on nl out) []"

section \<open>Links\<close>

definition scp_like :: "string \<Rightarrow> bool" where
  "scp_like repo \<longleftrightarrow> contains_str repo ''@'' \<and> contains_str repo '':'' \<and> \<not> contains_str repo ''://''"

definition host_path :: "(string \<Rightarrow> url option) \<Rightarrow> string \<Rightarrow> string option" where
  "host_path parse repo =
     (if has_prefix repo ''https://'' \<or> has_prefix repo ''http://'' \<or> has_prefix repo ''ssh://'' then
        (case parse repo of None \<Rightarrow> None
         | Some u \<Rightarrow> Some ((if u_Scheme u = ''ssh'' then u_Hostname u else u_Host u) @ u_Path u))
      else if scp_like repo then
        (case cut (CHR ''@'') repo of None \<Rightarrow> None
         | Some (_, rest) \<Rightarrow> Some (case cut (CHR '':'') rest of None \<Rightarrow> rest | Some (a, b) \<Rightarrow> a @ ''/'' @ b))
      else None)"

definition deriveCommitURL :: "(string \<Rightarrow> url option) \<Rightarrow> string \<Rightarrow> string" where
  "deriveCommitURL parse repo =
     (case host_path parse (trim_suffix (trim_space repo) ''.git'') of
        None \<Rightarrow> []
      | Some raw \<Rightarrow> (let slash = (\<lambda>c. c = CHR ''/''); hostPath = trim_right slash (trim_left slash raw) in
          if length (filter slash hostPath) < 2 then [] else ''https://'' @ hostPath @ ''/commit/''))"

definition commitLink :: "string \<Rightarrow> string \<Rightarrow> string" where
  "commitLink base sha = (if base = [] then []
     else if contains_str base ''{hash}'' then replace_all ''{hash}'' sha base
     else base @ sha)"

section \<open>Messages\<close>

definition commit_attachment :: "string \<Rightarrow> string smap \<Rightarrow> commit \<Rightarrow> attachment" where
  "commit_attachment urlBase authors c =
     (let mention = (case m_get authors (map to_lower_char (cm_Email c)) of
          Some slackId \<Rightarrow> if slackId \<noteq> [] then ''<@'' @ slackId @ ''>'' else [] | None \<Rightarrow> []) in
      \<lparr>at_Color = changelogColor, at_Text = mention,
       at_Fallback = cm_Author c @ '' - '' @ cm_Subject c @ '' - '' @ cm_SHA c,
       at_Title = cm_Subject c, at_TitleLink = commitLink urlBase (cm_SHA c), at_AuthorName = cm_Author c,
       at_Fields = [], at_MrkdwnIn = (if mention \<noteq> [] then [''text''] else [])\<rparr>)"

definition changelogAttachments :: "commit list \<Rightarrow> string \<Rightarrow> string smap \<Rightarrow> attachment list" where
  "changelogAttachments commits urlBase authors = map (commit_attachment urlBase authors) commits"

text \<open>The loop over the rest; a message carries \<open>Suc k\<close> attachments.\<close>

function batch_loop :: "nat \<Rightarrow> 'a list \<Rightarrow> 'a list list" where
  "batch_loop k rest = (if rest = [] then [] else take (Suc k) rest # batch_loop k (drop (Suc k) rest))"
  by pat_completeness auto
termination by (relation "measure (length \<circ> snd)") auto

declare batch_loop.simps [simp del]

definition batchAttachments :: "'a \<Rightarrow> 'a list \<Rightarrow> nat \<Rightarrow> 'a list list" where
  "batchAttachments summary rest limit = (let first = min (length rest) (limit - 1) in
     ([summary] @ take first rest) # batch_loop (limit - 1) (drop first rest))"

definition changelogMax :: "changelog_params \<Rightarrow> nat" where
  "changelogMax p = nat (if cl_MaxCommits p \<le> 0 then defaultMaxCommits else min (cl_MaxCommits p) maxCommitsCap)"

definition commitURLBase :: "(string \<Rightarrow> url option) \<Rightarrow> changelog_params \<Rightarrow> string \<Rightarrow> string" where
  "commitURLBase parse p repo = (if cl_CommitURL p \<noteq> [] then cl_CommitURL p else deriveCommitURL parse repo)"

section \<open>What is posted\<close>

lemma batch_loop_parts: "concat (batch_loop k rest) = rest \<and> list_all (\<lambda>b. b \<noteq> [] \<and> length b \<le> Suc k) (batch_loop k rest)"
proof (induction k rest rule: batch_loop.induct)
  case (1 k rest)
  then show ?case by (subst (1 2) batch_loop.simps) (auto simp: append_take_drop_id)
qed

text \<open>
  The messages of a notification carry the summary first and then every commit once and in order, no message is empty
  and none has more attachments than it may.
\<close>

theorem batchAttachments_parts:
  assumes "0 < limit"
  shows "concat (batchAttachments a rest limit) = a # rest
    \<and> list_all (\<lambda>b. b \<noteq> [] \<and> length b \<le> limit) (batchAttachments a rest limit)"
proof -
  have "Suc (limit - 1) = limit" using assms by simp
  then show ?thesis using batch_loop_parts[of "limit - 1"] assms
    by (auto simp: batchAttachments_def Let_def list_all_iff)
qed

lemma parse_lines_take: "length cs \<le> limit \<Longrightarrow> parse_lines limit ls cs = take limit (cs @ List.map_filter parse_commit ls)"
proof (induction limit ls cs rule: parse_lines.induct)
  case (2 limit l ls cs)
  then show ?case by (auto simp: List.map_filter_simps split: option.split)
qed (simp add: List.map_filter_simps)

definition commit_line :: "commit \<Rightarrow> string" where
  "commit_line c = join_on ''|'' [cm_SHA c, cm_Author c, cm_Email c, cm_Subject c]"

definition commit_ok :: "commit \<Rightarrow> bool" where
  "commit_ok c \<longleftrightarrow> isCommitSHA_slack (cm_SHA c) \<and> CHR ''|'' \<notin> set (cm_Author c) \<and> CHR ''|'' \<notin> set (cm_Email c)
     \<and> nl \<notin> set (cm_Author c) \<and> nl \<notin> set (cm_Email c) \<and> nl \<notin> set (cm_Subject c)
     \<and> (cm_Subject c = [] \<or> \<not> is_space (last (cm_Subject c)))"

lemma sha_chars: "isCommitSHA_slack s \<Longrightarrow> c \<in> set s \<Longrightarrow> c \<noteq> CHR ''|'' \<and> c \<noteq> nl \<and> \<not> is_space c"
  by (auto simp: isCommitSHA_slack_def sha_char_def is_space_def nl_def list_all_iff Let_def)

lemma trim_none: "s = [] \<or> \<not> is_space (hd s) \<and> \<not> is_space (last s) \<Longrightarrow> trim_space s = s"
proof -
  assume s: "s = [] \<or> \<not> is_space (hd s) \<and> \<not> is_space (last s)"
  have d: "u = [] \<or> \<not> is_space (hd u) \<Longrightarrow> dropWhile is_space u = u" for u by (cases u) auto
  have "rev s = [] \<or> \<not> is_space (hd (rev s))" using s by (auto simp: hd_rev)
  then have "dropWhile is_space (rev s) = rev s" by (rule d)
  moreover have "dropWhile is_space s = s" using s by (intro d) auto
  ultimately show ?thesis by (simp add: trim_space_def trim_left_def trim_right_def)
qed

lemma cut_app: "c \<notin> set a \<Longrightarrow> cut c (a @ c # b) = Some (a, b)"
  by (simp add: cut_Some_iff)

lemma split_four: "c \<notin> set a \<Longrightarrow> c \<notin> set b \<Longrightarrow> c \<notin> set d \<Longrightarrow> split_n c 4 (a @ c # b @ c # d @ c # e) = [a, b, d, e]"
  by (simp add: eval_nat_numeral cut_app)

lemma parse_commit_line:
  assumes "commit_ok c"
  shows "parse_commit (commit_line c) = Some c" "nl \<notin> set (commit_line c)"
proof -
  have sha: "isCommitSHA_slack (cm_SHA c)" and s: "\<forall>d\<in>set (cm_SHA c). d \<noteq> CHR ''|'' \<and> d \<noteq> nl \<and> \<not> is_space d"
    using assms sha_chars by (auto simp: commit_ok_def)
  then obtain d ds where d: "cm_SHA c = d # ds" by (cases "cm_SHA c") (auto simp: isCommitSHA_slack_def)
  have bar: "\<not> is_space (CHR ''|'')" by (simp add: is_space_def)
  have "last (commit_line c) = (if cm_Subject c = [] then CHR ''|'' else last (cm_Subject c))"
    by (simp add: commit_line_def)
  then have "\<not> is_space (last (commit_line c))" using assms bar by (auto simp: commit_ok_def)
  moreover have "hd (commit_line c) = d" "commit_line c \<noteq> []" by (simp_all add: commit_line_def d)
  ultimately have t: "trim_space (commit_line c) = commit_line c"
    using s d by (intro trim_none) auto
  have "split_n (CHR ''|'') 4 (commit_line c) = [cm_SHA c, cm_Author c, cm_Email c, cm_Subject c]"
    using assms s unfolding commit_line_def commit_ok_def
    by (simp only: join_on.simps append_Cons append_Nil) (intro split_four, blast+)
  then show "parse_commit (commit_line c) = Some c" using t sha by (simp add: parse_commit_def)
  show "nl \<notin> set (commit_line c)" using assms s by (auto simp: commit_line_def commit_ok_def nl_def)
qed

text \<open>
  The changelog is read back as it was captured: from the lines of well-formed commits, in their order, come these
  commits, up to the limit; a bar in a subject is kept. From any text at most the limit many commits come, each with a
  well-formed revision.
\<close>

theorem parseCommits_roundtrip:
  "(list_all commit_ok cs \<longrightarrow> parseCommits (join_on [nl] (map commit_line cs)) limit = take limit cs)
   \<and> length (parseCommits out limit) \<le> limit \<and> list_all (isCommitSHA_slack \<circ> cm_SHA) (parseCommits out limit)"
proof (intro conjI impI)
  have p: "parseCommits out limit = take limit (List.map_filter parse_commit (split_on nl out))" for out
    by (simp add: parseCommits_def parse_lines_take)
  show "length (parseCommits out limit) \<le> limit" by (simp add: p)
  have "isCommitSHA_slack (cm_SHA c)" if "parse_commit l = Some c" for l c
    using that by (auto simp: parse_commit_def split: list.splits if_splits)
  then show "list_all (isCommitSHA_slack \<circ> cm_SHA) (parseCommits out limit)"
    by (auto simp: p list_all_iff List.map_filter_def dest!: in_set_takeD)
  assume ok: "list_all commit_ok cs"
  have "List.map_filter parse_commit (map commit_line cs) = cs"
    using ok by (induction cs) (auto simp: List.map_filter_simps parse_commit_line)
  moreover have "parse_commit [] = None"
    by (simp add: parse_commit_def trim_space_def trim_left_def trim_right_def cut_def numeral_eq_Suc)
  moreover have "split_on nl (join_on [nl] (map commit_line cs)) = map commit_line cs" if "cs \<noteq> []"
    using that ok parse_commit_line(2) by (intro split_join) (auto simp: list_all_iff)
  ultimately show "parseCommits (join_on [nl] (map commit_line cs)) limit = take limit cs"
    by (cases "cs = []") (simp_all add: p List.map_filter_simps)
qed

section \<open>Concrete commits\<close>

definition two_commits :: "commit list" where
  "two_commits = [\<lparr>cm_SHA = ''0a1b2c3'', cm_Author = ''Ann'', cm_Email = ''Ann@x.io'', cm_Subject = ''fix: a|b''\<rparr>,
     \<lparr>cm_SHA = ''ffffffff'', cm_Author = ''Bob'', cm_Email = ''bob@x.io'', cm_Subject = []\<rparr>]"

lemma parseCommits_roundtrip_witness:
  "parseCommits (join_on [nl] (map commit_line two_commits)) 1 = [hd two_commits]"
proof -
  have "list_all commit_ok two_commits" by code_simp
  then show ?thesis using parseCommits_roundtrip[of two_commits 1] by (simp add: two_commits_def)
qed

lemma batchAttachments_parts_witness:
  "map length (batchAttachments (0::nat) [1, 2, 3, 4, 5] 2) = [2, 2, 2]
   \<and> concat (batchAttachments (0::nat) [1, 2, 3, 4, 5] 2) = [0, 1, 2, 3, 4, 5]"
proof -
  have "map length (batchAttachments (0::nat) [1, 2, 3, 4, 5] 2) = [2, 2, 2]" by code_simp
  then show ?thesis using batchAttachments_parts[of 2 0 "[1::nat, 2, 3, 4, 5]"] by simp
qed

lemma scp_commit_url:
  "deriveCommitURL (\<lambda>u. None) '' git@github.com:org/repo.git'' = ''https://github.com/org/repo/commit/''"
  "commitLink ''https://x/{hash}?a'' ''0a1b2c3'' = ''https://x/0a1b2c3?a''"
  by code_simp+

end
