(* ===== verification/Slack.thy ===== *)
theory Slack
  imports Slack_Changelog Dotenv Steps Hooked_Tasks
begin

text \<open>
  The Slack plugin (\<open>plugins/slack\<close>: \<open>slack.go\<close>, \<open>send.go\<close>, \<open>github.go\<close>): its configuration, the notification tasks its
  startup hook adds, and the \<open>slack:send\<close> action as a program over the services of the executor.

  What the process keeps between calls (\<open>notifier\<close>: the start of the deploy and the looked-up name) is a part of the
  world that \<open>se_state\<close> and \<open>se_put\<close> read and write. Parameters are the decoding of parameter maps, URL, address and
  duration parsing, the clock, and the two HTTP requests; the body of a request is passed as the record it encodes.
  Log records of the plugin are left out.
\<close>

record slack_params =
  sk_WebhookURL :: string
  sk_WebhookStart :: string
  sk_WebhookSuccess :: string
  sk_WebhookFail :: string
  sk_WebhookRollback :: string
  sk_Channel :: string
  sk_Username :: string
  sk_IconEmoji :: string
  sk_RichFields :: bool
  sk_Changelog :: changelog_params
  sk_DeployerGithubLookup :: bool
  sk_NotifyStart :: "bool option"
  sk_NotifySuccess :: "bool option"
  sk_NotifyFail :: "bool option"
  sk_NotifyRollback :: bool
  sk_ColorStart :: string
  sk_ColorSuccess :: string
  sk_ColorFail :: string
  sk_ColorRollback :: string
  sk_MessageStart :: string
  sk_MessageSuccess :: string
  sk_MessageFail :: string
  sk_MessageRollback :: string
  sk_Timeout :: string

record send_params =
  sn_Message :: string
  sn_Color :: string
  sn_WebhookURL :: string
  sn_Channel :: string
  sn_Username :: string
  sn_IconEmoji :: string
  sn_Optional :: bool
  sn_Event :: string
  sn_RichFields :: bool
  sn_Stage :: string
  sn_Branch :: string
  sn_ReleasePath :: string
  sn_CommitHash :: string
  sn_Deployer :: string
  sn_Changelog :: string
  sn_Repo :: string
  sn_PreviousCommitHash :: string

record payload =
  py_Channel :: string
  py_Username :: string
  py_IconEmoji :: string
  py_Attachments :: "attachment list"

text \<open>\<open>NotDelivered\<close> carries the error without the URL a \<open>*url.Error\<close> adds to it.\<close>

datatype post_answer = NotBuilt goerr | NotDelivered goerr | Status int string

datatype user_answer = NoUser | UserStatus int "string option"

record notifier_state =
  ns_startedAt :: "int option"
  ns_ghName :: "string option"

record 'w slack_env =
  se_params :: "yval smap \<Rightarrow> slack_params res"
  se_send :: "yval smap \<Rightarrow> send_params res"
  se_url :: "string \<Rightarrow> url option"
  se_loopback :: "string \<Rightarrow> bool"
  se_duration :: "string \<Rightarrow> int option"
  se_escape :: "string \<Rightarrow> string"
  se_state :: "'w \<Rightarrow> notifier_state"
  se_put :: "notifier_state \<Rightarrow> 'w \<Rightarrow> 'w"
  se_now :: "'w \<Rightarrow> int"
  se_post :: "string \<Rightarrow> payload \<Rightarrow> 'w \<Rightarrow> post_answer \<times> 'w"
  se_user :: "string \<Rightarrow> 'w \<Rightarrow> user_answer \<times> 'w"

definition actionSend :: string where "actionSend = ''slack:send''"
definition taskNotifyStart :: string where "taskNotifyStart = ''slack:notify-start''"
definition taskNotifySuccess :: string where "taskNotifySuccess = ''slack:notify-success''"
definition taskNotifyFail :: string where "taskNotifyFail = ''slack:notify-fail''"
definition taskNotifyRollback :: string where "taskNotifyRollback = ''slack:notify-rollback''"

definition eventStarted :: string where "eventStarted = ''started''"
definition eventFinished :: string where "eventFinished = ''finished''"
definition eventFailed :: string where "eventFailed = ''failed''"
definition eventRollback :: string where "eventRollback = ''rollback''"

lemmas task_names = taskNotifyStart_def taskNotifySuccess_def taskNotifyFail_def taskNotifyRollback_def
lemmas event_names = eventStarted_def eventFinished_def eventFailed_def eventRollback_def

section \<open>Configuration\<close>

definition validateWebhookURL :: "'w slack_env \<Rightarrow> string \<Rightarrow> string \<Rightarrow> goerr option" where
  "validateWebhookURL se field raw = (let bad = Some (Text (''slack: '' @ field @ '' is not a valid http(s) URL'')) in
     case se_url se raw of None \<Rightarrow> bad
     | Some u \<Rightarrow> if u_Host u = [] \<or> u_Scheme u \<noteq> ''http'' \<and> u_Scheme u \<noteq> ''https'' then bad else None)"

definition isLoopback :: "'w slack_env \<Rightarrow> string \<Rightarrow> bool" where
  "isLoopback se host \<longleftrightarrow> host = ''localhost'' \<or> se_loopback se host"

fun check_webhooks :: "'w slack_env \<Rightarrow> (string \<times> string) list \<Rightarrow> goerr option \<times> string list" where
  "check_webhooks se [] = (None, [])"
| "check_webhooks se ((name, url) # es) =
     (if url = [] then check_webhooks se es
      else (case validateWebhookURL se name url of
          Some err \<Rightarrow> (Some err, [])
        | None \<Rightarrow> (case check_webhooks se es of (r, secs) \<Rightarrow> (r, url # secs))))"

fun normalize_authors :: "string smap \<Rightarrow> string smap \<Rightarrow> string smap res" where
  "normalize_authors [] authors = Inr authors"
| "normalize_authors ((email, slackId) # es) authors =
     (if trim_space slackId = []
      then Inl (Text (''slack: changelog.authors['' @ quoted email @ ''] has an empty Slack member ID''))
      else normalize_authors es (m_put (map to_lower_char email) slackId authors))"

text \<open>The time an outcome notification reports: \<open>Duration.Round(time.Second)\<close> and its text.\<close>

definition round_seconds :: "int \<Rightarrow> int" where
  "round_seconds d = (if d < 0 then - ((- d + 500000000) div 1000000000) else (d + 500000000) div 1000000000)"

definition seconds_text :: "int \<Rightarrow> string" where
  "seconds_text n =
     (if n < 60 then itoa n @ ''s''
      else if n < 3600 then itoa (n div 60) @ ''m'' @ itoa (n mod 60) @ ''s''
      else itoa (n div 3600) @ ''h'' @ itoa (n mod 3600 div 60) @ ''m'' @ itoa (n mod 60) @ ''s'')"

definition duration_text :: "int \<Rightarrow> string" where
  "duration_text n = (if n < 0 then ''-'' @ seconds_text (- n) else seconds_text n)"

definition elapsed :: "'w slack_env \<Rightarrow> 'w \<Rightarrow> string option" where
  "elapsed se w = map_option (\<lambda>s. duration_text (round_seconds (se_now se w - s))) (ns_startedAt (se_state se w))"

section \<open>Requests\<close>

definition mask_attachment :: "(string \<Rightarrow> string) \<Rightarrow> attachment \<Rightarrow> attachment" where
  "mask_attachment m a = a\<lparr>at_Text := m (at_Text a), at_Fallback := m (at_Fallback a), at_Title := m (at_Title a),
     at_TitleLink := m (at_TitleLink a), at_AuthorName := m (at_AuthorName a),
     at_Fields := map (\<lambda>f. f\<lparr>af_Value := m (af_Value f)\<rparr>) (at_Fields a)\<rparr>"

definition masked :: "(string \<Rightarrow> string) \<Rightarrow> payload \<Rightarrow> payload" where
  "masked m pl = pl\<lparr>py_Attachments := map (mask_attachment m) (py_Attachments pl)\<rparr>"

definition post_error :: "post_answer \<Rightarrow> goerr option" where
  "post_error a = (case a of
      NotBuilt err \<Rightarrow> Some (wrapf ''build webhook request'' err)
    | NotDelivered err \<Rightarrow> Some (wrapf ''post to webhook'' err)
    | Status st body \<Rightarrow> if st div 100 = 2 then None
        else Some (Text (''webhook returned '' @ itoa st @ '': '' @ trim_space (take 4096 body))))"

definition slack_post :: "'w slack_env \<Rightarrow> string \<Rightarrow> payload \<Rightarrow> (goerr option \<Rightarrow> 'w prog) \<Rightarrow> 'w prog" where
  "slack_post se url pl k = Mask (\<lambda>m. World (\<lambda>w. case se_post se url (masked m pl) w of (a, w') \<Rightarrow> (k (post_error a), w')))"

definition githubUserName :: "'w slack_env \<Rightarrow> string \<Rightarrow> 'w \<Rightarrow> string \<times> 'w" where
  "githubUserName se login w = (case se_user se (''https://api.github.com/users/'' @ se_escape se login) w of
     (a, w') \<Rightarrow> ((case a of NoUser \<Rightarrow> []
        | UserStatus st name \<Rightarrow> if st \<noteq> 200 then [] else (case name of None \<Rightarrow> [] | Some n \<Rightarrow> trim_space n)), w'))"

definition lookup_name :: "'w slack_env \<Rightarrow> string \<Rightarrow> 'w \<Rightarrow> string \<times> 'w" where
  "lookup_name se login w = (case ns_ghName (se_state se w) of
      Some name \<Rightarrow> (name, w)
    | None \<Rightarrow> (case githubUserName se login w of (name, w') \<Rightarrow> (name, se_put se ((se_state se w')\<lparr>ns_ghName := Some name\<rparr>) w')))"

definition displayDeployer :: "'w slack_env \<Rightarrow> slack_params \<Rightarrow> string \<Rightarrow> (string \<Rightarrow> 'w prog) \<Rightarrow> 'w prog" where
  "displayDeployer se p login k =
     (if \<not> sk_DeployerGithubLookup p \<or> login = [] \<or> list_ex (\<lambda>c. of_char c \<in> {32, 9 :: nat}) login then k login
      else World (\<lambda>w. case lookup_name se login w of (name, w') \<Rightarrow> (k (or_str login name), w')))"

section \<open>The action\<close>

definition webhookFor :: "slack_params \<Rightarrow> string \<Rightarrow> string" where
  "webhookFor p event = or_str (sk_WebhookURL p)
     (if event = eventStarted then sk_WebhookStart p
      else if event = eventFinished then sk_WebhookSuccess p
      else if event = eventFailed then sk_WebhookFail p
      else if event = eventRollback then sk_WebhookRollback p else [])"

definition is_outcome :: "send_params \<Rightarrow> bool" where
  "is_outcome sp \<longleftrightarrow> sn_Event sp = eventFinished \<or> sn_Event sp = eventFailed"

definition send_commits :: "slack_params \<Rightarrow> send_params \<Rightarrow> commit list" where
  "send_commits p sp = (if sn_Event sp = eventFinished \<and> cl_Enabled (sk_Changelog p)
     then parseCommits (sn_Changelog sp) (changelogMax (sk_Changelog p)) else [])"

definition message_text :: "slack_params \<Rightarrow> send_params \<Rightarrow> string option \<Rightarrow> string" where
  "message_text p sp took =
     sn_Message sp
     @ (case took of Some d \<Rightarrow> if is_outcome sp \<and> \<not> sn_RichFields sp then '' in '' @ d else [] | None \<Rightarrow> [])
     @ (if sn_Event sp = eventFinished \<and> cl_Enabled (sk_Changelog p) \<and> send_commits p sp = []
          \<and> isCommitSHA_slack (sn_PreviousCommitHash sp) \<and> sn_PreviousCommitHash sp = sn_CommitHash sp
        then [nl] @ ''_No changes since the previous release._'' else [])"

definition fields_of :: "send_params \<Rightarrow> string \<Rightarrow> string option \<Rightarrow> attach_field list" where
  "fields_of sp user took = map (\<lambda>(title, v). \<lparr>af_Title = title, af_Value = v, af_Short = True\<rparr>)
     (filter (\<lambda>(title, v). v \<noteq> [])
       [(''User'', user), (''Stage'', sn_Stage sp), (''Branch'', sn_Branch sp), (''Revision'', take 7 (sn_CommitHash sp)),
        (''Duration'', or_default took []), (''Release'', sn_ReleasePath sp)])"

definition richFields :: "'w slack_env \<Rightarrow> slack_params \<Rightarrow> send_params \<Rightarrow> (attach_field list \<Rightarrow> 'w prog) \<Rightarrow> 'w prog" where
  "richFields se p sp k = displayDeployer se p (sn_Deployer sp)
     (\<lambda>user. World (\<lambda>w. (k (fields_of sp user (elapsed se w)), w)))"

definition send_batches :: "'w slack_env \<Rightarrow> slack_params \<Rightarrow> send_params \<Rightarrow> string \<Rightarrow> attach_field list \<Rightarrow> attachment list list" where
  "send_batches se p sp msg flds =
     (let att = \<lparr>at_Color = sn_Color sp, at_Text = msg, at_Fallback = msg, at_Title = [], at_TitleLink = [],
            at_AuthorName = [], at_Fields = flds, at_MrkdwnIn = [''text'']\<rparr>;
          commits = send_commits p sp in
      if commits = [] then [[att]]
      else batchAttachments att (changelogAttachments commits (commitURLBase (se_url se) (sk_Changelog p) (sn_Repo sp))
        (cl_Authors (sk_Changelog p))) maxAttachmentsPerMessage)"

definition send_payload :: "slack_params \<Rightarrow> send_params \<Rightarrow> attachment list \<Rightarrow> payload" where
  "send_payload p sp atts = \<lparr>py_Channel = or_str (sk_Channel p) (sn_Channel sp), py_Username = or_str (sk_Username p) (sn_Username sp),
     py_IconEmoji = or_str (sk_IconEmoji p) (sn_IconEmoji sp), py_Attachments = atts\<rparr>"

text \<open>The continuations: the first failure stops them, the notification still counts as sent.\<close>

fun post_rest :: "'w slack_env \<Rightarrow> string \<Rightarrow> payload list \<Rightarrow> 'w prog" where
  "post_rest se url [] = Ret None"
| "post_rest se url (pl # pls) = slack_post se url pl (\<lambda>r. case r of Some _ \<Rightarrow> Ret None | None \<Rightarrow> post_rest se url pls)"

definition best_effort :: "send_params \<Rightarrow> bool" where
  "best_effort sp \<longleftrightarrow> sn_Event sp \<noteq> [] \<or> sn_Optional sp"

definition post_batches :: "'w slack_env \<Rightarrow> slack_params \<Rightarrow> send_params \<Rightarrow> string \<Rightarrow> attachment list list \<Rightarrow> 'w prog" where
  "post_batches se p sp url batches = slack_post se url (send_payload p sp (hd batches))
     (\<lambda>r. case r of
        None \<Rightarrow> post_rest se url (map (send_payload p sp) (tl batches))
      | Some err \<Rightarrow> if best_effort sp then Ret None else Ret (Some (wrapf ''slack:send'' err)))"

definition deliver :: "'w slack_env \<Rightarrow> slack_params \<Rightarrow> send_params \<Rightarrow> string \<Rightarrow> 'w prog" where
  "deliver se p sp url = World (\<lambda>w. (let msg = message_text p sp (elapsed se w) in
     if is_outcome sp \<and> sn_RichFields sp
     then richFields se p sp (\<lambda>flds. post_batches se p sp url (send_batches se p sp msg flds))
     else post_batches se p sp url (send_batches se p sp msg []), w))"

definition send :: "'w slack_env \<Rightarrow> slack_params \<Rightarrow> 'w action" where
  "send se p raw = (case se_send se raw of
      Inl err \<Rightarrow> Ret (Some (wrapf ''slack:send params'' err))
    | Inr sp \<Rightarrow>
        if trim_space (sn_Message sp) = [] then Ret (Some (Text (''slack:send: '' @ [sq] @ ''message'' @ [sq] @ '' is required'')))
        else if sn_WebhookURL sp = [] then deliver se p sp (webhookFor p (sn_Event sp))
        else (case validateWebhookURL se ''with: webhook_url'' (sn_WebhookURL sp) of
            Some err \<Rightarrow> Ret (Some err)
          | None \<Rightarrow> Secret (sn_WebhookURL sp) (deliver se p sp (sn_WebhookURL sp))))"

section \<open>Startup\<close>

record notification =
  nt_name :: string
  nt_desc :: string
  nt_event :: string
  nt_message :: string
  nt_color :: string
  nt_phase :: string
  nt_before :: bool

definition slack_hook :: hook_func where "slack_hook = HookFunc ''slack:timer''"

text \<open>What the registered hook function does: it records the start of the deploy.\<close>

definition slack_timer :: "'w slack_env \<Rightarrow> 'w \<Rightarrow> goerr option \<times> 'w" where
  "slack_timer se w = (None, se_put se ((se_state se w)\<lparr>ns_startedAt := Some (se_now se w)\<rparr>) w)"

definition notifications :: "slack_params \<Rightarrow> notification list" where
  "notifications p =
     (if or_default (sk_NotifyStart p) True then [\<lparr>nt_name = taskNotifyStart, nt_desc = ''Notify Slack: deploy started'',
        nt_event = eventStarted, nt_message = or_str ('':rocket: *{{.app_name}}* deploy to *{{.stage}}* started (release {{.release_timestamp}})'')
          (sk_MessageStart p), nt_color = or_str ''#439FE0'' (sk_ColorStart p), nt_phase = PhaseStarting, nt_before = True\<rparr>] else [])
   @ (if or_default (sk_NotifySuccess p) True then [\<lparr>nt_name = taskNotifySuccess, nt_desc = ''Notify Slack: deploy succeeded'',
        nt_event = eventFinished, nt_message = or_str ('':white_check_mark: *{{.app_name}}* deployed to *{{.stage}}* ({{ trunc 7 .commit_hash }}, release {{.release_timestamp}})'')
          (sk_MessageSuccess p), nt_color = or_str ''good'' (sk_ColorSuccess p), nt_phase = PhaseFinished, nt_before = False\<rparr>] else [])
   @ (if or_default (sk_NotifyFail p) True then [\<lparr>nt_name = taskNotifyFail, nt_desc = ''Notify Slack: deploy failed'',
        nt_event = eventFailed, nt_message = or_str ('':x: *{{.app_name}}* deploy to *{{.stage}}* failed: {{.error}}'')
          (sk_MessageFail p), nt_color = or_str ''danger'' (sk_ColorFail p), nt_phase = PhaseFailed, nt_before = False\<rparr>] else [])
   @ (if sk_NotifyRollback p then [\<lparr>nt_name = taskNotifyRollback, nt_desc = ''Notify Slack: rollback'',
        nt_event = eventRollback, nt_message = or_str ('':leftwards_arrow_with_hook: *{{.app_name}}* on *{{.stage}}* rolled back'')
          (sk_MessageRollback p), nt_color = or_str ''warning'' (sk_ColorRollback p), nt_phase = PhaseRollback, nt_before = False\<rparr>] else [])"

definition notify_task :: "notification \<Rightarrow> task" where
  "notify_task n = zero_task\<lparr>task_Desc := nt_desc n, task_Hidden := True, task_Silent := True, task_Action := actionSend,
     task_With := [(''event'', YStr (nt_event n)), (''message'', YStr (nt_message n)), (''color'', YStr (nt_color n))]\<rparr>"

definition add_notification :: "notification \<Rightarrow> deploy_file \<Rightarrow> deploy_file" where
  "add_notification n cfg = (if nt_before n then AddHookBefore else AddHookAfter) (nt_phase n) [nt_name n]
     (AddTask (nt_name n) (Some (notify_task n)) cfg)"

text \<open>\<open>t.With[k] = v\<close> for the entries of a list, when the task is there.\<close>

definition with_entries :: "(string \<times> string) list \<Rightarrow> string \<Rightarrow> deploy_file \<Rightarrow> deploy_file" where
  "with_entries kvs name cfg = (case m_get (cfg_Tasks cfg) name of
      Some (Some t) \<Rightarrow> AddTask name (Some (t\<lparr>task_With := fold (\<lambda>(k, v). m_put k (YStr v)) kvs (task_With t)\<rparr>)) cfg
    | _ \<Rightarrow> cfg)"

definition rich_flag :: "string \<Rightarrow> deploy_file \<Rightarrow> deploy_file" where
  "rich_flag name cfg = (case m_get (cfg_Tasks cfg) name of
      Some (Some t) \<Rightarrow> AddTask name (Some (t\<lparr>task_With := m_put ''rich_fields'' (YBool True) (task_With t)\<rparr>)) cfg
    | _ \<Rightarrow> cfg)"

definition rich_entries :: "(string \<times> string) list" where
  "rich_entries = [(''stage'', ''{{.stage}}''), (''branch'', ''{{.branch}}''), (''release_path'', ''{{.release_path}}''),
     (''commit_hash'', ''{{.commit_hash}}''), (''deployer'', ''{{ index . \"deployer\" }}'')]"

definition changelog_entries :: "(string \<times> string) list" where
  "changelog_entries = [(''repo'', ''{{.repo}}''), (''commit_hash'', ''{{.commit_hash}}''),
     (''changelog'', ''{{ index . \"changelog\" }}''), (''previous_commit_hash'', ''{{ index . \"previous_commit_hash\" }}'')]"

definition literal_webhook :: "task option \<Rightarrow> string list" where
  "literal_webhook t = (case t of None \<Rightarrow> []
    | Some t \<Rightarrow> if task_Action t \<noteq> actionSend then []
        else (case m_get (task_With t) ''webhook_url'' of
            Some (YStr wu) \<Rightarrow> if wu \<noteq> [] \<and> \<not> contains_str wu ''{{'' then [wu] else []
          | _ \<Rightarrow> []))"

definition slack_install :: "slack_params \<Rightarrow> 'w startup" where
  "slack_install p cfg w =
     (let cfg1 = AddHookFuncBefore PhaseStarting slack_hook cfg;
          secs = concat (map (literal_webhook \<circ> snd) (cfg_Tasks cfg1));
          cfg2 = fold add_notification (notifications p) cfg1;
          cfg3 = (if sk_RichFields p then fold (\<lambda>name. with_entries rich_entries name \<circ> rich_flag name)
            [taskNotifySuccess, taskNotifyFail] cfg2 else cfg2);
          cfg4 = (if cl_Enabled (sk_Changelog p) then with_entries changelog_entries taskNotifySuccess cfg3 else cfg3)
      in (None, cfg4, secs, w))"

definition slack_Configure :: "'w slack_env \<Rightarrow> plugin_spec \<Rightarrow> 'w plugin_registry \<Rightarrow> 'w
    \<Rightarrow> goerr option \<times> 'w plugin_registry \<times> string list \<times> 'w" where
  "slack_Configure se spec reg w = (case se_params se (ps_Params spec) of
      Inl err \<Rightarrow> (Some (wrapf ''slack params'' err), reg, [], w)
    | Inr p \<Rightarrow>
        if sk_WebhookURL p = [] then (Some (Text (''slack: webhook_url is required (e.g. webhook_url: '' @ [sq]
          @ ''{{ env \"SLACK_WEBHOOK_URL\" }}'' @ [sq] @ '' with SLACK_WEBHOOK_URL exported)'')), reg, [], w)
        else (case validateWebhookURL se ''webhook_url'' (sk_WebhookURL p) of
          Some err \<Rightarrow> (Some err, reg, [], w)
        | None \<Rightarrow> (case ps_Actions spec of
            a # _ \<Rightarrow> (Some (Text (''slack: unknown feature '' @ quoted (pa_Name a)
              @ '' under actions: (the plugin is configured via params: only)'')), reg, [], w)
          | [] \<Rightarrow>
            if sk_Timeout p \<noteq> [] \<and> (case se_duration se (sk_Timeout p) of None \<Rightarrow> True | Some d \<Rightarrow> d \<le> 0)
            then (Some (Text (''slack: invalid timeout '' @ quoted (sk_Timeout p) @ '' (want a positive Go duration, e.g. \"10s\")'')), reg, [], w)
            else (case check_webhooks se [(''webhook_start'', sk_WebhookStart p), (''webhook_success'', sk_WebhookSuccess p),
                (''webhook_fail'', sk_WebhookFail p), (''webhook_rollback'', sk_WebhookRollback p)] of
              (Some err, secs) \<Rightarrow> (Some err, reg, secs, w)
            | (None, secs) \<Rightarrow> (let secs = secs @ [sk_WebhookURL p] in
                if cl_MaxCommits (sk_Changelog p) < 0
                then (Some (Text ''slack: changelog.max_commits must not be negative''), reg, secs, w)
                else (case normalize_authors (cl_Authors (sk_Changelog p)) [] of
                  Inl err \<Rightarrow> (Some err, reg, secs, w)
                | Inr authors \<Rightarrow>
                  (let p1 = p\<lparr>sk_Changelog := (sk_Changelog p)\<lparr>cl_Authors := authors\<rparr>\<rparr> in
                   case AddAction actionSend (send se p1) reg of
                     (Some err, reg1) \<Rightarrow> (Some err, reg1, secs, w)
                   | (None, reg1) \<Rightarrow> (None, AddStartup (slack_install p1) reg1, secs, w))))))))"

definition slack_plugin :: "'w slack_env \<Rightarrow> 'w plugin" where
  "slack_plugin se = \<lparr>pl_Configure = slack_Configure se, pl_Version = Some ''1.1.0'', pl_Commands = None\<rparr>"

section \<open>Running the action\<close>

text \<open>The masking an action is given, and a request as a step of the executor's state.\<close>

definition masking_of :: "('t, 'w) ext \<Rightarrow> 'w exec \<Rightarrow> string \<Rightarrow> string" where
  "masking_of x e = mask_String (x_disabled x) (x_rules x) (e_secrets e)"

lemma run_post: "run_prog x t hosts (slack_post se url pl k) e = (case se_post se url (masked (masking_of x e) pl) (e_world e) of
    (a, w') \<Rightarrow> run_prog x t hosts (k (post_error a)) (e\<lparr>e_world := w'\<rparr>))"
  by (simp add: slack_post_def masking_of_def split: prod.split)

lemma run_rest_ok: "fst (run_prog x t hosts (post_rest se url pls) e) = None"
  by (induction pls arbitrary: e) (auto simp: run_post split: prod.split option.split)

lemma run_batches: "fst (run_prog x t hosts (post_batches se p sp url bs) e) = (case post_error (fst (se_post se url
      (masked (masking_of x e) (send_payload p sp (hd bs))) (e_world e))) of
    None \<Rightarrow> None | Some err \<Rightarrow> if best_effort sp then None else Some (wrapf ''slack:send'' err))"
  by (auto simp: post_batches_def run_post run_rest_ok split: prod.split option.split)

lemma run_deployer: "\<exists>name w. run_prog x t hosts (displayDeployer se p login k) e = run_prog x t hosts (k name) (e\<lparr>e_world := w\<rparr>)"
proof (cases "\<not> sk_DeployerGithubLookup p \<or> login = [] \<or> list_ex (\<lambda>c. of_char c \<in> {32, 9 :: nat}) login")
  case True
  have "e\<lparr>e_world := e_world e\<rparr> = e" by simp
  then have "run_prog x t hosts (displayDeployer se p login k) e = run_prog x t hosts (k login) (e\<lparr>e_world := e_world e\<rparr>)"
    using True by (auto simp: displayDeployer_def)
  then show ?thesis by blast
next
  case False
  then show ?thesis by (auto simp: displayDeployer_def split: prod.split)
qed

lemma run_deliver: "\<exists>flds w. run_prog x t hosts (deliver se p sp url) e
    = run_prog x t hosts (post_batches se p sp url (send_batches se p sp (message_text p sp (elapsed se (e_world e))) flds)) (e\<lparr>e_world := w\<rparr>)"
proof (cases "is_outcome sp \<and> sn_RichFields sp")
  case True
  let ?msg = "message_text p sp (elapsed se (e_world e))"
  let ?k = "\<lambda>flds. post_batches se p sp url (send_batches se p sp ?msg flds)"
  obtain name w where "run_prog x t hosts (richFields se p sp ?k) (e\<lparr>e_world := e_world e\<rparr>)
      = run_prog x t hosts (World (\<lambda>w. (?k (fields_of sp name (elapsed se w)), w))) (e\<lparr>e_world := e_world e\<rparr>\<lparr>e_world := w\<rparr>)"
    using run_deployer[of x t hosts se p "sn_Deployer sp" "\<lambda>user. World (\<lambda>w. (?k (fields_of sp user (elapsed se w)), w))"
      "e\<lparr>e_world := e_world e\<rparr>"] unfolding richFields_def by blast
  then show ?thesis using True by (auto simp: deliver_def)
next
  case False
  have "run_prog x t hosts (deliver se p sp url) e = run_prog x t hosts (post_batches se p sp url
      (send_batches se p sp (message_text p sp (elapsed se (e_world e))) [])) (e\<lparr>e_world := e_world e\<rparr>)"
    using False by (auto simp: deliver_def)
  then show ?thesis by blast
qed

text \<open>The one message of a notification that is not best effort: the rendered text, no fields, no changelog.\<close>

definition plain_message :: "slack_params \<Rightarrow> send_params \<Rightarrow> payload" where
  "plain_message p sp = send_payload p sp [\<lparr>at_Color = sn_Color sp, at_Text = sn_Message sp, at_Fallback = sn_Message sp,
     at_Title = [], at_TitleLink = [], at_AuthorName = [], at_Fields = [], at_MrkdwnIn = [''text'']\<rparr>]"

lemma deliver_plain:
  assumes "\<not> best_effort sp"
  shows "run_prog x t hosts (deliver se p sp url) e = (case se_post se url (masked (masking_of x e) (plain_message p sp)) (e_world e) of
    (a, w) \<Rightarrow> (map_option (wrapf ''slack:send'') (post_error a), e\<lparr>e_world := w\<rparr>))"
proof -
  have "sn_Event sp = []" using assms by (simp add: best_effort_def)
  then have ev: "\<not> is_outcome sp" "sn_Event sp \<noteq> eventFinished" by (simp_all add: is_outcome_def event_names)
  have msg: "message_text p sp took = sn_Message sp" for took
    using ev by (simp add: message_text_def split: option.split)
  have "send_batches se p sp m [] = [[\<lparr>at_Color = sn_Color sp, at_Text = m, at_Fallback = m, at_Title = [], at_TitleLink = [],
      at_AuthorName = [], at_Fields = [], at_MrkdwnIn = [''text'']\<rparr>]]" for m
    using ev by (simp add: send_batches_def send_commits_def)
  then show ?thesis
    using assms ev by (simp add: deliver_def Let_def msg post_batches_def run_post plain_message_def split: prod.split option.split)
qed

text \<open>
  C27. Whatever the webhook answers, a notification the plugin adds itself, or one marked optional, never fails its task
  once it is accepted to be sent: its parameters decode, its message is not blank and its own webhook, if it names one, is a
  URL of the web. Any other notification is one message, posted once, masked, with the text of the task and neither
  fields nor changelog, and it fails exactly when that post is not answered with a success, with the error of the post.
  What is not accepted is an error in every case, and nothing is posted.
\<close>

theorem send_best_effort:
  "case se_send se raw of
     Inl err \<Rightarrow> run_prog x t hosts (send se p raw) e = (Some (wrapf ''slack:send params'' err), e)
   | Inr sp \<Rightarrow>
       if trim_space (sn_Message sp) = []
         \<or> sn_WebhookURL sp \<noteq> [] \<and> validateWebhookURL se ''with: webhook_url'' (sn_WebhookURL sp) \<noteq> None
       then \<exists>err. run_prog x t hosts (send se p raw) e = (Some err, e)
       else if best_effort sp then fst (run_prog x t hosts (send se p raw) e) = None
       else (let url = (if sn_WebhookURL sp = [] then webhookFor p (sn_Event sp) else sn_WebhookURL sp);
                 e1 = (if sn_WebhookURL sp = [] then e else add_secrets [url] e) in
         run_prog x t hosts (send se p raw) e = (case se_post se url (masked (masking_of x e1) (plain_message p sp)) (e_world e1) of
           (a, w) \<Rightarrow> (map_option (wrapf ''slack:send'') (post_error a), e1\<lparr>e_world := w\<rparr>)))"
proof (cases "se_send se raw")
  case (Inr sp)
  have opt: "fst (run_prog x t hosts (deliver se p sp url) e') = None" if b: "best_effort sp" for url e'
  proof -
    obtain flds w where d: "run_prog x t hosts (deliver se p sp url) e' = run_prog x t hosts (post_batches se p sp url
        (send_batches se p sp (message_text p sp (elapsed se (e_world e'))) flds)) (e'\<lparr>e_world := w\<rparr>)"
      using run_deliver[of x t hosts se p sp url e'] by blast
    show ?thesis unfolding d run_batches using b by (simp split: option.split)
  qed
  show ?thesis
    using Inr by (auto simp: send_def opt deliver_plain Let_def split: option.split)
qed (simp add: send_def)

section \<open>What leaves the process\<close>

definition attachment_texts :: "attachment \<Rightarrow> string list" where
  "attachment_texts a = [at_Text a, at_Fallback a, at_Title a, at_TitleLink a, at_AuthorName a] @ map af_Value (at_Fields a)"

definition clean :: "string \<Rightarrow> payload \<Rightarrow> bool" where
  "clean v pl \<longleftrightarrow> list_all (\<lambda>a. list_all (\<lambda>s. \<not> contains_str s v) (attachment_texts a)) (py_Attachments pl)"

lemma masked_clean: "(\<And>s. \<not> contains_str (m s) v) \<Longrightarrow> clean v (masked m pl)"
  by (auto simp: clean_def masked_def mask_attachment_def attachment_texts_def list_all_iff)

text \<open>The state of a run in which the secret is registered and a property of the world holds.\<close>

definition guarded :: "('t, 'w) ext \<Rightarrow> string \<Rightarrow> ('w \<Rightarrow> bool) \<Rightarrow> 'w exec \<Rightarrow> bool" where
  "guarded x v P e \<longleftrightarrow> \<not> x_disabled x \<and> list_all (line_rule v) (x_rules x) \<and> plain_secret v \<and> registry_ok (e_secrets e)
     \<and> v \<in> set (secrets (e_secrets e)) \<and> P (e_world e)"

text \<open>A property that requests without the secret, the lookup of a name and the notes of the process keep.\<close>

definition kept_by :: "'w slack_env \<Rightarrow> string \<Rightarrow> ('w \<Rightarrow> bool) \<Rightarrow> bool" where
  "kept_by se v P \<longleftrightarrow> (\<forall>u pl w. clean v pl \<longrightarrow> P w \<longrightarrow> P (snd (se_post se u pl w)))
     \<and> (\<forall>login w. P w \<longrightarrow> P (snd (se_user se login w))) \<and> (\<forall>s w. P w \<longrightarrow> P (se_put se s w))"

lemma guarded_world: "guarded x v P e \<Longrightarrow> P w \<Longrightarrow> guarded x v P (e\<lparr>e_world := w\<rparr>)"
  by (simp add: guarded_def)

lemma guarded_masks: "guarded x v P e \<Longrightarrow> clean v (masked (masking_of x e) pl)"
  using mask_line(1)[of "e_secrets e" v "x_rules x"] by (intro masked_clean) (auto simp: guarded_def masking_of_def)

lemma post_keeps:
  assumes "kept_by se v P" "guarded x v P e" "\<And>r e. guarded x v P e \<Longrightarrow> P (e_world (snd (run_prog x t hosts (k r) e)))"
  shows "P (e_world (snd (run_prog x t hosts (slack_post se url pl k) e)))"
proof -
  obtain a w where a: "se_post se url (masked (masking_of x e) pl) (e_world e) = (a, w)" by fastforce
  have "P (snd (se_post se url (masked (masking_of x e) pl) (e_world e)))"
    using assms(1,2) guarded_masks[OF assms(2)] unfolding kept_by_def guarded_def by blast
  then show ?thesis using assms(3)[OF guarded_world[OF assms(2)]] a by (simp add: run_post)
qed

lemma rest_keeps: "kept_by se v P \<Longrightarrow> guarded x v P e \<Longrightarrow> P (e_world (snd (run_prog x t hosts (post_rest se url pls) e)))"
proof (induction pls arbitrary: e)
  case (Cons pl pls)
  show ?case unfolding post_rest.simps
  proof (rule post_keeps[OF Cons.prems])
    fix r and e1 :: "'a exec"
    assume "guarded x v P e1"
    then show "P (e_world (snd (run_prog x t hosts (case r of None \<Rightarrow> post_rest se url pls | Some x \<Rightarrow> Ret None) e1)))"
      using Cons.IH[OF Cons.prems(1)] by (cases r) (auto simp: guarded_def)
  qed
qed (simp add: guarded_def)

lemma batches_keep:
  assumes "kept_by se v P" "guarded x v P e"
  shows "P (e_world (snd (run_prog x t hosts (post_batches se p sp url bs) e)))"
  unfolding post_batches_def
proof (rule post_keeps[OF assms])
  fix r and e1 :: "'a exec"
  assume g: "guarded x v P e1"
  then have "P (e_world e1)" by (simp add: guarded_def)
  then show "P (e_world (snd (run_prog x t hosts (case r of None \<Rightarrow> post_rest se url (map (send_payload p sp) (tl bs))
      | Some err \<Rightarrow> if best_effort sp then Ret None else Ret (Some (wrapf ''slack:send'' err))) e1)))"
    using rest_keeps[OF assms(1) g] by (cases r) simp_all
qed

lemma lookup_keeps:
  assumes "kept_by se v P" "P w"
  shows "P (snd (lookup_name se login w))"
proof (cases "ns_ghName (se_state se w)")
  case None
  obtain a w1 where a: "se_user se (''https://api.github.com/users/'' @ se_escape se login) w = (a, w1)" by fastforce
  have "P (snd (se_user se (''https://api.github.com/users/'' @ se_escape se login) w))"
    using assms unfolding kept_by_def by blast
  then have "P (se_put se s w1)" for s using assms(1) a unfolding kept_by_def by simp
  then show ?thesis using None a by (simp add: lookup_name_def githubUserName_def)
qed (simp add: lookup_name_def assms(2))

lemma deliver_keeps:
  assumes "kept_by se v P" "guarded x v P e"
  shows "P (e_world (snd (run_prog x t hosts (deliver se p sp url) e)))"
proof -
  have P: "P (e_world e)" using assms(2) by (simp add: guarded_def)
  have b: "P (e_world (snd (run_prog x t hosts (post_batches se p sp url bs) (e\<lparr>e_world := w\<rparr>))))" if "P w" for bs w
    using batches_keep[OF assms(1) guarded_world[OF assms(2) that]] .
  obtain name w where l: "lookup_name se (sn_Deployer sp) (e_world e) = (name, w)" by fastforce
  have "P w" using lookup_keeps[OF assms(1) P, of "sn_Deployer sp"] l by simp
  then show ?thesis using b P l batches_keep[OF assms]
    by (simp add: deliver_def richFields_def displayDeployer_def Let_def)
qed

text \<open>
  C26. No message a \<open>slack:send\<close> task posts holds a registered secret: a property of the world that requests without the
  secret keep is kept by the whole action, the summary, the fields and the changelog alike, also when the task is given a
  webhook of its own.
\<close>

theorem send_masks:
  assumes "\<not> x_disabled x" and "list_all (line_rule v) (x_rules x)" and "plain_secret v"
    and "registry_ok (e_secrets e)" and "v \<in> set (secrets (e_secrets e))"
    and "\<And>u pl w. clean v pl \<Longrightarrow> P w \<Longrightarrow> P (snd (se_post se u pl w))"
    and "\<And>login w. P w \<Longrightarrow> P (snd (se_user se login w))" and "\<And>s w. P w \<Longrightarrow> P (se_put se s w)" and "P (e_world e)"
  shows "P (e_world (snd (run_prog x t hosts (send se p raw) e)))"
proof -
  have k: "kept_by se v P" using assms(6-8) unfolding kept_by_def by blast
  have g: "guarded x v P e" using assms unfolding guarded_def by blast
  have "guarded x v P (add_secrets [s] e)" for s
    using g AddSecret_registry[of "e_secrets e" s] by (auto simp: guarded_def add_secrets_def)
  then have "P (e_world (snd (run_prog x t hosts (deliver se p sp url) (add_secrets [s] e))))" for s sp url
    by (rule deliver_keeps[OF k])
  moreover have "P (e_world (snd (run_prog x t hosts (deliver se p sp url) e)))" for sp url
    by (rule deliver_keeps[OF k g])
  ultimately show ?thesis using assms(9) by (simp add: send_def split: sum.split option.split)
qed

section \<open>What the startup hook adds\<close>

interpretation slack_hooks: hooked_tasks add_notification nt_name nt_phase "\<lambda>n. \<not> nt_before n" notify_task
  by unfold_locales (simp add: add_notification_def)

definition reserved :: "string list" where
  "reserved = [taskNotifyStart, taskNotifySuccess, taskNotifyFail, taskNotifyRollback]"

lemma notifications_names: "distinct (map nt_name (notifications p))" "nt_name ` set (notifications p) \<subseteq> set reserved"
  by (auto simp: notifications_def reserved_def task_names)

text \<open>A task with further entries: nothing but the values of their keys changes.\<close>

definition own_key :: "string \<Rightarrow> bool" where
  "own_key k \<longleftrightarrow> k \<in> set [''event'', ''message'', ''color'', ''webhook_url'']"

definition with_grows :: "task \<Rightarrow> yval smap \<Rightarrow> bool" where
  "with_grows t W \<longleftrightarrow> (\<forall>k. own_key k \<longrightarrow> m_get W k = m_get (task_With t) k)"

definition extends :: "task option option \<Rightarrow> task option option \<Rightarrow> bool" where
  "extends a b \<longleftrightarrow> b = a \<or> (\<exists>t W. a = Some (Some t) \<and> b = Some (Some (t\<lparr>task_With := W\<rparr>)) \<and> with_grows t W)"

lemma extends_refl [simp]: "extends a a" by (simp add: extends_def)

lemma extends_trans:
  assumes "extends a b" "extends b c"
  shows "extends a c"
proof -
  consider "b = a" | "c = b"
    | t W W' where "a = Some (Some t)" "with_grows t W" "with_grows (t\<lparr>task_With := W\<rparr>) W'"
        "c = Some (Some (t\<lparr>task_With := W'\<rparr>))"
    using assms unfolding extends_def by fastforce
  then show ?thesis
  proof cases
    case (3 t W W')
    then have "with_grows t W'" by (simp add: with_grows_def)
    then show ?thesis using 3(1,4) unfolding extends_def by blast
  qed (use assms in auto)
qed

lemma put_entries: "list_all (\<lambda>(k, v). \<not> own_key k) kvs \<Longrightarrow> own_key k \<Longrightarrow>
    m_get (fold (\<lambda>(k, v). m_put k (YStr v)) kvs W) k = m_get W k"
  by (induction kvs arbitrary: W) auto

lemma entries_extend:
  assumes "list_all (\<lambda>(k, v). \<not> own_key k) kvs"
  shows "extends (m_get (cfg_Tasks cfg) n) (m_get (cfg_Tasks (with_entries kvs name cfg)) n)"
proof (cases "n = name \<and> (\<exists>t. m_get (cfg_Tasks cfg) name = Some (Some t))")
  case True
  then obtain t where t: "n = name" "m_get (cfg_Tasks cfg) name = Some (Some t)" by blast
  let ?W = "fold (\<lambda>(k, v). m_put k (YStr v)) kvs (task_With t)"
  have "with_grows t ?W" using put_entries[OF assms] by (simp add: with_grows_def)
  then show ?thesis using t by (auto simp: with_entries_def AddTask_def extends_def)
next
  case False
  then show ?thesis by (auto simp: with_entries_def AddTask_def split: option.split)
qed

lemma rich_flag_entry: "\<not> own_key ''rich_fields''"
  by (simp add: own_key_def)

lemma flag_extends: "extends (m_get (cfg_Tasks cfg) n) (m_get (cfg_Tasks (rich_flag name cfg)) n)"
proof (cases "n = name \<and> (\<exists>t. m_get (cfg_Tasks cfg) name = Some (Some t))")
  case True
  then obtain t where t: "n = name" "m_get (cfg_Tasks cfg) name = Some (Some t)" by blast
  have "with_grows t (m_put ''rich_fields'' (YBool True) (task_With t))" using rich_flag_entry by (auto simp: with_grows_def)
  then show ?thesis using t by (auto simp: rich_flag_def AddTask_def extends_def)
next
  case False
  then show ?thesis by (auto simp: rich_flag_def AddTask_def split: option.split)
qed

lemma entries_rest: "cfg_Hooks (with_entries kvs name cfg) = cfg_Hooks cfg" "cfg_Hooks (rich_flag name cfg) = cfg_Hooks cfg"
  "cfg_HookFuncsBefore (with_entries kvs name cfg) = cfg_HookFuncsBefore cfg" "cfg_HookFuncsBefore (rich_flag name cfg) = cfg_HookFuncsBefore cfg"
  "n \<noteq> name \<Longrightarrow> m_get (cfg_Tasks (with_entries kvs name cfg)) n = m_get (cfg_Tasks cfg) n"
  "n \<noteq> name \<Longrightarrow> m_get (cfg_Tasks (rich_flag name cfg)) n = m_get (cfg_Tasks cfg) n"
  by (auto simp: with_entries_def rich_flag_def AddTask_def split: option.split)

lemma own_entries: "list_all (\<lambda>(k, v). \<not> own_key k) rich_entries" "list_all (\<lambda>(k, v). \<not> own_key k) changelog_entries"
  by (simp_all add: rich_entries_def changelog_entries_def own_key_def)

lemma pair_extends:
  "extends (m_get (cfg_Tasks cfg) n) (m_get (cfg_Tasks (with_entries rich_entries name (rich_flag name cfg))) n)"
  using extends_trans[OF flag_extends[of cfg n name] entries_extend[OF own_entries(1)]] .

definition enrich :: "slack_params \<Rightarrow> deploy_file \<Rightarrow> deploy_file" where
  "enrich p cfg2 = (let cfg3 = (if sk_RichFields p then fold (\<lambda>name. with_entries rich_entries name \<circ> rich_flag name)
            [taskNotifySuccess, taskNotifyFail] cfg2 else cfg2) in
     if cl_Enabled (sk_Changelog p) then with_entries changelog_entries taskNotifySuccess cfg3 else cfg3)"

lemma install_enrich: "slack_install p cfg w = (None, enrich p (fold add_notification (notifications p)
    (AddHookFuncBefore PhaseStarting slack_hook cfg)), concat (map (literal_webhook \<circ> snd) (cfg_Tasks cfg)), w)"
  by (simp add: slack_install_def enrich_def Let_def AddHookFuncBefore_def)

lemma enrich_extends: "extends (m_get (cfg_Tasks cfg) n) (m_get (cfg_Tasks (enrich p cfg)) n)"
proof -
  let ?f = "\<lambda>name c. with_entries rich_entries name (rich_flag name c)"
  have two: "extends (m_get (cfg_Tasks cfg) n) (m_get (cfg_Tasks (?f b (?f a cfg))) n)" for a b
    using extends_trans[OF pair_extends pair_extends] .
  then show ?thesis using entries_extend[OF own_entries(2)] extends_trans[OF two entries_extend[OF own_entries(2)]]
    by (simp add: enrich_def)
qed

lemma enrich_rest: "cfg_Hooks (enrich p cfg) = cfg_Hooks cfg" "cfg_HookFuncsBefore (enrich p cfg) = cfg_HookFuncsBefore cfg"
  "n \<notin> set reserved \<Longrightarrow> m_get (cfg_Tasks (enrich p cfg)) n = m_get (cfg_Tasks cfg) n"
  by (simp_all add: enrich_def entries_rest reserved_def)

lemma func_before_rest: "cfg_Tasks (AddHookFuncBefore ph f cfg) = cfg_Tasks cfg" "cfg_Hooks (AddHookFuncBefore ph f cfg) = cfg_Hooks cfg"
  "m_list (cfg_HookFuncsBefore (AddHookFuncBefore ph f cfg)) ph = m_list (cfg_HookFuncsBefore cfg) ph @ [f]"
  by (simp_all add: AddHookFuncBefore_def)

lemma own_keys: "own_key ''event''" "own_key ''webhook_url''"
  by (simp_all add: own_key_def)

text \<open>The task a notification ends up as, whatever the optional entries added to its parameters.\<close>

definition notifies :: "notification \<Rightarrow> task \<Rightarrow> bool" where
  "notifies nt t \<longleftrightarrow> task_Action t = actionSend \<and> task_Hidden t \<and> task_Silent t
     \<and> m_get (task_With t) ''event'' = Some (YStr (nt_event nt)) \<and> m_get (task_With t) ''webhook_url'' = None"

lemma notify_task_with: "m_get (task_With (notify_task nt)) ''event'' = Some (YStr (nt_event nt))"
  "m_get (task_With (notify_task nt)) ''webhook_url'' = None"
  by (simp_all add: notify_task_def)

lemma extends_notifies:
  assumes "extends (Some (Some (notify_task nt))) b"
  shows "\<exists>t. b = Some (Some t) \<and> notifies nt t"
proof -
  have base: "notifies nt (notify_task nt)"
    using notify_task_with[of nt] unfolding notifies_def by (simp add: notify_task_def)
  from assms consider "b = Some (Some (notify_task nt))"
    | W where "b = Some (Some (notify_task nt\<lparr>task_With := W\<rparr>))" "with_grows (notify_task nt) W"
    unfolding extends_def by blast
  then show ?thesis
  proof cases
    case (2 W)
    then have "notifies nt (notify_task nt\<lparr>task_With := W\<rparr>)"
      using base own_keys unfolding notifies_def with_grows_def by simp
    then show ?thesis using 2(1) by blast
  qed (use base in blast)
qed

text \<open>
  C99. What the slack plugin's startup hook does to the file: every enabled notification becomes a hidden, silent
  \<open>slack:send\<close> task that carries its event and no webhook of its own (so the event picks the webhook), whatever the
  rich fields and the changelog add to it. The hook lists and the hook functions only grow at their end, tasks under
  other names are untouched, and the literal webhooks of the file's own tasks are handed to the secret registry.
\<close>
theorem slack_install_spec:
  assumes "slack_install p cfg w = (r, cfg', secs, w')"
  shows "r = None \<and> w' = w \<and> secs = concat (map (literal_webhook \<circ> snd) (cfg_Tasks cfg))
    \<and> (\<forall>nt \<in> set (notifications p). \<exists>t. m_get (cfg_Tasks cfg') (nt_name nt) = Some (Some t) \<and> notifies nt t)
    \<and> (\<forall>n. n \<notin> set reserved \<longrightarrow> m_get (cfg_Tasks cfg') n = m_get (cfg_Tasks cfg) n)
    \<and> (\<forall>ph. m_list (hooks_Before (cfg_Hooks cfg')) ph = m_list (hooks_Before (cfg_Hooks cfg)) ph
         @ map nt_name (filter (\<lambda>nt. nt_before nt \<and> nt_phase nt = ph) (notifications p)))
    \<and> (\<forall>ph. m_list (hooks_After (cfg_Hooks cfg')) ph = m_list (hooks_After (cfg_Hooks cfg)) ph
         @ map nt_name (filter (\<lambda>nt. \<not> nt_before nt \<and> nt_phase nt = ph) (notifications p)))
    \<and> m_list (cfg_HookFuncsBefore cfg') PhaseStarting = m_list (cfg_HookFuncsBefore cfg) PhaseStarting @ [slack_hook]"
proof -
  let ?c1 = "AddHookFuncBefore PhaseStarting slack_hook cfg"
  let ?c2 = "fold add_notification (notifications p) ?c1"
  have c: "cfg' = enrich p ?c2" and rest: "r = None" "w' = w" "secs = concat (map (literal_webhook \<circ> snd) (cfg_Tasks cfg))"
    using assms by (simp_all add: install_enrich)
  have own: "\<exists>t. m_get (cfg_Tasks cfg') (nt_name nt) = Some (Some t) \<and> notifies nt t" if "nt \<in> set (notifications p)" for nt
    using extends_notifies[OF enrich_extends[of ?c2 "nt_name nt" p, folded c,
      unfolded slack_hooks.own_tasks[OF notifications_names(1) that]]] .
  have other: "m_get (cfg_Tasks cfg') n = m_get (cfg_Tasks cfg) n" if "n \<notin> set reserved" for n
  proof -
    have "n \<notin> nt_name ` set (notifications p)" using that notifications_names(2)[of p] by blast
    from slack_hooks.other_tasks[OF this] show ?thesis unfolding c enrich_rest(3)[OF that] by (simp add: func_before_rest)
  qed
  show ?thesis
    using rest own other by (auto simp: c enrich_rest func_before_rest slack_hooks.hook_lists slack_hooks.keeps_rest)
qed

section \<open>A concrete workspace\<close>

definition demo_send :: "string \<Rightarrow> send_params" where
  "demo_send msg = \<lparr>sn_Message = msg, sn_Color = ''good'', sn_WebhookURL = [], sn_Channel = [], sn_Username = [],
     sn_IconEmoji = [], sn_Optional = False, sn_Event = eventFinished, sn_RichFields = False, sn_Stage = ''prod'', sn_Branch = ''main'',
     sn_ReleasePath = [], sn_CommitHash = [], sn_Deployer = ''me'', sn_Changelog = [], sn_Repo = [], sn_PreviousCommitHash = []\<rparr>"

definition demo_params :: slack_params where
  "demo_params = \<lparr>sk_WebhookURL = ''https://hooks.example.com/x'', sk_WebhookStart = [], sk_WebhookSuccess = [], sk_WebhookFail = [],
     sk_WebhookRollback = [], sk_Channel = [], sk_Username = [], sk_IconEmoji = [], sk_RichFields = True,
     sk_Changelog = \<lparr>cl_Enabled = False, cl_CommitURL = [], cl_Authors = [], cl_MaxCommits = 0\<rparr>,
     sk_DeployerGithubLookup = False, sk_NotifyStart = None, sk_NotifySuccess = None, sk_NotifyFail = None, sk_NotifyRollback = False,
     sk_ColorStart = [], sk_ColorSuccess = [], sk_ColorFail = [], sk_ColorRollback = [], sk_MessageStart = [], sk_MessageSuccess = [],
     sk_MessageFail = [], sk_MessageRollback = [], sk_Timeout = []\<rparr>"

text \<open>A webhook that is down, and counts the requests that hold the secret.\<close>

definition demo_slack :: "string \<Rightarrow> nat slack_env" where
  "demo_slack msg = \<lparr>se_params = (\<lambda>_. Inr demo_params), se_send = (\<lambda>_. Inr (demo_send msg)), se_url = (\<lambda>_. None),
     se_loopback = (\<lambda>_. False), se_duration = (\<lambda>_. None), se_escape = id,
     se_state = (\<lambda>_. \<lparr>ns_startedAt = None, ns_ghName = None\<rparr>), se_put = (\<lambda>s w. w), se_now = (\<lambda>w. 0),
     se_post = (\<lambda>u pl w. (Status 500 ''down'', if clean ''hunter22'' pl then w else Suc w)), se_user = (\<lambda>u w. (NoUser, w))\<rparr>"

lemma send_best_effort_witness:
  "fst (run_prog demo_ext zero_task two_web (send (demo_slack ''done'') demo_params []) demo_exec) = None
   \<and> fst (run_prog demo_ext zero_task two_web (send ((demo_slack [])\<lparr>se_send := \<lambda>_. Inr ((demo_send ''ping'')\<lparr>sn_Event := []\<rparr>)\<rparr>) demo_params []) demo_exec)
     = Some (wrapf ''slack:send'' (Text ''webhook returned 500: down''))"
proof
  have m: "trim_space ''done'' \<noteq> []" "trim_space ''ping'' \<noteq> []" "trim_space ''down'' = ''down''" by code_simp+
  have "se_send (demo_slack ''done'') [] = Inr (demo_send ''done'')" by (simp add: demo_slack_def)
  moreover have "sn_WebhookURL (demo_send ''done'') = []" "best_effort (demo_send ''done'')" "sn_Message (demo_send ''done'') = ''done''"
    by (simp_all add: demo_send_def best_effort_def event_names)
  ultimately show "fst (run_prog demo_ext zero_task two_web (send (demo_slack ''done'') demo_params []) demo_exec) = None"
    using send_best_effort[where se = "demo_slack ''done''" and raw = "[]" and x = demo_ext and t = zero_task
        and hosts = two_web and p = demo_params and e = demo_exec] m(1) by simp
  let ?sp = "(demo_send ''ping'')\<lparr>sn_Event := []\<rparr>"
  let ?se = "(demo_slack [])\<lparr>se_send := \<lambda>_. Inr ?sp\<rparr>"
  have "sn_WebhookURL ?sp = []" "\<not> best_effort ?sp" "sn_Message ?sp = ''ping''" "sn_Event ?sp = []"
    by (simp_all add: demo_send_def best_effort_def)
  moreover have "se_send ?se [] = Inr ?sp" "fst (se_post ?se u pl w) = Status 500 ''down''" for u pl w by (simp_all add: demo_slack_def)
  moreover have "post_error (Status 500 ''down'') = Some (Text ''webhook returned 500: down'')"
    by (simp add: post_error_def m(3)) code_simp
  ultimately show "fst (run_prog demo_ext zero_task two_web (send ?se demo_params []) demo_exec)
      = Some (wrapf ''slack:send'' (Text ''webhook returned 500: down''))"
    using send_best_effort[where se = ?se and raw = "[]" and x = demo_ext and t = zero_task and hosts = two_web
        and p = demo_params and e = demo_exec] m(2)
    by (simp add: Let_def case_prod_beta)
qed

lemma send_masks_witness:
  "e_world (snd (run_prog demo_ext zero_task two_web (send (demo_slack ''key hunter22'') demo_params [])
     (add_secrets [''hunter22''] demo_exec))) = 0"
proof -
  let ?e = "add_secrets [''hunter22''] demo_exec"
  have w: "e_world ?e = 0" by (simp add: add_secrets_def demo_exec_def SetUnreachablePolicy_def New_executor_def)
  have "registry_ok (e_secrets ?e)" "''hunter22'' \<in> set (secrets (e_secrets ?e))"
    by (simp_all add: add_secrets_def demo_exec_def SetUnreachablePolicy_def New_executor_def) (code_simp)+
  then show ?thesis
    using send_masks[of demo_ext "''hunter22''" ?e "\<lambda>w. w = 0" "demo_slack ''key hunter22''" zero_task two_web demo_params "[]"]
      demo_plain w by (simp add: demo_slack_def demo_ext_def)
qed

lemma slack_install_spec_witness:
  "\<exists>cfg' secs. slack_install demo_params zero_cfg (0::nat) = (None, cfg', secs, 0)
     \<and> m_list (cfg_HookFuncsBefore cfg') PhaseStarting = [slack_hook]"
proof -
  obtain r cfg' secs w' where i: "slack_install demo_params zero_cfg (0::nat) = (r, cfg', secs, w')" by (metis prod.exhaust)
  have "m_list (cfg_HookFuncsBefore zero_cfg) PhaseStarting = []" by (simp add: zero_cfg_def m_list_def)
  then show ?thesis using i slack_install_spec[OF i] by simp
qed

end
