(* ===== verification/Cli_Args.thy ===== *)
theory Cli_Args
  imports Plugins
begin

text \<open>
  The command line before a configuration is loaded (\<open>internal/cli/root.go\<close>, \<open>logging.go\<close>,
  \<open>plugincmd.go\<close>): finding the stage in the raw arguments, the commands of a stage, the precedence of the
  log settings, and the exit code of the process.
\<close>

section \<open>The stage\<close>

definition reservedFirstArgs :: "string list" where
  "reservedFirstArgs = [''init'', ''help'', ''completion'', ''version'', ''plugins'', ''stages'', ''build'']"

definition completionDrivers :: "string list" where
  "completionDrivers = [''__complete'', ''__completeNoDesc'']"

definition valuedRootFlags :: "string list" where
  "valuedRootFlags = [''--log-level'', ''--log-format'', ''--log-output'', ''--log-file'', ''--log-file-format'']"

fun detectDeployfile :: "string list \<Rightarrow> string" where
  "detectDeployfile [] = []"
| "detectDeployfile (a # rest) =
     (if a = ''--deployfile'' \<and> rest \<noteq> [] then hd rest
      else if has_prefix a ''--deployfile='' then drop (length ''--deployfile='') a
      else detectDeployfile rest)"

text \<open>The loop of \<open>detectStage\<close>; the list is what is left of the arguments.\<close>

function detect_loop :: "bool \<Rightarrow> string list \<Rightarrow> string option" where
  "detect_loop completing [] = None"
| "detect_loop completing (a # rest) =
     (if a = [] then detect_loop completing rest
      else if a \<in> set completionDrivers then detect_loop True rest
      else if has_prefix a ''-''
      then detect_loop completing (if a \<in> set valuedRootFlags then drop 1 rest else rest)
      else if a \<in> set reservedFirstArgs then None
      else if completing \<and> rest = [] then None
      else Some a)"
  by pat_completeness auto
termination by (relation "measure (\<lambda>(c, as). length as)") auto

definition detectStage :: "string list \<Rightarrow> string option" where
  "detectStage args = detect_loop False args"

text \<open>The arguments that are neither empty, nor a flag, nor the value of a root flag.\<close>

function positionals :: "string list \<Rightarrow> string list" where
  "positionals [] = []"
| "positionals (a # rest) =
     (if a = [] then positionals rest
      else if has_prefix a ''-'' then positionals (if a \<in> set valuedRootFlags then drop 1 rest else rest)
      else a # positionals rest)"
  by pat_completeness auto
termination by (relation "measure length") auto

text \<open>
  On a command line that is not being completed the stage is the first argument that is neither a flag
  nor the value of a root flag, and there is none when that is a command of its own: root flags in
  front of the stage, in either form, never change it.
\<close>

theorem detectStage_spec:
  assumes "\<forall>a\<in>set args. a \<notin> set completionDrivers"
  shows "detectStage args = (case positionals args of [] \<Rightarrow> None
      | p # ps \<Rightarrow> if p \<in> set reservedFirstArgs then None else Some p)
    \<and> (\<forall>f v. f \<in> set valuedRootFlags \<longrightarrow> detectStage (f # v # args) = detectStage args)
    \<and> (\<forall>f. has_prefix f ''-'' \<and> f \<notin> set valuedRootFlags \<longrightarrow> detectStage (f # args) = detectStage args)"
proof -
  have "detect_loop False args = (case positionals args of [] \<Rightarrow> None
      | p # ps \<Rightarrow> if p \<in> set reservedFirstArgs then None else Some p)"
    using assms
  proof (induction args rule: positionals.induct)
    case (2 a rest)
    have sub: "\<forall>b\<in>set (if a \<in> set valuedRootFlags then drop 1 rest else rest). b \<notin> set completionDrivers"
      using 2(4) by (auto dest: in_set_dropD)
    have a: "a \<notin> set completionDrivers" "\<forall>b\<in>set rest. b \<notin> set completionDrivers" using 2(4) by simp_all
    consider "a = []" | "a \<noteq> []" "has_prefix a ''-''" | "a \<noteq> []" "\<not> has_prefix a ''-''" by blast
    then show ?case
    proof cases
      case 1
      then show ?thesis using 2(1) a(2) by simp
    next
      case 2
      then show ?thesis using "2.IH"(2)[OF 2 sub] a(1) by (simp del: detect_loop.simps(2) add: detect_loop.simps(2)[of False a])
    next
      case 3
      then show ?thesis using a(1) by simp
    qed
  qed simp
  moreover have flag: "f \<noteq> [] \<and> f \<notin> set completionDrivers" if "has_prefix f ''-''" for f
    using that by (cases f) (auto simp: completionDrivers_def has_prefix_def)
  moreover have valued: "has_prefix f ''-''" if "f \<in> set valuedRootFlags" for f
    using that by (auto simp: valuedRootFlags_def has_prefix_def)
  ultimately have skip: "detect_loop False args = (case positionals args of [] \<Rightarrow> None
      | p # ps \<Rightarrow> if p \<in> set reservedFirstArgs then None else Some p)" by blast
  moreover have "f \<in> set valuedRootFlags \<Longrightarrow> detect_loop False (f # v # args) = detect_loop False args" for f v
    using flag[OF valued] valued by simp
  moreover have "has_prefix f ''-'' \<Longrightarrow> f \<notin> set valuedRootFlags \<Longrightarrow> detect_loop False (f # args) = detect_loop False args" for f
    using flag by simp
  ultimately show ?thesis unfolding detectStage_def by blast
qed

lemma detectStage_spec_witness:
  "detectStage [''--log-level'', ''init'', ''production'', ''deploy''] = Some ''production''"
proof -
  have "\<forall>a\<in>set [''production'', ''deploy'']. a \<notin> set completionDrivers" by (simp add: completionDrivers_def)
  from detectStage_spec[OF this] show ?thesis
    by (simp add: valuedRootFlags_def reservedFirstArgs_def has_prefix_def)
qed

section \<open>The commands of a stage\<close>

definition builtinActions :: "string list" where
  "builtinActions = [''config'', ''validate'', ''run'', ''deploy'', ''deploy:check'', ''deploy:rollback'', ''releases'',
     ''deploy:unlock'']"

definition reservedActions :: "string list" where
  "reservedActions = [''config'', ''validate'', ''run'', ''deploy'', ''deploy:check'', ''deploy:rollback'', ''deploy:unlock'',
     ''releases'']"

text \<open>What runs a subcommand: a built-in action, a task, or a plugin's command.\<close>

datatype 'w stage_cmd = Builtin string | Task_cmd string bool | Plugin_cmd "'w plugin_command"

definition registerTaskCmds :: "string \<Rightarrow> task option smap \<Rightarrow> (string \<times> 'w stage_cmd) list \<Rightarrow> (string \<times> 'w stage_cmd) list" where
  "registerTaskCmds stage tasks cmds = fold (\<lambda>(name, t) cmds. case t of
      None \<Rightarrow> cmds
    | Some t \<Rightarrow> if name \<in> set reservedActions then cmds
        else cmds @ [(name, Task_cmd name (task_Hidden t \<or> \<not> ActiveForStage t stage))]) tasks cmds"

text \<open>\<open>Name()\<close> of a subcommand is the first word of its usage.\<close>

definition hasSubcommand :: "(string \<times> 'w stage_cmd) list \<Rightarrow> string \<Rightarrow> bool" where
  "hasSubcommand cmds name \<longleftrightarrow> (\<exists>c\<in>set cmds. takeWhile (\<lambda>x. x \<noteq> CHR '' '') (fst c) = name)"

definition selectPluginsForStage :: "deploy_file \<Rightarrow> deploy_file" where
  "selectPluginsForStage cfg = (let keep = (\<lambda>p. IsEnabled p \<and> ActiveForStage_plugin p (cfg_Stage cfg)) in
     cfg\<lparr>cfg_Plugins := filter keep (cfg_Plugins cfg),
         cfg_SkippedPlugins := map ps_Name (filter (\<lambda>p. \<not> keep p) (cfg_Plugins cfg))\<rparr>)"

definition registerPluginCmds :: "'w plugin_table \<Rightarrow> string \<Rightarrow> plugin_spec list \<Rightarrow> (string \<times> 'w stage_cmd) list
    \<Rightarrow> (string \<times> 'w stage_cmd) list" where
  "registerPluginCmds tbl stage declared cmds =
     (let cfg = selectPluginsForStage (zero_cfg\<lparr>cfg_Stage := stage, cfg_Plugins := DefaultSpecs tbl declared\<rparr>)
      in fold (\<lambda>c cmds. if pc_Name c \<in> set reservedActions \<or> hasSubcommand cmds (pc_Name c) then cmds
           else cmds @ [(pc_Name c, Plugin_cmd c)]) (plugin_commands tbl (cfg_Plugins cfg)) cmds)"

definition stage_commands :: "'w plugin_table \<Rightarrow> string \<Rightarrow> task option smap \<Rightarrow> plugin_spec list \<Rightarrow> (string \<times> 'w stage_cmd) list" where
  "stage_commands tbl stage tasks declared =
     registerPluginCmds tbl stage declared (registerTaskCmds stage tasks (map (\<lambda>n. (n, Builtin n)) builtinActions))"

definition word :: "string \<Rightarrow> bool" where "word s \<longleftrightarrow> CHR '' '' \<notin> set s"

lemma word_name: "word s \<Longrightarrow> takeWhile (\<lambda>x. x \<noteq> CHR '' '') s = s"
  by (auto simp: word_def takeWhile_eq_all_conv)

lemma actions_same: "set reservedActions = set builtinActions" "list_all word builtinActions" "distinct builtinActions"
  by (auto simp: reservedActions_def builtinActions_def word_def)

lemma task_cmds:
  "registerTaskCmds stage tasks cmds = cmds @ map (\<lambda>(n, t). (n, Task_cmd n (task_Hidden (the t) \<or> \<not> ActiveForStage (the t) stage)))
     (filter (\<lambda>(n, t). t \<noteq> None \<and> n \<notin> set reservedActions) tasks)"
proof (induction tasks arbitrary: cmds)
  case (Cons nt tasks)
  obtain n t where "nt = (n, t)" by fastforce
  then show ?case using Cons by (cases t) (auto simp: registerTaskCmds_def)
qed (simp add: registerTaskCmds_def)

lemma get_map: "m_get (map (\<lambda>(n, t). (n, g n t)) xs) k = map_option (g k) (m_get xs k)"
  by (induction xs) auto

definition add_plugin_cmds :: "'w plugin_command list \<Rightarrow> (string \<times> 'w stage_cmd) list \<Rightarrow> (string \<times> 'w stage_cmd) list" where
  "add_plugin_cmds cs cmds = fold (\<lambda>c cmds. if pc_Name c \<in> set reservedActions \<or> hasSubcommand cmds (pc_Name c) then cmds
     else cmds @ [(pc_Name c, Plugin_cmd c)]) cs cmds"

lemma has_words: "\<forall>c\<in>set cmds. word (fst c) \<Longrightarrow> hasSubcommand cmds n \<longleftrightarrow> n \<in> fst ` set cmds"
  by (force simp: hasSubcommand_def word_name)

lemma plugin_cmds:
  assumes "\<forall>c\<in>set cmds. word (fst c)" "\<forall>c\<in>set cs. word (pc_Name c)" "distinct (map fst cmds)"
    "set reservedActions \<subseteq> fst ` set cmds"
  shows "distinct (map fst (add_plugin_cmds cs cmds)) \<and> m_get (add_plugin_cmds cs cmds) n = (case m_get cmds n of
      Some c \<Rightarrow> Some c | None \<Rightarrow> map_option Plugin_cmd (List.find (\<lambda>c. pc_Name c = n) cs))"
  using assms
proof (induction cs arbitrary: cmds)
  case Nil
  then show ?case by (simp add: add_plugin_cmds_def split: option.split)
next
  case (Cons c cs)
  show ?case
  proof (cases "pc_Name c \<in> fst ` set cmds")
    case True
    then have "add_plugin_cmds (c # cs) cmds = add_plugin_cmds cs cmds"
      using has_words[OF Cons.prems(1)] by (simp add: add_plugin_cmds_def)
    moreover have "m_get cmds (pc_Name c) \<noteq> None" using True by (simp add: map_of_eq_None_iff)
    ultimately show ?thesis using Cons.IH[of cmds] Cons.prems by (auto split: option.split)
  next
    case False
    then have "add_plugin_cmds (c # cs) cmds = add_plugin_cmds cs (cmds @ [(pc_Name c, Plugin_cmd c)])"
      using has_words[OF Cons.prems(1)] Cons.prems(4) by (auto simp: add_plugin_cmds_def)
    moreover have "m_get cmds (pc_Name c) = None" using False by (simp add: map_of_eq_None_iff)
    moreover have "set reservedActions \<subseteq> fst ` set (cmds @ [(pc_Name c, Plugin_cmd c)])" using Cons.prems(4) by auto
    note Cons.IH[OF _ _ _ this]
    ultimately show ?thesis using Cons.prems(1-3) False by (auto simp: map_add_def split: option.split)
  qed
qed

text \<open>
  The commands of a stage have distinct names; a built-in action is never replaced, a task is its own
  command whatever the plugins offer, and a plugin's command is there when neither has its name.
\<close>

theorem stage_commands_spec:
  assumes "wf_map tasks" and "\<forall>n\<in>fst ` set tasks. word n"
    and cs: "cs = plugin_commands tbl (filter (\<lambda>p. IsEnabled p \<and> ActiveForStage_plugin p stage) (DefaultSpecs tbl declared))"
    and "\<forall>c\<in>set cs. word (pc_Name c)"
  shows "distinct (map fst (stage_commands tbl stage tasks declared))
    \<and> m_get (stage_commands tbl stage tasks declared) n =
       (if n \<in> set builtinActions then Some (Builtin n)
        else case m_get tasks n of
          Some (Some t) \<Rightarrow> Some (Task_cmd n (task_Hidden t \<or> \<not> ActiveForStage t stage))
        | _ \<Rightarrow> map_option Plugin_cmd (List.find (\<lambda>c. pc_Name c = n) cs))"
proof -
  let ?b = "map (\<lambda>n. (n, Builtin n)) builtinActions :: (string \<times> 'a stage_cmd) list"
  let ?sel = "filter (\<lambda>(n, t). t \<noteq> None \<and> n \<notin> set reservedActions) tasks"
  let ?t = "map (\<lambda>(n, t). (n, Task_cmd n (task_Hidden (the t) \<or> \<not> ActiveForStage (the t) stage))) ?sel
    :: (string \<times> 'a stage_cmd) list"
  have e: "stage_commands tbl stage tasks declared = add_plugin_cmds cs (?b @ ?t)"
    by (simp add: stage_commands_def registerPluginCmds_def selectPluginsForStage_def task_cmds cs add_plugin_cmds_def Let_def)
  have d: "distinct (map fst ?sel)" using assms(1) by (simp add: wf_map_def distinct_map_filter)
  have k: "map fst ?b = builtinActions" "map fst ?t = map fst ?sel" by (simp_all add: comp_def case_prod_beta)
  have disj: "fst ` set ?b \<inter> fst ` set ?t = {}" using actions_same(1) by (auto simp: image_iff)
  have dd: "distinct (map fst (?b @ ?t))"
    unfolding map_append k distinct_append using d disj actions_same(1,3) by (auto simp: image_iff)
  have w: "\<forall>c\<in>set (?b @ ?t). word (fst c)" using actions_same(2) assms(2) by (force simp: list_all_iff)
  have r: "set reservedActions \<subseteq> fst ` set (?b @ ?t)" using actions_same(1) by force
  have b: "m_get ?b n = (if n \<in> set builtinActions then Some (Builtin n) else None)"
    by (simp add: map_of_map_restrict restrict_map_def)
  have sel: "m_get ?sel n = (case m_get tasks n of Some (Some t) \<Rightarrow> if n \<in> set reservedActions then None else Some (Some t) | _ \<Rightarrow> None)"
    using assms(1) by (induction tasks) (auto simp: wf_map_def map_of_eq_None_iff split: option.splits)
  have t: "m_get ?t n = map_option (\<lambda>t. Task_cmd n (task_Hidden (the t) \<or> \<not> ActiveForStage (the t) stage)) (m_get ?sel n)"
    using get_map[of "\<lambda>n t. Task_cmd n (task_Hidden (the t) \<or> \<not> ActiveForStage (the t) stage)" ?sel n] by simp
  show ?thesis using plugin_cmds[OF w assms(4) dd r, of n] b sel t actions_same(1) unfolding e
    by (auto simp: map_add_def split: option.split)
qed

lemma stage_commands_spec_witness:
  "m_get (stage_commands no_plugins ''qa'' [(''deploy'', Some zero_task), (''smoke'', Some zero_task)] []) ''smoke''
     = Some (Task_cmd ''smoke'' False)"
  using stage_commands_spec[where tasks = "[(''deploy'', Some zero_task), (''smoke'', Some zero_task)]" and tbl = no_plugins
      and stage = "''qa''" and declared = "[]" and n = "''smoke''" and cs = "[]"]
  by (simp add: wf_map_def word_def no_plugins_def DefaultSpecs_def plugin_commands_def builtinActions_def zero_task_def
      ActiveForStage_def stageActive_def)

section \<open>Log settings\<close>

text \<open>A flag: whether the operator set it, and its value, the default when not.\<close>

record log_flags =
  lf_Level :: "bool \<times> string"
  lf_Format :: "bool \<times> string"
  lf_Output :: "bool \<times> string"
  lf_Color :: "bool \<times> bool"
  lf_File :: "bool \<times> string"
  lf_FileFormat :: "bool \<times> string"

definition logStr :: "bool \<times> string \<Rightarrow> string \<Rightarrow> string" where
  "logStr flag cfgVal = (if cfgVal = [] \<or> fst flag then snd flag else cfgVal)"

definition logBool :: "bool \<times> bool \<Rightarrow> bool option \<Rightarrow> bool" where
  "logBool flag cfgVal = (case cfgVal of None \<Rightarrow> snd flag | Some b \<Rightarrow> if fst flag then snd flag else b)"

definition set_changed :: "bool \<times> 'a \<Rightarrow> ('a \<Rightarrow> 'b) \<Rightarrow> 'b \<Rightarrow> 'b" where
  "set_changed flag f old = (if fst flag then f (snd flag) else old)"

definition reflect_flags :: "log_flags \<Rightarrow> log_cfg \<Rightarrow> log_cfg" where
  "reflect_flags fl lc = lc\<lparr>log_Level := set_changed (lf_Level fl) id (log_Level lc),
     log_Format := set_changed (lf_Format fl) id (log_Format lc), log_Output := set_changed (lf_Output fl) id (log_Output lc),
     log_File := set_changed (lf_File fl) id (log_File lc),
     log_FileFormat := set_changed (lf_FileFormat fl) id (log_FileFormat lc),
     log_Color := set_changed (lf_Color fl) Some (log_Color lc)\<rparr>"

text \<open>What the logger is installed with.\<close>

record log_settings =
  ls_level :: string
  ls_format :: string
  ls_output :: string
  ls_color :: bool
  ls_file :: string
  ls_fileFormat :: string

definition log_settings_of :: "log_flags \<Rightarrow> log_cfg \<Rightarrow> log_settings" where
  "log_settings_of fl lc = \<lparr>ls_level = logStr (lf_Level fl) (log_Level lc), ls_format = logStr (lf_Format fl) (log_Format lc),
     ls_output = logStr (lf_Output fl) (log_Output lc), ls_color = logBool (lf_Color fl) (log_Color lc),
     ls_file = logStr (lf_File fl) (log_File lc), ls_fileFormat = logStr (lf_FileFormat fl) (log_FileFormat lc)\<rparr>"

definition applyMasking :: "string \<Rightarrow> bool" where
  "applyMasking level \<longleftrightarrow> \<not> equal_fold level ''debug''"

text \<open>
  \<open>setup\<close> opens the destinations and installs the logger; the result is the configuration, and whether
  masking is on.
\<close>

definition applyLogConfig :: "(log_settings \<Rightarrow> goerr option) \<Rightarrow> log_flags \<Rightarrow> log_cfg \<Rightarrow> (log_cfg \<times> bool) res" where
  "applyLogConfig setup fl lc = (let lc' = reflect_flags fl lc; st = log_settings_of fl lc' in
     (case setup st of Some err \<Rightarrow> Inl err | None \<Rightarrow> Inr (lc', applyMasking (ls_level st))))"

definition effectiveVerbose :: "log_flags \<Rightarrow> bool \<Rightarrow> log_cfg \<Rightarrow> bool" where
  "effectiveVerbose fl verbose lc \<longleftrightarrow> verbose \<or> equal_fold (logStr (lf_Level fl) (log_Level lc)) ''debug''"

definition colorOutput :: "bool \<Rightarrow> log_flags \<Rightarrow> log_cfg \<Rightarrow> bool" where
  "colorOutput isTerminal fl lc \<longleftrightarrow> logBool (lf_Color fl) (log_Color lc) \<and> isTerminal"

text \<open>
  For every log setting a flag the operator set wins over the Deployfile, which wins over the flag's
  default; writing the set flags back into the configuration changes none of the settings, so they are
  the same however often the configuration is applied; output is masked exactly when it is not a
  debug run, and a debug run is verbose.
\<close>

theorem log_precedence:
  "log_settings_of fl (reflect_flags fl lc) = log_settings_of fl lc
   \<and> reflect_flags fl (reflect_flags fl lc) = reflect_flags fl lc
   \<and> ls_level (log_settings_of fl lc) = (if fst (lf_Level fl) then snd (lf_Level fl)
        else if log_Level lc \<noteq> [] then log_Level lc else snd (lf_Level fl))
   \<and> ls_color (log_settings_of fl lc) = (if fst (lf_Color fl) then snd (lf_Color fl)
        else case log_Color lc of Some b \<Rightarrow> b | None \<Rightarrow> snd (lf_Color fl))
   \<and> (applyMasking (ls_level (log_settings_of fl lc)) \<or> effectiveVerbose fl verbose lc)"
proof (intro conjI)
  have str: "logStr fl (set_changed fl id v) = logStr fl v" for fl v by (simp add: logStr_def set_changed_def)
  have bool: "logBool fl (set_changed fl Some v) = logBool fl v" for fl v
    by (simp add: logBool_def set_changed_def split: option.split)
  show "log_settings_of fl (reflect_flags fl lc) = log_settings_of fl lc"
    by (simp add: log_settings_of_def reflect_flags_def str bool)
  show "reflect_flags fl (reflect_flags fl lc) = reflect_flags fl lc"
    by (simp add: reflect_flags_def set_changed_def)
qed (simp_all add: log_settings_of_def logStr_def logBool_def applyMasking_def effectiveVerbose_def split: option.split)

section \<open>The exit code\<close>

text \<open>\<open>rootErr\<close> is the error of the root context, set once a signal arrived.\<close>

definition interrupted :: "goerr option \<Rightarrow> goerr option \<Rightarrow> bool" where
  "interrupted rootErr err \<longleftrightarrow> rootErr \<noteq> None \<and> (case err of None \<Rightarrow> False | Some e \<Rightarrow> Canceled \<in> set (chain e))"

definition Execute :: "goerr option \<Rightarrow> goerr option \<Rightarrow> int" where
  "Execute rootErr err = (case err of None \<Rightarrow> CodeOK
     | Some e \<Rightarrow> if interrupted rootErr err then CodeInterrupted else code (Some e))"

lemma code_not_OK: "code (Some e) \<noteq> CodeOK"
proof -
  have "code_method x = Some c \<Longrightarrow> c \<noteq> CodeOK" for x c by (cases x) (auto simp: code_defs)
  then have "CodeOK \<notin> set (List.map_filter code_method es)" for es
    by (induction es) (auto simp: List.map_filter_simps split: option.split)
  from this[of "chain e"] show ?thesis
    by (cases "List.map_filter code_method (chain e)") (auto simp: code_def as_coded_def code_defs)
qed

text \<open>
  The exit code of a run: success exactly when the command returned no error, the interrupt code only
  after a signal and only when the error is the cancellation it caused, else the code of the error.
\<close>

theorem Execute_code:
  "(Execute rootErr err = CodeOK \<longleftrightarrow> err = None)
   \<and> (Execute rootErr err = CodeInterrupted \<longleftrightarrow> interrupted rootErr err)
   \<and> (Execute rootErr err = CodeInterrupted \<or> Execute rootErr err = code err)"
proof (cases err)
  case None
  then show ?thesis by (simp add: Execute_def interrupted_def code_def code_defs)
next
  case (Some e)
  have "code (Some e) \<noteq> CodeOK" by (rule code_not_OK)
  moreover have "code (Some e) \<noteq> CodeInterrupted" using code_range[of "Some e"] by (auto simp: code_defs)
  ultimately show ?thesis using Some by (simp add: Execute_def code_defs)
qed

end
