(* ===== verification/Cli_Load.thy ===== *)
theory Cli_Load
  imports Load Tasks Cli_Args
begin

text \<open>
  Loading the configuration of a command (\<open>internal/cli/root.go\<close>, \<open>checktmpl.go\<close>): the file is found and
  loaded, the log settings are applied, the values that may be templates are rendered, the plugins of the
  stage are chosen, every other template is checked, and then the plugins configure themselves and run
  their startup hooks.

  Rendering may register secrets, so each step takes the masking registry and returns it. The record
  \<open>cli\<close> holds what is not code of the repository: the file system with its decoders, the template engine, the
  logger, the marshalling of a configuration, and the table of the compiled-in plugins.
\<close>

record ('t, 'v, 'w) cli =
  cl_fuel :: nat
  cl_sv :: "'v semver"
  cl_fs :: fs
  cl_engine :: "'t engine"
  cl_deployer :: string
  cl_AsMap :: "deploy_file \<Rightarrow> yval"
  cl_setup :: "log_settings \<Rightarrow> goerr option"
  cl_flags :: log_flags
  cl_rules :: "(string \<Rightarrow> string) list"
  cl_table :: "'w plugin_table"

type_synonym 'a noted = "'a res \<times> registry"

definition note_all :: "string list \<Rightarrow> registry \<Rightarrow> registry" where
  "note_all secs reg = fold AddSecret secs reg"

definition noted_bind :: "'a noted \<Rightarrow> ('a \<Rightarrow> registry \<Rightarrow> 'b noted) \<Rightarrow> 'b noted" where
  "noted_bind m f = (case m of (Inl err, reg) \<Rightarrow> (Inl err, reg) | (Inr x, reg) \<Rightarrow> f x reg)"

text \<open>A rendering with its secrets registered and its error labelled.\<close>

definition noted :: "string \<Rightarrow> 'a res \<times> string list \<Rightarrow> registry \<Rightarrow> 'a noted" where
  "noted label r reg = (map_err (wrapf label) (fst r), note_all (snd r) reg)"

section \<open>Values rendered at load time\<close>

definition loadTimeContext :: "string \<Rightarrow> deploy_file \<Rightarrow> tctx" where
  "loadTimeContext deployer cfg = (let layout = paths_For (app_DeployTo (cfg_App cfg)) in
     zero_tctx\<lparr>tc_Vars := cfg_Vars cfg, tc_AppName := app_Name (cfg_App cfg), tc_Repo := app_Repo (cfg_App cfg),
       tc_Branch := app_Branch (cfg_App cfg), tc_KeepReleases := app_KeepReleases (cfg_App cfg),
       tc_Stage := cfg_Stage cfg, tc_Deployer := deployer, tc_DeployTo := l_DeployTo layout,
       tc_ReleasesPath := l_ReleasesPath layout, tc_SharedPath := l_SharedPath layout,
       tc_RepoPath := l_RepoPath layout, tc_CurrentPath := l_CurrentPath layout,
       tc_EnvFileValues := cfg_EnvFileValues cfg\<rparr>)"

definition renderVars :: "'t engine \<Rightarrow> string \<Rightarrow> deploy_file \<Rightarrow> registry \<Rightarrow> deploy_file noted" where
  "renderVars en who cfg reg = (if cfg_Vars cfg = [] then (Inr cfg, reg)
     else noted_bind (noted ''vars'' (RenderParams en (cfg_Vars cfg) ((loadTimeContext who cfg)\<lparr>tc_Vars := []\<rparr>) True) reg)
       (\<lambda>vs reg. (Inr (cfg\<lparr>cfg_Vars := vs\<rparr>), reg)))"

definition renderAppBranch :: "'t engine \<Rightarrow> string \<Rightarrow> deploy_file \<Rightarrow> registry \<Rightarrow> deploy_file noted" where
  "renderAppBranch en who cfg reg = (if \<not> contains_str (app_Branch (cfg_App cfg)) ''{{'' then (Inr cfg, reg)
     else noted_bind (noted ''app.branch'' (RenderWith en (app_Branch (cfg_App cfg)) (loadTimeContext who cfg) True) reg)
       (\<lambda>s reg. (Inr (cfg\<lparr>cfg_App := (cfg_App cfg)\<lparr>app_Branch := (if s \<noteq> [] then s else DefaultBranch)\<rparr>\<rparr>), reg)))"

text \<open>\<open>renderSecret\<close>, and the rendering of one field of an identity, which does not register yet.\<close>

definition render_field :: "'t engine \<Rightarrow> tctx \<Rightarrow> string \<Rightarrow> string \<Rightarrow> registry \<Rightarrow> string noted" where
  "render_field en c label val reg = (if val = [] then (Inr [], reg) else noted label (RenderWith en val c True) reg)"

definition add_nonempty :: "string \<Rightarrow> registry \<Rightarrow> registry" where
  "add_nonempty s reg = (if s \<noteq> [] then AddSecret s reg else reg)"

definition renderSecret :: "'t engine \<Rightarrow> tctx \<Rightarrow> string \<Rightarrow> string \<Rightarrow> registry \<Rightarrow> string noted" where
  "renderSecret en c label val reg = (if val = [] then (Inr [], reg)
     else noted_bind (noted label (RenderWith en val c True) reg) (\<lambda>s reg. (Inr s, AddSecret s reg)))"

definition render_bastion :: "'t engine \<Rightarrow> tctx \<Rightarrow> bastion option \<Rightarrow> registry \<Rightarrow> bastion option noted" where
  "render_bastion en c ob reg = (case ob of None \<Rightarrow> (Inr None, reg)
     | Some b \<Rightarrow> noted_bind (renderSecret en c ''ssh.bastion.identity_file_passphrase'' (bas_IdentityFilePassphrase b) reg)
         (\<lambda>s reg. (Inr (Some (b\<lparr>bas_IdentityFilePassphrase := s\<rparr>)), reg)))"

fun render_hosts :: "'t engine \<Rightarrow> tctx \<Rightarrow> nat \<Rightarrow> host list \<Rightarrow> registry \<Rightarrow> host list noted" where
  "render_hosts en c i [] reg = (Inr [], reg)"
| "render_hosts en c i (h # hs) reg =
     noted_bind (renderSecret en c (idx ''hosts'' i @ ''.identity_file_passphrase'') (host_IdentityFilePassphrase h) reg)
       (\<lambda>s reg. noted_bind (render_hosts en c (Suc i) hs reg)
         (\<lambda>hs' reg. (Inr (h\<lparr>host_IdentityFilePassphrase := s\<rparr> # hs'), reg)))"

definition render_identity :: "'t engine \<Rightarrow> tctx \<Rightarrow> string \<Rightarrow> ssh_identity \<Rightarrow> registry \<Rightarrow> ssh_identity noted" where
  "render_identity en c name i reg = (let label = (\<lambda>f. ''ssh.identities.'' @ name @ ''.'' @ f) in
     noted_bind (render_field en c (label ''path'') (id_Path i) reg) (\<lambda>p reg.
     noted_bind (render_field en c (label ''content'') (id_Content i) reg) (\<lambda>k reg.
     noted_bind (render_field en c (label ''passphrase'') (id_Passphrase i) reg) (\<lambda>w reg.
       (Inr (i\<lparr>id_Path := p, id_Content := k, id_Passphrase := w\<rparr>), add_nonempty w (add_nonempty k reg))))))"

fun render_identities :: "'t engine \<Rightarrow> tctx \<Rightarrow> string list \<Rightarrow> ssh_identity smap \<Rightarrow> registry \<Rightarrow> ssh_identity smap noted" where
  "render_identities en c [] ids reg = (Inr ids, reg)"
| "render_identities en c (name # names) ids reg = (case m_get ids name of
      None \<Rightarrow> render_identities en c names ids reg
    | Some i \<Rightarrow> noted_bind (render_identity en c name i reg)
        (\<lambda>i' reg. render_identities en c names (m_put name i' ids) reg))"

definition renderSSHSecrets :: "'t engine \<Rightarrow> string \<Rightarrow> deploy_file \<Rightarrow> registry \<Rightarrow> deploy_file noted" where
  "renderSSHSecrets en who cfg reg = (let c = loadTimeContext who cfg; s = cfg_SSH cfg in
     noted_bind (renderSecret en c ''ssh.identity_file_passphrase'' (ssh_IdentityFilePassphrase s) reg) (\<lambda>pw reg.
     noted_bind (render_bastion en c (ssh_Bastion s) reg) (\<lambda>b reg.
     noted_bind (render_hosts en c 0 (cfg_Hosts cfg) reg) (\<lambda>hs reg.
     noted_bind (render_identities en c (sorted_keys (ssh_Identities s)) (ssh_Identities s) reg) (\<lambda>ids reg.
       (Inr (cfg\<lparr>cfg_SSH := s\<lparr>ssh_IdentityFilePassphrase := pw, ssh_Bastion := b, ssh_Identities := ids\<rparr>,
         cfg_Hosts := hs\<rparr>), reg))))))"

fun render_actions :: "'t engine \<Rightarrow> tctx \<Rightarrow> string \<Rightarrow> plugin_action_spec list \<Rightarrow> registry \<Rightarrow> plugin_action_spec list noted" where
  "render_actions en c plugin [] reg = (Inr [], reg)"
| "render_actions en c plugin (a # as) reg =
     noted_bind (noted (''plugins '' @ quoted plugin @ '' action '' @ quoted (pa_Name a) @ '' params'')
         (RenderParams en (pa_Params a) c True) reg)
       (\<lambda>ps reg. noted_bind (render_actions en c plugin as reg) (\<lambda>as' reg. (Inr (a\<lparr>pa_Params := ps\<rparr> # as'), reg)))"

fun render_plugins :: "'t engine \<Rightarrow> tctx \<Rightarrow> plugin_spec list \<Rightarrow> registry \<Rightarrow> plugin_spec list noted" where
  "render_plugins en c [] reg = (Inr [], reg)"
| "render_plugins en c (p # ps) reg =
     noted_bind (noted (''plugins '' @ quoted (ps_Name p) @ '' params'') (RenderParams en (ps_Params p) c True) reg)
       (\<lambda>params reg. noted_bind (render_actions en c (ps_Name p) (ps_Actions p) reg)
         (\<lambda>as reg. noted_bind (render_plugins en c ps reg)
           (\<lambda>ps' reg. (Inr (p\<lparr>ps_Params := params, ps_Actions := as\<rparr> # ps'), reg))))"

definition renderPluginParams :: "'t engine \<Rightarrow> string \<Rightarrow> deploy_file \<Rightarrow> registry \<Rightarrow> deploy_file noted" where
  "renderPluginParams en who cfg reg = (if cfg_Plugins cfg = [] then (Inr cfg, reg)
     else noted_bind (render_plugins en (loadTimeContext who cfg) (cfg_Plugins cfg) reg)
       (\<lambda>ps reg. (Inr (cfg\<lparr>cfg_Plugins := ps\<rparr>), reg)))"

section \<open>The template check\<close>

definition validateContext :: "('t, 'v, 'w) cli \<Rightarrow> deploy_file \<Rightarrow> tctx" where
  "validateContext cl cfg = (let c = loadTimeContext (cl_deployer cl) cfg;
       c = c\<lparr>tc_Config := cl_AsMap cl cfg, tc_ReleasePath := tc_CurrentPath c, tc_ReleaseTimestamp := ''19700101000000'',
         tc_CommitHash := replicate 40 (CHR ''0''), tc_PreviousCommitHash := replicate 40 (CHR ''0''),
         tc_Changelog := ''0000000|nobody|nobody@example.com|placeholder'', tc_Host := ''validate-host''\<rparr>
     in case FilterDeployable (cfg_Hosts cfg) of [] \<Rightarrow> c
        | h # _ \<Rightarrow> c\<lparr>tc_Host := host_Address h, tc_Roles := host_Roles h\<rparr>)"

definition word_char :: "char \<Rightarrow> bool" where
  "word_char c \<longleftrightarrow> env_rest c"

text \<open>\<open>taskStateRef\<close>; \<open>ok\<close>: the text starts here, or the character before is neither a dot nor a word character.\<close>

fun task_ref :: "bool \<Rightarrow> string \<Rightarrow> bool" where
  "task_ref ok [] = False"
| "task_ref ok (c # s) = (ok \<and> has_prefix (c # s) ''.tasks.'' \<or> task_ref (c \<noteq> CHR ''.'' \<and> \<not> word_char c) s)"

definition taskStateRef :: "string \<Rightarrow> bool" where
  "taskStateRef s = task_ref True s"

definition conciseErr :: "goerr \<Rightarrow> string" where
  "conciseErr err = (let msg = error_msg (root_cause err) in
     if has_prefix msg ''template: cmd:'' then ''line '' @ drop (length ''template: cmd:'') msg else msg)"

text \<open>What there is to check, in the order of the walk: a labelled text, or a script that cannot be read.\<close>

datatype template_item = Check string string | Unreadable goerr

fun checkParamValue :: "string \<Rightarrow> yval \<Rightarrow> template_item list"
  and check_entries :: "string \<Rightarrow> (string \<times> yval) list \<Rightarrow> (string \<times> template_item list) list"
  and check_elems :: "string \<Rightarrow> nat \<Rightarrow> yval list \<Rightarrow> template_item list" where
  "checkParamValue what (YStr s) = [Check what s]"
| "checkParamValue what (YMap m) = concat (map snd (sort_key fst (check_entries what m)))"
| "checkParamValue what (YList l) = check_elems what 0 l"
| "checkParamValue what YNull = []"
| "checkParamValue what (YBool b) = []"
| "checkParamValue what (YInt i) = []"
| "checkParamValue what (YOther s) = []"
| "check_entries what [] = []"
| "check_entries what ((k, v) # m) = (k, checkParamValue (what @ ''.'' @ k) v) # check_entries what m"
| "check_elems what i [] = []"
| "check_elems what i (v # l) = checkParamValue (idx what i) v @ check_elems what (Suc i) l"

definition scriptRef :: "script \<Rightarrow> string" where
  "scriptRef sc = (if sc_Path sc \<noteq> [] then sc_Path sc else if sc_Name sc \<noteq> [] then sc_Name sc else ''inline'')"

definition task_label :: "string \<Rightarrow> string" where
  "task_label name = ''task '' @ quoted name"

definition check_envs :: "string \<Rightarrow> string smap \<Rightarrow> template_item list" where
  "check_envs pre envs = map (\<lambda>(k, v). Check (pre @ ''envs.'' @ k) v) (sort_key fst envs)"

definition script_items :: "fs \<Rightarrow> string \<Rightarrow> string \<Rightarrow> script \<Rightarrow> template_item list" where
  "script_items f dir name sc = (let what = task_label name @ '' script '' @ scriptRef sc in
     if sc_Script sc \<noteq> [] then [Check what (sc_Script sc)]
     else if sc_Path sc = [] then []
     else (case fs_readfile f (if is_abs (sc_Path sc) then sc_Path sc else path_join [dir, sc_Path sc]) of
         Inl err \<Rightarrow> [Unreadable (wrapf what err)]
       | Inr data \<Rightarrow> if sc_Template sc \<or> has_suffix (sc_Path sc) ''.tmpl'' then [Check what data] else []))"

definition task_items :: "fs \<Rightarrow> string \<Rightarrow> string \<Rightarrow> task \<Rightarrow> template_item list" where
  "task_items f dir name t =
     check_envs (task_label name @ '' '') (task_Envs t)
     @ map (\<lambda>(i, c). Check (idx (task_label name @ '' cmds'') i) c) (List.enumerate 0 (task_Cmds t))
     @ (if task_Dir t \<noteq> [] then [Check (task_label name @ '' dir'') (task_Dir t)] else [])
     @ (if task_With t \<noteq> [] then checkParamValue (task_label name @ '' with'') (YMap (task_With t)) else [])
     @ concat (map (script_items f dir name) (task_Scripts t))"

definition template_items :: "fs \<Rightarrow> deploy_file \<Rightarrow> template_item list" where
  "template_items f cfg = check_envs [] (cfg_Envs cfg)
     @ concat (map (\<lambda>(name, ot). case ot of None \<Rightarrow> []
         | Some t \<Rightarrow> if ActiveForStage t (cfg_Stage cfg) then task_items f (ScriptsLocation f cfg) name t else [])
       (sort_key fst (cfg_Tasks cfg)))"

definition check_item :: "'t engine \<Rightarrow> tctx \<Rightarrow> template_item \<Rightarrow> goerr list \<times> registry \<Rightarrow> goerr list \<times> registry" where
  "check_item en c it er = (case it of
      Unreadable err \<Rightarrow> (fst er @ [err], snd er)
    | Check what text \<Rightarrow> if taskStateRef text then er
        else (case RenderWith en text c False of
            (Inl err, secs) \<Rightarrow> (fst er @ [Text (what @ '': '' @ conciseErr err)], note_all secs (snd er))
          | (Inr _, secs) \<Rightarrow> (fst er, note_all secs (snd er))))"

definition checkTemplates :: "('t, 'v, 'w) cli \<Rightarrow> deploy_file \<Rightarrow> registry \<Rightarrow> goerr list \<times> registry" where
  "checkTemplates cl cfg reg =
     fold (check_item (cl_engine cl) (validateContext cl cfg)) (template_items (cl_fs cl) cfg) ([], reg)"

text \<open>The findings go through the masking writer; the result is the error and what was printed.\<close>

definition masked_print :: "bool \<Rightarrow> (string \<Rightarrow> string) \<Rightarrow> string list \<Rightarrow> string" where
  "masked_print disabled msk ps = snd (snd (Writer_Flush msk append_to
     (fold (\<lambda>p bw. snd (Writer_Write disabled msk append_to p bw)) ps ([], []))))"

definition reportTemplateFindings :: "bool \<Rightarrow> (string \<Rightarrow> string) \<Rightarrow> goerr list \<Rightarrow> goerr option \<times> string" where
  "reportTemplateFindings disabled msk findings = (if findings = [] then (None, [])
     else (Some (Text (''template check: '' @ itoa (int (length findings)) @ '' problem(s)'')),
       masked_print disabled msk ((''template check failed:'' @ [nl]) # map (\<lambda>e. ''  - '' @ error_msg e @ [nl]) findings)))"

section \<open>Loading\<close>

text \<open>The steps of \<open>resolveOffline\<close> after the file is loaded; the second result is what was printed.\<close>

definition render_config :: "('t, 'v, 'w) cli \<Rightarrow> deploy_file \<Rightarrow> registry \<Rightarrow> deploy_file noted" where
  "render_config cl cfg reg = (let en = cl_engine cl; who = cl_deployer cl in
     noted_bind (renderVars en who cfg reg) (\<lambda>cfg reg.
     noted_bind (renderAppBranch en who cfg reg) (\<lambda>cfg reg.
     noted_bind (renderSSHSecrets en who cfg reg) (\<lambda>cfg reg.
       renderPluginParams en who
         (selectPluginsForStage (cfg\<lparr>cfg_Plugins := DefaultSpecs (cl_table cl) (cfg_Plugins cfg)\<rparr>)) reg))))"

definition resolve_loaded :: "('t, 'v, 'w) cli \<Rightarrow> deploy_file \<Rightarrow> registry \<Rightarrow> deploy_file noted \<times> string" where
  "resolve_loaded cl cfg reg = (case applyLogConfig (cl_setup cl) (cl_flags cl) (cfg_Log cfg) of
      Inl err \<Rightarrow> ((Inl err, reg), [])
    | Inr (lc, masked) \<Rightarrow> (case render_config cl (cfg\<lparr>cfg_Log := lc\<rparr>) reg of
          (Inl err, reg') \<Rightarrow> ((Inl err, reg'), [])
        | (Inr cfg', reg') \<Rightarrow> (case checkTemplates cl cfg' reg' of
            (findings, reg'') \<Rightarrow>
              (case reportTemplateFindings (\<not> masked) (mask_String (\<not> masked) (cl_rules cl) reg'') findings of
                 (Some err, out) \<Rightarrow> ((Inl err, reg''), out) | (None, out) \<Rightarrow> ((Inr cfg', reg''), out)))))"

definition resolveOffline :: "('t, 'v, 'w) cli \<Rightarrow> string \<Rightarrow> string \<Rightarrow> registry \<Rightarrow> (deploy_file noted \<times> string) option" where
  "resolveOffline cl given stage reg = (case Discover (cl_fs cl) ''.'' given of
      Inl err \<Rightarrow> Some ((Inl err, reg), [])
    | Inr path \<Rightarrow> (case Load (cl_fuel cl) (cl_sv cl) (cl_fs cl) path stage of
          None \<Rightarrow> None
        | Some (Inl err) \<Rightarrow> Some ((Inl err, reg), [])
        | Some (Inr cfg) \<Rightarrow> Some (resolve_loaded cl cfg reg)))"

definition loadOffline :: "('t, 'v, 'w) cli \<Rightarrow> string \<Rightarrow> string \<Rightarrow> registry \<Rightarrow> (deploy_file noted \<times> string) option" where
  "loadOffline cl given stage reg = map_option (\<lambda>((r, reg'), out). ((map_err (\<lambda>e. the (as_config (Some e))) r, reg'), out))
     (resolveOffline cl given stage reg)"

text \<open>The plugin part of \<open>loadConfig\<close>: the configuration and the registry of the plugins, or the error.\<close>

definition start_plugins :: "'w plugin_table \<Rightarrow> deploy_file \<Rightarrow> 'w
    \<Rightarrow> (deploy_file \<times> 'w plugin_registry) res \<times> string list \<times> 'w" where
  "start_plugins tbl cfg w = (case Load_plugins tbl (cfg_Plugins cfg) w of
      (Inl err, secs, w1) \<Rightarrow> (Inl err, secs, w1)
    | (Inr reg, secs, w1) \<Rightarrow> (case RunStartup reg cfg w1 of
          (Some err, _, secs', w') \<Rightarrow> (Inl (wrapf ''plugins startup'' err), secs @ secs', w')
        | (None, cfg', secs', w') \<Rightarrow> (case ValidateHooks (ApplyDefaults cfg') of
              Some err \<Rightarrow> (Inl err, secs @ secs', w') | None \<Rightarrow> (Inr (ApplyDefaults cfg', reg), secs @ secs', w'))))"

definition loadConfig :: "('t, 'v, 'w) cli \<Rightarrow> string \<Rightarrow> string \<Rightarrow> registry \<Rightarrow> 'w
    \<Rightarrow> ((deploy_file \<times> 'w plugin_registry) res \<times> registry \<times> string \<times> 'w) option" where
  "loadConfig cl given stage reg w = (case loadOffline cl given stage reg of
      None \<Rightarrow> None
    | Some ((Inl err, reg'), out) \<Rightarrow> Some (Inl err, reg', out, w)
    | Some ((Inr cfg, reg'), out) \<Rightarrow> (case start_plugins (cl_table cl) cfg w of
        (r, secs, w') \<Rightarrow> Some (r, note_all secs reg', out, w')))"

section \<open>The registry only grows\<close>

definition reg_le :: "registry \<Rightarrow> registry \<Rightarrow> bool" where
  "reg_le r r' \<longleftrightarrow> (registry_ok r \<longrightarrow> registry_ok r' \<and> set (secrets r) \<subseteq> set (secrets r'))"

lemma reg_le_refl [simp]: "reg_le r r" by (simp add: reg_le_def)

lemma reg_le_trans: "reg_le r s \<Longrightarrow> reg_le s t \<Longrightarrow> reg_le r t" by (auto simp: reg_le_def)

lemma reg_le_AddSecret [simp]: "reg_le r (AddSecret s r)"
  using AddSecret_registry[of r s] by (auto simp: reg_le_def)

lemma reg_le_note_all [simp]: "reg_le r (note_all secs r)"
proof (induction secs arbitrary: r)
  case (Cons s secs)
  then show ?case using reg_le_trans[OF reg_le_AddSecret Cons[of "AddSecret s r"]] by (simp add: note_all_def)
qed (simp add: note_all_def)

text \<open>What every step of loading is: the registry after it holds what was registered before.\<close>

definition grows :: "(registry \<Rightarrow> 'a noted) \<Rightarrow> bool" where
  "grows f \<longleftrightarrow> (\<forall>r. reg_le r (snd (f r)))"

lemma grows_ret [intro]: "grows (\<lambda>r. (x, r))" by (simp add: grows_def)

lemma grows_noted [intro]: "grows (noted label m)" by (simp add: grows_def noted_def)

lemma grows_add [intro]: "grows (\<lambda>r. (x, AddSecret s r))" by (simp add: grows_def)

lemma grows_bind [intro]:
  assumes "grows f" "\<And>x. grows (g x)"
  shows "grows (\<lambda>r. noted_bind (f r) g)"
proof -
  have "reg_le r (snd (noted_bind (f r) g))" for r
    using assms reg_le_trans[of r "snd (f r)"] by (auto simp: grows_def noted_bind_def split: prod.split sum.split)
  then show ?thesis by (simp add: grows_def)
qed

lemma grows_if [intro]: "grows f \<Longrightarrow> grows g \<Longrightarrow> grows (\<lambda>r. if b then f r else g r)" by (simp add: grows_def)

lemma noted_bind_ok: "noted_bind m f = (Inr y, r') \<Longrightarrow> \<exists>x r. m = (Inr x, r) \<and> f x r = (Inr y, r')"
  by (auto simp: noted_bind_def split: prod.splits sum.splits)

lemma grows_okD: "grows f \<Longrightarrow> f r = (x, r') \<Longrightarrow> reg_le r r'"
  unfolding grows_def by (metis snd_conv)

lemma grows_secret [intro]: "grows (renderSecret en c label v)"
  unfolding renderSecret_def[abs_def] by (intro grows_if grows_bind grows_ret grows_noted grows_add)

lemma grows_field [intro]: "grows (render_field en c label v)"
  unfolding render_field_def[abs_def] by (intro grows_if grows_ret grows_noted)

lemma grows_bastion [intro]: "grows (render_bastion en c ob)"
  unfolding render_bastion_def[abs_def] by (cases ob) (auto intro!: grows_bind)

lemma grows_hosts [intro]: "grows (render_hosts en c i hs)"
proof (induction hs arbitrary: i)
  case Nil
  then show ?case by (simp add: grows_def)
next
  case (Cons h hs)
  then show ?case unfolding render_hosts.simps[abs_def] by (intro grows_bind grows_secret grows_ret)
qed

lemma reg_le_add_nonempty [simp]: "reg_le r (add_nonempty s r)" by (simp add: add_nonempty_def)

lemma grows_identity [intro]: "grows (render_identity en c name i)"
proof -
  have "grows (\<lambda>r. (x, add_nonempty w (add_nonempty k r)))" for x :: "ssh_identity res" and w k
    using reg_le_trans[OF reg_le_add_nonempty reg_le_add_nonempty] by (simp add: grows_def)
  then show ?thesis unfolding render_identity_def[abs_def] Let_def by (intro grows_bind grows_field)
qed

lemma grows_identities [intro]: "grows (render_identities en c names ids)"
proof (induction names arbitrary: ids)
  case Nil
  then show ?case by (simp add: grows_def)
next
  case (Cons n names)
  then show ?case unfolding render_identities.simps[abs_def] by (cases "m_get ids n") (auto intro!: grows_bind)
qed

lemma grows_actions [intro]: "grows (render_actions en c plugin as)"
proof (induction as)
  case Nil
  then show ?case by (simp add: grows_def)
next
  case (Cons a as)
  then show ?case unfolding render_actions.simps[abs_def] by (intro grows_bind grows_noted grows_ret)
qed

lemma grows_plugins [intro]: "grows (render_plugins en c ps)"
proof (induction ps)
  case Nil
  then show ?case by (simp add: grows_def)
next
  case (Cons p ps)
  then show ?case unfolding render_plugins.simps[abs_def] by (intro grows_bind grows_noted grows_ret grows_actions)
qed

lemma grows_steps [intro]:
  "grows (renderVars en who cfg)" "grows (renderAppBranch en who cfg)" "grows (renderSSHSecrets en who cfg)"
  "grows (renderPluginParams en who cfg)"
  unfolding renderVars_def[abs_def] renderAppBranch_def[abs_def] renderSSHSecrets_def[abs_def] renderPluginParams_def[abs_def] Let_def
  by (intro grows_if grows_bind grows_ret grows_noted grows_secret grows_bastion grows_hosts grows_identities grows_plugins)+

section \<open>Secrets of the configuration are registered\<close>

definition covered :: "registry \<Rightarrow> string \<Rightarrow> bool" where
  "covered r s \<longleftrightarrow> registry_ok r \<and> set (secret_values s) \<subseteq> set (secrets r)"

lemma covered_empty [simp]: "covered r [] \<longleftrightarrow> registry_ok r"
  by (simp add: covered_def secret_values_def trim_space_def trim_left_def trim_right_def minSecretLen_def)

lemma covered_mono: "covered r s \<Longrightarrow> reg_le r r' \<Longrightarrow> covered r' s"
  by (auto simp: covered_def reg_le_def)

lemma ok_mono: "registry_ok r \<Longrightarrow> reg_le r r' \<Longrightarrow> registry_ok r'" by (simp add: reg_le_def)

lemma covered_AddSecret: "registry_ok r \<Longrightarrow> covered (AddSecret s r) s"
  using AddSecret_registry[of r s] by (simp add: covered_def)

lemma covered_nonempty: "registry_ok r \<Longrightarrow> covered (add_nonempty s r) s"
  by (simp add: add_nonempty_def covered_AddSecret)

lemma renderSecret_covers:
  assumes "renderSecret en c label v r = (Inr s, r')" "registry_ok r"
  shows "covered r' s"
proof (cases "v = []")
  case False
  then obtain r1 where r1: "noted label (RenderWith en v c True) r = (Inr s, r1)" "r' = AddSecret s r1"
    using assms(1) by (auto simp: renderSecret_def dest!: noted_bind_ok)
  have "registry_ok r1" using assms(2) grows_okD[OF grows_noted r1(1)] by (rule ok_mono)
  then show ?thesis unfolding r1(2) by (rule covered_AddSecret)
qed (use assms in \<open>auto simp: renderSecret_def\<close>)

lemma bastion_covers:
  "render_bastion en c ob r = (Inr ob', r') \<Longrightarrow> registry_ok r \<Longrightarrow>
     pred_option (\<lambda>b. covered r' (bas_IdentityFilePassphrase b)) ob'"
  by (cases ob) (auto simp: render_bastion_def dest!: noted_bind_ok intro: renderSecret_covers)

lemma hosts_cover:
  "render_hosts en c i hs r = (Inr hs', r') \<Longrightarrow> registry_ok r \<Longrightarrow> \<forall>h\<in>set hs'. covered r' (host_IdentityFilePassphrase h)"
proof (induction hs arbitrary: i r hs')
  case (Cons h hs)
  obtain s r1 hs1 where s: "renderSecret en c (idx ''hosts'' i @ ''.identity_file_passphrase'') (host_IdentityFilePassphrase h) r = (Inr s, r1)"
    "render_hosts en c (Suc i) hs r1 = (Inr hs1, r')" "hs' = h\<lparr>host_IdentityFilePassphrase := s\<rparr> # hs1"
    using Cons.prems(1) by (auto dest!: noted_bind_ok)
  have "covered r1 s" "registry_ok r1" using renderSecret_covers[OF s(1) Cons.prems(2)] by (simp_all add: covered_def)
  then show ?case using Cons.IH[OF s(2)] covered_mono[OF _ grows_okD[OF grows_hosts s(2)]] s(3) by simp
qed simp

lemma identity_covers:
  assumes "render_identity en c name i r = (Inr i', r')" "registry_ok r"
  shows "covered r' (id_Content i')" "covered r' (id_Passphrase i')"
proof -
  let ?f = "\<lambda>f. ''ssh.identities.'' @ name @ ''.'' @ f"
  obtain p r1 k r2 w r3 where p: "render_field en c (?f ''path'') (id_Path i) r = (Inr p, r1)"
    "render_field en c (?f ''content'') (id_Content i) r1 = (Inr k, r2)"
    "render_field en c (?f ''passphrase'') (id_Passphrase i) r2 = (Inr w, r3)"
    and i: "i' = i\<lparr>id_Path := p, id_Content := k, id_Passphrase := w\<rparr>" "r' = add_nonempty w (add_nonempty k r3)"
    using assms(1) unfolding render_identity_def Let_def by (auto dest!: noted_bind_ok)
  have "registry_ok r3" using assms(2) p(1,2,3)[THEN grows_okD[OF grows_field]] by (simp add: reg_le_def)
  then have "covered (add_nonempty k r3) k" by (rule covered_nonempty)
  then show "covered r' (id_Content i')" "covered r' (id_Passphrase i')"
    using i covered_mono[OF _ reg_le_add_nonempty] covered_nonempty[of "add_nonempty k r3" w] by (simp_all add: covered_def)
qed

definition id_covered :: "registry \<Rightarrow> ssh_identity \<Rightarrow> bool" where
  "id_covered r i \<longleftrightarrow> covered r (id_Content i) \<and> covered r (id_Passphrase i)"

lemma id_covered_mono: "id_covered r i \<Longrightarrow> reg_le r r' \<Longrightarrow> id_covered r' i"
  by (auto simp: id_covered_def intro: covered_mono)

lemma identities_cover:
  assumes "render_identities en c names ids r = (Inr ids', r')" "registry_ok r"
    and "\<And>k. k \<notin> set names \<Longrightarrow> pred_option (id_covered r) (m_get ids k)"
  shows "pred_option (id_covered r') (m_get ids' k) \<and> (wf_map ids \<longrightarrow> wf_map ids')"
  using assms
proof (induction names arbitrary: ids r)
  case (Cons n names)
  show ?case
  proof (cases "m_get ids n")
    case None
    then have "pred_option (id_covered r) (m_get ids k)" if "k \<notin> set names" for k
      using Cons.prems(3)[of k] that by (cases "k = n") simp_all
    then show ?thesis using Cons.IH[OF _ Cons.prems(2)] Cons.prems(1) None by simp
  next
    case (Some i)
    then obtain i' r1 where i: "render_identity en c n i r = (Inr i', r1)"
      "render_identities en c names (m_put n i' ids) r1 = (Inr ids', r')"
      using Cons.prems(1) by (auto dest!: noted_bind_ok)
    have le: "reg_le r r1" by (rule grows_okD[OF grows_identity i(1)])
    have i': "id_covered r1 i'" using identity_covers[OF i(1) Cons.prems(2)] by (simp add: id_covered_def)
    have "pred_option (id_covered r1) (m_get (m_put n i' ids) k)" if "k \<notin> set names" for k
    proof (cases "k = n")
      case False
      then have "pred_option (id_covered r) (m_get ids k)" using Cons.prems(3) that by simp
      then have "pred_option (id_covered r1) (m_get ids k)"
        using id_covered_mono[OF _ le] by (cases "m_get ids k") simp_all
      then show ?thesis using False by simp
    qed (simp add: i')
    then have "pred_option (id_covered r') (m_get ids' k) \<and> (wf_map (m_put n i' ids) \<longrightarrow> wf_map ids')"
      by (rule Cons.IH[OF i(2) ok_mono[OF Cons.prems(2) le]])
    then show ?thesis using wf_map_put[of ids n i'] by blast
  qed
qed simp

text \<open>The secrets of a configuration: the passphrases and the key material.\<close>

definition ssh_secrets :: "deploy_file \<Rightarrow> string list" where
  "ssh_secrets cfg = ssh_IdentityFilePassphrase (cfg_SSH cfg)
     # (case ssh_Bastion (cfg_SSH cfg) of None \<Rightarrow> [] | Some b \<Rightarrow> [bas_IdentityFilePassphrase b])
     @ map host_IdentityFilePassphrase (cfg_Hosts cfg)
     @ concat (map (\<lambda>(_, i). [id_Content i, id_Passphrase i]) (ssh_Identities (cfg_SSH cfg)))"

lemma renderSSHSecrets_covers:
  assumes "renderSSHSecrets en who cfg r = (Inr cfg', r')" "registry_ok r" "wf_map (ssh_Identities (cfg_SSH cfg))"
  shows "\<forall>s\<in>set (ssh_secrets cfg'). covered r' s"
proof -
  let ?c = "loadTimeContext who cfg"
  obtain pw r1 b r2 hs r3 ids where 1: "renderSecret en ?c ''ssh.identity_file_passphrase'' (ssh_IdentityFilePassphrase (cfg_SSH cfg)) r = (Inr pw, r1)"
    and 2: "render_bastion en ?c (ssh_Bastion (cfg_SSH cfg)) r1 = (Inr b, r2)"
    and 3: "render_hosts en ?c 0 (cfg_Hosts cfg) r2 = (Inr hs, r3)"
    and 4: "render_identities en ?c (sorted_keys (ssh_Identities (cfg_SSH cfg))) (ssh_Identities (cfg_SSH cfg)) r3 = (Inr ids, r')"
    and cfg': "cfg' = cfg\<lparr>cfg_SSH := (cfg_SSH cfg)\<lparr>ssh_IdentityFilePassphrase := pw, ssh_Bastion := b, ssh_Identities := ids\<rparr>, cfg_Hosts := hs\<rparr>"
    using assms(1) unfolding renderSSHSecrets_def Let_def by (auto dest!: noted_bind_ok)
  have le: "reg_le r1 r2" "reg_le r2 r3" "reg_le r3 r'"
    using grows_okD[OF grows_bastion 2] grows_okD[OF grows_hosts 3] grows_okD[OF grows_identities 4] .
  have ok: "registry_ok r1" "registry_ok r2" "registry_ok r3"
    using assms(2) grows_okD[OF grows_secret 1] le by (simp_all add: reg_le_def)
  have pw: "covered r' pw" using renderSecret_covers[OF 1 assms(2)] le covered_mono by blast
  have b: "pred_option (\<lambda>b. covered r' (bas_IdentityFilePassphrase b)) b"
    using bastion_covers[OF 2 ok(1)] covered_mono[OF _ reg_le_trans[OF le(2,3)]] by (cases b) simp_all
  have hs: "\<forall>h\<in>set hs. covered r' (host_IdentityFilePassphrase h)"
    using hosts_cover[OF 3 ok(2)] le(3) covered_mono by blast
  have "pred_option (id_covered r3) (m_get (ssh_Identities (cfg_SSH cfg)) k)" if "k \<notin> set (sorted_keys (ssh_Identities (cfg_SSH cfg)))" for k
    using that by (metis m_get_None_iff option.pred_inject(1) set_sorted_keys)
  then have id: "pred_option (id_covered r') (m_get ids k) \<and> wf_map ids" for k
    using identities_cover[OF 4 ok(3)] assms(3) by blast
  then have "id_covered r' i" if "(k, i) \<in> set ids" for k i using that wf_map_get_iff[of ids k i] id[of k] by simp
  then show ?thesis using pw b hs unfolding cfg' ssh_secrets_def by (cases b) (auto simp: id_covered_def)
qed

section \<open>What a load leaves of the configuration\<close>

lemma map_err_Inr [simp]: "map_err f r = Inr x \<longleftrightarrow> r = Inr x" by (cases r) simp_all

lemma map_err_Inl: "map_err f r = Inl e \<longleftrightarrow> (\<exists>x. r = Inl x \<and> e = f x)" by (cases r) auto

lemma noted_ok: "noted label m r = (Inr x, r') \<longleftrightarrow> fst m = Inr x \<and> r' = note_all (snd m) r"
  by (auto simp: noted_def)

lemma renderVars_frame: "renderVars en who cfg r = (Inr cfg', r') \<Longrightarrow> \<exists>vs. cfg' = cfg\<lparr>cfg_Vars := vs\<rparr>"
  by (auto simp: renderVars_def dest!: noted_bind_ok split: if_splits intro: exI[of _ "cfg_Vars cfg"])

lemma renderAppBranch_frame: "renderAppBranch en who cfg r = (Inr cfg', r') \<Longrightarrow>
    \<exists>b. cfg' = cfg\<lparr>cfg_App := (cfg_App cfg)\<lparr>app_Branch := b\<rparr>\<rparr> \<and> (b = [] \<longrightarrow> app_Branch (cfg_App cfg) = [])"
  by (auto simp: renderAppBranch_def DefaultBranch_def dest!: noted_bind_ok split: if_splits
      intro: exI[of _ "app_Branch (cfg_App cfg)"])

definition no_pass :: "host \<Rightarrow> host" where
  "no_pass h = h\<lparr>host_IdentityFilePassphrase := []\<rparr>"

lemma render_hosts_frame: "render_hosts en c i hs r = (Inr hs', r') \<Longrightarrow> map no_pass hs' = map no_pass hs"
  by (induction hs arbitrary: i r hs') (auto simp: no_pass_def dest!: noted_bind_ok)

lemma renderSSHSecrets_frame: "renderSSHSecrets en who cfg r = (Inr cfg', r') \<Longrightarrow>
    \<exists>s hs. cfg' = cfg\<lparr>cfg_SSH := s, cfg_Hosts := hs\<rparr> \<and> map no_pass hs = map no_pass (cfg_Hosts cfg)"
  by (fastforce simp: renderSSHSecrets_def Let_def dest!: noted_bind_ok dest: render_hosts_frame)

definition no_params :: "plugin_spec \<Rightarrow> plugin_spec" where
  "no_params p = p\<lparr>ps_Params := [], ps_Actions := map (\<lambda>a. a\<lparr>pa_Params := []\<rparr>) (ps_Actions p)\<rparr>"

lemma render_actions_frame: "render_actions en c n as r = (Inr as', r') \<Longrightarrow>
    map (\<lambda>a. a\<lparr>pa_Params := []\<rparr>) as' = map (\<lambda>a. a\<lparr>pa_Params := []\<rparr>) as"
  by (induction as arbitrary: r as') (auto dest!: noted_bind_ok)

lemma render_plugins_frame: "render_plugins en c ps r = (Inr ps', r') \<Longrightarrow> map no_params ps' = map no_params ps"
  by (induction ps arbitrary: r ps') (auto simp: no_params_def dest!: noted_bind_ok dest: render_actions_frame)

lemma renderPluginParams_frame: "renderPluginParams en who cfg r = (Inr cfg', r') \<Longrightarrow>
    \<exists>ps. cfg' = cfg\<lparr>cfg_Plugins := ps\<rparr> \<and> map no_params ps = map no_params (cfg_Plugins cfg)"
  by (auto simp: renderPluginParams_def dest!: noted_bind_ok split: if_splits dest: render_plugins_frame
      intro: exI[of _ "cfg_Plugins cfg"])

lemma resolve_loaded_steps:
  assumes "resolve_loaded cl cfg reg = ((Inr cfg', reg''), out)"
  obtains lc masked c1 r1 c2 r2 c3 r3 reg' where
    "applyLogConfig (cl_setup cl) (cl_flags cl) (cfg_Log cfg) = Inr (lc, masked)"
    "renderVars (cl_engine cl) (cl_deployer cl) (cfg\<lparr>cfg_Log := lc\<rparr>) reg = (Inr c1, r1)"
    "renderAppBranch (cl_engine cl) (cl_deployer cl) c1 r1 = (Inr c2, r2)"
    "renderSSHSecrets (cl_engine cl) (cl_deployer cl) c2 r2 = (Inr c3, r3)"
    "renderPluginParams (cl_engine cl) (cl_deployer cl)
       (selectPluginsForStage (c3\<lparr>cfg_Plugins := DefaultSpecs (cl_table cl) (cfg_Plugins c3)\<rparr>)) r3 = (Inr cfg', reg')"
    "checkTemplates cl cfg' reg' = ([], reg'')" "out = []"
proof -
  obtain lc masked where lc: "applyLogConfig (cl_setup cl) (cl_flags cl) (cfg_Log cfg) = Inr (lc, masked)"
    using assms by (auto simp: resolve_loaded_def split: sum.splits)
  obtain reg' where r: "render_config cl (cfg\<lparr>cfg_Log := lc\<rparr>) reg = (Inr cfg', reg')"
    and c: "checkTemplates cl cfg' reg' = ([], reg'')" "out = []"
    using assms lc by (auto simp: resolve_loaded_def reportTemplateFindings_def split: prod.splits sum.splits if_splits)
  show ?thesis
    using r unfolding render_config_def Let_def by (auto dest!: noted_bind_ok intro: that[OF lc _ _ _ _ c])
qed

section \<open>Findings\<close>

definition finding :: "'t engine \<Rightarrow> tctx \<Rightarrow> template_item \<Rightarrow> goerr option" where
  "finding en c it = (case it of Unreadable err \<Rightarrow> Some err
     | Check what text \<Rightarrow> if taskStateRef text then None
         else (case fst (RenderWith en text c False) of Inl err \<Rightarrow> Some (Text (what @ '': '' @ conciseErr err)) | Inr _ \<Rightarrow> None))"

lemma check_item_finding:
  "fst (check_item en c it er) = fst er @ (case finding en c it of Some err \<Rightarrow> [err] | None \<Rightarrow> [])"
  "reg_le (snd er) (snd (check_item en c it er))"
  by (auto simp: check_item_def finding_def split: template_item.split prod.split sum.split)

lemma check_items:
  "fst (fold (check_item en c) its er) = fst er @ List.map_filter (finding en c) its
   \<and> reg_le (snd er) (snd (fold (check_item en c) its er))"
proof (induction its arbitrary: er)
  case (Cons it its)
  show ?case using Cons[of "check_item en c it er"] check_item_finding[where en = en and c = c and it = it and er = er] reg_le_trans
    by (auto simp: List.map_filter_simps split: option.split)
qed (simp add: List.map_filter_simps)

lemma checkTemplates_findings:
  "fst (checkTemplates cl cfg reg) = List.map_filter (finding (cl_engine cl) (validateContext cl cfg)) (template_items (cl_fs cl) cfg)"
  "reg_le reg (snd (checkTemplates cl cfg reg))"
  using check_items[of "cl_engine cl" "validateContext cl cfg" "template_items (cl_fs cl) cfg" "([], reg)"]
  by (simp_all add: checkTemplates_def)

text \<open>
  C18. After a successful load no secret of the ssh settings can be printed: every passphrase and every key's
  content, rendered or literal, stays removed from any text, whatever secrets are registered later.
\<close>

theorem load_masks_ssh_secrets:
  assumes "resolve_loaded cl cfg reg = ((Inr cfg', reg'), out)" and "registry_ok reg"
    and "wf_map (ssh_Identities (cfg_SSH cfg))"
    and "s \<in> set (ssh_secrets cfg')" and "v \<in> set (secret_values s)" and "plain_secret v"
  shows "\<not> contains_str (replaceSecrets (note_all later reg') tmpl) v"
proof -
  from assms(1) obtain lc masked c1 r1 c2 r2 c3 r3 r4 where
    1: "renderVars (cl_engine cl) (cl_deployer cl) (cfg\<lparr>cfg_Log := lc\<rparr>) reg = (Inr c1, r1)"
    and 2: "renderAppBranch (cl_engine cl) (cl_deployer cl) c1 r1 = (Inr c2, r2)"
    and 3: "renderSSHSecrets (cl_engine cl) (cl_deployer cl) c2 r2 = (Inr c3, r3)"
    and 4: "renderPluginParams (cl_engine cl) (cl_deployer cl)
       (selectPluginsForStage (c3\<lparr>cfg_Plugins := DefaultSpecs (cl_table cl) (cfg_Plugins c3)\<rparr>)) r3 = (Inr cfg', r4)"
    and 5: "checkTemplates cl cfg' r4 = ([], reg')"
    by (rule resolve_loaded_steps) blast
  have ok: "registry_ok r2"
    using assms(2) grows_okD[OF grows_steps(1) 1] grows_okD[OF grows_steps(2) 2] by (simp add: reg_le_def)
  have "ssh_Identities (cfg_SSH c2) = ssh_Identities (cfg_SSH cfg)"
    using renderVars_frame[OF 1] renderAppBranch_frame[OF 2] by auto
  then have "\<forall>s\<in>set (ssh_secrets c3). covered r3 s" using renderSSHSecrets_covers[OF 3 ok] assms(3) by simp
  moreover have "ssh_secrets cfg' = ssh_secrets c3"
    using renderPluginParams_frame[OF 4] by (auto simp: ssh_secrets_def selectPluginsForStage_def)
  ultimately have s: "covered r3 s" using assms(4) by simp
  have "reg_le r4 reg'" using checkTemplates_findings(2)[of r4 cl cfg'] 5 by simp
  then have "covered (note_all later reg') s"
    using covered_mono[OF s grows_okD[OF grows_steps(4) 4]] covered_mono reg_le_note_all by blast
  then show ?thesis using replace_removes[OF assms(6)] assms(5) by (auto simp: covered_def)
qed

text \<open>
  What a successful load may change of the loaded configuration: the log settings, the variables, the
  branch, which is never left empty, passphrases and keys, and the parameters of the plugins. The
  plugins are exactly the declared and always-on ones that are enabled and active for the stage,
  in order, and the names of all others are the skipped ones; nothing was printed.
\<close>

theorem load_changes:
  assumes "resolve_loaded cl cfg reg = ((Inr cfg', reg'), out)"
  shows "let listed = DefaultSpecs (cl_table cl) (cfg_Plugins cfg);
      active = (\<lambda>p. IsEnabled p \<and> ActiveForStage_plugin p (cfg_Stage cfg)) in
    cfg' = cfg\<lparr>cfg_Log := reflect_flags (cl_flags cl) (cfg_Log cfg), cfg_Vars := cfg_Vars cfg',
        cfg_App := (cfg_App cfg)\<lparr>app_Branch := app_Branch (cfg_App cfg')\<rparr>, cfg_SSH := cfg_SSH cfg',
        cfg_Hosts := cfg_Hosts cfg', cfg_Plugins := cfg_Plugins cfg',
        cfg_SkippedPlugins := map ps_Name (filter (\<lambda>p. \<not> active p) listed)\<rparr>
    \<and> (app_Branch (cfg_App cfg) \<noteq> [] \<longrightarrow> app_Branch (cfg_App cfg') \<noteq> [])
    \<and> map no_pass (cfg_Hosts cfg') = map no_pass (cfg_Hosts cfg)
    \<and> map no_params (cfg_Plugins cfg') = map no_params (filter active listed) \<and> out = []"
proof -
  from assms obtain lc masked c1 r1 c2 r2 c3 r3 r4 where
    0: "applyLogConfig (cl_setup cl) (cl_flags cl) (cfg_Log cfg) = Inr (lc, masked)" "out = []"
    and 1: "renderVars (cl_engine cl) (cl_deployer cl) (cfg\<lparr>cfg_Log := lc\<rparr>) reg = (Inr c1, r1)"
    and 2: "renderAppBranch (cl_engine cl) (cl_deployer cl) c1 r1 = (Inr c2, r2)"
    and 3: "renderSSHSecrets (cl_engine cl) (cl_deployer cl) c2 r2 = (Inr c3, r3)"
    and 4: "renderPluginParams (cl_engine cl) (cl_deployer cl)
       (selectPluginsForStage (c3\<lparr>cfg_Plugins := DefaultSpecs (cl_table cl) (cfg_Plugins c3)\<rparr>)) r3 = (Inr cfg', r4)"
    by (rule resolve_loaded_steps) blast
  have lc: "lc = reflect_flags (cl_flags cl) (cfg_Log cfg)"
    using 0(1) by (simp add: applyLogConfig_def Let_def split: option.splits)
  obtain vs where c1: "c1 = cfg\<lparr>cfg_Log := lc, cfg_Vars := vs\<rparr>" using renderVars_frame[OF 1] by blast
  obtain b where c2: "c2 = c1\<lparr>cfg_App := (cfg_App c1)\<lparr>app_Branch := b\<rparr>\<rparr>" "app_Branch (cfg_App c1) \<noteq> [] \<longrightarrow> b \<noteq> []"
    using renderAppBranch_frame[OF 2] by blast
  obtain s hs where c3: "c3 = c2\<lparr>cfg_SSH := s, cfg_Hosts := hs\<rparr>" "map no_pass hs = map no_pass (cfg_Hosts c2)"
    using renderSSHSecrets_frame[OF 3] by blast
  obtain ps where c4: "cfg' = (selectPluginsForStage (c3\<lparr>cfg_Plugins := DefaultSpecs (cl_table cl) (cfg_Plugins c3)\<rparr>))\<lparr>cfg_Plugins := ps\<rparr>"
    "map no_params ps = map no_params (cfg_Plugins (selectPluginsForStage (c3\<lparr>cfg_Plugins := DefaultSpecs (cl_table cl) (cfg_Plugins c3)\<rparr>)))"
    using renderPluginParams_frame[OF 4] by blast
  show ?thesis using c2(2) c3(2) c4(2) 0(2) unfolding c4(1) c3(1) c2(1) c1 lc
    by (simp add: selectPluginsForStage_def Let_def)
qed

text \<open>
  The texts of a task that are templates: its commands, environment values and directory, every string of its
  action's parameters at any depth, its inline scripts, and the files of its templated scripts.
\<close>

definition script_at :: "string \<Rightarrow> script \<Rightarrow> string" where
  "script_at dir sc = (if is_abs (sc_Path sc) then sc_Path sc else path_join [dir, sc_Path sc])"

definition script_template :: "fs \<Rightarrow> string \<Rightarrow> script \<Rightarrow> string \<Rightarrow> bool" where
  "script_template f dir sc s \<longleftrightarrow> (if sc_Script sc \<noteq> [] then s = sc_Script sc
     else sc_Path sc \<noteq> [] \<and> (sc_Template sc \<or> has_suffix (sc_Path sc) ''.tmpl'') \<and> fs_readfile f (script_at dir sc) = Inr s)"

definition task_template :: "fs \<Rightarrow> string \<Rightarrow> task \<Rightarrow> string \<Rightarrow> bool" where
  "task_template f dir t s \<longleftrightarrow> s \<in> set (task_Cmds t) \<or> s \<in> snd ` set (task_Envs t) \<or> (s = task_Dir t \<and> s \<noteq> [])
     \<or> leaf_of s (YMap (task_With t)) \<or> (\<exists>sc\<in>set (task_Scripts t). script_template f dir sc s)"

lemma entries_map: "check_entries what m = map (\<lambda>(k, v). (k, checkParamValue (what @ ''.'' @ k) v)) m"
  by (induction m) auto

lemma leaf_items: "leaf_of s v \<Longrightarrow> \<exists>w. Check w s \<in> set (checkParamValue what v)"
proof (induction arbitrary: what rule: leaf_of.induct)
  case (leaf_map k v m s)
  obtain w where "Check w s \<in> set (checkParamValue (what @ ''.'' @ k) v)" using leaf_map.IH by blast
  then show ?case using leaf_map.hyps(1) by (force simp: entries_map)
next
  case (leaf_list v l s)
  have "v \<in> set l \<Longrightarrow> \<exists>w. Check w s \<in> set (check_elems what i l)" for i l
  proof (induction l arbitrary: i)
    case (Cons u l)
    then show ?case using leaf_list.IH[of "idx what i"] by (auto dest: Cons.IH[of "Suc i"])
  qed simp
  then show ?case using leaf_list.hyps(1) by simp
qed simp

lemma script_template_item: "script_template f dir sc s \<Longrightarrow> \<exists>w. Check w s \<in> set (script_items f dir name sc)"
  by (auto simp: script_template_def script_items_def script_at_def Let_def split: if_splits)

lemma task_template_item:
  assumes "task_template f dir t s"
  shows "\<exists>what. Check what s \<in> set (task_items f dir name t)"
proof -
  have "\<exists>i. (i, s) \<in> set (List.enumerate 0 (task_Cmds t))" if tm: "s \<in> set (task_Cmds t)"
  proof -
    obtain i where "i < length (task_Cmds t)" "s = task_Cmds t ! i" using tm unfolding in_set_conv_nth by blast
    then have "(i, s) \<in> set (List.enumerate 0 (task_Cmds t))" by (simp add: in_set_enumerate_eq)
    then show ?thesis by blast
  qed
  then consider (cmd) i where "(i, s) \<in> set (List.enumerate 0 (task_Cmds t))"
    | (env) k where "(k, s) \<in> set (task_Envs t)" | (dir) "task_Dir t \<noteq> []" "s = task_Dir t"
    | (leaf) "leaf_of s (YMap (task_With t))" | (script) sc where "sc \<in> set (task_Scripts t)" "script_template f dir sc s"
    using assms by (auto simp: task_template_def)
  then show ?thesis
  proof cases
    case cmd
    then have "Check (idx (task_label name @ '' cmds'') i) s \<in> set (task_items f dir name t)"
      by (force simp: task_items_def)
    then show ?thesis by blast
  next
    case env
    then have "Check ((task_label name @ '' '') @ ''envs.'' @ k) s \<in> set (check_envs (task_label name @ '' '') (task_Envs t))"
      by (force simp: check_envs_def)
    then show ?thesis unfolding task_items_def by auto
  next
    case dir
    then show ?thesis by (auto simp: task_items_def)
  next
    case leaf
    then show ?thesis using leaf_items[OF leaf, of "task_label name @ '' with''"] by (auto simp: task_items_def)
  next
    case script
    then show ?thesis using script_template_item[OF script(2), of name] by (auto simp: task_items_def)
  qed
qed

lemma script_unreadable:
  assumes "fs_readfile f (script_at dir sc) = Inl err" "sc_Script sc = []" "sc_Path sc \<noteq> []" "sc \<in> set (task_Scripts t)"
  shows "\<exists>e. Unreadable e \<in> set (task_items f dir name t)"
proof -
  have "Unreadable (wrapf (task_label name @ '' script '' @ scriptRef sc) err) \<in> set (script_items f dir name sc)"
    using assms(1-3) by (simp add: script_items_def script_at_def Let_def)
  then show ?thesis using assms(4) by (auto simp: task_items_def)
qed

lemma active_items:
  assumes "(name, Some t) \<in> set (cfg_Tasks cfg)" "ActiveForStage t (cfg_Stage cfg)" "it \<in> set (task_items f (ScriptsLocation f cfg) name t)"
  shows "it \<in> set (template_items f cfg)"
  using assms by (force simp: template_items_def)

lemma global_env_item: "v \<in> snd ` set (cfg_Envs cfg) \<Longrightarrow> \<exists>w. Check w v \<in> set (template_items f cfg)"
proof -
  assume "v \<in> snd ` set (cfg_Envs cfg)"
  then obtain k where "(k, v) \<in> set (cfg_Envs cfg)" by auto
  then have "Check ([] @ ''envs.'' @ k) v \<in> set (check_envs [] (cfg_Envs cfg))" unfolding check_envs_def by force
  then show ?thesis unfolding template_items_def by auto
qed

text \<open>
  C19. After a successful load every template the configuration holds for its stage renders, with placeholders for
  what only a deploy knows: the global environment values, and of each active task the commands, environment
  values, directory, every string of the action's parameters at any depth, the inline scripts and the files of
  templated scripts; but for those that read the state of another task, which exists only in a run. Every
  script file such a task names was readable. Tasks a plugin adds at startup come later and are not checked.
\<close>

theorem load_checks_templates:
  assumes "resolve_loaded cl cfg reg = ((Inr cfg', reg'), out)"
  shows "let renders = \<lambda>s. taskStateRef s \<or> (\<exists>r. fst (RenderWith (cl_engine cl) s (validateContext cl cfg') False) = Inr r);
      f = cl_fs cl; dir = ScriptsLocation f cfg' in
    (\<forall>v \<in> snd ` set (cfg_Envs cfg'). renders v)
    \<and> (\<forall>name t. (name, Some t) \<in> set (cfg_Tasks cfg') \<longrightarrow> ActiveForStage t (cfg_Stage cfg') \<longrightarrow>
        (\<forall>s. task_template f dir t s \<longrightarrow> renders s)
        \<and> (\<forall>sc\<in>set (task_Scripts t). sc_Script sc = [] \<and> sc_Path sc \<noteq> [] \<longrightarrow> (\<exists>data. fs_readfile f (script_at dir sc) = Inr data)))"
proof -
  obtain r4 where "checkTemplates cl cfg' r4 = ([], reg')" using assms(1) by (rule resolve_loaded_steps)
  then have "List.map_filter (finding (cl_engine cl) (validateContext cl cfg')) (template_items (cl_fs cl) cfg') = []"
    using checkTemplates_findings(1)[of cl cfg' r4] by simp
  then have none: "finding (cl_engine cl) (validateContext cl cfg') it = None"
    if "it \<in> set (template_items (cl_fs cl) cfg')" for it
    using that by (auto simp: List.map_filter_def filter_empty_conv)
  have ok: "taskStateRef s \<or> (\<exists>r. fst (RenderWith (cl_engine cl) s (validateContext cl cfg') False) = Inr r)"
    if "Check w s \<in> set (template_items (cl_fs cl) cfg')" for w s
    using none[OF that] by (auto simp: finding_def split: if_splits sum.splits)
  have readable: "\<exists>data. fs_readfile (cl_fs cl) (script_at (ScriptsLocation (cl_fs cl) cfg') sc) = Inr data"
    if sc: "(name, Some t) \<in> set (cfg_Tasks cfg')" "ActiveForStage t (cfg_Stage cfg')" "sc \<in> set (task_Scripts t)"
      "sc_Script sc = []" "sc_Path sc \<noteq> []" for name t sc
  proof (cases "fs_readfile (cl_fs cl) (script_at (ScriptsLocation (cl_fs cl) cfg') sc)")
    case (Inl err)
    obtain e where "Unreadable e \<in> set (template_items (cl_fs cl) cfg')"
      using script_unreadable[OF Inl sc(4,5,3), of name] active_items[OF sc(1,2)] by blast
    from none[OF this] show ?thesis by (simp add: finding_def)
  qed blast
  define renders where "renders = (\<lambda>s. taskStateRef s \<or> (\<exists>r. fst (RenderWith (cl_engine cl) s (validateContext cl cfg') False) = Inr r))"
  have envs: "\<forall>v \<in> snd ` set (cfg_Envs cfg'). renders v"
    using ok global_env_item[of _ cfg' "cl_fs cl"] unfolding renders_def by blast
  have tasks: "renders s" if s: "(name, Some t) \<in> set (cfg_Tasks cfg')" "ActiveForStage t (cfg_Stage cfg')"
      "task_template (cl_fs cl) (ScriptsLocation (cl_fs cl) cfg') t s" for name t s
  proof -
    obtain w where "Check w s \<in> set (task_items (cl_fs cl) (ScriptsLocation (cl_fs cl) cfg') name t)"
      using task_template_item[OF s(3)] by blast
    then show ?thesis using ok[OF active_items[OF s(1,2)]] unfolding renders_def by blast
  qed
  show ?thesis using envs tasks readable unfolding Let_def renders_def[symmetric] by blast
qed

section \<open>Failures\<close>

lemma load_specs_code: "load_specs tbl specs r w = (Inl err, secs, w') \<Longrightarrow> as_coded err \<in> {Some CodeConfig, Some CodePlugin}"
  by (induction specs arbitrary: r w secs) (auto split: option.splits prod.splits)

lemma run_startups_coded: "run_startups fns cfg w = (Some err, cfg', secs, w') \<Longrightarrow> as_coded err \<noteq> None"
proof (induction fns arbitrary: cfg w secs)
  case (Cons fn fns)
  then show ?case using plugin_code_coded by (auto split: prod.splits option.splits)
qed simp

lemma ValidateHooks_code: "ValidateHooks c = Some err \<Longrightarrow> as_coded err = Some CodeConfig"
proof -
  have if_err: "err_if b m = Some e \<Longrightarrow> as_coded e = Some CodeConfig" for b m e by (auto simp: err_if_def split: if_splits)
  have first: "(\<And>x e. f x = Some e \<Longrightarrow> as_coded e = Some CodeConfig) \<Longrightarrow> first_err f xs = Some e \<Longrightarrow> as_coded e = Some CodeConfig"
    for f :: "string \<Rightarrow> goerr option" and xs e using first_err_Some[of f xs e] by blast
  have two: "checks cs = Some e \<Longrightarrow> (\<forall>c\<in>set cs. \<forall>e. c = Some e \<longrightarrow> as_coded e = Some CodeConfig) \<Longrightarrow> as_coded e = Some CodeConfig"
    for cs e using first_err_Some[of "\<lambda>c. c" cs e] by (auto simp: checks_def)
  have key: "check_hook_key c kind m key = Some e \<Longrightarrow> as_coded e = Some CodeConfig" for kind m key e
    unfolding check_hook_key_def by (erule two) (use if_err first[OF if_err] in auto)
  have hooks: "check_hooks c kind m = Some e \<Longrightarrow> as_coded e = Some CodeConfig" for kind m e
    unfolding check_hooks_def by (rule first[OF key])
  show "ValidateHooks c = Some err \<Longrightarrow> as_coded err = Some CodeConfig"
    unfolding ValidateHooks_def by (erule two) (use if_err hooks in auto)
qed

lemma start_plugins_coded: "start_plugins tbl cfg w = (Inl err, secs, w') \<Longrightarrow> as_coded err \<noteq> None"
  using load_specs_code run_startups_coded ValidateHooks_code
  by (fastforce simp: start_plugins_def Load_plugins_def RunStartup_def split: sum.splits prod.splits option.splits)

lemma offline_coded:
  assumes "loadOffline cl given stage reg = Some ((Inl err, reg'), out)"
  shows "as_coded err \<noteq> None"
proof -
  obtain e where "err = the (as_config (Some e))" using assms
    by (auto simp: loadOffline_def map_err_Inl)
  then show ?thesis by (cases "as_coded e") (auto simp: as_config_def code_def code_defs)
qed

text \<open>
  C34. A configuration that cannot be loaded never ends the process with the generic code: whatever fails, the
  file, a template, a plugin, a startup hook or the hooks they leave, the error has a code of its own.
\<close>

theorem loadConfig_code:
  assumes "loadConfig cl given stage reg w = Some (Inl err, reg', out, w')"
  shows "as_coded err \<noteq> None \<and> code (Some err) \<noteq> CodeOK"
proof -
  have "as_coded err \<noteq> None"
    using assms offline_coded start_plugins_coded
    by (fastforce simp: loadConfig_def split: option.splits prod.splits sum.splits)
  then show ?thesis using code_not_OK by blast
qed

text \<open>
  A plugin that is listed twice, once for this stage and once for others, is loaded, and its name is
  nevertheless among the skipped ones: a task bound to one of its actions does nothing.
\<close>

lemma duplicate_plugin_skipped:
  assumes "p \<in> set (cfg_Plugins cfg)" "q \<in> set (cfg_Plugins cfg)" "ps_Name p = ps_Name q"
    and "IsEnabled p \<and> ActiveForStage_plugin p (cfg_Stage cfg)"
    and "\<not> (IsEnabled q \<and> ActiveForStage_plugin q (cfg_Stage cfg))"
    and "task_Action t \<noteq> []" "actionNamespace (task_Action t) = ps_Name p"
  shows "p \<in> set (cfg_Plugins (selectPluginsForStage cfg))
    \<and> plugin_skipped (namespaceSet (cfg_SkippedPlugins (selectPluginsForStage cfg))) t"
  using assms by (auto simp: selectPluginsForStage_def Let_def plugin_skipped_def namespaceSet_def)

section \<open>A concrete load\<close>

definition demo_flags :: log_flags where
  "demo_flags = \<lparr>lf_Level = (False, ''info''), lf_Format = (False, ''text''), lf_Output = (False, ''stdout''),
     lf_Color = (False, True), lf_File = (False, []), lf_FileFormat = (False, ''text'')\<rparr>"

definition demo_cli :: "(string, nat, nat) cli" where
  "demo_cli = \<lparr>cl_fuel = 3, cl_sv = demo_sv, cl_fs = demo_fs, cl_engine = text_engine, cl_deployer = ''ann'',
     cl_AsMap = (\<lambda>_. YNull), cl_setup = (\<lambda>_. None), cl_flags = demo_flags, cl_rules = [], cl_table = no_plugins\<rparr>"

definition demo_task :: task where
  "demo_task = zero_task\<lparr>task_Cmds := [''true''], task_With := [(''p'', YList [YStr ''deep''])]\<rparr>"

definition demo_app_cfg :: deploy_file where
  "demo_app_cfg = zero_cfg\<lparr>cfg_SSH := zero_ssh\<lparr>ssh_IdentityFilePassphrase := ''hunter22''\<rparr>,
     cfg_Tasks := [(''t'', Some demo_task)]\<rparr>"

lemma demo_resolve_loaded:
  "resolve_loaded demo_cli demo_app_cfg no_secrets = ((Inr demo_app_cfg, AddSecret ''hunter22'' no_secrets), [])"
proof -
  have "render_config demo_cli demo_app_cfg no_secrets = (Inr demo_app_cfg, AddSecret ''hunter22'' no_secrets)"
    by (simp add: render_config_def demo_cli_def demo_app_cfg_def zero_defs renderVars_def renderAppBranch_def renderSSHSecrets_def
        renderSecret_def noted_def note_all_def RenderWith_def text_engine_def noted_bind_def render_bastion_def sorted_keys_def
        DefaultSpecs_def no_plugins_def selectPluginsForStage_def renderPluginParams_def Let_def)
  moreover have "template_items demo_fs demo_app_cfg = [Check (idx (task_label ''t'' @ '' cmds'') 0) ''true'',
      Check (idx (task_label ''t'' @ '' with.p'') 0) ''deep'']"
    by (simp add: template_items_def demo_app_cfg_def demo_task_def zero_defs check_envs_def ActiveForStage_def stageActive_def task_items_def)
  moreover have "checkTemplates demo_cli demo_app_cfg r = ([], r)" for r
    using calculation(2) by (simp add: checkTemplates_def check_item_def demo_cli_def taskStateRef_def has_prefix_def RenderWith_def
        text_engine_def note_all_def)
  moreover have "applyLogConfig (cl_setup demo_cli) (cl_flags demo_cli) (cfg_Log demo_app_cfg) = Inr (zero_log, True)"
    by (simp add: applyLogConfig_def demo_cli_def demo_flags_def demo_app_cfg_def zero_defs reflect_flags_def set_changed_def
        log_settings_of_def logStr_def applyMasking_def equal_fold_def Let_def to_lower_char_def)
  moreover have "demo_app_cfg\<lparr>cfg_Log := zero_log\<rparr> = demo_app_cfg" by (simp add: demo_app_cfg_def zero_defs)
  ultimately show ?thesis by (simp add: resolve_loaded_def reportTemplateFindings_def)
qed

lemma load_masks_ssh_secrets_witness:
  "\<not> contains_str (replaceSecrets (AddSecret ''other'' (AddSecret ''hunter22'' no_secrets)) ''pw=hunter22'') ''hunter22''"
proof -
  have "''hunter22'' \<in> set (ssh_secrets demo_app_cfg)" by (simp add: ssh_secrets_def demo_app_cfg_def zero_defs)
  then show ?thesis
    using load_masks_ssh_secrets[OF demo_resolve_loaded no_secrets_ok _ _ _ demo_plain, where later = "[''other'']" and s = "''hunter22''"]
    by (simp add: demo_values note_all_def demo_app_cfg_def zero_defs)
qed

lemma load_changes_witness: "map no_params (cfg_Plugins demo_app_cfg) = [] \<and> cfg_SkippedPlugins demo_app_cfg = []"
  using load_changes[OF demo_resolve_loaded]
  by (simp add: Let_def demo_app_cfg_def zero_defs demo_cli_def DefaultSpecs_def no_plugins_def)

lemma load_checks_templates_witness:
  "list_all (\<lambda>tmpl. \<exists>s. fst (RenderWith text_engine tmpl (validateContext demo_cli demo_app_cfg) False) = Inr s) [''true'', ''deep'']"
proof -
  have t: "(''t'', Some demo_task) \<in> set (cfg_Tasks demo_app_cfg)" by (simp add: demo_app_cfg_def)
  have a: "ActiveForStage demo_task (cfg_Stage demo_app_cfg)"
    by (simp add: demo_task_def zero_task_def ActiveForStage_def stageActive_def)
  have "\<exists>s. fst (RenderWith text_engine tmpl (validateContext demo_cli demo_app_cfg) False) = Inr s"
    if c: "tmpl \<in> {''true'', ''deep''}" for tmpl :: string
  proof -
    have "task_template (cl_fs demo_cli) (ScriptsLocation (cl_fs demo_cli) demo_app_cfg) demo_task tmpl"
      using c by (auto simp: task_template_def demo_task_def)
    then have "taskStateRef tmpl \<or> (\<exists>s. fst (RenderWith (cl_engine demo_cli) tmpl (validateContext demo_cli demo_app_cfg) False) = Inr s)"
      using load_checks_templates[OF demo_resolve_loaded, unfolded Let_def] t a by blast
    moreover have "\<not> taskStateRef tmpl" using c by (auto simp: taskStateRef_def has_prefix_def)
    ultimately show ?thesis by (simp add: demo_cli_def)
  qed
  then show ?thesis by simp
qed

lemma loadConfig_code_witness:
  "\<exists>err out. loadConfig (demo_cli\<lparr>cl_fs := demo_fs\<lparr>fs_stat := (\<lambda>_. NotExist (Text ''gone''))\<rparr>\<rparr>) [] ''qa'' no_secrets 0
      = Some (Inl err, no_secrets, out, 0) \<and> code (Some err) \<noteq> CodeOK"
proof -
  let ?cl = "demo_cli\<lparr>cl_fs := demo_fs\<lparr>fs_stat := (\<lambda>_. NotExist (Text ''gone''))\<rparr>\<rparr>"
  have "\<exists>e. Discover (cl_fs ?cl) ''.'' [] = Inl e"
    by (simp add: Discover_def stat_ok_def stat_err_def DefaultDeployfiles_def)
  then obtain e where "Discover (cl_fs ?cl) ''.'' [] = Inl e" by blast
  then obtain err where l: "loadConfig ?cl [] ''qa'' no_secrets 0 = Some (Inl err, no_secrets, [], 0)"
    by (simp add: loadConfig_def loadOffline_def resolveOffline_def)
  from l loadConfig_code[OF l] show ?thesis by blast
qed

end
