(* ===== verification/Hooks.thy ===== *)
theory Hooks
  imports Tasks
begin

text \<open>
  The hooks of the deploy phases (\<open>internal/deploy/hooks/hooks.go\<close>), over any runner of tasks and of
  plugin functions, as the source has them behind the \<open>TaskRunner\<close> type.

  The locale \<open>guarantee\<close> is a preorder a step may promise; \<open>phase_hooks\<close> extends it by a task runner
  and a runner of the functions of a set that keep the promise, and shows that the hooks of every phase keep
  it. It is interpreted on the executor's \<open>RunTaskInPhase\<close> with the guarantee \<open>held\<close>.
\<close>

section \<open>The runner\<close>

record 's hook_runner =
  hr_hooks :: hooks
  hr_beforeF :: "hook_func list smap"
  hr_afterF :: "hook_func list smap"
  hr_run :: "string \<Rightarrow> string \<Rightarrow> 's \<Rightarrow> goerr option \<times> 's"
  hr_func :: "hook_func \<Rightarrow> 's \<Rightarrow> goerr option \<times> 's"

definition New_hooks :: "hooks \<Rightarrow> hook_func list smap \<Rightarrow> hook_func list smap
    \<Rightarrow> (string \<Rightarrow> string \<Rightarrow> 's \<Rightarrow> goerr option \<times> 's) \<Rightarrow> (hook_func \<Rightarrow> 's \<Rightarrow> goerr option \<times> 's) \<Rightarrow> 's hook_runner" where
  "New_hooks h beforeF afterF run func = \<lparr>hr_hooks = h, hr_beforeF = beforeF, hr_afterF = afterF,
     hr_run = run, hr_func = func\<rparr>"

fun runFuncs :: "'s hook_runner \<Rightarrow> string \<Rightarrow> string \<Rightarrow> hook_func list \<Rightarrow> 's \<Rightarrow> goerr option \<times> 's" where
  "runFuncs r when phase [] s = (None, s)"
| "runFuncs r when phase (fn # fns) s = (case hr_func r fn s of
      (Some err, s') \<Rightarrow> (Some (wrapf (when @ '' '' @ phase @ '' hook (func)'') err), s')
    | (None, s') \<Rightarrow> runFuncs r when phase fns s')"

fun runAll :: "'s hook_runner \<Rightarrow> string \<Rightarrow> string \<Rightarrow> string list \<Rightarrow> 's \<Rightarrow> goerr option \<times> 's" where
  "runAll r when phase [] s = (None, s)"
| "runAll r when phase (name # names) s = (case hr_run r name phase s of
      (Some err, s') \<Rightarrow> (Some (wrapf (when @ '' '' @ phase @ '' hook '' @ quoted name) err), s')
    | (None, s') \<Rightarrow> runAll r when phase names s')"

definition Before :: "'s hook_runner \<Rightarrow> string \<Rightarrow> 's \<Rightarrow> goerr option \<times> 's" where
  "Before r phase s = (case runAll r ''before'' phase (m_list (hooks_Before (hr_hooks r)) phase) s of
     (Some err, s') \<Rightarrow> (Some err, s')
   | (None, s') \<Rightarrow> runFuncs r ''before'' phase (m_list (hr_beforeF r) phase) s')"

definition After :: "'s hook_runner \<Rightarrow> string \<Rightarrow> 's \<Rightarrow> goerr option \<times> 's" where
  "After r phase s = (case runAll r ''after'' phase (m_list (hooks_After (hr_hooks r)) phase) s of
     (Some err, s') \<Rightarrow> (Some err, s')
   | (None, s') \<Rightarrow> runFuncs r ''after'' phase (m_list (hr_afterF r) phase) s')"

text \<open>
  \<open>NotifyFailed\<close>; \<open>detached\<close> is the runner under the context that ignores the caller's cancellation, and
  \<open>warn\<close> is the log of a failed hook.
\<close>

definition NotifyFailed :: "'s hook_runner \<Rightarrow> (string \<Rightarrow> 's \<Rightarrow> 's) \<Rightarrow> (goerr \<Rightarrow> 's \<Rightarrow> 's) \<Rightarrow> goerr \<Rightarrow> 's \<Rightarrow> 's" where
  "NotifyFailed detached setError warn err s =
     (if m_list (hooks_After (hr_hooks detached)) PhaseFailed = [] \<and> m_list (hr_afterF detached) PhaseFailed = []
      then s
      else (case After detached PhaseFailed (setError (error_msg err) s) of
          (Some hookErr, s') \<Rightarrow> warn hookErr s' | (None, s') \<Rightarrow> s'))"

section \<open>Guarantees\<close>

locale guarantee =
  fixes R :: "'s \<Rightarrow> 's \<Rightarrow> bool"
  assumes R_refl: "R s s"
    and R_trans: "R s t \<Longrightarrow> R t u \<Longrightarrow> R s u"
begin

lemma fold_R: "(\<And>y s. R s (f y s)) \<Longrightarrow> R s (fold f ys s)"
proof (induction ys arbitrary: s)
  case Nil
  then show ?case by (simp add: R_refl)
next
  case (Cons y ys)
  then show ?case using R_trans[of s "f y s"] by simp
qed

end

text \<open>The plugin functions a runner has under some phase.\<close>

definition runner_funcs :: "'s hook_runner \<Rightarrow> hook_func set" where
  "runner_funcs r = (\<Union>phase. set (m_list (hr_beforeF r) phase) \<union> set (m_list (hr_afterF r) phase))"

locale phase_hooks = guarantee R for R :: "'s \<Rightarrow> 's \<Rightarrow> bool" +
  fixes run :: "string \<Rightarrow> string \<Rightarrow> 's \<Rightarrow> goerr option \<times> 's"
    and func :: "hook_func \<Rightarrow> 's \<Rightarrow> goerr option \<times> 's"
    and F :: "hook_func set"
  assumes run_R: "R s (snd (run name phase s))"
    and func_R: "fn \<in> F \<Longrightarrow> R s (snd (func fn s))"
begin

lemma runFuncs_R: "hr_func r = func \<Longrightarrow> set fns \<subseteq> F \<Longrightarrow> R s (snd (runFuncs r when phase fns s))"
proof (induction fns arbitrary: s)
  case Nil
  then show ?case by (simp add: R_refl)
next
  case (Cons fn fns)
  obtain e s' where f: "func fn s = (e, s')" by fastforce
  have "R s s'" using func_R[of fn s] f Cons.prems by simp
  then show ?case using Cons f by (auto split: option.split intro: R_trans)
qed

lemma runAll_R: "hr_run r = run \<Longrightarrow> R s (snd (runAll r when phase names s))"
proof (induction names arbitrary: s)
  case Nil
  then show ?case by (simp add: R_refl)
next
  case (Cons name names)
  obtain e s' where f: "run name phase s = (e, s')" by fastforce
  have "R s s'" using run_R[of s name phase] f by simp
  then show ?case using Cons f by (auto split: option.split intro: R_trans)
qed

lemma hooks_R:
  assumes "hr_run r = run" "hr_func r = func" "runner_funcs r \<subseteq> F"
  shows "R s (snd (Before r phase s))" "R s (snd (After r phase s))"
proof -
  have "R s (snd (case runAll r w phase names s of (Some err, s') \<Rightarrow> (Some err, s')
      | (None, s') \<Rightarrow> runFuncs r w phase fns s'))" if "set fns \<subseteq> F" for w names fns
  proof -
    obtain e s' where a: "runAll r w phase names s = (e, s')" by fastforce
    have "R s s'" using runAll_R[OF assms(1), of s w phase names] a by simp
    then show ?thesis using a runFuncs_R[OF assms(2) that, of s' w phase]
      by (auto split: option.split intro: R_trans)
  qed
  moreover have "set (m_list (hr_beforeF r) phase) \<subseteq> F" "set (m_list (hr_afterF r) phase) \<subseteq> F"
    using assms(3) by (auto simp: runner_funcs_def)
  ultimately show "R s (snd (Before r phase s))" "R s (snd (After r phase s))"
    by (simp_all add: Before_def After_def)
qed

lemma notify_R:
  assumes "hr_run r = run" "hr_func r = func" "runner_funcs r \<subseteq> F" "\<And>m s. R s (setError m s)" "\<And>e s. R s (warn e s)"
  shows "R s (NotifyFailed r setError warn err s)"
proof -
  obtain o' s' where a: "After r PhaseFailed (setError (error_msg err) s) = (o', s')" by fastforce
  have "R s s'" using R_trans[OF assms(4) hooks_R(2)[OF assms(1-3)]] a by (metis snd_conv)
  then show ?thesis using a assms(5) by (auto simp: NotifyFailed_def R_refl split: option.split intro: R_trans)
qed

end

section \<open>The executor's runner\<close>

text \<open>A plugin function writes to the console the runner was made with, and acts on the world.\<close>

definition run_hook_func :: "('t, 'w) ext \<Rightarrow> hook_func \<Rightarrow> 'w exec \<Rightarrow> goerr option \<times> 'w exec" where
  "run_hook_func x fn e = (case x_hook x fn (e_world e) of
     (texts, r, w) \<Rightarrow> (r, fold (console_write x) texts (e\<lparr>e_world := w\<rparr>)))"

definition exec_hooks :: "('t, 'w) ext \<Rightarrow> deploy_file \<Rightarrow> 'w exec hook_runner" where
  "exec_hooks x cfg = New_hooks (cfg_Hooks cfg) (cfg_HookFuncsBefore cfg) (cfg_HookFuncsAfter cfg)
     (RunTaskInPhase x) (run_hook_func x)"

text \<open>The functions plugins hooked to the phases of a deploy.\<close>

definition hook_funcs :: "deploy_file \<Rightarrow> hook_func set" where
  "hook_funcs cfg = (\<Union>phase. set (m_list (cfg_HookFuncsBefore cfg) phase) \<union> set (m_list (cfg_HookFuncsAfter cfg) phase))"

text \<open>
  What functions of \<open>F\<close> can make of the world, called any number of times. A function runs in a dry run
  too, so this is how far the world may move in one; without functions it does not move.
\<close>

definition hook_reach :: "('t, 'w) ext \<Rightarrow> hook_func set \<Rightarrow> 'w \<Rightarrow> 'w \<Rightarrow> bool" where
  "hook_reach x F = (\<lambda>w w'. \<exists>fn \<in> F. w' = snd (snd (x_hook x fn w)))\<^sup>*\<^sup>*"

lemma hook_reach_refl [simp, intro]: "hook_reach x F w w"
  by (simp add: hook_reach_def)

lemma hook_reach_trans: "hook_reach x F u v \<Longrightarrow> hook_reach x F v w \<Longrightarrow> hook_reach x F u w"
  unfolding hook_reach_def by (rule rtranclp_trans)

lemma hook_reach_step: "fn \<in> F \<Longrightarrow> hook_reach x F w (snd (snd (x_hook x fn w)))"
  unfolding hook_reach_def by blast

lemma hook_reach_idle:
  assumes "hook_reach x F w w'" "\<And>fn v. fn \<in> F \<Longrightarrow> snd (snd (x_hook x fn v)) = v"
  shows "w' = w"
  using assms(1) unfolding hook_reach_def by (induction rule: rtranclp_induct) (auto simp: assms(2))

lemma hook_reach_none [simp]: "hook_reach x {} w w' \<longleftrightarrow> w' = w"
  using hook_reach_idle[of x "{}" w w'] by auto

text \<open>
  What the tasks and the functions of a phase leave as it is, between tasks, where nothing is captured;
  it also survives the setters of the deploy context.
\<close>

definition held :: "('t, 'w) ext \<Rightarrow> hook_func set \<Rightarrow> 'w exec \<Rightarrow> 'w exec \<Rightarrow> bool" where
  "held x F e d \<longleftrightarrow> (e_capture e = None \<longrightarrow>
     e_cfg d = e_cfg e \<and> e_dryRun d = e_dryRun e \<and> e_policy d = e_policy e \<and> e_required d = e_required e
     \<and> e_capture d = None \<and> set (e_unreachable e) \<subseteq> set (e_unreachable d)
     \<and> set (e_unreachable d) - set (e_unreachable e) \<subseteq> (if skipUnreachable e then - set (e_required e) else {})
     \<and> (e_dryRun e \<longrightarrow> hook_reach x F (e_world e) (e_world d) \<and> e_cluster d = e_cluster e))"

lemma held_refl [simp]: "held x F e e" by (simp add: held_def)

lemma held_trans: "held x F e d \<Longrightarrow> held x F d c \<Longrightarrow> held x F e c"
  unfolding held_def skipUnreachable_def by (auto split: if_splits intro: hook_reach_trans)

lemma held_kept: "kept x e d \<Longrightarrow> held x F e d"
  using kept_fields[of x e d] by (auto simp: held_def kept_def)

lemma console_capture [simp]: "e_capture (console_write x p e) = e_capture e"
  "e_world (console_write x p e) = e_world e" "e_cluster (console_write x p e) = e_cluster e"
  by (simp_all add: console_write_def split: prod.split)

lemma console_all:
  "core_of (fold (console_write x) ps e) = core_of e" "e_capture (fold (console_write x) ps e) = e_capture e"
  "e_world (fold (console_write x) ps e) = e_world e" "e_cluster (fold (console_write x) ps e) = e_cluster e"
  by (induction ps arbitrary: e) simp_all

lemma held_func: "fn \<in> F \<Longrightarrow> held x F e (snd (run_hook_func x fn e))"
proof -
  assume fn: "fn \<in> F"
  obtain texts r w where h: "x_hook x fn (e_world e) = (texts, r, w)" by (metis prod_cases3)
  define d where "d = fold (console_write x) texts (e\<lparr>e_world := w\<rparr>)"
  have c: "core_of d = core_of (e\<lparr>e_world := w\<rparr>)" unfolding d_def by (rule console_all)
  have "e_capture d = e_capture e" "e_world d = w" "e_cluster d = e_cluster e" by (simp_all add: d_def console_all)
  moreover have "hook_reach x F (e_world e) w" using h hook_reach_step[OF fn, of x "e_world e"] by simp
  moreover have "run_hook_func x fn e = (r, d)" by (simp add: run_hook_func_def h d_def)
  ultimately show ?thesis using c by (simp add: held_def core_of_eq)
qed

interpretation exec_hooks: phase_hooks "held x F" "RunTaskInPhase x" "run_hook_func x" F
proof unfold_locales
  show "held x F s s" for s by simp
  show "held x F s t \<Longrightarrow> held x F t u \<Longrightarrow> held x F s u" for s t u by (rule held_trans)
  show "held x F s (snd (RunTaskInPhase x name phase s))" for s name phase
    by (rule held_kept[OF kept_RunTaskInPhase])
  show "fn \<in> F \<Longrightarrow> held x F s (snd (run_hook_func x fn s))" for s fn by (rule held_func)
qed

lemma exec_hooks_sel [simp]: "hr_run (exec_hooks x cfg) = RunTaskInPhase x" "hr_func (exec_hooks x cfg) = run_hook_func x"
  "hr_hooks (exec_hooks x cfg) = cfg_Hooks cfg" "hr_beforeF (exec_hooks x cfg) = cfg_HookFuncsBefore cfg"
  "hr_afterF (exec_hooks x cfg) = cfg_HookFuncsAfter cfg"
  by (simp_all add: exec_hooks_def New_hooks_def)

lemma exec_hooks_funcs [simp]: "runner_funcs (exec_hooks x cfg) = hook_funcs cfg"
  by (simp add: runner_funcs_def hook_funcs_def)

lemma held_hooks:
  assumes "hook_funcs cfg \<subseteq> F"
  shows "held x F e (snd (Before (exec_hooks x cfg) phase e))" "held x F e (snd (After (exec_hooks x cfg) phase e))"
  by (rule exec_hooks.hooks_R; simp add: assms)+

section \<open>In which order\<close>

text \<open>The hooks of a phase as one list: the tasks, then the plugin functions.\<close>

datatype hook = Task_hook string | Func_hook hook_func

definition phase_list :: "string list smap \<Rightarrow> hook_func list smap \<Rightarrow> string \<Rightarrow> hook list" where
  "phase_list tasks funcs phase = map Task_hook (m_list tasks phase) @ map Func_hook (m_list funcs phase)"

definition fire :: "'s hook_runner \<Rightarrow> string \<Rightarrow> hook \<Rightarrow> 's \<Rightarrow> goerr option \<times> 's" where
  "fire r phase h s = (case h of Task_hook name \<Rightarrow> hr_run r name phase s | Func_hook fn \<Rightarrow> hr_func r fn s)"

definition hook_msg :: "string \<Rightarrow> string \<Rightarrow> hook \<Rightarrow> string" where
  "hook_msg when phase h = (case h of Task_hook name \<Rightarrow> when @ '' '' @ phase @ '' hook '' @ quoted name
     | Func_hook fn \<Rightarrow> when @ '' '' @ phase @ '' hook (func)'')"

fun until_err :: "('a \<Rightarrow> 's \<Rightarrow> goerr option \<times> 's) \<Rightarrow> 'a list \<Rightarrow> 's \<Rightarrow> ('a \<times> goerr) option \<times> 's" where
  "until_err f [] s = (None, s)"
| "until_err f (a # as) s = (case f a s of (Some err, s') \<Rightarrow> (Some (a, err), s') | (None, s') \<Rightarrow> until_err f as s')"

lemma until_err_append: "until_err f (as @ bs) s = (case until_err f as s of
    (Some r, s') \<Rightarrow> (Some r, s') | (None, s') \<Rightarrow> until_err f bs s')"
  by (induction f as s rule: until_err.induct) (auto split: prod.split option.split)

lemma runAll_until: "runAll r when phase names s = (case until_err (fire r phase) (map Task_hook names) s of
    (Some (h, err), s') \<Rightarrow> (Some (wrapf (hook_msg when phase h) err), s') | (None, s') \<Rightarrow> (None, s'))"
  by (induction names arbitrary: s)
     (auto simp: fire_def hook_msg_def split: prod.split option.split)

lemma runFuncs_until: "runFuncs r when phase fns s = (case until_err (fire r phase) (map Func_hook fns) s of
    (Some (h, err), s') \<Rightarrow> (Some (wrapf (hook_msg when phase h) err), s') | (None, s') \<Rightarrow> (None, s'))"
  by (induction fns arbitrary: s)
     (auto simp: fire_def hook_msg_def split: prod.split option.split)

text \<open>
  The hooks of a phase run one after the other, the task hooks in the listed order and then the
  plugin functions, up to the first failure, which names the hook; and a failed deploy's hooks cannot
  fail again: when none is registered the state does not change at all.
\<close>

theorem phase_hooks_order:
  "Before r phase s = (case until_err (fire r phase) (phase_list (hooks_Before (hr_hooks r)) (hr_beforeF r) phase) s of
     (Some (h, err), s') \<Rightarrow> (Some (wrapf (hook_msg ''before'' phase h) err), s') | (None, s') \<Rightarrow> (None, s'))
   \<and> After r phase s = (case until_err (fire r phase) (phase_list (hooks_After (hr_hooks r)) (hr_afterF r) phase) s of
     (Some (h, err), s') \<Rightarrow> (Some (wrapf (hook_msg ''after'' phase h) err), s') | (None, s') \<Rightarrow> (None, s'))
   \<and> NotifyFailed r setError warn err s =
       (if phase_list (hooks_After (hr_hooks r)) (hr_afterF r) PhaseFailed = [] then s
        else (case After r PhaseFailed (setError (error_msg err) s) of
            (Some hookErr, s') \<Rightarrow> warn hookErr s' | (None, s') \<Rightarrow> s'))"
  by (auto simp: Before_def After_def NotifyFailed_def phase_list_def until_err_append runAll_until
      runFuncs_until split: prod.split option.split)

end
