(* ===== verification/Deploy.thy ===== *)
theory Deploy
  imports Hooks Commands Ast_Validate
begin

text \<open>
  The release lifecycle (\<open>internal/deploy/deploy.go\<close>): validation of the custom phases, the sequence
  of phases with their hooks, the deploy lock, the unreachable-host policy and the end of a deploy.

  The clock is read once: the release timestamp, its RFC 3339 form and the operator's name are
  arguments. \<open>dstate\<close> holds what the closures of \<open>Deploy\<close> share: the executor, the previous revision
  and whether the lock was acquired.
\<close>

section \<open>The deployer\<close>

definition replaceablePhases :: "string list" where "replaceablePhases = [PhaseRollback]"

record deployer =
  dl_layout :: layout
  dl_git :: git
  dl_policy :: string
  dl_required :: "string list"
  dl_replace :: "string smap"

fun collect_replace :: "(string \<times> task option) list \<Rightarrow> string smap \<Rightarrow> string smap res" where
  "collect_replace [] replace = Inr replace"
| "collect_replace ((name, None) # ts) replace = collect_replace ts replace"
| "collect_replace ((name, Some t) # ts) replace =
     (if task_Replace t = [] then collect_replace ts replace
      else if task_Replace t \<notin> set replaceablePhases
      then Inl (Text (''task '' @ quoted name @ '': replace '' @ quoted (task_Replace t) @ '' is not supported (only ''
        @ quoted PhaseRollback @ '' can be replaced)''))
      else (case m_get replace (task_Replace t) of
          Some other \<Rightarrow> Inl (Text (''tasks '' @ quoted other @ '' and '' @ quoted name @ '' both replace ''
            @ quoted (task_Replace t)))
        | None \<Rightarrow> collect_replace ts (m_put (task_Replace t) name replace)))"

definition phase_err :: "deploy_file \<Rightarrow> string list \<Rightarrow> custom_phase \<Rightarrow> goerr option" where
  "phase_err cfg seen p = (let name = cp_Name p; at = ''custom phase '' @ quoted name @ '': '';
       anchor = (if cp_Before p \<noteq> [] then cp_Before p else cp_After p)
     in if name = [] then Some (Text ''custom phase: name is required'')
        else if IsBuiltinPhase name \<or> name = PhaseFailed \<or> name = PhaseRollback
        then Some (Text (at @ ''name collides with a built-in phase''))
        else if name \<in> set seen then Some (Text (at @ ''defined more than once''))
        else if (cp_Before p = []) = (cp_After p = []) then Some (Text (at @ ''set exactly one of before/after''))
        else if \<not> IsBuiltinPhase anchor
        then Some (Text (at @ ''anchor '' @ quoted anchor @ '' is not a built-in phase''))
        else if cp_Task p \<noteq> [] \<and> m_get (cfg_Tasks cfg) (cp_Task p) \<in> {None, Some None}
        then Some (Text (at @ ''task '' @ quoted (cp_Task p) @ '' not found''))
        else None)"

fun check_phases :: "deploy_file \<Rightarrow> string list \<Rightarrow> custom_phase list \<Rightarrow> goerr option" where
  "check_phases cfg seen [] = None"
| "check_phases cfg seen (p # ps) = (case phase_err cfg seen p of
      Some err \<Rightarrow> Some err | None \<Rightarrow> check_phases cfg (cp_Name p # seen) ps)"

definition New_deployer :: "deploy_file \<Rightarrow> deployer res" where
  "New_deployer cfg = (case collect_replace (cfg_Tasks cfg) [] of
      Inl err \<Rightarrow> Inl err
    | Inr replace \<Rightarrow> (case check_phases cfg [] (cfg_CustomPhases cfg) of
          Some err \<Rightarrow> Inl err
        | None \<Rightarrow> Inr \<lparr>dl_layout = paths_For (app_DeployTo (cfg_App cfg)),
            dl_git = \<lparr>g_Repo = app_Repo (cfg_App cfg), g_Branch = app_Branch (cfg_App cfg)\<rparr>,
            dl_policy = cfg_OnUnreachable cfg,
            dl_required = map host_Address (filter IsRequired (cfg_Hosts cfg)), dl_replace = replace\<rparr>))"

section \<open>State and steps\<close>

record 'w dstate =
  ds_ex :: "'w exec"
  ds_prevSHA :: string
  ds_locked :: bool

type_synonym 'w op = "'w dstate \<Rightarrow> goerr option \<times> 'w dstate"
type_synonym 'w step = "string \<times> 'w op"

definition on_ex :: "('w exec \<Rightarrow> 'a \<times> 'w exec) \<Rightarrow> 'w dstate \<Rightarrow> 'a \<times> 'w dstate" where
  "on_ex f s = (case f (ds_ex s) of (r, e) \<Rightarrow> (r, s\<lparr>ds_ex := e\<rparr>))"

definition noopStep :: "'w op" where "noopStep s = (None, s)"

definition phase_mark :: "string \<Rightarrow> 'w exec \<Rightarrow> 'w exec" where
  "phase_mark name = slog Info ''phase'' [(''phase'', name)]"

text \<open>What is fixed for one deploy.\<close>

record deploy_run =
  dr_d :: deployer
  dr_primary :: "host list"
  dr_release :: string
  dr_ts :: string
  dr_revTime :: string
  dr_who :: string

definition isRequired :: "deploy_run \<Rightarrow> string \<Rightarrow> bool" where
  "isRequired c host \<longleftrightarrow> host = host_Address (hd (dr_primary c)) \<or> host \<in> set (dl_required (dr_d c))"

definition mark_skipped :: "string \<Rightarrow> goerr \<Rightarrow> 'w exec \<Rightarrow> 'w exec" where
  "mark_skipped host err e = MarkUnreachable host
     (slog Warn ''host unreachable, skipping'' [(''host'', host), (''error'', error_msg err)] e)"

definition runStep :: "('t, 'w) ext \<Rightarrow> deploy_run \<Rightarrow> string \<Rightarrow> 'w exec \<Rightarrow> goerr option \<times> 'w exec" where
  "runStep x c command e = (let hosts = exec_Hosts e
     in if hosts = [] then (Some (Text ''no reachable hosts remain''), e)
        else if dl_policy (dr_d c) \<noteq> OnUnreachableSkip then RunOn x hosts command e
        else (case RunOnReport x hosts command e of (results, e1) \<Rightarrow>
          (case SkipUnreachable hosts results (isRequired c) mark_skipped e1 of
            ((_, Some err), e2) \<Rightarrow> (Some err, e2)
          | ((_, None), e2) \<Rightarrow> if exec_Hosts e2 = [] then (Some (Text ''all hosts became unreachable''), e2)
              else (None, e2))))"

text \<open>The loop of \<open>captureLive\<close> ends: every turn marks a host that was live.\<close>

lemma mark_skipped_hosts: "core_of d = core_of e \<Longrightarrow>
    exec_Hosts (mark_skipped a err d) = filter (\<lambda>h. host_Address h \<noteq> a) (exec_Hosts e)"
  by (simp add: exec_Hosts_def filterExcluded_def mark_skipped_def core_of_eq MarkUnreachable_def slog_def)
     (rule filter_cong; auto)

function captureLive :: "('t, 'w) ext \<Rightarrow> deploy_run \<Rightarrow> string \<Rightarrow> 'w exec \<Rightarrow> string res \<times> 'w exec" where
  "captureLive x c cmd e = (case exec_Hosts e of
      [] \<Rightarrow> (Inl (Text ''no reachable hosts remain''), e)
    | h # hs \<Rightarrow> (case exec_Capture x h cmd e of
        (Inr out, e1) \<Rightarrow> (Inr out, e1)
      | (Inl err, e1) \<Rightarrow>
          if dl_policy (dr_d c) \<noteq> OnUnreachableSkip \<or> \<not> is_unreachable err \<or> is_ctx_err err
             \<or> isRequired c (host_Address h)
          then (Inl err, e1)
          else captureLive x c cmd (mark_skipped (host_Address h) err e1)))"
  by pat_completeness auto
termination
proof (relation "measure (\<lambda>(x, c, cmd, e). length (exec_Hosts e))")
  fix x :: "('t, 'w) ext" and c cmd e h hs r e1 err
  assume h: "exec_Hosts e = h # hs" and cap: "(r, e1) = exec_Capture x h cmd e"
  have "core_of e1 = core_of e" using cap by (metis core_Capture exec_Capture_def snd_conv)
  then show "((x, c, cmd, mark_skipped (host_Address h) err e1), x, c, cmd, e)
      \<in> measure (\<lambda>(x, c, cmd, e). length (exec_Hosts e))"
    using h mark_skipped_hosts[of e1 e] by (simp add: le_imp_less_Suc)
qed simp

declare captureLive.simps [simp del]

section \<open>The phases\<close>

definition starting_step :: "('t, 'w) ext \<Rightarrow> deploy_run \<Rightarrow> 'w op" where
  "starting_step x c s =
     (case on_ex (RunOn x (dr_primary c) (lockCmd (dl_layout (dr_d c)) (dr_who c @ '' @ '' @ dr_ts c))) s of
        (Some err, s1) \<Rightarrow> (Some (Wrap [] err ('' (clear a stale lock with: whoosh '' @ cfg_Stage (e_cfg (ds_ex s))
            @ '' deploy:unlock)'')), s1)
      | (None, s1) \<Rightarrow> (None, s1\<lparr>ds_locked := True\<rparr>))"

text \<open>The changelog is best effort; it is read off the first live host.\<close>

definition publish_changelog :: "('t, 'w) ext \<Rightarrow> deploy_run \<Rightarrow> string \<Rightarrow> string \<Rightarrow> 'w exec \<Rightarrow> 'w exec" where
  "publish_changelog x c prevSHA sha e =
     (if prevSHA \<noteq> [] \<and> prevSHA = sha
      then slog Info ''no new commits since the previous release'' [(''revision'', sha)] e
      else if prevSHA \<noteq> [] \<and> isCommitSHA sha
      then (case exec_Capture x (hd (exec_Hosts e)) (changelogCmd (l_RepoPath (dl_layout (dr_d c))) prevSHA sha) e of
          (Inl err, e1) \<Rightarrow> slog Warn ''changelog unavailable'' [(''error'', error_msg err)] e1
        | (Inr lg, e1) \<Rightarrow> SetChangelog lg e1)
      else e)"

definition resolve_revision :: "('t, 'w) ext \<Rightarrow> deploy_run \<Rightarrow> 'w op" where
  "resolve_revision x c s = (if e_dryRun (ds_ex s) then (None, s)
     else (case captureLive x c (Revision (dl_git (dr_d c)) (l_RepoPath (dl_layout (dr_d c)))) (ds_ex s) of
         (Inl err, e1) \<Rightarrow> (Some (wrapf ''resolve commit hash'' err), s\<lparr>ds_ex := e1\<rparr>)
       | (Inr sha, e1) \<Rightarrow> (None, s\<lparr>ds_ex := publish_changelog x c (ds_prevSHA s) sha (SetCommitHash sha e1)\<rparr>)))"

definition and_then :: "'w op \<Rightarrow> 'w op \<Rightarrow> 'w op" where
  "and_then f g s = (case f s of (Some err, s1) \<Rightarrow> (Some err, s1) | (None, s1) \<Rightarrow> g s1)"

definition updating_step :: "('t, 'w) ext \<Rightarrow> deploy_run \<Rightarrow> 'w op" where
  "updating_step x c = (let d = dr_d c; repo = l_RepoPath (dl_layout d) in
     and_then (on_ex (runStep x c (EnsureMirror (dl_git d) repo)))
    (and_then (resolve_revision x c)
    (and_then (on_ex (runStep x c (CreateRelease (dl_git d) repo (dr_release c))))
              (on_ex (runStep x c (writeRevisionCmd repo (dr_release c) (g_Branch (dl_git d)) (dr_revTime c)))))))"

definition finishing_step :: "('t, 'w) ext \<Rightarrow> deploy_run \<Rightarrow> deploy_file \<Rightarrow> 'w op" where
  "finishing_step x c cfg = (let d = dr_d c in
     and_then (on_ex (runStep x c (logRevisionCmd (dl_layout d) (dr_release c) (g_Branch (dl_git d)) (dr_ts c) (dr_who c))))
              (on_ex (runStep x c (cleanupCmd (l_ReleasesPath (dl_layout d)) (app_KeepReleases (cfg_App cfg))))))"

definition builtin_steps :: "('t, 'w) ext \<Rightarrow> deploy_run \<Rightarrow> deploy_file \<Rightarrow> 'w step list" where
  "builtin_steps x c cfg = (let l = dl_layout (dr_d c) in
    [(PhaseStarting, starting_step x c),
     (PhaseCheck, on_ex (runStep x c (ensureStructureCmd l (cfg_LinkedFiles cfg) (cfg_LinkedDirs cfg)))),
     (PhaseInit, noopStep), (PhaseStarted, noopStep),
     (PhaseUpdating, updating_step x c),
     (PhaseSymlink, on_ex (runStep x c (symlinkSharedScript l (dr_release c) (cfg_LinkedFiles cfg) (cfg_LinkedDirs cfg)))),
     (PhaseUpdated, noopStep),
     (PhasePublishing, on_ex (runStep x c (publishCmd (dr_release c) (l_CurrentPath l)))),
     (PhasePublished, noopStep),
     (PhaseFinishing, finishing_step x c cfg),
     (PhaseFinished, noopStep)])"

definition custom_step :: "('t, 'w) ext \<Rightarrow> custom_phase \<Rightarrow> 'w step" where
  "custom_step x p = (cp_Name p, if cp_Task p = [] then noopStep
     else on_ex (RunTaskInPhase x (cp_Task p) (cp_Name p)))"

definition phases_before :: "custom_phase list \<Rightarrow> string \<Rightarrow> custom_phase list" where
  "phases_before ps phase = filter (\<lambda>p. cp_Before p \<noteq> [] \<and> cp_Before p = phase) ps"

definition phases_after :: "custom_phase list \<Rightarrow> string \<Rightarrow> custom_phase list" where
  "phases_after ps phase = filter (\<lambda>p. cp_Before p = [] \<and> cp_After p = phase) ps"

definition insertCustomPhases :: "('t, 'w) ext \<Rightarrow> custom_phase list \<Rightarrow> 'w step list \<Rightarrow> 'w step list" where
  "insertCustomPhases x ps base = (if ps = [] then base
     else concat (map (\<lambda>s. map (custom_step x) (phases_before ps (fst s)) @ [s]
       @ map (custom_step x) (phases_after ps (fst s))) base))"

section \<open>A deploy\<close>

fun run_phases :: "'w exec hook_runner \<Rightarrow> 'w step list \<Rightarrow> 'w op" where
  "run_phases hk [] s = (None, s)"
| "run_phases hk ((phase, fn) # rest) s =
     (case on_ex (Before hk phase) (s\<lparr>ds_ex := phase_mark phase (ds_ex s)\<rparr>) of
        (Some err, s1) \<Rightarrow> (Some err, s1)
      | (None, s1) \<Rightarrow> (case fn s1 of
          (Some err, s2) \<Rightarrow> (Some (wrapf phase err), s2)
        | (None, s2) \<Rightarrow> (case on_ex (After hk phase) s2 of
            (Some err, s3) \<Rightarrow> (Some err, s3)
          | (None, s3) \<Rightarrow> run_phases hk rest s3)))"

text \<open>The executor under a context detached from the caller's cancellation, and under the unlock timeout.\<close>

definition detached :: "('t, 'w) ext \<Rightarrow> ('t, 'w) ext" where
  "detached x = x\<lparr>x_net := (x_net x)\<lparr>net_ctx := (\<lambda>w. None)\<rparr>\<rparr>"

definition bounded :: "('t, 'w) ext \<Rightarrow> ('t, 'w) ext" where
  "bounded x = x\<lparr>x_net := (x_net x)\<lparr>net_ctx := x_unlock_ctx x\<rparr>\<rparr>"

definition onFailure :: "('t, 'w) ext \<Rightarrow> deploy_file \<Rightarrow> goerr \<Rightarrow> 'w exec \<Rightarrow> 'w exec" where
  "onFailure x cfg = NotifyFailed (exec_hooks (detached x) cfg) SetError
     (\<lambda>err. slog Warn ''deploy:failed hook error'' [(''error'', error_msg err)])"

definition release_lock :: "('t, 'w) ext \<Rightarrow> deploy_run \<Rightarrow> 'w exec \<Rightarrow> 'w exec" where
  "release_lock x c e = (case RunOn (bounded x) (dr_primary c) (unlockCmd (dl_layout (dr_d c))) e of
      (None, e1) \<Rightarrow> e1
    | (Some err, e1) \<Rightarrow> slog Warn ''failed to release the deploy lock, clear it with deploy:unlock''
        [(''stage'', cfg_Stage (e_cfg e)), (''error'', error_msg err)] e1)"

definition deploy_run_of :: "deployer \<Rightarrow> string \<Rightarrow> string \<Rightarrow> string \<Rightarrow> host list \<Rightarrow> deploy_run" where
  "deploy_run_of d ts revTime who hosts = \<lparr>dr_d = d, dr_primary = PickPrimary hosts,
     dr_release = layout_Release (dl_layout d) ts, dr_ts = ts, dr_revTime = revTime, dr_who = who\<rparr>"

text \<open>Everything before the first phase: the policy, the release context, the previous revision.\<close>

definition deploy_setup :: "('t, 'w) ext \<Rightarrow> deploy_run \<Rightarrow> nat \<Rightarrow> 'w exec \<Rightarrow> 'w dstate" where
  "deploy_setup x c n e = (let d = dr_d c; cfg = e_cfg e;
       e1 = SetReleaseContext (dr_release c) (dr_ts c)
         (SetUnreachablePolicy (dl_policy d) (host_Address (hd (dr_primary c)) # dl_required d) e);
       (prev, e2) = (if e_dryRun e1 then ([], e1)
         else (case exec_Capture x (hd (dr_primary c)) (currentRevisionCmd (dl_layout d)) e1 of
             (Inl err, e2) \<Rightarrow> ([], slog Warn ''previous revision unavailable'' [(''error'', error_msg err)] e2)
           | (Inr prev, e2) \<Rightarrow> if isCommitSHA prev then (prev, SetPreviousCommitHash prev e2) else ([], e2)))
     in \<lparr>ds_ex = slog Info ''deploying'' [(''app'', app_Name (cfg_App cfg)), (''stage'', cfg_Stage cfg),
           (''repo'', app_Repo (cfg_App cfg)), (''branch'', app_Branch (cfg_App cfg)),
           (''dir'', app_DeployTo (cfg_App cfg)), (''release'', dr_ts c), (''hosts'', itoa (int n))] e2,
         ds_prevSHA = prev, ds_locked = False\<rparr>)"

definition deploy_phases :: "('t, 'w) ext \<Rightarrow> deploy_run \<Rightarrow> deploy_file \<Rightarrow> 'w step list" where
  "deploy_phases x c cfg = insertCustomPhases x (cfg_CustomPhases cfg) (builtin_steps x c cfg)"

definition deploy_result :: "('t, 'w) ext \<Rightarrow> deploy_file \<Rightarrow> goerr option \<Rightarrow> 'w exec \<Rightarrow> goerr option \<times> 'w exec" where
  "deploy_result x cfg runErr e = (let names = [(''app'', app_Name (cfg_App cfg)), (''stage'', cfg_Stage cfg)] in
     (case runErr of
        Some err \<Rightarrow> (Some err, onFailure x cfg err e)
      | None \<Rightarrow> (let skipped = UnreachableHosts e in
          if skipped \<noteq> [] then (Some (SkippedHostsError (cfg_Stage cfg) skipped),
            slog Warn ''deployed with unreachable hosts skipped''
              (names @ [(''skipped'', ''['' @ join_on '' '' skipped @ '']'')]) e)
          else (None, slog Info ''deployed'' names e))))"

definition Deploy :: "('t, 'w) ext \<Rightarrow> deployer \<Rightarrow> string \<Rightarrow> string \<Rightarrow> string \<Rightarrow> 'w exec \<Rightarrow> goerr option \<times> 'w exec" where
  "Deploy x d ts revTime who e = (let cfg = e_cfg e; hosts = exec_Hosts e; c = deploy_run_of d ts revTime who hosts in
     if app_Repo (cfg_App cfg) = [] then (Some (Text ''app.repo is required to deploy''), e)
     else if hosts = [] then (Some (Text (''no hosts match for stage '' @ quoted (cfg_Stage cfg))), e)
     else (case run_phases (exec_hooks x cfg) (deploy_phases x c cfg) (deploy_setup x c (length hosts) e) of
       (runErr, s) \<Rightarrow> (case deploy_result x cfg runErr (ds_ex s) of
         (r, e1) \<Rightarrow> (r, if ds_locked s then release_lock x c e1 else e1))))"

section \<open>The other commands\<close>

definition no_hosts :: "deploy_file \<Rightarrow> goerr" where
  "no_hosts cfg = Text (''no hosts match for stage '' @ quoted (cfg_Stage cfg))"

definition Check_deploy :: "('t, 'w) ext \<Rightarrow> deployer \<Rightarrow> 'w exec \<Rightarrow> goerr option \<times> 'w exec" where
  "Check_deploy x d e = (let cfg = e_cfg e; hosts = exec_Hosts e in
     if hosts = [] then (Some (no_hosts cfg), e)
     else (case RunOn x hosts (ensureStructureCmd (dl_layout d) (cfg_LinkedFiles cfg) (cfg_LinkedDirs cfg))
              (phase_mark PhaseCheck e) of
         (Some err, e1) \<Rightarrow> (Some err, e1)
       | (None, e1) \<Rightarrow> (None, if e_dryRun e1 then e1 else slog Info ''structure ok''
            [(''stage'', cfg_Stage cfg), (''linked_dirs'', itoa (int (length (cfg_LinkedDirs cfg)))),
             (''linked_files'', itoa (int (length (cfg_LinkedFiles cfg)))), (''hosts'', itoa (int (length hosts)))] e1)))"

definition rollback_body :: "('t, 'w) ext \<Rightarrow> deployer \<Rightarrow> bool \<Rightarrow> 'w exec \<Rightarrow> goerr option \<times> 'w exec" where
  "rollback_body x d cleanup e = (case m_get (dl_replace d) PhaseRollback of
      Some task \<Rightarrow> RunTaskInPhase x task PhaseRollback e
    | None \<Rightarrow> (let hosts = exec_Hosts e in
        if hosts = [] then (Some (no_hosts (e_cfg e)), e)
        else RunOn x hosts (rollbackScript (dl_layout d) cleanup) e))"

definition Rollback :: "('t, 'w) ext \<Rightarrow> deployer \<Rightarrow> bool \<Rightarrow> 'w exec \<Rightarrow> goerr option \<times> 'w exec" where
  "Rollback x d cleanup e = (let hk = exec_hooks x (e_cfg e) in
     (case Before hk PhaseRollback (phase_mark PhaseRollback e) of
        (Some err, e1) \<Rightarrow> (Some err, e1)
      | (None, e1) \<Rightarrow> (case rollback_body x d cleanup e1 of
          (Some err, e2) \<Rightarrow> (Some err, e2) | (None, e2) \<Rightarrow> After hk PhaseRollback e2)))"

definition Releases :: "('t, 'w) ext \<Rightarrow> deployer \<Rightarrow> 'w exec \<Rightarrow> goerr option \<times> 'w exec" where
  "Releases x d e = (let hosts = exec_Hosts e in
     if hosts = [] then (Some (no_hosts (e_cfg e)), e) else RunOn x hosts (releasesScript (dl_layout d)) e)"

definition Unlock :: "('t, 'w) ext \<Rightarrow> deployer \<Rightarrow> 'w exec \<Rightarrow> goerr option \<times> 'w exec" where
  "Unlock x d e = (let hosts = exec_Hosts e in
     if hosts = [] then (Some (no_hosts (e_cfg e)), e)
     else (case RunOn x (PickPrimary hosts) (unlockCmd (dl_layout d)) e of
         (Some err, e1) \<Rightarrow> (Some err, e1)
       | (None, e1) \<Rightarrow> (None, if e_dryRun e1 then e1
            else slog Info ''lock cleared'' [(''stage'', cfg_Stage (e_cfg e))] e1)))"

section \<open>Custom phases\<close>

lemma phases_insert: "map fst (insertCustomPhases x ps base) = concat (map (\<lambda>s. map cp_Name (phases_before ps (fst s))
    @ [fst s] @ map cp_Name (phases_after ps (fst s))) base)"
proof (cases "ps = []")
  case True
  then show ?thesis by (induction base) (simp_all add: insertCustomPhases_def phases_before_def phases_after_def)
next
  case False
  then show ?thesis
    by (induction base) (simp_all add: insertCustomPhases_def custom_step_def comp_def)
qed

definition phase_ok :: "deploy_file \<Rightarrow> custom_phase \<Rightarrow> bool" where
  "phase_ok cfg p \<longleftrightarrow> cp_Name p \<noteq> [] \<and> \<not> IsBuiltinPhase (cp_Name p) \<and> cp_Name p \<notin> {PhaseFailed, PhaseRollback}
     \<and> (cp_Before p = [] \<longleftrightarrow> cp_After p \<noteq> [])
     \<and> IsBuiltinPhase (if cp_Before p \<noteq> [] then cp_Before p else cp_After p)
     \<and> (cp_Task p = [] \<or> (\<exists>t. m_get (cfg_Tasks cfg) (cp_Task p) = Some (Some t)))"

lemma phase_err_None: "phase_err cfg seen p = None \<longleftrightarrow> phase_ok cfg p \<and> cp_Name p \<notin> set seen"
proof -
  have "m_get (cfg_Tasks cfg) (cp_Task p) \<notin> {None, Some None} \<longleftrightarrow> (\<exists>t. m_get (cfg_Tasks cfg) (cp_Task p) = Some (Some t))"
    by (metis insertE insertI1 insertI2 option.distinct(1) option.exhaust option.inject singletonD)
  then show ?thesis by (auto simp: phase_err_def phase_ok_def Let_def)
qed

lemma check_phases_None: "check_phases cfg seen ps = None \<longleftrightarrow>
    (\<forall>p\<in>set ps. phase_ok cfg p) \<and> distinct (map cp_Name ps) \<and> set seen \<inter> cp_Name ` set ps = {}"
proof (induction ps arbitrary: seen)
  case (Cons p ps)
  show ?case
  proof (cases "phase_err cfg seen p")
    case None
    then show ?thesis using Cons.IH[of "cp_Name p # seen"] phase_err_None[of cfg seen p] by auto
  next
    case (Some err)
    then show ?thesis using phase_err_None[of cfg seen p] by auto
  qed
qed simp

definition replacers :: "(string \<times> task option) list \<Rightarrow> string list" where
  "replacers ts = map fst (filter (\<lambda>(n, t). \<exists>u. t = Some u \<and> task_Replace u \<noteq> []) ts)"

lemma replacers_simps [simp]: "replacers [] = []" "replacers ((n, None) # ts) = replacers ts"
  "replacers ((n, Some t) # ts) = (if task_Replace t = [] then replacers ts else n # replacers ts)"
  by (simp_all add: replacers_def)

lemma collect_taken: "(\<exists>r. collect_replace ts [(PhaseRollback, n)] = Inr r) \<longleftrightarrow> replacers ts = []"
proof (induction ts)
  case (Cons nt ts)
  obtain name o' where nt: "nt = (name, o')" by fastforce
  then show ?case using Cons by (cases o') (auto simp: replaceablePhases_def)
qed simp

definition only_rollback :: "(string \<times> task option) list \<Rightarrow> bool" where
  "only_rollback ts \<longleftrightarrow> (\<forall>n t. (n, Some t) \<in> set ts \<longrightarrow> task_Replace t \<in> {[], PhaseRollback})"

lemma only_rollback_simps [simp]: "only_rollback []" "only_rollback ((n, None) # ts) = only_rollback ts"
  "only_rollback ((n, Some t) # ts) \<longleftrightarrow> task_Replace t \<in> {[], PhaseRollback} \<and> only_rollback ts"
  by (auto simp: only_rollback_def)

lemma no_replacers: "replacers ts = [] \<Longrightarrow> only_rollback ts"
proof (induction ts)
  case (Cons nt ts)
  obtain name o' where nt: "nt = (name, o')" by fastforce
  then show ?case using Cons by (cases o') (auto split: if_splits)
qed simp

lemma collect_free: "(\<exists>r. collect_replace ts [] = Inr r) \<longleftrightarrow> only_rollback ts \<and> length (replacers ts) \<le> 1"
proof (induction ts)
  case (Cons nt ts)
  obtain name o' where nt: "nt = (name, o')" by fastforce
  show ?case
  proof (cases o')
    case (Some t)
    then show ?thesis using Cons nt collect_taken[of ts name] no_replacers[of ts]
      by (auto simp: replaceablePhases_def)
  qed (simp add: Cons nt)
qed simp

lemma New_deployer_ok:
  "(\<exists>d. New_deployer cfg = Inr d) \<longleftrightarrow> only_rollback (cfg_Tasks cfg) \<and> length (replacers (cfg_Tasks cfg)) \<le> 1
     \<and> list_all (phase_ok cfg) (cfg_CustomPhases cfg) \<and> distinct (map cp_Name (cfg_CustomPhases cfg))"
proof -
  have "(\<exists>d. New_deployer cfg = Inr d) \<longleftrightarrow> (\<exists>r. collect_replace (cfg_Tasks cfg) [] = Inr r)
      \<and> check_phases cfg [] (cfg_CustomPhases cfg) = None"
    by (auto simp: New_deployer_def split: sum.splits option.splits)
  then show ?thesis by (auto simp: collect_free check_phases_None list_all_iff)
qed

text \<open>
  A deployer is built exactly when every task's \<open>replace\<close> names the rollback phase and at most one
  does, and the custom phases have distinct new names, exactly one anchor each, which is a built-in
  phase, and an existing task where they run one.
\<close>

theorem New_deployer_iff:
  "(\<exists>d. New_deployer cfg = Inr d) \<longleftrightarrow> only_rollback (cfg_Tasks cfg) \<and> length (replacers (cfg_Tasks cfg)) \<le> 1
     \<and> list_all (phase_ok cfg) (cfg_CustomPhases cfg) \<and> distinct (map cp_Name (cfg_CustomPhases cfg))"
  by (rule New_deployer_ok)

lemma distinct_concat_map:
  "distinct xs \<Longrightarrow> (\<And>a. a \<in> set xs \<Longrightarrow> distinct (f a)) \<Longrightarrow>
   (\<And>a b y. a \<in> set xs \<Longrightarrow> b \<in> set xs \<Longrightarrow> y \<in> set (f a) \<Longrightarrow> y \<in> set (f b) \<Longrightarrow> a = b) \<Longrightarrow> distinct (concat (map f xs))"
proof (induction xs)
  case (Cons a xs)
  have "distinct (concat (map f xs))" using Cons.prems by (intro Cons.IH) auto
  moreover have "set (f a) \<inter> set (f b) = {}" if "b \<in> set xs" for b
  proof (rule ccontr)
    assume "set (f a) \<inter> set (f b) \<noteq> {}"
    then obtain y where "y \<in> set (f a)" "y \<in> set (f b)" by blast
    then have "a = b" using Cons.prems(3)[of a b y] that by simp
    then show False using Cons.prems(1) that by simp
  qed
  ultimately show ?case using Cons.prems(2)[of a] by auto
qed simp

definition anchor :: "custom_phase \<Rightarrow> string" where
  "anchor p = (if cp_Before p \<noteq> [] then cp_Before p else cp_After p)"

definition around :: "custom_phase list \<Rightarrow> string \<Rightarrow> string list" where
  "around ps b = map cp_Name (phases_before ps b) @ [b] @ map cp_Name (phases_after ps b)"

lemma around_set: "y \<in> set (around ps b) \<Longrightarrow> y = b \<or> (\<exists>p\<in>set ps. y = cp_Name p \<and> anchor p = b)"
  by (auto simp: around_def phases_before_def phases_after_def anchor_def)

lemma around_has: "p \<in> set ps \<Longrightarrow> cp_Name p \<in> set (around ps (anchor p))"
  by (auto simp: around_def phases_before_def phases_after_def anchor_def)

lemma around_distinct:
  assumes "distinct (map cp_Name ps)" "b \<notin> cp_Name ` set ps"
  shows "distinct (around ps b)"
proof -
  have inj: "inj_on cp_Name (set ps)" and d: "distinct ps" using assms(1) by (auto simp: distinct_map)
  have "inj_on cp_Name {p \<in> set ps. Q p}" for Q using inj by (rule inj_on_subset) auto
  moreover have "cp_Name p = cp_Name q \<Longrightarrow> p \<in> set ps \<Longrightarrow> q \<in> set ps \<Longrightarrow> p = q" for p q
    using inj by (auto dest: inj_onD)
  ultimately show ?thesis using d assms(2)
    by (auto simp: around_def phases_before_def phases_after_def distinct_map)
qed

lemma builtin_names: "map fst (builtin_steps x c cfg) = BuiltinPhases"
  by (simp add: builtin_steps_def BuiltinPhases_def Let_def)

lemma phases_plan:
  assumes "New_deployer cfg = Inr d"
  shows "map fst (deploy_phases x c cfg) = concat (map (\<lambda>b.
       map cp_Name (phases_before (cfg_CustomPhases cfg) b) @ [b] @ map cp_Name (phases_after (cfg_CustomPhases cfg) b))
       BuiltinPhases)
    \<and> distinct (map fst (deploy_phases x c cfg))
    \<and> set (map fst (deploy_phases x c cfg)) = set BuiltinPhases \<union> cp_Name ` set (cfg_CustomPhases cfg)
    \<and> filter (\<lambda>ph. ph \<in> set BuiltinPhases) (map fst (deploy_phases x c cfg)) = BuiltinPhases"
proof -
  let ?ps = "cfg_CustomPhases cfg"
  have ok: "\<forall>p\<in>set ?ps. phase_ok cfg p" "distinct (map cp_Name ?ps)"
    using New_deployer_ok[of cfg] assms by (auto simp: list_all_iff)
  have new: "cp_Name p \<notin> set BuiltinPhases" "anchor p \<in> set BuiltinPhases" if "p \<in> set ?ps" for p
  proof -
    have "phase_ok cfg p" using ok(1) that by blast
    then show "cp_Name p \<notin> set BuiltinPhases" "anchor p \<in> set BuiltinPhases"
      unfolding phase_ok_def anchor_def IsBuiltinPhase_def List.member_iff by blast+
  qed
  have c: "map fst (deploy_phases x c cfg) = concat (map (around ?ps) BuiltinPhases)"
    unfolding deploy_phases_def phases_insert builtin_names[of x c cfg, symmetric] map_map comp_def around_def ..
  have inj: "p = q" if "cp_Name p = cp_Name q" "p \<in> set ?ps" "q \<in> set ?ps" for p q
    using ok(2) that by (auto simp: distinct_map dest: inj_onD)
  have d: "distinct (concat (map (around ?ps) BuiltinPhases))"
  proof (rule distinct_concat_map[OF distinct_BuiltinPhases])
    show "distinct (around ?ps b)" if "b \<in> set BuiltinPhases" for b
      using new that by (intro around_distinct ok(2)) auto
    show "a = b" if h: "a \<in> set BuiltinPhases" "b \<in> set BuiltinPhases" "y \<in> set (around ?ps a)" "y \<in> set (around ?ps b)" for a b y
    proof -
      consider "y = a" | p where "p \<in> set ?ps" "y = cp_Name p" "anchor p = a" using around_set[OF h(3)] by blast
      then show ?thesis
      proof cases
        case 1
        then show ?thesis using around_set[OF h(4)] h(1) new(1) by auto
      next
        case (2 p)
        then have "y \<noteq> b" using new(1) h(2) by auto
        then obtain q where "q \<in> set ?ps" "y = cp_Name q" "anchor q = b" using around_set[OF h(4)] by blast
        then show ?thesis using inj[of p q] 2 by simp
      qed
    qed
  qed
  have "set (concat (map (around ?ps) BuiltinPhases)) = set BuiltinPhases \<union> cp_Name ` set ?ps"
  proof
    show "set (concat (map (around ?ps) BuiltinPhases)) \<subseteq> set BuiltinPhases \<union> cp_Name ` set ?ps"
      using around_set by fastforce
    have "b \<in> set (around ?ps b)" for b by (simp add: around_def)
    then show "set BuiltinPhases \<union> cp_Name ` set ?ps \<subseteq> set (concat (map (around ?ps) BuiltinPhases))"
      using around_has[of _ ?ps] new(2) by fastforce
  qed
  moreover have "filter (\<lambda>ph. ph \<in> set BuiltinPhases) (concat (map (around ?ps) bs)) = bs" if "set bs \<subseteq> set BuiltinPhases" for bs
    using that new(1)
    by (induction bs) (auto simp: around_def phases_before_def phases_after_def filter_empty_conv)
  ultimately show ?thesis using d unfolding c around_def by blast
qed

text \<open>
  The phases of a deploy are the built-in ones in their order, each with the custom phases anchored
  before it ahead of it and those anchored after it behind it, in declaration order; every custom
  phase of an accepted configuration occurs exactly once, and none shadows a built-in one.
\<close>

theorem deploy_phases_order:
  assumes "New_deployer cfg = Inr d"
  shows "map fst (deploy_phases x c cfg) = concat (map (\<lambda>b.
       map cp_Name (phases_before (cfg_CustomPhases cfg) b) @ [b] @ map cp_Name (phases_after (cfg_CustomPhases cfg) b))
       BuiltinPhases)
    \<and> distinct (map fst (deploy_phases x c cfg))
    \<and> set (map fst (deploy_phases x c cfg)) = set BuiltinPhases \<union> cp_Name ` set (cfg_CustomPhases cfg)
    \<and> filter (\<lambda>ph. ph \<in> set BuiltinPhases) (map fst (deploy_phases x c cfg)) = BuiltinPhases"
  by (rule phases_plan[OF assms])

end
