(* ===== verification/Deploy_Safety.thy ===== *)
theory Deploy_Safety
  imports Deploy
begin

text \<open>
  What a deploy guarantees (\<open>internal/deploy/deploy.go\<close>): a dry run acts only through the functions plugins
  hook to its phases, the lock holder and
  the required hosts are never skipped, no built-in phase runs without the lock, and the lock is
  released exactly when this deploy acquired it.

  The guarantee is \<open>held\<close> of theory \<open>Hooks\<close>, which the hooks of every phase keep.
\<close>

section \<open>The guarantee of a deploy\<close>

lemma held_same:
  "e_cfg d = e_cfg e \<Longrightarrow> e_dryRun d = e_dryRun e \<Longrightarrow> e_policy d = e_policy e \<Longrightarrow> e_required d = e_required e \<Longrightarrow>
   e_capture d = e_capture e \<Longrightarrow> e_unreachable d = e_unreachable e \<Longrightarrow> e_world d = e_world e \<Longrightarrow>
   e_cluster d = e_cluster e \<Longrightarrow> held x F e d"
  by (simp add: held_def)

lemma held_set_base [simp]: "held x F e (set_base f e)"
  by (rule held_same) (simp_all add: set_base_def invalidateRenderCache_def)

lemma held_setters [simp]:
  "held x F e (SetReleaseContext p ts e)" "held x F e (SetCommitHash sha e)" "held x F e (SetPreviousCommitHash sha e)"
  "held x F e (SetChangelog lg e)" "held x F e (SetError msg e)"
  by (simp_all add: setters)

lemma held_slog [simp]: "held x F e (slog lv m a e)"
  by (rule held_same) (simp_all add: slog_def)

text \<open>The detached context runs the same hooks.\<close>

lemma held_detached: "held (detached x) = held x" "held (bounded x) = held x"
  by (simp_all add: held_def fun_eq_iff hook_reach_def detached_def bounded_def)

section \<open>The commands of a deploy\<close>

lemma kept_runOn: "kept x e (snd (runOn x hosts cmd ff e))"
proof -
  have dry: "kept x e (fold (\<lambda>h. echoDryRun x (host_Address h) cmd) hosts e)"
    by (rule kept_quiet[OF quiet_fold]) simp
  have live: "kept x e (snd (cluster_Run x ts c f (echoExec x [] cmd e)))" if "\<not> e_dryRun e" for ts c f
  proof (rule kept_trans)
    show "kept x e (echoExec x [] cmd e)" by simp
    show "kept x (echoExec x [] cmd e) (snd (cluster_Run x ts c f (echoExec x [] cmd e)))"
      using that kept_fields[of x e "echoExec x [] cmd e"] by (intro kept_Run) simp
  qed
  show ?thesis using dry live kept_Run[of e x] by (simp add: runOn_def)
qed

lemma kept_RunOn: "kept x e (snd (RunOn x hosts cmd e))"
  using kept_runOn[of x e hosts cmd True] by (simp add: RunOn_def case_prod_beta)

lemma kept_exec_Capture: "\<not> e_dryRun e \<Longrightarrow> kept x e (snd (exec_Capture x h cmd e))"
  by (simp add: exec_Capture_def kept_Capture)

text \<open>The executor and the deployer agree on the policy.\<close>

definition agree :: "deploy_run \<Rightarrow> 'w exec \<Rightarrow> bool" where
  "agree c e \<longleftrightarrow> e_policy e = dl_policy (dr_d c) \<and> (\<forall>h. h \<in> set (e_required e) \<longleftrightarrow> isRequired c h)"

lemma agree_kept: "kept x e d \<Longrightarrow> agree c e \<Longrightarrow> agree c d"
  using kept_fields[of x e d] by (simp add: agree_def)

lemma kept_mark:
  assumes "skipUnreachable e" "h \<notin> set (e_required e)"
  shows "kept x e (mark_skipped h err e)"
proof -
  define d where "d = slog Warn ''host unreachable, skipping'' [(''host'', h), (''error'', error_msg err)] e"
  have q: "kept x e d" unfolding d_def by (rule kept_slog) simp
  have "skipUnreachable d" "h \<notin> set (e_required d)" using assms kept_fields[OF q] by simp_all
  then have "kept x d (MarkUnreachable h d)"
    using evolves_same[of "MarkUnreachable h d" d x]
    by (auto simp: kept_def MarkUnreachable_def fixed_eq evolves_def shown_def ctx_inputs_def)
  then show ?thesis using q kept_trans unfolding mark_skipped_def d_def by blast
qed

lemma kept_mark_all:
  "skipUnreachable e \<Longrightarrow> \<forall>f\<in>set fs. fst f \<notin> set (e_required e)
    \<Longrightarrow> kept x e (fold (\<lambda>(h, err). mark_skipped h err) fs e)"
proof (induction fs arbitrary: e)
  case (Cons f fs)
  obtain h err where f: "f = (h, err)" by fastforce
  have k: "kept x e (mark_skipped h err e)" using Cons.prems f by (intro kept_mark) auto
  then show ?case using Cons.IH[of "mark_skipped h err e"] Cons.prems f kept_fields[OF k]
    by (auto intro: kept_trans)
qed simp

lemma kept_runStep:
  assumes "agree c e"
  shows "kept x e (snd (runStep x c cmd e))"
proof (cases "exec_Hosts e = [] \<or> dl_policy (dr_d c) \<noteq> OnUnreachableSkip")
  case True
  then show ?thesis by (auto simp: runStep_def Let_def kept_RunOn)
next
  case False
  obtain rs e1 where r: "RunOnReport x (exec_Hosts e) cmd e = (rs, e1)" by fastforce
  have k: "kept x e e1" using kept_runOn[of x e "exec_Hosts e" cmd False] r by (simp add: RunOnReport_def)
  have a: "agree c e1" "skipUnreachable e1"
    using agree_kept[OF k assms] False by (auto simp: agree_def skipUnreachable_def)
  obtain hs err e2 where p: "SkipUnreachable (exec_Hosts e) rs (isRequired c) mark_skipped e1 = ((hs, err), e2)"
    by (metis prod.collapse)
  have "skip_scan (isRequired c) None rs = None \<Longrightarrow> \<forall>f\<in>set (failures rs). fst f \<notin> set (e_required e1)"
    using a(1) by (auto simp: skip_scan_None droppable_def agree_def split: prod.splits)
  then have "kept x e1 e2" using p kept_mark_all[OF a(2), of "failures rs" x]
    by (auto simp: SkipUnreachable_def Let_def split: option.splits if_splits)
  then have "kept x e e2" using k kept_trans by blast
  then show ?thesis using False r p by (simp add: runStep_def Let_def split: option.split)
qed

lemma kept_captureLive: "agree c e \<Longrightarrow> \<not> e_dryRun e \<Longrightarrow> kept x e (snd (captureLive x c cmd e))"
proof (induction x c cmd e rule: captureLive.induct)
  case (1 x c cmd e)
  show ?case
  proof (cases "exec_Hosts e")
    case Nil
    then show ?thesis by (subst captureLive.simps) simp
  next
    case (Cons h hs)
    obtain r e1 where cap: "exec_Capture x h cmd e = (r, e1)" by fastforce
    have k: "kept x e e1" using kept_exec_Capture[OF 1(3), of x h cmd] cap by simp
    show ?thesis
    proof (cases r)
      case (Inr out)
      then show ?thesis using Cons cap k by (subst captureLive.simps) simp
    next
      case (Inl err)
      let ?stop = "dl_policy (dr_d c) \<noteq> OnUnreachableSkip \<or> \<not> is_unreachable err \<or> is_ctx_err err \<or> isRequired c (host_Address h)"
      show ?thesis
      proof (cases ?stop)
        case True
        then show ?thesis using Cons cap k Inl by (subst captureLive.simps) auto
      next
        case False
        have a1: "agree c e1" by (rule agree_kept[OF k 1(2)])
        then have "kept x e1 (mark_skipped (host_Address h) err e1)"
          using False by (intro kept_mark) (auto simp: agree_def skipUnreachable_def)
        then have k2: "kept x e (mark_skipped (host_Address h) err e1)" using k kept_trans by blast
        have "kept x e (snd (captureLive x c cmd (mark_skipped (host_Address h) err e1)))"
          using kept_trans[OF k2 1(1)[OF Cons cap[symmetric] Inl False]] agree_kept[OF k2 1(2)] kept_fields[OF k2] 1(3) by simp
        then show ?thesis using Cons cap Inl False by (subst captureLive.simps) auto
      qed
    qed
  qed
qed

text \<open>
  Reading a value off a live host ends after finitely many unreachable hosts, and a value it
  returns was read from a host that is still live: the first live host exists afterwards, so the
  changelog that follows always has a host to ask.
\<close>

theorem captureLive_live:
  assumes "captureLive x c cmd e = (Inr out, e')"
  shows "exec_Hosts e' \<noteq> [] \<and> (\<exists>e0. exec_Capture x (hd (exec_Hosts e')) cmd e0 = (Inr out, e'))"
  using assms
proof (induction x c cmd e rule: captureLive.induct)
  case (1 x c cmd e)
  show ?case
  proof (cases "exec_Hosts e")
    case Nil
    then show ?thesis using 1(2) by (subst (asm) captureLive.simps) simp
  next
    case (Cons h hs)
    obtain r e1 where cap: "exec_Capture x h cmd e = (r, e1)" by fastforce
    have core: "core_of e1 = core_of e" using cap by (metis core_Capture exec_Capture_def snd_conv)
    show ?thesis
    proof (cases r)
      case (Inr out')
      then have "e' = e1" "out = out'" using 1(2) Cons cap by (subst (asm) captureLive.simps, simp)+
      moreover have "exec_Hosts e1 = exec_Hosts e"
        using core by (simp add: exec_Hosts_def filterExcluded_def core_of_eq)
      ultimately show ?thesis using Cons cap Inr by auto
    next
      case (Inl err)
      let ?stop = "dl_policy (dr_d c) \<noteq> OnUnreachableSkip \<or> \<not> is_unreachable err \<or> is_ctx_err err \<or> isRequired c (host_Address h)"
      have ns: "\<not> ?stop" using 1(2) Cons cap Inl by (subst (asm) captureLive.simps) (auto split: if_splits)
      then have "captureLive x c cmd (mark_skipped (host_Address h) err e1) = (Inr out, e')"
        using 1(2) Cons cap Inl by (subst (asm) captureLive.simps) (auto split: if_splits)
      then show ?thesis by (rule 1(1)[OF Cons cap[symmetric] Inl ns])
    qed
  qed
qed

section \<open>The phases keep the guarantee\<close>

text \<open>A step that keeps the guarantee in every state that agrees, and does not touch the lock.\<close>

definition safe_op :: "('t, 'w) ext \<Rightarrow> hook_func set \<Rightarrow> deploy_run \<Rightarrow> 'w op \<Rightarrow> bool" where
  "safe_op x F c f \<longleftrightarrow> (\<forall>s. agree c (ds_ex s) \<longrightarrow> held x F (ds_ex s) (ds_ex (snd (f s)))
     \<and> agree c (ds_ex (snd (f s)))) \<and> (\<forall>s. ds_locked (snd (f s)) = ds_locked s)"

lemma agree_fields: "e_policy d = e_policy e \<Longrightarrow> e_required d = e_required e \<Longrightarrow> agree c d = agree c e"
  by (simp add: agree_def)

lemma safe_kept:
  assumes "\<And>e. agree c e \<Longrightarrow> kept x e (snd (f e))"
  shows "safe_op x F c (on_ex f)"
  using assms held_kept agree_kept by (fastforce simp: safe_op_def on_ex_def split: prod.split)

lemma safe_noop [simp]: "safe_op x F c noopStep" by (simp add: safe_op_def noopStep_def)

lemma safe_run [simp]: "safe_op x F c (on_ex (runStep x c cmd))"
  by (rule safe_kept) (rule kept_runStep)

lemma safe_task [simp]: "safe_op x F c (on_ex (RunTaskInPhase x t ph))"
  by (rule safe_kept) (rule kept_RunTaskInPhase)

lemma safe_then:
  assumes "safe_op x F c f" "safe_op x F c g"
  shows "safe_op x F c (and_then f g)"
proof -
  have "held x F (ds_ex s) (ds_ex (snd (and_then f g s))) \<and> agree c (ds_ex (snd (and_then f g s)))"
    if "agree c (ds_ex s)" for s
  proof -
    obtain r s1 where f: "f s = (r, s1)" by fastforce
    have "held x F (ds_ex s) (ds_ex s1)" "agree c (ds_ex s1)" using assms(1) that f by (auto simp: safe_op_def)
    moreover have "held x F (ds_ex s1) (ds_ex (snd (g s1)))" "agree c (ds_ex (snd (g s1)))" if "agree c (ds_ex s1)"
      using assms(2) that by (simp_all add: safe_op_def)
    ultimately show ?thesis using f held_trans[of x F "ds_ex s" "ds_ex s1"]
      by (auto simp: and_then_def split: option.split)
  qed
  moreover have "ds_locked (snd (and_then f g s)) = ds_locked s" for s
    using assms by (auto simp: and_then_def safe_op_def split: prod.split option.split) (metis snd_conv)+
  ultimately show ?thesis by (simp add: safe_op_def)
qed

lemma setters_agree [simp]:
  "agree c (SetCommitHash sha e) = agree c e" "agree c (SetChangelog lg e) = agree c e"
  "agree c (slog lv m a e) = agree c e" "e_dryRun (SetCommitHash sha e) = e_dryRun e"
  by (simp_all add: agree_def setters set_base_def invalidateRenderCache_def slog_def)

lemma held_changelog:
  assumes "\<not> e_dryRun e"
  shows "held x F e (publish_changelog x c prev sha e) \<and> (agree c e \<longrightarrow> agree c (publish_changelog x c prev sha e))"
proof -
  obtain r e1 where cap: "exec_Capture x (hd (exec_Hosts e)) (changelogCmd (l_RepoPath (dl_layout (dr_d c))) prev sha) e = (r, e1)"
    by fastforce
  have k: "kept x e e1" using kept_exec_Capture[OF assms] cap by (metis snd_conv)
  have "held x F e (slog lv m a e1)" "held x F e (SetChangelog lg e1)" for lv m a lg
    by (rule held_trans[OF held_kept[OF k]], simp)+
  then show ?thesis using cap agree_kept[OF k] by (auto simp: publish_changelog_def split: sum.split)
qed

lemma safe_revision [simp]: "safe_op x F c (resolve_revision x c)"
proof -
  have "held x F e (ds_ex (snd (resolve_revision x c s))) \<and> agree c (ds_ex (snd (resolve_revision x c s)))"
    if a: "agree c e" and e: "e = ds_ex s" for s e
  proof (cases "e_dryRun e")
    case True
    then show ?thesis using a e by (simp add: resolve_revision_def)
  next
    case False
    obtain r e1 where cl: "captureLive x c (Revision (dl_git (dr_d c)) (l_RepoPath (dl_layout (dr_d c)))) e = (r, e1)"
      by fastforce
    have k: "kept x e e1" using kept_captureLive[OF a False] cl by (metis snd_conv)
    have a1: "agree c e1" "\<not> e_dryRun e1" using agree_kept[OF k a] kept_fields[OF k] False by simp_all
    have "held x F e (SetCommitHash sha e1)" for sha by (rule held_trans[OF held_kept[OF k]]) simp
    then have "held x F e (publish_changelog x c p sha (SetCommitHash sha e1))
        \<and> agree c (publish_changelog x c p sha (SetCommitHash sha e1))" for p sha
      using held_changelog[of "SetCommitHash sha e1" x F c p sha] a1 held_trans by fastforce
    then show ?thesis using cl e False held_kept[OF k] a1 by (simp add: resolve_revision_def split: sum.split)
  qed
  then show ?thesis by (auto simp: safe_op_def resolve_revision_def split: prod.split sum.split)
qed

definition starting_ok :: "('t, 'w) ext \<Rightarrow> hook_func set \<Rightarrow> deploy_run \<Rightarrow> 'w op \<Rightarrow> bool" where
  "starting_ok x F c f \<longleftrightarrow> (\<forall>s. agree c (ds_ex s) \<longrightarrow> held x F (ds_ex s) (ds_ex (snd (f s)))
     \<and> agree c (ds_ex (snd (f s))))"

lemma starting_held: "starting_ok x F c (starting_step x c)"
proof -
  have "held x F e (ds_ex (snd (starting_step x c s))) \<and> agree c (ds_ex (snd (starting_step x c s)))"
    if a: "agree c e" and e: "e = ds_ex s" for s e
  proof -
    obtain r e1 where r: "RunOn x (dr_primary c) (lockCmd (dl_layout (dr_d c)) (dr_who c @ '' @ '' @ dr_ts c)) e = (r, e1)"
      by fastforce
    have k: "kept x e e1" using kept_RunOn r by (metis snd_conv)
    then show ?thesis using r e held_kept[OF k] agree_kept[OF k a]
      by (simp add: starting_step_def on_ex_def split: option.split)
  qed
  then show ?thesis by (simp add: starting_ok_def)
qed

lemma safe_tail:
  "list_all (\<lambda>st. safe_op x F c (snd st)) (tl (builtin_steps x c cfg))"
  "hd (builtin_steps x c cfg) = (PhaseStarting, starting_step x c)" "builtin_steps x c cfg \<noteq> []"
  by (simp_all add: builtin_steps_def Let_def updating_step_def finishing_step_def safe_then)

lemma safe_custom: "list_all (\<lambda>st. safe_op x F c (snd st)) (map (custom_step x) ps)"
  by (simp add: list_all_iff custom_step_def)

text \<open>The deploy's phases: custom ones, the acquisition of the lock, and safe steps.\<close>

lemma phases_shape: "\<exists>post. deploy_phases x c cfg = map (custom_step x) (phases_before (cfg_CustomPhases cfg) PhaseStarting)
    @ (PhaseStarting, starting_step x c) # post \<and> list_all (\<lambda>st. safe_op x F c (snd st)) post"
proof (cases "cfg_CustomPhases cfg = []")
  case True
  then show ?thesis using safe_tail(1)[of x F c cfg] safe_tail(2,3)[of x c cfg]
    by (cases "builtin_steps x c cfg") (auto simp: deploy_phases_def insertCustomPhases_def phases_before_def)
next
  case False
  obtain rest where b: "builtin_steps x c cfg = (PhaseStarting, starting_step x c) # rest"
    "list_all (\<lambda>st. safe_op x F c (snd st)) rest"
    using safe_tail(1)[of x F c cfg] safe_tail(2,3)[of x c cfg] by (cases "builtin_steps x c cfg") auto
  have "list_all (\<lambda>st. safe_op x F c (snd st)) (concat (map (\<lambda>s. map (custom_step x) (phases_before ps (fst s)) @ [s]
       @ map (custom_step x) (phases_after ps (fst s))) rest))" for ps
    using b(2) safe_custom[of x F c] by (induction rest) (auto simp: list_all_append)
  then show ?thesis using False b(1) safe_custom[of x F c]
    by (auto simp: deploy_phases_def insertCustomPhases_def list_all_append)
qed

section \<open>The whole lifecycle\<close>

lemma held_calm: "held x F e d \<Longrightarrow> e_capture e = None \<Longrightarrow> e_capture d = None \<and> (agree c e \<longrightarrow> agree c d)"
  by (auto simp: held_def agree_def)

lemma safe_starting: "safe_op x F c f \<Longrightarrow> starting_ok x F c f"
  by (simp add: safe_op_def starting_ok_def)

lemma starting_okD:
  assumes "starting_ok x F c f" "agree c (ds_ex s)" "f s = (r, t)"
  shows "held x F (ds_ex s) (ds_ex t)" "agree c (ds_ex t)"
proof -
  have "held x F (ds_ex s) (ds_ex (snd (f s))) \<and> agree c (ds_ex (snd (f s)))"
    using assms(1,2) unfolding starting_ok_def by blast
  then show "held x F (ds_ex s) (ds_ex t)" "agree c (ds_ex t)" using assms(3) by simp_all
qed

lemma mark_held [simp]: "held x F e (phase_mark ph e)" by (simp add: phase_mark_def)

lemma run_phases_held:
  assumes "list_all (\<lambda>st. starting_ok x F c (snd st)) steps" "e_capture (ds_ex s) = None" "agree c (ds_ex s)"
    and funcs: "hook_funcs cfg \<subseteq> F"
  shows "held x F (ds_ex s) (ds_ex (snd (run_phases (exec_hooks x cfg) steps s)))"
  using assms(1-3)
proof (induction steps arbitrary: s)
  case (Cons st rest)
  obtain ph fn where st: "st = (ph, fn)" by fastforce
  let ?hk = "exec_hooks x cfg"
  let ?s0 = "s\<lparr>ds_ex := phase_mark ph (ds_ex s)\<rparr>"
  obtain r1 e1 where b: "Before ?hk ph (ds_ex ?s0) = (r1, e1)" by fastforce
  have h1: "held x F (ds_ex s) e1"
    using held_trans[OF mark_held held_hooks(1)[OF funcs, of x "phase_mark ph (ds_ex s)" ph]] b by simp
  have a1: "e_capture e1 = None" "agree c e1" using held_calm[OF h1 Cons.prems(2)] Cons.prems(3) by simp_all
  let ?s1 = "?s0\<lparr>ds_ex := e1\<rparr>"
  obtain r2 s2 where f: "fn ?s1 = (r2, s2)" by fastforce
  have f2: "held x F e1 (ds_ex s2)" "agree c (ds_ex s2)"
    using starting_okD[of x F c fn ?s1 r2 s2] Cons.prems(1) st a1(2) f by simp_all
  have h2: "held x F (ds_ex s) (ds_ex s2)" using held_trans[OF h1 f2(1)] .
  have c2: "e_capture (ds_ex s2) = None" using held_calm[OF h2 Cons.prems(2)] by simp
  obtain r3 e3 where a: "After ?hk ph (ds_ex s2) = (r3, e3)" by fastforce
  have h3: "held x F (ds_ex s2) e3" using held_hooks(2)[OF funcs, of x "ds_ex s2" ph] a by simp
  have a3: "e_capture e3 = None" "agree c e3" using held_calm[OF h3 c2] f2(2) by simp_all
  let ?s3 = "s2\<lparr>ds_ex := e3\<rparr>"
  have h4: "held x F (ds_ex s) (ds_ex ?s3)" using held_trans[OF h2 h3] by simp
  have "held x F (ds_ex ?s3) (ds_ex (snd (run_phases ?hk rest ?s3)))"
    using Cons.IH[of ?s3] Cons.prems(1) a3 by simp
  then have "held x F (ds_ex s) (ds_ex (snd (run_phases ?hk rest ?s3)))" by (rule held_trans[OF h4])
  then show ?case using b f a h1 h2 h4 st by (simp add: on_ex_def split: option.split)
qed simp

lemma phases_starting_ok: "list_all (\<lambda>st. starting_ok x F c (snd st)) (deploy_phases x c cfg)"
proof -
  obtain post where p: "deploy_phases x c cfg = map (custom_step x) (phases_before (cfg_CustomPhases cfg) PhaseStarting)
    @ (PhaseStarting, starting_step x c) # post" "list_all (\<lambda>st. safe_op x F c (snd st)) post"
    using phases_shape[of x c cfg F] by blast
  have "list_all (\<lambda>st. starting_ok x F c (snd st)) ss" if "list_all (\<lambda>st. safe_op x F c (snd st)) ss" for ss
    using that by (auto simp: list_all_iff intro: safe_starting)
  then show ?thesis using p safe_custom[of x F c] starting_held by (auto simp: list_all_append)
qed

text \<open>The state the phases start in.\<close>

lemma setup_spec:
  assumes "e_capture e = None"
  shows "agree c (ds_ex (deploy_setup x c n e)) \<and> e_unreachable (ds_ex (deploy_setup x c n e)) = e_unreachable e
    \<and> e_cfg (ds_ex (deploy_setup x c n e)) = e_cfg e \<and> e_dryRun (ds_ex (deploy_setup x c n e)) = e_dryRun e
    \<and> e_capture (ds_ex (deploy_setup x c n e)) = None \<and> \<not> ds_locked (deploy_setup x c n e)
    \<and> (e_dryRun e \<longrightarrow> e_world (ds_ex (deploy_setup x c n e)) = e_world e
        \<and> e_cluster (ds_ex (deploy_setup x c n e)) = e_cluster e)"
proof -
  define e1 where "e1 = SetReleaseContext (dr_release c) (dr_ts c)
    (SetUnreachablePolicy (dl_policy (dr_d c)) (host_Address (hd (dr_primary c)) # dl_required (dr_d c)) e)"
  have 1: "agree c e1" "e_unreachable e1 = e_unreachable e" "e_cfg e1 = e_cfg e" "e_dryRun e1 = e_dryRun e"
    "e_capture e1 = None" "e_world e1 = e_world e" "e_cluster e1 = e_cluster e"
    using assms by (simp_all add: e1_def agree_def isRequired_def SetUnreachablePolicy_def setters set_base_def
        invalidateRenderCache_def)
  obtain r e2 where cap: "exec_Capture x (hd (dr_primary c)) (currentRevisionCmd (dl_layout (dr_d c))) e1 = (r, e2)"
    by fastforce
  have core: "core_of e2 = core_of e1" using cap by (metis core_Capture exec_Capture_def snd_conv)
  have 2: "agree c e2" "e_unreachable e2 = e_unreachable e" "e_cfg e2 = e_cfg e" "e_dryRun e2 = e_dryRun e"
    using core 1 by (simp_all add: core_of_eq agree_def)
  have 3: "\<not> e_dryRun e \<Longrightarrow> e_capture e2 = None"
    using kept_exec_Capture[of e1 x "hd (dr_primary c)" "currentRevisionCmd (dl_layout (dr_d c))"] cap 1
    by (simp add: kept_def)
  show ?thesis
    unfolding deploy_setup_def e1_def[symmetric] Let_def
    using 1 2 3 cap
    by (auto simp: setters set_base_def invalidateRenderCache_def slog_def agree_def split: sum.split)
qed

lemma core_RunOn: "core_of (snd (RunOn x hs cmd e)) = core_of e"
proof -
  have "core_of (fold (\<lambda>h. echoDryRun x (host_Address h) cmd) hs e) = core_of e" for e
    by (induction hs arbitrary: e) simp_all
  then have "core_of (snd (runOn x hs cmd ff e)) = core_of e" for ff by (simp add: runOn_def)
  then show ?thesis by (simp add: RunOn_def case_prod_beta)
qed

lemma release_core: "core_of (release_lock x c e) = core_of e"
  using core_RunOn[of "bounded x" "dr_primary c" "unlockCmd (dl_layout (dr_d c))" e]
  by (auto simp: release_lock_def split: prod.split option.split)

lemma release_held: "held x F e (release_lock x c e)"
proof -
  obtain r e1 where u: "RunOn (bounded x) (dr_primary c) (unlockCmd (dl_layout (dr_d c))) e = (r, e1)" by fastforce
  have "held (bounded x) F e e1" using held_kept[OF kept_RunOn] u by (metis snd_conv)
  then have "held x F e e1" by (simp add: held_detached)
  then show ?thesis using u held_trans[OF _ held_slog] by (auto simp: release_lock_def split: option.split)
qed

lemma failure_held: "hook_funcs cfg \<subseteq> F \<Longrightarrow> held x F e (onFailure x cfg err e)"
proof -
  assume "hook_funcs cfg \<subseteq> F"
  then have "held (detached x) F e (onFailure x cfg err e)"
    unfolding onFailure_def by (intro exec_hooks.notify_R) simp_all
  then show ?thesis by (simp add: held_detached)
qed

lemma result_held: "hook_funcs cfg \<subseteq> F \<Longrightarrow> held x F e (snd (deploy_result x cfg r e))"
  using failure_held[of cfg F x e] by (simp add: deploy_result_def Let_def split: option.split)

text \<open>A deploy that gets past its checks, as one guarantee from the state its phases start in.\<close>

lemma Deploy_cases:
  assumes "Deploy x d ts rt who e = (r, e')"
  obtains "e' = e" "r \<noteq> None" "app_Repo (cfg_App (e_cfg e)) = [] \<or> exec_Hosts e = []"
  | runErr s e1 where "exec_Hosts e \<noteq> []"
      "run_phases (exec_hooks x (e_cfg e)) (deploy_phases x (deploy_run_of d ts rt who (exec_Hosts e)) (e_cfg e))
         (deploy_setup x (deploy_run_of d ts rt who (exec_Hosts e)) (length (exec_Hosts e)) e) = (runErr, s)"
      "deploy_result x (e_cfg e) runErr (ds_ex s) = (r, e1)"
      "e' = (if ds_locked s then release_lock x (deploy_run_of d ts rt who (exec_Hosts e)) e1 else e1)"
proof -
  let ?c = "deploy_run_of d ts rt who (exec_Hosts e)"
  obtain runErr s where rp: "run_phases (exec_hooks x (e_cfg e)) (deploy_phases x ?c (e_cfg e))
      (deploy_setup x ?c (length (exec_Hosts e)) e) = (runErr, s)" by fastforce
  obtain r1 e1 where dr: "deploy_result x (e_cfg e) runErr (ds_ex s) = (r1, e1)" by fastforce
  show ?thesis
  proof (cases "app_Repo (cfg_App (e_cfg e)) = [] \<or> exec_Hosts e = []")
    case True
    then have "e' = e" "r \<noteq> None" using assms unfolding Deploy_def Let_def by (auto split: if_splits)
    then show ?thesis using that(1) True by blast
  next
    case False
    then have "r = r1" "e' = (if ds_locked s then release_lock x ?c e1 else e1)"
      using assms unfolding Deploy_def Let_def rp by (simp_all add: dr)
    then show ?thesis using that(2)[OF _ rp] False dr by simp
  qed
qed

lemma Deploy_held:
  assumes "Deploy x d ts rt who e = (r, e')" "e_capture e = None" "hook_funcs (e_cfg e) \<subseteq> F"
  shows "e' = e \<or> held x F (ds_ex (deploy_setup x (deploy_run_of d ts rt who (exec_Hosts e)) (length (exec_Hosts e)) e)) e'"
  using assms(1)
proof (cases rule: Deploy_cases)
  case (2 runErr s e1)
  let ?c = "deploy_run_of d ts rt who (exec_Hosts e)"
  let ?s0 = "deploy_setup x ?c (length (exec_Hosts e)) e"
  have "e_capture (ds_ex ?s0) = None" "agree ?c (ds_ex ?s0)"
    using setup_spec[of e ?c x "length (exec_Hosts e)"] assms(2) by auto
  then have "held x F (ds_ex ?s0) (ds_ex s)"
    using run_phases_held[OF phases_starting_ok _ _ assms(3), of ?s0 ?c x "e_cfg e"] 2(2) by simp
  moreover have "held x F (ds_ex s) e1" using result_held[OF assms(3), of x "ds_ex s" runErr] 2(3) by simp
  ultimately have "held x F (ds_ex ?s0) e1" by (rule held_trans)
  then show ?thesis using 2(4) held_trans[of x F "ds_ex ?s0" e1 "release_lock x ?c e1"] release_held[of x F e1 ?c] by simp
qed simp

lemma Deploy_reach:
  assumes "e_dryRun e" "e_capture e = None"
  shows "hook_reach x (hook_funcs (e_cfg e)) (e_world e) (e_world (snd (Deploy x d ts rt who e)))
    \<and> e_cluster (snd (Deploy x d ts rt who e)) = e_cluster e"
proof -
  obtain r e' where D: "Deploy x d ts rt who e = (r, e')" by fastforce
  from Deploy_held[OF D assms(2) subset_refl] show ?thesis
    using setup_spec[OF assms(2), of "deploy_run_of d ts rt who (exec_Hosts e)" x "length (exec_Hosts e)"] assms D
    by (auto simp: held_def)
qed

text \<open>
  C14. A dry-run deploy acts on the world only through the plugin functions the configuration hooks to
  phases, which run in a dry run too: whatever the task hooks, the custom phases and the failures, no
  command, upload or connection comes from the deploy itself, the connection pool is as it was, and if
  those functions leave the world alone, or there are none, so does the deploy.
\<close>

theorem Deploy_dry:
  assumes "e_dryRun e" "e_capture e = None"
  shows "hook_reach x (hook_funcs (e_cfg e)) (e_world e) (e_world (snd (Deploy x d ts rt who e)))
    \<and> e_cluster (snd (Deploy x d ts rt who e)) = e_cluster e
    \<and> ((\<forall>fn \<in> hook_funcs (e_cfg e). \<forall>w. snd (snd (x_hook x fn w)) = w)
        \<longrightarrow> e_world (snd (Deploy x d ts rt who e)) = e_world e)"
  using Deploy_reach[OF assms, of x d ts rt who] hook_reach_idle[of x "hook_funcs (e_cfg e)" "e_world e"] by blast

text \<open>
  C15. A deploy never skips a host it must not: whatever becomes unreachable, the host that holds the lock
  and every host marked required are never among the skipped ones, and under the abort policy no
  host is skipped at all.
\<close>

theorem Deploy_skips:
  assumes "Deploy x d ts rt who e = (r, e')" and "e_capture e = None" and "e_unreachable e = []"
  shows "host_Address (hd (PickPrimary (exec_Hosts e))) \<notin> set (e_unreachable e')
    \<and> set (dl_required d) \<inter> set (e_unreachable e') = {}
    \<and> (dl_policy d = OnUnreachableSkip \<or> e_unreachable e' = [])"
proof -
  let ?c = "deploy_run_of d ts rt who (exec_Hosts e)"
  let ?e0 = "ds_ex (deploy_setup x ?c (length (exec_Hosts e)) e)"
  note su = setup_spec[OF assms(2), of ?c x "length (exec_Hosts e)"]
  have req: "h \<in> set (e_required ?e0) \<longleftrightarrow> h = host_Address (hd (PickPrimary (exec_Hosts e))) \<or> h \<in> set (dl_required d)" for h
    using su by (simp add: agree_def isRequired_def deploy_run_of_def)
  have pol: "skipUnreachable ?e0 \<longleftrightarrow> dl_policy d = OnUnreachableSkip"
    using su by (simp add: agree_def skipUnreachable_def deploy_run_of_def)
  from Deploy_held[OF assms(1,2) subset_refl] show ?thesis
  proof
    assume "e' = e"
    then show ?thesis using assms(3) by simp
  next
    assume "held x (hook_funcs (e_cfg e)) ?e0 e'"
    then have "set (e_unreachable e') \<subseteq> (if skipUnreachable ?e0 then - set (e_required ?e0) else {})"
      using su assms(3) by (auto simp: held_def)
    then show ?thesis using req pol by (auto split: if_splits)
  qed
qed

section \<open>The lock and the order of the phases\<close>

text \<open>The phases whose command runs, each with the state it runs in.\<close>

fun phase_log :: "'w exec hook_runner \<Rightarrow> 'w step list \<Rightarrow> 'w dstate \<Rightarrow> (string \<times> 'w dstate) list" where
  "phase_log hk [] s = []"
| "phase_log hk ((phase, fn) # rest) s =
     (case on_ex (Before hk phase) (s\<lparr>ds_ex := phase_mark phase (ds_ex s)\<rparr>) of
        (Some err, s1) \<Rightarrow> []
      | (None, s1) \<Rightarrow> (phase, s1) # (case fn s1 of
          (Some err, s2) \<Rightarrow> []
        | (None, s2) \<Rightarrow> (case on_ex (After hk phase) s2 of
            (Some err, s3) \<Rightarrow> [] | (None, s3) \<Rightarrow> phase_log hk rest s3)))"

lemma log_prefix: "prefix (map fst (phase_log hk steps s)) (map fst steps)
    \<and> (fst (run_phases hk steps s) = None \<longrightarrow> map fst (phase_log hk steps s) = map fst steps)"
  by (induction hk steps s rule: phase_log.induct) (auto split: prod.split option.split)

lemma run_append: "run_phases hk (as @ bs) s = (case run_phases hk as s of
    (Some err, s1) \<Rightarrow> (Some err, s1) | (None, s1) \<Rightarrow> run_phases hk bs s1)"
  by (induction hk as s rule: run_phases.induct) (auto split: prod.split option.split)

lemma log_append: "phase_log hk (as @ bs) s = phase_log hk as s @ (case run_phases hk as s of
    (Some err, s1) \<Rightarrow> [] | (None, s1) \<Rightarrow> phase_log hk bs s1)"
  by (induction hk as s rule: run_phases.induct) (auto split: prod.split option.split)

lemma on_ex_locked: "on_ex f s = (r, t) \<Longrightarrow> ds_locked t = ds_locked s"
  by (auto simp: on_ex_def split: prod.splits)

lemma safe_locked: "safe_op x F c f \<Longrightarrow> f s = (r, t) \<Longrightarrow> ds_locked t = ds_locked s"
  unfolding safe_op_def by (metis snd_conv)

lemma log_safe:
  "list_all (\<lambda>st. safe_op x F c (snd st)) steps \<Longrightarrow>
   (\<forall>t\<in>snd ` set (phase_log hk steps s). ds_locked t = ds_locked s)
   \<and> ds_locked (snd (run_phases hk steps s)) = ds_locked s"
proof (induction steps arbitrary: s)
  case (Cons st rest)
  obtain phase fn where st: "st = (phase, fn)" by fastforce
  obtain r1 s1 where b: "on_ex (Before hk phase) (s\<lparr>ds_ex := phase_mark phase (ds_ex s)\<rparr>) = (r1, s1)" by fastforce
  obtain r2 s2 where f: "fn s1 = (r2, s2)" by fastforce
  obtain r3 s3 where a: "on_ex (After hk phase) s2 = (r3, s3)" by fastforce
  have l: "ds_locked s1 = ds_locked s" "ds_locked s2 = ds_locked s1" "ds_locked s3 = ds_locked s2"
    using on_ex_locked[OF b] safe_locked[of x F c fn s1 r2 s2] f on_ex_locked[OF a] Cons.prems st by simp_all
  show ?case
  proof (cases "r1 = None \<and> r2 = None \<and> r3 = None")
    case True
    then show ?thesis using Cons.IH[of s3] Cons.prems st b f a l by simp
  next
    case False
    then show ?thesis using st b f a l by (auto split: option.split)
  qed
qed simp

definition takes_lock :: "('t, 'w) ext \<Rightarrow> deploy_run \<Rightarrow> (string \<times> 'w dstate) list \<Rightarrow> bool" where
  "takes_lock x c lg \<longleftrightarrow> list_ex (\<lambda>(phase, s). phase = PhaseStarting \<and>
     fst (RunOn x (dr_primary c) (lockCmd (dl_layout (dr_d c)) (dr_who c @ '' @ '' @ dr_ts c)) (ds_ex s)) = None) lg"

lemma takes_lock_simps: "takes_lock x c (as @ bs) \<longleftrightarrow> takes_lock x c as \<or> takes_lock x c bs"
  "PhaseStarting \<notin> fst ` set as \<Longrightarrow> \<not> takes_lock x c as"
  by (force simp: takes_lock_def list_ex_iff)+

lemma starting_locked:
  assumes "starting_step x c s = (r, t)" "\<not> ds_locked s"
  shows "ds_locked t \<longleftrightarrow> r = None" "r = None \<longleftrightarrow> takes_lock x c [(PhaseStarting, s)]"
  using assms by (auto simp: starting_step_def takes_lock_def on_ex_def split: prod.splits option.splits)

lemma log_names: "fst ` set (phase_log hk steps s) \<subseteq> fst ` set steps"
proof -
  have "set (map fst (phase_log hk steps s)) \<subseteq> set (map fst steps)"
    using log_prefix[of hk steps s] set_mono_prefix by blast
  then show ?thesis by simp
qed

lemma lock_core:
  assumes pre: "list_all (\<lambda>st. safe_op x F c (snd st)) pre" and post: "list_all (\<lambda>st. safe_op x F c (snd st)) post"
    and new: "PhaseStarting \<notin> fst ` set pre" "PhaseStarting \<notin> fst ` set post" and free: "\<not> ds_locked s"
    and run: "run_phases hk (pre @ (PhaseStarting, starting_step x c) # post) s = (r, s')"
    and lg: "phase_log hk (pre @ (PhaseStarting, starting_step x c) # post) s = lg"
  shows "(\<forall>(phase, t)\<in>set lg. phase \<in> fst ` set post \<longrightarrow> phase \<notin> fst ` set pre \<longrightarrow> ds_locked t)
    \<and> (ds_locked s' \<longleftrightarrow> takes_lock x c lg) \<and> (r = None \<longrightarrow> ds_locked s')"
proof -
  obtain r1 s1 where p: "run_phases hk pre s = (r1, s1)" by fastforce
  have names: "fst ` set (phase_log hk pre s) \<subseteq> fst ` set pre" by (rule log_names)
  have lp: "\<not> takes_lock x c (phase_log hk pre s)" using names new(1) by (intro takes_lock_simps(2)) auto
  have s1: "\<not> ds_locked s1" using log_safe[OF pre, of hk s] p free by simp
  have in_pre: "phase \<in> fst ` set pre" if "(phase, t) \<in> set (phase_log hk pre s)" for phase t
    using names that by force
  show ?thesis
  proof (cases r1)
    case (Some err)
    then have "lg = phase_log hk pre s" "s' = s1" "r \<noteq> None" using run lg p by (auto simp: run_append log_append)
    then show ?thesis using lp s1 in_pre by auto
  next
    case None
    define b where "b = on_ex (Before hk PhaseStarting) (s1\<lparr>ds_ex := phase_mark PhaseStarting (ds_ex s1)\<rparr>)"
    obtain r2 s2 where b: "b = (r2, s2)" by fastforce
    have s2: "\<not> ds_locked s2" using on_ex_locked[of "Before hk PhaseStarting" _ r2 s2] b s1 by (simp add: b_def)
    obtain r3 s3 where f: "starting_step x c s2 = (r3, s3)" by fastforce
    note l3 = starting_locked[OF f s2]
    obtain r4 s4 where a: "on_ex (After hk PhaseStarting) s3 = (r4, s4)" by fastforce
    have l4: "ds_locked s4 = ds_locked s3" using on_ex_locked[OF a] .
    note eqs = run[unfolded run_append p None prod.case option.case run_phases.simps b_def[symmetric] b]
      lg[symmetric, unfolded log_append p None prod.case option.case phase_log.simps b_def[symmetric] b]
    consider "r2 \<noteq> None" | "r2 = None" "r3 \<noteq> None" | "r2 = None" "r3 = None" "r4 \<noteq> None"
      | "r2 = None" "r3 = None" "r4 = None" by blast
    then show ?thesis
    proof cases
      case 1
      then have "lg = phase_log hk pre s" "s' = s2" "r \<noteq> None" using eqs by auto
      then show ?thesis using lp s2 in_pre by auto
    next
      case 2
      then have "lg = phase_log hk pre s @ [(PhaseStarting, s2)]" "s' = s3" "r \<noteq> None" using eqs f by auto
      then show ?thesis using lp l3 2 in_pre new by (auto simp: takes_lock_simps(1))
    next
      case 3
      then have "lg = phase_log hk pre s @ [(PhaseStarting, s2)]" "s' = s4" "r \<noteq> None" using eqs f a by auto
      then show ?thesis using lp l3 l4 3 in_pre new by (auto simp: takes_lock_simps(1))
    next
      case 4
      then have e4: "lg = phase_log hk pre s @ [(PhaseStarting, s2)] @ phase_log hk post s4" "run_phases hk post s4 = (r, s')"
        using eqs f a by auto
      have lk: "ds_locked s4" "takes_lock x c [(PhaseStarting, s2)]" using l3 l4 4 by simp_all
      have "ds_locked s'" "\<forall>t\<in>snd ` set (phase_log hk post s4). ds_locked t"
        using log_safe[OF post, of hk s4] lk e4(2) by simp_all
      moreover have "takes_lock x c lg" using e4(1) lk(2) by (simp add: takes_lock_def)
      ultimately show ?thesis using e4(1) in_pre new by auto
    qed
  qed
qed

text \<open>A deploy's log, and its outcome before the lock is given back.\<close>

definition deploy_log :: "('t, 'w) ext \<Rightarrow> deploy_run \<Rightarrow> 'w exec \<Rightarrow> (string \<times> 'w dstate) list" where
  "deploy_log x c e = phase_log (exec_hooks x (e_cfg e)) (deploy_phases x c (e_cfg e))
     (deploy_setup x c (length (exec_Hosts e)) e)"

definition deploy_outcome :: "('t, 'w) ext \<Rightarrow> deploy_run \<Rightarrow> 'w exec \<Rightarrow> goerr option \<times> 'w exec" where
  "deploy_outcome x c e = (case run_phases (exec_hooks x (e_cfg e)) (deploy_phases x c (e_cfg e))
     (deploy_setup x c (length (exec_Hosts e)) e) of
     (runErr, s) \<Rightarrow> deploy_result x (e_cfg e) runErr (ds_ex s))"

lemma setup_locked [simp]: "\<not> ds_locked (deploy_setup x c n e)"
  by (simp add: deploy_setup_def Let_def split: prod.split)

lemma pre_names: "fst ` set (map (custom_step x) (phases_before ps b)) \<subseteq> cp_Name ` set ps"
  by (auto simp: custom_step_def phases_before_def)

lemma deploy_lock_lemma:
  assumes "New_deployer (e_cfg e) = Inr d"
    and run: "run_phases (exec_hooks x (e_cfg e)) (deploy_phases x c (e_cfg e)) (deploy_setup x c n e) = (r, s)"
    and lg: "phase_log (exec_hooks x (e_cfg e)) (deploy_phases x c (e_cfg e)) (deploy_setup x c n e) = lg"
  shows "(\<forall>(phase, t)\<in>set lg. phase \<in> insert PhaseStarting (cp_Name ` set (phases_before (cfg_CustomPhases (e_cfg e)) PhaseStarting))
      \<or> ds_locked t) \<and> (ds_locked s \<longleftrightarrow> takes_lock x c lg) \<and> (r = None \<longrightarrow> ds_locked s)"
proof -
  let ?pre = "map (custom_step x) (phases_before (cfg_CustomPhases (e_cfg e)) PhaseStarting)"
  obtain post where p: "deploy_phases x c (e_cfg e) = ?pre @ (PhaseStarting, starting_step x c) # post"
    "list_all (\<lambda>st. safe_op x F c (snd st)) post" using phases_shape[of x c "e_cfg e" F] by blast
  have "distinct (map fst (deploy_phases x c (e_cfg e)))" using phases_plan[OF assms(1)] by blast
  then have new: "PhaseStarting \<notin> fst ` set ?pre" "PhaseStarting \<notin> fst ` set post" unfolding p(1) by auto
  have names: "fst ` set ?pre = cp_Name ` set (phases_before (cfg_CustomPhases (e_cfg e)) PhaseStarting)"
    by (simp add: custom_step_def image_image)
  have "fst ` set lg \<subseteq> fst ` set ?pre \<union> {PhaseStarting} \<union> fst ` set post"
    using log_names[of "exec_hooks x (e_cfg e)" "deploy_phases x c (e_cfg e)" "deploy_setup x c n e"] lg p(1) by auto
  then have split: "phase \<in> fst ` set ?pre \<or> phase = PhaseStarting \<or> phase \<in> fst ` set post" if "(phase, t) \<in> set lg" for phase t
    using that by force
  note core = lock_core[OF safe_custom p(2) new setup_locked run[unfolded p(1)] lg[unfolded p(1)]]
  then show ?thesis using split unfolding names by fastforce
qed

text \<open>
  C1. A deploy works under its lock: every phase after \<open>deploy:starting\<close> (a custom phase included) runs
  with the lock held, only \<open>deploy:starting\<close> and the custom phases anchored before it may run
  without it, and the lock is given back at the end, after the failure hooks, exactly when this
  deploy's own acquisition succeeded: another deploy's lock is never removed.
\<close>

theorem Deploy_lock:
  assumes "New_deployer (e_cfg e) = Inr d" "app_Repo (cfg_App (e_cfg e)) \<noteq> []" "exec_Hosts e \<noteq> []"
    and c: "c = deploy_run_of d ts rt who (exec_Hosts e)"
  shows "list_all (\<lambda>(phase, t). phase = PhaseStarting
        \<or> phase \<in> cp_Name ` set (phases_before (cfg_CustomPhases (e_cfg e)) PhaseStarting) \<or> ds_locked t) (deploy_log x c e)
    \<and> Deploy x d ts rt who e = (case deploy_outcome x c e of
        (r, e1) \<Rightarrow> (r, if takes_lock x c (deploy_log x c e) then release_lock x c e1 else e1))"
proof -
  obtain r s where run: "run_phases (exec_hooks x (e_cfg e)) (deploy_phases x c (e_cfg e))
      (deploy_setup x c (length (exec_Hosts e)) e) = (r, s)" by fastforce
  note core = deploy_lock_lemma[OF assms(1) run refl, folded deploy_log_def]
  have "ds_locked s \<longleftrightarrow> takes_lock x c (deploy_log x c e)" using core by blast
  moreover have "Deploy x d ts rt who e = (case deploy_outcome x c e of (r, e1) \<Rightarrow> (r, if ds_locked s then release_lock x c e1 else e1))"
    using assms(2,3) unfolding Deploy_def Let_def c[symmetric] deploy_outcome_def run by simp
  ultimately show ?thesis using core by (auto simp: list_all_iff)
qed

lemma release_unreachable: "UnreachableHosts (release_lock x c e) = UnreachableHosts e"
  using release_core[of x c e] by (simp add: UnreachableHosts_def core_of_eq)

text \<open>
  C16. The phases that run are an initial part of the deploy's plan, in its order; a deploy that reports
  success ran all of them, took the lock, and left no host out.
\<close>

theorem Deploy_success:
  assumes "New_deployer (e_cfg e) = Inr d" "app_Repo (cfg_App (e_cfg e)) \<noteq> []" "exec_Hosts e \<noteq> []"
    and c: "c = deploy_run_of d ts rt who (exec_Hosts e)" and D: "Deploy x d ts rt who e = (r, e')"
  shows "prefix (map fst (deploy_log x c e)) (map fst (deploy_phases x c (e_cfg e)))
    \<and> (r \<noteq> None \<or> map fst (deploy_log x c e) = map fst (deploy_phases x c (e_cfg e))
        \<and> takes_lock x c (deploy_log x c e) \<and> UnreachableHosts e' = [])"
proof -
  obtain r0 s where run: "run_phases (exec_hooks x (e_cfg e)) (deploy_phases x c (e_cfg e))
      (deploy_setup x c (length (exec_Hosts e)) e) = (r0, s)" by fastforce
  note core = deploy_lock_lemma[OF assms(1) run refl, folded deploy_log_def]
  note pre = log_prefix[of "exec_hooks x (e_cfg e)" "deploy_phases x c (e_cfg e)" "deploy_setup x c (length (exec_Hosts e)) e",
      folded deploy_log_def, unfolded run fst_conv]
  obtain r1 e1 where dr: "deploy_result x (e_cfg e) r0 (ds_ex s) = (r1, e1)" by fastforce
  have D': "r = r1" "e' = (if ds_locked s then release_lock x c e1 else e1)"
    using D assms(2,3) unfolding Deploy_def Let_def c[symmetric] run by (simp_all add: dr)
  show ?thesis
  proof (cases r)
    case None
    then have "r0 = None" "UnreachableHosts e1 = []"
      using dr D'(1) by (auto simp: deploy_result_def Let_def UnreachableHosts_def slog_def split: option.splits if_splits)
    then show ?thesis using pre core D'(2) release_unreachable[of x c e1] by auto
  qed (use pre in simp)
qed

section \<open>A concrete deploy\<close>

definition demo_deploy :: deploy_file where
  "demo_deploy = zero_cfg\<lparr>cfg_App := (cfg_App zero_cfg)\<lparr>app_Repo := ''git@host:app'', app_DeployTo := ''/srv''\<rparr>,
     cfg_Hosts := two_web,
     cfg_CustomPhases := [\<lparr>cp_Name = ''smoke'', cp_Before = [], cp_After = PhasePublishing, cp_Task = []\<rparr>]\<rparr>"

definition demo_deployer :: deployer where
  "demo_deployer = projr (New_deployer demo_deploy)"

definition deploy_exec :: "bool \<Rightarrow> nat exec" where
  "deploy_exec dry = New_executor demo_deploy (demo_opts\<lparr>o_DryRun := dry\<rparr>) [] YNull [] no_secrets 0"

lemma deploy_exec_simps:
  "e_cfg (deploy_exec dry) = demo_deploy" "e_dryRun (deploy_exec dry) = dry" "e_capture (deploy_exec dry) = None"
  "e_unreachable (deploy_exec dry) = []" "e_world (deploy_exec dry) = 0"
  "app_Repo (cfg_App demo_deploy) \<noteq> []"
  by (simp_all add: deploy_exec_def New_executor_def demo_deploy_def)

lemma deploy_exec_hosts: "exec_Hosts (deploy_exec dry) = two_web"
  by (simp add: deploy_exec_def New_executor_def demo_deploy_def exec_Hosts_def filterExcluded_def two_web_def
      zero_host_def demo_opts_def FilterDeployable_def FilterByRoles_def FilterByAddresses_def namespaceSet_def DeployEnabled_def)

lemma demo_customs: "cfg_CustomPhases demo_deploy
    = [\<lparr>cp_Name = ''smoke'', cp_Before = [], cp_After = PhasePublishing, cp_Task = []\<rparr>]"
  by (simp add: demo_deploy_def)

lemma demo_New: "New_deployer demo_deploy = Inr demo_deployer"
proof -
  have "\<exists>d. New_deployer demo_deploy = Inr d"
    unfolding New_deployer_ok by (simp add: demo_deploy_def zero_cfg_def phase_ok_def IsBuiltinPhase_def BuiltinPhases_def phase_defs)
  then show ?thesis by (auto simp: demo_deployer_def)
qed

lemma two_web_ne: "two_web \<noteq> []" by (simp add: two_web_def)

lemma demo_phases:
  "map fst (deploy_phases demo_ext (deploy_run_of demo_deployer ''1'' ''2'' ''me'' two_web) demo_deploy) =
   [PhaseStarting, PhaseCheck, PhaseInit, PhaseStarted, PhaseUpdating, PhaseSymlink, PhaseUpdated, PhasePublishing,
    ''smoke'', PhasePublished, PhaseFinishing, PhaseFinished]"
  using phases_plan[OF demo_New, of demo_ext "deploy_run_of demo_deployer ''1'' ''2'' ''me'' two_web"]
  by (simp add: demo_customs phases_before_def phases_after_def BuiltinPhases_def) (simp add: phase_defs)

lemma deploy_phases_order_witness:
  "map fst (deploy_phases demo_ext (deploy_run_of demo_deployer ''1'' ''2'' ''me'' two_web) demo_deploy) =
   [PhaseStarting, PhaseCheck, PhaseInit, PhaseStarted, PhaseUpdating, PhaseSymlink, PhaseUpdated, PhasePublishing,
    ''smoke'', PhasePublished, PhaseFinishing, PhaseFinished]"
  using deploy_phases_order[OF demo_New, of demo_ext "deploy_run_of demo_deployer ''1'' ''2'' ''me'' two_web"]
  by (simp add: demo_customs phases_before_def phases_after_def BuiltinPhases_def) (simp add: phase_defs)

lemma captureLive_live_witness:
  "\<exists>out e'. captureLive demo_ext (deploy_run_of demo_deployer ''1'' ''2'' ''me'' two_web) ''git'' (deploy_exec False) = (Inr out, e')
    \<and> exec_Hosts e' \<noteq> []"
proof -
  have ok: "trim_right is_space (trim_left is_space ''ok'') = ''ok''" by code_simp
  have cap: "fst (exec_Capture demo_ext h ''git'' (deploy_exec False)) = Inr ''ok''" if "h = hd two_web" for h
    using that by (simp add: two_web_def zero_host_def exec_Capture_def cluster_Capture_def Capture_def demo_ext_def demo_simps
        lift_net_def deploy_exec_def New_executor_def target_of_def demo_opts_def trim_space_def stdout_of_def ok)
  obtain h hs where hh: "two_web = h # hs" by (simp add: two_web_def)
  obtain out e' where c: "exec_Capture demo_ext h ''git'' (deploy_exec False) = (Inr out, e')"
    using cap[of h] hh by (metis list.sel(1) prod.collapse)
  have r: "captureLive demo_ext (deploy_run_of demo_deployer ''1'' ''2'' ''me'' two_web) ''git'' (deploy_exec False) = (Inr out, e')"
    by (subst captureLive.simps) (simp add: deploy_exec_hosts c hh)
  show ?thesis using r captureLive_live[OF r] by blast
qed

text \<open>A plugin function that acts on the world, hooked before \<open>deploy:check\<close>; without it nothing moves.\<close>

lemma Deploy_dry_witness:
  "e_world (snd (Deploy demo_ext demo_deployer ''1'' ''2'' ''me'' (deploy_exec True))) = 0
   \<and> hook_reach (demo_ext\<lparr>x_hook := \<lambda>fn w. ([], None, Suc w)\<rparr>) {HookFunc ''f''} 0
       (e_world (snd (Deploy (demo_ext\<lparr>x_hook := \<lambda>fn w. ([], None, Suc w)\<rparr>) demo_deployer ''1'' ''2'' ''me''
         ((deploy_exec True)\<lparr>e_cfg := AddHookFuncBefore PhaseCheck (HookFunc ''f'') demo_deploy\<rparr>))))"
proof
  have "hook_funcs demo_deploy = {}" by (simp add: hook_funcs_def demo_deploy_def zero_cfg_def m_list_def)
  then show "e_world (snd (Deploy demo_ext demo_deployer ''1'' ''2'' ''me'' (deploy_exec True))) = 0"
    using Deploy_dry[of "deploy_exec True" demo_ext demo_deployer "''1''" "''2''" "''me''"]
    by (simp add: deploy_exec_simps)
  have "hook_funcs (AddHookFuncBefore PhaseCheck (HookFunc ''f'') demo_deploy) = {HookFunc ''f''}"
    by (auto simp: hook_funcs_def demo_deploy_def zero_cfg_def m_list_def AddHookFuncBefore_def m_append_def
        split: option.splits if_splits)
  then show "hook_reach (demo_ext\<lparr>x_hook := \<lambda>fn w. ([], None, Suc w)\<rparr>) {HookFunc ''f''} 0
       (e_world (snd (Deploy (demo_ext\<lparr>x_hook := \<lambda>fn w. ([], None, Suc w)\<rparr>) demo_deployer ''1'' ''2'' ''me''
         ((deploy_exec True)\<lparr>e_cfg := AddHookFuncBefore PhaseCheck (HookFunc ''f'') demo_deploy\<rparr>))))"
    using Deploy_dry[of "(deploy_exec True)\<lparr>e_cfg := AddHookFuncBefore PhaseCheck (HookFunc ''f'') demo_deploy\<rparr>"
        "demo_ext\<lparr>x_hook := \<lambda>fn w. ([], None, Suc w)\<rparr>" demo_deployer "''1''" "''2''" "''me''"]
    by (simp add: deploy_exec_simps)
qed

lemma Deploy_skips_witness:
  "\<exists>r e'. Deploy demo_ext demo_deployer ''1'' ''2'' ''me'' (deploy_exec False) = (r, e') \<and> ''w1'' \<notin> set (e_unreachable e')"
proof -
  obtain r e' where D: "Deploy demo_ext demo_deployer ''1'' ''2'' ''me'' (deploy_exec False) = (r, e')" by fastforce
  show ?thesis using D Deploy_skips[OF D] by (simp add: deploy_exec_simps deploy_exec_hosts two_web_def PickPrimary_def zero_host_def)
qed

lemma Deploy_lock_witness:
  "\<exists>r e1. deploy_outcome demo_ext (deploy_run_of demo_deployer ''1'' ''2'' ''me'' two_web) (deploy_exec False) = (r, e1)
     \<and> fst (Deploy demo_ext demo_deployer ''1'' ''2'' ''me'' (deploy_exec False)) = r"
proof -
  obtain r e1 where o': "deploy_outcome demo_ext (deploy_run_of demo_deployer ''1'' ''2'' ''me'' two_web) (deploy_exec False) = (r, e1)"
    by fastforce
  show ?thesis using o' Deploy_lock[of "deploy_exec False" demo_deployer _ "''1''" "''2''" "''me''" demo_ext]
    by (simp add: deploy_exec_simps deploy_exec_hosts demo_New two_web_ne split: prod.splits)
qed

lemma Deploy_success_witness:
  "\<exists>r e'. Deploy demo_ext demo_deployer ''1'' ''2'' ''me'' (deploy_exec False) = (r, e')
     \<and> prefix (map fst (deploy_log demo_ext (deploy_run_of demo_deployer ''1'' ''2'' ''me'' two_web) (deploy_exec False)))
         [PhaseStarting, PhaseCheck, PhaseInit, PhaseStarted, PhaseUpdating, PhaseSymlink, PhaseUpdated, PhasePublishing,
    ''smoke'', PhasePublished, PhaseFinishing, PhaseFinished]"
proof -
  obtain r e' where D: "Deploy demo_ext demo_deployer ''1'' ''2'' ''me'' (deploy_exec False) = (r, e')" by fastforce
  have "prefix (map fst (deploy_log demo_ext (deploy_run_of demo_deployer ''1'' ''2'' ''me'' two_web) (deploy_exec False)))
      (map fst (deploy_phases demo_ext (deploy_run_of demo_deployer ''1'' ''2'' ''me'' two_web) demo_deploy))"
    using Deploy_success[OF _ _ _ refl D] by (simp add: deploy_exec_simps deploy_exec_hosts demo_New two_web_ne)
  then show ?thesis using D demo_phases by simp
qed

end
