(* ===== verification/Ssh_Keys.thy ===== *)
theory Ssh_Keys
  imports Errors
begin

text \<open>
  Private keys and authentication of the SSH transport (\<open>transport/ssh/keyring.go\<close>; \<open>authMethods\<close>, \<open>setupForwarding\<close> and
  their helpers in \<open>transport/ssh/client.go\<close>).

  Parameters are the file system of the operator, the parser of private keys and the public key it finds in them, what the
  in-memory keyring accepts, and the operator's own agent. The keyring itself is the vendored one: a list of keys in which
  a key replaces, at its place, one with the same public key. A file comes with the error \<open>os.ReadFile\<close> or \<open>os.Stat\<close>
  gives in its place. Debug records are left out, the other records of a directory scan are its \<open>scan_note\<close>s.
\<close>

record agent_identity =
  ai_Name :: string
  ai_Path :: string
  ai_Content :: string
  ai_Passphrase :: string
  ai_Recursive :: bool

record file_info =
  fi_Dir :: bool
  fi_Regular :: bool
  fi_Size :: int

text \<open>What \<open>ssh.ParseRawPrivateKey\<close> makes of a text: a key, the request for a passphrase, or another error.\<close>

datatype 'k parsed = Parsed 'k | Passphrase_missing goerr | Unparsable goerr

text \<open>What a walk meets, in the order of its visits; it ends with the first error.\<close>

datatype walk_step = Visit string bool | Walk_error goerr

record 'k key_env =
  ke_home :: "string option"
  ke_read :: "string \<Rightarrow> string res"
  ke_stat :: "string \<Rightarrow> file_info res"
  ke_list :: "string \<Rightarrow> (string \<times> bool) list res"
  ke_walk :: "string \<Rightarrow> walk_step list"
  ke_parse :: "string \<Rightarrow> 'k parsed"
  ke_decrypt :: "string \<Rightarrow> string \<Rightarrow> 'k res"
  ke_public :: "'k \<Rightarrow> string"
  ke_accepts :: "'k \<Rightarrow> goerr option"
  ke_signer :: "'k \<Rightarrow> goerr option"
  ke_sock :: string
  ke_agent :: "string \<Rightarrow> goerr option"

record 'k added_key =
  ak_Key :: 'k
  ak_Comment :: string

type_synonym 'k keyring = "'k added_key list"

definition maxKeyFileSize :: int where "maxKeyFileSize = 1048576"

section \<open>One key\<close>

definition expandHome :: "string option \<Rightarrow> string \<Rightarrow> string" where
  "expandHome home p = (if has_prefix p ''~/'' then (case home of Some h \<Rightarrow> path_join [h, drop 2 p] | None \<Rightarrow> p) else p)"

text \<open>An error of the parser, and whether it is tagged with \<open>errEncryptedKey\<close>.\<close>

datatype key_error = Encrypted goerr | Not_a_key goerr

fun key_cause :: "key_error \<Rightarrow> goerr" where
  "key_cause (Encrypted err) = err"
| "key_cause (Not_a_key err) = err"

fun isEncryptedKeyError :: "key_error \<Rightarrow> bool" where
  "isEncryptedKeyError (Encrypted err) = True"
| "isEncryptedKeyError (Not_a_key err) = False"

definition errEncryptedKey :: string where "errEncryptedKey = ''key is encrypted''"

definition parsePrivateKey :: "'k key_env \<Rightarrow> string \<Rightarrow> string \<Rightarrow> key_error + 'k" where
  "parsePrivateKey ke raw passphrase = (case ke_parse ke raw of
      Parsed key \<Rightarrow> Inr key
    | Unparsable err \<Rightarrow> Inl (Not_a_key err)
    | Passphrase_missing _ \<Rightarrow>
        if passphrase = [] then Inl (Encrypted (Text (errEncryptedKey @ '', set passphrase'')))
        else (case ke_decrypt ke raw passphrase of
            Inr key \<Rightarrow> Inr key
          | Inl err \<Rightarrow> Inl (Encrypted (Wrap (errEncryptedKey @ '', decrypt failed: '') err []))))"

definition relabel :: "string \<Rightarrow> key_error \<Rightarrow> key_error" where
  "relabel msg e = (case e of Encrypted err \<Rightarrow> Encrypted (wrapf msg err) | Not_a_key err \<Rightarrow> Not_a_key (wrapf msg err))"

definition loadKeyFile :: "'k key_env \<Rightarrow> string \<Rightarrow> string \<Rightarrow> string \<Rightarrow> key_error + 'k" where
  "loadKeyFile ke label path passphrase = (case ke_read ke (expandHome (ke_home ke) path) of
      Inl err \<Rightarrow> Inl (Not_a_key (wrapf (''read '' @ label @ '' '' @ path) err))
    | Inr raw \<Rightarrow> (case parsePrivateKey ke raw passphrase of
        Inl err \<Rightarrow> Inl (relabel (''parse '' @ label @ '' '' @ path) err)
      | Inr key \<Rightarrow> Inr key))"

text \<open>\<open>keyring.Add\<close>: the first entry with the same public key gives way, comment included; otherwise the key goes last.\<close>

fun put_key :: "('k \<Rightarrow> string) \<Rightarrow> 'k added_key \<Rightarrow> 'k keyring \<Rightarrow> 'k keyring" where
  "put_key pub p [] = [p]"
| "put_key pub p (q # kr) = (if pub (ak_Key q) = pub (ak_Key p) then p # kr else q # put_key pub p kr)"

definition addKey :: "'k key_env \<Rightarrow> string \<Rightarrow> string \<Rightarrow> 'k \<Rightarrow> 'k keyring \<Rightarrow> 'k keyring res" where
  "addKey ke name source key kr = (case ke_accepts ke key of
      Some err \<Rightarrow> Inl err
    | None \<Rightarrow> Inr (put_key (ke_public ke) \<lparr>ak_Key = key, ak_Comment = name @ '':'' @ source\<rparr> kr))"

definition skipKeyFileName :: "string \<Rightarrow> bool" where
  "skipKeyFileName name \<longleftrightarrow> has_suffix name ''.pub'' \<or> name = ''config'' \<or> has_prefix name ''known_hosts''
     \<or> has_prefix name ''authorized_keys''"

section \<open>A directory\<close>

datatype scan_note = Note_encrypted string | Note_refused string

record 'k scan =
  scn_keys :: "'k keyring"
  scn_notes :: "scan_note list"
  scn_count :: nat

definition loadFile :: "'k key_env \<Rightarrow> agent_identity \<Rightarrow> string \<Rightarrow> 'k scan \<Rightarrow> 'k scan" where
  "loadFile ke i path sc =
     (if skipKeyFileName (path_base path) then sc
      else (case ke_stat ke path of
          Inl _ \<Rightarrow> sc
        | Inr info \<Rightarrow>
          if \<not> fi_Regular info \<or> maxKeyFileSize < fi_Size info then sc
          else (case ke_read ke path of
              Inl _ \<Rightarrow> sc
            | Inr raw \<Rightarrow> (case parsePrivateKey ke raw (ai_Passphrase i) of
                Inl err \<Rightarrow> if isEncryptedKeyError err then sc\<lparr>scn_notes := scn_notes sc @ [Note_encrypted path]\<rparr> else sc
              | Inr key \<Rightarrow> (case addKey ke (ai_Name i) path key (scn_keys sc) of
                  Inl _ \<Rightarrow> sc\<lparr>scn_notes := scn_notes sc @ [Note_refused path]\<rparr>
                | Inr kr \<Rightarrow> sc\<lparr>scn_keys := kr, scn_count := Suc (scn_count sc)\<rparr>)))))"

fun walk_files :: "'k key_env \<Rightarrow> agent_identity \<Rightarrow> walk_step list \<Rightarrow> 'k scan \<Rightarrow> goerr option \<times> 'k scan" where
  "walk_files ke i [] sc = (None, sc)"
| "walk_files ke i (Walk_error err # steps) sc = (Some err, sc)"
| "walk_files ke i (Visit path dir # steps) sc = walk_files ke i steps (if dir then sc else loadFile ke i path sc)"

definition scan_error :: "agent_identity \<Rightarrow> goerr \<Rightarrow> goerr" where
  "scan_error i err = wrapf (''ssh identity '' @ quoted (ai_Name i) @ '': scan '' @ ai_Path i) err"

definition addDir :: "'k key_env \<Rightarrow> agent_identity \<Rightarrow> string \<Rightarrow> 'k keyring \<Rightarrow> nat res \<times> 'k scan" where
  "addDir ke i dir kr = (let sc0 = \<lparr>scn_keys = kr, scn_notes = [], scn_count = 0\<rparr> in
     if ai_Recursive i then (case walk_files ke i (ke_walk ke dir) sc0 of
         (Some err, sc) \<Rightarrow> (Inl (scan_error i err), sc)
       | (None, sc) \<Rightarrow> (Inr (scn_count sc), sc))
     else (case ke_list ke dir of
         Inl err \<Rightarrow> (Inl (scan_error i err), sc0)
       | Inr entries \<Rightarrow> (let sc = fold (\<lambda>(name, sub) sc. if sub then sc else loadFile ke i (path_join [dir, name]) sc) entries sc0
           in (Inr (scn_count sc), sc))))"

section \<open>The builtin agent\<close>

definition named :: "agent_identity \<Rightarrow> goerr \<Rightarrow> goerr" where
  "named i err = wrapf (''ssh identity '' @ quoted (ai_Name i)) err"

definition addIdentity :: "'k key_env \<Rightarrow> 'k keyring \<Rightarrow> agent_identity \<Rightarrow> nat res \<times> 'k keyring" where
  "addIdentity ke kr i =
     (if ai_Content i \<noteq> [] then
        (case parsePrivateKey ke (ai_Content i) (ai_Passphrase i) of
           Inl err \<Rightarrow> (Inl (named i (key_cause err)), kr)
         | Inr key \<Rightarrow> (case addKey ke (ai_Name i) ''inline'' key kr of
             Inl err \<Rightarrow> (Inl (named i err), kr)
           | Inr kr' \<Rightarrow> (Inr 1, kr')))
      else (let path = expandHome (ke_home ke) (ai_Path i) in
        case ke_stat ke path of
          Inl err \<Rightarrow> (Inl (named i err), kr)
        | Inr info \<Rightarrow>
          if fi_Dir info then (case addDir ke i path kr of (r, sc) \<Rightarrow> (r, scn_keys sc))
          else (case loadKeyFile ke ''key'' path (ai_Passphrase i) of
              Inl err \<Rightarrow> (Inl (named i (key_cause err)), kr)
            | Inr key \<Rightarrow> (case addKey ke (ai_Name i) path key kr of
                Inl err \<Rightarrow> (Inl (wrapf (''ssh identity '' @ quoted (ai_Name i) @ '': '' @ ai_Path i) err), kr)
              | Inr kr' \<Rightarrow> (Inr 1, kr')))))"

fun add_identities :: "'k key_env \<Rightarrow> agent_identity list \<Rightarrow> 'k keyring \<Rightarrow> nat \<Rightarrow> (nat \<times> 'k keyring) res" where
  "add_identities ke [] kr n = Inr (n, kr)"
| "add_identities ke (i # ids) kr n = (case addIdentity ke kr i of
      (Inl err, kr') \<Rightarrow> Inl err
    | (Inr m, kr') \<Rightarrow> add_identities ke ids kr' (n + m))"

definition NewAgent :: "'k key_env \<Rightarrow> agent_identity list \<Rightarrow> 'k keyring res" where
  "NewAgent ke ids = (case add_identities ke ids [] 0 of
      Inl err \<Rightarrow> Inl err
    | Inr (found, kr) \<Rightarrow> if found = 0 then Inl (Text ''ssh identities: no usable private keys found'') else Inr kr)"

section \<open>Authentication\<close>

datatype 'k auth_method = PublicKey 'k | Keyring "'k keyring" | SystemAgent string

definition loadIdentity :: "'k key_env \<Rightarrow> string \<Rightarrow> string \<Rightarrow> 'k res" where
  "loadIdentity ke path passphrase = (case loadKeyFile ke ''identity'' path passphrase of
      Inl err \<Rightarrow> Inl (key_cause err)
    | Inr key \<Rightarrow> (case ke_signer ke key of Some err \<Rightarrow> Inl (wrapf (''parse identity '' @ path) err) | None \<Rightarrow> Inr key))"

text \<open>The methods of a dial, and whether a connection to the operator's agent was opened for them.\<close>

definition authMethods :: "'k key_env \<Rightarrow> string \<Rightarrow> string \<Rightarrow> 'k keyring option \<Rightarrow> 'k auth_method list res \<times> bool" where
  "authMethods ke identityFile passphrase ag =
     (case (if identityFile = [] then Inr [] else map_sum id (\<lambda>k. [PublicKey k]) (loadIdentity ke identityFile passphrase)) of
        Inl err \<Rightarrow> (Inl err, False)
      | Inr own \<Rightarrow> (case ag of
          Some kr \<Rightarrow> (Inr (own @ [Keyring kr]), False)
        | None \<Rightarrow>
          if ke_sock ke \<noteq> [] \<and> ke_agent ke (ke_sock ke) = None then (Inr (own @ [SystemAgent (ke_sock ke)]), True)
          else if own \<noteq> [] then (Inr own, False)
          else (Inl (case (if ke_sock ke = [] then None else ke_agent ke (ke_sock ke)) of
              Some err \<Rightarrow> Wrap ''no SSH auth available: ssh-agent (SSH_AUTH_SOCK) unreachable: '' err
                '' (set ssh.identity_file / ssh.identities or restart the agent)''
            | None \<Rightarrow> Text ''no SSH auth available: set ssh.identity_file / ssh.identities or start an ssh-agent (SSH_AUTH_SOCK)''),
            False)))"

section \<open>Agent forwarding\<close>

datatype 'k forwarding = ForwardToAgent "'k keyring" | ForwardToRemote string

definition keyringFromFile :: "'k key_env \<Rightarrow> string \<Rightarrow> 'k keyring res" where
  "keyringFromFile ke path = (case loadKeyFile ke ''forward_key'' path [] of
      Inl err \<Rightarrow> Inl (if isEncryptedKeyError err then Wrap [] (key_cause err) '' (encrypted keys must use forward_agent)'' else key_cause err)
    | Inr key \<Rightarrow> (case addKey ke ''forward_key'' path key [] of
        Inl err \<Rightarrow> Inl (wrapf (''load forward_key '' @ path) err)
      | Inr kr \<Rightarrow> Inr kr))"

definition localAgentSocket :: "'k key_env \<Rightarrow> string res" where
  "localAgentSocket ke = (if ke_sock ke = []
     then Inl (Text ''forward_agent set but no ssh-agent available (SSH_AUTH_SOCK is unset)'') else Inr (ke_sock ke))"

text \<open>What is forwarded; opening the forwarded channel on the connection is left to the caller.\<close>

definition forwarding_of :: "'k key_env \<Rightarrow> string \<Rightarrow> 'k keyring option \<Rightarrow> 'k forwarding res" where
  "forwarding_of ke key ag =
     (if key \<noteq> [] then map_sum id ForwardToAgent (keyringFromFile ke key)
      else (case ag of Some kr \<Rightarrow> Inr (ForwardToAgent kr)
        | None \<Rightarrow> map_sum id ForwardToRemote (localAgentSocket ke)))"

section \<open>What a scan adds\<close>

text \<open>The key a file contributes, if any, and the keyring entries of a list of files.\<close>

definition usable :: "'k key_env \<Rightarrow> agent_identity \<Rightarrow> string \<Rightarrow> 'k option" where
  "usable ke i path = (if skipKeyFileName (path_base path) then None
     else (case (ke_stat ke path, ke_read ke path) of
         (Inr info, Inr raw) \<Rightarrow>
           if fi_Regular info \<and> fi_Size info \<le> maxKeyFileSize then
             (case parsePrivateKey ke raw (ai_Passphrase i) of
                Inr key \<Rightarrow> if ke_accepts ke key = None then Some key else None
              | Inl _ \<Rightarrow> None)
           else None
       | _ \<Rightarrow> None))"

definition entries_of :: "'k key_env \<Rightarrow> agent_identity \<Rightarrow> string list \<Rightarrow> 'k keyring" where
  "entries_of ke i files = List.map_filter (\<lambda>path. map_option (\<lambda>key. \<lparr>ak_Key = key, ak_Comment = ai_Name i @ '':'' @ path\<rparr>)
     (usable ke i path)) files"

lemma entries_simps [simp]: "entries_of ke i [] = []"
  "entries_of ke i (path # files) = (case usable ke i path of None \<Rightarrow> []
     | Some key \<Rightarrow> [\<lparr>ak_Key = key, ak_Comment = ai_Name i @ '':'' @ path\<rparr>]) @ entries_of ke i files"
  by (simp_all add: entries_of_def List.map_filter_simps split: option.split)

text \<open>What a scan has put into the keyring it started with, and that it has counted every key of it.\<close>

definition gathered :: "('k \<Rightarrow> string) \<Rightarrow> 'k keyring \<Rightarrow> 'k keyring \<Rightarrow> 'k scan \<Rightarrow> bool" where
  "gathered pub kr added sc \<longleftrightarrow> scn_keys sc = fold (put_key pub) added kr \<and> scn_count sc = length added"

lemma loadFile_gathers: "gathered (ke_public ke) kr added sc \<Longrightarrow> gathered (ke_public ke) kr (added @ entries_of ke i [path]) (loadFile ke i path sc)"
  by (auto simp: gathered_def loadFile_def usable_def addKey_def split: sum.splits option.splits if_splits)

fun visited :: "walk_step list \<Rightarrow> string list res" where
  "visited [] = Inr []"
| "visited (Walk_error err # steps) = Inl err"
| "visited (Visit path dir # steps) = (case visited steps of Inl err \<Rightarrow> Inl err
     | Inr files \<Rightarrow> Inr (if dir then files else path # files))"

definition dir_files :: "'k key_env \<Rightarrow> agent_identity \<Rightarrow> string \<Rightarrow> string list res" where
  "dir_files ke i dir = (if ai_Recursive i then visited (ke_walk ke dir)
     else (case ke_list ke dir of Inl err \<Rightarrow> Inl err
       | Inr es \<Rightarrow> Inr (map (\<lambda>(name, sub). path_join [dir, name]) (filter (\<lambda>(name, sub). \<not> sub) es))))"

lemma walk_gathers:
  "gathered (ke_public ke) kr added sc \<Longrightarrow> (case visited steps of
      Inl err \<Rightarrow> fst (walk_files ke i steps sc) = Some err
    | Inr files \<Rightarrow> fst (walk_files ke i steps sc) = None \<and> gathered (ke_public ke) kr (added @ entries_of ke i files) (snd (walk_files ke i steps sc)))"
proof (induction ke i steps sc arbitrary: added rule: walk_files.induct)
  case (3 ke i path dir steps sc)
  show ?case
  proof (cases dir)
    case True
    then show ?thesis using "3.IH"[of added] "3.prems" by (auto split: sum.split)
  next
    case False
    then have "gathered (ke_public ke) kr (added @ entries_of ke i [path]) (if dir then sc else loadFile ke i path sc)"
      using loadFile_gathers[OF "3.prems"] by simp
    from "3.IH"[OF this] show ?thesis using False by (auto split: sum.split)
  qed
qed auto

lemma list_gathers: "gathered (ke_public ke) kr added sc \<Longrightarrow> gathered (ke_public ke) kr
    (added @ entries_of ke i (map (\<lambda>(name, sub). path_join [dir, name]) (filter (\<lambda>(name, sub). \<not> sub) es)))
    (fold (\<lambda>(name, sub) sc. if sub then sc else loadFile ke i (path_join [dir, name]) sc) es sc)"
proof (induction es arbitrary: added sc)
  case (Cons e es)
  obtain name sub where e: "e = (name, sub)" by fastforce
  show ?case
  proof (cases sub)
    case True
    then show ?thesis using Cons e by simp
  next
    case False
    have "gathered (ke_public ke) kr (added @ entries_of ke i [path_join [dir, name]]) (loadFile ke i (path_join [dir, name]) sc)"
      by (rule loadFile_gathers[OF Cons.prems])
    from Cons.IH[OF this] show ?thesis using False e by simp
  qed
qed simp

lemma addDir_gathers: "case dir_files ke i dir of
    Inl err \<Rightarrow> fst (addDir ke i dir kr) = Inl (scan_error i err)
  | Inr files \<Rightarrow> fst (addDir ke i dir kr) = Inr (length (entries_of ke i files))
      \<and> scn_keys (snd (addDir ke i dir kr)) = fold (put_key (ke_public ke)) (entries_of ke i files) kr"
proof -
  let ?sc0 = "\<lparr>scn_keys = kr, scn_notes = [], scn_count = 0\<rparr>"
  have g: "gathered (ke_public ke) kr [] ?sc0" by (simp add: gathered_def)
  show ?thesis
  proof (cases "ai_Recursive i")
    case True
    then show ?thesis using walk_gathers[OF g, where steps = "ke_walk ke dir" and i = i]
      by (auto simp: dir_files_def addDir_def gathered_def Let_def split: sum.splits prod.splits option.splits)
  next
    case False
    then show ?thesis using list_gathers[OF g, where i = i and dir = dir]
      by (auto simp: dir_files_def addDir_def gathered_def Let_def split: sum.splits)
  qed
qed

section \<open>What the builtin agent holds\<close>

text \<open>The keys one identity contributes, in order, whatever the keyring holds already.\<close>

definition one_key :: "'k key_env \<Rightarrow> (goerr \<Rightarrow> goerr) \<Rightarrow> agent_identity \<Rightarrow> string \<Rightarrow> 'k \<Rightarrow> 'k keyring res" where
  "one_key ke refused i src key = (case ke_accepts ke key of
      Some err \<Rightarrow> Inl (refused err)
    | None \<Rightarrow> Inr [\<lparr>ak_Key = key, ak_Comment = ai_Name i @ '':'' @ src\<rparr>])"

definition identity_keys :: "'k key_env \<Rightarrow> agent_identity \<Rightarrow> 'k keyring res" where
  "identity_keys ke i =
     (if ai_Content i \<noteq> [] then (case parsePrivateKey ke (ai_Content i) (ai_Passphrase i) of
         Inl err \<Rightarrow> Inl (named i (key_cause err))
       | Inr key \<Rightarrow> one_key ke (named i) i ''inline'' key)
      else (let path = expandHome (ke_home ke) (ai_Path i) in case ke_stat ke path of
          Inl err \<Rightarrow> Inl (named i err)
        | Inr info \<Rightarrow>
          if fi_Dir info then map_sum (scan_error i) (entries_of ke i) (dir_files ke i path)
          else (case loadKeyFile ke ''key'' path (ai_Passphrase i) of
              Inl err \<Rightarrow> Inl (named i (key_cause err))
            | Inr key \<Rightarrow> one_key ke (wrapf (''ssh identity '' @ quoted (ai_Name i) @ '': '' @ ai_Path i)) i path key)))"

lemma addIdentity_keys: "case identity_keys ke i of
    Inl err \<Rightarrow> fst (addIdentity ke kr i) = Inl err
  | Inr added \<Rightarrow> addIdentity ke kr i = (Inr (length added), fold (put_key (ke_public ke)) added kr)"
proof (cases "ai_Content i = [] \<and> (\<exists>info. ke_stat ke (expandHome (ke_home ke) (ai_Path i)) = Inr info \<and> fi_Dir info)")
  case True
  let ?path = "expandHome (ke_home ke) (ai_Path i)"
  show ?thesis using True addDir_gathers[of ke i ?path kr]
    by (cases "dir_files ke i ?path") (auto simp: identity_keys_def addIdentity_def Let_def split: prod.splits)
next
  case False
  then show ?thesis
    by (auto simp: identity_keys_def addIdentity_def addKey_def one_key_def Let_def split: sum.splits option.splits)
qed

lemma add_identities_keys: "add_identities ke ids kr n = (case res_map (identity_keys ke) ids of
    Inl err \<Rightarrow> Inl err | Inr krs \<Rightarrow> Inr (n + length (concat krs), fold (put_key (ke_public ke)) (concat krs) kr))"
proof (induction ids arbitrary: kr n)
  case (Cons i ids)
  show ?case
  proof (cases "identity_keys ke i")
    case (Inl err)
    then show ?thesis using addIdentity_keys[of ke kr i] by (auto split: prod.split sum.splits)
  next
    case (Inr added)
    then show ?thesis using addIdentity_keys[of ke kr i] by (auto simp: Cons.IH split: sum.split)
  qed
qed simp

text \<open>
  The keys of a list, one for each public key: the public keys in the order in which they first occur, and for each of them
  the entry that came last.
\<close>

definition public_of :: "('k \<Rightarrow> string) \<Rightarrow> 'k added_key \<Rightarrow> string" where
  "public_of pub e = pub (ak_Key e)"

definition latest :: "('k \<Rightarrow> string) \<Rightarrow> 'k keyring \<Rightarrow> string \<Rightarrow> 'k added_key" where
  "latest pub es p = last (filter (\<lambda>e. public_of pub e = p) es)"

definition one_each :: "('k \<Rightarrow> string) \<Rightarrow> 'k keyring \<Rightarrow> 'k keyring" where
  "one_each pub es = map (latest pub es) (rev (remdups (rev (map (public_of pub) es))))"

lemma put_key_map:
  assumes "\<And>p. p \<in> set ps \<Longrightarrow> public_of pub (f p) = p" and "distinct ps"
  shows "put_key pub e (map f ps) = (if public_of pub e \<in> set ps then map (f(public_of pub e := e)) ps else map f ps @ [e])"
  using assms by (induction ps) (auto simp: public_of_def)

lemma latest_in:
  assumes "p \<in> public_of pub ` set es"
  shows "public_of pub (latest pub es p) = p" "latest pub es p \<in> set es"
proof -
  have "filter (\<lambda>e. public_of pub e = p) es \<noteq> []" using assms by (auto simp: filter_empty_conv)
  then have "latest pub es p \<in> set (filter (\<lambda>e. public_of pub e = p) es)" unfolding latest_def by (rule last_in_set)
  then show "public_of pub (latest pub es p) = p" "latest pub es p \<in> set es" by auto
qed

lemma latest_snoc: "latest pub (es @ [e]) = (latest pub es)(public_of pub e := e)"
  by (rule ext) (simp add: latest_def)

lemma fold_put_key: "fold (put_key pub) es [] = one_each pub es"
proof (induction es rule: rev_induct)
  case (snoc e es)
  let ?ps = "rev (remdups (rev (map (public_of pub) es)))"
  have p: "\<And>p. p \<in> set ?ps \<Longrightarrow> public_of pub (latest pub es p) = p" using latest_in(1)[where es = es] by simp
  have "fold (put_key pub) (es @ [e]) [] = put_key pub e (map (latest pub es) ?ps)" using snoc by (simp add: one_each_def)
  also have "\<dots> = (if public_of pub e \<in> set ?ps then map (latest pub (es @ [e])) ?ps else map (latest pub es) ?ps @ [e])"
    unfolding latest_snoc by (rule put_key_map) (use p in auto)
  also have "\<dots> = one_each pub (es @ [e])" by (auto simp: one_each_def latest_snoc)
  finally show ?case .
qed (simp add: one_each_def)

text \<open>
  C39. The builtin agent holds the keys of its identities, one identity after the other: inline content and a key file
  give their one key or stop everything with an error that names the identity; a directory gives every usable key file in
  it, in the order of the listing, and its other files, encrypted or not keys at all, never an error. Of keys with the
  same public key the agent holds one, at the place of the first, with the comment of the last; no two of its keys share a
  public key and no public key is lost. An agent that would be empty is refused.
\<close>

theorem NewAgent_keys:
  "NewAgent ke ids = (case res_map (identity_keys ke) ids of
      Inl err \<Rightarrow> Inl err
    | Inr krs \<Rightarrow> if concat krs = [] then Inl (Text ''ssh identities: no usable private keys found'')
        else Inr (one_each (ke_public ke) (concat krs)))
   \<and> distinct (map (public_of pub) (one_each pub es)) \<and> public_of pub ` set (one_each pub es) = public_of pub ` set es
   \<and> set (one_each pub es) \<subseteq> set es"
proof -
  let ?ps = "rev (remdups (rev (map (public_of pub) es)))"
  have "map (public_of pub) (one_each pub es) = map (\<lambda>p. p) ?ps"
    unfolding one_each_def map_map by (rule map_cong[OF refl]) (simp add: latest_in)
  then have ps: "map (public_of pub) (one_each pub es) = ?ps" by simp
  then have "public_of pub ` set (one_each pub es) = set ?ps" by (metis set_map)
  moreover have "set (one_each pub es) \<subseteq> set es" by (auto simp: one_each_def latest_in)
  moreover have "concat krs \<noteq> [] \<longleftrightarrow> length (concat krs) \<noteq> 0" for krs :: "'a keyring list" by simp
  ultimately show ?thesis
    by (auto simp: ps NewAgent_def add_identities_keys fold_put_key split: sum.split)
qed

text \<open>
  With a builtin agent the operator's own agent is neither asked for keys nor opened; without one it is opened exactly when
  its keys are offered, after the identity file. A dial never goes on without a method.
\<close>

theorem authMethods_sources:
  assumes "authMethods ke file passphrase ag = (r, opened)"
  shows "(ag \<noteq> None \<longrightarrow> \<not> opened) \<and> (opened \<longleftrightarrow> (\<exists>ms. r = Inr ms \<and> SystemAgent (ke_sock ke) \<in> set ms))
    \<and> (\<forall>ms. r = Inr ms \<longrightarrow> ms \<noteq> [] \<and> (file \<noteq> [] \<longrightarrow> (\<exists>key. hd ms = PublicKey key \<and> loadIdentity ke file passphrase = Inr key))
        \<and> (\<forall>kr. ag = Some kr \<longrightarrow> last ms = Keyring kr \<and> (\<forall>sock. SystemAgent sock \<notin> set ms)))"
proof (cases "file = []")
  case True
  then show ?thesis using assms by (auto simp: authMethods_def split: option.splits if_splits)
next
  case False
  then show ?thesis using assms
    by (cases "loadIdentity ke file passphrase") (auto simp: authMethods_def split: option.splits if_splits)
qed

section \<open>Concrete keys\<close>

text \<open>A text that starts with \<open>K\<close> is a key, one that starts with \<open>E\<close> an encrypted one.\<close>

definition demo_parse :: "string \<Rightarrow> nat parsed" where
  "demo_parse raw = (if has_prefix raw ''K'' then Parsed (length raw)
     else if has_prefix raw ''E'' then Passphrase_missing (Text ''encrypted'') else Unparsable (Text ''no key''))"

definition demo_key_files :: "(string \<times> string) list" where
  "demo_key_files = [(''/k/a'', ''K1''), (''/k/a.pub'', ''K''), (''/k/b'', ''E''), (''/k/c'', ''text''), (''/k/d'', ''K123'')]"

definition demo_key_env :: "nat key_env" where
  "demo_key_env = \<lparr>ke_home = None,
     ke_read = (\<lambda>p. case map_of demo_key_files p of None \<Rightarrow> Inl (Text ''no such file'') | Some c \<Rightarrow> Inr c),
     ke_stat = (\<lambda>p. if p = ''/k'' then Inr \<lparr>fi_Dir = True, fi_Regular = False, fi_Size = 0\<rparr>
       else Inr \<lparr>fi_Dir = False, fi_Regular = True, fi_Size = 0\<rparr>),
     ke_list = (\<lambda>p. Inr [(''a'', False), (''a.pub'', False), (''b'', False), (''c'', False), (''d'', False), (''e'', True)]),
     ke_walk = (\<lambda>p. []), ke_parse = demo_parse, ke_decrypt = (\<lambda>s p. Inl (Text ''wrong'')), ke_public = (\<lambda>k. if k = 2 then ''p'' else ''q''),
     ke_accepts = (\<lambda>k. None),
     ke_signer = (\<lambda>k. None), ke_sock = ''agent.sock'', ke_agent = (\<lambda>s. None)\<rparr>"

definition demo_identity :: agent_identity where
  "demo_identity = \<lparr>ai_Name = ''keys'', ai_Path = ''/k'', ai_Content = [], ai_Passphrase = [], ai_Recursive = False\<rparr>"

text \<open>A second identity, with the key of \<open>/k/a\<close> under another name.\<close>

definition other_identity :: agent_identity where
  "other_identity = \<lparr>ai_Name = ''mine'', ai_Path = [], ai_Content = ''K2'', ai_Passphrase = [], ai_Recursive = False\<rparr>"

lemma NewAgent_keys_witness:
  "NewAgent demo_key_env [demo_identity, other_identity]
     = Inr [\<lparr>ak_Key = 2, ak_Comment = ''mine:inline''\<rparr>, \<lparr>ak_Key = 4, ak_Comment = ''keys:/k/d''\<rparr>]"
proof -
  have "res_map (identity_keys demo_key_env) [demo_identity, other_identity]
     = Inr [[\<lparr>ak_Key = 2, ak_Comment = ''keys:/k/a''\<rparr>, \<lparr>ak_Key = 4, ak_Comment = ''keys:/k/d''\<rparr>],
            [\<lparr>ak_Key = 2, ak_Comment = ''mine:inline''\<rparr>]]" by code_simp
  moreover have "one_each (ke_public demo_key_env)
      [\<lparr>ak_Key = 2, ak_Comment = ''keys:/k/a''\<rparr>, \<lparr>ak_Key = 4, ak_Comment = ''keys:/k/d''\<rparr>, \<lparr>ak_Key = 2, ak_Comment = ''mine:inline''\<rparr>]
     = [\<lparr>ak_Key = 2, ak_Comment = ''mine:inline''\<rparr>, \<lparr>ak_Key = 4, ak_Comment = ''keys:/k/d''\<rparr>]" by code_simp
  ultimately show ?thesis by (simp add: NewAgent_keys[THEN conjunct1])
qed

end
