(* ===== verification/Cli.thy ===== *)
theory Cli
  imports Cli_Load Deploy_Safety Ssh_Keys
begin

text \<open>
  The commands of a stage (\<open>internal/cli\<close>: \<open>targets.go\<close>, \<open>deploy.go\<close>, \<open>rollback.go\<close>, \<open>task.go\<close>, \<open>run.go\<close>,
  \<open>validate.go\<close>, \<open>config.go\<close>, \<open>stages.go\<close>): how each one puts the loaded configuration, the executor and the
  deployer together, and what it returns to \<open>Execute\<close>.

  The record \<open>front\<close> adds to the loading parameters the operator's keys for the in-memory SSH agent, whether the
  output is a terminal, the marshaller of the config command, and the executor's outside. A command returns
  its error, what it printed while loading, the executor it used, if it came that far, and the world. \<open>None\<close> is
  a load that ran out of fuel.
\<close>

record global_flags =
  gf_deployfile :: string
  gf_verbose :: bool
  gf_dryRun :: bool
  gf_roles :: "string list"
  gf_limit :: "string list"
  gf_conc :: int

record ('t, 'v, 'w) front =
  fr_cli :: "('t, 'v, 'w) cli"
  fr_key_env :: "nat key_env"
  fr_terminal :: bool
  fr_marshal :: "deploy_file \<Rightarrow> goerr + string"
  fr_ext :: "('t, 'w) ext"

text \<open>The error of \<open>ssh.NewAgent\<close>; the keys of the in-memory agent are numbered.\<close>

definition fr_NewAgent :: "('t, 'v, 'w) front \<Rightarrow> agent_identity list \<Rightarrow> goerr option" where
  "fr_NewAgent fr ids = (case NewAgent (fr_key_env fr) ids of Inl err \<Rightarrow> Some err | Inr _ \<Rightarrow> None)"

section \<open>Targets and connection options\<close>

definition selectHosts :: "deploy_file \<Rightarrow> string list \<Rightarrow> string list \<Rightarrow> host list" where
  "selectHosts cfg roles limit = FilterByAddresses (FilterByRoles (FilterDeployable (cfg_Hosts cfg)) roles) limit"

text \<open>The agent is the list of identities it was built from.\<close>

record ssh_options =
  so_StrictHostKey :: bool
  so_KnownHostsFile :: string
  so_AcceptNew :: bool
  so_ForwardAgent :: bool
  so_ForwardKey :: string
  so_Agent :: "agent_identity list option"
  so_Bastion :: "target option"

definition agent_identities :: "ssh_cfg \<Rightarrow> agent_identity list" where
  "agent_identities s = (if ssh_IdentityFile s \<noteq> []
       then [\<lparr>ai_Name = ''identity_file'', ai_Path = ssh_IdentityFile s, ai_Content = [],
         ai_Passphrase = ssh_IdentityFilePassphrase s, ai_Recursive = False\<rparr>] else [])
     @ map (\<lambda>(name, i). \<lparr>ai_Name = name, ai_Path = id_Path i, ai_Content = id_Content i,
         ai_Passphrase = id_Passphrase i, ai_Recursive = id_Recursive i\<rparr>) (sort_key fst (ssh_Identities s))"

definition builtinAgent :: "(agent_identity list \<Rightarrow> goerr option) \<Rightarrow> deploy_file \<Rightarrow> agent_identity list option res" where
  "builtinAgent mk cfg = (let s = cfg_SSH cfg in
     if ssh_IdentityFile s = [] \<and> ssh_Identities s = [] then Inr None
     else (case mk (agent_identities s) of
         Some err \<Rightarrow> Inl (ConfigError (error_msg err) None) | None \<Rightarrow> Inr (Some (agent_identities s))))"

definition is_true :: "bool option \<Rightarrow> bool" where "is_true b \<longleftrightarrow> b = Some True"
definition not_false :: "bool option \<Rightarrow> bool" where "not_false b \<longleftrightarrow> b \<noteq> Some False"

definition sshOptions :: "(agent_identity list \<Rightarrow> goerr option) \<Rightarrow> deploy_file \<Rightarrow> ssh_options res" where
  "sshOptions mk cfg = (let s = cfg_SSH cfg in case builtinAgent mk cfg of
      Inl err \<Rightarrow> Inl err
    | Inr ag \<Rightarrow> Inr \<lparr>so_StrictHostKey = not_false (ssh_StrictHostKey s), so_KnownHostsFile = ssh_KnownHostsFile s,
        so_AcceptNew = not_false (ssh_AcceptNew s), so_ForwardAgent = is_true (ssh_ForwardAgent s),
        so_ForwardKey = ssh_ForwardKey s, so_Agent = ag,
        so_Bastion = map_option (\<lambda>b. \<lparr>t_Host = bas_Address b, t_Port = bas_Port b, t_User = bas_User b,
          t_IdentityFile = bas_IdentityFile b, t_Passphrase = bas_IdentityFilePassphrase b, t_Local = False,
          t_StrictHostKey = None\<rparr>) (ssh_Bastion s)\<rparr>)"

section \<open>The executor and the deployer of a command\<close>

definition exec_options_of :: "('t, 'v, 'w) front \<Rightarrow> global_flags \<Rightarrow> deploy_file \<Rightarrow> ssh_options \<Rightarrow> exec_options" where
  "exec_options_of fr gf cfg so = \<lparr>o_Strict = so_StrictHostKey so, o_DryRun = gf_dryRun gf,
     o_Verbose = effectiveVerbose (cl_flags (fr_cli fr)) (gf_verbose gf) (cfg_Log cfg), o_Roles = gf_roles gf,
     o_Limit = gf_limit gf, o_Concurrency = gf_conc gf,
     o_Color = colorOutput (fr_terminal fr) (cl_flags (fr_cli fr)) (cfg_Log cfg)\<rparr>"

definition newExecutor :: "('t, 'v, 'w) front \<Rightarrow> global_flags \<Rightarrow> deploy_file \<Rightarrow> registry \<Rightarrow> 'w \<Rightarrow> 'w exec res" where
  "newExecutor fr gf cfg reg w = (case sshOptions (fr_NewAgent fr) cfg of
      Inl err \<Rightarrow> Inl err
    | Inr so \<Rightarrow> Inr (New_executor cfg (exec_options_of fr gf cfg so) (cl_deployer (fr_cli fr)) (cl_AsMap (fr_cli fr) cfg)
        (ScriptsLocation (cl_fs (fr_cli fr)) cfg) reg w))"

text \<open>The outside of the executor with the plugins of this run; masking follows the log level.\<close>

definition run_ext :: "('t, 'v, 'w) front \<Rightarrow> deploy_file \<Rightarrow> 'w plugin_registry \<Rightarrow> ('t, 'w) ext" where
  "run_ext fr cfg preg = (fr_ext fr)\<lparr>x_engine := cl_engine (fr_cli fr), x_rules := cl_rules (fr_cli fr),
     x_disabled := \<not> applyMasking (ls_level (log_settings_of (cl_flags (fr_cli fr)) (cfg_Log cfg))),
     x_reg := Some preg\<rparr>"

record 'w outcome =
  oc_err :: "goerr option"
  oc_report :: string
  oc_exec :: "'w exec option"
  oc_world :: 'w

text \<open>
  The common head of the commands: load the configuration and hand it on, with the plugin registry and
  the secrets registered so far.
\<close>

definition with_config :: "('t, 'v, 'w) front \<Rightarrow> global_flags \<Rightarrow> string \<Rightarrow> registry \<Rightarrow> 'w
    \<Rightarrow> (deploy_file \<Rightarrow> 'w plugin_registry \<Rightarrow> registry \<Rightarrow> 'w \<Rightarrow> goerr option \<times> 'w exec option \<times> 'w) \<Rightarrow> 'w outcome option" where
  "with_config fr gf stage reg w body = (case loadConfig (fr_cli fr) (gf_deployfile gf) stage reg w of
      None \<Rightarrow> None
    | Some (Inl err, reg', out, w') \<Rightarrow> Some \<lparr>oc_err = Some err, oc_report = out, oc_exec = None, oc_world = w'\<rparr>
    | Some (Inr (cfg, preg), reg', out, w') \<Rightarrow> (case body cfg preg reg' w' of
          (err, ex, w'') \<Rightarrow> Some \<lparr>oc_err = err, oc_report = out, oc_exec = ex, oc_world = w''\<rparr>))"

definition with_exec :: "('t, 'v, 'w) front \<Rightarrow> global_flags \<Rightarrow> string \<Rightarrow> registry \<Rightarrow> 'w
    \<Rightarrow> (deploy_file \<Rightarrow> ('t, 'w) ext \<Rightarrow> 'w exec \<Rightarrow> goerr option \<times> 'w exec) \<Rightarrow> 'w outcome option" where
  "with_exec fr gf stage reg w run = with_config fr gf stage reg w (\<lambda>cfg preg reg' w'.
     case newExecutor fr gf cfg reg' w' of
       Inl err \<Rightarrow> (Some err, None, w')
     | Inr ex \<Rightarrow> (case run cfg (run_ext fr cfg preg) ex of (err, ex') \<Rightarrow> (err, Some ex', e_world ex')))"

text \<open>\<open>newDeployer\<close>.\<close>

definition with_deployer :: "('t, 'v, 'w) front \<Rightarrow> global_flags \<Rightarrow> string \<Rightarrow> registry \<Rightarrow> 'w
    \<Rightarrow> (('t, 'w) ext \<Rightarrow> deployer \<Rightarrow> 'w exec \<Rightarrow> goerr option \<times> 'w exec) \<Rightarrow> 'w outcome option" where
  "with_deployer fr gf stage reg w run = with_exec fr gf stage reg w (\<lambda>cfg x ex.
     case New_deployer cfg of Inl err \<Rightarrow> (Some err, ex) | Inr d \<Rightarrow> run x d ex)"

definition deploy_cmd :: "('t, 'v, 'w) front \<Rightarrow> global_flags \<Rightarrow> string \<Rightarrow> string \<Rightarrow> string \<Rightarrow> registry \<Rightarrow> 'w \<Rightarrow> 'w outcome option" where
  "deploy_cmd fr gf stage ts revTime reg w = with_deployer fr gf stage reg w
     (\<lambda>x d ex. Deploy x d ts revTime (cl_deployer (fr_cli fr)) ex)"

definition deploy_check_cmd :: "('t, 'v, 'w) front \<Rightarrow> global_flags \<Rightarrow> string \<Rightarrow> registry \<Rightarrow> 'w \<Rightarrow> 'w outcome option" where
  "deploy_check_cmd fr gf stage reg w = with_deployer fr gf stage reg w Check_deploy"

definition rollback_cmd :: "('t, 'v, 'w) front \<Rightarrow> global_flags \<Rightarrow> bool \<Rightarrow> string \<Rightarrow> registry \<Rightarrow> 'w \<Rightarrow> 'w outcome option" where
  "rollback_cmd fr gf cleanup stage reg w = with_deployer fr gf stage reg w (\<lambda>x d. Rollback x d cleanup)"

definition releases_cmd :: "('t, 'v, 'w) front \<Rightarrow> global_flags \<Rightarrow> string \<Rightarrow> registry \<Rightarrow> 'w \<Rightarrow> 'w outcome option" where
  "releases_cmd fr gf stage reg w = with_deployer fr gf stage reg w Releases"

definition unlock_cmd :: "('t, 'v, 'w) front \<Rightarrow> global_flags \<Rightarrow> string \<Rightarrow> registry \<Rightarrow> 'w \<Rightarrow> 'w outcome option" where
  "unlock_cmd fr gf stage reg w = with_deployer fr gf stage reg w Unlock"

section \<open>A task command\<close>

definition notifyTaskFailure :: "('t, 'w) ext \<Rightarrow> deploy_file \<Rightarrow> string \<Rightarrow> goerr \<Rightarrow> 'w exec \<Rightarrow> 'w exec" where
  "notifyTaskFailure x cfg name err ex = (case m_get (cfg_Tasks cfg) name of
      Some (Some t) \<Rightarrow> if task_NotifyFailure t = Some False then ex else onFailure x cfg err ex
    | _ \<Rightarrow> onFailure x cfg err ex)"

definition task_body :: "string \<Rightarrow> bool \<Rightarrow> deploy_file \<Rightarrow> ('t, 'w) ext \<Rightarrow> 'w exec \<Rightarrow> goerr option \<times> 'w exec" where
  "task_body name dryRun cfg x ex = (case RunTask x name ex of
      (Some err, ex') \<Rightarrow> (Some err, if dryRun then ex' else notifyTaskFailure x cfg name err ex')
    | (None, ex') \<Rightarrow> (None, ex'))"

definition task_cmd :: "('t, 'v, 'w) front \<Rightarrow> global_flags \<Rightarrow> string \<Rightarrow> string \<Rightarrow> registry \<Rightarrow> 'w \<Rightarrow> 'w outcome option" where
  "task_cmd fr gf stage name reg w = with_exec fr gf stage reg w (task_body name (gf_dryRun gf))"

section \<open>An ad-hoc command\<close>

definition run_context :: "('t, 'v, 'w) cli \<Rightarrow> deploy_file \<Rightarrow> string \<Rightarrow> tctx" where
  "run_context cl cfg releaseDir = (loadTimeContext (cl_deployer cl) cfg)\<lparr>tc_Config := cl_AsMap cl cfg,
     tc_Imports := cfg_Imports cfg, tc_ReleasePath := releaseDir\<rparr>"

definition renderRunEnvs :: "('t, 'v, 'w) cli \<Rightarrow> deploy_file \<Rightarrow> string \<Rightarrow> bool \<Rightarrow> env res \<times> string list" where
  "renderRunEnvs cl cfg releaseDir dryRun =
     (case render_values (\<lambda>v. RenderWith (cl_engine cl) v (run_context cl cfg releaseDir) (\<not> dryRun)) (cfg_Envs cfg) of
        (Inl err, secs) \<Rightarrow> (Inl err, secs)
      | (Inr vs, secs) \<Rightarrow> (Inr (SetLiteral (SetExpand (SetLiteral [] (cfg_EnvFileValues cfg)) vs)
          (ImportEnv (cfg_Imports cfg))), secs))"

text \<open>The error of the command; the records of the failed hosts go to the log.\<close>

definition failed_hosts :: "result list \<Rightarrow> goerr list" where
  "failed_hosts results = List.map_filter r_Err results"

definition reportResults :: "goerr option \<Rightarrow> result list \<Rightarrow> goerr option \<times> (string \<times> goerr) list" where
  "reportResults ctxErr results =
     ((case failed_hosts results of [] \<Rightarrow> None
       | first # _ \<Rightarrow> Some (Wrap (itoa (int (length (failed_hosts results))) @ '' of '' @ itoa (int (length results))
           @ '' host(s) failed: '') first [])),
      List.map_filter (\<lambda>r. case r_Err r of None \<Rightarrow> None
        | Some e \<Rightarrow> if ctxErr = None \<or> Canceled \<notin> set (chain e) then Some (r_Host r, e) else None) results)"

text \<open>
  The one-shot cluster of \<open>RunCommand\<close> with its masked output: the pool and the console of a fresh
  executor state, without structured logging of the output.
\<close>

definition run_state :: "('t, 'v, 'w) front \<Rightarrow> global_flags \<Rightarrow> deploy_file \<Rightarrow> ssh_options \<Rightarrow> registry \<Rightarrow> 'w \<Rightarrow> 'w exec" where
  "run_state fr gf cfg so reg w = (New_executor cfg (exec_options_of fr gf cfg so) (cl_deployer (fr_cli fr)) YNull [] reg w)
     \<lparr>e_logMode := False\<rparr>"

definition dry_options :: ssh_options where
  "dry_options = \<lparr>so_StrictHostKey = True, so_KnownHostsFile = [], so_AcceptNew = True, so_ForwardAgent = False,
     so_ForwardKey = [], so_Agent = None, so_Bastion = None\<rparr>"

definition print_plan :: "('t, 'w) ext \<Rightarrow> host list \<Rightarrow> string \<Rightarrow> 'w exec \<Rightarrow> 'w exec" where
  "print_plan x hosts disp ex = console_flush x (fold (\<lambda>h. out_write x (''  '' @ host_Address h @ '': '' @ disp @ [nl])) hosts
     (out_write x (''[dry-run] would run on '' @ itoa (int (length hosts)) @ '' host(s):'' @ [nl]) ex))"

definition adhoc_body :: "('t, 'v, 'w) front \<Rightarrow> global_flags \<Rightarrow> string \<Rightarrow> string \<Rightarrow> deploy_file \<Rightarrow> 'w plugin_registry
    \<Rightarrow> registry \<Rightarrow> 'w \<Rightarrow> goerr option \<times> 'w exec option \<times> 'w" where
  "adhoc_body fr gf stage arg cfg preg reg w = (let hosts = selectHosts cfg (gf_roles gf) (gf_limit gf);
       releaseDir = l_CurrentPath (paths_For (app_DeployTo (cfg_App cfg))); x = run_ext fr cfg preg in
     if hosts = [] then (Some (Text (''no hosts match the given roles/host filters for stage '' @ quoted stage)), None, w)
     else (case renderRunEnvs (fr_cli fr) cfg releaseDir (gf_dryRun gf) of
         (Inl err, _) \<Rightarrow> (Some err, None, w)
       | (Inr envs, secs) \<Rightarrow> (let command = WrapCommand arg releaseDir envs; reg' = note_all secs reg in
           if gf_dryRun gf then (let disp = (if effectiveVerbose (cl_flags (fr_cli fr)) (gf_verbose gf) (cfg_Log cfg)
                 then command else arg);
               ex = print_plan x hosts disp (run_state fr gf cfg dry_options reg' w) in (None, Some ex, e_world ex))
           else (case sshOptions (fr_NewAgent fr) cfg of
               Inl err \<Rightarrow> (Some err, None, w)
             | Inr so \<Rightarrow> (case cluster_Run x (Targets hosts) (\<lambda>_. command) False (run_state fr gf cfg so reg' w) of
                 (results, ex) \<Rightarrow> (fst (reportResults (net_ctx (x_net x) (e_world ex)) results),
                   Some (console_flush x ex), e_world ex))))))"

definition run_cmd :: "('t, 'v, 'w) front \<Rightarrow> global_flags \<Rightarrow> string \<Rightarrow> string \<Rightarrow> registry \<Rightarrow> 'w \<Rightarrow> 'w outcome option" where
  "run_cmd fr gf stage arg reg w = with_config fr gf stage reg w (adhoc_body fr gf stage arg)"

section \<open>The commands that only read\<close>

definition validate_cmd :: "('t, 'v, 'w) front \<Rightarrow> global_flags \<Rightarrow> string \<Rightarrow> registry \<Rightarrow> (goerr option \<times> string) option" where
  "validate_cmd fr gf stage reg = (case loadOffline (fr_cli fr) (gf_deployfile gf) stage reg of
      None \<Rightarrow> None
    | Some ((Inl err, _), out) \<Rightarrow> Some (Some err, out)
    | Some ((Inr cfg, _), out) \<Rightarrow> Some (case List.find (\<lambda>p. \<not> IsRegistered (cl_table (fr_cli fr)) (ps_Name p)) (cfg_Plugins cfg) of
          Some p \<Rightarrow> Some (ConfigError (''unknown plugin '' @ quoted (ps_Name p) @ '' (not built into this binary)'') None)
        | None \<Rightarrow> None, out))"

definition config_body :: "('t, 'v, 'w) front \<Rightarrow> string \<Rightarrow> deploy_file \<Rightarrow> registry \<Rightarrow> goerr option \<times> string" where
  "config_body fr stage cfg reg = (case fr_marshal fr cfg of
      Inl err \<Rightarrow> (Some (wrapf ''marshal config'' err), [])
    | Inr b \<Rightarrow> (let masked = applyMasking (ls_level (log_settings_of (cl_flags (fr_cli fr)) (cfg_Log cfg))) in
        (None, masked_print (\<not> masked) (mask_String (\<not> masked) (cl_rules (fr_cli fr)) reg)
           [''# resolved config for stage '' @ quoted stage @ [nl] @ b])))"

definition completeStages :: "fs \<Rightarrow> string list \<Rightarrow> string \<Rightarrow> string list" where
  "completeStages f args toComplete = (if args \<noteq> [] then []
     else (case Discover f ''.'' [] of Inl _ \<Rightarrow> []
       | Inr path \<Rightarrow> map (\<lambda>s. if si_Description s \<noteq> [] then si_Name s @ [char_of (9::nat)] @ si_Description s else si_Name s)
           (filter (\<lambda>s. has_prefix (si_Name s) toComplete) (ListStages f (path_dir path)))))"

section \<open>Commands found at startup\<close>

definition newStageCmd :: "('t, 'v, 'w) cli \<Rightarrow> string \<Rightarrow> string \<Rightarrow> (string \<times> 'w stage_cmd) list option" where
  "newStageCmd cl stage given = (let cmds = (\<lambda>tasks declared. Some (stage_commands (cl_table cl) stage tasks declared)) in
     case Discover (cl_fs cl) ''.'' given of
       Inl _ \<Rightarrow> cmds [] []
     | Inr path \<Rightarrow> (case Load (cl_fuel cl) (cl_sv cl) (cl_fs cl) path stage of
           None \<Rightarrow> None
         | Some (Inr cfg) \<Rightarrow> cmds (cfg_Tasks cfg) (cfg_Plugins cfg)
         | Some (Inl _) \<Rightarrow> (case TasksForStage (cl_fuel cl) (cl_fs cl) path stage of
               None \<Rightarrow> None
             | Some (Inr tasks) \<Rightarrow> cmds tasks []
             | Some (Inl _) \<Rightarrow> cmds [] [])))"

definition plugin_cmd :: "('t, 'v, 'w) front \<Rightarrow> global_flags \<Rightarrow> string \<Rightarrow> 'w plugin_command \<Rightarrow> string list
    \<Rightarrow> registry \<Rightarrow> 'w \<Rightarrow> 'w outcome option" where
  "plugin_cmd fr gf stage c args reg w = with_config fr gf stage reg w (\<lambda>cfg preg reg' w'.
     case pc_Run c cfg preg args w' of (err, w'') \<Rightarrow> (err, None, w''))"

section \<open>Dry runs\<close>

text \<open>
  An operation that, started dry with nothing captured, changes the world at most by the plugin functions
  the configuration hooks to phases.
\<close>

definition dry_safe :: "('t, 'w) ext \<Rightarrow> ('w exec \<Rightarrow> goerr option \<times> 'w exec) \<Rightarrow> bool" where
  "dry_safe x f \<longleftrightarrow> (\<forall>e. e_dryRun e \<and> e_capture e = None \<longrightarrow>
     hook_reach x (hook_funcs (e_cfg e)) (e_world e) (e_world (snd (f e))))"

lemma held_dry_safe: "(\<And>e. held x (hook_funcs (e_cfg e)) e (snd (f e))) \<Longrightarrow> dry_safe x f"
  unfolding held_def dry_safe_def by blast

lemma dry_safe_deploy: "dry_safe x (Deploy x d ts rt who)"
  by (simp add: dry_safe_def Deploy_reach)

lemma dry_safe_commands:
  "dry_safe x (Check_deploy x d)" "dry_safe x (Releases x d)" "dry_safe x (Unlock x d)" "dry_safe x (Rollback x d cleanup)"
proof -
  have on: "held x F e e1" if "RunOn x hosts cmd d' = (r, e1)" "held x F e d'" for F e e1 hosts cmd r d'
    using held_trans[OF that(2)] held_kept[OF kept_RunOn[of x d' hosts cmd]] that(1) by simp
  show "dry_safe x (Check_deploy x d)" "dry_safe x (Releases x d)" "dry_safe x (Unlock x d)"
    by (rule held_dry_safe, auto simp: Check_deploy_def Releases_def Unlock_def Let_def intro: on held_trans[OF on]
        held_kept[OF kept_RunOn] split: prod.split option.split)+
  have body: "held x F e (snd (rollback_body x d cleanup e))" for F e
    by (auto simp: rollback_body_def Let_def intro: on held_kept[OF kept_RunTaskInPhase] held_kept[OF kept_RunOn]
        split: option.split prod.split)
  have "held x (hook_funcs (e_cfg e)) e (snd (Rollback x d cleanup e))" for e
  proof -
    let ?F = "hook_funcs (e_cfg e)"
    obtain r1 e1 where 1: "Before (exec_hooks x (e_cfg e)) PhaseRollback (phase_mark PhaseRollback e) = (r1, e1)" by fastforce
    obtain r2 e2 where 2: "rollback_body x d cleanup e1 = (r2, e2)" by fastforce
    have h1: "held x ?F e e1" using held_trans[OF mark_held held_hooks(1)[OF subset_refl]] 1 by (metis snd_conv)
    have h2: "held x ?F e e2" using held_trans[OF h1] body[of ?F e1] 2 by simp
    have "held x ?F e (snd (After (exec_hooks x (e_cfg e)) PhaseRollback e2))" by (rule held_trans[OF h2 held_hooks(2)[OF subset_refl]])
    then show ?thesis using 1 2 h1 h2 by (simp add: Rollback_def Let_def split: option.split)
  qed
  then show "dry_safe x (Rollback x d cleanup)" by (rule held_dry_safe)
qed

lemma dry_safe_task: "dry_safe x (task_body name True cfg x)"
proof -
  have "snd (task_body name True cfg x e) = snd (RunTask x name e)" for e
    by (simp add: task_body_def split: prod.split option.split)
  then show ?thesis using kept_RunTask[of x _ name] by (auto simp: dry_safe_def kept_def)
qed

lemma world_out [simp]:
  "e_world (out_write x p e) = e_world e" "e_world (console_flush x e) = e_world e"
  by (auto simp: out_write_def console_write_def console_flush_def split: option.split prod.split)

lemma world_print_plan [simp]: "e_world (print_plan x hosts disp ex) = e_world ex"
proof -
  have "e_world (fold (\<lambda>h. out_write x (f h)) hosts e) = e_world e" for f e by (induction hosts arbitrary: e) auto
  then show ?thesis by (simp add: print_plan_def)
qed

lemma with_config_total:
  "loadConfig (fr_cli fr) (gf_deployfile gf) stage reg w \<noteq> None \<Longrightarrow> \<exists>oc. with_config fr gf stage reg w body = Some oc"
  by (cases "loadConfig (fr_cli fr) (gf_deployfile gf) stage reg w")
    (auto simp: with_config_def split: prod.split sum.split)

lemma with_config_world:
  assumes "with_config fr gf stage reg w body = Some oc"
    and "\<And>cfg preg r w'. P cfg preg w' (snd (snd (body cfg preg r w')))"
  shows "\<exists>r reg' out w1. loadConfig (fr_cli fr) (gf_deployfile gf) stage reg w = Some (r, reg', out, w1)
    \<and> (case r of Inl err \<Rightarrow> oc_world oc = w1 | Inr (cfg, preg) \<Rightarrow> P cfg preg w1 (oc_world oc))"
proof -
  obtain r reg' out w' where l: "loadConfig (fr_cli fr) (gf_deployfile gf) stage reg w = Some (r, reg', out, w')"
    using assms(1) by (auto simp: with_config_def split: option.splits)
  show ?thesis
  proof (cases r)
    case (Inl err)
    then show ?thesis using assms(1) l by (auto simp: with_config_def)
  next
    case (Inr c)
    obtain cfg preg where c: "c = (cfg, preg)" by fastforce
    obtain err ex w2 where b: "body cfg preg reg' w' = (err, ex, w2)" by (metis prod_cases3)
    then have "oc_world oc = w2" using assms(1) l Inr c by (auto simp: with_config_def)
    then show ?thesis using l Inr c assms(2)[of cfg preg w' reg'] b by simp
  qed
qed

lemma with_exec_world:
  assumes "with_exec fr gf stage reg w run = Some oc" "gf_dryRun gf"
    and "\<And>cfg preg. dry_safe (run_ext fr cfg preg) (run cfg (run_ext fr cfg preg))"
  shows "\<exists>r reg' out w1. loadConfig (fr_cli fr) (gf_deployfile gf) stage reg w = Some (r, reg', out, w1)
    \<and> (case r of Inl err \<Rightarrow> oc_world oc = w1
        | Inr (cfg, preg) \<Rightarrow> hook_reach (fr_ext fr) (hook_funcs cfg) w1 (oc_world oc))"
proof -
  have same: "hook_reach (run_ext fr cfg preg) = hook_reach (fr_ext fr)" for cfg preg
    by (simp add: hook_reach_def run_ext_def fun_eq_iff)
  have ex: "newExecutor fr gf cfg r w' = Inr ex \<Longrightarrow> e_dryRun ex \<and> e_capture ex = None \<and> e_world ex = w' \<and> e_cfg ex = cfg"
    for cfg r w' ex
    using assms(2) by (auto simp: newExecutor_def New_executor_def exec_options_of_def split: sum.splits)
  have step: "hook_reach (fr_ext fr) (hook_funcs cfg) w' (e_world (snd (run cfg (run_ext fr cfg preg) e)))"
    if "newExecutor fr gf cfg r w' = Inr e" for cfg preg r w' e
  proof -
    have "hook_reach (run_ext fr cfg preg) (hook_funcs (e_cfg e)) (e_world e) (e_world (snd (run cfg (run_ext fr cfg preg) e)))"
      using assms(3)[of cfg preg] ex[OF that] unfolding dry_safe_def by blast
    then show ?thesis using ex[OF that] by (simp add: same)
  qed
  show ?thesis using assms(1) unfolding with_exec_def
  proof (rule with_config_world[where P = "\<lambda>cfg preg. hook_reach (fr_ext fr) (hook_funcs cfg)"])
    fix cfg preg r w'
    show "hook_reach (fr_ext fr) (hook_funcs cfg) w' (snd (snd (case newExecutor fr gf cfg r w' of Inl err \<Rightarrow> (Some err, None, w')
       | Inr ex \<Rightarrow> (case run cfg (run_ext fr cfg preg) ex of (err, ex') \<Rightarrow> (err, Some ex', e_world ex')))))"
      using step[of cfg r w'] by (auto simp: case_prod_beta split: sum.split)
  qed
qed

text \<open>
  C17. With \<open>--dry-run\<close> a built-in command of a stage changes the world (the hosts, the operator's machine, the
  cloud) no further than loading the configuration, with the startup of its plugins, did, but for the
  functions plugins hooked to the phases, which run in a dry run too; if the configuration has none the
  world is as loading left it. A command a plugin added takes no notice of the flag: what it makes of the
  world is what its own function does.
\<close>

theorem dry_run_commands:
  assumes "gf_dryRun gf"
    and "Some oc \<in> {deploy_cmd fr gf stage ts revTime reg w, deploy_check_cmd fr gf stage reg w,
      rollback_cmd fr gf cleanup stage reg w, releases_cmd fr gf stage reg w, unlock_cmd fr gf stage reg w,
      task_cmd fr gf stage name reg w, run_cmd fr gf stage arg reg w, plugin_cmd fr gf stage c args reg w}"
  shows "\<exists>r reg' out w1. loadConfig (fr_cli fr) (gf_deployfile gf) stage reg w = Some (r, reg', out, w1)
    \<and> (case r of Inl err \<Rightarrow> oc_world oc = w1
        | Inr (cfg, preg) \<Rightarrow> hook_reach (fr_ext fr) (hook_funcs cfg) w1 (oc_world oc)
            \<or> (Some oc = plugin_cmd fr gf stage c args reg w \<and> oc_world oc = snd (pc_Run c cfg preg args w1)))"
    (is "\<exists>r reg' out w1. ?load r reg' out w1 \<and> ?world r w1")
proof -
  have weaken: ?thesis if w: "\<exists>r reg' out w1. ?load r reg' out w1 \<and> (case r of Inl err \<Rightarrow> oc_world oc = w1
      | Inr (cfg, preg) \<Rightarrow> hook_reach (fr_ext fr) (hook_funcs cfg) w1 (oc_world oc))"
  proof -
    obtain r reg' out w1 where l: "?load r reg' out w1" and p: "case r of Inl err \<Rightarrow> oc_world oc = w1
      | Inr (cfg, preg) \<Rightarrow> hook_reach (fr_ext fr) (hook_funcs cfg) w1 (oc_world oc)" using w by blast
    have "?world r w1" using p by (cases r) (auto split: prod.splits)
    then show ?thesis using l by blast
  qed
  have deployer: ?thesis if "with_deployer fr gf stage reg w f = Some oc" "\<And>x d. dry_safe x (f x d)" for f
  proof -
    have "dry_safe x (\<lambda>ex. case New_deployer cfg of Inl err \<Rightarrow> (Some err, ex) | Inr d \<Rightarrow> f x d ex)" for x cfg
      using that(2) by (auto simp: dry_safe_def split: sum.split)
    then show ?thesis using with_exec_world[OF that(1)[unfolded with_deployer_def] assms(1)] weaken by blast
  qed
  have task: ?thesis if "task_cmd fr gf stage name reg w = Some oc"
    by (rule weaken, rule with_exec_world[OF that[unfolded task_cmd_def] assms(1)]) (simp add: assms(1) dry_safe_task)
  have run: ?thesis if "run_cmd fr gf stage arg reg w = Some oc"
    using assms(1) by (intro weaken with_config_world[OF that[unfolded run_cmd_def],
          where P = "\<lambda>cfg preg. hook_reach (fr_ext fr) (hook_funcs cfg)"])
      (simp add: adhoc_body_def Let_def run_state_def New_executor_def split: prod.split sum.split)
  have plug: ?thesis if pc: "plugin_cmd fr gf stage c args reg w = Some oc"
  proof -
    obtain r reg' out w1 where l: "?load r reg' out w1"
      and p: "case r of Inl err \<Rightarrow> oc_world oc = w1 | Inr (cfg, preg) \<Rightarrow> oc_world oc = snd (pc_Run c cfg preg args w1)"
      using with_config_world[OF pc[unfolded plugin_cmd_def], where P = "\<lambda>cfg preg w1 v. v = snd (pc_Run c cfg preg args w1)"]
      by (auto simp: case_prod_beta)
    have "?world r w1" using p pc by (cases r) (auto split: prod.splits)
    then show ?thesis using l by blast
  qed
  consider "deploy_cmd fr gf stage ts revTime reg w = Some oc" | "deploy_check_cmd fr gf stage reg w = Some oc"
    | "rollback_cmd fr gf cleanup stage reg w = Some oc" | "releases_cmd fr gf stage reg w = Some oc"
    | "unlock_cmd fr gf stage reg w = Some oc" | "task_cmd fr gf stage name reg w = Some oc"
    | "run_cmd fr gf stage arg reg w = Some oc" | "plugin_cmd fr gf stage c args reg w = Some oc"
    using assms(2) by (simp add: eq_commute[of "Some oc"]) blast
  then show ?thesis
  proof cases
    case 1
    then show ?thesis using deployer[OF 1[unfolded deploy_cmd_def]] dry_safe_deploy by blast
  next
    case 2
    then show ?thesis using deployer[OF 2[unfolded deploy_check_cmd_def]] dry_safe_commands(1) by blast
  next
    case 3
    then show ?thesis using deployer[OF 3[unfolded rollback_cmd_def]] dry_safe_commands(4) by blast
  next
    case 4
    then show ?thesis using deployer[OF 4[unfolded releases_cmd_def]] dry_safe_commands(2) by blast
  next
    case 5
    then show ?thesis using deployer[OF 5[unfolded unlock_cmd_def]] dry_safe_commands(3) by blast
  qed (rule task run plug, assumption)+
qed

section \<open>The other commands\<close>

lemma failed_first: "List.map_filter r_Err rs = e # es \<Longrightarrow>
    \<exists>pre r post. rs = pre @ r # post \<and> r_Err r = Some e \<and> (\<forall>q\<in>set pre. r_Err q = None)"
proof (induction rs)
  case (Cons r rs)
  show ?case
  proof (cases "r_Err r")
    case None
    then obtain pre q post where "rs = pre @ q # post" "r_Err q = Some e" "\<forall>q\<in>set pre. r_Err q = None"
      using Cons by (auto simp: List.map_filter_simps)
    then show ?thesis using None by (intro exI[of _ "r # pre"] exI[of _ q] exI[of _ post]) simp
  next
    case (Some f)
    then have "f = e" using Cons.prems by (simp add: List.map_filter_simps)
    then show ?thesis using Some by (intro exI[of _ "[]"] exI[of _ r] exI[of _ rs]) simp
  qed
qed (simp add: List.map_filter_simps)

lemma failed_none: "failed_hosts rs = [] \<longleftrightarrow> (\<forall>r\<in>set rs. r_Err r = None)"
  by (auto simp: failed_hosts_def List.map_filter_def filter_empty_conv)

text \<open>
  An ad-hoc command succeeds exactly when it did on every host, and otherwise ends with the exit code of
  the first failed host in host order. Every failed host is logged with its error, in order, unless
  the run was interrupted; then those that were only cancelled are not.
\<close>

theorem reportResults_spec:
  "(fst (reportResults ctxErr results) = None \<longleftrightarrow> list_all (\<lambda>r. r_Err r = None) results)
   \<and> (fst (reportResults ctxErr results) = None \<or> (\<exists>pre r post e. results = pre @ r # post \<and> r_Err r = Some e
        \<and> list_all (\<lambda>r. r_Err r = None) pre \<and> code (fst (reportResults ctxErr results)) = code (Some e)))
   \<and> map snd (snd (reportResults ctxErr results))
       = (if ctxErr = None then failed_hosts results else filter (\<lambda>e. Canceled \<notin> set (chain e)) (failed_hosts results))"
proof (intro conjI)
  show "fst (reportResults ctxErr results) = None \<longleftrightarrow> list_all (\<lambda>r. r_Err r = None) results"
    using failed_none[of results] by (cases "failed_hosts results") (simp_all add: reportResults_def list_all_iff)
  show "fst (reportResults ctxErr results) = None \<or> (\<exists>pre r post e. results = pre @ r # post \<and> r_Err r = Some e
        \<and> list_all (\<lambda>r. r_Err r = None) pre \<and> code (fst (reportResults ctxErr results)) = code (Some e))"
  proof (cases "failed_hosts results")
    case Nil
    then show ?thesis by (simp add: reportResults_def)
  next
    case (Cons e es)
    then obtain pre r post where "results = pre @ r # post" "r_Err r = Some e" "\<forall>q\<in>set pre. r_Err q = None"
      using failed_first unfolding failed_hosts_def by blast
    moreover have "code (fst (reportResults ctxErr results)) = code (Some e)"
      using Cons by (simp add: reportResults_def code_def)
    ultimately show ?thesis unfolding list_all_iff by blast
  qed
  show "map snd (snd (reportResults ctxErr results))
      = (if ctxErr = None then failed_hosts results else filter (\<lambda>e. Canceled \<notin> set (chain e)) (failed_hosts results))"
    unfolding reportResults_def failed_hosts_def snd_conv
    by (induction results) (auto simp: List.map_filter_simps split: option.splits)
qed

lemma render_values_get:
  "fst (render_values rd m) = Inr out \<Longrightarrow> m_get out k = Some v \<Longrightarrow> \<exists>raw. m_get m k = Some raw \<and> fst (rd raw) = Inr v"
proof (induction m arbitrary: out)
  case (Cons jv m)
  obtain j raw where jv: "jv = (j, raw)" by fastforce
  obtain r secs r' secs' where p: "rd raw = (r, secs)" "render_values rd m = (r', secs')" by fastforce
  obtain v' out' where "r = Inr v'" "r' = Inr out'" "out = (j, v') # out'"
    using Cons.prems(1) p jv by (cases r; cases r') auto
  then show ?case using Cons p jv by (auto split: if_splits)
qed simp

lemma load_specs_known:
  assumes "\<forall>p\<in>set specs. m_get (pt_factories tbl) (ps_Name p) \<noteq> None"
  shows "load_specs tbl specs r w = (Inl err, secs, w') \<Longrightarrow> \<exists>name cause. err = PluginError (''plugin '' @ quoted name) (Some cause)"
  using assms by (induction specs arbitrary: r w secs) (auto split: option.splits prod.splits)

text \<open>An ad-hoc command goes to the hosts a deploy would run on.\<close>

lemma run_targets:
  assumes "newExecutor fr gf cfg reg w = Inr ex"
  shows "exec_Hosts ex = selectHosts cfg (gf_roles gf) (gf_limit gf)"
proof -
  have "e_cfg ex = cfg" "e_roles ex = gf_roles gf" "e_limit ex = gf_limit gf" "e_unreachable ex = []"
    using assms by (auto simp: newExecutor_def New_executor_def exec_options_of_def split: sum.splits)
  then show ?thesis by (simp add: exec_Hosts_def selectHosts_def filterExcluded_def)
qed

text \<open>
  The environment of an ad-hoc command resolves a name as a task's does, in the layers they share: what a
  plugin imported, else the rendered global variable, which alone is expanded by the shell, else the
  env files; no other name is exported.
\<close>

theorem renderRunEnvs_precedence:
  assumes "renderRunEnvs cl cfg dir dry = (Inr env, secs)"
    and "wf_map (cfg_EnvFileValues cfg)" and "wf_map (cfg_Envs cfg)"
  shows "\<exists>vs. map fst vs = map fst (cfg_Envs cfg)
    \<and> (\<forall>k v. m_get vs k = Some v \<longrightarrow> (\<exists>raw. m_get (cfg_Envs cfg) k = Some raw
         \<and> fst (RenderWith (cl_engine cl) raw (run_context cl cfg dir) (\<not> dry)) = Inr v))
    \<and> (\<forall>k. m_get env k = first_of [layer False (ImportEnv (cfg_Imports cfg)) k, layer True vs k,
         layer False (cfg_EnvFileValues cfg) k])"
proof -
  obtain vs where r: "fst (render_values (\<lambda>v. RenderWith (cl_engine cl) v (run_context cl cfg dir) (\<not> dry)) (cfg_Envs cfg)) = Inr vs"
    and env: "env = SetLiteral (SetExpand (SetLiteral [] (cfg_EnvFileValues cfg)) vs) (ImportEnv (cfg_Imports cfg))"
    using assms(1) by (auto simp: renderRunEnvs_def split: prod.splits sum.splits)
  have keys: "map fst vs = map fst (cfg_Envs cfg)" by (rule render_values_keys[OF r])
  then have "wf_map vs" using assms(3) by (simp add: wf_map_def)
  then have "m_get env k = first_of [layer False (ImportEnv (cfg_Imports cfg)) k, layer True vs k,
      layer False (cfg_EnvFileValues cfg) k]" for k
    unfolding env by (simp add: SetLiteral_get SetExpand_get ImportEnv_wf assms(2) layer_def first_of_def split: option.split)
  then show ?thesis using keys render_values_get[OF r] by blast
qed

text \<open>
  What \<open>validate\<close> accepts can only fail to load because of a plugin: one that does not configure itself,
  a startup hook, or hooks that name nothing once the plugins have added theirs. The file, the
  schema, the templates and the names of the plugins are settled.
\<close>

theorem validate_then_load:
  assumes "validate_cmd fr gf stage reg = Some (None, out)"
    and "loadConfig (fr_cli fr) (gf_deployfile gf) stage reg w = Some (Inl err, reg', out', w')"
  shows "(\<exists>name cause. err = PluginError (''plugin '' @ quoted name) (Some cause))
    \<or> (\<exists>cause. err = wrapf ''plugins startup'' cause) \<or> (\<exists>cfg. ValidateHooks cfg = Some err)"
proof -
  obtain cfg reg1 o1 where off: "loadOffline (fr_cli fr) (gf_deployfile gf) stage reg = Some ((Inr cfg, reg1), o1)"
    and find: "List.find (\<lambda>p. \<not> IsRegistered (cl_table (fr_cli fr)) (ps_Name p)) (cfg_Plugins cfg) = None"
    using assms(1) by (auto simp: validate_cmd_def split: option.splits sum.splits prod.splits)
  have known: "\<forall>p\<in>set (cfg_Plugins cfg). m_get (pt_factories (cl_table (fr_cli fr))) (ps_Name p) \<noteq> None"
    using find by (simp add: find_None_iff IsRegistered_def)
  have start: "fst (start_plugins (cl_table (fr_cli fr)) cfg w) = Inl err"
    using assms(2) off by (auto simp: loadConfig_def split: prod.splits)
  show ?thesis
  proof (cases "fst (Load_plugins (cl_table (fr_cli fr)) (cfg_Plugins cfg) w)")
    case (Inl e)
    then obtain secs w1 where l: "Load_plugins (cl_table (fr_cli fr)) (cfg_Plugins cfg) w = (Inl e, secs, w1)"
      by (metis prod.collapse)
    then have "e = err" using start by (simp add: start_plugins_def)
    then show ?thesis using load_specs_known[OF known] l unfolding Load_plugins_def by blast
  next
    case (Inr preg)
    then obtain secs w1 where "Load_plugins (cl_table (fr_cli fr)) (cfg_Plugins cfg) w = (Inr preg, secs, w1)"
      by (metis prod.collapse)
    then show ?thesis using start by (auto simp: start_plugins_def split: prod.splits option.splits)
  qed
qed

section \<open>Concrete commands\<close>

definition demo_front :: "(string, nat, nat) front" where
  "demo_front = \<lparr>fr_cli = demo_cli, fr_key_env = demo_key_env, fr_terminal = False, fr_marshal = (\<lambda>_. Inr []),
     fr_ext = demo_ext\<rparr>"

definition dry_flags :: global_flags where
  "dry_flags = \<lparr>gf_deployfile = ''/W'', gf_verbose = False, gf_dryRun = True, gf_roles = [], gf_limit = [], gf_conc = 0\<rparr>"

text \<open>A front whose only, always-on plugin does not configure itself.\<close>

definition bad_plugin :: "nat plugin" where
  "bad_plugin = \<lparr>pl_Configure = (\<lambda>spec r w. (Some (Text ''no region''), r, [], w)), pl_Version = None, pl_Commands = None\<rparr>"

definition bad_front :: "(string, nat, nat) front" where
  "bad_front = demo_front\<lparr>fr_cli := demo_cli\<lparr>cl_table := \<lparr>pt_factories = [(''p'', bad_plugin)], pt_defaults = [''p'']\<rparr>\<rparr>\<rparr>"

lemma demo_loadConfig:
  "case loadConfig demo_cli ''/W'' ''s'' no_secrets 0 of Some (Inr (cfg, preg), reg, out, w) \<Rightarrow> w = 0 | _ \<Rightarrow> False"
  by code_simp

definition idle_cmd :: "nat plugin_command" where
  "idle_cmd = \<lparr>pc_Name = ''idle'', pc_Short = [], pc_Run = \<lambda>cfg preg args w. (None, w)\<rparr>"

lemma dry_run_commands_witness:
  "\<exists>oc. deploy_cmd demo_front dry_flags ''s'' ''20240101000000'' ''now'' no_secrets 0 = Some oc \<and> oc_world oc = 0"
proof -
  have "loadConfig (fr_cli demo_front) (gf_deployfile dry_flags) ''s'' no_secrets 0 \<noteq> None"
    using demo_loadConfig by (cases "loadConfig demo_cli ''/W'' ''s'' no_secrets 0") (simp_all add: demo_front_def dry_flags_def)
  then have "\<exists>oc. deploy_cmd demo_front dry_flags ''s'' ''20240101000000'' ''now'' no_secrets 0 = Some oc"
    unfolding deploy_cmd_def with_deployer_def with_exec_def by (rule with_config_total)
  then obtain oc where oc: "deploy_cmd demo_front dry_flags ''s'' ''20240101000000'' ''now'' no_secrets 0 = Some oc" ..
  have "gf_dryRun dry_flags" by (simp add: dry_flags_def)
  from dry_run_commands[OF this, where oc = oc and fr = demo_front and stage = "''s''" and ts = "''20240101000000''"
      and revTime = "''now''" and reg = no_secrets and w = 0 and cleanup = False and name = "''t''" and arg = "''x''"
      and c = idle_cmd and args = "[]"]
  have "\<exists>r reg' out w1. loadConfig (fr_cli demo_front) (gf_deployfile dry_flags) ''s'' no_secrets 0 = Some (r, reg', out, w1)
      \<and> (case r of Inl err \<Rightarrow> oc_world oc = w1 | Inr (cfg, preg) \<Rightarrow> hook_reach (fr_ext demo_front) (hook_funcs cfg) w1 (oc_world oc)
        \<or> (Some oc = plugin_cmd demo_front dry_flags ''s'' idle_cmd [] no_secrets 0 \<and> oc_world oc = snd (pc_Run idle_cmd cfg preg [] w1)))"
    by (simp add: oc)
  then obtain r reg' out w1 where l: "loadConfig (fr_cli demo_front) (gf_deployfile dry_flags) ''s'' no_secrets 0 = Some (r, reg', out, w1)"
    and r: "case r of Inl err \<Rightarrow> oc_world oc = w1 | Inr (cfg, preg) \<Rightarrow> hook_reach (fr_ext demo_front) (hook_funcs cfg) w1 (oc_world oc)
        \<or> (Some oc = plugin_cmd demo_front dry_flags ''s'' idle_cmd [] no_secrets 0 \<and> oc_world oc = snd (pc_Run idle_cmd cfg preg [] w1))"
    by blast
  have "loadConfig demo_cli ''/W'' ''s'' no_secrets 0 = Some (r, reg', out, w1)"
    using l by (simp add: demo_front_def dry_flags_def)
  then obtain cfg preg where c: "r = Inr (cfg, preg)" "w1 = 0"
    using demo_loadConfig by (cases r) (auto split: prod.splits)
  have "x_hook (fr_ext demo_front) fn v = ([], None, v)" for fn v by (simp add: demo_front_def demo_ext_def)
  then have "hook_reach (fr_ext demo_front) (hook_funcs cfg) 0 v \<Longrightarrow> v = 0" for v by (elim hook_reach_idle) simp
  then have "oc_world oc = 0" using r c by (auto simp: idle_cmd_def)
  then show ?thesis using oc by blast
qed

text \<open>A command of a plugin acts under \<open>--dry-run\<close> as it does without it.\<close>

lemma plugin_cmd_ignores_dry_run:
  "\<exists>oc. plugin_cmd demo_front dry_flags ''s'' (idle_cmd\<lparr>pc_Run := \<lambda>cfg preg args w. (None, Suc w)\<rparr>) [] no_secrets 0 = Some oc
    \<and> oc_world oc = 1"
proof -
  obtain r reg out w where l: "loadConfig demo_cli ''/W'' ''s'' no_secrets 0 = Some (r, reg, out, w)"
    using demo_loadConfig by (cases "loadConfig demo_cli ''/W'' ''s'' no_secrets 0") auto
  moreover obtain cfg preg where "r = Inr (cfg, preg)" "w = 0"
    using l demo_loadConfig by (cases r) (auto split: prod.splits)
  ultimately show ?thesis by (simp add: plugin_cmd_def with_config_def demo_front_def dry_flags_def)
qed

lemma renderRunEnvs_precedence_witness:
  "\<exists>env secs. renderRunEnvs demo_cli (zero_cfg\<lparr>cfg_Envs := [(''A'', ''x'')], cfg_EnvFileValues := [(''A'', ''y'')]\<rparr>) ''/srv'' False = (Inr env, secs)
    \<and> m_get env ''A'' = Some \<lparr>ev_Value = ''x'', ev_Expand = True\<rparr>"
proof -
  let ?c = "zero_cfg\<lparr>cfg_Envs := [(''A'', ''x'')], cfg_EnvFileValues := [(''A'', ''y'')]\<rparr>"
  obtain env where e: "renderRunEnvs demo_cli ?c ''/srv'' False = (Inr env, [])"
    by (simp add: renderRunEnvs_def demo_cli_def RenderWith_def text_engine_def)
  have "wf_map (cfg_EnvFileValues ?c)" "wf_map (cfg_Envs ?c)" by (simp_all add: wf_map_def)
  from renderRunEnvs_precedence[OF e this] obtain vs where vs: "map fst vs = map fst (cfg_Envs ?c)"
    "\<forall>k v. m_get vs k = Some v \<longrightarrow> (\<exists>raw. m_get (cfg_Envs ?c) k = Some raw
       \<and> fst (RenderWith (cl_engine demo_cli) raw (run_context demo_cli ?c ''/srv'') (\<not> False)) = Inr v)"
    "\<forall>k. m_get env k = first_of [layer False (ImportEnv (cfg_Imports ?c)) k, layer True vs k, layer False (cfg_EnvFileValues ?c) k]"
    by blast
  obtain v where v: "vs = [(''A'', v)]" using vs(1) by (cases vs) auto
  then have "v = ''x''" using vs(2)[rule_format, of "''A''" v] by (simp add: demo_cli_def RenderWith_def text_engine_def)
  then have "m_get env ''A'' = Some \<lparr>ev_Value = ''x'', ev_Expand = True\<rparr>"
    using vs(3) v by (simp add: first_of_def layer_def ImportEnv_def zero_cfg_def)
  then show ?thesis using e by blast
qed

lemma validate_then_load_witness:
  "\<exists>err name cause r out w. loadConfig (fr_cli bad_front) ''/W'' ''s'' no_secrets 0 = Some (Inl err, r, out, w)
     \<and> (err = PluginError (''plugin '' @ quoted name) (Some cause) \<or> err = wrapf ''plugins startup'' cause
       \<or> (\<exists>cfg. ValidateHooks cfg = Some err))"
proof -
  have v: "validate_cmd bad_front dry_flags ''s'' no_secrets = Some (None, [])" by code_simp
  have "case loadConfig (fr_cli bad_front) (gf_deployfile dry_flags) ''s'' no_secrets 0 of Some (Inl err, _) \<Rightarrow> True | _ \<Rightarrow> False"
    by code_simp
  then obtain err r out w where l: "loadConfig (fr_cli bad_front) (gf_deployfile dry_flags) ''s'' no_secrets 0 = Some (Inl err, r, out, w)"
    by (auto split: option.splits sum.splits prod.splits)
  then show ?thesis using validate_then_load[OF v l] by (simp add: dry_flags_def) blast
qed

end
