(* ===== verification/Secretstore.thy ===== *)
theory Secretstore
  imports Import_Hooks
begin

text \<open>
  The Secrets Manager plugin (\<open>plugins/aws/secretstore/store.go\<close>): the secrets of a prefix, fetched a few at
  a time, their expansion into variables, the import into the template context when the configuration
  loads, and the action that writes them to a dotenv file.

  The calls of the cloud API only read, so their answers are functions of the world; a listing is the
  sequence of the answers its paginator gets. Decoding a JSON object is a parameter (\<open>encoding/json\<close>
  renders its numbers as 64-bit floats), and so is the decoding of a parameter map into a struct. Log
  records are kept where the key tracker makes them and left out of the action.
\<close>

section \<open>Fetching\<close>

datatype get_answer = NotFound goerr | Failed goerr | Answer "string option" "string option"

record 'w secrets_api =
  sa_pages :: "'w \<Rightarrow> string \<Rightarrow> (goerr + string option list) list"
  sa_get :: "'w \<Rightarrow> string \<Rightarrow> get_answer"

record raw_secret =
  rs_name :: string
  rs_value :: string

definition to_string :: "string option \<Rightarrow> string" where "to_string p = or_default p []"

definition getValue :: "'w secrets_api \<Rightarrow> 'w \<Rightarrow> string \<Rightarrow> goerr + string option" where
  "getValue api w sid = (case sa_get api w sid of
      NotFound err \<Rightarrow> Inr None
    | Failed err \<Rightarrow> Inl err
    | Answer (Some s) _ \<Rightarrow> Inr (Some s)
    | Answer None (Some b) \<Rightarrow> Inr (Some b)
    | Answer None None \<Rightarrow> Inr (Some []))"

text \<open>The names of a listing that start with the prefix, in listed order; a failed page ends it.\<close>

fun list_names :: "string \<Rightarrow> (goerr + string option list) list \<Rightarrow> string list res" where
  "list_names pre [] = Inr []"
| "list_names pre (Inl err # ps) = Inl err"
| "list_names pre (Inr es # ps) = (case list_names pre ps of
      Inl err \<Rightarrow> Inl err
    | Inr names \<Rightarrow> Inr (filter (\<lambda>n. has_prefix n pre) (map to_string es) @ names))"

subsection \<open>The concurrent fetch\<close>

text \<open>
  One goroutine per name. It waits for one of \<open>secretFetchConcurrency\<close> places or gives up when the
  context is done; it then calls the API, and leaves its place with a value in its slot, with nothing (the
  secret does not exist), or with an error, the first of which cancels the others. A call that runs when the context is
  done may fail with any error. The caller may cancel at any time.
\<close>

definition secretFetchConcurrency :: nat where "secretFetchConcurrency = 5"

record fetch_state =
  ft_waiting :: "nat list"
  ft_running :: "nat list"
  ft_slots :: "raw_secret option list"
  ft_err :: "goerr option"
  ft_caller :: "goerr option"

definition fetch_init :: "string list \<Rightarrow> fetch_state" where
  "fetch_init names = \<lparr>ft_waiting = [0..<length names], ft_running = [],
     ft_slots = replicate (length names) None, ft_err = None, ft_caller = None\<rparr>"

definition ctx_done :: "fetch_state \<Rightarrow> bool" where
  "ctx_done st \<longleftrightarrow> ft_err st \<noteq> None \<or> ft_caller st \<noteq> None"

definition leave :: "nat \<Rightarrow> fetch_state \<Rightarrow> fetch_state" where
  "leave i st = st\<lparr>ft_running := remove1 i (ft_running st)\<rparr>"

inductive fetch_step :: "(string \<Rightarrow> goerr + string option) \<Rightarrow> string list \<Rightarrow> fetch_state \<Rightarrow> fetch_state \<Rightarrow> bool"
  for get :: "string \<Rightarrow> goerr + string option" and names :: "string list" where
  acquire: "i \<in> set (ft_waiting st) \<Longrightarrow> length (ft_running st) < secretFetchConcurrency \<Longrightarrow>
     fetch_step get names st (st\<lparr>ft_waiting := remove1 i (ft_waiting st), ft_running := i # ft_running st\<rparr>)"
| give_up: "i \<in> set (ft_waiting st) \<Longrightarrow> ctx_done st \<Longrightarrow>
     fetch_step get names st (st\<lparr>ft_waiting := remove1 i (ft_waiting st)\<rparr>)"
| found: "i \<in> set (ft_running st) \<Longrightarrow> get (names ! i) = Inr (Some v) \<Longrightarrow>
     fetch_step get names st
       ((leave i st)\<lparr>ft_slots := (ft_slots st)[i := Some \<lparr>rs_name = names ! i, rs_value = v\<rparr>]\<rparr>)"
| missing: "i \<in> set (ft_running st) \<Longrightarrow> get (names ! i) = Inr None \<Longrightarrow> fetch_step get names st (leave i st)"
| failed: "i \<in> set (ft_running st) \<Longrightarrow> get (names ! i) = Inl err \<or> ctx_done st \<Longrightarrow>
     fetch_step get names st
       ((leave i st)\<lparr>ft_err := (if ft_err st = None then Some err else ft_err st)\<rparr>)"
| caller_cancels: "ft_caller st = None \<Longrightarrow> fetch_step get names st (st\<lparr>ft_caller := Some err\<rparr>)"

inductive_cases fetch_stepE: "fetch_step get names st st'"

text \<open>\<open>wg.Wait\<close> returns when no goroutine is left; then the result is read off.\<close>

definition fetch_ended :: "fetch_state \<Rightarrow> bool" where
  "fetch_ended st \<longleftrightarrow> ft_waiting st = [] \<and> ft_running st = []"

definition fetch_result :: "fetch_state \<Rightarrow> raw_secret list res" where
  "fetch_result st = (case ft_err st of Some err \<Rightarrow> Inl err
    | None \<Rightarrow> (case ft_caller st of Some err \<Rightarrow> Inl err
      | None \<Rightarrow> Inr (List.map_filter (\<lambda>s. s) (ft_slots st))))"

text \<open>The specification: the secrets one after the other.\<close>

fun fetch_seq :: "(string \<Rightarrow> goerr + string option) \<Rightarrow> string list \<Rightarrow> raw_secret list res" where
  "fetch_seq get [] = Inr []"
| "fetch_seq get (n # ns) = (case get n of
      Inl err \<Rightarrow> Inl err
    | Inr v \<Rightarrow> (case fetch_seq get ns of
        Inl err \<Rightarrow> Inl err
      | Inr out \<Rightarrow> Inr ((case v of None \<Rightarrow> [] | Some s \<Rightarrow> [\<lparr>rs_name = n, rs_value = s\<rparr>]) @ out)))"

definition slot_of :: "(string \<Rightarrow> goerr + string option) \<Rightarrow> string \<Rightarrow> raw_secret option" where
  "slot_of get n = (case get n of Inr (Some v) \<Rightarrow> Some \<lparr>rs_name = n, rs_value = v\<rparr> | _ \<Rightarrow> None)"

lemma fetch_seq_ok: "list_all (\<lambda>n. is_ok (get n)) ns \<Longrightarrow> fetch_seq get ns = Inr (List.map_filter (slot_of get) ns)"
  by (induction ns) (auto simp: is_ok_def slot_of_def List.map_filter_simps split: sum.splits option.split)

text \<open>
  What holds in every reachable state: a goroutine that has left has done so with what the API answered,
  unless the caller cancelled; an error is an answer of the API to one of the names.
\<close>

definition fetch_inv :: "(string \<Rightarrow> goerr + string option) \<Rightarrow> string list \<Rightarrow> fetch_state \<Rightarrow> bool" where
  "fetch_inv get names st \<longleftrightarrow> length (ft_running st) \<le> secretFetchConcurrency
     \<and> distinct (ft_waiting st @ ft_running st) \<and> set (ft_waiting st @ ft_running st) \<subseteq> {..<length names}
     \<and> length (ft_slots st) = length names
     \<and> (ft_caller st = None \<longrightarrow> (\<forall>err. ft_err st = Some err \<longrightarrow> (\<exists>n\<in>set names. get n = Inl err)))
     \<and> (\<not> ctx_done st \<longrightarrow> (\<forall>i\<in>{..<length names} - set (ft_waiting st @ ft_running st).
          is_ok (get (names ! i)) \<and> ft_slots st ! i = slot_of get (names ! i)))
     \<and> (\<forall>i\<in>set (ft_waiting st @ ft_running st). ft_slots st ! i = None)"

lemma fetch_inv_init: "fetch_inv get names (fetch_init names)"
  by (auto simp: fetch_inv_def fetch_init_def)

lemma fetch_inv_step:
  assumes "fetch_step get names st st'" "fetch_inv get names st"
  shows "fetch_inv get names st'"
proof -
  have d: "distinct (ft_waiting st)" "distinct (ft_running st)" using assms(2) by (auto simp: fetch_inv_def)
  note rm = set_remove1_eq[OF d(1)] set_remove1_eq[OF d(2)] distinct_remove1 length_remove1
  show ?thesis using assms(1)
  proof (cases rule: fetch_step.cases)
    case (acquire i)
    then show ?thesis using assms(2) by (auto simp: fetch_inv_def ctx_done_def rm)
  next
    case (give_up i)
    then show ?thesis using assms(2) by (auto simp: fetch_inv_def ctx_done_def rm)
  next
    case (found i v)
    then have ok: "is_ok (get (names ! i))" "slot_of get (names ! i) = Some \<lparr>rs_name = names ! i, rs_value = v\<rparr>"
      by (simp_all add: is_ok_def slot_of_def)
    have i: "i < length names" "i \<notin> set (ft_waiting st)" using found assms(2) by (auto simp: fetch_inv_def)
    show ?thesis using assms(2) i ok unfolding found(1)
      by (auto simp: fetch_inv_def ctx_done_def leave_def nth_list_update rm)
  next
    case (missing i)
    then have ok: "is_ok (get (names ! i))" "slot_of get (names ! i) = None" by (simp_all add: is_ok_def slot_of_def)
    show ?thesis using assms(2) ok unfolding missing(1)
      by (auto simp: fetch_inv_def ctx_done_def leave_def rm)
  next
    case (failed i err)
    have "i < length names" using failed(2) assms(2) by (auto simp: fetch_inv_def)
    then have n: "names ! i \<in> set names" by simp
    have "ctx_done st'" unfolding failed(1) by (simp add: ctx_done_def)
    moreover have "\<exists>n\<in>set names. get n = Inl e" if e: "ft_caller st' = None" "ft_err st' = Some e" for e
    proof (cases "ft_err st")
      case None
      then show ?thesis using failed n e by (auto simp: ctx_done_def leave_def)
    next
      case (Some e0)
      then show ?thesis using failed(1) e assms(2) by (simp add: fetch_inv_def leave_def)
    qed
    moreover have "ft_running st' = remove1 i (ft_running st)" "ft_waiting st' = ft_waiting st"
      "ft_slots st' = ft_slots st" unfolding failed(1) by (simp_all add: leave_def)
    ultimately show ?thesis using assms(2) by (auto simp: fetch_inv_def rm)
  next
    case (caller_cancels err)
    then show ?thesis using assms(2) by (auto simp: fetch_inv_def ctx_done_def)
  qed
qed

lemma fetch_inv_reach: "(fetch_step get names)\<^sup>*\<^sup>* (fetch_init names) st \<Longrightarrow> fetch_inv get names st"
  by (induction rule: rtranclp_induct) (auto intro: fetch_inv_init fetch_inv_step)

lemma fetch_ended_result:
  assumes "fetch_inv get names st" "fetch_ended st"
  shows "if ft_caller st = None then (case fetch_result st of
       Inr out \<Rightarrow> fetch_seq get names = Inr out | Inl err \<Rightarrow> \<exists>n\<in>set names. get n = Inl err)
     else \<exists>err. fetch_result st = Inl err"
proof (cases "ctx_done st")
  case True
  then show ?thesis using assms(1)
    by (auto simp: fetch_inv_def ctx_done_def fetch_result_def split: option.split)
next
  case False
  then have i: "\<forall>i<length names. is_ok (get (names ! i)) \<and> ft_slots st ! i = slot_of get (names ! i)"
    and l: "length (ft_slots st) = length names" using assms by (auto simp: fetch_inv_def fetch_ended_def)
  then have "list_all (\<lambda>n. is_ok (get n)) names" by (auto simp: list_all_length)
  moreover have "ft_slots st = map (slot_of get) names" using i l by (intro nth_equalityI) auto
  moreover have "List.map_filter (\<lambda>s. s) (map f xs) = List.map_filter f xs" for f :: "string \<Rightarrow> raw_secret option" and xs
    by (induction xs) (auto simp: List.map_filter_simps split: option.split)
  ultimately show ?thesis using False by (simp add: fetch_seq_ok fetch_result_def ctx_done_def)
qed

text \<open>A goroutine that has not left can always go on: the fetch neither blocks nor runs for ever.\<close>

definition fetch_left :: "fetch_state \<Rightarrow> nat" where
  "fetch_left st = 2 * length (ft_waiting st) + length (ft_running st)"

lemma len_remove1: "i \<in> set xs \<Longrightarrow> length xs = Suc (length (remove1 i xs))"
  by (induction xs) auto

lemma fetch_goes_on:
  assumes "\<not> fetch_ended st"
  shows "\<exists>st'. fetch_step get names st st' \<and> fetch_left st' < fetch_left st \<and> ft_caller st' = ft_caller st"
proof (cases "ft_running st")
  case Nil
  then obtain i where "i \<in> set (ft_waiting st)" using assms by (cases "ft_waiting st") (auto simp: fetch_ended_def)
  moreover have "length (ft_running st) < secretFetchConcurrency" using Nil by (simp add: secretFetchConcurrency_def)
  ultimately have "fetch_step get names st (st\<lparr>ft_waiting := remove1 i (ft_waiting st), ft_running := i # ft_running st\<rparr>)"
    by (rule fetch_step.acquire)
  moreover have "length (ft_waiting st) = Suc (length (remove1 i (ft_waiting st)))"
    using \<open>i \<in> set (ft_waiting st)\<close> by (rule len_remove1)
  ultimately show ?thesis
    by (intro exI[where x = "st\<lparr>ft_waiting := remove1 i (ft_waiting st), ft_running := i # ft_running st\<rparr>"])
      (simp add: fetch_left_def)
next
  case (Cons i rest)
  then have i: "i \<in> set (ft_running st)" by simp
  then have l: "fetch_left (leave i st) < fetch_left st" "ft_caller (leave i st) = ft_caller st"
    using len_remove1[OF i] by (simp_all add: fetch_left_def leave_def)
  have same: "fetch_left (s\<lparr>ft_slots := a\<rparr>) = fetch_left s" "fetch_left (s\<lparr>ft_err := b\<rparr>) = fetch_left s" for s a b
    by (simp_all add: fetch_left_def)
  show ?thesis
  proof (cases "get (names ! i)")
    case (Inl err)
    then show ?thesis using fetch_step.failed[OF i, of get names err] l by (fastforce simp: same)
  next
    case (Inr v)
    then show ?thesis using fetch_step.missing[OF i, of get names] fetch_step.found[OF i, of get names] l
      by (cases v) (fastforce simp: same)+
  qed
qed

lemma fetch_shrinks:
  "fetch_step get names st st' \<Longrightarrow> fetch_left st' < fetch_left st \<or> ft_caller st = None \<and> ft_caller st' \<noteq> None"
  by (erule fetch_stepE) (auto simp: fetch_left_def leave_def dest!: len_remove1)

lemma fetch_can_end:
  "\<exists>st'. (fetch_step get names)\<^sup>*\<^sup>* st st' \<and> fetch_ended st' \<and> ft_caller st' = ft_caller st"
proof (induction "fetch_left st" arbitrary: st rule: less_induct)
  case less
  show ?case
  proof (cases "fetch_ended st")
    case False
    then obtain s1 where s1: "fetch_step get names st s1" "fetch_left s1 < fetch_left st" "ft_caller s1 = ft_caller st"
      using fetch_goes_on by blast
    then obtain s2 where "(fetch_step get names)\<^sup>*\<^sup>* s1 s2" "fetch_ended s2" "ft_caller s2 = ft_caller s1"
      using less by blast
    then show ?thesis using s1 by (metis converse_rtranclp_into_rtranclp)
  qed blast
qed

text \<open>
  C12. However the goroutines of a prefix are scheduled, never more than five calls run at a time, and an
  uninterrupted fetch that ends has the result of fetching the secrets one after the other: the whole set in listed
  order, or an error the API gave to one of the names. A fetch the caller cancelled is an error, never a part of the
  set. From every reachable state the fetch can end.
\<close>

theorem fetch_schedules:
  assumes "(fetch_step get names)\<^sup>*\<^sup>* (fetch_init names) st"
  shows "length (ft_running st) \<le> secretFetchConcurrency
   \<and> (if fetch_ended st then if ft_caller st = None then (case fetch_result st of
          Inr out \<Rightarrow> fetch_seq get names = Inr out | Inl err \<Rightarrow> \<exists>n\<in>set names. get n = Inl err)
        else \<exists>err. fetch_result st = Inl err
      else \<exists>st'. fetch_step get names st st' \<and> fetch_left st' < fetch_left st)
   \<and> (\<exists>st'. (fetch_step get names)\<^sup>*\<^sup>* st st' \<and> fetch_ended st' \<and> ft_caller st' = ft_caller st)"
proof -
  have i: "fetch_inv get names st" by (rule fetch_inv_reach[OF assms])
  then have "length (ft_running st) \<le> secretFetchConcurrency" by (simp add: fetch_inv_def)
  then show ?thesis using fetch_ended_result[OF i] fetch_goes_on[of st get names] fetch_can_end[of get names st] by auto
qed

text \<open>
  \<open>fetchPrefix\<close>: a set of secrets for a prefix that ends in a slash, one secret otherwise. The concurrent fetch is
  its sequential specification; of several failing names it reports the first in listed order.
\<close>

definition fetchPrefix :: "'w secrets_api \<Rightarrow> 'w \<Rightarrow> string \<Rightarrow> raw_secret list res" where
  "fetchPrefix api w pre = (if has_suffix pre ''/''
     then (case list_names pre (sa_pages api w pre) of Inl err \<Rightarrow> Inl err | Inr names \<Rightarrow> fetch_seq (getValue api w) names)
     else (case getValue api w pre of Inl err \<Rightarrow> Inl err
       | Inr None \<Rightarrow> Inr []
       | Inr (Some v) \<Rightarrow> Inr [\<lparr>rs_name = pre, rs_value = v\<rparr>]))"

section \<open>Expanding a value\<close>

text \<open>A value of a decoded object: a string, null, or anything else with its compact JSON text.\<close>

datatype jval = JString string | JNull | JOther string

fun scalarToString :: "jval \<Rightarrow> string" where
  "scalarToString (JString s) = s"
| "scalarToString JNull = []"
| "scalarToString (JOther s) = s"

definition expandSecret :: "(string \<Rightarrow> jval smap option) \<Rightarrow> string \<Rightarrow> bool option \<Rightarrow> string smap option res" where
  "expandSecret json val mode = (if mode = Some False then Inr None
     else case json val of
       Some obj \<Rightarrow> Inr (Some (map (\<lambda>(k, v). (k, scalarToString v)) obj))
     | None \<Rightarrow> if mode = Some True then Inl (Text ''value is not a JSON object (json: true requires one)'') else Inr None)"

section \<open>The startup hook\<close>

record secrets_context_params =
  sp_Prefixes :: "string list"
  sp_Namespace :: string
  sp_JSON :: "bool option"

text \<open>\<open>keyTracker.note\<close>: the warning is the key, the first secret and the later one.\<close>

definition note_key :: "string \<Rightarrow> string \<Rightarrow> string smap \<Rightarrow> (string \<times> string \<times> string) list \<times> string smap" where
  "note_key key source t = ((case m_get t key of
      Some prev \<Rightarrow> if prev \<noteq> source then [(key, prev, source)] else [] | None \<Rightarrow> []), m_put key source t)"

record load_state =
  ld_cfg :: deploy_file
  ld_secs :: "string list"
  ld_warns :: "(string \<times> string \<times> string) list"

definition load_value :: "string \<Rightarrow> string \<Rightarrow> string \<Rightarrow> string \<Rightarrow> string smap \<times> load_state \<Rightarrow> string smap \<times> load_state" where
  "load_value ns source k v ts = (case note_key k source (fst ts) of (warns, t) \<Rightarrow>
     (t, (snd ts)\<lparr>ld_cfg := AddImport ns k v (ld_cfg (snd ts)), ld_secs := ld_secs (snd ts) @ [v],
          ld_warns := ld_warns (snd ts) @ warns\<rparr>))"

fun load_secrets :: "(string \<Rightarrow> jval smap option) \<Rightarrow> bool option \<Rightarrow> string \<Rightarrow> raw_secret list
    \<Rightarrow> string smap \<times> load_state \<Rightarrow> goerr option \<times> string smap \<times> load_state" where
  "load_secrets json mode ns [] ts = (None, ts)"
| "load_secrets json mode ns (sec # secs) ts = (case expandSecret json (rs_value sec) mode of
      Inl err \<Rightarrow> (Some (wrapf (''secrets '' @ rs_name sec) err), ts)
    | Inr (Some obj) \<Rightarrow> load_secrets json mode ns secs
        (fold (\<lambda>k. load_value ns (rs_name sec) k (the (m_get obj k))) (sorted_keys obj) ts)
    | Inr None \<Rightarrow> load_secrets json mode ns secs
        (load_value ns (rs_name sec) (LastSegment (rs_name sec)) (rs_value sec) ts))"

fun load_prefixes :: "'w secrets_api \<Rightarrow> (string \<Rightarrow> jval smap option) \<Rightarrow> bool option \<Rightarrow> string \<Rightarrow> 'w \<Rightarrow> string list
    \<Rightarrow> load_state \<Rightarrow> goerr option \<times> load_state" where
  "load_prefixes api json mode ns w [] st = (None, st)"
| "load_prefixes api json mode ns w (pre # ps) st = (case fetchPrefix api w pre of
      Inl err \<Rightarrow> (Some (wrapf (''secrets '' @ pre) err), st)
    | Inr secs \<Rightarrow> (case load_secrets json mode ns secs ([], st) of
          (Some err, _, st1) \<Rightarrow> (Some err, st1)
        | (None, _, st1) \<Rightarrow> load_prefixes api json mode ns w ps st1))"

definition secrets_startup :: "'w secrets_api \<Rightarrow> (string \<Rightarrow> jval smap option) \<Rightarrow> secrets_context_params \<Rightarrow> 'w startup" where
  "secrets_startup api json p cfg w =
     (case load_prefixes api json (sp_JSON p) (or_str ''secrets'' (sp_Namespace p)) w (sp_Prefixes p)
          \<lparr>ld_cfg = cfg, ld_secs = [], ld_warns = []\<rparr> of
        (r, st) \<Rightarrow> (r, ld_cfg st, ld_secs st, w))"

section \<open>The action\<close>

record secrets_env_params =
  se_Prefixes :: "string list"
  se_Path :: string
  se_JSON :: "bool option"
  se_FullKeyPath :: bool
  se_Multiline :: "bool option"

definition obj_vars :: "string smap \<Rightarrow> (string \<times> string) list" where
  "obj_vars obj = map (\<lambda>k. (k, the (m_get obj k))) (sorted_keys obj)"

fun env_secrets :: "(string \<Rightarrow> jval smap option) \<Rightarrow> secrets_env_params \<Rightarrow> raw_secret list \<Rightarrow> string smap
    \<Rightarrow> (string smap \<Rightarrow> 'w prog) \<Rightarrow> 'w prog" where
  "env_secrets json p [] e k = k e"
| "env_secrets json p (sec # secs) e k = (case expandSecret json (rs_value sec) (se_JSON p) of
      Inl err \<Rightarrow> Ret (Some (wrapf (''secrets '' @ rs_name sec) err))
    | Inr (Some obj) \<Rightarrow> put_vars (obj_vars obj) e (\<lambda>e1. env_secrets json p secs e1 k)
    | Inr None \<Rightarrow> put_vars [(if se_FullKeyPath p then rs_name sec else LastSegment (rs_name sec), rs_value sec)] e
        (\<lambda>e1. env_secrets json p secs e1 k))"

fun env_prefixes :: "'w secrets_api \<Rightarrow> (string \<Rightarrow> jval smap option) \<Rightarrow> secrets_env_params \<Rightarrow> string list \<Rightarrow> string smap
    \<Rightarrow> (string smap \<Rightarrow> 'w prog) \<Rightarrow> 'w prog" where
  "env_prefixes api json p [] e k = k e"
| "env_prefixes api json p (pre # ps) e k = World (\<lambda>w. (case fetchPrefix api w pre of
      Inl err \<Rightarrow> Ret (Some (wrapf (''secrets '' @ pre) err))
    | Inr secs \<Rightarrow> env_secrets json p secs e (\<lambda>e1. env_prefixes api json p ps e1 k), w))"

definition secrets_runEnvironmentFile :: "(yval smap \<Rightarrow> secrets_env_params res) \<Rightarrow> yval smap \<Rightarrow> 'w secrets_api
    \<Rightarrow> (string \<Rightarrow> jval smap option) \<Rightarrow> 'w operator_fs \<Rightarrow> bool \<Rightarrow> 'w action" where
  "secrets_runEnvironmentFile decode defaults api json fs host_writer raw = (case DecodeFeature decode defaults raw of
      Inl err \<Rightarrow> Ret (Some (wrapf ''aws:secrets:to-dotenv params'' err))
    | Inr p \<Rightarrow>
        if se_Prefixes p = [] then Ret (Some (Text (''aws:secrets:to-dotenv: '' @ [sq] @ ''prefixes'' @ [sq] @ '' is required'')))
        else if se_Path p = [] then Ret (Some (Text (''aws:secrets:to-dotenv: '' @ [sq] @ ''path'' @ [sq] @ '' is required'')))
        else env_prefixes api json p (se_Prefixes p) []
          (\<lambda>e. envfile_Write fs host_writer (se_Path p) (Render_dotenv e (or_default (se_Multiline p) True))))"

section \<open>Registration\<close>

text \<open>
  The decodings the plugin asks for: the strict one that only rejects unknown keys, and those of its two
  parameter structs.
\<close>

record secrets_decoders =
  sdc_strict :: "yval smap \<Rightarrow> goerr option"
  sdc_context :: "yval smap \<Rightarrow> secrets_context_params res"
  sdc_env :: "yval smap \<Rightarrow> secrets_env_params res"

definition secrets_Feature :: string where "secrets_Feature = ''aws:secrets''"

definition secrets_Register :: "secrets_decoders \<Rightarrow> 'w secrets_api \<Rightarrow> (string \<Rightarrow> jval smap option) \<Rightarrow> 'w operator_fs \<Rightarrow> bool
    \<Rightarrow> yval smap smap \<Rightarrow> 'w plugin_registry \<Rightarrow> goerr option \<times> 'w plugin_registry" where
  "secrets_Register dec api json fs host_writer fp reg =
     (case AddAction (secrets_Feature @ '':to-dotenv'')
          (secrets_runEnvironmentFile (sdc_env dec) (or_default (m_get fp secrets_Feature) []) api json fs host_writer) reg of
        (Some err, reg1) \<Rightarrow> (Some err, reg1)
      | (None, reg1) \<Rightarrow> (case m_get fp secrets_Feature of
          None \<Rightarrow> (None, reg1)
        | Some cfg \<Rightarrow> (case sdc_strict dec cfg of
            Some err \<Rightarrow> (Some (wrapf (secrets_Feature @ '' params'') err), reg1)
          | None \<Rightarrow> (case sdc_context dec cfg of
              Inl err \<Rightarrow> (Some err, reg1)
            | Inr cp \<Rightarrow> (None, if sp_Prefixes cp \<noteq> [] then AddStartup (secrets_startup api json cp) reg1 else reg1)))))"

section \<open>What is imported\<close>

text \<open>The variables a secret stands for, and those a run takes from a prefix: up to a secret it cannot expand.\<close>

definition sec_ok :: "(string \<Rightarrow> jval smap option) \<Rightarrow> bool option \<Rightarrow> raw_secret \<Rightarrow> bool" where
  "sec_ok json mode sec \<longleftrightarrow> is_ok (expandSecret json (rs_value sec) mode)"

definition sec_vars :: "(string \<Rightarrow> jval smap option) \<Rightarrow> bool option \<Rightarrow> bool \<Rightarrow> raw_secret \<Rightarrow> (string \<times> string) list" where
  "sec_vars json mode full sec = (case expandSecret json (rs_value sec) mode of
      Inr (Some obj) \<Rightarrow> obj_vars obj
    | _ \<Rightarrow> [(if full then rs_name sec else LastSegment (rs_name sec), rs_value sec)])"

definition fetched :: "'w secrets_api \<Rightarrow> 'w \<Rightarrow> string \<Rightarrow> raw_secret list" where
  "fetched api w pre = (case fetchPrefix api w pre of Inl _ \<Rightarrow> [] | Inr secs \<Rightarrow> secs)"

definition prefix_ok :: "'w secrets_api \<Rightarrow> (string \<Rightarrow> jval smap option) \<Rightarrow> bool option \<Rightarrow> 'w \<Rightarrow> string \<Rightarrow> bool" where
  "prefix_ok api json mode w pre \<longleftrightarrow> is_ok (fetchPrefix api w pre) \<and> list_all (sec_ok json mode) (fetched api w pre)"

definition prefix_vars :: "'w secrets_api \<Rightarrow> (string \<Rightarrow> jval smap option) \<Rightarrow> bool option \<Rightarrow> bool \<Rightarrow> 'w \<Rightarrow> string
    \<Rightarrow> (string \<times> string) list" where
  "prefix_vars api json mode full w pre
    = concat (map (sec_vars json mode full) (takeWhile (sec_ok json mode) (fetched api w pre)))"

definition all_vars :: "'w secrets_api \<Rightarrow> (string \<Rightarrow> jval smap option) \<Rightarrow> bool option \<Rightarrow> bool \<Rightarrow> 'w \<Rightarrow> string list
    \<Rightarrow> (string \<times> string) list" where
  "all_vars api json mode full w ps = concat (map (prefix_vars api json mode full w) (reached (prefix_ok api json mode w) ps))"

definition took :: "string \<Rightarrow> (string \<times> string) list \<Rightarrow> load_state \<Rightarrow> load_state \<Rightarrow> bool" where
  "took ns kvs st st' \<longleftrightarrow> ld_cfg st' = put_imports ns kvs (ld_cfg st) \<and> ld_secs st' = ld_secs st @ map snd kvs"

lemma took_Nil [simp]: "took ns [] st st" by (simp add: took_def)

lemma took_trans: "took ns a s t \<Longrightarrow> took ns b t u \<Longrightarrow> took ns (a @ b) s u" by (simp add: took_def)

lemma took_value: "took ns [(k, v)] (snd ts) (snd (load_value ns source k v ts))"
  by (simp add: took_def load_value_def put_imports_def split: prod.split)

lemma took_obj: "took ns kvs (snd ts) (snd (fold (\<lambda>(k, v). load_value ns source k v) kvs ts))"
proof (induction kvs arbitrary: ts)
  case (Cons kv kvs)
  obtain k v where kv: "kv = (k, v)" by fastforce
  show ?case using took_trans[OF took_value Cons.IH[of "load_value ns source k v ts"]] by (simp add: kv)
qed simp

lemma fold_obj: "fold (\<lambda>k. f k (the (m_get obj k))) (sorted_keys obj) = fold (\<lambda>(k, v). f k v) (obj_vars obj)"
  by (simp add: obj_vars_def fold_map o_def)

lemma load_secrets_took:
  "took ns (concat (map (sec_vars json mode False) (takeWhile (sec_ok json mode) secs))) (snd ts)
      (snd (snd (load_secrets json mode ns secs ts)))
   \<and> (fst (load_secrets json mode ns secs ts) = None \<longleftrightarrow> list_all (sec_ok json mode) secs)"
proof (induction secs arbitrary: ts)
  case (Cons sec secs)
  show ?case
  proof (cases "expandSecret json (rs_value sec) mode")
    case (Inl err)
    then show ?thesis by (simp add: sec_ok_def is_ok_def)
  next
    case (Inr o')
    define ts1 where "ts1 = (case o' of Some obj \<Rightarrow> fold (\<lambda>(k, v). load_value ns (rs_name sec) k v) (obj_vars obj) ts
      | None \<Rightarrow> load_value ns (rs_name sec) (LastSegment (rs_name sec)) (rs_value sec) ts)"
    have l: "load_secrets json mode ns (sec # secs) ts = load_secrets json mode ns secs ts1"
      using Inr by (simp add: ts1_def fold_obj split: option.split)
    have "took ns (sec_vars json mode False sec) (snd ts) (snd ts1)"
      using Inr took_obj took_value by (cases o') (simp_all add: ts1_def sec_vars_def)
    then show ?thesis unfolding l using took_trans Cons.IH[of ts1] Inr by (auto simp: sec_ok_def is_ok_def)
  qed
qed simp

lemma load_prefixes_took:
  "took ns (all_vars api json mode False w ps) st (snd (load_prefixes api json mode ns w ps st))
   \<and> (fst (load_prefixes api json mode ns w ps st) = None \<longleftrightarrow> list_all (prefix_ok api json mode w) ps)"
proof (induction ps arbitrary: st)
  case Nil
  show ?case by (simp add: all_vars_def)
next
  case (Cons pre ps)
  show ?case
  proof (cases "fetchPrefix api w pre")
    case (Inl err)
    then show ?thesis by (simp add: all_vars_def prefix_ok_def is_ok_def prefix_vars_def fetched_def)
  next
    case (Inr secs)
    obtain r t st1 where l: "load_secrets json mode ns secs ([], st) = (r, t, st1)" by (metis prod_cases3)
    have v: "prefix_vars api json mode False w pre = concat (map (sec_vars json mode False) (takeWhile (sec_ok json mode) secs))"
      using Inr by (simp add: prefix_vars_def fetched_def)
    have t: "took ns (prefix_vars api json mode False w pre) st st1" "r = None \<longleftrightarrow> prefix_ok api json mode w pre"
      using load_secrets_took[of ns json mode secs "([], st)"] Inr
      by (simp_all add: l v prefix_ok_def is_ok_def fetched_def)
    show ?thesis
    proof (cases r)
      case None
      then show ?thesis using Inr l t took_trans[OF t(1)] Cons.IH[of st1] by (simp add: all_vars_def)
    next
      case (Some err)
      then show ?thesis using Inr l t by (simp add: all_vars_def)
    qed
  qed
qed

lemma secrets_startup_eq:
  "secrets_startup api json p cfg w = (fst (secrets_startup api json p cfg w),
     put_imports (or_str ''secrets'' (sp_Namespace p)) (all_vars api json (sp_JSON p) False w (sp_Prefixes p)) cfg,
     map snd (all_vars api json (sp_JSON p) False w (sp_Prefixes p)), w)"
  "fst (secrets_startup api json p cfg w) = None \<longleftrightarrow> list_all (prefix_ok api json (sp_JSON p) w) (sp_Prefixes p)"
  using load_prefixes_took[of "or_str ''secrets'' (sp_Namespace p)" api json "sp_JSON p" w "sp_Prefixes p"
      "\<lparr>ld_cfg = cfg, ld_secs = [], ld_warns = []\<rparr>"]
  by (auto simp: secrets_startup_def took_def split: prod.split)

lemma secrets_startup_imports: "secrets_startup api json p cfg w = (r, cfg', secs, w') \<Longrightarrow> imports_ok cfg cfg' secs"
  using secrets_startup_eq(1)[of api json p cfg w] imports_ok_put by (metis prod.inject)

interpretation secrets_hook: only_imports "secrets_startup api json p" for api json p
  by unfold_locales (use secrets_startup_imports[of api json p] in \<open>auto simp: imports_ok_def\<close>)

text \<open>
  The startup hook imports exactly the variables of the secrets its prefixes name, in the order of the
  prefixes, of the listing and of the keys of an object, so a later one wins; each of them is registered for masking.
  It succeeds exactly when every prefix was fetched whole and every value expands; otherwise it stops
  there, and what it imported up to that point is registered as well.
\<close>

theorem secrets_startup_spec:
  "secrets_startup api json p cfg w = (r, cfg', secs, w') \<Longrightarrow>
     (let vars = all_vars api json (sp_JSON p) False w (sp_Prefixes p) in
       cfg' = put_imports (or_str ''secrets'' (sp_Namespace p)) vars cfg \<and> secs = map snd vars \<and> w' = w
       \<and> (r = None \<longleftrightarrow> list_all (prefix_ok api json (sp_JSON p) w) (sp_Prefixes p)))"
  using secrets_startup_eq[of api json p cfg w] by (simp add: Let_def)

section \<open>Concrete secrets\<close>

definition one_of_two :: "string \<Rightarrow> goerr + string option" where
  "one_of_two n = (if n = ''/a/x'' then Inr (Some ''v'') else Inr None)"

lemma fetch_schedules_witness:
  "\<exists>st. (fetch_step one_of_two [''/a/x'', ''/a/y''])\<^sup>*\<^sup>* (fetch_init [''/a/x'', ''/a/y'']) st \<and> fetch_ended st
     \<and> (case fetch_result st of Inr out \<Rightarrow> fetch_seq one_of_two [''/a/x'', ''/a/y''] = Inr out
        | Inl err \<Rightarrow> \<exists>n\<in>set [''/a/x'', ''/a/y'']. one_of_two n = Inl err)"
proof -
  let ?ns = "[''/a/x'', ''/a/y'']"
  have "(fetch_step one_of_two ?ns)\<^sup>*\<^sup>* (fetch_init ?ns) (fetch_init ?ns)" by simp
  from fetch_schedules[OF this] obtain st where
    st: "(fetch_step one_of_two ?ns)\<^sup>*\<^sup>* (fetch_init ?ns) st" "fetch_ended st" "ft_caller st = ft_caller (fetch_init ?ns)"
    by blast
  have c: "ft_caller st = None" using st(3) by (simp add: fetch_init_def)
  from fetch_schedules[OF st(1)] show ?thesis using st(1,2) c by (intro exI[of _ st]) (simp only: if_True)
qed

definition two_secrets :: "nat secrets_api" where
  "two_secrets = \<lparr>sa_pages = (\<lambda>w pre. [Inr [Some ''/a/x'', Some ''/a/y'', Some ''/b/z'']]),
     sa_get = (\<lambda>w n. if n = ''/a/x'' then Answer (Some ''obj'') None else Answer (Some ''v'') None)\<rparr>"

definition obj_json :: "string \<Rightarrow> jval smap option" where
  "obj_json s = (if s = ''obj'' then Some [(''user'', JString ''u''), (''port'', JOther ''5'')] else None)"

definition demo_sp :: secrets_context_params where
  "demo_sp = \<lparr>sp_Prefixes = [''/a/''], sp_Namespace = [], sp_JSON = None\<rparr>"

lemma secrets_startup_spec_witness:
  "secrets_startup two_secrets obj_json demo_sp zero_cfg 0
     = (None, put_imports ''secrets'' [(''port'', ''5''), (''user'', ''u''), (''y'', ''v'')] zero_cfg, [''5'', ''u'', ''v''], 0)"
proof -
  obtain r cfg' secs w' where s: "secrets_startup two_secrets obj_json demo_sp zero_cfg 0 = (r, cfg', secs, w')" by (metis prod_cases4)
  have v: "all_vars two_secrets obj_json (sp_JSON demo_sp) False 0 (sp_Prefixes demo_sp) = [(''port'', ''5''), (''user'', ''u''), (''y'', ''v'')]"
    "list_all (prefix_ok two_secrets obj_json (sp_JSON demo_sp) 0) (sp_Prefixes demo_sp)"
    "or_str ''secrets'' (sp_Namespace demo_sp) = ''secrets''" by code_simp+
  show ?thesis using secrets_startup_spec[OF s] v s by (simp add: Let_def)
qed

end
