(* ===== verification/Ssm.thy ===== *)
theory Ssm
  imports Import_Hooks
begin

text \<open>
  The Parameter Store plugin (\<open>plugins/aws/ssm/store.go\<close>): the parameters under a path, the import into
  the template context when the configuration loads, and the action that writes them to a dotenv file.
  The API calls only read; their answers are functions of the world.
\<close>

datatype param_answer = ParamNotFound goerr | ParamFailed goerr | Param "string option" "string option"

record 'w ssm_api =
  ss_pages :: "'w \<Rightarrow> string \<Rightarrow> bool \<Rightarrow> bool \<Rightarrow> (goerr + (string option \<times> string option) list) list"
  ss_get :: "'w \<Rightarrow> string \<Rightarrow> bool \<Rightarrow> param_answer"

fun page_params :: "(goerr + (string option \<times> string option) list) list \<Rightarrow> string smap \<Rightarrow> string smap res" where
  "page_params [] out = Inr out"
| "page_params (Inl err # ps) out = Inl err"
| "page_params (Inr prms # ps) out
     = page_params ps (fold (\<lambda>(n, v). m_put (or_default n []) (or_default v [])) prms out)"

definition ssm_fetchPrefix :: "'w ssm_api \<Rightarrow> 'w \<Rightarrow> string \<Rightarrow> bool \<Rightarrow> bool \<Rightarrow> string smap res" where
  "ssm_fetchPrefix api w pre recursive decrypt = (if has_suffix pre ''/''
     then page_params (ss_pages api w (trim_right (\<lambda>c. c = CHR ''/'') pre) recursive decrypt) []
     else (case ss_get api w pre decrypt of
         ParamNotFound err \<Rightarrow> Inr []
       | ParamFailed err \<Rightarrow> Inl err
       | Param n v \<Rightarrow> Inr (m_put (or_default n []) (or_default v []) [])))"

text \<open>The names in order, each with its key.\<close>

definition uniqueKeys :: "string smap \<Rightarrow> (string \<Rightarrow> string) \<Rightarrow> (string \<times> string) list" where
  "uniqueKeys params keyOf = map (\<lambda>name. (name, keyOf name)) (sorted_keys params)"

text \<open>The warnings it logs: a key, the name that had it and the later one that takes it.\<close>

fun key_clashes :: "(string \<times> string) list \<Rightarrow> string smap \<Rightarrow> (string \<times> string \<times> string) list" where
  "key_clashes [] seen = []"
| "key_clashes ((name, key) # nks) seen = (case m_get seen key of Some prev \<Rightarrow> [(key, prev, name)] | None \<Rightarrow> [])
     @ key_clashes nks (m_put key name seen)"

section \<open>The startup hook\<close>

record ssm_context_params =
  mp_Prefixes :: "string list"
  mp_Namespace :: string
  mp_Recursive :: "bool option"
  mp_Decrypt :: "bool option"

definition ssm_load :: "string \<Rightarrow> string smap \<Rightarrow> deploy_file \<times> string list \<Rightarrow> deploy_file \<times> string list" where
  "ssm_load ns params = fold (\<lambda>(name, key) (cfg, secs).
     (AddImport ns key (the (m_get params name)) cfg, secs @ [the (m_get params name)])) (uniqueKeys params LastSegment)"

fun ssm_load_prefixes :: "'w ssm_api \<Rightarrow> bool \<Rightarrow> bool \<Rightarrow> string \<Rightarrow> 'w \<Rightarrow> string list \<Rightarrow> deploy_file \<times> string list
    \<Rightarrow> goerr option \<times> deploy_file \<times> string list" where
  "ssm_load_prefixes api walk dec ns w [] st = (None, st)"
| "ssm_load_prefixes api walk dec ns w (pre # ps) st = (case ssm_fetchPrefix api w pre walk dec of
      Inl err \<Rightarrow> (Some (wrapf (''ssm '' @ pre) err), st)
    | Inr params \<Rightarrow> ssm_load_prefixes api walk dec ns w ps (ssm_load ns params st))"

definition ssm_startup :: "'w ssm_api \<Rightarrow> ssm_context_params \<Rightarrow> 'w startup" where
  "ssm_startup api p cfg w = (case ssm_load_prefixes api (or_default (mp_Recursive p) True) (or_default (mp_Decrypt p) True)
       (or_str ''ssm'' (mp_Namespace p)) w (mp_Prefixes p) (cfg, []) of (r, cfg', secs) \<Rightarrow> (r, cfg', secs, w))"

section \<open>The action\<close>

record ssm_env_params =
  me_Prefixes :: "string list"
  me_Path :: string
  me_Recursive :: "bool option"
  me_Decrypt :: "bool option"
  me_FullKeyPath :: bool
  me_Multiline :: "bool option"

definition ssm_vars :: "bool \<Rightarrow> string smap \<Rightarrow> (string \<times> string) list" where
  "ssm_vars full params = map (\<lambda>(name, key). (key, the (m_get params name)))
     (uniqueKeys params (if full then (\<lambda>n. n) else LastSegment))"

fun ssm_env_prefixes :: "'w ssm_api \<Rightarrow> ssm_env_params \<Rightarrow> string list \<Rightarrow> string smap \<Rightarrow> (string smap \<Rightarrow> 'w prog) \<Rightarrow> 'w prog" where
  "ssm_env_prefixes api p [] e k = k e"
| "ssm_env_prefixes api p (pre # ps) e k = World (\<lambda>w.
     (case ssm_fetchPrefix api w pre (or_default (me_Recursive p) True) (or_default (me_Decrypt p) True) of
        Inl err \<Rightarrow> Ret (Some (wrapf (''ssm '' @ pre) err))
      | Inr params \<Rightarrow> put_vars (ssm_vars (me_FullKeyPath p) params) e (\<lambda>e1. ssm_env_prefixes api p ps e1 k), w))"

definition ssm_runEnvironmentFile :: "(yval smap \<Rightarrow> ssm_env_params res) \<Rightarrow> yval smap \<Rightarrow> 'w ssm_api
    \<Rightarrow> 'w operator_fs \<Rightarrow> bool \<Rightarrow> 'w action" where
  "ssm_runEnvironmentFile decode defaults api fs host_writer raw = (case DecodeFeature decode defaults raw of
      Inl err \<Rightarrow> Ret (Some (wrapf ''aws:ssm:to-dotenv params'' err))
    | Inr p \<Rightarrow>
        if me_Prefixes p = [] then Ret (Some (Text (''aws:ssm:to-dotenv: '' @ [sq] @ ''prefixes'' @ [sq] @ '' is required'')))
        else if me_Path p = [] then Ret (Some (Text (''aws:ssm:to-dotenv: '' @ [sq] @ ''path'' @ [sq] @ '' is required'')))
        else ssm_env_prefixes api p (me_Prefixes p) []
          (\<lambda>e. envfile_Write fs host_writer (me_Path p) (Render_dotenv e (or_default (me_Multiline p) True))))"

section \<open>Registration\<close>

record ssm_decoders =
  mdc_strict :: "yval smap \<Rightarrow> goerr option"
  mdc_context :: "yval smap \<Rightarrow> ssm_context_params res"
  mdc_env :: "yval smap \<Rightarrow> ssm_env_params res"

definition ssm_Feature :: string where "ssm_Feature = ''aws:ssm''"

definition ssm_Register :: "ssm_decoders \<Rightarrow> 'w ssm_api \<Rightarrow> 'w operator_fs \<Rightarrow> bool
    \<Rightarrow> yval smap smap \<Rightarrow> 'w plugin_registry \<Rightarrow> goerr option \<times> 'w plugin_registry" where
  "ssm_Register dec api fs host_writer fp reg =
     (case AddAction (ssm_Feature @ '':to-dotenv'')
          (ssm_runEnvironmentFile (mdc_env dec) (or_default (m_get fp ssm_Feature) []) api fs host_writer) reg of
        (Some err, reg1) \<Rightarrow> (Some err, reg1)
      | (None, reg1) \<Rightarrow> (case m_get fp ssm_Feature of
          None \<Rightarrow> (None, reg1)
        | Some cfg \<Rightarrow> (case mdc_strict dec cfg of
            Some err \<Rightarrow> (Some (wrapf (ssm_Feature @ '' params'') err), reg1)
          | None \<Rightarrow> (case mdc_context dec cfg of
              Inl err \<Rightarrow> (Some err, reg1)
            | Inr cp \<Rightarrow> (None, if mp_Prefixes cp \<noteq> [] then AddStartup (ssm_startup api cp) reg1 else reg1)))))"

section \<open>What is imported\<close>

definition ssm_prefix_vars :: "'w ssm_api \<Rightarrow> bool \<Rightarrow> bool \<Rightarrow> bool \<Rightarrow> 'w \<Rightarrow> string \<Rightarrow> (string \<times> string) list" where
  "ssm_prefix_vars api full walk dec w pre = (case ssm_fetchPrefix api w pre walk dec of Inl _ \<Rightarrow> [] | Inr params \<Rightarrow> ssm_vars full params)"

definition ssm_ok :: "'w ssm_api \<Rightarrow> bool \<Rightarrow> bool \<Rightarrow> 'w \<Rightarrow> string \<Rightarrow> bool" where
  "ssm_ok api walk dec w pre \<longleftrightarrow> is_ok (ssm_fetchPrefix api w pre walk dec)"

definition ssm_all_vars :: "'w ssm_api \<Rightarrow> bool \<Rightarrow> bool \<Rightarrow> bool \<Rightarrow> 'w \<Rightarrow> string list \<Rightarrow> (string \<times> string) list" where
  "ssm_all_vars api full walk dec w ps = concat (map (ssm_prefix_vars api full walk dec w) (reached (ssm_ok api walk dec w) ps))"

lemma ssm_load_eq: "ssm_load ns params (cfg, secs)
    = (put_imports ns (ssm_vars False params) cfg, secs @ map snd (ssm_vars False params))"
proof -
  have "fold (\<lambda>(name, key) (cfg, secs). (AddImport ns key (f name) cfg, secs @ [f name])) nks (cfg, secs)
      = (put_imports ns (map (\<lambda>(name, key). (key, f name)) nks) cfg, secs @ map snd (map (\<lambda>(name, key). (key, f name)) nks))" for f nks
    by (induction nks arbitrary: cfg secs) (auto simp: put_imports_def)
  then show ?thesis unfolding ssm_load_def ssm_vars_def if_False .
qed

lemma ssm_load_prefixes_eq:
  "ssm_load_prefixes api walk dec ns w ps (cfg, secs)
    = (fst (ssm_load_prefixes api walk dec ns w ps (cfg, secs)), put_imports ns (ssm_all_vars api False walk dec w ps) cfg,
       secs @ map snd (ssm_all_vars api False walk dec w ps))
   \<and> (fst (ssm_load_prefixes api walk dec ns w ps (cfg, secs)) = None \<longleftrightarrow> list_all (ssm_ok api walk dec w) ps)"
proof (induction ps arbitrary: cfg secs)
  case (Cons pre ps)
  show ?case
  proof (cases "ssm_fetchPrefix api w pre walk dec")
    case (Inl err)
    then show ?thesis by (simp add: ssm_all_vars_def ssm_ok_def is_ok_def ssm_prefix_vars_def)
  next
    case (Inr params)
    then show ?thesis
      using Cons.IH[of "put_imports ns (ssm_vars False params) cfg" "secs @ map snd (ssm_vars False params)"]
      by (simp add: ssm_load_eq ssm_all_vars_def ssm_ok_def is_ok_def ssm_prefix_vars_def)
  qed
qed (simp add: ssm_all_vars_def)

definition hook_vars :: "'w ssm_api \<Rightarrow> ssm_context_params \<Rightarrow> 'w \<Rightarrow> (string \<times> string) list" where
  "hook_vars api p w = ssm_all_vars api False (or_default (mp_Recursive p) True) (or_default (mp_Decrypt p) True) w (mp_Prefixes p)"

lemma ssm_startup_eq:
  "ssm_startup api p cfg w = (fst (ssm_startup api p cfg w),
     put_imports (or_str ''ssm'' (mp_Namespace p)) (hook_vars api p w) cfg, map snd (hook_vars api p w), w)"
  "fst (ssm_startup api p cfg w) = None \<longleftrightarrow>
     list_all (ssm_ok api (or_default (mp_Recursive p) True) (or_default (mp_Decrypt p) True) w) (mp_Prefixes p)"
  using ssm_load_prefixes_eq[of api "or_default (mp_Recursive p) True" "or_default (mp_Decrypt p) True"
      "or_str ''ssm'' (mp_Namespace p)" w "mp_Prefixes p" cfg "[]"]
  by (auto simp: ssm_startup_def hook_vars_def split: prod.split)

lemma ssm_startup_imports: "ssm_startup api p cfg w = (r, cfg', secs, w') \<Longrightarrow> imports_ok cfg cfg' secs"
  using ssm_startup_eq(1)[of api p cfg w] imports_ok_put by (metis prod.inject)

interpretation ssm_hook: only_imports "ssm_startup api p" for api p
  by unfold_locales (use ssm_startup_imports[of api p] in \<open>auto simp: imports_ok_def\<close>)

end
