(* ===== verification/Credentials.thy ===== *)
theory Credentials
  imports Import_Hooks
begin

text \<open>
  Where the aws plugin takes its credentials from (\<open>plugins/aws/credentials.go\<close>): static parameters, a
  file, a URL, the instance metadata of a host reached over SSH, or the default chain of the SDK.

  Reading a file, HTTP, SSH, YAML and JSON decoding and the SDK are the fields of \<open>cred_env\<close>. Every
  function returns the values it registered for masking.
\<close>

record credentials_host =
  ch_Host :: string
  ch_User :: string
  ch_Port :: int
  ch_IdentityFile :: string
  ch_StrictHostKey :: "bool option"
  ch_AcceptNew :: "bool option"
  ch_KnownHostsFile :: string

record aws_config =
  ac_Region :: string
  ac_Profile :: string
  ac_AccessKeyID :: string
  ac_SecretAccessKey :: string
  ac_SessionToken :: string
  ac_CredentialsFile :: string
  ac_CredentialsURL :: string
  ac_CredentialsToken :: string
  ac_CredentialsFromHost :: "credentials_host option"

record credentials_file =
  cf_AccessKeyID :: string
  cf_SecretAccessKey :: string
  cf_SessionToken :: string
  cf_DefaultRegion :: string
  cf_Region :: string

text \<open>The decoded body of the metadata service; no expiration is the zero time.\<close>

record imds_body =
  ib_AccessKeyID :: string
  ib_SecretAccessKey :: string
  ib_Token :: string
  ib_Expiration :: "int option"

record imds_creds =
  ic_AccessKeyID :: string
  ic_SecretAccessKey :: string
  ic_SessionToken :: string
  ic_Region :: string
  ic_Expires :: "int option"

record sdk_creds =
  sdk_AccessKeyID :: string
  sdk_SecretAccessKey :: string
  sdk_SessionToken :: string
  sdk_Source :: string
  sdk_CanExpire :: bool
  sdk_Expires :: "int option"

text \<open>A provider is the SDK's static one, or the cached one that reads from a host.\<close>

datatype provider = StaticProvider string string string | HostProvider imds_creds credentials_host

record dial_target =
  dt_Host :: string
  dt_Port :: int
  dt_User :: string
  dt_IdentityFile :: string

record dial_options =
  do_StrictHostKey :: bool
  do_AcceptNew :: bool
  do_KnownHostsFile :: string

datatype load_option = WithRegion string | WithCredentialsProvider provider | WithSharedConfigProfile string

record ('c, 's, 'w) cred_env =
  ce_ReadFile :: "string \<Rightarrow> 'w \<Rightarrow> string res"
  ce_yaml :: "string \<Rightarrow> credentials_file res"
  ce_NewRequest :: "string \<Rightarrow> goerr option"
  ce_Do :: "string \<Rightarrow> string smap \<Rightarrow> 'w \<Rightarrow> (goerr + int \<times> string res) \<times> 'w"
  ce_Dial :: "dial_target \<Rightarrow> dial_options \<Rightarrow> 'w \<Rightarrow> 'c res \<times> 'w"
  ce_Run :: "'c \<Rightarrow> string \<Rightarrow> 'w \<Rightarrow> (goerr option \<times> string \<times> string) \<times> 'w"
  ce_Close :: "'c \<Rightarrow> 'w \<Rightarrow> 'w"
  ce_json :: "string \<Rightarrow> imds_body res"
  ce_LoadDefaultConfig :: "load_option list \<Rightarrow> 'w \<Rightarrow> 's res \<times> 'w"

type_synonym ('a, 'w) secret_io = "'a res \<times> string list \<times> 'w"

section \<open>Files and URLs\<close>

definition cf_provider :: "credentials_file \<Rightarrow> provider" where
  "cf_provider f = StaticProvider (cf_AccessKeyID f) (cf_SecretAccessKey f) (cf_SessionToken f)"

definition cf_region :: "credentials_file \<Rightarrow> string" where
  "cf_region f = (if cf_DefaultRegion f \<noteq> [] then cf_DefaultRegion f else cf_Region f)"

definition parseCredentials :: "('c, 's, 'w) cred_env \<Rightarrow> string \<Rightarrow> string \<Rightarrow> credentials_file res \<times> string list" where
  "parseCredentials ce data source = (case ce_yaml ce data of
      Inl err \<Rightarrow> (Inl (wrapf (''aws: parse credentials '' @ source) err), [])
    | Inr f \<Rightarrow>
        if cf_AccessKeyID f = [] \<or> cf_SecretAccessKey f = []
        then (Inl (Text (''aws: credentials '' @ source @ '' missing aws_access_key_id/aws_secret_access_key'')), [])
        else (Inr f, [cf_SecretAccessKey f, cf_SessionToken f]))"

definition readCredentialsFile :: "('c, 's, 'w) cred_env \<Rightarrow> string \<Rightarrow> 'w \<Rightarrow> credentials_file res \<times> string list" where
  "readCredentialsFile ce path w = (case ce_ReadFile ce path w of
      Inl err \<Rightarrow> (Inl (wrapf (''aws: read credentials file '' @ quoted path) err), [])
    | Inr data \<Rightarrow> parseCredentials ce data path)"

definition body_limit :: nat where "body_limit = 1048576"

definition fetchCredentialsURL :: "('c, 's, 'w) cred_env \<Rightarrow> string \<Rightarrow> string \<Rightarrow> 'w \<Rightarrow> (credentials_file, 'w) secret_io" where
  "fetchCredentialsURL ce url token w = (case ce_NewRequest ce url of
      Some err \<Rightarrow> (Inl (wrapf ''aws: credentials url'' err), [], w)
    | None \<Rightarrow> (case ce_Do ce url (if token \<noteq> [] then [(''Authorization'', ''token '' @ token)] else []) w of
        (Inl err, w1) \<Rightarrow> (Inl (wrapf ''aws: fetch credentials url'' err), [], w1)
      | (Inr (status, body), w1) \<Rightarrow>
          if status \<noteq> 200 then (Inl (Text (''aws: credentials url returned status '' @ itoa status)), [], w1)
          else (case body of
              Inl err \<Rightarrow> (Inl (wrapf ''aws: read credentials url body'' err), [], w1)
            | Inr data \<Rightarrow> (case parseCredentials ce (take body_limit data) ''url'' of (r, secs) \<Rightarrow> (r, secs, w1)))))"

section \<open>Instance metadata\<close>

definition ic_aws :: "imds_creds \<Rightarrow> sdk_creds" where
  "ic_aws c = \<lparr>sdk_AccessKeyID = ic_AccessKeyID c, sdk_SecretAccessKey = ic_SecretAccessKey c,
     sdk_SessionToken = ic_SessionToken c, sdk_Source = ''whoosh credentials_from_host'',
     sdk_CanExpire = (ic_Expires c \<noteq> None), sdk_Expires = ic_Expires c\<rparr>"

definition sshRunner :: "('c, 's, 'w) cred_env \<Rightarrow> 'c \<Rightarrow> string \<Rightarrow> 'w \<Rightarrow> string res \<times> 'w" where
  "sshRunner ce conn cmd w = (case ce_Run ce conn cmd w of
      ((Some err, out, errb), w1) \<Rightarrow> (let msg = trim_space errb in
        (Inl (if msg \<noteq> [] then Wrap [] err ('': '' @ msg) else err), w1))
    | ((None, out, errb), w1) \<Rightarrow> (Inr (trim_space out), w1))"

definition imdsBase :: string where "imdsBase = ''http://169.254.169.254/latest''"

definition imdsCurl :: string where "imdsCurl = ''curl -sSf --connect-timeout 2 --max-time 10''"

definition runNonEmpty :: "(string \<Rightarrow> 'w \<Rightarrow> string res \<times> 'w) \<Rightarrow> string \<Rightarrow> string \<Rightarrow> 'w \<Rightarrow> string res \<times> 'w" where
  "runNonEmpty run what cmd w = (case run cmd w of
      (Inl err, w1) \<Rightarrow> (Inl (wrapf what err), w1)
    | (Inr v, w1) \<Rightarrow> if v = [] then (Inl (Text (what @ '': empty response'')), w1) else (Inr v, w1))"

definition imds_token_cmd :: string where
  "imds_token_cmd = imdsCurl @ '' -X PUT '' @ [sq] @ imdsBase @ ''/api/token'' @ [sq] @ '' -H '' @ [sq]
     @ ''X-aws-ec2-metadata-token-ttl-seconds: 21600'' @ [sq]"

definition imds_cmd :: "string \<Rightarrow> string \<Rightarrow> string" where
  "imds_cmd token path = imdsCurl @ '' -H '' @ [sq] @ ''X-aws-ec2-metadata-token: '' @ token @ [sq] @ '' '' @ imdsBase @ path"

definition imds_creds_of :: "('c, 's, 'w) cred_env \<Rightarrow> string \<Rightarrow> string \<Rightarrow> imds_creds res \<times> string list" where
  "imds_creds_of ce region body = (case ce_json ce body of
      Inl err \<Rightarrow> (Inl (wrapf ''parse IAM role credentials'' err), [])
    | Inr c \<Rightarrow>
        if ib_AccessKeyID c = [] \<or> ib_SecretAccessKey c = []
        then (Inl (Text ''instance metadata returned incomplete credentials''), [])
        else (Inr \<lparr>ic_AccessKeyID = ib_AccessKeyID c, ic_SecretAccessKey = ib_SecretAccessKey c,
               ic_SessionToken = ib_Token c, ic_Region = region, ic_Expires = ib_Expiration c\<rparr>,
             [ib_SecretAccessKey c, ib_Token c]))"

definition fetchIMDS :: "('c, 's, 'w) cred_env \<Rightarrow> (string \<Rightarrow> 'w \<Rightarrow> string res \<times> 'w) \<Rightarrow> 'w \<Rightarrow> (imds_creds, 'w) secret_io" where
  "fetchIMDS ce run w = (case runNonEmpty run ''obtain IMDSv2 token'' imds_token_cmd w of
      (Inl err, w1) \<Rightarrow> (Inl err, [], w1)
    | (Inr token, w1) \<Rightarrow>
      (case runNonEmpty run ''obtain region from instance metadata'' (imds_cmd token ''/meta-data/placement/region'') w1 of
        (Inl err, w2) \<Rightarrow> (Inl err, [], w2)
      | (Inr region, w2) \<Rightarrow>
        (case runNonEmpty run ''obtain IAM role name from instance metadata''
            (imds_cmd token ''/meta-data/iam/security-credentials/'') w2 of
          (Inl err, w3) \<Rightarrow> (Inl err, [], w3)
        | (Inr role, w3) \<Rightarrow>
          (case runNonEmpty run ''obtain IAM role credentials from instance metadata''
              (imds_cmd token (''/meta-data/iam/security-credentials/'' @ role)) w3 of
            (Inl err, w4) \<Rightarrow> (Inl err, [], w4)
          | (Inr body, w4) \<Rightarrow> (case imds_creds_of ce region body of (r, secs) \<Rightarrow> (r, secs, w4))))))"

definition host_target :: "credentials_host \<Rightarrow> dial_target" where
  "host_target h = \<lparr>dt_Host = ch_Host h, dt_Port = ch_Port h, dt_User = ch_User h, dt_IdentityFile = ch_IdentityFile h\<rparr>"

definition host_dial_options :: "credentials_host \<Rightarrow> dial_options" where
  "host_dial_options h = \<lparr>do_StrictHostKey = or_default (ch_StrictHostKey h) True,
     do_AcceptNew = or_default (ch_AcceptNew h) True, do_KnownHostsFile = ch_KnownHostsFile h\<rparr>"

text \<open>One fetch: the connection it opens is closed whatever the metadata service answers.\<close>

definition host_fetch :: "('c, 's, 'w) cred_env \<Rightarrow> credentials_host \<Rightarrow> 'w \<Rightarrow> (imds_creds, 'w) secret_io" where
  "host_fetch ce h w = (case ce_Dial ce (host_target h) (host_dial_options h) w of
      (Inl err, w1) \<Rightarrow> (Inl (wrapf (''aws: connect to credentials host '' @ quoted (ch_Host h)) err), [], w1)
    | (Inr conn, w1) \<Rightarrow> (case fetchIMDS ce (sshRunner ce conn) w1 of
        (Inl err, secs, w2) \<Rightarrow> (Inl (wrapf (''aws: credentials from host '' @ quoted (ch_Host h)) err), secs, ce_Close ce conn w2)
      | (Inr c, secs, w2) \<Rightarrow> (Inr c, secs, ce_Close ce conn w2)))"

definition fetchCredentialsFromHost :: "('c, 's, 'w) cred_env \<Rightarrow> credentials_host \<Rightarrow> 'w \<Rightarrow> (provider \<times> string, 'w) secret_io" where
  "fetchCredentialsFromHost ce h w = (if ch_Host h = [] then (Inl (Text ''aws: credentials_from_host.host is required''), [], w)
     else (case host_fetch ce h w of
        (Inl err, secs, w1) \<Rightarrow> (Inl err, secs, w1)
      | (Inr c, secs, w1) \<Rightarrow> (Inr (HostProvider c h, ic_Region c), secs, w1)))"

text \<open>The provider behind the cache: \<open>used\<close> is its state.\<close>

definition refreshingProvider :: "('c, 's, 'w) cred_env \<Rightarrow> imds_creds \<Rightarrow> credentials_host \<Rightarrow> bool \<Rightarrow> 'w
    \<Rightarrow> sdk_creds res \<times> bool \<times> string list \<times> 'w" where
  "refreshingProvider ce first h used w = (if \<not> used then (Inr (ic_aws first), True, [], w)
     else (case host_fetch ce h w of
        (Inl err, secs, w1) \<Rightarrow> (Inl err, True, secs, w1)
      | (Inr c, secs, w1) \<Rightarrow> (Inr (ic_aws c), True, secs, w1)))"

section \<open>The source\<close>

definition resolveCredentials :: "('c, 's, 'w) cred_env \<Rightarrow> aws_config \<Rightarrow> 'w \<Rightarrow> (provider option \<times> string, 'w) secret_io" where
  "resolveCredentials ce c w =
     (if ac_AccessKeyID c \<noteq> [] \<or> ac_SecretAccessKey c \<noteq> [] then
        (if ac_AccessKeyID c = [] \<or> ac_SecretAccessKey c = []
         then (Inl (Text ''aws: access_key_id and secret_access_key must both be set''), [], w)
         else (Inr (Some (StaticProvider (ac_AccessKeyID c) (ac_SecretAccessKey c) (ac_SessionToken c)), []),
               [ac_SecretAccessKey c, ac_SessionToken c], w))
      else if ac_CredentialsFile c \<noteq> [] then
        (case readCredentialsFile ce (ac_CredentialsFile c) w of
           (Inl err, secs) \<Rightarrow> (Inl err, secs, w)
         | (Inr cf, secs) \<Rightarrow> (Inr (Some (cf_provider cf), cf_region cf), secs, w))
      else if ac_CredentialsURL c \<noteq> [] then
        (case fetchCredentialsURL ce (ac_CredentialsURL c) (ac_CredentialsToken c) w of
           (Inl err, secs, w1) \<Rightarrow> (Inl err, ac_CredentialsToken c # secs, w1)
         | (Inr cf, secs, w1) \<Rightarrow> (Inr (Some (cf_provider cf), cf_region cf), ac_CredentialsToken c # secs, w1))
      else (case ac_CredentialsFromHost c of
          Some h \<Rightarrow> (case fetchCredentialsFromHost ce h w of
              (Inl err, secs, w1) \<Rightarrow> (Inl err, secs, w1)
            | (Inr (p, region), secs, w1) \<Rightarrow> (Inr (Some p, region), secs, w1))
        | None \<Rightarrow> (Inr (None, []), [], w)))"

definition load_options :: "aws_config \<Rightarrow> provider option \<Rightarrow> string \<Rightarrow> load_option list" where
  "load_options c creds region = (let reg = or_str (ac_Region c) region in
     (if reg \<noteq> [] then [WithRegion reg] else [])
     @ (case creds of Some p \<Rightarrow> [WithCredentialsProvider p]
        | None \<Rightarrow> if ac_Profile c \<noteq> [] then [WithSharedConfigProfile (ac_Profile c)] else []))"

definition loadAWS :: "('c, 's, 'w) cred_env \<Rightarrow> aws_config \<Rightarrow> 'w \<Rightarrow> ('s, 'w) secret_io" where
  "loadAWS ce c w = (case resolveCredentials ce c w of
      (Inl err, secs, w1) \<Rightarrow> (Inl err, secs, w1)
    | (Inr (creds, region), secs, w1) \<Rightarrow> (case ce_LoadDefaultConfig ce (load_options c creds region) w1 of
        (r, w2) \<Rightarrow> (r, secs, w2)))"

section \<open>What is known of a provider\<close>

definition provider_secrets :: "provider \<Rightarrow> string set" where
  "provider_secrets p = (case p of StaticProvider _ s t \<Rightarrow> {s, t} | HostProvider c _ \<Rightarrow> {ic_SecretAccessKey c, ic_SessionToken c})"

definition provider_key :: "provider \<Rightarrow> string" where
  "provider_key p = (case p of StaticProvider k _ _ \<Rightarrow> k | HostProvider c _ \<Rightarrow> ic_AccessKeyID c)"

definition complete :: "provider \<Rightarrow> bool" where
  "complete p \<longleftrightarrow> provider_key p \<noteq> [] \<and> (case p of StaticProvider _ s _ \<Rightarrow> s \<noteq> [] | HostProvider c _ \<Rightarrow> ic_SecretAccessKey c \<noteq> [])"

definition safe_provider :: "provider \<Rightarrow> string list \<Rightarrow> bool" where
  "safe_provider p secs \<longleftrightarrow> complete p \<and> provider_secrets p = set secs"

lemmas provider_defs = safe_provider_def provider_secrets_def provider_key_def complete_def cf_provider_def

lemma parse_ok: "parseCredentials ce data source = (Inr f, secs) \<Longrightarrow> safe_provider (cf_provider f) secs"
  by (auto simp: parseCredentials_def provider_defs split: sum.splits if_splits)

lemma read_ok: "readCredentialsFile ce path w = (Inr f, secs) \<Longrightarrow> safe_provider (cf_provider f) secs"
  using parse_ok by (auto simp: readCredentialsFile_def split: sum.splits)

lemma url_ok: "fetchCredentialsURL ce url token w = (Inr f, secs, w') \<Longrightarrow> safe_provider (cf_provider f) secs"
  using parse_ok by (fastforce simp: fetchCredentialsURL_def split: option.splits prod.splits sum.splits if_splits)

lemma creds_of_ok: "imds_creds_of ce region body = (Inr c, secs) \<Longrightarrow> safe_provider (HostProvider c h) secs \<and> ic_Region c = region"
  by (auto simp: imds_creds_of_def provider_defs split: sum.splits if_splits)

lemma runNonEmpty_ok: "runNonEmpty run what cmd w = (Inr v, w') \<Longrightarrow> run cmd w = (Inr v, w') \<and> v \<noteq> []"
  by (auto simp: runNonEmpty_def split: prod.splits sum.splits if_splits)

lemma fetchIMDS_ok:
  assumes "fetchIMDS ce run w = (Inr c, secs, w')"
  shows "safe_provider (HostProvider c h) secs \<and> ic_Region c \<noteq> []"
proof -
  obtain region body w2 where r: "imds_creds_of ce region body = (Inr c, secs)" "region \<noteq> []"
    using assms by (auto simp: fetchIMDS_def dest!: runNonEmpty_ok split: prod.splits sum.splits)
  then show ?thesis using creds_of_ok[OF r(1)] by simp
qed

lemma host_fetch_ok: "host_fetch ce h w = (Inr c, secs, w') \<Longrightarrow> safe_provider (HostProvider c h) secs \<and> ic_Region c \<noteq> []"
  using fetchIMDS_ok by (fastforce simp: host_fetch_def split: prod.splits sum.splits)

lemma from_host_ok:
  assumes "fetchCredentialsFromHost ce h w = (Inr (p, region), secs, w')"
  shows "safe_provider p secs"
proof -
  obtain c where "host_fetch ce h w = (Inr c, secs, w')" "p = HostProvider c h"
    using assms by (auto simp: fetchCredentialsFromHost_def split: prod.splits sum.splits if_splits)
  then show ?thesis using host_fetch_ok by fast
qed

text \<open>
  C24. Credentials are resolved from the first configured source: the static keys, the file, the URL, the host. A
  provider they give has both keys, and its secret key and session token are registered for masking before
  any request is made with them; without a source no provider is given and nothing is registered.
\<close>

theorem resolveCredentials_registered:
  assumes "resolveCredentials ce c w = (Inr (creds, region), secs, w')"
  shows "case creds of
      Some p \<Rightarrow> complete p \<and> provider_secrets p \<subseteq> set secs
        \<and> (if ac_AccessKeyID c \<noteq> [] then p = StaticProvider (ac_AccessKeyID c) (ac_SecretAccessKey c) (ac_SessionToken c)
           else if ac_CredentialsFile c \<noteq> [] then \<exists>f. readCredentialsFile ce (ac_CredentialsFile c) w = (Inr f, secs) \<and> p = cf_provider f
           else if ac_CredentialsURL c \<noteq> [] then ac_CredentialsToken c \<in> set secs
           else \<exists>h k. ac_CredentialsFromHost c = Some h \<and> p = HostProvider k h)
    | None \<Rightarrow> ac_AccessKeyID c = [] \<and> ac_SecretAccessKey c = [] \<and> ac_CredentialsFile c = [] \<and> ac_CredentialsURL c = []
        \<and> ac_CredentialsFromHost c = None \<and> secs = [] \<and> w' = w"
proof (cases "ac_AccessKeyID c \<noteq> [] \<or> ac_SecretAccessKey c \<noteq> []")
  case True
  then show ?thesis using assms by (auto simp: resolveCredentials_def provider_defs split: if_splits)
next
  case no_keys: False
  show ?thesis
  proof (cases "ac_CredentialsFile c \<noteq> []")
    case True
    then obtain f where "readCredentialsFile ce (ac_CredentialsFile c) w = (Inr f, secs)" "creds = Some (cf_provider f)"
      using assms no_keys by (auto simp: resolveCredentials_def split: prod.splits sum.splits)
    then show ?thesis using True no_keys read_ok[of ce] by (auto simp: safe_provider_def)
  next
    case no_file: False
    show ?thesis
    proof (cases "ac_CredentialsURL c \<noteq> []")
      case True
      then obtain f s where "fetchCredentialsURL ce (ac_CredentialsURL c) (ac_CredentialsToken c) w = (Inr f, s, w')"
        "creds = Some (cf_provider f)" "secs = ac_CredentialsToken c # s"
        using assms no_keys no_file by (auto simp: resolveCredentials_def split: prod.splits sum.splits)
      then show ?thesis using True no_keys no_file url_ok[of ce] by (auto simp: safe_provider_def)
    next
      case False
      show ?thesis
      proof (cases "ac_CredentialsFromHost c")
        case None
        then show ?thesis using assms no_keys no_file False by (auto simp: resolveCredentials_def)
      next
        case (Some h)
        then obtain p where p: "fetchCredentialsFromHost ce h w = (Inr (p, region), secs, w')" "creds = Some p"
          using assms no_keys no_file False by (auto simp: resolveCredentials_def split: prod.splits sum.splits)
        moreover have "\<exists>k. p = HostProvider k h"
          using p(1) by (auto simp: fetchCredentialsFromHost_def split: prod.splits sum.splits if_splits)
        ultimately show ?thesis using from_host_ok[OF p(1)] no_keys no_file False Some by (auto simp: safe_provider_def)
      qed
    qed
  qed
qed

definition static_keys :: aws_config where
  "static_keys = \<lparr>ac_Region = [], ac_Profile = [], ac_AccessKeyID = ''AKIA'', ac_SecretAccessKey = ''hunter22'', ac_SessionToken = [],
     ac_CredentialsFile = ''keys.yml'', ac_CredentialsURL = [], ac_CredentialsToken = [], ac_CredentialsFromHost = None\<rparr>"

definition no_cred :: "(unit, unit, nat) cred_env" where
  "no_cred = \<lparr>ce_ReadFile = (\<lambda>p w. Inl Canceled), ce_yaml = (\<lambda>s. Inl Canceled), ce_NewRequest = (\<lambda>u. None),
     ce_Do = (\<lambda>u h w. (Inl Canceled, w)), ce_Dial = (\<lambda>t o' w. (Inl Canceled, w)), ce_Run = (\<lambda>c cmd w. ((None, [], []), w)),
     ce_Close = (\<lambda>c w. w), ce_json = (\<lambda>s. Inl Canceled), ce_LoadDefaultConfig = (\<lambda>os w. (Inr (), w))\<rparr>"

lemma resolveCredentials_registered_witness:
  "\<exists>p secs. resolveCredentials no_cred static_keys 0 = (Inr (Some p, []), secs, 0) \<and> provider_secrets p \<subseteq> set secs \<and> ''hunter22'' \<in> set secs"
proof -
  have r: "resolveCredentials no_cred static_keys 0
      = (Inr (Some (StaticProvider ''AKIA'' ''hunter22'' []), []), [''hunter22'', []], 0)"
    by (simp add: resolveCredentials_def static_keys_def)
  show ?thesis using resolveCredentials_registered[OF r] r by auto
qed

end
