(* ===== verification/Ec2.thy ===== *)
theory Ec2
  imports Import_Hooks
begin

text \<open>
  The EC2 side of the aws plugin: the data of the two cloud APIs it calls and the inventory
  (\<open>plugins/aws/ec2/inventory.go\<close>), a startup hook that appends the running instances with the
  configured tags to the hosts of the deployment.

  The clients of the SDK are the fields of \<open>cloud\<close>. A paginated call is the sequence of the pages the
  paginator gets. Optional fields of the SDK's structs are options; where a value lies behind several
  pointers, \<open>None\<close> is a nil at any of them.
\<close>

type_synonym tag = "string option \<times> string option"

record ec2_instance =
  in_InstanceId :: "string option"
  in_PrivateIp :: "string option"
  in_PublicIp :: "string option"
  in_Tags :: "tag list"

record asg_group =
  ag_LaunchTemplateId :: "string option"
  ag_MixedTemplateId :: "string option"
  ag_Instances :: "(string \<times> string option) list"

record ec2_image =
  im_ImageId :: "string option"
  im_Name :: "string option"
  im_CreationDate :: "string option"
  im_State :: string
  im_Reason :: "string option"
  im_Snapshots :: "string option list"

record refresh_prefs =
  rp_MinHealthy :: int
  rp_MaxHealthy :: int
  rp_Warmup :: int
  rp_SkipMatching :: bool
  rp_AutoRollback :: bool

record refresh =
  rf_Status :: string
  rf_StatusReason :: "string option"

datatype start_answer = InProgress goerr | StartFailed goerr | Started "string option"

datatype cancel_answer = NoActiveRefresh goerr | CancelFailed goerr | Cancelling

datatype image_answer = ImageNotFound goerr | ImagesFailed goerr | Images "ec2_image list"

type_synonym filters = "(string \<times> string list) list"

record 'w cloud =
  cl_InstancePages :: "filters \<Rightarrow> 'w \<Rightarrow> (goerr + ec2_instance list list) list"
  cl_DescribeInstances :: "filters \<Rightarrow> string list \<Rightarrow> 'w \<Rightarrow> ec2_instance list list res"
  cl_DescribeGroups :: "string \<Rightarrow> 'w \<Rightarrow> asg_group list res"
  cl_VersionPages :: "string \<Rightarrow> 'w \<Rightarrow> (goerr + int option list) list"
  cl_ImagePages :: "filters \<Rightarrow> 'w \<Rightarrow> (goerr + ec2_image list) list"
  cl_DescribeImage :: "string \<Rightarrow> 'w \<Rightarrow> image_answer \<times> 'w"
  cl_CreateImage :: "string \<Rightarrow> string \<Rightarrow> bool \<Rightarrow> tag list \<Rightarrow> 'w \<Rightarrow> string option res \<times> 'w"
  cl_DeregisterImage :: "string option \<Rightarrow> 'w \<Rightarrow> goerr option \<times> 'w"
  cl_DeleteSnapshot :: "string \<Rightarrow> 'w \<Rightarrow> goerr option \<times> 'w"
  cl_CreateVersion :: "string \<Rightarrow> string \<Rightarrow> string option \<Rightarrow> string option \<Rightarrow> 'w \<Rightarrow> int option option res \<times> 'w"
  cl_ModifyTemplate :: "string \<Rightarrow> string \<Rightarrow> 'w \<Rightarrow> goerr option \<times> 'w"
  cl_StartRefresh :: "string \<Rightarrow> refresh_prefs \<Rightarrow> 'w \<Rightarrow> start_answer \<times> 'w"
  cl_CancelRefresh :: "string \<Rightarrow> 'w \<Rightarrow> cancel_answer \<times> 'w"
  cl_DescribeRefreshes :: "string \<Rightarrow> string option \<Rightarrow> 'w \<Rightarrow> refresh list res \<times> 'w"

abbreviation ptr_str :: "string option \<Rightarrow> string" where "ptr_str p \<equiv> or_default p []"

text \<open>Functions of the world as the calls of an action.\<close>

definition world_action :: "('w \<Rightarrow> goerr option \<times> 'w) \<Rightarrow> 'w prog" where
  "world_action f = World (\<lambda>w. case f w of (r, w') \<Rightarrow> (Ret r, w'))"

definition tagValue :: "tag list \<Rightarrow> string \<Rightarrow> string" where
  "tagValue tags key = (case List.find (\<lambda>(k, v). k = Some key \<and> v \<noteq> None) tags of
      Some (_, Some v) \<Rightarrow> v | _ \<Rightarrow> [])"

definition asgLaunchTemplateID :: "asg_group \<Rightarrow> string" where
  "asgLaunchTemplateID g = (case ag_LaunchTemplateId g of Some i \<Rightarrow> i
     | None \<Rightarrow> (case ag_MixedTemplateId g of Some i \<Rightarrow> i | None \<Rightarrow> []))"

definition FeatureInventory :: string where "FeatureInventory = ''aws:ec2:inventory''"
definition FeatureASG :: string where "FeatureASG = ''aws:ec2:asg''"
definition FeatureAMI :: string where "FeatureAMI = ''aws:ec2:ami''"

section \<open>The inventory\<close>

record inventory_params =
  iv_Tags :: "string list smap"
  iv_RoleTag :: string
  iv_Roles :: "string list"
  iv_UsePublicIP :: bool
  iv_DeployTag :: "(string \<times> string) option"
  iv_RequiredTag :: "(string \<times> string) option"
  iv_ResolveConfigHosts :: bool

definition hasTagFilter :: "inventory_params \<Rightarrow> bool" where
  "hasTagFilter p \<longleftrightarrow> list_ex (\<lambda>(_, vals). length vals > 0) (iv_Tags p)"

text \<open>The filters of tags, a key without values dropped.\<close>

definition tag_filters :: "string list smap \<Rightarrow> filters" where
  "tag_filters tags = map (\<lambda>(k, vals). (''tag:'' @ k, vals)) (filter (\<lambda>(_, vals). vals \<noteq> []) tags)"

definition inventory_filters :: "inventory_params \<Rightarrow> filters" where
  "inventory_filters p = (''instance-state-name'', [''running'']) # tag_filters (iv_Tags p)"

definition instanceHost :: "ec2_instance \<Rightarrow> bool \<Rightarrow> string" where
  "instanceHost inst public = ptr_str (if public then in_PublicIp inst else in_PrivateIp inst)"

definition splitRoles :: "string \<Rightarrow> string list" where
  "splitRoles v = filter (\<lambda>s. s \<noteq> []) (map trim_space (split_on (CHR '','') v))"

definition instance_roles :: "inventory_params \<Rightarrow> ec2_instance \<Rightarrow> string list" where
  "instance_roles p inst = (if iv_RoleTag p \<noteq> [] \<and> tagValue (in_Tags inst) (iv_RoleTag p) \<noteq> []
     then splitRoles (tagValue (in_Tags inst) (iv_RoleTag p)) else iv_Roles p)"

definition tag_flag :: "(string \<times> string) option \<Rightarrow> ec2_instance \<Rightarrow> bool option" where
  "tag_flag m inst = map_option (\<lambda>(name, val). tagValue (in_Tags inst) name = val) m"

definition instance_entry :: "inventory_params \<Rightarrow> ec2_instance \<Rightarrow> host" where
  "instance_entry p inst = zero_host\<lparr>host_Address := instanceHost inst (iv_UsePublicIP p),
     host_Roles := instance_roles p inst, host_Source := FeatureInventory,
     host_Deploy := tag_flag (iv_DeployTag p) inst, host_Required := tag_flag (iv_RequiredTag p) inst\<rparr>"

text \<open>
  The addresses that are taken: the declared ones and, on request, what the names among them resolve to. A
  failed lookup only leaves the name unresolved. \<open>is_ip\<close> and \<open>lookup\<close> are the parser and the resolver of \<open>net\<close>.
\<close>

definition resolved_ips :: "(string \<Rightarrow> bool) \<Rightarrow> (string \<Rightarrow> 'w \<Rightarrow> string list res) \<Rightarrow> 'w \<Rightarrow> host \<Rightarrow> string list" where
  "resolved_ips is_ip lookup w h = (if host_Address h = [] \<or> is_ip (host_Address h) then []
     else case lookup (host_Address h) w of Inl _ \<Rightarrow> [] | Inr ips \<Rightarrow> ips)"

definition seen_start :: "(string \<Rightarrow> bool) \<Rightarrow> (string \<Rightarrow> 'w \<Rightarrow> string list res) \<Rightarrow> inventory_params \<Rightarrow> 'w \<Rightarrow> host list \<Rightarrow> string list" where
  "seen_start is_ip lookup p w hs = map host_Address hs
     @ (if iv_ResolveConfigHosts p then concat (map (resolved_ips is_ip lookup w) hs) else [])"

definition add_instance :: "inventory_params \<Rightarrow> ec2_instance \<Rightarrow> host list \<times> string list \<Rightarrow> host list \<times> string list" where
  "add_instance p inst st = (case st of (hs, seen) \<Rightarrow>
     (let addr = instanceHost inst (iv_UsePublicIP p) in
      if addr = [] \<or> addr \<in> set seen then (hs, seen) else (hs @ [instance_entry p inst], addr # seen)))"

fun add_pages :: "inventory_params \<Rightarrow> (goerr + ec2_instance list list) list \<Rightarrow> host list \<times> string list
    \<Rightarrow> goerr option \<times> host list \<times> string list" where
  "add_pages p [] st = (None, st)"
| "add_pages p (Inl err # pages) st = (Some (wrapf ''describe instances'' err), st)"
| "add_pages p (Inr reservations # pages) st = add_pages p pages (fold (add_instance p) (concat reservations) st)"

definition appendHosts :: "'w cloud \<Rightarrow> (string \<Rightarrow> bool) \<Rightarrow> (string \<Rightarrow> 'w \<Rightarrow> string list res) \<Rightarrow> inventory_params \<Rightarrow> 'w startup" where
  "appendHosts api is_ip lookup p cfg w =
     (case add_pages p (cl_InstancePages api (inventory_filters p) w)
          (cfg_Hosts cfg, seen_start is_ip lookup p w (cfg_Hosts cfg)) of
        (r, hs, _) \<Rightarrow> (r, cfg\<lparr>cfg_Hosts := hs\<rparr>, [], w))"

section \<open>What is appended\<close>

text \<open>The instances of the pages before the first failed one.\<close>

fun described :: "(goerr + ec2_instance list list) list \<Rightarrow> ec2_instance list" where
  "described [] = []"
| "described (Inl err # pages) = []"
| "described (Inr reservations # pages) = concat reservations @ described pages"

lemma add_pages_fold: "snd (add_pages p pages st) = fold (add_instance p) (described pages) st"
  by (induction p pages st rule: add_pages.induct) simp_all

lemma add_pages_err: "fst (add_pages p pages st) = None \<longleftrightarrow> list_all is_ok pages"
  by (induction p pages st rule: add_pages.induct) (simp_all add: is_ok_def)

lemma instance_entry_address [simp]: "host_Address (instance_entry p inst) = instanceHost inst (iv_UsePublicIP p)"
  by (simp add: instance_entry_def)

text \<open>What the fold does: new hosts for addresses that are new, each once, and none forgotten.\<close>

lemma fold_instances:
  "fold (add_instance p) insts (hs, seen) = (hs', seen') \<Longrightarrow>
     \<exists>new. hs' = hs @ map (instance_entry p) new \<and> set new \<subseteq> set insts
       \<and> distinct (map (\<lambda>i. instanceHost i (iv_UsePublicIP p)) new)
       \<and> (\<forall>i\<in>set new. instanceHost i (iv_UsePublicIP p) \<notin> set seen \<and> instanceHost i (iv_UsePublicIP p) \<noteq> [])
       \<and> (\<forall>i\<in>set insts. instanceHost i (iv_UsePublicIP p) = [] \<or> instanceHost i (iv_UsePublicIP p) \<in> set seen
            \<or> instanceHost i (iv_UsePublicIP p) \<in> (\<lambda>i. instanceHost i (iv_UsePublicIP p)) ` set new)"
proof (induction insts arbitrary: hs seen)
  case (Cons i insts)
  let ?a = "\<lambda>i. instanceHost i (iv_UsePublicIP p)"
  have step: "add_instance p i (hs, seen) = (if ?a i = [] \<or> ?a i \<in> set seen then (hs, seen)
      else (hs @ [instance_entry p i], ?a i # seen))" by (simp add: add_instance_def Let_def)
  show ?case
  proof (cases "?a i = [] \<or> ?a i \<in> set seen")
    case True
    then have "fold (add_instance p) insts (hs, seen) = (hs', seen')"
      using Cons.prems step by simp
    from Cons.IH[OF this] show ?thesis using True by fastforce
  next
    case False
    then have "fold (add_instance p) insts (hs @ [instance_entry p i], ?a i # seen) = (hs', seen')"
      using Cons.prems step by simp
    from Cons.IH[OF this] obtain new where n: "hs' = (hs @ [instance_entry p i]) @ map (instance_entry p) new"
      "set new \<subseteq> set insts" "distinct (map ?a new)" "\<forall>j\<in>set new. ?a j \<notin> set (?a i # seen) \<and> ?a j \<noteq> []"
      "\<forall>j\<in>set insts. ?a j = [] \<or> ?a j \<in> set (?a i # seen) \<or> ?a j \<in> ?a ` set new" by blast
    show ?thesis using n False by (intro exI[of _ "i # new"]) auto
  qed
qed auto

text \<open>
  The inventory keeps the declared hosts as they are and in front, and appends instances of the query only: one
  entry per address, never an address that is declared, that a declared name resolves to, or that is
  empty; no instance of the pages it read is forgotten. A failed page ends it with an error.
\<close>

theorem appendHosts_spec:
  assumes "appendHosts api is_ip lookup p cfg w = (r, cfg', secs, w')"
  shows "let pages = cl_InstancePages api (inventory_filters p) w; addr = (\<lambda>i. instanceHost i (iv_UsePublicIP p));
      taken = set (seen_start is_ip lookup p w (cfg_Hosts cfg)) in
    (\<exists>new. cfg' = cfg\<lparr>cfg_Hosts := cfg_Hosts cfg @ map (instance_entry p) new\<rparr> \<and> set new \<subseteq> set (described pages)
       \<and> distinct (map addr new) \<and> addr ` set new \<inter> (taken \<union> {[]}) = {}
       \<and> addr ` set (described pages) \<subseteq> taken \<union> {[]} \<union> addr ` set new)
    \<and> (r = None \<longleftrightarrow> list_all is_ok pages) \<and> secs = [] \<and> w' = w"
proof -
  let ?pages = "cl_InstancePages api (inventory_filters p) w" and ?seen = "seen_start is_ip lookup p w (cfg_Hosts cfg)"
  obtain hs seen where h: "add_pages p ?pages (cfg_Hosts cfg, ?seen) = (r, hs, seen)" "cfg' = cfg\<lparr>cfg_Hosts := hs\<rparr>" "secs = []" "w' = w"
    using assms by (auto simp: appendHosts_def split: prod.splits)
  have "fold (add_instance p) (described ?pages) (cfg_Hosts cfg, ?seen) = (hs, seen)"
    using add_pages_fold[of p ?pages "(cfg_Hosts cfg, ?seen)"] h(1) by simp
  moreover have "r = None \<longleftrightarrow> list_all is_ok ?pages"
    using add_pages_err[of p ?pages "(cfg_Hosts cfg, ?seen)"] h(1) by simp
  ultimately show ?thesis using fold_instances[of p "described ?pages" "cfg_Hosts cfg" ?seen hs seen] h(2-4)
    unfolding Let_def by blast
qed

text \<open>The filters of a configured inventory always name a tag.\<close>

lemma inventory_filters_tag: "hasTagFilter p \<Longrightarrow> length (inventory_filters p) > 1"
  by (auto simp: hasTagFilter_def inventory_filters_def tag_filters_def list_ex_iff filter_empty_conv)

interpretation inventory_hook: import_hook "appendHosts api is_ip lookup p" for api is_ip lookup p
  by unfold_locales (auto simp: appendHosts_def imported_values_def split: prod.splits)

section \<open>A concrete inventory\<close>

definition idle_cloud :: "nat cloud" where
  "idle_cloud = \<lparr>cl_InstancePages = (\<lambda>f w. []), cl_DescribeInstances = (\<lambda>f i w. Inr []), cl_DescribeGroups = (\<lambda>n w. Inr []),
     cl_VersionPages = (\<lambda>l w. []), cl_ImagePages = (\<lambda>f w. []), cl_DescribeImage = (\<lambda>a w. (Images [], w)),
     cl_CreateImage = (\<lambda>i n r t w. (Inr None, w)), cl_DeregisterImage = (\<lambda>i w. (None, w)), cl_DeleteSnapshot = (\<lambda>s w. (None, w)),
     cl_CreateVersion = (\<lambda>l s d i w. (Inr None, w)), cl_ModifyTemplate = (\<lambda>l v w. (None, w)),
     cl_StartRefresh = (\<lambda>n p w. (Started None, w)), cl_CancelRefresh = (\<lambda>n w. (Cancelling, w)),
     cl_DescribeRefreshes = (\<lambda>n r w. (Inr [], w))\<rparr>"

definition box :: "string \<Rightarrow> ec2_instance" where
  "box ip = \<lparr>in_InstanceId = Some ''i'', in_PrivateIp = Some ip, in_PublicIp = None, in_Tags = [(Some ''role'', Some ''web, db'')]\<rparr>"

definition two_pages :: "nat cloud" where
  "two_pages = idle_cloud\<lparr>cl_InstancePages := (\<lambda>f w. [Inr [[box ''10.0.0.1'', box ''10.0.0.2'']], Inr [[box ''10.0.0.2'']]])\<rparr>"

definition demo_iv :: inventory_params where
  "demo_iv = \<lparr>iv_Tags = [(''App'', [''shop''])], iv_RoleTag = ''role'', iv_Roles = [], iv_UsePublicIP = False, iv_DeployTag = None,
     iv_RequiredTag = None, iv_ResolveConfigHosts = False\<rparr>"

lemma appendHosts_spec_witness:
  "\<exists>new. fst (snd (appendHosts two_pages (\<lambda>_. True) (\<lambda>h w. Inr []) demo_iv (zero_cfg\<lparr>cfg_Hosts := [zero_host\<lparr>host_Address := ''10.0.0.1''\<rparr>]\<rparr>) 0))
      = zero_cfg\<lparr>cfg_Hosts := zero_host\<lparr>host_Address := ''10.0.0.1''\<rparr> # map (instance_entry demo_iv) new\<rparr>
     \<and> (\<lambda>i. instanceHost i False) ` set new = {''10.0.0.2''} \<and> distinct (map (\<lambda>i. instanceHost i False) new)"
proof -
  let ?cfg = "zero_cfg\<lparr>cfg_Hosts := [zero_host\<lparr>host_Address := ''10.0.0.1''\<rparr>]\<rparr>"
  obtain r cfg' secs w' where a: "appendHosts two_pages (\<lambda>_. True) (\<lambda>h w. Inr []) demo_iv ?cfg 0 = (r, cfg', secs, w')" by (metis prod_cases4)
  have d: "described (cl_InstancePages two_pages (inventory_filters demo_iv) 0) = [box ''10.0.0.1'', box ''10.0.0.2'', box ''10.0.0.2'']"
    by (simp add: two_pages_def)
  have s: "set (seen_start (\<lambda>_. True) (\<lambda>h w. Inr []) demo_iv (0::nat) (cfg_Hosts ?cfg)) = {''10.0.0.1''}"
    by (simp add: seen_start_def demo_iv_def)
  have u: "iv_UsePublicIP demo_iv = False" by (simp add: demo_iv_def)
  have b: "instanceHost (box ip) False = ip" for ip by (simp add: instanceHost_def box_def or_default_def)
  let ?insts = "[box ''10.0.0.1'', box ''10.0.0.2'', box ''10.0.0.2'']" and ?a = "\<lambda>i. instanceHost i False"
  obtain new where n: "cfg' = ?cfg\<lparr>cfg_Hosts := cfg_Hosts ?cfg @ map (instance_entry demo_iv) new\<rparr>"
    "set new \<subseteq> set ?insts" "distinct (map ?a new)" "?a ` set new \<inter> ({''10.0.0.1''} \<union> {[]}) = {}"
    "?a ` set ?insts \<subseteq> {''10.0.0.1''} \<union> {[]} \<union> ?a ` set new"
    using appendHosts_spec[OF a, unfolded Let_def d s u, THEN conjunct1] by (elim exE conjE) (rule that)
  have one: "A = {x, y} \<Longrightarrow> N \<subseteq> A \<Longrightarrow> N \<inter> ({x} \<union> {e}) = {} \<Longrightarrow> A \<subseteq> {x} \<union> {e} \<union> N \<Longrightarrow> x \<noteq> y \<Longrightarrow> y \<noteq> e \<Longrightarrow> N = {y}"
    for A N :: "string set" and x y e by blast
  have "?a ` set ?insts = {''10.0.0.1'', ''10.0.0.2''}" by (simp add: b insert_commute)
  from one[OF this image_mono[OF n(2)] n(4,5)] have im: "?a ` set new = {''10.0.0.2''}" by simp
  show ?thesis using a n(1,3) im by (intro exI[of _ new]) simp
qed

end
