(* ===== verification/Asg.thy ===== *)
theory Asg
  imports Ec2
begin

text \<open>
  The Auto Scaling actions of the aws plugin (\<open>plugins/aws/ec2/asg.go\<close>): roll a group onto its launch
  template and wait for the end, and roll the launch template back by one version before that.

  A poll loop has no bound of its own: it ends with the refresh, or when the context is done.
  \<open>cx_polls\<close> is the number of intervals the context lasts from the start of the action, so every run that returns is a
  run of the model for some such number, and \<open>cx_err\<close> is the error of the context then.
\<close>

record ctx =
  cx_polls :: nat
  cx_err :: goerr

definition actionASGRefresh :: string where "actionASGRefresh = FeatureASG @ '':refresh''"
definition actionASGRollback :: string where "actionASGRollback = FeatureASG @ '':rollback''"

record asg_refresh_params =
  ar_Name :: string
  ar_MinHealthy :: "int option"
  ar_MaxHealthy :: "int option"
  ar_Warmup :: "int option"
  ar_SkipMatching :: "bool option"
  ar_AutoRollback :: "bool option"

record lt_target =
  lt_ID :: string
  lt_ASG :: string

record asg_rollback_params =
  ab_refresh :: asg_refresh_params
  ab_LaunchTemplate :: "lt_target option"
  ab_SetDefault :: "bool option"

definition refresh_input :: "asg_refresh_params \<Rightarrow> refresh_prefs" where
  "refresh_input p = \<lparr>rp_MinHealthy = or_default (ar_MinHealthy p) 100, rp_MaxHealthy = or_default (ar_MaxHealthy p) 200,
     rp_Warmup = or_default (ar_Warmup p) 300, rp_SkipMatching = or_default (ar_SkipMatching p) True,
     rp_AutoRollback = or_default (ar_AutoRollback p) False\<rparr>"

definition refresh_failed :: "string list" where
  "refresh_failed = [''Failed'', ''Cancelled'', ''RollbackFailed'', ''RollbackSuccessful'']"

section \<open>Polling\<close>

fun waitForRefresh :: "'w cloud \<Rightarrow> goerr \<Rightarrow> string \<Rightarrow> string \<Rightarrow> nat \<Rightarrow> 'w \<Rightarrow> goerr option \<times> 'w" where
  "waitForRefresh api ctxErr asg rid n w = (case cl_DescribeRefreshes api asg (Some rid) w of
      (Inl err, w1) \<Rightarrow> (Some (wrapf (''describe instance refresh '' @ rid) err), w1)
    | (Inr [], w1) \<Rightarrow> (Some (Text (''instance refresh '' @ rid @ '' not found'')), w1)
    | (Inr (r # _), w1) \<Rightarrow>
        if rf_Status r = ''Successful'' then (None, w1)
        else if rf_Status r \<in> set refresh_failed
        then (Some (Text (''instance refresh '' @ rid @ '' '' @ rf_Status r @ '': '' @ ptr_str (rf_StatusReason r))), w1)
        else (case n of
            0 \<Rightarrow> (Some (wrapf (''stopped waiting for instance refresh '' @ rid @ '' (it continues in AWS)'') ctxErr), w1)
          | Suc m \<Rightarrow> waitForRefresh api ctxErr asg rid m w1))"

declare waitForRefresh.simps [simp del]

text \<open>Waiting for a cancellation to settle: the result, and the intervals the context has left.\<close>

fun waitForCancel :: "'w cloud \<Rightarrow> goerr \<Rightarrow> string \<Rightarrow> nat \<Rightarrow> 'w \<Rightarrow> goerr option \<times> nat \<times> 'w" where
  "waitForCancel api ctxErr asg n w = (case cl_DescribeRefreshes api asg None w of
      (Inl err, w1) \<Rightarrow> (Some (wrapf ''describe instance refreshes'' err), n, w1)
    | (Inr [], w1) \<Rightarrow> (None, n, w1)
    | (Inr (r # _), w1) \<Rightarrow>
        if rf_Status r = ''Successful'' \<or> rf_Status r \<in> set refresh_failed then (None, n, w1)
        else (case n of
            0 \<Rightarrow> (Some (wrapf ''stopped waiting for instance refresh cancellation'' ctxErr), 0, w1)
          | Suc m \<Rightarrow> waitForCancel api ctxErr asg m w1))"

declare waitForCancel.simps [simp del]

definition cancelActiveRefresh :: "'w cloud \<Rightarrow> ctx \<Rightarrow> string \<Rightarrow> 'w \<Rightarrow> goerr option \<times> nat \<times> 'w" where
  "cancelActiveRefresh api cx asg w = (case cl_CancelRefresh api asg w of
      (NoActiveRefresh err, w1) \<Rightarrow> (None, cx_polls cx, w1)
    | (CancelFailed err, w1) \<Rightarrow> (Some (wrapf ''cancel instance refresh'' err), cx_polls cx, w1)
    | (Cancelling, w1) \<Rightarrow> waitForCancel api (cx_err cx) asg (cx_polls cx) w1)"

section \<open>The actions\<close>

definition started :: "'w cloud \<Rightarrow> ctx \<Rightarrow> string \<Rightarrow> nat \<Rightarrow> start_answer \<times> 'w \<Rightarrow> goerr option \<times> 'w" where
  "started api cx asg n a = (case a of
      (InProgress err, w) \<Rightarrow> (Some (wrapf ''start instance refresh'' err), w)
    | (StartFailed err, w) \<Rightarrow> (Some (wrapf ''start instance refresh'' err), w)
    | (Started rid, w) \<Rightarrow> waitForRefresh api (cx_err cx) asg (ptr_str rid) n w)"

definition startAndWait :: "'w cloud \<Rightarrow> ctx \<Rightarrow> asg_refresh_params \<Rightarrow> bool \<Rightarrow> 'w \<Rightarrow> goerr option \<times> 'w" where
  "startAndWait api cx p cancelInFlight w = (case cl_StartRefresh api (ar_Name p) (refresh_input p) w of
      (InProgress err, w1) \<Rightarrow>
        if \<not> cancelInFlight then (None, w1)
        else (case cancelActiveRefresh api cx (ar_Name p) w1 of
            (Some err, _, w2) \<Rightarrow> (Some err, w2)
          | (None, n, w2) \<Rightarrow> started api cx (ar_Name p) n (cl_StartRefresh api (ar_Name p) (refresh_input p) w2))
    | a \<Rightarrow> started api cx (ar_Name p) (cx_polls cx) a)"

definition runRefresh :: "(yval smap \<Rightarrow> asg_refresh_params res) \<Rightarrow> yval smap \<Rightarrow> 'w cloud \<Rightarrow> ctx \<Rightarrow> yval smap \<Rightarrow> 'w
    \<Rightarrow> goerr option \<times> 'w" where
  "runRefresh decode defaults api cx params w = (case DecodeFeature decode defaults params of
      Inl err \<Rightarrow> (Some err, w)
    | Inr p \<Rightarrow> if ar_Name p = [] then (Some (Text (actionASGRefresh @ '': '' @ [sq] @ ''name'' @ [sq] @ '' is required'')), w)
        else startAndWait api cx p False w)"

definition group_template :: "'w cloud \<Rightarrow> string \<Rightarrow> 'w \<Rightarrow> string res" where
  "group_template api asg w = (case cl_DescribeGroups api asg w of
      Inl err \<Rightarrow> Inl (wrapf (''describe ASG '' @ quoted asg) err)
    | Inr [] \<Rightarrow> Inl (Text (''ASG '' @ quoted asg @ '' not found''))
    | Inr (g # _) \<Rightarrow> if asgLaunchTemplateID g = [] then Inl (Text (''ASG '' @ quoted asg @ '' has no launch template''))
        else Inr (asgLaunchTemplateID g))"

definition rollbackLaunchTemplateID :: "'w cloud \<Rightarrow> asg_rollback_params \<Rightarrow> 'w \<Rightarrow> string res" where
  "rollbackLaunchTemplateID api rp w =
     (case ab_LaunchTemplate rp of
        Some t \<Rightarrow> if lt_ID t \<noteq> [] then Inr (lt_ID t) else group_template api (or_str (ar_Name (ab_refresh rp)) (lt_ASG t)) w
      | None \<Rightarrow> group_template api (ar_Name (ab_refresh rp)) w)"

fun version_numbers :: "(goerr + int option list) list \<Rightarrow> int list res" where
  "version_numbers [] = Inr []"
| "version_numbers (Inl err # pages) = Inl (wrapf ''describe launch template versions'' err)"
| "version_numbers (Inr vs # pages) = (case version_numbers pages of
      Inl err \<Rightarrow> Inl err | Inr ns \<Rightarrow> Inr (map (\<lambda>v. or_default v 0) vs @ ns))"

text \<open>The second of the versions, the highest first.\<close>

definition previousLTVersion :: "'w cloud \<Rightarrow> string \<Rightarrow> 'w \<Rightarrow> int res" where
  "previousLTVersion api lt w = (case version_numbers (cl_VersionPages api lt w) of
      Inl err \<Rightarrow> Inl err
    | Inr nums \<Rightarrow> if length nums < 2 then Inl (Text (''launch template '' @ lt @ '' has '' @ itoa (int (length nums))
          @ '' version(s), need at least 2 to roll back''))
        else Inr (rev (sort nums) ! 1))"

definition set_default :: "'w cloud \<Rightarrow> bool \<Rightarrow> string \<Rightarrow> int \<Rightarrow> 'w \<Rightarrow> goerr option \<times> 'w" where
  "set_default api b lt ver w = (if \<not> b then (None, w) else (case cl_ModifyTemplate api lt (itoa ver) w of
      (Some err, w1) \<Rightarrow> (Some (wrapf ''set default launch template version'' err), w1) | (None, w1) \<Rightarrow> (None, w1)))"

definition in_action :: "string \<Rightarrow> goerr option \<times> 'w \<Rightarrow> goerr option \<times> 'w" where
  "in_action name r = (map_option (wrapf name) (fst r), snd r)"

definition runRollback :: "(yval smap \<Rightarrow> asg_rollback_params res) \<Rightarrow> yval smap \<Rightarrow> 'w cloud \<Rightarrow> ctx \<Rightarrow> yval smap \<Rightarrow> 'w
    \<Rightarrow> goerr option \<times> 'w" where
  "runRollback decode defaults api cx params w = (case DecodeFeature decode defaults params of
      Inl err \<Rightarrow> (Some err, w)
    | Inr rp \<Rightarrow>
      if ar_Name (ab_refresh rp) = [] then (Some (Text (actionASGRollback @ '': '' @ [sq] @ ''name'' @ [sq] @ '' is required'')), w)
      else (case rollbackLaunchTemplateID api rp w of
        Inl err \<Rightarrow> (Some (wrapf actionASGRollback err), w)
      | Inr lt \<Rightarrow> (case previousLTVersion api lt w of
          Inl err \<Rightarrow> (Some (wrapf actionASGRollback err), w)
        | Inr prev \<Rightarrow>
          (case cl_CreateVersion api lt (itoa prev) (Some (''rollback to v'' @ itoa prev)) None w of
            (Inl err, w1) \<Rightarrow> (Some (wrapf (actionASGRollback @ '': create launch template version'') err), w1)
          | (Inr None, w1) \<Rightarrow> (Some (Text (actionASGRollback @ '': create launch template version: response carries no version'')), w1)
          | (Inr (Some v), w1) \<Rightarrow>
            (case in_action actionASGRollback (set_default api (or_default (ab_SetDefault rp) True) lt (or_default v 0) w1) of
              (Some err, w2) \<Rightarrow> (Some err, w2)
            | (None, w2) \<Rightarrow> startAndWait api cx (ab_refresh rp) True w2)))))"

section \<open>What success means\<close>

text \<open>The end of a wait: the API answered, about this refresh, that it was successful.\<close>

definition reported :: "'w cloud \<Rightarrow> string \<Rightarrow> string \<Rightarrow> 'w \<Rightarrow> bool" where
  "reported api asg rid w' \<longleftrightarrow> (\<exists>w r rs. cl_DescribeRefreshes api asg (Some rid) w = (Inr (r # rs), w') \<and> rf_Status r = ''Successful'')"

lemma waitForRefresh_ok: "waitForRefresh api e asg rid n w = (None, w') \<Longrightarrow> reported api asg rid w'"
proof (induction n arbitrary: w)
  case 0
  then show ?case
    by (subst (asm) waitForRefresh.simps) (auto simp: reported_def split: prod.splits sum.splits list.splits if_splits)
next
  case (Suc n)
  obtain a w1 where d: "cl_DescribeRefreshes api asg (Some rid) w = (a, w1)" by fastforce
  show ?case
  proof (cases "\<exists>r rs. a = Inr (r # rs) \<and> rf_Status r \<noteq> ''Successful'' \<and> rf_Status r \<notin> set refresh_failed")
    case True
    then have "waitForRefresh api e asg rid n w1 = (None, w')" using Suc.prems d
      by (subst (asm) waitForRefresh.simps) auto
    then show ?thesis by (rule Suc.IH)
  next
    case False
    then show ?thesis using Suc.prems d
      by (subst (asm) waitForRefresh.simps) (auto simp: reported_def split: sum.splits list.splits if_splits)
  qed
qed

lemma started_ok: "started api cx asg n a = (None, w') \<Longrightarrow> \<exists>rid w. a = (Started rid, w) \<and> reported api asg (ptr_str rid) w'"
  using waitForRefresh_ok by (auto simp: started_def split: prod.splits start_answer.splits)

lemma startAndWait_ok:
  assumes "startAndWait api cx p c w = (None, w')"
  shows "(\<not> c \<and> (\<exists>err. cl_StartRefresh api (ar_Name p) (refresh_input p) w = (InProgress err, w')))
    \<or> (\<exists>w0 rid w1. cl_StartRefresh api (ar_Name p) (refresh_input p) w0 = (Started rid, w1) \<and> reported api (ar_Name p) (ptr_str rid) w')"
proof -
  let ?start = "cl_StartRefresh api (ar_Name p) (refresh_input p)"
  obtain a w1 where a: "?start w = (a, w1)" by fastforce
  show ?thesis
  proof (cases "\<exists>err. a = InProgress err")
    case False
    then have "started api cx (ar_Name p) (cx_polls cx) (?start w) = (None, w')"
      using assms a by (auto simp: startAndWait_def split: start_answer.splits)
    then show ?thesis using started_ok by fast
  next
    case True
    show ?thesis
    proof (cases c)
      case False
      then show ?thesis using True assms a by (auto simp: startAndWait_def)
    next
      case cancel: True
      obtain r n w2 where c: "cancelActiveRefresh api cx (ar_Name p) w1 = (r, n, w2)" by (metis prod_cases3)
      then have "started api cx (ar_Name p) n (?start w2) = (None, w')"
        using True cancel assms a by (auto simp: startAndWait_def split: option.splits)
      then show ?thesis using started_ok by fast
    qed
  qed
qed

lemma runRollback_ok:
  assumes "runRollback decode defaults api cx params w = (None, w')"
  shows "\<exists>rp lt nums v w1 w2. DecodeFeature decode defaults params = Inr rp \<and> rollbackLaunchTemplateID api rp w = Inr lt
     \<and> version_numbers (cl_VersionPages api lt w) = Inr nums \<and> length nums \<ge> 2
     \<and> cl_CreateVersion api lt (itoa (rev (sort nums) ! 1)) (Some (''rollback to v'' @ itoa (rev (sort nums) ! 1))) None w
         = (Inr (Some v), w1)
     \<and> set_default api (or_default (ab_SetDefault rp) True) lt (or_default v 0) w1 = (None, w2)
     \<and> startAndWait api cx (ab_refresh rp) True w2 = (None, w')"
proof -
  obtain rp where rp: "DecodeFeature decode defaults params = Inr rp"
    using assms by (auto simp: runRollback_def split: sum.splits)
  obtain lt where lt: "rollbackLaunchTemplateID api rp w = Inr lt"
    using assms rp by (auto simp: runRollback_def split: sum.splits if_splits)
  obtain prev where p: "previousLTVersion api lt w = Inr prev"
    using assms rp lt by (auto simp: runRollback_def split: sum.splits if_splits)
  then obtain nums where n: "version_numbers (cl_VersionPages api lt w) = Inr nums" "length nums \<ge> 2" "prev = rev (sort nums) ! 1"
    by (auto simp: previousLTVersion_def split: sum.splits if_splits)
  obtain v w1 where c: "cl_CreateVersion api lt (itoa prev) (Some (''rollback to v'' @ itoa prev)) None w = (Inr (Some v), w1)"
    using assms rp lt p by (auto simp: runRollback_def split: sum.splits if_splits prod.splits option.splits)
  obtain o2 w2 where s: "set_default api (or_default (ab_SetDefault rp) True) lt (or_default v 0) w1 = (o2, w2)" by fastforce
  have "o2 = None \<and> startAndWait api cx (ab_refresh rp) True w2 = (None, w')"
    using assms rp lt p c s by (auto simp: runRollback_def in_action_def split: if_splits option.splits)
  then show ?thesis using rp lt n c s by blast
qed

text \<open>
  C22. A rollback that reports success has copied the second-highest version of the group's launch template, made the copy the
  default where it was asked to, and after that started a refresh of its own, which the API reported as successful: it is
  never satisfied with a refresh that was already running, which may still deploy the version that is rolled back.
\<close>

theorem runRollback_success:
  assumes "runRollback decode defaults api cx params w = (None, w')"
  shows "\<exists>rp lt nums v w1 w2. DecodeFeature decode defaults params = Inr rp \<and> rollbackLaunchTemplateID api rp w = Inr lt
     \<and> version_numbers (cl_VersionPages api lt w) = Inr nums
     \<and> cl_CreateVersion api lt (itoa (rev (sort nums) ! 1)) (Some (''rollback to v'' @ itoa (rev (sort nums) ! 1))) None w
         = (Inr (Some v), w1)
     \<and> (if ab_SetDefault rp = Some False then w2 = w1 else cl_ModifyTemplate api lt (itoa (or_default v 0)) w1 = (None, w2))
     \<and> (\<exists>w3 rid w4. cl_StartRefresh api (ar_Name (ab_refresh rp)) (refresh_input (ab_refresh rp)) w3 = (Started rid, w4)
          \<and> reported api (ar_Name (ab_refresh rp)) (ptr_str rid) w')"
proof -
  obtain rp lt nums v w1 w2 where *: "DecodeFeature decode defaults params = Inr rp" "rollbackLaunchTemplateID api rp w = Inr lt"
     "version_numbers (cl_VersionPages api lt w) = Inr nums"
     "cl_CreateVersion api lt (itoa (rev (sort nums) ! 1)) (Some (''rollback to v'' @ itoa (rev (sort nums) ! 1))) None w = (Inr (Some v), w1)"
     "set_default api (or_default (ab_SetDefault rp) True) lt (or_default v 0) w1 = (None, w2)"
     "startAndWait api cx (ab_refresh rp) True w2 = (None, w')"
    using runRollback_ok[OF assms] by blast
  have "if ab_SetDefault rp = Some False then w2 = w1 else cl_ModifyTemplate api lt (itoa (or_default v 0)) w1 = (None, w2)"
    using *(5) by (cases "ab_SetDefault rp") (auto simp: set_default_def or_default_def split: if_splits prod.splits option.splits)
  then show ?thesis using *(1-4) startAndWait_ok[OF *(6)] by blast
qed

lemma previous_below:
  assumes "distinct nums" "length nums \<ge> 2"
  shows "rev (sort nums) ! 1 \<in> set nums \<and> rev (sort nums) ! 1 < Max (set nums)
    \<and> (\<forall>n\<in>set nums. n \<le> rev (sort nums) ! 1 \<or> n = Max (set nums))"
proof -
  obtain a b s where s: "rev (sort nums) = a # b # s"
    using assms(2) by (metis One_nat_def Suc_1 Suc_le_length_iff length_rev length_sort)
  have set: "set nums = {a, b} \<union> set s" by (metis s set_rev set_sort set_simps(2) Un_insert_left sup_bot_left)
  have "sorted (rev (a # b # s))" by (metis s rev_rev_ident sorted_sort)
  then have o: "\<forall>x\<in>set s. x \<le> b" "b \<le> a" by (auto simp: sorted_append)
  have "distinct (a # b # s)" by (metis assms(1) distinct_rev distinct_sort s)
  then have "b < a" using o by auto
  have "Max (set nums) = a" using o set by (intro Max_eqI) auto
  then show ?thesis using s o set \<open>b < a\<close> by auto
qed

section \<open>A concrete group\<close>

definition web_refresh :: asg_refresh_params where
  "web_refresh = \<lparr>ar_Name = ''web'', ar_MinHealthy = None, ar_MaxHealthy = None, ar_Warmup = None, ar_SkipMatching = None,
     ar_AutoRollback = None\<rparr>"

definition web_rollback :: asg_rollback_params where
  "web_rollback = \<lparr>ab_refresh = web_refresh, ab_LaunchTemplate = Some \<lparr>lt_ID = ''lt-1'', lt_ASG = []\<rparr>, ab_SetDefault = None\<rparr>"

text \<open>A group on version 7 whose refresh is still running, and settles once it is cancelled.\<close>

definition web_cloud :: "nat cloud" where
  "web_cloud = idle_cloud\<lparr>cl_VersionPages := (\<lambda>l w. [Inr [Some 7, Some 5], Inr [Some 4]]),
     cl_CreateVersion := (\<lambda>l s d i w. (Inr (Some (Some 8)), w)), cl_ModifyTemplate := (\<lambda>l v w. (None, w)),
     cl_StartRefresh := (\<lambda>n p w. if w = 0 then (InProgress Canceled, w) else (Started (Some ''r2''), w)),
     cl_CancelRefresh := (\<lambda>n w. (Cancelling, w)),
     cl_DescribeRefreshes := (\<lambda>n i w. (Inr [\<lparr>rf_Status = (if w = 0 then ''Cancelled'' else ''Successful''), rf_StatusReason = None\<rparr>], 1))\<rparr>"

lemma web_rollback_runs: "runRollback (\<lambda>_. Inr web_rollback) [] web_cloud \<lparr>cx_polls = 2, cx_err = Canceled\<rparr> [] 0 = (None, 1)"
  by code_simp

lemma runRollback_success_witness:
  "\<exists>w3 rid w4. cl_StartRefresh web_cloud ''web'' (refresh_input web_refresh) w3 = (Started rid, w4)
     \<and> reported web_cloud ''web'' (ptr_str rid) 1"
  using runRollback_success[OF web_rollback_runs] by (auto simp: DecodeFeature_def web_rollback_def web_refresh_def)

end
