(* ===== verification/Ami.thy ===== *)
theory Ami
  imports Asg
begin

text \<open>
  The image actions of the aws plugin (\<open>plugins/aws/ec2/ami.go\<close>): bake an image from a running instance, wait
  for it, point a launch template at it; and prune old images with their snapshots. The registration of
  the EC2 features (\<open>register.go\<close>) is here as well.

  The wait is bounded by \<open>amiMaxWait\<close>, which is \<open>ami_polls\<close> intervals; a context that ends before cuts it short.
\<close>

definition actionAMICreate :: string where "actionAMICreate = FeatureAMI @ '':create''"
definition actionAMICleanup :: string where "actionAMICleanup = FeatureAMI @ '':cleanup''"

definition ami_polls :: nat where "ami_polls = 60"

record ami_create_params =
  mc_NamePrefix :: string
  mc_InstanceID :: string
  mc_SourceTags :: "string smap"
  mc_ASG :: string
  mc_NoReboot :: "bool option"
  mc_Wait :: "bool option"
  mc_LaunchTemplate :: "lt_target option"

record ami_cleanup_params =
  ml_NamePrefix :: string
  ml_Tags :: "string list smap"
  ml_KeepLast :: int

section \<open>The source\<close>

definition fetchASG :: "'w cloud \<Rightarrow> string \<Rightarrow> 'w \<Rightarrow> asg_group res" where
  "fetchASG api name w = (case cl_DescribeGroups api name w of
      Inl err \<Rightarrow> Inl (wrapf (''describe ASG '' @ quoted name) err)
    | Inr [] \<Rightarrow> Inl (Text (''ASG '' @ quoted name @ '' not found''))
    | Inr (g # _) \<Rightarrow> Inr g)"

definition first_id :: "string option list \<Rightarrow> string option" where
  "first_id is = (case List.find (\<lambda>i. i \<noteq> None) is of Some i \<Rightarrow> i | None \<Rightarrow> None)"

definition sourceInstanceID :: "'w cloud \<Rightarrow> ami_create_params \<Rightarrow> 'w \<Rightarrow> string res" where
  "sourceInstanceID api p w =
     (if mc_InstanceID p \<noteq> [] then Inr (mc_InstanceID p)
      else if mc_SourceTags p \<noteq> [] then
        (case cl_DescribeInstances api ((''instance-state-name'', [''running'']) #
            map (\<lambda>(k, v). (''tag:'' @ k, [v])) (mc_SourceTags p)) [] w of
          Inl err \<Rightarrow> Inl (wrapf ''describe instances'' err)
        | Inr rs \<Rightarrow> (case first_id (map in_InstanceId (concat rs)) of
            Some i \<Rightarrow> Inr i | None \<Rightarrow> Inl (Text ''no running instance matches source_tags'')))
      else (case fetchASG api (mc_ASG p) w of
          Inl err \<Rightarrow> Inl err
        | Inr g \<Rightarrow> (case first_id (map snd (filter (\<lambda>(st, _). st = ''InService'') (ag_Instances g))) of
            Some i \<Rightarrow> Inr i | None \<Rightarrow> Inl (Text (''no InService instance in ASG '' @ quoted (mc_ASG p))))))"

definition describeInstance :: "'w cloud \<Rightarrow> string \<Rightarrow> 'w \<Rightarrow> ec2_instance res" where
  "describeInstance api iid w = (case cl_DescribeInstances api [] [iid] w of
      Inl err \<Rightarrow> Inl (wrapf (''describe instance '' @ iid) err)
    | Inr rs \<Rightarrow> (case concat rs of [] \<Rightarrow> Inl (Text (''instance '' @ iid @ '' not found'')) | inst # _ \<Rightarrow> Inr inst))"

definition amiTags :: "tag list \<Rightarrow> string \<Rightarrow> tag list" where
  "amiTags tags amiName = filter (\<lambda>(k, _). ptr_str k \<noteq> ''Name'' \<and> \<not> has_prefix (ptr_str k) ''aws:'') tags
     @ [(Some ''Name'', Some amiName)]"

section \<open>Waiting for the image\<close>

definition ami_failed :: "string list" where
  "ami_failed = [''failed'', ''error'', ''invalid'', ''deregistered'', ''disabled'']"

definition waitStopped :: "goerr \<Rightarrow> string \<Rightarrow> string \<Rightarrow> goerr" where
  "waitStopped ctxErr ami lastState = (if ctxErr = DeadlineExceeded
     then Text (''AMI '' @ ami @ '' not available after 30m0s (last state '' @ quoted lastState @ '')'')
     else wrapf (''waiting for AMI '' @ ami @ '' cancelled (last state '' @ quoted lastState @ '')'') ctxErr)"

fun waitForImage :: "'w cloud \<Rightarrow> goerr \<Rightarrow> string \<Rightarrow> bool \<Rightarrow> nat \<Rightarrow> 'w \<Rightarrow> goerr option \<times> 'w" where
  "waitForImage api ctxErr ami seen n w = (case cl_DescribeImage api ami w of
      (ImageNotFound err, w1) \<Rightarrow> (Some (Text (''AMI '' @ ami @ '' no longer exists (deregistered or deleted while pending?)'')), w1)
    | (ImagesFailed err, w1) \<Rightarrow> (Some (wrapf (''describe image '' @ ami) err), w1)
    | (Images [], w1) \<Rightarrow>
        if seen then (Some (Text (''AMI '' @ ami @ '' disappeared mid-build (deregistered or deleted?)'')), w1)
        else (case n of 0 \<Rightarrow> (Some (waitStopped ctxErr ami ''not-yet-visible''), w1)
          | Suc m \<Rightarrow> waitForImage api ctxErr ami seen m w1)
    | (Images (img # _), w1) \<Rightarrow>
        if im_State img = ''available'' then (None, w1)
        else if im_State img \<in> set ami_failed
        then (Some (Text (''AMI '' @ ami @ '' entered state '' @ quoted (im_State img) @ '': '' @ ptr_str (im_Reason img))), w1)
        else (case n of 0 \<Rightarrow> (Some (waitStopped ctxErr ami (im_State img)), w1)
          | Suc m \<Rightarrow> waitForImage api ctxErr ami True m w1))"

declare waitForImage.simps [simp del]

text \<open>The intervals the wait has, and how its context ends.\<close>

definition image_wait :: "'w cloud \<Rightarrow> ctx \<Rightarrow> string \<Rightarrow> 'w \<Rightarrow> goerr option \<times> 'w" where
  "image_wait api cx ami w = (if cx_polls cx < ami_polls
     then waitForImage api (cx_err cx) ami False (cx_polls cx) w
     else waitForImage api DeadlineExceeded ami False ami_polls w)"

section \<open>The launch template\<close>

definition template_of :: "'w cloud \<Rightarrow> lt_target \<Rightarrow> 'w \<Rightarrow> string res" where
  "template_of api t w = (if lt_ID t \<noteq> [] then Inr (lt_ID t)
     else if lt_ASG t = [] then Inl (Text (''launch_template: set '' @ [sq] @ ''id'' @ [sq] @ '' or '' @ [sq] @ ''asg'' @ [sq]))
     else (case fetchASG api (lt_ASG t) w of
        Inl err \<Rightarrow> Inl err
      | Inr g \<Rightarrow> if asgLaunchTemplateID g = [] then Inl (Text (''ASG '' @ quoted (lt_ASG t) @ '' has no launch template''))
          else Inr (asgLaunchTemplateID g)))"

definition patchLaunchTemplate :: "'w cloud \<Rightarrow> lt_target \<Rightarrow> string \<Rightarrow> 'w \<Rightarrow> goerr option \<times> 'w" where
  "patchLaunchTemplate api t ami w = (case template_of api t w of
      Inl err \<Rightarrow> (Some err, w)
    | Inr lt \<Rightarrow> (case cl_CreateVersion api lt ''$Default'' None (Some ami) w of
        (Inl err, w1) \<Rightarrow> (Some (wrapf ''create launch template version'' err), w1)
      | (Inr None, w1) \<Rightarrow> (Some (Text ''create launch template version: response carries no version''), w1)
      | (Inr (Some v), w1) \<Rightarrow> set_default api True lt (or_default v 0) w1))"

section \<open>Create\<close>

text \<open>The steps after the image was requested.\<close>

definition finish_image :: "'w cloud \<Rightarrow> ctx \<Rightarrow> ami_create_params \<Rightarrow> string \<Rightarrow> 'w \<Rightarrow> goerr option \<times> 'w" where
  "finish_image api cx p ami w =
     (case (if mc_Wait p = Some False \<and> mc_LaunchTemplate p = None then (None, w) else image_wait api cx ami w) of
        (Some err, w1) \<Rightarrow> (Some err, w1)
      | (None, w1) \<Rightarrow> (case mc_LaunchTemplate p of None \<Rightarrow> (None, w1) | Some t \<Rightarrow> patchLaunchTemplate api t ami w1))"

definition runCreate :: "(yval smap \<Rightarrow> ami_create_params res) \<Rightarrow> yval smap \<Rightarrow> 'w cloud \<Rightarrow> ctx \<Rightarrow> string \<Rightarrow> yval smap \<Rightarrow> 'w
    \<Rightarrow> goerr option \<times> 'w" where
  "runCreate decode defaults api cx stamp params w = (case DecodeFeature decode defaults params of
      Inl err \<Rightarrow> (Some err, w)
    | Inr p \<Rightarrow>
      if mc_InstanceID p = [] \<and> length (mc_SourceTags p) = 0 \<and> mc_ASG p = []
      then (Some (Text (actionAMICreate @ '': set '' @ [sq] @ ''instance_id'' @ [sq] @ '', '' @ [sq] @ ''source_tags'' @ [sq]
        @ '', or '' @ [sq] @ ''asg'' @ [sq] @ '' to choose the source instance'')), w)
      else (case sourceInstanceID api p w of
        Inl err \<Rightarrow> (Some (wrapf actionAMICreate err), w)
      | Inr iid \<Rightarrow> (case describeInstance api iid w of
          Inl err \<Rightarrow> (Some (wrapf actionAMICreate err), w)
        | Inr inst \<Rightarrow> (let base = or_str (tagValue (in_Tags inst) ''Name'') (mc_NamePrefix p) in
            if base = [] then (Some (Text (actionAMICreate @ '': set '' @ [sq] @ ''name_prefix'' @ [sq] @ '' (source instance ''
              @ iid @ '' has no Name tag)'')), w)
            else (let name = base @ ''-'' @ stamp in
              (case cl_CreateImage api iid name (or_default (mc_NoReboot p) True) (amiTags (in_Tags inst) name) w of
                (Inl err, w1) \<Rightarrow> (Some (wrapf (actionAMICreate @ '': create image'') err), w1)
              | (Inr img, w1) \<Rightarrow> in_action actionAMICreate (finish_image api cx p (ptr_str img) w1)))))))"

section \<open>Cleanup\<close>

fun list_images :: "string \<Rightarrow> (goerr + ec2_image list) list \<Rightarrow> ec2_image list res" where
  "list_images np [] = Inr []"
| "list_images np (Inl err # pages) = Inl (wrapf (actionAMICleanup @ '': describe images'') err)"
| "list_images np (Inr is # pages) = (case list_images np pages of
      Inl err \<Rightarrow> Inl err
    | Inr out \<Rightarrow> Inr (filter (\<lambda>i. np = [] \<or> has_prefix (ptr_str (im_Name i)) (np @ ''-'')) is @ out))"

abbreviation im_date :: "ec2_image \<Rightarrow> string" where "im_date i \<equiv> ptr_str (im_CreationDate i)"

text \<open>Newest first; the library's sort does not say how it orders equal dates, the model keeps listed order.\<close>

definition newest_first :: "ec2_image list \<Rightarrow> ec2_image list" where
  "newest_first is = rev (sort_key im_date (rev is))"

text \<open>The number of warnings comes back with the world.\<close>

fun delete_snapshots :: "'w cloud \<Rightarrow> string option list \<Rightarrow> nat \<times> 'w \<Rightarrow> nat \<times> 'w" where
  "delete_snapshots api [] st = st"
| "delete_snapshots api (None # ss) st = delete_snapshots api ss st"
| "delete_snapshots api (Some s # ss) (n, w) = (case cl_DeleteSnapshot api s w of
      (Some err, w1) \<Rightarrow> delete_snapshots api ss (Suc n, w1)
    | (None, w1) \<Rightarrow> delete_snapshots api ss (n, w1))"

fun remove_images :: "'w cloud \<Rightarrow> ec2_image list \<Rightarrow> nat \<times> 'w \<Rightarrow> nat \<times> 'w" where
  "remove_images api [] st = st"
| "remove_images api (img # is) (n, w) = (case cl_DeregisterImage api (im_ImageId img) w of
      (Some err, w1) \<Rightarrow> remove_images api is (Suc n, w1)
    | (None, w1) \<Rightarrow> remove_images api is (delete_snapshots api (im_Snapshots img) (n, w1)))"

definition keep_count :: "ami_cleanup_params \<Rightarrow> nat" where
  "keep_count p = (if ml_KeepLast p < 1 then 3 else nat (ml_KeepLast p))"

definition runCleanup :: "(yval smap \<Rightarrow> ami_cleanup_params res) \<Rightarrow> yval smap \<Rightarrow> 'w cloud \<Rightarrow> yval smap \<Rightarrow> 'w \<Rightarrow> goerr option \<times> 'w" where
  "runCleanup decode defaults api params w = (case DecodeFeature decode defaults params of
      Inl err \<Rightarrow> (Some err, w)
    | Inr p \<Rightarrow>
      if ml_NamePrefix p = [] \<and> length (ml_Tags p) = 0
      then (Some (Text (actionAMICleanup @ '': set '' @ [sq] @ ''name_prefix'' @ [sq] @ '' and/or '' @ [sq] @ ''tags'' @ [sq]
        @ '' to choose which images to prune'')), w)
      else (case list_images (ml_NamePrefix p) (cl_ImagePages api (tag_filters (ml_Tags p)) w) of
          Inl err \<Rightarrow> (Some err, w)
        | Inr is \<Rightarrow> if length is \<le> keep_count p then (None, w)
            else (None, snd (remove_images api (drop (keep_count p) (newest_first is)) (0, w)))))"

section \<open>Registration of the EC2 features\<close>

record ec2_decoders =
  edc_refresh :: "yval smap \<Rightarrow> asg_refresh_params res"
  edc_rollback :: "yval smap \<Rightarrow> asg_rollback_params res"
  edc_create :: "yval smap \<Rightarrow> ami_create_params res"
  edc_cleanup :: "yval smap \<Rightarrow> ami_cleanup_params res"
  edc_inventory :: "yval smap \<Rightarrow> inventory_params res"

definition ec2_actions :: "ec2_decoders \<Rightarrow> 'w cloud \<Rightarrow> ctx \<Rightarrow> string \<Rightarrow> yval smap smap \<Rightarrow> (string \<times> 'w action) list" where
  "ec2_actions dec api cx stamp fp =
     [(actionASGRefresh, \<lambda>a. world_action (runRefresh (edc_refresh dec) (or_default (m_get fp FeatureASG) []) api cx a)),
      (actionASGRollback, \<lambda>a. world_action (runRollback (edc_rollback dec) (or_default (m_get fp FeatureASG) []) api cx a)),
      (actionAMICreate, \<lambda>a. world_action (runCreate (edc_create dec) (or_default (m_get fp FeatureAMI) []) api cx stamp a)),
      (actionAMICleanup, \<lambda>a. world_action (runCleanup (edc_cleanup dec) (or_default (m_get fp FeatureAMI) []) api a))]"

fun add_all :: "(string \<times> 'w action) list \<Rightarrow> 'w plugin_registry \<Rightarrow> goerr option \<times> 'w plugin_registry" where
  "add_all [] reg = (None, reg)"
| "add_all ((name, fn) # fns) reg = (case AddAction name fn reg of
      (Some err, reg') \<Rightarrow> (Some err, reg') | (None, reg') \<Rightarrow> add_all fns reg')"

definition ec2_Register :: "ec2_decoders \<Rightarrow> 'w cloud \<Rightarrow> ctx \<Rightarrow> string \<Rightarrow> (string \<Rightarrow> bool) \<Rightarrow> (string \<Rightarrow> 'w \<Rightarrow> string list res)
    \<Rightarrow> yval smap smap \<Rightarrow> 'w plugin_registry \<Rightarrow> goerr option \<times> 'w plugin_registry" where
  "ec2_Register dec api cx stamp is_ip lookup fp reg = (case add_all (ec2_actions dec api cx stamp fp) reg of
      (Some err, reg1) \<Rightarrow> (Some err, reg1)
    | (None, reg1) \<Rightarrow> (case m_get fp FeatureInventory of
        None \<Rightarrow> (None, reg1)
      | Some raw \<Rightarrow> (case edc_inventory dec raw of
          Inl err \<Rightarrow> (Some (wrapf (FeatureInventory @ '' params'') err), reg1)
        | Inr p \<Rightarrow> if \<not> hasTagFilter p
            then (Some (Text (FeatureInventory @ '': set '' @ [sq] @ ''tags'' @ [sq]
              @ '' with at least one value to choose which instances to inventory'')), reg1)
            else (None, AddStartup (appendHosts api is_ip lookup p) reg1))))"

section \<open>A template never points at a pending image\<close>

definition seen_available :: "'w cloud \<Rightarrow> string \<Rightarrow> 'w \<Rightarrow> bool" where
  "seen_available api ami w' \<longleftrightarrow> (\<exists>w img is. cl_DescribeImage api ami w = (Images (img # is), w') \<and> im_State img = ''available'')"

lemma waitForImage_ok: "waitForImage api e ami seen n w = (None, w') \<Longrightarrow> seen_available api ami w'"
proof (induction n arbitrary: w seen)
  case 0
  then show ?case
    by (subst (asm) waitForImage.simps)
      (auto simp: seen_available_def split: prod.splits image_answer.splits list.splits if_splits)
next
  case (Suc n)
  obtain a w1 where d: "cl_DescribeImage api ami w = (a, w1)" by fastforce
  note u = waitForImage.simps[of api e ami seen "Suc n" w]
  have s: "seen_available api ami w1" if "a = Images (img # rest)" "im_State img = ''available''" for img rest
    using that d by (auto simp: seen_available_def)
  show ?case using Suc.prems Suc.IH s unfolding u d
    by (auto split: image_answer.splits list.splits if_splits)
qed

lemma image_wait_ok: "image_wait api cx ami w = (None, w') \<Longrightarrow> seen_available api ami w'"
  using waitForImage_ok by (auto simp: image_wait_def split: if_splits)

text \<open>
  A launch template is only ever pointed at an image the API has reported as available: the patch is made in a world that
  answer left, with the template the task names; and when the wait does not end with an available image the action fails and
  no template is touched, whatever \<open>wait\<close> says.
\<close>

theorem finish_image_template:
  assumes "finish_image api cx p ami w = (r, w')" "mc_LaunchTemplate p = Some t"
  shows "if fst (image_wait api cx ami w) = None
     then seen_available api ami (snd (image_wait api cx ami w))
       \<and> patchLaunchTemplate api t ami (snd (image_wait api cx ami w)) = (r, w')
     else image_wait api cx ami w = (r, w')"
  using assms image_wait_ok[of api cx ami w "snd (image_wait api cx ami w)"]
  by (cases "image_wait api cx ami w"; cases "fst (image_wait api cx ami w)") (auto simp: finish_image_def)

section \<open>What the cleanup may remove\<close>

lemma newest_first_props:
  "set (newest_first is) = set is" "length (newest_first is) = length is" "sorted_wrt (\<lambda>a b. im_date b \<le> im_date a) (newest_first is)"
proof -
  show "set (newest_first is) = set is" "length (newest_first is) = length is" by (simp_all add: newest_first_def)
  have "sorted (map im_date (sort_key im_date (rev is)))" by (rule sorted_sort_key)
  then have "sorted_wrt (\<lambda>a b. im_date a \<le> im_date b) (sort_key im_date (rev is))" by (simp add: sorted_map)
  then show "sorted_wrt (\<lambda>a b. im_date b \<le> im_date a) (newest_first is)"
    by (simp add: newest_first_def sorted_wrt_rev)
qed

lemma keep_count_pos: "0 < keep_count p" by (auto simp: keep_count_def)

text \<open>
  A property of the world that no removal of an old image and none of their snapshots touches, survives.
\<close>

lemma delete_snapshots_keeps:
  assumes "\<And>s w. Some s \<in> set ss \<Longrightarrow> P w \<Longrightarrow> P (snd (cl_DeleteSnapshot api s w))"
  shows "P (snd st) \<Longrightarrow> P (snd (delete_snapshots api ss st))"
  using assms
proof (induction api ss st rule: delete_snapshots.induct)
  case (3 api s ss n w)
  obtain o' w1 where d: "cl_DeleteSnapshot api s w = (o', w1)" by fastforce
  have "P w1" using "3.prems"(2)[of s w] "3.prems"(1) d by simp
  then show ?case using 3 d by (cases o') auto
qed simp_all

lemma remove_images_keeps:
  assumes "\<And>i w. i \<in> set is \<Longrightarrow> P w \<Longrightarrow> P (snd (cl_DeregisterImage api (im_ImageId i) w))"
    and "\<And>i s w. i \<in> set is \<Longrightarrow> Some s \<in> set (im_Snapshots i) \<Longrightarrow> P w \<Longrightarrow> P (snd (cl_DeleteSnapshot api s w))"
  shows "P (snd st) \<Longrightarrow> P (snd (remove_images api is st))"
  using assms
proof (induction api "is" st rule: remove_images.induct)
  case (2 api img "is" n w)
  obtain o' w1 where d: "cl_DeregisterImage api (im_ImageId img) w = (o', w1)" by fastforce
  have p: "P w1" using "2.prems"(2)[of img w] "2.prems"(1) d by simp
  have rest: "\<And>i w. i \<in> set is \<Longrightarrow> P w \<Longrightarrow> P (snd (cl_DeregisterImage api (im_ImageId i) w))"
    "\<And>i s w. i \<in> set is \<Longrightarrow> Some s \<in> set (im_Snapshots i) \<Longrightarrow> P w \<Longrightarrow> P (snd (cl_DeleteSnapshot api s w))"
    by (rule "2.prems"(2); simp) (rule "2.prems"(3); simp)
  show ?case
  proof (cases o')
    case (Some err)
    then have "P (snd (remove_images api is (Suc n, w1)))"
      using "2.IH"(2)[OF d[symmetric] Some] p rest by simp
    then show ?thesis using Some d by simp
  next
    case None
    have "P (snd (delete_snapshots api (im_Snapshots img) (n, w1)))"
      by (rule delete_snapshots_keeps[where P = P]) (use p "2.prems"(3) in auto)
    then have "P (snd (remove_images api is (delete_snapshots api (im_Snapshots img) (n, w1))))"
      using "2.IH"(1)[OF d[symmetric] None] rest by simp
    then show ?thesis using None d by simp
  qed
qed simp

text \<open>The images a cleanup prunes from, and those it keeps.\<close>

definition candidates :: "'w cloud \<Rightarrow> ami_cleanup_params \<Rightarrow> 'w \<Rightarrow> ec2_image list" where
  "candidates api p w = (case list_images (ml_NamePrefix p) (cl_ImagePages api (tag_filters (ml_Tags p)) w) of
     Inl _ \<Rightarrow> [] | Inr is \<Rightarrow> is)"

definition kept_images :: "'w cloud \<Rightarrow> ami_cleanup_params \<Rightarrow> 'w \<Rightarrow> ec2_image list" where
  "kept_images api p w = take (keep_count p) (newest_first (candidates api p w))"

definition old_images :: "'w cloud \<Rightarrow> ami_cleanup_params \<Rightarrow> 'w \<Rightarrow> ec2_image list" where
  "old_images api p w = drop (keep_count p) (newest_first (candidates api p w))"

lemma list_images_name:
  "list_images np pages = Inr is \<Longrightarrow> i \<in> set is \<Longrightarrow> np = [] \<or> has_prefix (ptr_str (im_Name i)) (np @ ''-'')"
  by (induction np pages arbitrary: "is" rule: list_images.induct) (auto split: sum.splits)

lemma old_images_older: "i \<in> set (kept_images api p w) \<Longrightarrow> j \<in> set (old_images api p w) \<Longrightarrow> im_date j \<le> im_date i"
  using newest_first_props(3)[of "candidates api p w"] unfolding kept_images_def old_images_def
  by (metis append_take_drop_id sorted_wrt_append)

lemma cleanup_world:
  assumes "DecodeFeature decode defaults params = Inr p"
    and "\<And>i w. i \<in> set (old_images api p start) \<Longrightarrow> P w \<Longrightarrow> P (snd (cl_DeregisterImage api (im_ImageId i) w))"
    and "\<And>i s w. i \<in> set (old_images api p start) \<Longrightarrow> Some s \<in> set (im_Snapshots i) \<Longrightarrow> P w \<Longrightarrow> P (snd (cl_DeleteSnapshot api s w))"
    and "P start"
  shows "P (snd (runCleanup decode defaults api params start))"
proof (cases "list_images (ml_NamePrefix p) (cl_ImagePages api (tag_filters (ml_Tags p)) start)")
  case (Inl err)
  then show ?thesis using assms(1,4) by (simp add: runCleanup_def)
next
  case (Inr ims)
  have "P (snd (remove_images api (drop (keep_count p) (newest_first ims)) (0, start)))"
    by (rule remove_images_keeps[where P = P]; use assms(2-4) Inr in \<open>simp add: old_images_def candidates_def\<close>)
  then show ?thesis using assms(1,4) Inr by (simp add: runCleanup_def)
qed

text \<open>
  C25. A cleanup deregisters old images only and deletes only their snapshots: a property of the world that these calls leave
  alone survives it. The old images are candidates, whose name has the prefix when one is set, none of them is newer than an
  image that is kept, and at least one and at most \<open>keep_last\<close> (three when it is not positive) candidates are kept.
\<close>

theorem runCleanup_spares:
  assumes "DecodeFeature decode defaults params = Inr p"
    and "\<And>i w. i \<in> set (old_images api p start) \<Longrightarrow> P w \<Longrightarrow> P (snd (cl_DeregisterImage api (im_ImageId i) w))"
    and "\<And>i s w. i \<in> set (old_images api p start) \<Longrightarrow> Some s \<in> set (im_Snapshots i) \<Longrightarrow> P w \<Longrightarrow> P (snd (cl_DeleteSnapshot api s w))"
    and "P start"
  shows "P (snd (runCleanup decode defaults api params start))
    \<and> set (kept_images api p start) \<union> set (old_images api p start) = set (candidates api p start)
    \<and> (\<forall>i\<in>set (kept_images api p start). \<forall>j\<in>set (old_images api p start). im_date j \<le> im_date i)
    \<and> (ml_NamePrefix p = [] \<or> (\<forall>j\<in>set (old_images api p start). has_prefix (ptr_str (im_Name j)) (ml_NamePrefix p @ ''-'')))
    \<and> length (kept_images api p start) = min (length (candidates api p start)) (if ml_KeepLast p < 1 then 3 else nat (ml_KeepLast p))"
proof -
  have "P (snd (runCleanup decode defaults api params start))" by (rule cleanup_world[OF assms])
  moreover have all: "set (kept_images api p start) \<union> set (old_images api p start) = set (candidates api p start)"
    unfolding kept_images_def old_images_def using newest_first_props(1) by (metis append_take_drop_id set_append)
  moreover have "ml_NamePrefix p = [] \<or> has_prefix (ptr_str (im_Name j)) (ml_NamePrefix p @ ''-'')" if "j \<in> set (old_images api p start)" for j
  proof -
    have "j \<in> set (candidates api p start)" using that all by blast
    then obtain ims where "list_images (ml_NamePrefix p) (cl_ImagePages api (tag_filters (ml_Tags p)) start) = Inr ims" "j \<in> set ims"
      by (cases "list_images (ml_NamePrefix p) (cl_ImagePages api (tag_filters (ml_Tags p)) start)") (simp_all add: candidates_def)
    then show ?thesis by (rule list_images_name)
  qed
  moreover have "length (kept_images api p start) = min (length (candidates api p start)) (keep_count p)"
    by (simp add: kept_images_def newest_first_props)
  ultimately show ?thesis using old_images_older by (auto simp: keep_count_def)
qed

text \<open>
  The guard against pruning everything counts the keys of \<open>tags\<close>, and a key without values sets no filter: with
  such a key and no prefix, every image of the account is a candidate.
\<close>

lemma cleanup_empty_tags:
  assumes "ml_NamePrefix p = []" "ml_Tags p = [(k, [])]" "cl_ImagePages api [] w = [Inr is]"
  shows "candidates api p w = is"
  using assms by (simp add: candidates_def tag_filters_def)

section \<open>Concrete images\<close>

definition image :: "string \<Rightarrow> string \<Rightarrow> ec2_image" where
  "image n d = \<lparr>im_ImageId = Some n, im_Name = Some (''shop-'' @ n), im_CreationDate = Some d, im_State = ''available'',
     im_Reason = None, im_Snapshots = []\<rparr>"

definition baked :: ami_create_params where
  "baked = \<lparr>mc_NamePrefix = ''shop'', mc_InstanceID = ''i'', mc_SourceTags = [], mc_ASG = [], mc_NoReboot = None,
     mc_Wait = Some False, mc_LaunchTemplate = Some \<lparr>lt_ID = ''lt-1'', lt_ASG = []\<rparr>\<rparr>"

text \<open>The image is pending at first; a patch is seen in the world.\<close>

definition bake_cloud :: "nat cloud" where
  "bake_cloud = idle_cloud\<lparr>cl_DescribeImage := (\<lambda>a w. (Images [(image ''a'' ''2024'')\<lparr>im_State := (if w = 0 then ''pending'' else ''available'')\<rparr>], w + 1)),
     cl_CreateVersion := (\<lambda>l s d i w. (Inr (Some (Some 8)), w + 10)), cl_ModifyTemplate := (\<lambda>l v w. (None, w + 100))\<rparr>"

lemma finish_image_template_witness:
  "finish_image bake_cloud \<lparr>cx_polls = 5, cx_err = Canceled\<rparr> baked ''a'' 0 = (None, 112)
   \<and> patchLaunchTemplate bake_cloud \<lparr>lt_ID = ''lt-1'', lt_ASG = []\<rparr> ''a'' 2 = (None, 112)
   \<and> seen_available bake_cloud ''a'' 2"
proof -
  have f: "finish_image bake_cloud \<lparr>cx_polls = 5, cx_err = Canceled\<rparr> baked ''a'' 0 = (None, 112)" by code_simp
  have w: "image_wait bake_cloud \<lparr>cx_polls = 5, cx_err = Canceled\<rparr> ''a'' 0 = (None, 2)" by code_simp
  have "mc_LaunchTemplate baked = Some \<lparr>lt_ID = ''lt-1'', lt_ASG = []\<rparr>" by (simp add: baked_def)
  from finish_image_template[OF f this] show ?thesis using f by (simp add: w)
qed

definition four_images :: "nat cloud" where
  "four_images = idle_cloud\<lparr>cl_ImagePages := (\<lambda>f w. [Inr [image ''a'' ''2021'', image ''b'' ''2024'', image ''c'' ''2023'', image ''d'' ''2022'']]),
     cl_DeregisterImage := (\<lambda>i w. (None, if i = Some ''b'' then 7 else w))\<rparr>"

definition prune_shop :: ami_cleanup_params where
  "prune_shop = \<lparr>ml_NamePrefix = ''shop'', ml_Tags = [], ml_KeepLast = 0\<rparr>"

lemma runCleanup_spares_witness:
  "snd (runCleanup (\<lambda>_. Inr prune_shop) [] four_images [] 0) = 0 \<and> length (kept_images four_images prune_shop 0) = 3"
proof -
  have old: "old_images four_images prune_shop 0 = [image ''a'' ''2021'']" and n: "length (candidates four_images prune_shop 0) = 4"
    by code_simp+
  have "DecodeFeature (\<lambda>_. Inr prune_shop) [] [] = Inr prune_shop" by (simp add: DecodeFeature_def)
  note spec = runCleanup_spares[OF this, where P = "\<lambda>w. w = 0" and api = four_images and start = 0]
  have "snd (cl_DeregisterImage four_images (im_ImageId i) w) = 0" if "i \<in> set (old_images four_images prune_shop 0)" "w = 0" for i w
    using that by (simp add: old) (simp add: four_images_def image_def)
  moreover have "snd (cl_DeleteSnapshot four_images s w) = 0" if "w = 0" for s w
    using that by (simp add: four_images_def idle_cloud_def)
  ultimately show ?thesis using spec n by (simp add: prune_shop_def[THEN arg_cong[where f = ml_KeepLast]])
qed

end
