(* ===== verification/Aws.thy ===== *)
theory Aws
  imports Cli_Load Systemd Secretstore Ssm Credentials Ami
begin

text \<open>
  The aws plugin as a whole (\<open>plugins/aws/aws.go\<close>): its configuration resolves the credentials, builds one
  SDK configuration and hands it to the features. The theorems put the plugin into the program: what a load
  registers, and what the dotenv actions do when the executor runs them.

  The clients a feature builds from the SDK configuration are functions of it, in \<open>aws_env\<close> with the other parameters.
\<close>

record ('c, 's, 'w) aws_env =
  ae_decode :: "yval smap \<Rightarrow> aws_config res"
  ae_cred :: "('c, 's, 'w) cred_env"
  ae_cloud :: "'s \<Rightarrow> 'w cloud"
  ae_ssm :: "'s \<Rightarrow> 'w ssm_api"
  ae_secrets :: "'s \<Rightarrow> 'w secrets_api"
  ae_json :: "string \<Rightarrow> jval smap option"
  ae_fs :: "'w operator_fs"
  ae_host_writer :: bool
  ae_ctx :: ctx
  ae_stamp :: string
  ae_is_ip :: "string \<Rightarrow> bool"
  ae_lookup :: "string \<Rightarrow> 'w \<Rightarrow> string list res"
  ae_ec2_dec :: ec2_decoders
  ae_ssm_dec :: ssm_decoders
  ae_secrets_dec :: secrets_decoders

section \<open>Configuration\<close>

definition aws_features :: "string list" where
  "aws_features = [FeatureInventory, FeatureASG, FeatureAMI, ssm_Feature, secrets_Feature]"

fun index_features :: "plugin_action_spec list \<Rightarrow> yval smap smap \<Rightarrow> yval smap smap res" where
  "index_features [] fp = Inr fp"
| "index_features (act # acts) fp = (if pa_Name act \<in> set aws_features
     then index_features acts (m_put (pa_Name act) (pa_Params act) fp)
     else Inl (Text (''unknown aws action '' @ quoted (pa_Name act) @ '' (want '' @ quoted FeatureInventory @ '', ''
       @ quoted FeatureASG @ '', '' @ quoted FeatureAMI @ '', '' @ quoted ssm_Feature @ '', or '' @ quoted secrets_Feature @ '')'')))"

definition indexFeatures :: "plugin_action_spec list \<Rightarrow> yval smap smap res" where
  "indexFeatures acts = index_features acts []"

definition register_features :: "('c, 's, 'w) aws_env \<Rightarrow> 's \<Rightarrow> yval smap smap \<Rightarrow> 'w plugin_registry \<Rightarrow> goerr option \<times> 'w plugin_registry" where
  "register_features ae s fp reg =
     (case ec2_Register (ae_ec2_dec ae) (ae_cloud ae s) (ae_ctx ae) (ae_stamp ae) (ae_is_ip ae) (ae_lookup ae) fp reg of
        (Some err, reg1) \<Rightarrow> (Some err, reg1)
      | (None, reg1) \<Rightarrow> (case ssm_Register (ae_ssm_dec ae) (ae_ssm ae s) (ae_fs ae) (ae_host_writer ae) fp reg1 of
          (Some err, reg2) \<Rightarrow> (Some err, reg2)
        | (None, reg2) \<Rightarrow> secrets_Register (ae_secrets_dec ae) (ae_secrets ae s) (ae_json ae) (ae_fs ae) (ae_host_writer ae) fp reg2))"

definition aws_Configure :: "('c, 's, 'w) aws_env \<Rightarrow> plugin_spec \<Rightarrow> 'w plugin_registry \<Rightarrow> 'w
    \<Rightarrow> goerr option \<times> 'w plugin_registry \<times> string list \<times> 'w" where
  "aws_Configure ae spec reg w = (case ae_decode ae (ps_Params spec) of
      Inl err \<Rightarrow> (Some (wrapf ''aws params'' err), reg, [], w)
    | Inr c \<Rightarrow> (case loadAWS (ae_cred ae) c w of
        (Inl err, secs, w1) \<Rightarrow> (Some (wrapf ''load aws config'' err), reg, secs, w1)
      | (Inr s, secs, w1) \<Rightarrow> (case indexFeatures (ps_Actions spec) of
          Inl err \<Rightarrow> (Some err, reg, secs, w1)
        | Inr fp \<Rightarrow> (case register_features ae s fp reg of (r, reg1) \<Rightarrow> (r, reg1, secs, w1)))))"

definition pluginAWS :: string where "pluginAWS = ''aws''"

definition aws_plugin :: "('c, 's, 'w) aws_env \<Rightarrow> 'w plugin" where
  "aws_plugin ae = \<lparr>pl_Configure = aws_Configure ae, pl_Version = Some ''1.0.0'', pl_Commands = None\<rparr>"

section \<open>Every startup hook of the plugin registers what it imports\<close>

definition imports_safe :: "'w plugin_registry \<Rightarrow> bool" where
  "imports_safe reg \<longleftrightarrow> list_all import_hook (rg_startups reg)"

lemma AddAction_safe: "imports_safe reg \<Longrightarrow> imports_safe (snd (AddAction name fn reg))"
  by (simp add: AddAction_def imports_safe_def)

lemma AddStartup_safe: "imports_safe reg \<Longrightarrow> import_hook fn \<Longrightarrow> imports_safe (AddStartup fn reg)"
  by (simp add: AddStartup_def imports_safe_def)

lemma add_all_safe: "imports_safe reg \<Longrightarrow> imports_safe (snd (add_all fns reg))"
proof (induction fns reg rule: add_all.induct)
  case (2 name fn fns reg)
  then show ?case using AddAction_safe[of reg name fn] by (auto split: prod.split option.split)
qed simp

lemma ec2_safe:
  assumes "imports_safe reg"
  shows "imports_safe (snd (ec2_Register dec api cx stamp is_ip lookup fp reg))"
proof -
  obtain r reg1 where a: "add_all (ec2_actions dec api cx stamp fp) reg = (r, reg1)" by fastforce
  then have "imports_safe reg1" using add_all_safe[OF assms, of "ec2_actions dec api cx stamp fp"] by simp
  then show ?thesis
    by (auto simp: ec2_Register_def a intro!: AddStartup_safe inventory_hook.import_hook_axioms split: option.split sum.split)
qed

lemma ssm_safe:
  assumes "imports_safe reg"
  shows "imports_safe (snd (ssm_Register dec api fs hw fp reg))"
proof -
  let ?act = "ssm_runEnvironmentFile (mdc_env dec) (or_default (m_get fp ssm_Feature) []) api fs hw"
  obtain r reg1 where a: "AddAction (ssm_Feature @ '':to-dotenv'') ?act reg = (r, reg1)" by fastforce
  then have "imports_safe reg1" using AddAction_safe[OF assms, of "ssm_Feature @ '':to-dotenv''" ?act] by simp
  then show ?thesis
    by (auto simp: ssm_Register_def a intro!: AddStartup_safe ssm_hook.import_hook_axioms split: option.split sum.split)
qed

lemma secrets_safe:
  assumes "imports_safe reg"
  shows "imports_safe (snd (secrets_Register dec api json fs hw fp reg))"
proof -
  let ?act = "secrets_runEnvironmentFile (sdc_env dec) (or_default (m_get fp secrets_Feature) []) api json fs hw"
  obtain r reg1 where a: "AddAction (secrets_Feature @ '':to-dotenv'') ?act reg = (r, reg1)" by fastforce
  then have "imports_safe reg1" using AddAction_safe[OF assms, of "secrets_Feature @ '':to-dotenv''" ?act] by simp
  then show ?thesis
    by (auto simp: secrets_Register_def a intro!: AddStartup_safe secrets_hook.import_hook_axioms split: option.split sum.split)
qed

lemma features_safe:
  assumes "imports_safe reg"
  shows "imports_safe (snd (register_features ae s fp reg))"
proof -
  obtain r1 reg1 where e: "ec2_Register (ae_ec2_dec ae) (ae_cloud ae s) (ae_ctx ae) (ae_stamp ae) (ae_is_ip ae) (ae_lookup ae) fp reg = (r1, reg1)"
    by fastforce
  obtain r2 reg2 where m: "ssm_Register (ae_ssm_dec ae) (ae_ssm ae s) (ae_fs ae) (ae_host_writer ae) fp reg1 = (r2, reg2)"
    by fastforce
  have s1: "imports_safe reg1" using ec2_safe[OF assms] e by (metis snd_conv)
  then have s2: "imports_safe reg2" using ssm_safe[OF s1] m by (metis snd_conv)
  show ?thesis using s1 s2 by (auto simp: register_features_def e m intro!: secrets_safe split: option.split)
qed

lemma aws_Configure_safe:
  assumes "imports_safe reg"
  shows "imports_safe (fst (snd (aws_Configure ae spec reg w)))"
proof -
  have "imports_safe r" if "register_features ae s fp reg = (o', r)" for s fp o' r
    using features_safe[OF assms, of ae s fp] that by simp
  then show ?thesis using assms by (auto simp: aws_Configure_def split: prod.split sum.split)
qed

section \<open>A load registers every value it imports\<close>

text \<open>A table whose plugins keep to the contract: their hooks register what they import.\<close>

definition safe_plugin :: "'w plugin \<Rightarrow> bool" where
  "safe_plugin f \<longleftrightarrow> (\<forall>spec reg w. imports_safe reg \<longrightarrow> imports_safe (fst (snd (pl_Configure f spec reg w))))"

lemma aws_plugin_safe: "safe_plugin (aws_plugin ae)"
  using aws_Configure_safe by (auto simp: safe_plugin_def aws_plugin_def)

lemma load_specs_safe:
  assumes "\<forall>f\<in>snd ` set (pt_factories tbl). safe_plugin f"
  shows "load_specs tbl specs r w = (Inr reg, secs, w') \<Longrightarrow> imports_safe r \<Longrightarrow> imports_safe reg"
proof (induction specs arbitrary: r w secs)
  case (Cons spec specs)
  obtain f where f: "m_get (pt_factories tbl) (ps_Name spec) = Some f" using Cons.prems(1) by (auto split: option.splits)
  obtain o1 r1 s1 w1 where c: "pl_Configure f spec r w = (o1, r1, s1, w1)" by (metis prod_cases4)
  have "safe_plugin f" using assms m_get_in_set[OF f] by force
  then have "imports_safe r1" using Cons.prems(2) c unfolding safe_plugin_def by (metis fst_conv snd_conv)
  moreover obtain s2 where "load_specs tbl specs r1 w1 = (Inr reg, s2, w')"
    using Cons.prems(1) f c by (auto split: option.splits prod.splits)
  ultimately show ?case using Cons.IH by blast
qed simp

lemma ApplyDefaults_imports [simp]: "imported_values (ApplyDefaults cfg) = imported_values cfg"
  by (simp add: imported_values_def ApplyDefaults_def)

lemma start_plugins_imports:
  assumes "\<forall>f\<in>snd ` set (pt_factories tbl). safe_plugin f" "start_plugins tbl cfg w = (Inr (cfg', preg), secs, w')"
  shows "imported_values cfg' \<subseteq> imported_values cfg \<union> set secs"
proof -
  obtain s1 w1 where l: "Load_plugins tbl (cfg_Plugins cfg) w = (Inr preg, s1, w1)"
    using assms(2) by (auto simp: start_plugins_def split: prod.splits sum.splits option.splits)
  have "imports_safe (newRegistry :: 'a plugin_registry)" by (simp add: imports_safe_def newRegistry_def)
  then have "list_all import_hook (rg_startups preg)"
    using load_specs_safe[OF assms(1)] l unfolding Load_plugins_def imports_safe_def by blast
  obtain c1 s2 where r: "run_startups (rg_startups preg) cfg w1 = (None, c1, s2, w')" "cfg' = ApplyDefaults c1" "secs = s1 @ s2"
    using assms(2) l by (auto simp: start_plugins_def RunStartup_def split: prod.splits option.splits)
  then have "imported_values c1 \<subseteq> imported_values cfg \<union> set s2"
    using \<open>list_all import_hook (rg_startups preg)\<close> by (intro run_startups_import)
  then show ?thesis using r by auto
qed

lemma note_all_covers: "registry_ok r \<Longrightarrow> v \<in> set secs \<Longrightarrow> covered (note_all secs r) v"
proof (induction secs arbitrary: r)
  case (Cons s secs)
  have ok: "registry_ok (AddSecret s r)" using AddSecret_registry[OF Cons.prems(1)] by simp
  show ?case
  proof (cases "v = s")
    case True
    have "covered (AddSecret s r) s" by (rule covered_AddSecret[OF Cons.prems(1)])
    then show ?thesis using covered_mono reg_le_note_all unfolding True note_all_def fold_simps(2) by (metis note_all_def)
  next
    case False
    then have "covered (note_all secs (AddSecret s r)) v" using Cons.IH[OF ok] Cons.prems(2) by simp
    then show ?thesis by (simp add: note_all_def)
  qed
qed simp

lemma offline_ok:
  assumes "loadOffline cl given stage reg = Some ((Inr cfg, reg'), out)" "registry_ok reg"
  shows "registry_ok reg'"
proof -
  obtain r where r: "resolveOffline cl given stage reg = Some ((r, reg'), out)" "map_err (\<lambda>e. the (as_config (Some e))) r = Inr cfg"
    using assms(1) by (auto simp: loadOffline_def)
  then have "r = Inr cfg" by (cases r) (simp_all add: map_err_def)
  then obtain cfg0 where "resolve_loaded cl cfg0 reg = ((Inr cfg, reg'), out)"
    using r(1) by (auto simp: resolveOffline_def split: sum.splits option.splits)
  then obtain lc masked c1 r1 c2 r2 c3 r3 r4 where
    1: "renderVars (cl_engine cl) (cl_deployer cl) (cfg0\<lparr>cfg_Log := lc\<rparr>) reg = (Inr c1, r1)"
    and 2: "renderAppBranch (cl_engine cl) (cl_deployer cl) c1 r1 = (Inr c2, r2)"
    and 3: "renderSSHSecrets (cl_engine cl) (cl_deployer cl) c2 r2 = (Inr c3, r3)"
    and 4: "renderPluginParams (cl_engine cl) (cl_deployer cl)
       (selectPluginsForStage (c3\<lparr>cfg_Plugins := DefaultSpecs (cl_table cl) (cfg_Plugins c3)\<rparr>)) r3 = (Inr cfg, r4)"
    and 5: "checkTemplates cl cfg r4 = ([], reg')"
    by (rule resolve_loaded_steps) blast
  have "reg_le r4 reg'" using checkTemplates_findings(2)[of r4 cl cfg] 5 by simp
  then show ?thesis using assms(2) 1 2 3 4 grows_steps[THEN grows_okD] by (metis ok_mono)
qed

text \<open>
  C10. When a load has run the aws plugin, every value that a startup hook imported into the template context is
  registered with the masker before any command runs: no line of it that is long enough to be masked is left in any
  text, whatever secrets are registered later.
\<close>

theorem aws_imports_masked:
  assumes "pt_factories (cl_table cl) = [(pluginAWS, aws_plugin ae)]" "registry_ok reg"
    and "loadOffline cl given stage reg = Some ((Inr cfg0, reg0), out0)"
    and "loadConfig cl given stage reg w = Some (Inr (cfg, preg), reg', out, w')"
    and "m_get (cfg_Imports cfg) ns = Some vars" "m_get vars key = Some v" "v \<notin> imported_values cfg0"
    and "u \<in> set (secret_values v)" "plain_secret u"
  shows "\<not> contains_str (replaceSecrets (note_all later reg') tmpl) u"
proof -
  obtain secs where s: "start_plugins (cl_table cl) cfg0 w = (Inr (cfg, preg), secs, w')" "reg' = note_all secs reg0"
    using assms(3,4) by (auto simp: loadConfig_def split: prod.splits)
  have "\<forall>f\<in>snd ` set (pt_factories (cl_table cl)). safe_plugin f" using assms(1) aws_plugin_safe by simp
  then have "imported_values cfg \<subseteq> imported_values cfg0 \<union> set secs" by (rule start_plugins_imports[OF _ s(1)])
  moreover have "v \<in> imported_values cfg" using m_get_in_set[OF assms(5)] m_get_in_set[OF assms(6)]
    by (force simp: imported_values_def)
  moreover have "registry_ok reg0" using offline_ok assms(2,3) by blast
  ultimately have "covered reg' v" using note_all_covers s(2) assms(7) by blast
  then have "covered (note_all later reg') v" using covered_mono reg_le_note_all by blast
  then show ?thesis using replace_removes[OF assms(9)] assms(8) by (auto simp: covered_def)
qed

section \<open>The dotenv actions, as the executor runs them\<close>

definition put_env :: "(string \<times> string) list \<Rightarrow> string smap \<Rightarrow> string smap" where
  "put_env kvs = fold (\<lambda>(k, v). m_put (NormalizeKey k) v) kvs"

lemma put_env_append [simp]: "put_env (a @ b) e = put_env b (put_env a e)" by (simp add: put_env_def)

lemma put_env_Nil [simp]: "put_env [] e = e" by (simp add: put_env_def)

lemma add_secrets_append [simp]: "add_secrets b (add_secrets a e) = add_secrets (a @ b) e"
  by (simp add: add_secrets_def)

lemma add_secrets_Nil [simp]: "add_secrets [] e = e" by (simp add: add_secrets_def)

lemma add_secrets_world [simp]: "e_world (add_secrets a e) = e_world e" by (simp add: add_secrets_def)

lemma same_world: "e\<lparr>e_world := e_world e\<rparr> = e"
  by simp

lemma run_put_vars: "run_prog x t hosts (put_vars kvs env k) e
    = run_prog x t hosts (k (put_env kvs env)) (add_secrets (map snd kvs) e)"
  by (induction kvs env k arbitrary: e rule: put_vars.induct) (simp_all add: put_env_def)

text \<open>What a part of the action did: it went on with the variables it took, or stopped with an error after them.\<close>

definition went_on :: "(goerr option \<times> 'w exec) \<Rightarrow> bool \<Rightarrow> (string \<times> string) list \<Rightarrow> string smap \<Rightarrow> 'w exec
    \<Rightarrow> (string smap \<Rightarrow> 'w exec \<Rightarrow> goerr option \<times> 'w exec) \<Rightarrow> bool" where
  "went_on r ok vars env e k \<longleftrightarrow> (if ok then r = k (put_env vars env) (add_secrets (map snd vars) e)
     else \<exists>err. r = (Some err, add_secrets (map snd vars) e))"

lemma went_on_trans:
  "went_on r ok b (put_env a env) (add_secrets (map snd a) e) k \<Longrightarrow> went_on r ok (a @ b) env e k"
  by (cases ok) (simp_all add: went_on_def)

lemma run_env_secrets:
  "went_on (run_prog x t hosts (env_secrets json p secs env k) e) (list_all (sec_ok json (se_JSON p)) secs)
     (concat (map (sec_vars json (se_JSON p) (se_FullKeyPath p)) (takeWhile (sec_ok json (se_JSON p)) secs))) env e
     (\<lambda>env. run_prog x t hosts (k env))"
proof (induction secs arbitrary: env e)
  case (Cons sec secs)
  show ?case
  proof (cases "expandSecret json (rs_value sec) (se_JSON p)")
    case (Inl err)
    then show ?thesis by (simp add: went_on_def sec_ok_def is_ok_def)
  next
    case (Inr o')
    then have ok: "sec_ok json (se_JSON p) sec" by (simp add: sec_ok_def is_ok_def)
    have "env_secrets json p (sec # secs) env k
        = put_vars (sec_vars json (se_JSON p) (se_FullKeyPath p) sec) env (\<lambda>e1. env_secrets json p secs e1 k)"
      using Inr by (cases o') (simp_all add: sec_vars_def)
    then show ?thesis using ok went_on_trans[OF Cons.IH] by (simp add: run_put_vars)
  qed
qed (simp add: went_on_def)

text \<open>
  The loop over the prefixes, which the two dotenv actions share: each prefix is read from the world, gives its variables
  and lets the rest go on when it is whole.
\<close>

locale dotenv_loop =
  fixes loop :: "string list \<Rightarrow> string smap \<Rightarrow> (string smap \<Rightarrow> 'w prog) \<Rightarrow> 'w prog"
    and ok :: "'w \<Rightarrow> string \<Rightarrow> bool" and vars :: "'w \<Rightarrow> string \<Rightarrow> (string \<times> string) list"
    and x :: "('t, 'w) ext" and t :: task and hosts :: "host list"
  assumes none: "loop [] env k = k env"
    and step: "e_world e = w \<Longrightarrow> went_on (run_prog x t hosts (loop (pre # ps) env k) e) (ok w pre) (vars w pre) env e
      (\<lambda>env. run_prog x t hosts (loop ps env k))"
begin

lemma run_loop:
  "e_world e = w \<Longrightarrow> went_on (run_prog x t hosts (loop ps env k) e) (list_all (ok w) ps)
     (concat (map (vars w) (reached (ok w) ps))) env e (\<lambda>env. run_prog x t hosts (k env))"
proof (induction ps arbitrary: env e)
  case Nil
  then show ?case by (simp add: went_on_def none)
next
  case (Cons pre ps)
  note one = step[OF Cons.prems, of pre ps env k]
  show ?case
  proof (cases "ok w pre")
    case False
    then show ?thesis using one by (simp add: went_on_def)
  next
    case True
    have "went_on (run_prog x t hosts (loop ps (put_env (vars w pre) env) k) (add_secrets (map snd (vars w pre)) e))
        (list_all (ok w) ps) (concat (map (vars w) (reached (ok w) ps))) (put_env (vars w pre) env)
        (add_secrets (map snd (vars w pre)) e) (\<lambda>env. run_prog x t hosts (k env))"
      using Cons.prems by (intro Cons.IH) simp
    moreover have "run_prog x t hosts (loop (pre # ps) env k) e
        = run_prog x t hosts (loop ps (put_env (vars w pre) env) k) (add_secrets (map snd (vars w pre)) e)"
      using one True by (simp add: went_on_def)
    ultimately show ?thesis using went_on_trans[of _ _ _ "vars w pre" env e] True by simp
  qed
qed

end

lemma run_world_read:
  assumes "e_world e = w"
  shows "run_prog x t hosts (World (\<lambda>w. (f w, w))) e = run_prog x t hosts (f w) e"
proof -
  have "run_prog x t hosts (World (\<lambda>w. (f w, w))) e = run_prog x t hosts (f w) (e\<lparr>e_world := w\<rparr>)" using assms by simp
  moreover have "e\<lparr>e_world := w\<rparr> = e" using same_world[of e] unfolding assms .
  ultimately show ?thesis by (simp only:)
qed

interpretation secrets_loop: dotenv_loop "env_prefixes api json p" "prefix_ok api json (se_JSON p)"
  "prefix_vars api json (se_JSON p) (se_FullKeyPath p)" x t hosts for api json p x t hosts
proof
  fix env k
  show "env_prefixes api json p [] env k = k env" by simp
next
  fix e :: "'a exec" and w pre ps env k
  let ?mode = "se_JSON p" and ?full = "se_FullKeyPath p" and ?k = "\<lambda>e1. env_prefixes api json p ps e1 k"
  assume w: "e_world e = w"
  show "went_on (run_prog x t hosts (env_prefixes api json p (pre # ps) env k) e) (prefix_ok api json ?mode w pre)
      (prefix_vars api json ?mode ?full w pre) env e (\<lambda>env. run_prog x t hosts (?k env))"
  proof (cases "fetchPrefix api w pre")
    case (Inl err)
    then show ?thesis using w
      by (simp add: run_world_read[OF w] went_on_def prefix_ok_def is_ok_def prefix_vars_def fetched_def del: run_World)
  next
    case (Inr secs)
    then have "prefix_ok api json ?mode w pre \<longleftrightarrow> list_all (sec_ok json ?mode) secs"
      "prefix_vars api json ?mode ?full w pre = concat (map (sec_vars json ?mode ?full) (takeWhile (sec_ok json ?mode) secs))"
      by (simp_all add: prefix_ok_def is_ok_def prefix_vars_def fetched_def)
    moreover have "run_prog x t hosts (env_prefixes api json p (pre # ps) env k) e
        = run_prog x t hosts (env_secrets json p secs env ?k) e"
      using Inr by (simp add: run_world_read[OF w] del: run_World)
    ultimately show ?thesis using run_env_secrets[of x t hosts json p secs env ?k e] by simp
  qed
qed

interpretation ssm_loop: dotenv_loop "ssm_env_prefixes api p"
  "ssm_ok api (or_default (me_Recursive p) True) (or_default (me_Decrypt p) True)"
  "ssm_prefix_vars api (me_FullKeyPath p) (or_default (me_Recursive p) True) (or_default (me_Decrypt p) True)" x t hosts
  for api p x t hosts
proof
  fix env k
  show "ssm_env_prefixes api p [] env k = k env" by simp
next
  fix e :: "'a exec" and w pre ps env k
  let ?fetch = "ssm_fetchPrefix api w pre (or_default (me_Recursive p) True) (or_default (me_Decrypt p) True)"
  assume w: "e_world e = w"
  show "went_on (run_prog x t hosts (ssm_env_prefixes api p (pre # ps) env k) e)
      (ssm_ok api (or_default (me_Recursive p) True) (or_default (me_Decrypt p) True) w pre)
      (ssm_prefix_vars api (me_FullKeyPath p) (or_default (me_Recursive p) True) (or_default (me_Decrypt p) True) w pre) env e
      (\<lambda>env. run_prog x t hosts (ssm_env_prefixes api p ps env k))"
  proof (cases ?fetch)
    case (Inl err)
    then show ?thesis
      by (simp add: run_world_read[OF w] went_on_def ssm_ok_def is_ok_def ssm_prefix_vars_def del: run_World)
  next
    case (Inr params)
    then show ?thesis
      by (simp add: run_world_read[OF w] run_put_vars went_on_def ssm_ok_def is_ok_def ssm_prefix_vars_def del: run_World)
  qed
qed

lemma put_env_one [simp]: "put_env [(k, v)] env = m_put (NormalizeKey k) v env"
  by (simp add: put_env_def)

lemma put_env_values: "snd ` set (put_env kvs env) \<subseteq> snd ` set env \<union> snd ` set kvs"
proof (induction kvs rule: rev_induct)
  case (snoc kv kvs)
  obtain k v where kv: "kv = (k, v)" by fastforce
  show ?case
  proof
    fix u
    assume "u \<in> snd ` set (put_env (kvs @ [kv]) env)"
    then obtain j where "(j, u) \<in> set (m_put (NormalizeKey k) v (put_env kvs env))" by (auto simp: kv)
    then have "u = v \<or> u \<in> snd ` set (put_env kvs env)" by (force dest: put_set)
    then show "u \<in> snd ` set env \<union> snd ` set (kvs @ [kv])" using snoc kv by auto
  qed
qed simp

lemma put_env_keys: "j \<in> fst ` set (put_env kvs []) \<Longrightarrow> env_key j"
proof (induction kvs rule: rev_induct)
  case (snoc kv kvs)
  obtain k v where kv: "kv = (k, v)" by fastforce
  obtain u where "(j, u) \<in> set (m_put (NormalizeKey k) v (put_env kvs []))" using snoc.prems by (auto simp: kv)
  then have "j = NormalizeKey k \<or> j \<in> fst ` set (put_env kvs [])" by (force dest: put_set)
  then show ?case using snoc.IH NormalizeKey_key by blast
qed simp

lemma read_put_env: "read_dotenv (Render_dotenv (put_env kvs []) m)
    = Some (map (\<lambda>k. (k, map Lit (replace_all [cr, nl] [nl] (the (m_get (put_env kvs []) k))))) (sorted_keys (put_env kvs [])))"
proof -
  have "list_all (\<lambda>k. CHR ''='' \<notin> set k) (sorted_keys (put_env kvs []))"
    unfolding list_all_iff set_sorted_keys using put_env_keys env_key_no_eq by blast
  then show ?thesis unfolding Render_dotenv_def by (rule read_Render)
qed

lemma dotenv_written:
  assumes "went_on (run_prog x t hosts p e) ok vars [] e
      (\<lambda>env. run_prog x t hosts (envfile_Write fs True path (Render_dotenv env m)))"
  shows "let env = put_env vars []; content = Render_dotenv env m; e1 = add_secrets (map snd vars) e in
    (if ok then run_prog x t hosts p e = host_WriteFile x t hosts path content e1 else \<exists>err. run_prog x t hosts p e = (Some err, e1))
    \<and> read_dotenv content = Some (map (\<lambda>k. (k, map Lit (replace_all [cr, nl] [nl] (the (m_get env k))))) (sorted_keys env))
    \<and> snd ` set env \<subseteq> set (map snd vars)"
proof -
  have "run_prog x t hosts (envfile_Write fs True path c) e' = host_WriteFile x t hosts path c e'" for c e'
    by (simp add: envfile_Write_def split: prod.split)
  then show ?thesis using assms put_env_values[of vars "[]"] unfolding Let_def read_put_env by (simp add: went_on_def)
qed

lemma secrets_dotenv_prog:
  assumes "DecodeFeature dec defaults raw = Inr p" and "se_Prefixes p \<noteq> []" and "se_Path p \<noteq> []"
  shows "let vars = all_vars api json (se_JSON p) (se_FullKeyPath p) (e_world e) (se_Prefixes p); env = put_env vars [];
      content = Render_dotenv env (or_default (se_Multiline p) True); e1 = add_secrets (map snd vars) e;
      run = run_prog x t hosts (secrets_runEnvironmentFile dec defaults api json fs True raw) e in
    (if list_all (prefix_ok api json (se_JSON p) (e_world e)) (se_Prefixes p)
     then run = host_WriteFile x t hosts (se_Path p) content e1 else \<exists>err. run = (Some err, e1))
    \<and> read_dotenv content = Some (map (\<lambda>k. (k, map Lit (replace_all [cr, nl] [nl] (the (m_get env k))))) (sorted_keys env))
    \<and> snd ` set env \<subseteq> set (map snd vars)"
proof -
  have eq: "secrets_runEnvironmentFile dec defaults api json fs True raw = env_prefixes api json p (se_Prefixes p) []
      (\<lambda>env. envfile_Write fs True (se_Path p) (Render_dotenv env (or_default (se_Multiline p) True)))"
    using assms by (simp add: secrets_runEnvironmentFile_def)
  show ?thesis
    unfolding Let_def eq all_vars_def by (rule dotenv_written[unfolded Let_def, OF secrets_loop.run_loop[OF refl]])
qed

text \<open>The step of a task that names a registered action, once its parameters are rendered.\<close>

lemma runAction_registered:
  assumes "exec_renderParams x (task_With t) e = (Inr raw, e0)" "x_reg x = Some reg" "Action reg (task_Action t) = Some fn"
  shows "runAction x t e = (if e_dryRun e0 then (None, echoDryRun x [] (''action '' @ task_Action t @ '' with '' @ x_show x raw) e0)
    else map_prod (map_option (plugin_code (''action '' @ quoted (task_Action t)))) id (run_prog x t (targetsForTask e0 t) (fn raw) e0))"
  using assms by (auto simp: runAction_def split: prod.split option.split)

lemma echo_only:
  "e_world (echoDryRun x h l e) = e_world e" "e_cluster (echoDryRun x h l e) = e_cluster e"
  "e_secrets (echoDryRun x h l e) = e_secrets e"
  by (simp_all add: echoDryRun_def logDryRun_def out_write_def console_write_def slog_def split: option.split prod.split)

text \<open>
  C11. A step of a task that names the \<open>aws:secrets:to-dotenv\<close> action, registered with a host writer, and whose parameters
  render and decode with a prefix and a path: in a dry run it only echoes itself, fetching, registering and writing nothing.
  Otherwise it registers every fetched value before it writes anything; it writes the file once, to the hosts the task targets,
  and only when every prefix was fetched whole and every value expands, and fails with its own error when the write fails; a
  dotenv reader gets from the file exactly the variables of the secrets under their normalised keys, each byte literal. In every
  other case the step fails, naming the action, and no host is touched.
\<close>

theorem secrets_dotenv_run:
  assumes "exec_renderParams x (task_With t) e = (Inr raw, e0)" "x_reg x = Some reg"
    and "Action reg (task_Action t) = Some (secrets_runEnvironmentFile dec defaults api json fs True)"
    and "DecodeFeature dec defaults raw = Inr p" and "se_Prefixes p \<noteq> []" and "se_Path p \<noteq> []"
  shows "let vars = all_vars api json (se_JSON p) (se_FullKeyPath p) (e_world e0) (se_Prefixes p); env = put_env vars [];
      content = Render_dotenv env (or_default (se_Multiline p) True); e1 = add_secrets (map snd vars) e0;
      name = plugin_code (''action '' @ quoted (task_Action t)) in
    (if e_dryRun e0 then (\<exists>line d. runAction x t e = (None, d) \<and> d = echoDryRun x [] line e0
         \<and> e_world d = e_world e0 \<and> e_cluster d = e_cluster e0 \<and> e_secrets d = e_secrets e0)
     else if list_all (prefix_ok api json (se_JSON p) (e_world e0)) (se_Prefixes p)
     then runAction x t e = (case host_WriteFile x t (targetsForTask e0 t) (se_Path p) content e1 of
         (r, e2) \<Rightarrow> (map_option name r, e2))
     else \<exists>err. runAction x t e = (Some (name err), e1))
    \<and> read_dotenv content = Some (map (\<lambda>k. (k, map Lit (replace_all [cr, nl] [nl] (the (m_get env k))))) (sorted_keys env))
    \<and> snd ` set env \<subseteq> set (map snd vars)"
proof -
  note prog = secrets_dotenv_prog[OF assms(4-6), of api json e0 x t "targetsForTask e0 t" fs, unfolded Let_def]
  have "\<exists>line d. runAction x t e = (None, d) \<and> d = echoDryRun x [] line e0
      \<and> e_world d = e_world e0 \<and> e_cluster d = e_cluster e0 \<and> e_secrets d = e_secrets e0" if "e_dryRun e0"
    using that by (auto simp: runAction_registered[OF assms(1-3)] echo_only)
  moreover have "runAction x t e = map_prod (map_option (plugin_code (''action '' @ quoted (task_Action t)))) id
      (run_prog x t (targetsForTask e0 t) (secrets_runEnvironmentFile dec defaults api json fs True raw) e0)" if "\<not> e_dryRun e0"
    using that by (simp add: runAction_registered[OF assms(1-3)])
  ultimately show ?thesis
    using prog unfolding Let_def by (cases "e_dryRun e0") (auto simp: map_prod_def split: prod.split if_splits)
qed

text \<open>
  The \<open>aws:ssm:to-dotenv\<close> action does the same with the parameters of its paths: every value is registered, the file is
  written once when every path was read, and a dotenv reader gets the parameters back under their normalised keys.
\<close>

theorem ssm_dotenv_run:
  assumes "DecodeFeature dec defaults raw = Inr p" and "me_Prefixes p \<noteq> []" and "me_Path p \<noteq> []"
  shows "let walk = or_default (me_Recursive p) True; decrypt = or_default (me_Decrypt p) True;
      vars = ssm_all_vars api (me_FullKeyPath p) walk decrypt (e_world e) (me_Prefixes p); env = put_env vars [];
      content = Render_dotenv env (or_default (me_Multiline p) True); e1 = add_secrets (map snd vars) e;
      run = run_prog x t hosts (ssm_runEnvironmentFile dec defaults api fs True raw) e in
    (if list_all (ssm_ok api walk decrypt (e_world e)) (me_Prefixes p)
     then run = host_WriteFile x t hosts (me_Path p) content e1 else \<exists>err. run = (Some err, e1))
    \<and> read_dotenv content = Some (map (\<lambda>k. (k, map Lit (replace_all [cr, nl] [nl] (the (m_get env k))))) (sorted_keys env))
    \<and> snd ` set env \<subseteq> set (map snd vars)"
proof -
  have eq: "ssm_runEnvironmentFile dec defaults api fs True raw = ssm_env_prefixes api p (me_Prefixes p) []
      (\<lambda>env. envfile_Write fs True (me_Path p) (Render_dotenv env (or_default (me_Multiline p) True)))"
    using assms by (simp add: ssm_runEnvironmentFile_def)
  show ?thesis
    unfolding Let_def eq ssm_all_vars_def by (rule dotenv_written[unfolded Let_def, OF ssm_loop.run_loop[OF refl]])
qed

section \<open>A concrete account\<close>

definition demo_secrets_api :: "nat secrets_api" where
  "demo_secrets_api = \<lparr>sa_pages = (\<lambda>w pre. [Inr [Some ''/app/token'']]), sa_get = (\<lambda>w n. Answer (Some ''hunter22'') None)\<rparr>"

definition demo_ssm_api :: "nat ssm_api" where
  "demo_ssm_api = \<lparr>ss_pages = (\<lambda>w p r d. [Inr [(Some ''/app/token'', Some ''hunter22'')]]),
     ss_get = (\<lambda>w p d. ParamNotFound (Text ''none''))\<rparr>"

definition demo_ofs :: "nat operator_fs" where
  "demo_ofs = \<lparr>of_WriteFile = (\<lambda>p c w. (None, w)), of_Chmod = (\<lambda>p w. (None, w))\<rparr>"

definition no_json :: "string \<Rightarrow> jval smap option" where "no_json s = None"

definition demo_se :: secrets_env_params where
  "demo_se = \<lparr>se_Prefixes = [''/app/''], se_Path = ''.env'', se_JSON = None, se_FullKeyPath = False, se_Multiline = None\<rparr>"

definition demo_me :: ssm_env_params where
  "demo_me = \<lparr>me_Prefixes = [''/app/''], me_Path = ''.env'', me_Recursive = None, me_Decrypt = None, me_FullKeyPath = False,
     me_Multiline = None\<rparr>"

lemma demo_render: "Render_dotenv (put_env [(''token'', ''hunter22'')] []) True = ''TOKEN=\"hunter22\"'' @ [nl]"
  by code_simp

definition dotenv_task :: task where
  "dotenv_task = zero_task\<lparr>task_Action := ''aws:secrets:to-dotenv''\<rparr>"

definition dotenv_ext :: "(string, nat) ext" where
  "dotenv_ext = demo_ext\<lparr>x_reg := Some (snd (AddAction ''aws:secrets:to-dotenv''
     (secrets_runEnvironmentFile (\<lambda>_. Inr demo_se) [] demo_secrets_api no_json demo_ofs True) newRegistry))\<rparr>"

lemma secrets_dotenv_run_witness:
  "\<exists>e0. exec_renderParams dotenv_ext [] demo_exec = (Inr [], e0)
    \<and> runAction dotenv_ext dotenv_task demo_exec = (case host_WriteFile dotenv_ext dotenv_task (targetsForTask e0 dotenv_task) ''.env''
        (''TOKEN=\"hunter22\"'' @ [nl]) (add_secrets [''hunter22''] e0) of
        (r, e2) \<Rightarrow> (map_option (plugin_code (''action '' @ quoted ''aws:secrets:to-dotenv'')) r, e2))"
proof -
  obtain r e0 where e0: "exec_renderParams dotenv_ext [] demo_exec = (r, e0)" by fastforce
  have "case exec_renderParams dotenv_ext [] demo_exec of (Inr ps, d) \<Rightarrow> ps = [] \<and> \<not> e_dryRun d | _ \<Rightarrow> False" by code_simp
  then have r: "r = Inr []" "\<not> e_dryRun e0" using e0 by (auto split: sum.splits)
  have v: "all_vars demo_secrets_api no_json None False w [''/app/''] = [(''token'', ''hunter22'')]" for w by code_simp
  have ok: "list_all (prefix_ok demo_secrets_api no_json None w) [''/app/'']" for w by code_simp
  have d: "DecodeFeature (\<lambda>_. Inr demo_se) [] [] = Inr demo_se" by (simp add: DecodeFeature_def)
  have p: "se_Prefixes demo_se = [''/app/'']" "se_Path demo_se = ''.env''" "se_JSON demo_se = None" "se_FullKeyPath demo_se = False"
    "or_default (se_Multiline demo_se) True = True" by (simp_all add: demo_se_def or_default_def)
  have t: "task_With dotenv_task = []" "task_Action dotenv_task = ''aws:secrets:to-dotenv''"
    by (simp_all add: dotenv_task_def zero_task_def)
  have a: "\<exists>reg. x_reg dotenv_ext = Some reg \<and> Action reg (task_Action dotenv_task)
      = Some (secrets_runEnvironmentFile (\<lambda>_. Inr demo_se) [] demo_secrets_api no_json demo_ofs True)"
    by (simp add: dotenv_ext_def t AddAction_def newRegistry_def Action_def)
  then obtain reg where reg: "x_reg dotenv_ext = Some reg" "Action reg (task_Action dotenv_task)
      = Some (secrets_runEnvironmentFile (\<lambda>_. Inr demo_se) [] demo_secrets_api no_json demo_ofs True)" by blast
  show ?thesis using secrets_dotenv_run[OF _ reg d, of demo_exec e0] e0 r ok
    unfolding p v t Let_def demo_render by simp
qed

lemma ssm_dotenv_run_witness:
  "run_prog demo_ext zero_task two_web (ssm_runEnvironmentFile (\<lambda>_. Inr demo_me) [] demo_ssm_api demo_ofs True []) demo_exec
    = host_WriteFile demo_ext zero_task two_web ''.env'' (''TOKEN=\"hunter22\"'' @ [nl]) (add_secrets [''hunter22''] demo_exec)"
proof -
  have v: "ssm_all_vars demo_ssm_api False True True w [''/app/''] = [(''token'', ''hunter22'')]" for w by code_simp
  have ok: "list_all (ssm_ok demo_ssm_api True True w) [''/app/'']" for w by code_simp
  have d: "DecodeFeature (\<lambda>_. Inr demo_me) [] [] = Inr demo_me" by (simp add: DecodeFeature_def)
  have p: "me_Prefixes demo_me = [''/app/'']" "me_Path demo_me = ''.env''" "me_FullKeyPath demo_me = False"
    "or_default (me_Recursive demo_me) True = True" "or_default (me_Decrypt demo_me) True = True"
    "or_default (me_Multiline demo_me) True = True" by (simp_all add: demo_me_def or_default_def)
  show ?thesis using ssm_dotenv_run[OF d, where x = demo_ext and t = zero_task and hosts = two_web and e = demo_exec
        and api = demo_ssm_api and fs = demo_ofs] ok
    unfolding p v Let_def demo_render by simp
qed

definition demo_cred :: "(unit, unit, nat) cred_env" where
  "demo_cred = \<lparr>ce_ReadFile = (\<lambda>p w. Inl (Text ''gone'')), ce_yaml = (\<lambda>s. Inl (Text ''bad'')), ce_NewRequest = (\<lambda>u. None),
     ce_Do = (\<lambda>u h w. (Inl (Text ''refused''), w)), ce_Dial = (\<lambda>t o' w. (Inr (), w)), ce_Run = (\<lambda>c cmd w. ((None, ''x'', []), w)),
     ce_Close = (\<lambda>c w. w), ce_json = (\<lambda>s. Inr \<lparr>ib_AccessKeyID = ''AKIA'', ib_SecretAccessKey = ''hunter22'', ib_Token = ''session'',
       ib_Expiration = None\<rparr>), ce_LoadDefaultConfig = (\<lambda>os w. (Inr (), w))\<rparr>"

definition demo_host :: credentials_host where
  "demo_host = \<lparr>ch_Host = ''bastion'', ch_User = ''d'', ch_Port = 22, ch_IdentityFile = [], ch_StrictHostKey = None,
     ch_AcceptNew = None, ch_KnownHostsFile = []\<rparr>"

definition demo_ac :: aws_config where
  "demo_ac = \<lparr>ac_Region = ''eu'', ac_Profile = [], ac_AccessKeyID = [], ac_SecretAccessKey = [], ac_SessionToken = [],
     ac_CredentialsFile = [], ac_CredentialsURL = [], ac_CredentialsToken = [], ac_CredentialsFromHost = Some demo_host\<rparr>"

definition demo_aws :: "(unit, unit, nat) aws_env" where
  "demo_aws = \<lparr>ae_decode = (\<lambda>_. Inr demo_ac), ae_cred = demo_cred, ae_cloud = (\<lambda>_. idle_cloud), ae_ssm = (\<lambda>_. demo_ssm_api),
     ae_secrets = (\<lambda>_. demo_secrets_api), ae_json = no_json, ae_fs = demo_ofs, ae_host_writer = True,
     ae_ctx = \<lparr>cx_polls = 0, cx_err = Canceled\<rparr>, ae_stamp = [], ae_is_ip = (\<lambda>_. False), ae_lookup = (\<lambda>h w. Inr []),
     ae_ec2_dec = \<lparr>edc_refresh = (\<lambda>_. Inl Canceled), edc_rollback = (\<lambda>_. Inl Canceled), edc_create = (\<lambda>_. Inl Canceled),
       edc_cleanup = (\<lambda>_. Inl Canceled), edc_inventory = (\<lambda>_. Inl Canceled)\<rparr>,
     ae_ssm_dec = \<lparr>mdc_strict = (\<lambda>_. None), mdc_context = (\<lambda>_. Inl Canceled), mdc_env = (\<lambda>_. Inr demo_me)\<rparr>,
     ae_secrets_dec = \<lparr>sdc_strict = (\<lambda>_. None), sdc_context = (\<lambda>_. Inr \<lparr>sp_Prefixes = [''/app/''], sp_Namespace = [], sp_JSON = None\<rparr>),
       sdc_env = (\<lambda>_. Inr demo_se)\<rparr>\<rparr>"

definition aws_file :: deploy_file where
  "aws_file = demo_cfg\<lparr>cfg_Plugins := [zero_plugin\<lparr>ps_Name := ''aws'', ps_Actions := [\<lparr>pa_Name = ''aws:secrets'', pa_Params = []\<rparr>]\<rparr>]\<rparr>"

definition aws_cli :: "(string, nat, nat) cli" where
  "aws_cli = demo_cli\<lparr>cl_fs := demo_fs\<lparr>yaml_decode := (\<lambda>p. Inr (if p = ''/W'' then aws_file else demo_cfg))\<rparr>,
     cl_table := \<lparr>pt_factories = [(pluginAWS, aws_plugin demo_aws)], pt_defaults = []\<rparr>\<rparr>"

lemma aws_cli_offline:
  "case loadOffline aws_cli ''/W'' ''s'' no_secrets of Some ((Inr cfg0, reg0), out0) \<Rightarrow> cfg_Imports cfg0 = [] | _ \<Rightarrow> False"
  by code_simp

lemma aws_cli_load:
  "case loadConfig aws_cli ''/W'' ''s'' no_secrets 0 of
     Some (Inr (cfg, preg), reg', out, w') \<Rightarrow> cfg_Imports cfg = [(''secrets'', [(''token'', ''hunter22'')])] | _ \<Rightarrow> False"
  by code_simp

lemma aws_imports_masked_witness:
  "\<exists>cfg preg reg' out w'. loadConfig aws_cli ''/W'' ''s'' no_secrets 0 = Some (Inr (cfg, preg), reg', out, w')
     \<and> \<not> contains_str (replaceSecrets (note_all [''other''] reg') ''token=hunter22'') ''hunter22''"
proof -
  obtain cfg0 reg0 out0 where off: "loadOffline aws_cli ''/W'' ''s'' no_secrets = Some ((Inr cfg0, reg0), out0)" "cfg_Imports cfg0 = []"
    using aws_cli_offline by (auto split: option.splits prod.splits sum.splits)
  obtain cfg preg reg' out w' where load: "loadConfig aws_cli ''/W'' ''s'' no_secrets 0 = Some (Inr (cfg, preg), reg', out, w')"
    "cfg_Imports cfg = [(''secrets'', [(''token'', ''hunter22'')])]"
    using aws_cli_load by (auto split: option.splits prod.splits sum.splits)
  have "pt_factories (cl_table aws_cli) = [(pluginAWS, aws_plugin demo_aws)]" by (simp add: aws_cli_def)
  moreover have "''hunter22'' \<notin> imported_values cfg0" using off(2) by (simp add: imported_values_def)
  ultimately have "\<not> contains_str (replaceSecrets (note_all [''other''] reg') ''token=hunter22'') ''hunter22''"
    by (intro aws_imports_masked[OF _ no_secrets_ok off(1) load(1), where ns = "''secrets''" and vars = "[(''token'', ''hunter22'')]"
          and key = "''token''" and v = "''hunter22''"])
      (simp_all add: load(2) demo_values demo_plain)
  then show ?thesis using load(1) by blast
qed

end
