(* ===== verification/Ssh_Hosts.thy ===== *)
theory Ssh_Hosts
  imports Ssh_Keys Lines
begin

text \<open>
  Host keys of the SSH transport (\<open>transport/ssh/client.go\<close>: \<open>hostKeyCallback\<close> to \<open>acceptNewCallback\<close>): which check a dial
  makes, trust on first use, and the algorithms a server is asked for.

  The library that reads \<open>known_hosts\<close> files is the parameter \<open>hosts_lib\<close>. The files, and the keys this process has
  recorded, are the state \<open>hosts_state\<close>; \<open>disk\<close> holds what the operating system answers. A dial reads the file once, when its
  check is made, so parallel dials are the steps of a relation: each makes its check, and shows keys to it, at its own time.
\<close>

text \<open>What a check of the library returns: \<open>nil\<close>, a \<open>KeyError\<close> with its \<open>Want\<close>, or another error.\<close>

datatype 'k verdict = Known | Want "'k list" goerr | Refused goerr

type_synonym 'k callback = "string \<Rightarrow> string \<Rightarrow> 'k \<Rightarrow> 'k verdict"

record 'k hosts_lib =
  hl_new :: "string \<Rightarrow> string option \<Rightarrow> 'k callback res"
  hl_line :: "string \<Rightarrow> 'k \<Rightarrow> string"
  hl_normalize :: "string \<Rightarrow> string"
  hl_type :: "'k \<Rightarrow> string"
  hl_print :: "'k \<Rightarrow> string"
  hl_probe :: 'k

record hosts_state =
  hs_files :: "(string, string) map"
  hs_recorded :: "(string, string) map"

text \<open>\<open>dk_write\<close> is the error of a write, with the part of the text that reached the file.\<close>

record disk =
  dk_home :: "string res"
  dk_stat :: "string \<Rightarrow> goerr option"
  dk_mkdir :: "string \<Rightarrow> goerr option"
  dk_open :: "string \<Rightarrow> goerr option"
  dk_write :: "string \<Rightarrow> (string \<times> goerr) option"
  dk_close :: "string \<Rightarrow> goerr option"

record host_options =
  ho_Strict :: bool
  ho_KnownHostsFile :: string
  ho_AcceptNew :: bool

section \<open>The check of a dial\<close>

definition ensureKnownHosts :: "disk \<Rightarrow> string \<Rightarrow> hosts_state \<Rightarrow> goerr option \<times> hosts_state" where
  "ensureKnownHosts d path s = (case dk_stat d path of
      Some err \<Rightarrow> (Some err, s)
    | None \<Rightarrow>
      if hs_files s path \<noteq> None then (None, s)
      else (case dk_mkdir d (path_dir path) of
          Some err \<Rightarrow> (Some err, s)
        | None \<Rightarrow> (case dk_open d path of
            Some err \<Rightarrow> (Some err, s)
          | None \<Rightarrow> (dk_close d path, s\<lparr>hs_files := (hs_files s)(path \<mapsto> [])\<rparr>))))"

datatype 'k host_check = Anyone | Verify bool string "'k callback"

definition known_hosts_path :: "disk \<Rightarrow> string \<Rightarrow> string res" where
  "known_hosts_path d given = (if given = [] then map_sum id (\<lambda>home. path_join [home, ''.ssh'', ''known_hosts'']) (dk_home d)
     else Inr (expandHome (case dk_home d of Inl _ \<Rightarrow> None | Inr home \<Rightarrow> Some home) given))"

definition hostKeyCallback :: "'k hosts_lib \<Rightarrow> disk \<Rightarrow> host_options \<Rightarrow> hosts_state \<Rightarrow> 'k host_check res \<times> hosts_state" where
  "hostKeyCallback hl d ho s =
     (if \<not> ho_Strict ho then (Inr Anyone, s)
      else (case known_hosts_path d (ho_KnownHostsFile ho) of
          Inl err \<Rightarrow> (Inl err, s)
        | Inr khFile \<Rightarrow> (case (if ho_AcceptNew ho then ensureKnownHosts d khFile s else (None, s)) of
            (Some err, s') \<Rightarrow> (Inl (wrapf (''known_hosts '' @ khFile) err), s')
          | (None, s') \<Rightarrow> (case hl_new hl khFile (hs_files s' khFile) of
              Inl err \<Rightarrow> (Inl (Wrap (''known_hosts '' @ khFile @ '': '') err '' (set ssh.strict_host_key: false to skip verification)''), s')
            | Inr cb \<Rightarrow> (Inr (Verify (ho_AcceptNew ho) khFile cb), s')))))"

definition add_algo :: "string \<Rightarrow> string list \<Rightarrow> string list" where
  "add_algo n algos = (if List.member algos n then algos else algos @ [n])"

definition algos_of :: "string \<Rightarrow> string list" where
  "algos_of ty = (if ty = ''ssh-rsa'' then [''rsa-sha2-512'', ''rsa-sha2-256'', ''ssh-rsa''] else [ty])"

definition knownHostAlgorithms :: "'k hosts_lib \<Rightarrow> 'k host_check \<Rightarrow> string \<Rightarrow> string \<Rightarrow> string list" where
  "knownHostAlgorithms hl check hostname remote = (case check of
      Anyone \<Rightarrow> []
    | Verify acceptNew path cb \<Rightarrow> (case cb hostname remote (hl_probe hl) of
        Want keys _ \<Rightarrow> fold (\<lambda>k algos. fold add_algo (algos_of (hl_type hl k)) algos) keys []
      | _ \<Rightarrow> []))"

section \<open>Trust on first use\<close>

definition record_key :: "string \<Rightarrow> string \<Rightarrow> string" where
  "record_key path host = path @ nl # host"

text \<open>The part under the lock, once the library does not know the host.\<close>

definition record_new :: "'k hosts_lib \<Rightarrow> disk \<Rightarrow> string \<Rightarrow> string \<Rightarrow> 'k \<Rightarrow> hosts_state \<Rightarrow> goerr option \<times> hosts_state" where
  "record_new hl d path hostname key s =
     (let host = hl_normalize hl hostname; line = hl_line hl host key; hostKey = record_key path host;
          failed = (\<lambda>err. Some (wrapf (''known_hosts '' @ path @ '': record new host key'') err));
          file = (case hs_files s path of None \<Rightarrow> [] | Some c \<Rightarrow> c) in
      case hs_recorded s hostKey of
        Some prev \<Rightarrow>
          if prev = line then (None, s)
          else (Some (Text (''ssh: host key mismatch for '' @ hostname @ '': key '' @ hl_print hl key
            @ '' conflicts with the one recorded by a parallel connection'')), s)
      | None \<Rightarrow> (case dk_open d path of
          Some err \<Rightarrow> (failed err, s)
        | None \<Rightarrow> (case dk_write d path of
            Some (part, err) \<Rightarrow> (failed err, s\<lparr>hs_files := (hs_files s)(path \<mapsto> file @ part)\<rparr>)
          | None \<Rightarrow> (let s' = s\<lparr>hs_files := (hs_files s)(path \<mapsto> file @ line @ [nl])\<rparr> in
              case dk_close d path of
                Some err \<Rightarrow> (failed err, s')
              | None \<Rightarrow> (None, s'\<lparr>hs_recorded := (hs_recorded s)(hostKey \<mapsto> line)\<rparr>)))))"

definition acceptNewCallback :: "'k hosts_lib \<Rightarrow> disk \<Rightarrow> string \<Rightarrow> 'k callback \<Rightarrow> string \<Rightarrow> string \<Rightarrow> 'k \<Rightarrow> hosts_state
    \<Rightarrow> goerr option \<times> hosts_state" where
  "acceptNewCallback hl d path cb hostname remote key s = (case cb hostname remote key of
      Known \<Rightarrow> (None, s)
    | Refused err \<Rightarrow> (Some err, s)
    | Want keys err \<Rightarrow> if keys \<noteq> [] then (Some err, s) else record_new hl d path hostname key s)"

definition check_key :: "'k hosts_lib \<Rightarrow> disk \<Rightarrow> 'k host_check \<Rightarrow> string \<Rightarrow> string \<Rightarrow> 'k \<Rightarrow> hosts_state \<Rightarrow> goerr option \<times> hosts_state" where
  "check_key hl d check hostname remote key s = (case check of
      Anyone \<Rightarrow> (None, s)
    | Verify acceptNew path cb \<Rightarrow>
        if acceptNew then acceptNewCallback hl d path cb hostname remote key s
        else ((case cb hostname remote key of Known \<Rightarrow> None | Want keys err \<Rightarrow> Some err | Refused err \<Rightarrow> Some err), s))"

section \<open>Parallel dials\<close>

text \<open>
  \<open>dl_trusted\<close> is what verification has let through: the file, the host as it is recorded, the key. The relation takes the
  disks and the recorded names that occur.
\<close>

record 'k dials =
  dl_state :: hosts_state
  dl_checks :: "(nat, 'k host_check) map"
  dl_trusted :: "(string \<times> string \<times> 'k) list"

definition trust :: "'k hosts_lib \<Rightarrow> 'k host_check \<Rightarrow> string \<Rightarrow> 'k \<Rightarrow> (string \<times> string \<times> 'k) list" where
  "trust hl check hostname key = (case check of Anyone \<Rightarrow> [] | Verify acceptNew path cb \<Rightarrow> [(path, hl_normalize hl hostname, key)])"

inductive dial_step :: "'k hosts_lib \<Rightarrow> (disk \<Rightarrow> bool) \<Rightarrow> (string \<Rightarrow> bool) \<Rightarrow> 'k dials \<Rightarrow> 'k dials \<Rightarrow> bool"
  for hl :: "'k hosts_lib" and disks :: "disk \<Rightarrow> bool" and names :: "string \<Rightarrow> bool" where
  Begin: "disks d \<Longrightarrow> hostKeyCallback hl d ho (dl_state st) = (r, s) \<Longrightarrow>
    dial_step hl disks names st (st\<lparr>dl_state := s, dl_checks := (case r of Inl err \<Rightarrow> dl_checks st | Inr c \<Rightarrow> (dl_checks st)(i \<mapsto> c))\<rparr>)"
| Shown: "disks d \<Longrightarrow> names (hl_normalize hl hostname) \<Longrightarrow> dl_checks st i = Some c
    \<Longrightarrow> check_key hl d c hostname remote key (dl_state st) = (r, s) \<Longrightarrow>
    dial_step hl disks names st (st\<lparr>dl_state := s,
      dl_trusted := (if r = None then trust hl c hostname key else []) @ dl_trusted st\<rparr>)"

definition dials_start :: "(string, string) map \<Rightarrow> 'k dials" where
  "dials_start files = \<lparr>dl_state = \<lparr>hs_files = files, hs_recorded = Map.empty\<rparr>, dl_checks = Map.empty, dl_trusted = []\<rparr>"

text \<open>
  The plain names of hosts, as \<open>knownhosts.Normalize\<close> writes them: a host name or an IP address for port 22, and one in
  brackets with its port for any other. Names with the other characters a line of the file gives a meaning to (a comma, the
  wildcards, the marks a line may start with, blanks and line breaks) are not plain.
\<close>

definition host_char :: "char \<Rightarrow> bool" where
  "host_char c = (let n = of_char c :: nat in 97 \<le> n \<and> n \<le> 122 \<or> 65 \<le> n \<and> n \<le> 90 \<or> 48 \<le> n \<and> n \<le> 57 \<or> n \<in> {45, 46, 95, 58})"

definition plain_host :: "string \<Rightarrow> bool" where
  "plain_host n = (if has_prefix n ''['' then
       (let h = takeWhile host_char (tl n); rest = dropWhile host_char (tl n) in
        h \<noteq> [] \<and> has_prefix rest '']:'' \<and> drop 2 rest \<noteq> [] \<and> drop 2 rest \<noteq> ''22'' \<and> list_all (\<lambda>c. let n = of_char c :: nat in 48 \<le> n \<and> n \<le> 57) (drop 2 rest))
     else n \<noteq> [] \<and> list_all host_char n \<and> length (filter (\<lambda>c. c = CHR '':'') n) \<noteq> 1)"

text \<open>
  What the library documents of its files, for plain hosts: it reads them line by line, trusts a key for a host only because
  of a line that grants it, and the line it makes for a host and a key grants among the plain hosts and all keys that key to
  that host, nothing else, and holds no line break.
\<close>

definition reads_lines :: "'k hosts_lib \<Rightarrow> (string \<Rightarrow> string \<Rightarrow> 'k \<Rightarrow> bool) \<Rightarrow> bool" where
  "reads_lines hl grants \<longleftrightarrow>
     (\<forall>path c cb h r k. plain_host (hl_normalize hl h) \<longrightarrow> hl_new hl path (Some c) = Inr cb \<longrightarrow> cb h r k = Known
        \<longrightarrow> (\<exists>l \<in> set (split_on nl c). grants l (hl_normalize hl h) k))
   \<and> (\<forall>path cb. hl_new hl path None \<noteq> Inr cb)
   \<and> (\<forall>n k m k'. plain_host n \<longrightarrow> plain_host m \<longrightarrow> grants (hl_line hl n k) m k' \<longleftrightarrow> m = n \<and> k' = k)
   \<and> (\<forall>n k. plain_host n \<longrightarrow> nl \<notin> set (hl_line hl n k))
   \<and> (\<forall>n k. plain_host n \<longrightarrow> \<not> grants [] n k)"

lemma plain_host_chars: "plain_host n \<Longrightarrow> c \<in> set n \<Longrightarrow> host_char c \<or> c = CHR ''['' \<or> c = CHR '']''"
proof (cases "has_prefix n ''[''")
  case True
  assume p: "plain_host n" and c: "c \<in> set n"
  obtain t where n: "n = CHR ''['' # t" using True by (auto simp: has_prefix_iff)
  have r: "has_prefix (dropWhile host_char t) '']:''"
    "list_all (\<lambda>c. let n = of_char c :: nat in 48 \<le> n \<and> n \<le> 57) (drop 2 (dropWhile host_char t))"
    using p True n by (simp_all add: plain_host_def Let_def)
  then obtain q where q: "dropWhile host_char t = '']:'' @ q" by (auto simp: has_prefix_iff)
  have "t = takeWhile host_char t @ '']:'' @ q" unfolding q[symmetric] by simp
  then have "set t = set (takeWhile host_char t) \<union> set ('']:'' @ q)" by (metis set_append)
  moreover have "host_char d" if "d \<in> set q" for d
    using r(2) that unfolding q by (auto simp: list_all_iff host_char_def Let_def)
  moreover have "host_char (CHR '':'')" by (simp add: host_char_def)
  ultimately show ?thesis using c unfolding n by (auto dest: set_takeWhileD)
qed (auto simp: plain_host_def list_all_iff)

lemma plain_host_nl: "plain_host n \<Longrightarrow> nl \<notin> set n"
  using plain_host_chars[of n nl] by (auto simp: host_char_def nl_def)

text \<open>A disk on which a write that fails leaves nothing in the file.\<close>

definition whole_writes :: "disk \<Rightarrow> bool" where
  "whole_writes d \<longleftrightarrow> (\<forall>path. dk_close d path = None \<and> (\<forall>part err. dk_write d path = Some (part, err) \<longrightarrow> part = []))"

definition terminated :: "string \<Rightarrow> bool" where
  "terminated c \<longleftrightarrow> c = [] \<or> last c = nl"

lemma split_terminated:
  assumes "terminated c" "nl \<notin> set l"
  shows "set (split_on nl (c @ l @ [nl])) = insert l (set (split_on nl c))"
proof (cases "c = []")
  case True
  then show ?thesis using split_on_app[OF assms(2), of "[]"] by auto
next
  case False
  then obtain c1 where c: "c = c1 @ [nl]" using assms(1) by (metis append_butlast_last_id terminated_def)
  have "split_on nl (c1 @ nl # s) = split_on nl c1 @ split_on nl s" for s
    by (induction c1) (auto simp: hd_append tl_append split: list.split)
  then have "split_on nl (c @ s) = split_on nl c1 @ split_on nl s" for s unfolding c by simp
  then show ?thesis using split_on_app[OF assms(2), of "[]"] by (metis (no_types, lifting) Un_insert_right append_Nil2 append_self_conv list.simps(15) set_append split_on.simps(1) insert_commute Un_empty_right)
qed

lemma record_key_inj: "nl \<notin> set n \<Longrightarrow> nl \<notin> set m \<Longrightarrow> record_key p n = record_key q m \<longleftrightarrow> p = q \<and> n = m"
proof
  assume a: "nl \<notin> set n" "nl \<notin> set m" and e: "record_key p n = record_key q m"
  have "takeWhile (\<lambda>c. c \<noteq> nl) (rev (record_key p' n')) = rev n'" if "nl \<notin> set n'" for p' n'
  proof -
    have "takeWhile (\<lambda>c. c \<noteq> nl) (rev n' @ nl # rev p') = rev n' @ takeWhile (\<lambda>c. c \<noteq> nl) (nl # rev p')"
      using that by (intro takeWhile_append2) auto
    then show ?thesis by (simp add: record_key_def)
  qed
  from this[OF a(1), of p] this[OF a(2), of q] e have "n = m" by (metis rev_rev_ident)
  then show "p = q \<and> n = m" using e by (simp add: record_key_def)
qed simp

section \<open>One key per host\<close>

text \<open>
  The file of a path grants a host only what this process has recorded for it, and what a step keeps of the file
  and of the record.
\<close>

definition sound_file :: "'k hosts_lib \<Rightarrow> (string \<Rightarrow> string \<Rightarrow> 'k \<Rightarrow> bool) \<Rightarrow> string \<Rightarrow> string \<Rightarrow> hosts_state \<Rightarrow> bool" where
  "sound_file hl grants p n s \<longleftrightarrow> (\<forall>c. hs_files s p = Some c \<longrightarrow> terminated c
     \<and> (\<forall>l \<in> set (split_on nl c). \<forall>k. grants l n k \<longrightarrow> hs_recorded s (record_key p n) = Some l \<and> l = hl_line hl n k))"

definition hosts_grow :: "string \<Rightarrow> string \<Rightarrow> hosts_state \<Rightarrow> hosts_state \<Rightarrow> bool" where
  "hosts_grow p n s s' \<longleftrightarrow> (\<forall>c. hs_files s p = Some c \<longrightarrow>
       (\<exists>c'. hs_files s' p = Some c' \<and> set (split_on nl c) \<subseteq> set (split_on nl c')))
     \<and> (\<forall>l. hs_recorded s (record_key p n) = Some l \<longrightarrow> hs_recorded s' (record_key p n) = Some l)"

lemma hosts_grow_refl [simp]: "hosts_grow p n s s" by (auto simp: hosts_grow_def)

definition read_before :: "'k hosts_lib \<Rightarrow> string \<Rightarrow> hosts_state \<Rightarrow> 'k callback \<Rightarrow> bool" where
  "read_before hl p s cb \<longleftrightarrow> (\<exists>t t'. hl_new hl p (Some t) = Inr cb \<and> hs_files s p = Some t'
     \<and> set (split_on nl t) \<subseteq> set (split_on nl t'))"

lemma read_before_grow: "read_before hl p s cb \<Longrightarrow> hosts_grow p n s s' \<Longrightarrow> read_before hl p s' cb"
  unfolding read_before_def hosts_grow_def by blast

lemma reads_known:
  assumes "reads_lines hl grants" "plain_host (hl_normalize hl h)" "hl_new hl path (Some t) = Inr cb" "cb h r k = Known"
  shows "\<exists>l \<in> set (split_on nl t). grants l (hl_normalize hl h) k"
  using assms(1)[unfolded reads_lines_def, THEN conjunct1, rule_format, OF assms(2-4)] .

lemma sound_known:
  assumes "sound_file hl grants p n s" "read_before hl p s cb" "reads_lines hl grants" "cb h r k = Known" "hl_normalize hl h = n"
    and n: "plain_host n"
  shows "hs_recorded s (record_key p n) = Some (hl_line hl n k)"
proof -
  obtain t t' where t: "hl_new hl p (Some t) = Inr cb" "hs_files s p = Some t'" "set (split_on nl t) \<subseteq> set (split_on nl t')"
    using assms(2) unfolding read_before_def by blast
  obtain l where l: "l \<in> set (split_on nl t)" "grants l n k" using reads_known[OF assms(3) _ t(1) assms(4)] assms(5) n by blast
  have "l \<in> set (split_on nl t')" using l(1) t(3) by blast
  from assms(1)[unfolded sound_file_def, rule_format, OF t(2), THEN conjunct2, rule_format, OF this l(2)]
  have "hs_recorded s (record_key p n) = Some l \<and> l = hl_line hl n k" .
  then show ?thesis by blast
qed

lemma ensure_sound:
  assumes "sound_file hl grants p n s" "ensureKnownHosts d path s = (r, s')" "reads_lines hl grants" "plain_host n"
  shows "sound_file hl grants p n s' \<and> hosts_grow p n s s'"
proof -
  have e: "\<not> grants [] n k" for k using assms(3,4) unfolding reads_lines_def by blast
  have "s' = s \<or> hs_files s path = None \<and> s' = s\<lparr>hs_files := (hs_files s)(path \<mapsto> [])\<rparr>"
    using assms(2) by (auto simp: ensureKnownHosts_def split: option.splits if_splits)
  then show ?thesis
  proof
    assume "hs_files s path = None \<and> s' = s\<lparr>hs_files := (hs_files s)(path \<mapsto> [])\<rparr>"
    then show ?thesis using assms(1) e by (simp add: sound_file_def hosts_grow_def terminated_def)
  qed (use assms(1) in simp)
qed

lemma record_new_cases:
  assumes "record_new hl d path hostname key s = (r, s')" "whole_writes d"
  defines "line \<equiv> hl_line hl (hl_normalize hl hostname) key" and "slot \<equiv> record_key path (hl_normalize hl hostname)"
    and "file \<equiv> (case hs_files s path of None \<Rightarrow> [] | Some c \<Rightarrow> c)"
  shows "(s' = s \<and> (r = None \<longrightarrow> hs_recorded s slot = Some line))
    \<or> (r \<noteq> None \<and> s' = s\<lparr>hs_files := (hs_files s)(path \<mapsto> file)\<rparr>)
    \<or> (r = None \<and> hs_recorded s slot = None \<and> s' = s\<lparr>hs_files := (hs_files s)(path \<mapsto> file @ line @ [nl]),
         hs_recorded := (hs_recorded s)(slot \<mapsto> line)\<rparr>)"
proof (cases "hs_recorded s slot")
  case None
  show ?thesis
  proof (cases "dk_open d path = None \<and> dk_write d path = None")
    case True
    then show ?thesis using None assms(1,2) unfolding line_def slot_def file_def
      by (simp add: record_new_def Let_def whole_writes_def)
  next
    case False
    show ?thesis
    proof (cases "dk_open d path")
      case None
      then obtain part err where w: "dk_write d path = Some (part, err)"
        using False by (cases "dk_write d path") auto
      then have "part = []" using assms(2) unfolding whole_writes_def by blast
      have e: "hs_recorded s (record_key path (hl_normalize hl hostname)) = None"
        using \<open>hs_recorded s slot = None\<close> by (simp only: slot_def)
      have "r \<noteq> None \<and> s' = s\<lparr>hs_files := (hs_files s)(path \<mapsto> file)\<rparr>"
        using e None w \<open>part = []\<close> assms(1) unfolding file_def by (auto simp: record_new_def Let_def)
      then show ?thesis by blast
    next
      case (Some err)
      have "hs_recorded s (record_key path (hl_normalize hl hostname)) = None"
        using \<open>hs_recorded s slot = None\<close> by (simp only: slot_def)
      then have "s' = s \<and> r \<noteq> None" using Some assms(1) by (auto simp: record_new_def Let_def)
      then show ?thesis by blast
    qed
  qed
next
  case (Some prev)
  then show ?thesis using assms(1) unfolding line_def slot_def by (auto simp: record_new_def Let_def split: if_splits)
qed

lemma record_sound:
  assumes sound: "sound_file hl grants p n s" and r: "record_new hl d path hostname key s = (r, s')" and w: "whole_writes d"
    and law: "reads_lines hl grants" and n: "plain_host n" and h: "plain_host (hl_normalize hl hostname)"
  shows "sound_file hl grants p n s' \<and> hosts_grow p n s s'
    \<and> (r = None \<longrightarrow> path = p \<longrightarrow> hl_normalize hl hostname = n \<longrightarrow> hs_recorded s' (record_key p n) = Some (hl_line hl n key))"
proof -
  let ?host = "hl_normalize hl hostname"
  let ?line = "hl_line hl ?host key" and ?slot = "record_key path ?host"
  let ?file = "case hs_files s path of None \<Rightarrow> [] | Some c \<Rightarrow> c"
  have host: "nl \<notin> set ?host" "nl \<notin> set ?line" and empty: "\<And>k. \<not> grants [] n k"
    and line: "\<And>k. grants ?line n k \<longleftrightarrow> n = ?host \<and> k = key"
    using law plain_host_nl[OF h] n h by (auto simp: reads_lines_def)
  have slot: "?slot = record_key p n \<longleftrightarrow> path = p \<and> ?host = n"
    using record_key_inj[OF host(1) plain_host_nl[OF n]] by blast
  have ended: "terminated ?file" if "path = p" using sound that by (auto simp: sound_file_def terminated_def split: option.split)
  note lines = split_terminated[OF ended host(2)]
  from record_new_cases[OF r w] consider
      (same) "s' = s" "r = None \<longrightarrow> hs_recorded s ?slot = Some ?line"
    | (torn) "r \<noteq> None" "s' = s\<lparr>hs_files := (hs_files s)(path \<mapsto> ?file)\<rparr>"
    | (new) "r = None" "hs_recorded s ?slot = None" "s' = s\<lparr>hs_files := (hs_files s)(path \<mapsto> ?file @ ?line @ [nl]),
         hs_recorded := (hs_recorded s)(?slot \<mapsto> ?line)\<rparr>" by (elim disjE conjE) simp_all
  then show ?thesis
  proof cases
    case same
    then show ?thesis using sound by auto
  next
    case torn
    then show ?thesis using sound empty
      by (auto simp: sound_file_def hosts_grow_def terminated_def split: option.split)
  next
    case new
    show ?thesis
    proof (cases "path = p")
      case True
      have "sound_file hl grants p n s'"
        unfolding sound_file_def
      proof (intro allI impI conjI ballI)
        fix c assume "hs_files s' p = Some c"
        then have c: "c = ?file @ ?line @ [nl]" using new(3) True by simp
        show "terminated c" by (simp add: c terminated_def)
        fix l k assume "l \<in> set (split_on nl c)" and g: "grants l n k"
        then have "l = ?line \<or> l \<in> set (split_on nl ?file)" using lines[OF True] c by simp
        then have "(hs_recorded s' (record_key p n) = Some l) \<and> l = hl_line hl n k"
        proof
          assume "l = ?line"
          then have "n = ?host" "k = key" using line g by simp_all
          then show ?thesis using new(3) True \<open>l = ?line\<close> by simp
        next
          assume "l \<in> set (split_on nl ?file)"
          then have "hs_recorded s (record_key p n) = Some l \<and> l = hl_line hl n k"
            using sound g True empty by (cases "hs_files s p") (auto simp: sound_file_def)
          then show ?thesis using new(2,3) slot by auto
        qed
        then show "hs_recorded s' (record_key p n) = Some l" "l = hl_line hl n k" by blast+
      qed
      moreover have "hosts_grow p n s s'"
        using new(2,3) True lines[OF True] slot by (auto simp: hosts_grow_def)
      ultimately show ?thesis using new(3) slot by auto
    next
      case False
      then show ?thesis using new sound slot by (auto simp: sound_file_def hosts_grow_def)
    qed
  qed
qed

lemma check_sound:
  assumes sound: "sound_file hl grants p n s" and r: "check_key hl d c hostname remote key s = (r, s')" and w: "whole_writes d"
    and law: "reads_lines hl grants" and n: "plain_host n" and h: "plain_host (hl_normalize hl hostname)"
    and c: "\<And>a cb. c = Verify a p cb \<Longrightarrow> read_before hl p s cb"
  shows "sound_file hl grants p n s' \<and> hosts_grow p n s s'
    \<and> (r = None \<longrightarrow> (\<forall>k. (p, n, k) \<in> set (trust hl c hostname key) \<longrightarrow> hs_recorded s' (record_key p n) = Some (hl_line hl n k)))"
proof (cases c)
  case (Verify a path cb)
  have known: "hs_recorded s (record_key p n) = Some (hl_line hl n key)"
    if "cb hostname remote key = Known" "path = p" "hl_normalize hl hostname = n"
  proof -
    have "read_before hl p s cb" using c Verify that(2) by blast
    from sound_known[OF sound this law that(1,3) n] show ?thesis .
  qed
  show ?thesis
  proof (cases "a \<and> (\<exists>err. cb hostname remote key = Want [] err)")
    case True
    then have "record_new hl d path hostname key s = (r, s')" using r Verify by (auto simp: check_key_def acceptNewCallback_def)
    from record_sound[OF sound this w law n h] show ?thesis using Verify by (auto simp: trust_def)
  next
    case False
    then have "s' = s" "r = None \<longrightarrow> cb hostname remote key = Known"
      using r Verify by (auto simp: check_key_def acceptNewCallback_def split: verdict.splits if_splits)
    then show ?thesis using sound known Verify by (auto simp: trust_def)
  qed
qed (use sound r in \<open>simp add: check_key_def trust_def\<close>)

text \<open>The invariant of a run: the file, the checks that were made from it, and what they have let through.\<close>

definition dials_ok :: "'k hosts_lib \<Rightarrow> (string \<Rightarrow> string \<Rightarrow> 'k \<Rightarrow> bool) \<Rightarrow> string \<Rightarrow> string \<Rightarrow> 'k dials \<Rightarrow> bool" where
  "dials_ok hl grants p n st \<longleftrightarrow> sound_file hl grants p n (dl_state st)
     \<and> (\<forall>i a cb. dl_checks st i = Some (Verify a p cb) \<longrightarrow> read_before hl p (dl_state st) cb)
     \<and> (\<forall>k. (p, n, k) \<in> set (dl_trusted st) \<longrightarrow> hs_recorded (dl_state st) (record_key p n) = Some (hl_line hl n k))"

lemma callback_sound:
  assumes sound: "sound_file hl grants p n s" and r: "hostKeyCallback hl d ho s = (r, s')" and law: "reads_lines hl grants"
    and n: "plain_host n"
  shows "sound_file hl grants p n s' \<and> hosts_grow p n s s'
    \<and> (\<forall>a cb. r = Inr (Verify a p cb) \<longrightarrow> read_before hl p s' cb)"
proof (cases "ho_Strict ho \<and> (\<exists>khFile. known_hosts_path d (ho_KnownHostsFile ho) = Inr khFile)")
  case True
  then obtain khFile where kh: "known_hosts_path d (ho_KnownHostsFile ho) = Inr khFile" by blast
  obtain e s1 where e: "(if ho_AcceptNew ho then ensureKnownHosts d khFile s else (None, s)) = (e, s1)" by fastforce
  have s1: "sound_file hl grants p n s1 \<and> hosts_grow p n s s1"
    using e ensure_sound[OF sound _ law n] sound by (auto split: if_splits)
  have s': "s' = s1" using r True kh e by (auto simp: hostKeyCallback_def split: option.splits sum.splits)
  have "read_before hl p s1 cb" if "r = Inr (Verify a p cb)" for a cb
  proof -
    have "hl_new hl p (hs_files s1 p) = Inr cb"
      using r True kh e that by (auto simp: hostKeyCallback_def split: option.splits sum.splits)
    then show ?thesis using law unfolding reads_lines_def read_before_def by (cases "hs_files s1 p") auto
  qed
  then show ?thesis using s1 s' by blast
qed (use sound r in \<open>auto simp: hostKeyCallback_def split: sum.splits if_splits\<close>)

lemma dials_okD:
  assumes "dials_ok hl grants p n st"
  shows "sound_file hl grants p n (dl_state st)" "dl_checks st i = Some (Verify a p cb) \<Longrightarrow> read_before hl p (dl_state st) cb"
    "(p, n, k) \<in> set (dl_trusted st) \<Longrightarrow> hs_recorded (dl_state st) (record_key p n) = Some (hl_line hl n k)"
  using assms unfolding dials_ok_def by blast+

lemma dial_step_ok:
  assumes "dial_step hl whole_writes plain_host st st'" "dials_ok hl grants p n st" "reads_lines hl grants" "plain_host n"
  shows "dials_ok hl grants p n st'"
  using assms(1)
proof cases
  case (Begin d ho r s i)
  note c = callback_sound[OF dials_okD(1)[OF assms(2)] Begin(3) assms(3,4)]
  have grow: "hosts_grow p n (dl_state st) s" using c by blast
  have "read_before hl p s cb" if j: "dl_checks st' j = Some (Verify a p cb)" for j a cb
  proof (cases "r = Inr (Verify a p cb)")
    case True
    then show ?thesis using c by blast
  next
    case False
    then have "dl_checks st j = Some (Verify a p cb)" using j Begin(1) by (auto split: sum.splits if_splits)
    from read_before_grow[OF dials_okD(2)[OF assms(2) this] grow] show ?thesis .
  qed
  moreover have "hs_recorded s (record_key p n) = Some (hl_line hl n k)" if "(p, n, k) \<in> set (dl_trusted st')" for k
  proof -
    have "(p, n, k) \<in> set (dl_trusted st)" using that Begin(1) by simp
    from dials_okD(3)[OF assms(2) this] show ?thesis using grow unfolding hosts_grow_def by blast
  qed
  ultimately show ?thesis using c Begin(1) unfolding dials_ok_def by simp
next
  case (Shown d hostname i c remote key r s)
  have k: "read_before hl p (dl_state st) cb" if "c = Verify a p cb" for a cb
    using dials_okD(2)[OF assms(2)] Shown(4) that by blast
  note g = check_sound[OF dials_okD(1)[OF assms(2)] Shown(5,2) assms(3,4) Shown(3) k]
  have grow: "hosts_grow p n (dl_state st) s" using g by blast
  have "read_before hl p s cb" if "dl_checks st' j = Some (Verify a p cb)" for j a cb
  proof -
    have "dl_checks st j = Some (Verify a p cb)" using that Shown(1) by simp
    from read_before_grow[OF dials_okD(2)[OF assms(2) this] grow] show ?thesis .
  qed
  moreover have "hs_recorded s (record_key p n) = Some (hl_line hl n k)" if t: "(p, n, k) \<in> set (dl_trusted st')" for k
  proof (cases "(p, n, k) \<in> set (dl_trusted st)")
    case True
    from dials_okD(3)[OF assms(2) this] show ?thesis using grow unfolding hosts_grow_def by blast
  next
    case False
    then have "r = None" "(p, n, k) \<in> set (trust hl c hostname key)" using t Shown(1) by (auto split: if_splits)
    then show ?thesis using g by blast
  qed
  ultimately show ?thesis using g Shown(1) unfolding dials_ok_def by simp
qed

lemma dials_reach_ok: "(dial_step hl whole_writes plain_host)\<^sup>*\<^sup>* st st' \<Longrightarrow> dials_ok hl grants p n st \<Longrightarrow> reads_lines hl grants
    \<Longrightarrow> plain_host n \<Longrightarrow> dials_ok hl grants p n st'"
  by (induction rule: rtranclp_induct) (auto intro: dial_step_ok)

text \<open>
  C8. Trust on first use holds for the whole process: however many dials run in parallel, each checking keys against its
  own older reading of the file, a plain host the file did not know is trusted with one key only. The first key is recorded
  and appended, and every other key is refused from then on. This takes a file that ends its last line, writes that reach it
  whole or not at all, nobody else who edits it meanwhile, and dials to plain hosts only.
\<close>

theorem accept_new_one_key:
  assumes "reads_lines hl grants" and "plain_host n"
    and "(dial_step hl whole_writes plain_host)\<^sup>*\<^sup>* (dials_start files) st"
    and "\<And>c. files path = Some c \<Longrightarrow> terminated c \<and> (\<forall>l \<in> set (split_on nl c). \<forall>k. \<not> grants l n k)"
    and "(path, n, key) \<in> set (dl_trusted st)" and "(path, n, key') \<in> set (dl_trusted st)"
  shows "key = key'"
proof -
  have "dials_ok hl grants path n (dials_start files)"
    using assms(4) by (auto simp: dials_ok_def dials_start_def sound_file_def)
  then have "dials_ok hl grants path n st" using dials_reach_ok[OF assms(3) _ assms(1,2)] by blast
  then have "hs_recorded (dl_state st) (record_key path n) = Some (hl_line hl n k)" if "(path, n, k) \<in> set (dl_trusted st)" for k
    using that unfolding dials_ok_def by blast
  from this[OF assms(5)] this[OF assms(6)] have "hl_line hl n key = hl_line hl n key'" by simp
  moreover have "grants (hl_line hl n k) n k' \<longleftrightarrow> k' = k" for k k' using assms(1,2) by (simp add: reads_lines_def)
  ultimately show ?thesis by metis
qed

text \<open>
  A file whose last line is not ended: the new line is appended to that line, so the file no longer has either entry, which
  is what the precondition on the file is for.
\<close>

lemma accept_new_glues:
  assumes "hs_files s path = Some (c @ nl # last_line)" "nl \<notin> set last_line" "last_line \<noteq> []"
    and "cb hostname remote key = Want [] err" "hs_recorded s (record_key path (hl_normalize hl hostname)) = None"
    and "dk_open d path = None" "dk_write d path = None" "dk_close d path = None" "nl \<notin> set (hl_line hl (hl_normalize hl hostname) key)"
  shows "fst (acceptNewCallback hl d path cb hostname remote key s) = None
    \<and> (\<exists>c'. hs_files (snd (acceptNewCallback hl d path cb hostname remote key s)) path = Some c'
       \<and> c' = c @ nl # (last_line @ hl_line hl (hl_normalize hl hostname) key) @ [nl]
       \<and> split_on nl c' = split_on nl c @ [last_line @ hl_line hl (hl_normalize hl hostname) key, []])"
proof -
  have "split_on nl (c @ nl # s) = split_on nl c @ split_on nl s" for s
    by (induction c) (auto simp: hd_append tl_append split: list.split)
  moreover have "split_on nl (last_line @ hl_line hl (hl_normalize hl hostname) key @ [nl]) =
      [last_line @ hl_line hl (hl_normalize hl hostname) key, []]"
    using split_on_app[of nl "last_line @ hl_line hl (hl_normalize hl hostname) key" "[]"] assms(2,9) by simp
  ultimately show ?thesis using assms by (simp add: acceptNewCallback_def record_new_def Let_def)
qed

section \<open>A concrete file\<close>

text \<open>A key is a number, a line the host followed by as many bars as the number says, and one more.\<close>

definition bar_line :: "string \<Rightarrow> nat \<Rightarrow> string" where
  "bar_line h k = h @ replicate (Suc k) (CHR ''|'')"

definition bar_name :: "string \<Rightarrow> string" where
  "bar_name h = filter (\<lambda>c. c \<noteq> nl \<and> c \<noteq> CHR ''|'') h"

definition demo_hosts :: "nat hosts_lib" where
  "demo_hosts = \<lparr>hl_new = (\<lambda>path c. case c of None \<Rightarrow> Inl (Text ''no such file'')
        | Some c \<Rightarrow> Inr (\<lambda>h r k. if List.member (split_on nl c) (bar_line (bar_name h) k) then Known
            else if list_ex (\<lambda>l. has_prefix l (bar_name h @ ''|'')) (split_on nl c) then Want [0] (Text ''mismatch'')
            else Want [] (Text ''unknown''))),
      hl_line = bar_line, hl_normalize = bar_name, hl_type = (\<lambda>k. ''bars''), hl_print = (\<lambda>k. []), hl_probe = 0\<rparr>"

definition bar_grants :: "string \<Rightarrow> string \<Rightarrow> nat \<Rightarrow> bool" where
  "bar_grants l h k \<longleftrightarrow> CHR ''|'' \<notin> set h \<and> l = bar_line h k"

definition good_disk :: disk where
  "good_disk = \<lparr>dk_home = Inr ''/h'', dk_stat = (\<lambda>p. None), dk_mkdir = (\<lambda>p. None), dk_open = (\<lambda>p. None),
     dk_write = (\<lambda>p. None), dk_close = (\<lambda>p. None)\<rparr>"

lemma good_disk_simps [simp]: "dk_stat good_disk p = None" "dk_mkdir good_disk p = None" "dk_open good_disk p = None"
  "dk_write good_disk p = None" "dk_close good_disk p = None"
  by (simp_all add: good_disk_def)

lemma bars_inj:
  assumes "CHR ''|'' \<notin> set h" "CHR ''|'' \<notin> set m"
  shows "bar_line h k = bar_line m j \<longleftrightarrow> m = h \<and> j = k"
proof
  have t: "takeWhile (\<lambda>c. c \<noteq> CHR ''|'') (bar_line u i) = u" if "CHR ''|'' \<notin> set u" for u i
  proof -
    have "takeWhile (\<lambda>c. c \<noteq> CHR ''|'') (bar_line u i) = u @ takeWhile (\<lambda>c. c \<noteq> CHR ''|'') (replicate (Suc i) (CHR ''|''))"
      unfolding bar_line_def using that by (intro takeWhile_append2) auto
    then show ?thesis by simp
  qed
  assume e: "bar_line h k = bar_line m j"
  then have "h = m" using t[OF assms(1), of k] t[OF assms(2), of j] by metis
  moreover have "length (bar_line h k) = length (bar_line m j)" using e by simp
  ultimately show "m = h \<and> j = k" by (simp add: bar_line_def)
qed simp

lemma plain_host_bar: "plain_host n \<Longrightarrow> CHR ''|'' \<notin> set n"
  using plain_host_chars[of n "CHR ''|''"] by (auto simp: host_char_def)

lemma demo_reads: "reads_lines demo_hosts bar_grants"
  unfolding reads_lines_def
proof (intro conjI allI impI)
  fix path c cb h r k
  assume "hl_new demo_hosts path (Some c) = Inr cb" "cb h r k = Known" and p: "plain_host (hl_normalize demo_hosts h)"
  then have "bar_line (bar_name h) k \<in> set (split_on nl c)"
    by (auto simp: demo_hosts_def split: if_splits)
  moreover have "bar_grants (bar_line (bar_name h) k) (bar_name h) k"
    using plain_host_bar[OF p] by (simp add: bar_grants_def demo_hosts_def)
  ultimately show "\<exists>l \<in> set (split_on nl c). bar_grants l (hl_normalize demo_hosts h) k"
    by (auto simp: demo_hosts_def)
next
  fix n k m k'
  assume "plain_host n" "plain_host m"
  then show "bar_grants (hl_line demo_hosts n k) m k' \<longleftrightarrow> m = n \<and> k' = k"
    using bars_inj[of n m k k'] plain_host_bar by (auto simp: bar_grants_def demo_hosts_def)
next
  fix n :: string and k
  assume "plain_host n"
  then show "nl \<notin> set (hl_line demo_hosts n k)"
    using plain_host_nl by (auto simp: demo_hosts_def bar_line_def nl_def)
qed (simp_all add: demo_hosts_def bar_grants_def bar_line_def)

lemma accept_new_one_key_witness:
  "\<exists>st. (dial_step demo_hosts whole_writes plain_host)\<^sup>*\<^sup>* (dials_start [''kh'' \<mapsto> []]) st
     \<and> (''kh'', ''web'', 2) \<in> set (dl_trusted st) \<and> (\<forall>k. (''kh'', ''web'', k) \<in> set (dl_trusted st) \<longrightarrow> k = 2)"
proof -
  let ?st0 = "dials_start [''kh'' \<mapsto> []] :: nat dials"
  let ?ho = "\<lparr>ho_Strict = True, ho_KnownHostsFile = ''kh'', ho_AcceptNew = True\<rparr>"
  have n: "hl_normalize demo_hosts ''web'' = ''web''" by code_simp
  have plain: "plain_host ''web''" by code_simp
  have disk: "whole_writes good_disk" by (simp add: whole_writes_def)
  obtain cb where cb: "hl_new demo_hosts ''kh'' (Some []) = Inr cb" by (simp add: demo_hosts_def)
  then have w: "cb ''web'' [] 2 = Want [] (Text ''unknown'')"
    by (auto simp: demo_hosts_def has_prefix_def bar_line_def)
  have kh: "known_hosts_path good_disk ''kh'' = Inr ''kh''" by code_simp
  have files: "hs_files (dl_state ?st0) ''kh'' = Some []" "hs_recorded (dl_state ?st0) = Map.empty"
    by (simp_all add: dials_start_def)
  have "hostKeyCallback demo_hosts good_disk ?ho (dl_state ?st0) = (Inr (Verify True ''kh'' cb), dl_state ?st0)"
    by (simp add: hostKeyCallback_def kh ensureKnownHosts_def files cb)
  from dial_step.Begin[where disks = whole_writes and names = plain_host, OF disk this, of 0]
  have one: "dial_step demo_hosts whole_writes plain_host ?st0 (?st0\<lparr>dl_checks := [0 \<mapsto> Verify True ''kh'' cb]\<rparr>)"
    by (simp add: dials_start_def)
  let ?st1 = "?st0\<lparr>dl_checks := [0 \<mapsto> Verify True ''kh'' cb]\<rparr>"
  have "\<exists>s. check_key demo_hosts good_disk (Verify True ''kh'' cb) ''web'' [] 2 (dl_state ?st1) = (None, s)"
    by (simp add: check_key_def acceptNewCallback_def w record_new_def files Let_def)
  then obtain s where k: "check_key demo_hosts good_disk (Verify True ''kh'' cb) ''web'' [] 2 (dl_state ?st1) = (None, s)" by blast
  have "dl_checks ?st1 0 = Some (Verify True ''kh'' cb)" by simp
  from dial_step.Shown[where disks = whole_writes and names = plain_host and hostname = "''web''", OF disk _ this k] obtain st where two: "dial_step demo_hosts whole_writes plain_host ?st1 st"
    and t: "dl_trusted st = [(''kh'', ''web'', 2)]" by (simp add: trust_def n plain dials_start_def)
  have run: "(dial_step demo_hosts whole_writes plain_host)\<^sup>*\<^sup>* ?st0 st"
    using one two by (meson converse_rtranclp_into_rtranclp r_into_rtranclp)
  have fresh: "terminated c \<and> (\<forall>l \<in> set (split_on nl c). \<forall>k. \<not> bar_grants l ''web'' k)"
    if "[''kh'' \<mapsto> []] ''kh'' = Some c" for c
    using that by (auto simp: terminated_def bar_grants_def bar_line_def)
  have "k = 2" if "(''kh'', ''web'', k) \<in> set (dl_trusted st)" for k
    using accept_new_one_key[where path = "''kh''" and n = "''web''" and key = k and key' = 2, OF demo_reads plain run fresh] that t by simp
  then show ?thesis using run t by auto
qed

end
