(* ===== verification/Ssh_Client.thy ===== *)
theory Ssh_Client
  imports Ssh_Hosts Cluster
begin

text \<open>
  Connections of the SSH transport (\<open>transport/ssh/client.go\<close>, \<open>transport/ssh/bastion.go\<close>): dialling, the jump host with its two
  cached connections, forwarding, the keepalive loop, running a command and closing.

  \<open>ssh_lib\<close> has what is not code of the repository: the network, the handshake of the SSH library and the channels of a
  connection. The state \<open>wire\<close> holds the world, the known hosts, the connections this process has opened and not closed (the
  socket of the operator's agent is one), the jump host, and as a history the handshakes that were completed: connection, check,
  address and the key the server has shown. The watchdog of a handshake is asked when the handshake is over, as the code does;
  \<open>Some ce\<close> says that it has closed the connection, with the error of the context.
\<close>

record ssh_target =
  tg_Host :: string
  tg_Port :: int
  tg_User :: string
  tg_IdentityFile :: string
  tg_Passphrase :: string

record 'p ssh_dial_options =
  op_Hosts :: host_options
  op_ConnectTimeout :: int
  op_KeepaliveInterval :: int
  op_KeepaliveMaxFails :: int
  op_ForwardAgent :: bool
  op_ForwardKey :: string
  op_Agent :: "'p keyring option"
  op_Bastion :: bool

record ssh_client =
  cl_conn :: nat
  cl_host :: string
  cl_forward :: bool
  cl_keepalive :: "(int \<times> nat) option"

text \<open>A cached dial of the jump host: \<open>None\<close> before the first one, else its client or its error.\<close>

type_synonym bastion_conn = "ssh_client res option"

record bastion_state =
  bn_target :: ssh_target
  bn_closed :: bool
  bn_strict :: bastion_conn
  bn_loose :: bastion_conn

record ('k, 'w) wire =
  wi_world :: 'w
  wi_hosts :: hosts_state
  wi_open :: "nat list"
  wi_next :: nat
  wi_bastion :: bastion_state
  wi_log :: "(nat \<times> 'k host_check \<times> string \<times> 'k) list"

text \<open>A failed dial: a timeout, with the cause of the network operation if it is one; another failed operation; another error.\<close>

datatype dial_failure = Timed_out "goerr option" goerr | Op_failed goerr | Other_failure goerr

record ('p, 'k, 'w) ssh_lib =
  sl_keys :: "'p key_env"
  sl_hosts :: "'k hosts_lib"
  sl_disk :: "'w \<Rightarrow> disk"
  sl_user :: string
  sl_tcp :: "string \<Rightarrow> 'w \<Rightarrow> dial_failure option \<times> 'w"
  sl_channel :: "nat \<Rightarrow> string \<Rightarrow> 'w \<Rightarrow> goerr option \<times> 'w"
  sl_remote :: "nat \<Rightarrow> 'w \<Rightarrow> string"
  sl_hello :: "nat \<Rightarrow> string list \<Rightarrow> 'w \<Rightarrow> 'k res \<times> 'w"
  sl_login :: "nat \<Rightarrow> string \<Rightarrow> 'p auth_method list \<Rightarrow> 'w \<Rightarrow> goerr option \<times> 'w"
  sl_watchdog :: "nat \<Rightarrow> 'w \<Rightarrow> goerr option option"
  sl_forward :: "nat \<Rightarrow> 'p forwarding \<Rightarrow> 'w \<Rightarrow> goerr option \<times> 'w"
  sl_close :: "nat \<Rightarrow> 'w \<Rightarrow> goerr option \<times> 'w"
  sl_gone :: "nat \<Rightarrow> 'w \<Rightarrow> bool"
  sl_span :: "int \<Rightarrow> string"

definition DefaultConnectTimeout :: int where "DefaultConnectTimeout = 15000000000"
definition DefaultKeepaliveInterval :: int where "DefaultKeepaliveInterval = 10000000000"
definition DefaultKeepaliveMaxFails :: nat where "DefaultKeepaliveMaxFails = 3"

definition target_addr :: "ssh_target \<Rightarrow> string" where
  "target_addr t = (let port = itoa (if tg_Port t = 0 then 22 else tg_Port t) in
     if CHR '':'' \<in> set (tg_Host t) then ''['' @ tg_Host t @ '']:'' @ port else tg_Host t @ '':'' @ port)"

section \<open>Opening and closing\<close>

definition new_conn :: "('k, 'w) wire \<Rightarrow> nat res \<times> ('k, 'w) wire" where
  "new_conn s = (Inr (wi_next s), s\<lparr>wi_open := wi_next s # wi_open s, wi_next := Suc (wi_next s)\<rparr>)"

definition close_conn :: "('p, 'k, 'w) ssh_lib \<Rightarrow> nat \<Rightarrow> ('k, 'w) wire \<Rightarrow> goerr option \<times> ('k, 'w) wire" where
  "close_conn lib c s = (case sl_close lib c (wi_world s) of (r, w) \<Rightarrow> (r, s\<lparr>wi_world := w, wi_open := removeAll c (wi_open s)\<rparr>))"

definition Client_Close :: "('p, 'k, 'w) ssh_lib \<Rightarrow> ssh_client option \<Rightarrow> ('k, 'w) wire \<Rightarrow> goerr option \<times> ('k, 'w) wire" where
  "Client_Close lib co s = (case co of None \<Rightarrow> (None, s) | Some c \<Rightarrow> close_conn lib (cl_conn c) s)"

definition client_ended :: "('p, 'k, 'w) ssh_lib \<Rightarrow> ssh_client \<Rightarrow> ('k, 'w) wire \<Rightarrow> bool" where
  "client_ended lib c s \<longleftrightarrow> cl_conn c \<notin> set (wi_open s) \<or> sl_gone lib (cl_conn c) (wi_world s)"

fun connectError :: "dial_failure \<Rightarrow> goerr" where
  "connectError (Timed_out (Some cause) err) = wrapf ''connection timed out'' cause"
| "connectError (Timed_out None err) = wrapf ''connection timed out'' err"
| "connectError (Op_failed cause) = cause"
| "connectError (Other_failure err) = err"

definition tcp_open :: "('p, 'k, 'w) ssh_lib \<Rightarrow> string \<Rightarrow> ('k, 'w) wire \<Rightarrow> nat res \<times> ('k, 'w) wire" where
  "tcp_open lib addr s = (case sl_tcp lib addr (wi_world s) of
      (Some f, w) \<Rightarrow> (Inl (connectError f), s\<lparr>wi_world := w\<rparr>)
    | (None, w) \<Rightarrow> new_conn (s\<lparr>wi_world := w\<rparr>))"

section \<open>The handshake\<close>

definition handshake :: "('p, 'k, 'w) ssh_lib \<Rightarrow> string \<Rightarrow> 'k host_check \<Rightarrow> 'p auth_method list \<Rightarrow> nat \<Rightarrow> string \<Rightarrow> ('k, 'w) wire
    \<Rightarrow> goerr option \<times> ('k, 'w) wire" where
  "handshake lib user check auth conn addr s =
     (let algos = knownHostAlgorithms (sl_hosts lib) check addr (sl_remote lib conn (wi_world s)) in
      case sl_hello lib conn algos (wi_world s) of
        (Inl err, w) \<Rightarrow> (Some err, s\<lparr>wi_world := w\<rparr>)
      | (Inr key, w) \<Rightarrow>
        (case check_key (sl_hosts lib) (sl_disk lib w) check addr (sl_remote lib conn w) key (wi_hosts s) of
          (Some err, h) \<Rightarrow> (Some err, s\<lparr>wi_world := w, wi_hosts := h\<rparr>)
        | (None, h) \<Rightarrow> (case sl_login lib conn user auth w of
            (Some err, w') \<Rightarrow> (Some err, s\<lparr>wi_world := w', wi_hosts := h\<rparr>)
          | (None, w') \<Rightarrow> (None, s\<lparr>wi_world := w', wi_hosts := h, wi_log := (conn, check, addr, key) # wi_log s\<rparr>))))"

definition setupForwarding :: "('p, 'k, 'w) ssh_lib \<Rightarrow> 'p ssh_dial_options \<Rightarrow> nat \<Rightarrow> ('k, 'w) wire \<Rightarrow> goerr option \<times> ('k, 'w) wire" where
  "setupForwarding lib opts conn s = (case forwarding_of (sl_keys lib) (op_ForwardKey opts) (op_Agent opts) of
      Inl err \<Rightarrow> (Some err, s)
    | Inr f \<Rightarrow> (case sl_forward lib conn f (wi_world s) of (r, w) \<Rightarrow> (r, s\<lparr>wi_world := w\<rparr>)))"

definition forwards :: "'p ssh_dial_options \<Rightarrow> bool" where
  "forwards opts \<longleftrightarrow> op_ForwardAgent opts \<or> op_ForwardKey opts \<noteq> []"

definition startKeepalive :: "'p ssh_dial_options \<Rightarrow> (int \<times> nat) option" where
  "startKeepalive opts = (let interval = (if op_KeepaliveInterval opts = 0 then DefaultKeepaliveInterval else op_KeepaliveInterval opts) in
     if interval < 0 then None
     else Some (interval, if op_KeepaliveMaxFails opts \<le> 0 then DefaultKeepaliveMaxFails else nat (op_KeepaliveMaxFails opts)))"

definition connect_timeout :: "'p ssh_dial_options \<Rightarrow> int" where
  "connect_timeout opts = (if op_ConnectTimeout opts = 0 then DefaultConnectTimeout else op_ConnectTimeout opts)"

definition close_with :: "('p, 'k, 'w) ssh_lib \<Rightarrow> nat \<Rightarrow> goerr \<Rightarrow> ('k, 'w) wire \<Rightarrow> ssh_client res \<times> ('k, 'w) wire" where
  "close_with lib conn err s = (Inl err, snd (close_conn lib conn s))"

definition client_on :: "('p, 'k, 'w) ssh_lib \<Rightarrow> ssh_target \<Rightarrow> 'p ssh_dial_options \<Rightarrow> 'k host_check \<Rightarrow> 'p auth_method list \<Rightarrow> nat
    \<Rightarrow> ('k, 'w) wire \<Rightarrow> ssh_client res \<times> ('k, 'w) wire" where
  "client_on lib t opts check auth conn s =
     (case handshake lib (or_str (sl_user lib) (tg_User t)) check auth conn (target_addr t) s of (r, s1) \<Rightarrow>
      (case sl_watchdog lib conn (wi_world s1) of
        Some (Some err) \<Rightarrow> close_with lib conn (wrapf ''ssh handshake'' err) s1
      | Some None \<Rightarrow> close_with lib conn (Text (''ssh handshake: timeout after '' @ sl_span lib (connect_timeout opts))) s1
      | None \<Rightarrow> (case r of
          Some err \<Rightarrow> close_with lib conn (wrapf ''ssh handshake'' err) s1
        | None \<Rightarrow>
          (let cl = \<lparr>cl_conn = conn, cl_host = tg_Host t, cl_forward = forwards opts, cl_keepalive = startKeepalive opts\<rparr> in
           if forwards opts then (case setupForwarding lib opts conn s1 of
               (Some err, s2) \<Rightarrow> close_with lib conn err s2
             | (None, s2) \<Rightarrow> (Inr cl, s2))
           else (Inr cl, s1)))))"

text \<open>The body of \<open>Dial\<close> over the way a connection to the address is opened.\<close>

definition dial_checked :: "('p, 'k, 'w) ssh_lib \<Rightarrow> (string \<Rightarrow> ('k, 'w) wire \<Rightarrow> nat res \<times> ('k, 'w) wire) \<Rightarrow> ssh_target
    \<Rightarrow> 'p ssh_dial_options \<Rightarrow> 'p auth_method list \<Rightarrow> ('k, 'w) wire \<Rightarrow> ssh_client res \<times> ('k, 'w) wire" where
  "dial_checked lib opener t opts auth s =
     (case hostKeyCallback (sl_hosts lib) (sl_disk lib (wi_world s)) (op_Hosts opts) (wi_hosts s) of
        (Inl err, h) \<Rightarrow> (Inl err, s\<lparr>wi_hosts := h\<rparr>)
      | (Inr check, h) \<Rightarrow> (case opener (target_addr t) (s\<lparr>wi_hosts := h\<rparr>) of
          (Inl err, s1) \<Rightarrow> (Inl err, s1)
        | (Inr conn, s1) \<Rightarrow> client_on lib t opts check auth conn s1))"

definition dial_with :: "('p, 'k, 'w) ssh_lib \<Rightarrow> (string \<Rightarrow> ('k, 'w) wire \<Rightarrow> nat res \<times> ('k, 'w) wire) \<Rightarrow> ssh_target
    \<Rightarrow> 'p ssh_dial_options \<Rightarrow> ('k, 'w) wire \<Rightarrow> ssh_client res \<times> ('k, 'w) wire" where
  "dial_with lib opener t opts s = (case authMethods (sl_keys lib) (tg_IdentityFile t) (tg_Passphrase t) (op_Agent opts) of
      (Inl err, opened) \<Rightarrow> (Inl err, s)
    | (Inr auth, opened) \<Rightarrow>
        if opened then (case new_conn s of (_, s0) \<Rightarrow> (case dial_checked lib opener t opts auth s0 of
            (r, s1) \<Rightarrow> (r, snd (close_conn lib (wi_next s) s1))))
        else dial_checked lib opener t opts auth s)"

section \<open>The jump host\<close>

definition slot :: "bool \<Rightarrow> bastion_state \<Rightarrow> bastion_conn" where
  "slot strict b = (if strict then bn_strict b else bn_loose b)"

definition put_slot :: "bool \<Rightarrow> bastion_conn \<Rightarrow> ('k, 'w) wire \<Rightarrow> ('k, 'w) wire" where
  "put_slot strict bc s = s\<lparr>wi_bastion := (if strict then (wi_bastion s)\<lparr>bn_strict := bc\<rparr> else (wi_bastion s)\<lparr>bn_loose := bc\<rparr>)\<rparr>"

definition NewBastion :: "ssh_target \<Rightarrow> bastion_state" where
  "NewBastion t = \<lparr>bn_target = t, bn_closed = False, bn_strict = None, bn_loose = None\<rparr>"

definition hop_options :: "'p ssh_dial_options \<Rightarrow> 'p ssh_dial_options" where
  "hop_options opts = opts\<lparr>op_Bastion := False, op_ForwardAgent := False, op_ForwardKey := []\<rparr>"

definition dial_bastion :: "('p, 'k, 'w) ssh_lib \<Rightarrow> 'p ssh_dial_options \<Rightarrow> ('k, 'w) wire \<Rightarrow> ssh_client res \<times> ('k, 'w) wire" where
  "dial_bastion lib opts s = (let strict = ho_Strict (op_Hosts opts); t = bn_target (wi_bastion s) in
     case dial_with lib (tcp_open lib) t (hop_options opts) s of
       (Inr c, s') \<Rightarrow> (Inr c, put_slot strict (Some (Inr c)) s')
     | (Inl e, s') \<Rightarrow> (let err = wrapf (''bastion '' @ tg_Host t) e in
         if is_ctx_err err then (Inl err, s') else (Inl err, put_slot strict (Some (Inl err)) s')))"

definition bastion_connect :: "('p, 'k, 'w) ssh_lib \<Rightarrow> 'p ssh_dial_options \<Rightarrow> ('k, 'w) wire \<Rightarrow> ssh_client res \<times> ('k, 'w) wire" where
  "bastion_connect lib opts s =
     (if bn_closed (wi_bastion s) then (Inl (Text (''bastion '' @ tg_Host (bn_target (wi_bastion s)) @ '': connection closed'')), s)
      else (case slot (ho_Strict (op_Hosts opts)) (wi_bastion s) of
          Some (Inl err) \<Rightarrow> (Inl err, s)
        | Some (Inr c) \<Rightarrow> if \<not> client_ended lib c s then (Inr c, s)
            else dial_bastion lib opts (snd (Client_Close lib (Some c) s))
        | None \<Rightarrow> dial_bastion lib opts s))"

definition dialThrough :: "('p, 'k, 'w) ssh_lib \<Rightarrow> 'p ssh_dial_options \<Rightarrow> string \<Rightarrow> ('k, 'w) wire \<Rightarrow> nat res \<times> ('k, 'w) wire" where
  "dialThrough lib opts addr s = (case bastion_connect lib opts s of
      (Inl err, s1) \<Rightarrow> (Inl err, s1)
    | (Inr c, s1) \<Rightarrow> (case sl_channel lib (cl_conn c) addr (wi_world s1) of
        (Some err, w) \<Rightarrow> (Inl (wrapf (''via bastion '' @ tg_Host (bn_target (wi_bastion s1))) err), s1\<lparr>wi_world := w\<rparr>)
      | (None, w) \<Rightarrow> new_conn (s1\<lparr>wi_world := w\<rparr>)))"

definition Dial :: "('p, 'k, 'w) ssh_lib \<Rightarrow> ssh_target \<Rightarrow> 'p ssh_dial_options \<Rightarrow> ('k, 'w) wire \<Rightarrow> ssh_client res \<times> ('k, 'w) wire" where
  "Dial lib t opts s = dial_with lib (if op_Bastion opts then dialThrough lib opts else tcp_open lib) t opts s"

definition close_slot :: "('p, 'k, 'w) ssh_lib \<Rightarrow> bool \<Rightarrow> ('k, 'w) wire \<Rightarrow> goerr list \<times> ('k, 'w) wire" where
  "close_slot lib strict s = (case slot strict (wi_bastion s) of
      Some (Inr c) \<Rightarrow> (case Client_Close lib (Some c) s of (r, s1) \<Rightarrow>
        ((case r of None \<Rightarrow> [] | Some err \<Rightarrow> [err]), put_slot strict None s1))
    | _ \<Rightarrow> ([], put_slot strict None s))"

definition Bastion_Close :: "('p, 'k, 'w) ssh_lib \<Rightarrow> ('k, 'w) wire \<Rightarrow> goerr list \<times> ('k, 'w) wire" where
  "Bastion_Close lib s = (case close_slot lib True s of (es1, s1) \<Rightarrow> (case close_slot lib False s1 of (es2, s2) \<Rightarrow>
     (es1 @ es2, s2\<lparr>wi_bastion := (wi_bastion s2)\<lparr>bn_closed := True\<rparr>\<rparr>)))"

section \<open>Keepalive\<close>

text \<open>What the loop meets: the client is closed, or a tick, with the answer of the ping it sends.\<close>

datatype ping_answer = Replied "goerr option" | No_reply | Closing

datatype beat = Stop | Tick ping_answer

fun ping_ok :: "ping_answer \<Rightarrow> bool" where
  "ping_ok (Replied err) \<longleftrightarrow> err = None"
| "ping_ok No_reply \<longleftrightarrow> False"
| "ping_ok Closing \<longleftrightarrow> True"

text \<open>\<open>Some n\<close>: the connection is closed for silence at the \<open>n\<close>-th tick.\<close>

fun keepalive :: "nat \<Rightarrow> nat \<Rightarrow> nat \<Rightarrow> beat list \<Rightarrow> nat option" where
  "keepalive maxFails fails n [] = None"
| "keepalive maxFails fails n (Stop # bs) = None"
| "keepalive maxFails fails n (Tick p # bs) =
     (if ping_ok p then keepalive maxFails 0 (Suc n) bs
      else if maxFails \<le> Suc fails then Some (Suc n)
      else keepalive maxFails (Suc fails) (Suc n) bs)"

section \<open>Running a command\<close>

datatype waited = Ctx_done goerr | Exited "goerr option"

record 'w session_lib =
  ses_new :: "nat \<Rightarrow> 'w \<Rightarrow> goerr option \<times> 'w"
  ses_forward :: "nat \<Rightarrow> 'w \<Rightarrow> 'w"
  ses_start :: "nat \<Rightarrow> string \<Rightarrow> 'w \<Rightarrow> goerr option \<times> 'w"
  ses_wait :: "nat \<Rightarrow> 'w \<Rightarrow> ((bool \<times> string) list \<times> waited) \<times> 'w"
  ses_kill :: "nat \<Rightarrow> 'w \<Rightarrow> 'w"
  ses_close :: "nat \<Rightarrow> 'w \<Rightarrow> 'w"

definition Client_Run :: "'w session_lib \<Rightarrow> nat \<Rightarrow> bool \<Rightarrow> string \<Rightarrow> 'w \<Rightarrow> ((bool \<times> string) list \<times> goerr option) \<times> 'w" where
  "Client_Run ses conn forward cmd w0 = (case ses_new ses conn w0 of
      (Some err, w) \<Rightarrow> (([], Some (wrapf ''new session'' err)), w)
    | (None, w) \<Rightarrow> (case ses_start ses conn cmd (if forward then ses_forward ses conn w else w) of
        (Some err, w1) \<Rightarrow> (([], Some (wrapf ''start command'' err)), ses_close ses conn w1)
      | (None, w1) \<Rightarrow> (case ses_wait ses conn w1 of
          ((out, Ctx_done err), w2) \<Rightarrow> ((out, Some err), ses_close ses conn (ses_close ses conn (ses_kill ses conn w2)))
        | ((out, Exited r), w2) \<Rightarrow> ((out, r), ses_close ses conn w2))))"

definition IsExitError :: "goerr \<Rightarrow> bool" where "IsExitError err \<longleftrightarrow> is_exit_error err"

section \<open>What keepalive detects\<close>

text \<open>The answers of the pings up to the moment the client is closed.\<close>

fun answers :: "beat list \<Rightarrow> bool list" where
  "answers [] = []"
| "answers (Stop # bs) = []"
| "answers (Tick p # bs) = ping_ok p # answers bs"

text \<open>The last \<open>m\<close> of the first \<open>n\<close> answers were misses.\<close>

definition silent :: "nat \<Rightarrow> bool list \<Rightarrow> nat \<Rightarrow> bool" where
  "silent m as n \<longleftrightarrow> n \<le> length as \<and> m \<le> n \<and> (\<forall>i. n - m \<le> i \<and> i < n \<longrightarrow> \<not> as ! i)"

definition first_silent :: "nat \<Rightarrow> bool list \<Rightarrow> nat \<Rightarrow> bool" where
  "first_silent m as n \<longleftrightarrow> silent m as n \<and> (\<forall>j<n. \<not> silent m as j)"

lemma silent_after_hit:
  assumes "0 < m" "f < m"
  shows "silent m (replicate f False @ True # as) (f + Suc n) \<longleftrightarrow> silent m as n"
proof
  let ?bs = "replicate f False @ True # as"
  assume s: "silent m ?bs (f + Suc n)"
  have "m \<le> n"
  proof (rule ccontr)
    assume "\<not> m \<le> n"
    then have "f + Suc n - m \<le> f" "f < f + Suc n" by simp_all
    then have "\<not> ?bs ! f" using s unfolding silent_def by blast
    then show False by (simp add: nth_append)
  qed
  moreover have "\<not> as ! i" if "n - m \<le> i" "i < n" for i
  proof -
    have "\<not> ?bs ! (f + Suc i)" using s that \<open>m \<le> n\<close> unfolding silent_def by (auto dest!: spec[of _ "f + Suc i"])
    then show ?thesis by (simp add: nth_append)
  qed
  ultimately show "silent m as n" using s by (simp add: silent_def)
next
  let ?bs = "replicate f False @ True # as"
  assume s: "silent m as n"
  have "\<not> ?bs ! i" if i: "f + Suc n - m \<le> i" "i < f + Suc n" for i
  proof -
    have "m \<le> n" using s by (simp add: silent_def)
    then have "f < i" using i(1) by linarith
    then have "n - m \<le> i - Suc f" "i - Suc f < n" using i s by (auto simp: silent_def)
    then have "\<not> as ! (i - Suc f)" using s unfolding silent_def by blast
    then show ?thesis using \<open>f < i\<close> by (simp add: nth_append nth_Cons')
  qed
  then show "silent m ?bs (f + Suc n)" using s by (simp add: silent_def)
qed

lemma keepalive_first: "0 < m \<Longrightarrow> f < m \<Longrightarrow>
    keepalive m f k bs = Some r \<longleftrightarrow> (\<exists>n. r = k + n \<and> silent m (replicate f False @ answers bs) (f + n)
      \<and> (\<forall>j<n. \<not> silent m (replicate f False @ answers bs) (f + j)))"
proof (induction m f k bs arbitrary: r rule: keepalive.induct)
  case (3 m f k p bs)
  have none: "\<not> silent m as (f + 0)" for as using 3(4) by (simp add: silent_def)
  have shift: "(\<exists>n. r = k + n \<and> P n \<and> (\<forall>j<n. \<not> P j)) \<longleftrightarrow> (\<exists>n. r = Suc k + n \<and> P (Suc n) \<and> (\<forall>j<n. \<not> P (Suc j)))"
    if "\<not> P 0" for P
  proof
    assume "\<exists>n. r = k + n \<and> P n \<and> (\<forall>j<n. \<not> P j)"
    then obtain n where n: "r = k + n" "P n" "\<forall>j<n. \<not> P j" by blast
    then obtain n' where "n = Suc n'" using \<open>\<not> P 0\<close> by (cases n) auto
    then show "\<exists>n. r = Suc k + n \<and> P (Suc n) \<and> (\<forall>j<n. \<not> P (Suc j))" using n by auto
  next
    assume "\<exists>n. r = Suc k + n \<and> P (Suc n) \<and> (\<forall>j<n. \<not> P (Suc j))"
    then obtain n where n: "r = Suc k + n" "P (Suc n)" "\<forall>j<n. \<not> P (Suc j)" by blast
    have "\<not> P j" if "j < Suc n" for j using n(3) that \<open>\<not> P 0\<close> by (cases j) auto
    then show "\<exists>n. r = k + n \<and> P n \<and> (\<forall>j<n. \<not> P j)" using n by (intro exI[of _ "Suc n"]) simp
  qed
  let ?as = "answers bs"
  show ?case
  proof (cases "ping_ok p")
    case True
    have "keepalive m f k (Tick p # bs) = Some r \<longleftrightarrow> (\<exists>n. r = Suc k + n \<and> silent m ?as n \<and> (\<forall>j<n. \<not> silent m ?as j))"
      using True 3(1)[OF True 3(3,3)] by simp
    then show ?thesis unfolding shift[of "\<lambda>n. silent m (replicate f False @ answers (Tick p # bs)) (f + n)", OF none]
      using True silent_after_hit[OF 3(3,4)] by simp
  next
    case False
    have eq: "replicate f False @ answers (Tick p # bs) = replicate (Suc f) False @ ?as"
      using False by (simp add: replicate_append_same[symmetric])
    show ?thesis
    proof (cases "m \<le> Suc f")
      case True
      then have m: "m = Suc f" using 3(4) by simp
      have "silent m (replicate (Suc f) False @ ?as) (Suc f)"
        using m by (auto simp: silent_def nth_append simp del: replicate_Suc)
      then have "(\<exists>n. r = Suc k + n \<and> silent m (replicate (Suc f) False @ ?as) (f + Suc n)
          \<and> (\<forall>j<n. \<not> silent m (replicate (Suc f) False @ ?as) (f + Suc j))) \<longleftrightarrow> r = Suc k"
        by (metis add.right_neutral add_Suc_right gr0I not_less0)
      then show ?thesis unfolding eq shift[of "\<lambda>n. silent m (replicate (Suc f) False @ answers bs) (f + n)", OF none]
        using False True by auto
    next
      case small: False
      then have "Suc f < m" by simp
      from 3(2)[OF False small 3(3) this, of r] show ?thesis
        unfolding eq shift[of "\<lambda>n. silent m (replicate (Suc f) False @ answers bs) (f + n)", OF none]
        using False small by simp
    qed
  qed
qed (auto simp: silent_def)

lemma answers_app: "Stop \<notin> set bs \<Longrightarrow> answers (bs @ cs) = map (\<lambda>b. case b of Tick p \<Rightarrow> ping_ok p | Stop \<Rightarrow> False) bs @ answers cs"
  by (induction bs rule: answers.induct) auto

text \<open>
  C38. Keepalive closes a connection exactly at the first moment at which the last \<open>maxFails\<close> pings were all misses; an answer in
  between starts the count anew, and closing the client stops it. So a host that stops answering for good is given up
  after that many pings at most, whatever it answered before.
\<close>

theorem keepalive_detects:
  assumes "0 < m"
  shows "(keepalive m 0 0 bs = Some n \<longleftrightarrow> first_silent m (answers bs) n)
    \<and> (Stop \<notin> set bs \<longrightarrow> (\<exists>n \<le> length bs + m. keepalive m 0 0 (bs @ replicate m (Tick No_reply) @ cs) = Some n))"
proof (intro conjI impI)
  have k: "keepalive m 0 0 bs = Some n \<longleftrightarrow> first_silent m (answers bs) n" for bs n
    using keepalive_first[OF assms assms, of 0 bs n] by (simp add: first_silent_def)
  then show "keepalive m 0 0 bs = Some n \<longleftrightarrow> first_silent m (answers bs) n" .
  assume "Stop \<notin> set bs"
  let ?bs = "bs @ replicate m (Tick No_reply) @ cs"
  have miss: "answers (replicate j (Tick No_reply) @ cs) = replicate j False @ answers cs" for j by (induction j) auto
  have "silent m (answers ?bs) (length bs + m)"
    by (auto simp: silent_def answers_app[OF \<open>Stop \<notin> set bs\<close>] miss nth_append)
  then have "\<exists>n \<le> length bs + m. first_silent m (answers ?bs) n"
    unfolding first_silent_def by (metis LeastI Least_le not_less_Least)
  then show "\<exists>n \<le> length bs + m. keepalive m 0 0 ?bs = Some n" unfolding k .
qed

lemma keepalive_detects_witness:
  "keepalive 2 0 0 ([Tick No_reply, Tick (Replied None), Tick No_reply, Tick (Replied (Some Canceled)), Stop]) = Some 4
   \<and> first_silent 2 [False, True, False, False] 4"
proof -
  let ?bs = "[Tick No_reply, Tick (Replied None), Tick No_reply, Tick (Replied (Some Canceled)), Stop]"
  have "keepalive 2 0 0 ?bs = Some 4" by code_simp
  moreover have "answers ?bs = [False, True, False, False]" by code_simp
  ultimately show ?thesis using keepalive_detects[of 2 ?bs 4 "[]"] by auto
qed

end
