(* ===== verification/Ssh_Conns.thy ===== *)
theory Ssh_Conns
  imports Ssh_Client
begin

text \<open>
  What the SSH transport guarantees of its connections: that each has one owner and none is left behind, and that with host-key
  verification every connection, also the one to the jump host, was verified. The contract between a dial and whatever opens its
  connection is the locale \<open>conn_opener\<close>, interpreted on the direct TCP connection and on the channel through the jump
  host; the life of the transport is the relation \<open>wire_step\<close>.
\<close>

section \<open>Who owns a connection, and what it was checked with\<close>

definition held_conns :: "('k, 'w) wire \<Rightarrow> nat set" where
  "held_conns s = {cl_conn c | c strict. slot strict (wi_bastion s) = Some (Inr c)}"

definition unowned :: "('k, 'w) wire \<Rightarrow> nat set" where
  "unowned s = set (wi_open s) - held_conns s"

definition checked_conn :: "('p, 'k, 'w) ssh_lib \<Rightarrow> bool \<Rightarrow> string \<Rightarrow> ('k, 'w) wire \<Rightarrow> nat \<Rightarrow> bool" where
  "checked_conn lib strict addr s c \<longleftrightarrow> (\<exists>check k d r hs. (c, check, addr, k) \<in> set (wi_log s)
     \<and> (strict \<longrightarrow> check \<noteq> Anyone) \<and> fst (check_key (sl_hosts lib) d check addr r k hs) = None)"

definition fit :: "('p, 'k, 'w) ssh_lib \<Rightarrow> ('k, 'w) wire \<Rightarrow> bool" where
  "fit lib s \<longleftrightarrow> (\<forall>c \<in> set (wi_open s) \<union> held_conns s. c < wi_next s)
     \<and> (\<forall>c. bn_strict (wi_bastion s) = Some (Inr c) \<longrightarrow> checked_conn lib True (target_addr (bn_target (wi_bastion s))) s (cl_conn c))"

text \<open>What every operation keeps: the history, the jump host's address, that a closed jump host stays closed; handles are new.\<close>

definition goes_on :: "('k, 'w) wire \<Rightarrow> ('k, 'w) wire \<Rightarrow> bool" where
  "goes_on s s' \<longleftrightarrow> set (wi_log s) \<subseteq> set (wi_log s') \<and> bn_target (wi_bastion s') = bn_target (wi_bastion s)
     \<and> (bn_closed (wi_bastion s) \<longrightarrow> bn_closed (wi_bastion s')) \<and> wi_next s \<le> wi_next s'
     \<and> (\<forall>c < wi_next s. c \<in> set (wi_open s') \<longrightarrow> c \<in> set (wi_open s))"

lemma goes_on_refl [simp]: "goes_on s s" by (simp add: goes_on_def)

lemma goes_on_trans:
  assumes "goes_on s s'" "goes_on s' s''"
  shows "goes_on s s''"
proof -
  have "c \<in> set (wi_open s)" if "c < wi_next s" "c \<in> set (wi_open s'')" for c
  proof -
    have "c < wi_next s'" using that(1) assms(1) unfolding goes_on_def by linarith
    then have "c \<in> set (wi_open s')" using that(2) assms(2) unfolding goes_on_def by blast
    then show ?thesis using that(1) assms(1) unfolding goes_on_def by blast
  qed
  then show ?thesis using assms unfolding goes_on_def by auto
qed

lemma checked_on: "checked_conn lib strict addr s c \<Longrightarrow> goes_on s s' \<Longrightarrow> checked_conn lib strict addr s' c"
  unfolding checked_conn_def goes_on_def by blast

text \<open>A step that keeps the jump host and opens nothing.\<close>

definition steady :: "('k, 'w) wire \<Rightarrow> ('k, 'w) wire \<Rightarrow> bool" where
  "steady s s' \<longleftrightarrow> wi_bastion s' = wi_bastion s \<and> wi_next s' = wi_next s \<and> set (wi_log s) \<subseteq> set (wi_log s')
     \<and> set (wi_open s') \<subseteq> set (wi_open s)"

lemma steady_refl [simp]: "steady s s" by (simp add: steady_def)

lemma steady_world [simp]: "steady s (s\<lparr>wi_world := w\<rparr>)" "steady s (s\<lparr>wi_hosts := h\<rparr>)" "steady s (s\<lparr>wi_world := w, wi_hosts := h\<rparr>)"
  by (simp_all add: steady_def)

lemma steady_trans: "steady s s' \<Longrightarrow> steady s' s'' \<Longrightarrow> steady s s''"
  unfolding steady_def by auto

lemma steady_goes_on: "steady s s' \<Longrightarrow> goes_on s s'"
  unfolding steady_def goes_on_def by auto

lemma steady_fit:
  assumes "steady s s'" "fit lib s"
  shows "fit lib s'"
proof -
  have "held_conns s' = held_conns s" using assms(1) by (simp add: steady_def held_conns_def)
  then show ?thesis using assms checked_on[OF _ steady_goes_on[OF assms(1)]] unfolding fit_def steady_def by auto
qed

lemma steady_held: "steady s s' \<Longrightarrow> held_conns s' = held_conns s"
  by (simp add: steady_def held_conns_def)

lemma close_steady: "steady s (snd (close_conn lib c s))" "set (wi_open (snd (close_conn lib c s))) = set (wi_open s) - {c}"
  by (auto simp: close_conn_def steady_def split: prod.split)

lemma close_unowned: "unowned (snd (close_conn lib c s)) = unowned s - {c}"
proof -
  have "held_conns (snd (close_conn lib c s)) = held_conns s" by (rule steady_held[OF close_steady(1)])
  then show ?thesis using close_steady(2)[of lib c s] by (auto simp: unowned_def)
qed

section \<open>A dial, whatever opens its connection\<close>

lemma handshake_steady:
  assumes "handshake lib user check auth conn addr s = (r, s')"
  shows "steady s s'" "wi_open s' = wi_open s" "r = None \<Longrightarrow> checked_conn lib (check \<noteq> Anyone) addr s' conn"
proof -
  show "steady s s'" "wi_open s' = wi_open s"
    using assms by (auto simp: handshake_def steady_def split: sum.splits prod.splits option.splits)
  assume "r = None"
  then obtain key w h w' where "check_key (sl_hosts lib) (sl_disk lib w) check addr (sl_remote lib conn w) key (wi_hosts s) = (None, h)"
    "wi_log s' = (conn, check, addr, key) # wi_log s"
    using assms by (auto simp: handshake_def split: sum.splits prod.splits option.splits)
  then show "checked_conn lib (check \<noteq> Anyone) addr s' conn"
    unfolding checked_conn_def by (intro exI[of _ check] exI[of _ key] exI[of _ "sl_disk lib w"]
      exI[of _ "sl_remote lib conn w"] exI[of _ "wi_hosts s"]) simp
qed

lemma setup_steady: "setupForwarding lib opts conn s = (r, s') \<Longrightarrow> steady s s' \<and> wi_open s' = wi_open s \<and> wi_log s' = wi_log s"
  by (auto simp: setupForwarding_def split: sum.splits prod.splits)

lemma close_with_eq: "close_with lib conn err s = (r, s') \<longleftrightarrow> r = Inl err \<and> s' = snd (close_conn lib conn s)"
  by (auto simp: close_with_def)

text \<open>What a client's part of a dial does with the connection: it keeps it open and has checked it, or closes it.\<close>

lemma client_on_spec:
  assumes "client_on lib t opts check auth conn s = (r, s')"
  shows "steady s s' \<and> (case r of
      Inr c \<Rightarrow> cl_conn c = conn \<and> wi_open s' = wi_open s \<and> checked_conn lib (check \<noteq> Anyone) (target_addr t) s' conn
    | Inl _ \<Rightarrow> set (wi_open s') = set (wi_open s) - {conn})"
proof -
  obtain r1 s1 where h: "handshake lib (or_str (sl_user lib) (tg_User t)) check auth conn (target_addr t) s = (r1, s1)" by fastforce
  note hs = handshake_steady[OF h]
  have closed: ?thesis if "r = Inl err" "s' = snd (close_conn lib conn s2)" "steady s1 s2" "wi_open s2 = wi_open s1" for err s2
    using that close_steady[where s = s2 and lib = lib and c = conn] steady_trans[OF hs(1) steady_trans[OF that(3) close_steady(1)]] hs(2) by simp
  show ?thesis
  proof (cases "sl_watchdog lib conn (wi_world s1) = None \<and> r1 = None")
    case True
    let ?cl = "\<lparr>cl_conn = conn, cl_host = tg_Host t, cl_forward = forwards opts, cl_keepalive = startKeepalive opts\<rparr>"
    have chk: "checked_conn lib (check \<noteq> Anyone) (target_addr t) s1 conn" using hs(3) True by blast
    show ?thesis
    proof (cases "forwards opts")
      case f: True
      obtain r2 s2 where s2: "setupForwarding lib opts conn s1 = (r2, s2)" by fastforce
      note st = setup_steady[OF s2]
      show ?thesis
      proof (cases r2)
        case None
        then have "r = Inr ?cl" "s' = s2" using assms True h s2 f by (simp_all add: client_on_def Let_def)
        then show ?thesis using st hs steady_trans[OF hs(1)] chk by (auto simp: checked_conn_def)
      next
        case (Some err)
        then have "r = Inl err" "s' = snd (close_conn lib conn s2)"
          using assms True h s2 f by (simp_all add: client_on_def Let_def close_with_eq)
        then show ?thesis using closed st by blast
      qed
    next
      case False
      then have "r = Inr ?cl" "s' = s1" using assms True h by (simp_all add: client_on_def Let_def)
      then show ?thesis using hs chk by simp
    qed
  next
    case False
    then obtain err where "r = Inl err" "s' = snd (close_conn lib conn s1)"
      using assms h by (auto simp: client_on_def close_with_eq split: option.splits)
    then show ?thesis using closed by simp
  qed
qed

text \<open>
  The contract of whatever opens the connection of a dial: a connection it gives is a new one that nobody else owns, and when it
  fails nothing is left.
\<close>

definition opened :: "('p, 'k, 'w) ssh_lib \<Rightarrow> ('k, 'w) wire \<Rightarrow> nat option \<Rightarrow> ('k, 'w) wire \<Rightarrow> bool" where
  "opened lib s co s' \<longleftrightarrow> fit lib s' \<and> goes_on s s' \<and> unowned s' = set_option co \<union> unowned s \<and> (\<forall>c. co = Some c \<longrightarrow> wi_next s \<le> c)"

lemma opened_goes_on: "opened lib s co s' \<Longrightarrow> goes_on s s'" by (simp add: opened_def)

lemma opened_steady: "steady s0 s \<Longrightarrow> wi_open s = wi_open s0 \<Longrightarrow> opened lib s co s' \<Longrightarrow> opened lib s0 co s'"
  using steady_goes_on[of s0 s] goes_on_trans[of s0 s s'] steady_held[of s0 s] by (auto simp: opened_def unowned_def steady_def)

definition to_option :: "'a res \<Rightarrow> 'a option" where
  "to_option r = (case r of Inl _ \<Rightarrow> None | Inr x \<Rightarrow> Some x)"

lemma to_option_simps [simp]: "to_option (Inl e) = None" "to_option (Inr x) = Some x"
  by (simp_all add: to_option_def)

lemma callback_anyone: "hostKeyCallback hl d ho h = (Inr check, h') \<Longrightarrow> check = Anyone \<longleftrightarrow> \<not> ho_Strict ho"
  by (auto simp: hostKeyCallback_def split: sum.splits option.splits if_splits prod.splits)

locale conn_opener =
  fixes lib :: "('p, 'k, 'w) ssh_lib" and opener :: "string \<Rightarrow> ('k, 'w) wire \<Rightarrow> nat res \<times> ('k, 'w) wire"
  assumes opens: "fit lib s \<Longrightarrow> opener addr s = (r, s') \<Longrightarrow> opened lib s (to_option r) s'"
begin

lemma checked_dial:
  assumes "fit lib s" "dial_checked lib opener t opts auth s = (r, s')"
  shows "opened lib s (map_option cl_conn (to_option r)) s'
    \<and> (\<forall>c. r = Inr c \<longrightarrow> checked_conn lib (ho_Strict (op_Hosts opts)) (target_addr t) s' (cl_conn c))"
proof -
  obtain rc h where k: "hostKeyCallback (sl_hosts lib) (sl_disk lib (wi_world s)) (op_Hosts opts) (wi_hosts s) = (rc, h)" by fastforce
  let ?s0 = "s\<lparr>wi_hosts := h\<rparr>"
  have f0: "fit lib ?s0" using steady_fit[OF _ assms(1)] by simp
  show ?thesis
  proof (cases rc)
    case (Inl err)
    then have "r = Inl err" "s' = ?s0" using assms(2) k by (simp_all add: dial_checked_def)
    then show ?thesis using f0 steady_goes_on[of s ?s0] steady_held[of s ?s0] by (simp add: opened_def unowned_def)
  next
    case (Inr check)
    obtain ro s1 where o: "opener (target_addr t) ?s0 = (ro, s1)" by fastforce
    have o1: "opened lib s (to_option ro) s1" using opened_steady[OF _ _ opens[OF f0 o]] by simp
    show ?thesis
    proof (cases ro)
      case (Inl err)
      then have "r = Inl err" "s' = s1" using assms(2) k Inr o by (simp_all add: dial_checked_def)
      then show ?thesis using o1 Inl by simp
    next
      case conn: (Inr conn)
      then have c: "client_on lib t opts check auth conn s1 = (r, s')" using assms(2) k Inr o by (simp add: dial_checked_def)
      have st: "steady s1 s'" using client_on_spec[OF c] by blast
      have f1: "fit lib s1" using o1 by (simp add: opened_def)
      have g: "goes_on s s'" using o1 goes_on_trans steady_goes_on[OF st] by (auto simp: opened_def)
      have u1: "unowned s1 = insert conn (unowned s)" "wi_next s \<le> conn" using o1 conn by (simp_all add: opened_def)
      have "c < wi_next s" if "c \<in> set (wi_open s)" for c using assms(1) that unfolding fit_def by blast
      then have old: "conn \<notin> unowned s" using u1(2) unfolding unowned_def by force
      show ?thesis
      proof (cases r)
        case (Inl err)
        have "set (wi_open s') = set (wi_open s1) - {conn}" using client_on_spec[OF c] Inl by simp
        then have "unowned s' = unowned s" using steady_held[OF st] u1(1) old by (auto simp: unowned_def)
        then show ?thesis using steady_fit[OF st f1] g Inl by (simp add: opened_def)
      next
        case (Inr cl)
        then have cl: "cl_conn cl = conn" "wi_open s' = wi_open s1" "checked_conn lib (check \<noteq> Anyone) (target_addr t) s' conn"
          using client_on_spec[OF c] by simp_all
        then have "unowned s' = insert conn (unowned s)" using steady_held[OF st] u1(1) by (auto simp: unowned_def)
        then show ?thesis using steady_fit[OF st f1] g u1(2) cl Inr callback_anyone[OF k[unfolded \<open>rc = Inr check\<close>]]
          by (simp add: opened_def)
      qed
    qed
  qed
qed

text \<open>The whole dial, with the socket of the operator's agent that is open meanwhile.\<close>

lemma dial:
  assumes "fit lib s" "dial_with lib opener t opts s = (r, s')"
  shows "opened lib s (map_option cl_conn (to_option r)) s'
    \<and> (\<forall>c. r = Inr c \<longrightarrow> checked_conn lib (ho_Strict (op_Hosts opts)) (target_addr t) s' (cl_conn c))"
proof -
  obtain ra op where a: "authMethods (sl_keys lib) (tg_IdentityFile t) (tg_Passphrase t) (op_Agent opts) = (ra, op)" by fastforce
  show ?thesis
  proof (cases "\<exists>auth. ra = Inr auth \<and> op")
    case True
    then obtain auth where auth: "ra = Inr auth" "op" by blast
    let ?s0 = "snd (new_conn s)" and ?sock = "wi_next s"
    obtain s1 where d: "dial_checked lib opener t opts auth ?s0 = (r, s1)" and s': "s' = snd (close_conn lib ?sock s1)"
      using assms(2) a auth by (auto simp: dial_with_def new_conn_def split: prod.splits)
    have new: "c < ?sock" if "c \<in> set (wi_open s) \<union> held_conns s" for c using assms(1) that unfolding fit_def by blast
    have h0: "held_conns ?s0 = held_conns s" by (simp add: held_conns_def new_conn_def)
    have u0: "unowned ?s0 = insert ?sock (unowned s)" using h0 new by (auto simp: unowned_def new_conn_def)
    have g0: "goes_on s ?s0" by (auto simp: goes_on_def new_conn_def)
    have "fit lib ?s0" using assms(1) h0 checked_on[OF _ g0] by (auto simp: fit_def new_conn_def less_Suc_eq)
    note c = checked_dial[OF this d]
    have st: "steady s1 s'" unfolding s' by (rule close_steady)
    have "fit lib s1" using c by (simp add: opened_def)
    from steady_fit[OF st this] have f: "fit lib s'" .
    have g1: "goes_on ?s0 s1" using c opened_goes_on by blast
    have g: "goes_on s s'" using goes_on_trans[OF g0 goes_on_trans[OF g1 steady_goes_on[OF st]]] .
    have "unowned s' = unowned s1 - {?sock}" unfolding s' by (rule close_unowned)
    moreover have "unowned s1 = set_option (map_option cl_conn (to_option r)) \<union> insert ?sock (unowned s)"
      using c u0 by (simp add: opened_def)
    moreover have "?sock \<notin> unowned s" using new by (auto simp: unowned_def)
    moreover have "?sock < x" if "map_option cl_conn (to_option r) = Some x" for x
      using c that by (auto simp: opened_def new_conn_def)
    ultimately have "unowned s' = set_option (map_option cl_conn (to_option r)) \<union> unowned s"
      by (cases "map_option cl_conn (to_option r)") auto
    moreover have "wi_next s \<le> x" if "map_option cl_conn (to_option r) = Some x" for x
      using c that by (auto simp: opened_def new_conn_def)
    moreover have "checked_conn lib (ho_Strict (op_Hosts opts)) (target_addr t) s' (cl_conn x)" if "r = Inr x" for x
    proof -
      have "checked_conn lib (ho_Strict (op_Hosts opts)) (target_addr t) s1 (cl_conn x)" using c that by blast
      from checked_on[OF this steady_goes_on[OF st]] show ?thesis .
    qed
    ultimately show ?thesis using f g by (simp add: opened_def)
  next
    case False
    show ?thesis
    proof (cases ra)
      case (Inl err)
      then have "r = Inl err" "s' = s" using assms(2) a by (simp_all add: dial_with_def)
      then show ?thesis using assms(1) by (simp add: opened_def)
    next
      case (Inr auth)
      then have "dial_checked lib opener t opts auth s = (r, s')" using False assms(2) a by (simp add: dial_with_def)
      from checked_dial[OF assms(1) this] show ?thesis .
    qed
  qed
qed

end

lemma client_on_bastion: "wi_bastion (snd (client_on lib t opts check auth conn s)) = wi_bastion s"
  using client_on_spec[of lib t opts check auth conn s] by (metis prod.collapse steady_def)

text \<open>The jump host after a dial is what the opener of its connection left.\<close>

lemma dial_keeps_bastion:
  assumes "\<And>addr s. wi_bastion (snd (opener addr s)) = wi_bastion s"
  shows "wi_bastion (snd (dial_with lib opener t opts s)) = wi_bastion s"
proof -
  have c: "wi_bastion (snd (dial_checked lib opener t opts auth s)) = wi_bastion s" for auth s
  proof -
    obtain rc h where k: "hostKeyCallback (sl_hosts lib) (sl_disk lib (wi_world s)) (op_Hosts opts) (wi_hosts s) = (rc, h)" by fastforce
    obtain ro s1 where o: "opener (target_addr t) (s\<lparr>wi_hosts := h\<rparr>) = (ro, s1)" by fastforce
    have "wi_bastion s1 = wi_bastion s" using assms[of "target_addr t" "s\<lparr>wi_hosts := h\<rparr>"] o by simp
    then show ?thesis using k o by (cases rc; cases ro) (simp_all add: dial_checked_def client_on_bastion)
  qed
  obtain ra op where a: "authMethods (sl_keys lib) (tg_IdentityFile t) (tg_Passphrase t) (op_Agent opts) = (ra, op)" by fastforce
  have cl: "wi_bastion (snd (close_conn lib x u)) = wi_bastion u" for x u using close_steady(1)[of u lib x] by (simp add: steady_def)
  show ?thesis
  proof (cases ra)
    case (Inr auth)
    then show ?thesis using a c[of auth "snd (new_conn s)"] c[of auth s] cl
      by (simp add: dial_with_def new_conn_def case_prod_beta)
  qed (use a in \<open>simp add: dial_with_def\<close>)
qed

section \<open>The two openers\<close>

interpretation tcp: conn_opener lib "tcp_open lib" for lib :: "('p, 'k, 'w) ssh_lib"
proof
  fix s addr r s'
  assume f: "fit lib s" and o: "tcp_open lib addr s = (r, s')"
  have new: "c < wi_next s" if "c \<in> set (wi_open s) \<union> held_conns s" for c using f that unfolding fit_def by blast
  obtain fo w where w: "sl_tcp lib addr (wi_world s) = (fo, w)" by fastforce
  have st: "steady s (s\<lparr>wi_world := w\<rparr>)" by simp
  show "opened lib s (to_option r) s'"
  proof (cases fo)
    case (Some e)
    then have "r = Inl (connectError e)" "s' = s\<lparr>wi_world := w\<rparr>" using o w by (simp_all add: tcp_open_def)
    then show ?thesis using steady_fit[OF st f] steady_goes_on[OF st] by (simp add: opened_def unowned_def held_conns_def)
  next
    case None
    then have r: "r = Inr (wi_next s)" and s': "s' = s\<lparr>wi_world := w, wi_open := wi_next s # wi_open s, wi_next := Suc (wi_next s)\<rparr>"
      using o w by (simp_all add: tcp_open_def new_conn_def)
    have h: "held_conns s' = held_conns s" by (simp add: s' held_conns_def)
    have g: "goes_on s s'" by (auto simp: goes_on_def s')
    have "unowned s' = insert (wi_next s) (unowned s)" using h new by (auto simp: unowned_def s')
    moreover have "fit lib s'" using f h checked_on[OF _ g] by (auto simp: fit_def s' less_Suc_eq)
    ultimately show ?thesis using g by (simp add: opened_def r)
  qed
qed

lemma tcp_keeps_bastion: "wi_bastion (snd (tcp_open lib addr s)) = wi_bastion s"
  by (simp add: tcp_open_def new_conn_def split: prod.split option.split)

definition conn_of :: "bastion_conn \<Rightarrow> nat set" where
  "conn_of bc = (case bc of Some (Inr c) \<Rightarrow> {cl_conn c} | _ \<Rightarrow> {})"

lemma conn_of_iff: "x \<in> conn_of bc \<longleftrightarrow> (\<exists>c. bc = Some (Inr c) \<and> x = cl_conn c)"
  by (auto simp: conn_of_def split: option.splits sum.splits)

lemma held_slots: "held_conns s = conn_of (slot strict (wi_bastion s)) \<union> conn_of (slot (\<not> strict) (wi_bastion s))"
proof (rule set_eqI)
  fix x
  have "x \<in> held_conns s \<longleftrightarrow> (\<exists>b. x \<in> conn_of (slot b (wi_bastion s)))" unfolding held_conns_def conn_of_iff by blast
  then show "x \<in> held_conns s \<longleftrightarrow> x \<in> conn_of (slot strict (wi_bastion s)) \<union> conn_of (slot (\<not> strict) (wi_bastion s))"
    by (cases strict) (auto simp: ex_bool_eq)
qed

lemma put_slot_simps [simp]: "slot strict (wi_bastion (put_slot strict bc s)) = bc"
  "slot (\<not> strict) (wi_bastion (put_slot strict bc s)) = slot (\<not> strict) (wi_bastion s)"
  "wi_open (put_slot strict bc s) = wi_open s" "wi_next (put_slot strict bc s) = wi_next s" "wi_log (put_slot strict bc s) = wi_log s"
  "bn_target (wi_bastion (put_slot strict bc s)) = bn_target (wi_bastion s)"
  "bn_closed (wi_bastion (put_slot strict bc s)) = bn_closed (wi_bastion s)"
  by (simp_all add: put_slot_def slot_def)

lemma put_slot_goes_on: "goes_on s (put_slot strict bc s)" by (simp add: goes_on_def)

lemma put_slot_unowned:
  assumes "conn_of (slot strict (wi_bastion s)) \<inter> set (wi_open s) = {}"
  shows "unowned (put_slot strict bc s) = unowned s - conn_of bc"
  using assms held_slots[of s strict] held_slots[of "put_slot strict bc s" strict] by (auto simp: unowned_def)

lemma put_slot_fit:
  assumes "fit lib s" "\<And>c. bc = Some (Inr c) \<Longrightarrow> cl_conn c < wi_next s"
    and "\<And>c. bc = Some (Inr c) \<Longrightarrow> strict \<Longrightarrow> checked_conn lib True (target_addr (bn_target (wi_bastion s))) s (cl_conn c)"
  shows "fit lib (put_slot strict bc s)"
proof -
  have "c < wi_next s" if "c \<in> set (wi_open s) \<union> held_conns (put_slot strict bc s)" for c
    using that assms(1,2) held_slots[of s strict] held_slots[of "put_slot strict bc s" strict]
    unfolding fit_def by (auto simp: conn_of_def split: option.splits sum.splits)
  moreover have "checked_conn lib True (target_addr (bn_target (wi_bastion s))) (put_slot strict bc s) (cl_conn c)"
    if "bn_strict (wi_bastion (put_slot strict bc s)) = Some (Inr c)" for c
    using that assms(1,3) by (cases strict) (auto simp: put_slot_def fit_def checked_conn_def)
  ultimately show ?thesis unfolding fit_def by simp
qed

section \<open>The jump host\<close>

text \<open>What an operation on the jump host does to the connections of everybody else: nothing.\<close>

definition apart :: "('p, 'k, 'w) ssh_lib \<Rightarrow> ('k, 'w) wire \<Rightarrow> ('k, 'w) wire \<Rightarrow> bool" where
  "apart lib s s' \<longleftrightarrow> fit lib s' \<and> goes_on s s' \<and> unowned s' = unowned s"

lemma below_next: "fit lib s \<Longrightarrow> c \<in> set (wi_open s) \<Longrightarrow> c < wi_next s" "fit lib s \<Longrightarrow> c \<in> held_conns s \<Longrightarrow> c < wi_next s"
  unfolding fit_def by blast+

lemma hop_hosts [simp]: "op_Hosts (hop_options opts) = op_Hosts opts"
  by (simp add: hop_options_def)

lemma dial_bastion_apart:
  assumes f: "fit lib s" and d: "dial_bastion lib opts s = (r, s')"
    and free: "conn_of (slot (ho_Strict (op_Hosts opts)) (wi_bastion s)) \<inter> set (wi_open s) = {}"
  shows "apart lib s s' \<and> (\<forall>c. r = Inr c \<longrightarrow> slot (ho_Strict (op_Hosts opts)) (wi_bastion s') = Some (Inr c))"
proof -
  let ?strict = "ho_Strict (op_Hosts opts)" and ?t = "bn_target (wi_bastion s)"
  obtain r1 s1 where d1: "dial_with lib (tcp_open lib) ?t (hop_options opts) s = (r1, s1)" by fastforce
  note o = tcp.dial[OF f d1]
  have b: "wi_bastion s1 = wi_bastion s"
    using dial_keeps_bastion[of "tcp_open lib" lib ?t "hop_options opts" s] tcp_keeps_bastion[of lib] d1 by simp
  have f1: "fit lib s1" and g1: "goes_on s s1" using o by (simp_all add: opened_def)
  have "x \<in> set (wi_open s)" if "x \<in> conn_of (slot ?strict (wi_bastion s))" "x \<in> set (wi_open s1)" for x
  proof -
    have "x < wi_next s" using below_next(2)[OF f] that(1) held_slots[of s ?strict] by blast
    then show ?thesis using that(2) g1 unfolding goes_on_def by blast
  qed
  then have free1: "conn_of (slot ?strict (wi_bastion s1)) \<inter> set (wi_open s1) = {}" using free b by auto
  note unowned = put_slot_unowned[OF free1]
  note go = goes_on_trans[OF g1 put_slot_goes_on]
  show ?thesis
  proof (cases r1)
    case (Inl e)
    then have u: "unowned s1 = unowned s" using o by (simp add: opened_def)
    have f2: "fit lib (put_slot ?strict (Some (Inl x)) s1)" for x using put_slot_fit[OF f1, of "Some (Inl x)"] by simp
    have "s' = s1 \<or> (\<exists>x. s' = put_slot ?strict (Some (Inl x)) s1)" "\<exists>x. r = Inl x"
      using d d1 Inl by (auto simp: dial_bastion_def Let_def split: if_splits)
    then show ?thesis using u f1 f2 g1 go unowned by (auto simp: apart_def conn_of_def)
  next
    case (Inr c)
    have "dial_bastion lib opts s = (Inr c, put_slot ?strict (Some (Inr c)) s1)"
      using d1 unfolding Inr by (simp add: dial_bastion_def Let_def)
    then have r: "r = Inr c" and s': "s' = put_slot ?strict (Some (Inr c)) s1" using d by simp_all
    have u: "unowned s1 = insert (cl_conn c) (unowned s)" and n: "wi_next s \<le> cl_conn c" using o Inr by (simp_all add: opened_def)
    have "cl_conn c < wi_next s1" using below_next(1)[OF f1, of "cl_conn c"] u by (auto simp: unowned_def)
    moreover have "checked_conn lib True (target_addr (bn_target (wi_bastion s1))) s1 (cl_conn c)" if "?strict"
      using o Inr b that by simp
    ultimately have "fit lib s'" unfolding s' using put_slot_fit[OF f1, of "Some (Inr c)"] by simp
    moreover have "cl_conn c \<notin> unowned s" using below_next(1)[OF f, of "cl_conn c"] n by (auto simp: unowned_def)
    ultimately show ?thesis using u go unowned r by (auto simp: apart_def s' conn_of_def)
  qed
qed

lemma apart_refl: "fit lib s \<Longrightarrow> apart lib s s" by (simp add: apart_def)

lemma bastion_connect_apart:
  assumes f: "fit lib s" and d: "bastion_connect lib opts s = (r, s')"
  shows "apart lib s s' \<and> (\<forall>c. r = Inr c \<longrightarrow> slot (ho_Strict (op_Hosts opts)) (wi_bastion s') = Some (Inr c))"
proof (cases "bn_closed (wi_bastion s)")
  case True
  then show ?thesis using d apart_refl[OF f] by (auto simp: bastion_connect_def)
next
  case False
  let ?slot = "slot (ho_Strict (op_Hosts opts)) (wi_bastion s)"
  consider (fresh) "?slot = None" | (failed) e where "?slot = Some (Inl e)"
    | (live) c where "?slot = Some (Inr c)" "\<not> client_ended lib c s" | (gone) c where "?slot = Some (Inr c)" "client_ended lib c s"
    by (cases ?slot) (auto, metis sum.exhaust)
  then show ?thesis
  proof cases
    case fresh
    then show ?thesis using d False dial_bastion_apart[OF f] by (simp add: bastion_connect_def conn_of_def)
  next
    case (gone c)
    let ?s1 = "snd (close_conn lib (cl_conn c) s)"
    have st: "steady s ?s1" by (rule close_steady)
    have held_conns: "cl_conn c \<in> held_conns s" using gone(1) held_slots[of s "ho_Strict (op_Hosts opts)"] by (auto simp: conn_of_def)
    have "unowned ?s1 = unowned s" using close_unowned[of lib "cl_conn c" s] held_conns by (auto simp: unowned_def)
    moreover have d1: "dial_bastion lib opts ?s1 = (r, s')" using d False gone by (simp add: bastion_connect_def Client_Close_def)
    have "slot x (wi_bastion ?s1) = slot x (wi_bastion s)" for x using st by (simp add: steady_def)
    then have "conn_of (slot (ho_Strict (op_Hosts opts)) (wi_bastion ?s1)) \<inter> set (wi_open ?s1) = {}"
      using gone(1) close_steady(2)[of lib "cl_conn c" s] by (simp add: conn_of_def)
    note dial_bastion_apart[OF steady_fit[OF st f] d1 this]
    ultimately show ?thesis using goes_on_trans[OF steady_goes_on[OF st]] by (auto simp: apart_def)
  qed (use d False apart_refl[OF f] in \<open>auto simp: bastion_connect_def\<close>)
qed

text \<open>What opening a channel through the jump host adds to that.\<close>

lemma dialThrough_spec:
  assumes f: "fit lib s" and d: "dialThrough lib opts addr s = (r, s')"
  shows "opened lib s (to_option r) s'
    \<and> (\<forall>c. r = Inr c \<longrightarrow> (\<exists>b. slot (ho_Strict (op_Hosts opts)) (wi_bastion s') = Some (Inr b)))"
proof -
  obtain rb s1 where b: "bastion_connect lib opts s = (rb, s1)" by fastforce
  note a = bastion_connect_apart[OF f b]
  have f1: "fit lib s1" and g1: "goes_on s s1" and u1: "unowned s1 = unowned s" using a by (simp_all add: apart_def)
  show ?thesis
  proof (cases rb)
    case (Inl e)
    then have "r = Inl e" "s' = s1" using d b by (simp_all add: dialThrough_def)
    then show ?thesis using f1 g1 u1 by (simp add: opened_def)
  next
    case (Inr c)
    obtain ro w where w: "sl_channel lib (cl_conn c) addr (wi_world s1) = (ro, w)" by fastforce
    have st: "steady s1 (s1\<lparr>wi_world := w\<rparr>)" by simp
    show ?thesis
    proof (cases ro)
      case (Some e)
      then have "\<exists>x. r = Inl x" "s' = s1\<lparr>wi_world := w\<rparr>" using d b w Inr by (auto simp: dialThrough_def)
      then show ?thesis using steady_fit[OF st f1] goes_on_trans[OF g1 steady_goes_on[OF st]] steady_held[OF st] u1
        by (auto simp: opened_def unowned_def)
    next
      case None
      then have r: "r = Inr (wi_next s1)"
        and s': "s' = s1\<lparr>wi_world := w, wi_open := wi_next s1 # wi_open s1, wi_next := Suc (wi_next s1)\<rparr>"
        using d b w Inr by (simp_all add: dialThrough_def new_conn_def)
      have h: "held_conns s' = held_conns s1" by (simp add: s' held_conns_def)
      have new: "x < wi_next s1" if "x \<in> set (wi_open s1) \<union> held_conns s1" for x using below_next[OF f1] that by blast
      have g: "goes_on s1 s'" by (auto simp: goes_on_def s')
      have "unowned s' = insert (wi_next s1) (unowned s1)" using h new by (auto simp: unowned_def s')
      moreover have "fit lib s'" using f1 h checked_on[OF _ g] by (auto simp: fit_def s' less_Suc_eq)
      moreover have "wi_next s \<le> wi_next s1" using g1 by (simp add: goes_on_def)
      moreover have "slot x (wi_bastion s') = slot x (wi_bastion s1)" for x by (simp add: s')
      ultimately show ?thesis using goes_on_trans[OF g1 g] u1 a Inr by (simp add: opened_def r)
    qed
  qed
qed

interpretation through: conn_opener lib "dialThrough lib opts" for lib :: "('p, 'k, 'w) ssh_lib" and opts :: "'p ssh_dial_options"
  by unfold_locales (use dialThrough_spec in blast)

text \<open>A successful dial went through its opener and left the jump host as the opener did.\<close>

lemma dial_opener:
  assumes "dial_with lib opener t opts s = (Inr c, s')"
  shows "\<exists>addr s0 conn s1. opener addr s0 = (Inr conn, s1) \<and> wi_bastion s' = wi_bastion s1
    \<and> wi_bastion s0 = wi_bastion s \<and> (fit lib s \<longrightarrow> fit lib s0)"
proof -
  have c: "\<exists>addr s0 conn s1. opener addr s0 = (Inr conn, s1) \<and> wi_bastion s2 = wi_bastion s1
      \<and> wi_bastion s0 = wi_bastion u \<and> (fit lib u \<longrightarrow> fit lib s0)"
    if d: "dial_checked lib opener t opts auth u = (Inr c, s2)" for auth u s2
  proof -
    obtain check h where k: "hostKeyCallback (sl_hosts lib) (sl_disk lib (wi_world u)) (op_Hosts opts) (wi_hosts u) = (Inr check, h)"
      using d by (auto simp: dial_checked_def split: sum.splits prod.splits)
    then obtain conn s1 where o: "opener (target_addr t) (u\<lparr>wi_hosts := h\<rparr>) = (Inr conn, s1)"
      and cl: "client_on lib t opts check auth conn s1 = (Inr c, s2)"
      using d by (auto simp: dial_checked_def split: sum.splits prod.splits)
    have "fit lib u \<Longrightarrow> fit lib (u\<lparr>wi_hosts := h\<rparr>)" using steady_fit[OF steady_world(2)] by blast
    moreover have "wi_bastion s2 = wi_bastion s1" using client_on_bastion[of lib t opts check auth conn s1] cl by simp
    moreover have "wi_bastion (u\<lparr>wi_hosts := h\<rparr>) = wi_bastion u" by simp
    ultimately show ?thesis using o by blast
  qed
  obtain ra op where a: "authMethods (sl_keys lib) (tg_IdentityFile t) (tg_Passphrase t) (op_Agent opts) = (ra, op)" by fastforce
  then obtain auth where ra: "ra = Inr auth" using assms by (cases ra) (auto simp: dial_with_def)
  show ?thesis
  proof (cases op)
    case True
    let ?s0 = "snd (new_conn s)"
    obtain s2 where d: "dial_checked lib opener t opts auth ?s0 = (Inr c, s2)" "s' = snd (close_conn lib (wi_next s) s2)"
      using assms a ra True by (auto simp: dial_with_def new_conn_def split: prod.splits)
    have "wi_bastion s' = wi_bastion s2" using close_steady(1)[of s2 lib "wi_next s"] d(2) by (simp add: steady_def)
    moreover have "fit lib ?s0" if f: "fit lib s"
    proof -
      have g: "goes_on s ?s0" by (auto simp: goes_on_def new_conn_def)
      show ?thesis using f checked_on[OF _ g] by (auto simp: fit_def new_conn_def held_conns_def less_Suc_eq)
    qed
    moreover have "wi_bastion ?s0 = wi_bastion s" by (simp add: new_conn_def)
    ultimately show ?thesis using c[OF d(1)] by metis
  next
    case False
    then have "dial_checked lib opener t opts auth s = (Inr c, s')" using assms a ra by (simp add: dial_with_def)
    from c[OF this] show ?thesis .
  qed
qed

text \<open>Closing the jump host closes what its slots hold and nothing else.\<close>

lemma close_slot_spec:
  assumes f: "fit lib s" and d: "close_slot lib strict s = (es, s')"
  shows "apart lib s s' \<and> slot strict (wi_bastion s') = None \<and> slot (\<not> strict) (wi_bastion s') = slot (\<not> strict) (wi_bastion s)"
proof -
  have put: "apart lib s (put_slot strict None s1)"
    if st: "steady s s1" and free: "conn_of (slot strict (wi_bastion s1)) \<inter> set (wi_open s1) = {}" and u: "unowned s1 = unowned s" for s1
    using put_slot_fit[OF steady_fit[OF st f], of None] put_slot_unowned[OF free, of None] u
      goes_on_trans[OF steady_goes_on[OF st] put_slot_goes_on] by (simp add: apart_def conn_of_def)
  show ?thesis
  proof (cases "\<exists>c. slot strict (wi_bastion s) = Some (Inr c)")
    case True
    then obtain c where c: "slot strict (wi_bastion s) = Some (Inr c)" by blast
    let ?s1 = "snd (close_conn lib (cl_conn c) s)"
    have st: "steady s ?s1" by (rule close_steady)
    have s': "s' = put_slot strict None ?s1" using d c by (auto simp: close_slot_def Client_Close_def split: prod.splits)
    have b: "slot x (wi_bastion ?s1) = slot x (wi_bastion s)" for x using st by (simp add: steady_def)
    have "cl_conn c \<in> held_conns s" using c held_slots[of s strict] by (simp add: conn_of_def)
    then have "unowned ?s1 = unowned s" using close_unowned[of lib "cl_conn c" s] by (auto simp: unowned_def)
    moreover have "conn_of (slot strict (wi_bastion ?s1)) \<inter> set (wi_open ?s1) = {}"
      using b c close_steady(2)[of lib "cl_conn c" s] by (simp add: conn_of_def)
    ultimately show ?thesis using put[OF st] b s' by simp
  next
    case False
    then have s': "s' = put_slot strict None s"
      using d by (auto simp: close_slot_def split: option.splits sum.splits)
    have "conn_of (slot strict (wi_bastion s)) = {}" using False by (auto simp: conn_of_iff)
    then show ?thesis using put[of s] s' by simp
  qed
qed

lemma Bastion_Close_spec:
  assumes f: "fit lib s" and d: "Bastion_Close lib s = (es, s')"
  shows "fit lib s'" "goes_on s s'" "set (wi_open s') = unowned s" "held_conns s' = {}" "bn_closed (wi_bastion s')"
proof -
  obtain es1 s1 where 1: "close_slot lib True s = (es1, s1)" by fastforce
  obtain es2 s2 where 2: "close_slot lib False s1 = (es2, s2)" by fastforce
  have s': "s' = s2\<lparr>wi_bastion := (wi_bastion s2)\<lparr>bn_closed := True\<rparr>\<rparr>" using d 1 2 by (simp add: Bastion_Close_def)
  note a = close_slot_spec[OF f 1]
  have f1: "fit lib s1" and g1: "goes_on s s1" using a by (simp_all add: apart_def)
  note b = close_slot_spec[OF f1 2]
  have slots: "bn_strict (wi_bastion s2) = None" "bn_loose (wi_bastion s2) = None" using a b by (simp_all add: slot_def)
  have h2: "held_conns s2 = {}" using held_slots[of s2 True] slots by (simp add: slot_def conn_of_def)
  have g2: "goes_on s2 s'" by (simp add: goes_on_def s')
  show held_conns: "held_conns s' = {}" using held_slots[of s' True] slots by (simp add: slot_def conn_of_def s')
  have "unowned s2 = unowned s" using a b by (simp add: apart_def)
  then show "set (wi_open s') = unowned s" using h2 by (simp add: unowned_def s')
  have f2: "fit lib s2" and g12: "goes_on s1 s2" using b by (simp_all add: apart_def)
  show "goes_on s s'" using goes_on_trans[OF g1 goes_on_trans[OF g12 g2]] .
  show "fit lib s'" using f2 held_conns slots by (auto simp: fit_def s')
  show "bn_closed (wi_bastion s')" by (simp add: s')
qed

section \<open>The life of the transport\<close>

text \<open>\<open>Outside\<close>: anything may happen to the world and, by other programs, to the files of known hosts.\<close>

inductive wire_step :: "('p, 'k, 'w) ssh_lib \<Rightarrow> ('k, 'w) wire \<Rightarrow> ('k, 'w) wire \<Rightarrow> bool" for lib :: "('p, 'k, 'w) ssh_lib" where
  Dialled: "Dial lib t opts s = (r, s') \<Longrightarrow> wire_step lib s s'"
| Client_closed: "Client_Close lib co s = (r, s') \<Longrightarrow> wire_step lib s s'"
| Bastion_closed: "Bastion_Close lib s = (es, s') \<Longrightarrow> wire_step lib s s'"
| Outside: "wire_step lib s (s\<lparr>wi_world := w, wi_hosts := h\<rparr>)"

definition wire_start :: "ssh_target \<Rightarrow> 'w \<Rightarrow> hosts_state \<Rightarrow> ('k, 'w) wire" where
  "wire_start t w h = \<lparr>wi_world = w, wi_hosts = h, wi_open = [], wi_next = 0, wi_bastion = NewBastion t, wi_log = []\<rparr>"

lemma Dial_spec:
  assumes "fit lib s" "Dial lib t opts s = (r, s')"
  shows "opened lib s (map_option cl_conn (to_option r)) s'
    \<and> (\<forall>c. r = Inr c \<longrightarrow> checked_conn lib (ho_Strict (op_Hosts opts)) (target_addr t) s' (cl_conn c))"
  using tcp.dial[OF assms(1), of t opts r s'] through.dial[OF assms(1), of opts t opts r s'] assms(2)
  by (cases "op_Bastion opts") (simp_all add: Dial_def)

lemma wire_step_fit:
  assumes "wire_step lib s s'" "fit lib s"
  shows "fit lib s' \<and> goes_on s s'"
  using assms(1)
proof cases
  case (Dialled t opts r)
  then show ?thesis using Dial_spec[OF assms(2)] by (auto simp: opened_def)
next
  case (Client_closed co r)
  have "steady s s'"
  proof (cases co)
    case (Some c)
    then have "s' = snd (close_conn lib (cl_conn c) s)" using Client_closed by (simp add: Client_Close_def)
    then show ?thesis using close_steady(1) by simp
  qed (use Client_closed in \<open>simp add: Client_Close_def\<close>)
  from steady_fit[OF this assms(2)] steady_goes_on[OF this] show ?thesis by blast
next
  case (Bastion_closed es)
  then show ?thesis using Bastion_Close_spec(1,2)[OF assms(2)] by blast
next
  case (Outside h w)
  have "steady s (s\<lparr>wi_world := w, wi_hosts := h\<rparr>)" by simp
  from steady_fit[OF this assms(2)] steady_goes_on[OF this] show ?thesis using Outside by simp
qed

lemma wire_start_fit: "fit lib (wire_start t w h)"
  by (auto simp: fit_def wire_start_def NewBastion_def held_conns_def slot_def)

lemma wire_reach_fit: "(wire_step lib)\<^sup>*\<^sup>* s s' \<Longrightarrow> fit lib s \<Longrightarrow> fit lib s' \<and> goes_on s s'"
proof (induction rule: rtranclp_induct)
  case (step y z)
  then have y: "fit lib y" "goes_on s y" by blast+
  from wire_step_fit[OF step.hyps(2) y(1)] goes_on_trans[OF y(2)] show ?case by blast
qed simp

lemma through_bastion:
  assumes "fit lib s" "Dial lib t opts s = (Inr c, s')" "op_Bastion opts"
  shows "\<not> bn_closed (wi_bastion s) \<and> (\<exists>b. slot (ho_Strict (op_Hosts opts)) (wi_bastion s') = Some (Inr b))"
proof -
  obtain addr s0 conn s1 where o: "dialThrough lib opts addr s0 = (Inr conn, s1)" "wi_bastion s' = wi_bastion s1"
    "wi_bastion s0 = wi_bastion s" "fit lib s0"
    using dial_opener[of lib "dialThrough lib opts" t opts s c s'] assms by (auto simp: Dial_def)
  have "\<not> bn_closed (wi_bastion s0)" using o(1) by (auto simp: dialThrough_def bastion_connect_def)
  then show ?thesis using dialThrough_spec[OF o(4,1)] o(2,3) by simp
qed

text \<open>
  C7. A dial that verifies host keys never gives a connection whose server was not verified: the server of the connection, at
  the address of the target, has shown a key that the check made for it accepted; with a jump host the same holds for the
  connection to the jump host it is tunnelled through, whatever unverified connection to it is cached. This is so at every
  moment of any sequence of dials, closed clients and jump hosts, and changes outside.
\<close>

theorem Dial_verifies:
  assumes "(wire_step lib)\<^sup>*\<^sup>* (wire_start jump w h) s" and "Dial lib t opts s = (Inr c, s')" and "ho_Strict (op_Hosts opts)"
  shows "checked_conn lib True (target_addr t) s' (cl_conn c)
    \<and> (op_Bastion opts \<longrightarrow> (\<exists>b. bn_strict (wi_bastion s') = Some (Inr b) \<and> checked_conn lib True (target_addr jump) s' (cl_conn b)))"
proof -
  have f: "fit lib s" and g: "goes_on (wire_start jump w h) s" using wire_reach_fit[OF assms(1) wire_start_fit] by blast+
  note d = Dial_spec[OF f assms(2)]
  have f': "fit lib s'" and g': "goes_on s s'" using d by (simp_all add: opened_def)
  have "bn_target (wi_bastion s') = jump"
    using goes_on_trans[OF g g'] by (simp add: goes_on_def wire_start_def NewBastion_def)
  moreover have "\<exists>b. bn_strict (wi_bastion s') = Some (Inr b)" if "op_Bastion opts"
    using through_bastion[OF f assms(2) that] assms(3) by (simp add: slot_def)
  moreover have "checked_conn lib True (target_addr (bn_target (wi_bastion s'))) s' (cl_conn b)"
    if "bn_strict (wi_bastion s') = Some (Inr b)" for b using f' that unfolding fit_def by blast
  ultimately show ?thesis using d assms(3) by auto
qed

text \<open>
  C28. Every connection the transport has opened has one owner. A dial that fails leaves nothing behind, not even the socket
  of the operator's agent; one that succeeds adds its client's connection, a new one, to those the callers own. The rest belongs to
  the jump host, and closing the jump host closes exactly that; from then on no dial goes through it.
\<close>

theorem connections_owned:
  assumes "(wire_step lib)\<^sup>*\<^sup>* (wire_start jump w h) s"
  shows "(\<forall>t opts r s'. Dial lib t opts s = (r, s') \<longrightarrow>
      unowned s' = (case r of Inl _ \<Rightarrow> unowned s | Inr c \<Rightarrow> insert (cl_conn c) (unowned s))
      \<and> (\<forall>c. r = Inr c \<longrightarrow> cl_conn c \<notin> set (wi_open s) \<and> cl_conn c \<in> set (wi_open s'))
      \<and> (op_Bastion opts \<and> bn_closed (wi_bastion s) \<longrightarrow> (\<exists>err. r = Inl err)))
    \<and> (\<forall>es s' s''. Bastion_Close lib s = (es, s') \<longrightarrow> set (wi_open s') = unowned s
      \<and> ((wire_step lib)\<^sup>*\<^sup>* s' s'' \<longrightarrow> bn_closed (wi_bastion s'')))"
proof (intro conjI allI impI)
  have f: "fit lib s" using wire_reach_fit[OF assms wire_start_fit] by blast
  { fix t opts r s' assume d: "Dial lib t opts s = (r, s')"
    have o: "opened lib s (map_option cl_conn (to_option r)) s'" using Dial_spec[OF f d] by blast
    then show "unowned s' = (case r of Inl _ \<Rightarrow> unowned s | Inr c \<Rightarrow> insert (cl_conn c) (unowned s))"
      by (cases r) (simp_all add: opened_def)
    fix c assume r: "r = Inr c"
    then have "wi_next s \<le> cl_conn c" "cl_conn c \<in> unowned s'" using o by (simp_all add: opened_def)
    then show "cl_conn c \<notin> set (wi_open s)" "cl_conn c \<in> set (wi_open s')"
      using below_next(1)[OF f, of "cl_conn c"] by (auto simp: unowned_def) }
  { fix t opts r s' assume "Dial lib t opts s = (r, s')" "op_Bastion opts \<and> bn_closed (wi_bastion s)"
    then show "\<exists>err. r = Inl err" using through_bastion[OF f, of t opts _ s'] by (cases r) auto }
  fix es s' assume b: "Bastion_Close lib s = (es, s')"
  show "set (wi_open s') = unowned s" using Bastion_Close_spec(3)[OF f b] .
  fix s'' assume "(wire_step lib)\<^sup>*\<^sup>* s' s''"
  from wire_reach_fit[OF this Bastion_Close_spec(1)[OF f b]] Bastion_Close_spec(5)[OF f b]
  show "bn_closed (wi_bastion s'')" by (simp add: goes_on_def)
qed

section \<open>Under the connection pool\<close>

text \<open>The transports of a cluster (\<open>internal/runner/cluster.go\<close>): every SSH connection of its pool comes from \<open>Dial\<close>.\<close>

definition dial_target_of :: "dial_args \<Rightarrow> ssh_target" where
  "dial_target_of d = \<lparr>tg_Host = d_Host d, tg_Port = d_Port d, tg_User = d_User d, tg_IdentityFile = d_IdentityFile d,
     tg_Passphrase = d_Passphrase d\<rparr>"

definition with_strict :: "bool \<Rightarrow> 'p ssh_dial_options \<Rightarrow> 'p ssh_dial_options" where
  "with_strict strict opts = opts\<lparr>op_Hosts := (op_Hosts opts)\<lparr>ho_Strict := strict\<rparr>\<rparr>"

definition ssh_net :: "('p, 'k, 'w) ssh_lib \<Rightarrow> 'w session_lib \<Rightarrow> (string \<Rightarrow> 'w \<Rightarrow> ((bool \<times> string) list \<times> goerr option) \<times> 'w)
    \<Rightarrow> ('w \<Rightarrow> goerr option) \<Rightarrow> 'p ssh_dial_options \<Rightarrow> ('k, 'w) wire net" where
  "ssh_net lib ses local_run ctx opts = \<lparr>
     net_dial = (\<lambda>d s. case Dial lib (dial_target_of d) (with_strict (d_Strict d) opts) s of
        (Inl err, s') \<Rightarrow> (Inl err, s') | (Inr c, s') \<Rightarrow> (Inr (cl_conn c), s')),
     net_run = (\<lambda>c cmd s. case (case c of LocalConn \<Rightarrow> local_run cmd (wi_world s)
        | SshConn d h \<Rightarrow> Client_Run ses h (forwards opts) cmd (wi_world s)) of (r, w) \<Rightarrow> (r, s\<lparr>wi_world := w\<rparr>)),
     net_ctx = ctx \<circ> wi_world\<rparr>"

definition conn_verified :: "('p, 'k, 'w) ssh_lib \<Rightarrow> ('k, 'w) wire \<Rightarrow> conn \<Rightarrow> bool" where
  "conn_verified lib s cn = (case cn of LocalConn \<Rightarrow> True
     | SshConn d h \<Rightarrow> d_Strict d \<longrightarrow> checked_conn lib True (target_addr (dial_target_of d)) s h)"

definition pool_verified :: "('p, 'k, 'w) ssh_lib \<Rightarrow> cluster \<Rightarrow> ('k, 'w) wire \<Rightarrow> bool" where
  "pool_verified lib c s \<longleftrightarrow> (\<forall>key cn. c_conns c key = Some (Inr cn) \<longrightarrow> conn_verified lib s cn)"

lemma conn_verified_on: "conn_verified lib s cn \<Longrightarrow> goes_on s s' \<Longrightarrow> conn_verified lib s' cn"
  by (auto simp: conn_verified_def split: conn.splits intro: checked_on)

lemma with_strict_simp [simp]: "ho_Strict (op_Hosts (with_strict strict opts)) = strict"
  by (simp add: with_strict_def)

lemma open_conn_verified:
  assumes f: "fit lib s" and o: "open_conn (ssh_net lib ses lr ctx opts) strict t s = (e, s')"
  shows "fit lib s' \<and> goes_on s s' \<and> (\<forall>cn. e = Inr cn \<longrightarrow> conn_verified lib s' cn)"
proof (cases "t_Local t")
  case True
  then show ?thesis using o f by (auto simp: open_conn_def conn_verified_def)
next
  case False
  let ?d = "dial_of strict t"
  obtain r s1 where d: "Dial lib (dial_target_of ?d) (with_strict strict opts) s = (r, s1)" by fastforce
  note k = Dial_spec[OF f d]
  have st: "d_Strict ?d = strict" by (simp add: dial_of_def)
  have "s' = s1" "\<forall>cn. e = Inr cn \<longrightarrow> (\<exists>c. r = Inr c \<and> cn = SshConn ?d (cl_conn c))"
    using o False d st by (auto simp: open_conn_def ssh_net_def split: sum.splits)
  then show ?thesis using k st by (auto simp: opened_def conn_verified_def)
qed

lemma conn_at_verified:
  assumes f: "fit lib s" and p: "pool_verified lib c s" and a: "conn_at (ssh_net lib ses lr ctx opts) c t s = (e, c', s')"
  shows "fit lib s' \<and> goes_on s s' \<and> pool_verified lib c' s' \<and> (\<forall>cn. e = Inr cn \<longrightarrow> conn_verified lib s' cn)"
proof -
  let ?k = "conn_key (strictness c t) t"
  have e: "fit lib s' \<and> goes_on s s' \<and> (\<forall>cn. e = Inr cn \<longrightarrow> conn_verified lib s' cn)"
  proof (cases "c_conns c ?k")
    case None
    then have "open_conn (ssh_net lib ses lr ctx opts) (strictness c t) t s = (e, s')"
      using a by (auto simp: conn_at_def Let_def split: prod.splits)
    from open_conn_verified[OF f this] show ?thesis .
  next
    case (Some e0)
    then have "e = e0" "s' = s" using a by (simp_all add: conn_at_def Let_def)
    then show ?thesis using f p Some unfolding pool_verified_def by auto
  qed
  have c': "c_conns c' = (if is_ctx_failure e then (c_conns c)(?k := None) else (c_conns c)(?k \<mapsto> e))"
    using a by (auto simp: conn_at_def Let_def split: prod.splits)
  have "conn_verified lib s' cn" if "c_conns c' key = Some (Inr cn)" for key cn
  proof (cases "c_conns c key = Some (Inr cn)")
    case True
    then show ?thesis using conn_verified_on p e unfolding pool_verified_def by blast
  next
    case False
    then have "e = Inr cn" using that c' by (auto split: if_splits)
    then show ?thesis using e by blast
  qed
  then show ?thesis using e unfolding pool_verified_def by blast
qed

lemma conns_at_verified: "fit lib s \<Longrightarrow> pool_verified lib c s \<Longrightarrow> conns_at (ssh_net lib ses lr ctx opts) c ts s = (c', s')
    \<Longrightarrow> fit lib s' \<and> goes_on s s' \<and> pool_verified lib c' s'"
proof (induction ts arbitrary: c s)
  case (Cons t ts)
  obtain e c1 s1 where 1: "conn_at (ssh_net lib ses lr ctx opts) c t s = (e, c1, s1)" by (metis prod_cases3)
  note v = conn_at_verified[OF Cons.prems(1,2) 1]
  then have "fit lib s' \<and> goes_on s1 s' \<and> pool_verified lib c' s'" using Cons.IH[of s1 c1] Cons.prems(3) 1 by simp
  then show ?case using v goes_on_trans by blast
qed (simp add: pool_verified_def)

text \<open>
  C29. From the inventory down to the wire: whatever connections the pool has opened before, the connection a target with strict
  host keys is given was dialled to its address and port and as its user, and the server there has shown a key that the check
  of that dial accepted. That the same host is also reached without verification, by another entry, changes nothing.
\<close>

theorem pooled_conn_verified:
  assumes "list_all nul_free ts" and "nul_free t" and "\<not> t_Local t"
    and "conns_at (ssh_net lib ses lr ctx opts) (NewCluster strict) ts (wire_start jump w h) = (c, s)"
    and "conn_at (ssh_net lib ses lr ctx opts) c t s = (Inr cn, c', s')"
    and "(case t_StrictHostKey t of Some b \<Rightarrow> b | None \<Rightarrow> strict)"
  shows "\<exists>d conn. cn = SshConn d conn \<and> d_Host d = t_Host t \<and> d_Port d = t_Port t \<and> d_User d = t_User t
    \<and> checked_conn lib True (target_addr (dial_target_of d)) s' conn"
proof -
  have "pool_verified lib (NewCluster strict) (wire_start jump w h)" by (simp add: pool_verified_def NewCluster_def)
  from conns_at_verified[OF wire_start_fit this assms(4)] have s: "fit lib s" "pool_verified lib c s" by blast+
  have v: "conn_verified lib s' cn" using conn_at_verified[OF s assms(5)] by blast
  have "pool_ok c" "c_Strict c = strict" using conns_at_pool[OF pool_ok_new assms(1,4)] by (simp_all add: NewCluster_def)
  then have "conn_fits (case t_StrictHostKey t of Some b \<Rightarrow> b | None \<Rightarrow> strict) t (Inr cn)"
    using conn_at_step[OF _ assms(2,5)] by (simp add: strictness_def split: option.splits)
  then show ?thesis using v assms(3,6) by (cases cn) (auto simp: conn_verified_def)
qed

section \<open>A concrete network\<close>

text \<open>Every server shows the key \<open>2\<close>.\<close>

definition demo_ssh :: "(nat, nat, nat) ssh_lib" where
  "demo_ssh = \<lparr>sl_keys = demo_key_env, sl_hosts = demo_hosts, sl_disk = (\<lambda>w. good_disk), sl_user = ''me'',
     sl_tcp = (\<lambda>addr w. (None, w)), sl_channel = (\<lambda>c addr w. (None, w)), sl_remote = (\<lambda>c w. []),
     sl_hello = (\<lambda>c algos w. (Inr 2, w)), sl_login = (\<lambda>c u ms w. (None, w)), sl_watchdog = (\<lambda>c w. None),
     sl_forward = (\<lambda>c f w. (None, w)), sl_close = (\<lambda>c w. (None, w)), sl_gone = (\<lambda>c w. False), sl_span = (\<lambda>d. [])\<rparr>"

definition demo_dial :: "bool \<Rightarrow> nat ssh_dial_options" where
  "demo_dial bastion = \<lparr>op_Hosts = \<lparr>ho_Strict = True, ho_KnownHostsFile = ''kh'', ho_AcceptNew = True\<rparr>, op_ConnectTimeout = 0,
     op_KeepaliveInterval = 0, op_KeepaliveMaxFails = 0, op_ForwardAgent = False, op_ForwardKey = [], op_Agent = None,
     op_Bastion = bastion\<rparr>"

definition demo_target :: "string \<Rightarrow> ssh_target" where
  "demo_target h = \<lparr>tg_Host = h, tg_Port = 0, tg_User = [], tg_IdentityFile = [], tg_Passphrase = []\<rparr>"

definition demo_wire :: "(nat, nat) wire" where
  "demo_wire = wire_start (demo_target ''jump'') 0 \<lparr>hs_files = [''kh'' \<mapsto> []], hs_recorded = Map.empty\<rparr>"

definition is_open :: "ssh_client res \<Rightarrow> bool" where
  "is_open r = (case r of Inl _ \<Rightarrow> False | Inr _ \<Rightarrow> True)"

lemma demo_dial_open: "is_open (fst (Dial demo_ssh (demo_target ''web'') (demo_dial True) demo_wire))" by code_simp

lemma Dial_verifies_witness:
  "\<exists>c s'. Dial demo_ssh (demo_target ''web'') (demo_dial True) demo_wire = (Inr c, s')
     \<and> checked_conn demo_ssh True ''web:22'' s' (cl_conn c)"
proof -
  obtain r s' where d: "Dial demo_ssh (demo_target ''web'') (demo_dial True) demo_wire = (r, s')" by fastforce
  then obtain c where "r = Inr c" using demo_dial_open by (cases r) (auto simp: is_open_def)
  moreover have "target_addr (demo_target ''web'') = ''web:22''" by code_simp
  ultimately show ?thesis using d Dial_verifies[OF rtranclp.rtrancl_refl, of demo_ssh "demo_target ''web''" "demo_dial True"
      "demo_target ''jump''" 0 "\<lparr>hs_files = [''kh'' \<mapsto> []], hs_recorded = Map.empty\<rparr>" c s']
    by (auto simp: demo_wire_def demo_dial_def)
qed

lemma connections_owned_witness:
  "\<exists>c s'. Dial demo_ssh (demo_target ''web'') (demo_dial True) demo_wire = (Inr c, s') \<and> unowned s' = {cl_conn c}"
proof -
  obtain r s' where d: "Dial demo_ssh (demo_target ''web'') (demo_dial True) demo_wire = (r, s')" by fastforce
  then obtain c where r: "r = Inr c" using demo_dial_open by (cases r) (auto simp: is_open_def)
  have "unowned demo_wire = {}" by (simp add: unowned_def demo_wire_def wire_start_def)
  then have "unowned s' = {cl_conn c}"
    using connections_owned[OF rtranclp.rtrancl_refl, of demo_ssh "demo_target ''jump''" 0
      "\<lparr>hs_files = [''kh'' \<mapsto> []], hs_recorded = Map.empty\<rparr>"] d r by (fastforce simp: demo_wire_def)
  then show ?thesis using d r by blast
qed

definition web_target :: target where
  "web_target = \<lparr>t_Host = ''web'', t_Port = 22, t_User = ''u'', t_IdentityFile = [], t_Passphrase = [], t_Local = False,
     t_StrictHostKey = None\<rparr>"

definition no_sessions :: "nat session_lib" where
  "no_sessions = \<lparr>ses_new = (\<lambda>c w. (None, w)), ses_forward = (\<lambda>c w. w), ses_start = (\<lambda>c cmd w. (None, w)),
     ses_wait = (\<lambda>c w. (([], Exited None), w)), ses_kill = (\<lambda>c w. w), ses_close = (\<lambda>c w. w)\<rparr>"

definition demo_ssh_net :: "(nat, nat) wire net" where
  "demo_ssh_net = ssh_net demo_ssh no_sessions (\<lambda>cmd w. (([], None), w)) (\<lambda>w. None) (demo_dial False)"

definition got_conn :: "goerr + conn \<Rightarrow> bool" where
  "got_conn e = (case e of Inl _ \<Rightarrow> False | Inr _ \<Rightarrow> True)"

lemma pooled_conn_verified_witness:
  "\<exists>d conn c' s'. conn_at demo_ssh_net (NewCluster True) web_target demo_wire = (Inr (SshConn d conn), c', s')
     \<and> checked_conn demo_ssh True (target_addr (dial_target_of d)) s' conn"
proof -
  have "got_conn (fst (conn_at demo_ssh_net (NewCluster True) web_target demo_wire))" by code_simp
  then obtain cn c' s' where a: "conn_at demo_ssh_net (NewCluster True) web_target demo_wire = (Inr cn, c', s')"
    by (cases "conn_at demo_ssh_net (NewCluster True) web_target demo_wire") (auto simp: got_conn_def split: sum.splits)
  have "nul_free web_target" "\<not> t_Local web_target" "t_StrictHostKey web_target = None" by (simp_all add: nul_free_def web_target_def)
  then show ?thesis using pooled_conn_verified[of "[]" web_target demo_ssh no_sessions "\<lambda>cmd w. (([], None), w)" "\<lambda>w. None" "demo_dial False"
      True "demo_target ''jump''" 0 "\<lparr>hs_files = [''kh'' \<mapsto> []], hs_recorded = Map.empty\<rparr>" "NewCluster True" demo_wire cn c' s'] a
    by (auto simp: demo_ssh_net_def demo_wire_def)
qed

end
