(* ===== verification/Logging.thy ===== *)
theory Logging
  imports Lines Cli_Args
begin

text \<open>
  Logging: the handlers of \<open>internal/logger/logger.go\<close>, and their installation by \<open>setupLogging\<close> of
  \<open>internal/cli/logging.go\<close>.

  A value of an attribute is one of the kinds \<open>slog\<close> has. Errors and values with a \<open>String\<close> method come with their text,
  numbers, times and booleans with what is printed of them, other values are opaque and printed by \<open>le_print\<close>
  (\<open>fmt.Sprint\<close>); a \<open>LogValuer\<close> comes with its own text and with the value it stands for. The text and the JSON handler are the
  standard library's: they keep what was bound to them, and \<open>le_encode\<close> is the line they write.
\<close>

datatype 'a log_value = LStr string | LNum string | LErr string | LStringer string | LOpaque 'a
  | LGroup "(string \<times> 'a log_value) list" | LValuer string "'a log_value"

type_synonym 'a log_attrs = "(string \<times> 'a log_value) list"

datatype log_dest = Stdout | Stderr | File_handle nat

datatype 'a binding = Bound "'a log_attrs" | Opened string

record 'a color_handler =
  ch_output :: log_dest
  ch_level :: int
  ch_attrs :: "'a log_attrs"
  ch_group :: string

datatype 'a base_handler = Std bool int log_dest "'a binding list" | Color "'a color_handler"

record 'a log_env =
  le_print :: "'a \<Rightarrow> string"
  le_encode :: "bool \<Rightarrow> 'a binding list \<Rightarrow> string \<Rightarrow> int \<Rightarrow> string \<Rightarrow> 'a log_attrs \<Rightarrow> string"

section \<open>Levels\<close>

definition LevelDebug :: int where "LevelDebug = - 4"
definition LevelInfo :: int where "LevelInfo = 0"
definition LevelWarn :: int where "LevelWarn = 4"
definition LevelError :: int where "LevelError = 8"

definition parseLevel :: "string \<Rightarrow> int res" where
  "parseLevel s = (let u = map to_upper_char s in
     if u = [] \<or> u = ''INFO'' then Inr LevelInfo
     else if u = ''DEBUG'' then Inr LevelDebug
     else if u = ''WARN'' then Inr LevelWarn
     else if u = ''ERROR'' then Inr LevelError
     else Inl (Text (''invalid log level: '' @ s)))"

text \<open>The name \<open>slog\<close> gives a level: the nearest one below and the distance.\<close>

definition level_name :: "int \<Rightarrow> string" where
  "level_name l = (let named = (\<lambda>base d. if d = 0 then base else base @ (if d < 0 then [] else ''+'') @ itoa d) in
     if l < LevelInfo then named ''DEBUG'' (l - LevelDebug)
     else if l < LevelWarn then named ''INFO'' (l - LevelInfo)
     else if l < LevelError then named ''WARN'' (l - LevelWarn)
     else named ''ERROR'' (l - LevelError))"

section \<open>The colored handler\<close>

definition ansi :: "string \<Rightarrow> string" where "ansi c = CHR 0x1B # ''['' @ c @ ''m''"

definition colorDebug :: string where "colorDebug = ansi ''36''"
definition colorInfo :: string where "colorInfo = ansi ''32''"
definition colorWarn :: string where "colorWarn = ansi ''33''"
definition colorError :: string where "colorError = ansi ''31''"
definition colorReset :: string where "colorReset = ansi ''0''"

definition level_color :: "int \<Rightarrow> string" where
  "level_color l = (if l = LevelDebug then colorDebug else if l = LevelInfo then colorInfo
     else if l = LevelWarn then colorWarn else if l = LevelError then colorError else colorReset)"

fun resolve_value :: "'a log_value \<Rightarrow> 'a log_value" where
  "resolve_value (LValuer s v) = resolve_value v"
| "resolve_value v = v"

text \<open>\<open>%v\<close> of the value; inside a group the attributes print themselves.\<close>

fun show_value :: "('a \<Rightarrow> string) \<Rightarrow> 'a log_value \<Rightarrow> string" where
  "show_value spr (LStr s) = s"
| "show_value spr (LNum s) = s"
| "show_value spr (LErr s) = s"
| "show_value spr (LStringer s) = s"
| "show_value spr (LOpaque a) = spr a"
| "show_value spr (LGroup as) = ''['' @ join_on '' '' (map (\<lambda>(k, v). k @ ''='' @ show_value spr v) as) @ '']''"
| "show_value spr (LValuer s v) = s"

definition writeAttr :: "('a \<Rightarrow> string) \<Rightarrow> string \<Rightarrow> 'a log_value \<Rightarrow> string" where
  "writeAttr spr key v = (case v of
      LGroup as \<Rightarrow> concat (map (\<lambda>(k, w). '' '' @ key @ ''.'' @ k @ ''='' @ show_value spr (resolve_value w)) as)
    | _ \<Rightarrow> '' '' @ key @ ''='' @ show_value spr v)"

definition attrKey :: "'a color_handler \<Rightarrow> string \<Rightarrow> string" where
  "attrKey c k = (if ch_group c \<noteq> [] then ch_group c @ ''.'' @ k else k)"

definition Color_Handle :: "('a \<Rightarrow> string) \<Rightarrow> 'a color_handler \<Rightarrow> string \<Rightarrow> int \<Rightarrow> string \<Rightarrow> 'a log_attrs \<Rightarrow> string" where
  "Color_Handle spr c stamp level msg as =
     stamp @ '' '' @ level_color level @ ''['' @ map to_upper_char (level_name level) @ '']'' @ colorReset @ '' '' @ msg
     @ concat (map (\<lambda>(k, v). writeAttr spr k (resolve_value v)) (ch_attrs c))
     @ concat (map (\<lambda>(k, v). writeAttr spr (attrKey c k) (resolve_value v)) as) @ [nl]"

definition Color_WithAttrs :: "'a log_attrs \<Rightarrow> 'a color_handler \<Rightarrow> 'a color_handler" where
  "Color_WithAttrs as c = c\<lparr>ch_attrs := ch_attrs c @ map (\<lambda>(k, v). (attrKey c k, v)) as\<rparr>"

definition Color_WithGroup :: "string \<Rightarrow> 'a color_handler \<Rightarrow> 'a color_handler" where
  "Color_WithGroup name c = c\<lparr>ch_group := (if ch_group c \<noteq> [] then ch_group c @ ''.'' @ name else name)\<rparr>"

section \<open>Masking\<close>

text \<open>The masker of the moment a record is written or attributes are bound.\<close>

record log_masks =
  lm_disabled :: bool
  lm_rules :: "(string \<Rightarrow> string) list"
  lm_reg :: registry

definition mask_text :: "log_masks \<Rightarrow> string \<Rightarrow> string" where
  "mask_text mk = mask_String (lm_disabled mk) (lm_rules mk) (lm_reg mk)"

text \<open>Every value is resolved before it is masked, which is the last equation.\<close>

fun maskValue :: "(string \<Rightarrow> string) \<Rightarrow> ('a \<Rightarrow> string) \<Rightarrow> 'a log_value \<Rightarrow> 'a log_value" where
  "maskValue msk spr (LStr s) = LStr (msk s)"
| "maskValue msk spr (LGroup as) = LGroup (map (\<lambda>(k, v). (k, maskValue msk spr v)) as)"
| "maskValue msk spr (LErr s) = LStr (msk s)"
| "maskValue msk spr (LStringer s) = LStr (msk s)"
| "maskValue msk spr (LOpaque a) = (let s = spr a; masked = msk s in if masked \<noteq> s then LStr masked else LOpaque a)"
| "maskValue msk spr (LNum s) = LNum s"
| "maskValue msk spr (LValuer s v) = maskValue msk spr v"

definition maskAttr :: "(string \<Rightarrow> string) \<Rightarrow> ('a \<Rightarrow> string) \<Rightarrow> string \<times> 'a log_value \<Rightarrow> string \<times> 'a log_value" where
  "maskAttr msk spr a = (fst a, maskValue msk spr (resolve_value (snd a)))"

definition base_Enabled :: "'a base_handler \<Rightarrow> int \<Rightarrow> bool" where
  "base_Enabled h level \<longleftrightarrow> (case h of Std json l d bs \<Rightarrow> l \<le> level | Color c \<Rightarrow> ch_level c \<le> level)"

definition base_dest :: "'a base_handler \<Rightarrow> log_dest" where
  "base_dest h = (case h of Std json l d bs \<Rightarrow> d | Color c \<Rightarrow> ch_output c)"

definition base_Handle :: "'a log_env \<Rightarrow> 'a base_handler \<Rightarrow> string \<Rightarrow> int \<Rightarrow> string \<times> 'a log_attrs \<Rightarrow> log_dest \<times> string" where
  "base_Handle le h stamp level rec = (base_dest h, (case h of
      Std json l d bs \<Rightarrow> le_encode le json bs stamp level (fst rec) (snd rec)
    | Color c \<Rightarrow> Color_Handle (le_print le) c stamp level (fst rec) (snd rec)))"

definition mask_record :: "log_masks \<Rightarrow> ('a \<Rightarrow> string) \<Rightarrow> string \<times> 'a log_attrs \<Rightarrow> string \<times> 'a log_attrs" where
  "mask_record mk spr rec = (if lm_disabled mk then rec
     else (mask_text mk (fst rec), map (maskAttr (mask_text mk) spr) (snd rec)))"

definition mh_Handle :: "'a log_env \<Rightarrow> log_masks \<Rightarrow> 'a base_handler \<Rightarrow> string \<Rightarrow> int \<Rightarrow> string \<times> 'a log_attrs \<Rightarrow> log_dest \<times> string" where
  "mh_Handle le mk h stamp level rec = base_Handle le h stamp level (mask_record mk (le_print le) rec)"

definition mh_WithAttrs :: "log_masks \<Rightarrow> ('a \<Rightarrow> string) \<Rightarrow> 'a log_attrs \<Rightarrow> 'a base_handler \<Rightarrow> 'a base_handler" where
  "mh_WithAttrs mk spr as h = (let masked = map (maskAttr (mask_text mk) spr) as in
     case h of Std json l d bs \<Rightarrow> Std json l d (bs @ [Bound masked]) | Color c \<Rightarrow> Color (Color_WithAttrs masked c))"

definition mh_WithGroup :: "string \<Rightarrow> 'a base_handler \<Rightarrow> 'a base_handler" where
  "mh_WithGroup name h = (case h of Std json l d bs \<Rightarrow> Std json l d (bs @ [Opened name]) | Color c \<Rightarrow> Color (Color_WithGroup name c))"

text \<open>A logger fans out to its handlers. What \<open>With\<close> and \<open>WithGroup\<close> bind reaches each of them, masked as of that moment.\<close>

type_synonym 'a logger = "'a base_handler list"

definition bind_one :: "('a \<Rightarrow> string) \<Rightarrow> log_masks \<times> 'a binding \<Rightarrow> 'a base_handler \<Rightarrow> 'a base_handler" where
  "bind_one spr b h = (case snd b of Bound as \<Rightarrow> mh_WithAttrs (fst b) spr as h | Opened name \<Rightarrow> mh_WithGroup name h)"

definition bind_all :: "('a \<Rightarrow> string) \<Rightarrow> (log_masks \<times> 'a binding) list \<Rightarrow> 'a logger \<Rightarrow> 'a logger" where
  "bind_all spr bs lg = map (fold (bind_one spr) bs) lg"

definition log_record :: "'a log_env \<Rightarrow> log_masks \<Rightarrow> 'a logger \<Rightarrow> string \<Rightarrow> int \<Rightarrow> string \<times> 'a log_attrs \<Rightarrow> (log_dest \<times> string) list" where
  "log_record le mk lg stamp level rec =
     map (\<lambda>h. mh_Handle le mk h stamp level rec) (filter (\<lambda>h. base_Enabled h level) lg)"

section \<open>Sinks and their files\<close>

record log_sink =
  lk_Level :: string
  lk_Output :: string
  lk_Writer :: "log_dest option"
  lk_Format :: string
  lk_Color :: bool

text \<open>Where the commands of the program write: the standard output, or that and a file.\<close>

datatype out_writer = Console | Tee out_writer nat

record 'a log_state =
  lt_base :: "out_writer option"
  lt_root :: out_writer
  lt_file :: "nat option"
  lt_output :: "nat option"
  lt_open :: "nat set"
  lt_next :: nat
  lt_logger :: "'a logger"

record log_os =
  lo_open :: "string \<Rightarrow> goerr option"
  lo_tty :: "log_dest \<Rightarrow> bool"

definition OpenAppend :: "log_os \<Rightarrow> string \<Rightarrow> 'a log_state \<Rightarrow> nat res \<times> 'a log_state" where
  "OpenAppend os path s = (case lo_open os path of
      Some err \<Rightarrow> (Inl err, s)
    | None \<Rightarrow> (Inr (lt_next s), s\<lparr>lt_open := insert (lt_next s) (lt_open s), lt_next := Suc (lt_next s)\<rparr>))"

definition openOutput :: "log_os \<Rightarrow> string \<Rightarrow> 'a log_state \<Rightarrow> log_dest res \<times> 'a log_state" where
  "openOutput os d s = (if d = [] \<or> equal_fold d ''stdout'' then (Inr Stdout, s)
     else if equal_fold d ''stderr'' then (Inr Stderr, s)
     else (case OpenAppend os d s of (Inl err, s') \<Rightarrow> (Inl err, s') | (Inr h, s') \<Rightarrow> (Inr (File_handle h), s')))"

definition resolveWriter :: "log_os \<Rightarrow> log_sink \<Rightarrow> 'a log_state \<Rightarrow> log_dest res \<times> 'a log_state" where
  "resolveWriter os sk s = (case lk_Writer sk of Some d \<Rightarrow> (Inr d, s) | None \<Rightarrow> openOutput os (lk_Output sk) s)"

definition buildHandler :: "log_os \<Rightarrow> log_sink \<Rightarrow> 'a log_state \<Rightarrow> 'a base_handler res \<times> 'a log_state" where
  "buildHandler os sk s = (case parseLevel (lk_Level sk) of
      Inl err \<Rightarrow> (Inl err, s)
    | Inr level \<Rightarrow> (case resolveWriter os sk s of
        (Inl err, s') \<Rightarrow> (Inl err, s')
      | (Inr out, s') \<Rightarrow> (let format = or_str (lk_Format sk) ''text''; f = map to_lower_char format in
          if f = ''json'' then (Inr (Std True level out []), s')
          else if f = ''text'' then
            (if lk_Color sk \<and> lo_tty os out then (Inr (Color \<lparr>ch_output = out, ch_level = level, ch_attrs = [], ch_group = []\<rparr>), s')
             else (Inr (Std False level out []), s'))
          else (Inl (Text (''invalid log format: '' @ format)), s'))))"

fun build_handlers :: "log_os \<Rightarrow> log_sink list \<Rightarrow> 'a log_state \<Rightarrow> 'a logger res \<times> 'a log_state" where
  "build_handlers os [] s = (Inr [], s)"
| "build_handlers os (sk # sks) s = (case buildHandler os sk s of
      (Inl err, s') \<Rightarrow> (Inl err, s')
    | (Inr h, s') \<Rightarrow> (case build_handlers os sks s' of (Inl err, s'') \<Rightarrow> (Inl err, s'') | (Inr hs, s'') \<Rightarrow> (Inr (h # hs), s'')))"

definition New_logger :: "log_os \<Rightarrow> log_sink list \<Rightarrow> 'a log_state \<Rightarrow> 'a logger res \<times> 'a log_state" where
  "New_logger os sks s = (if sks = [] then (Inl (Text ''logger: at least one sink is required''), s) else build_handlers os sks s)"

section \<open>Installing the logger\<close>

definition close_files :: "nat option list \<Rightarrow> 'a log_state \<Rightarrow> 'a log_state" where
  "close_files fs s = s\<lparr>lt_open := lt_open s - \<Union> (set (map set_option fs))\<rparr>"

definition own_output :: "string \<Rightarrow> bool" where
  "own_output output \<longleftrightarrow> output \<noteq> [] \<and> \<not> equal_fold output ''stdout'' \<and> \<not> equal_fold output ''stderr''"

definition open_if :: "bool \<Rightarrow> log_os \<Rightarrow> string \<Rightarrow> 'a log_state \<Rightarrow> nat option res \<times> 'a log_state" where
  "open_if wanted os path s = (if wanted then (case OpenAppend os path s of (Inl err, s') \<Rightarrow> (Inl err, s') | (Inr h, s') \<Rightarrow> (Inr (Some h), s'))
     else (Inr None, s))"

definition primary_sink :: "log_settings \<Rightarrow> nat option \<Rightarrow> log_sink" where
  "primary_sink st out = \<lparr>lk_Level = ls_level st, lk_Output = (if own_output (ls_output st) then [] else ls_output st),
     lk_Writer = map_option File_handle out, lk_Format = ls_format st, lk_Color = ls_color st\<rparr>"

definition file_sinks :: "log_settings \<Rightarrow> nat option \<Rightarrow> log_sink list" where
  "file_sinks st f = (case f of None \<Rightarrow> []
     | Some h \<Rightarrow> [\<lparr>lk_Level = ls_level st, lk_Output = [], lk_Writer = Some (File_handle h), lk_Format = ls_fileFormat st, lk_Color = False\<rparr>])"

definition tee_out :: "log_settings \<Rightarrow> out_writer \<Rightarrow> nat option \<Rightarrow> out_writer" where
  "tee_out st base f = (case f of None \<Rightarrow> base | Some h \<Rightarrow> if \<not> equal_fold (ls_fileFormat st) ''json'' then Tee base h else base)"

definition setupLogging :: "log_os \<Rightarrow> log_settings \<Rightarrow> 'a log_state \<Rightarrow> goerr option \<times> 'a log_state" where
  "setupLogging os st s =
     (let base = (case lt_base s of None \<Rightarrow> lt_root s | Some b \<Rightarrow> b) in
      case open_if (own_output (ls_output st)) os (ls_output st) (s\<lparr>lt_base := Some base\<rparr>) of
        (Inl err, s1) \<Rightarrow> (Some err, s1)
      | (Inr out, s1) \<Rightarrow> (case open_if (ls_file st \<noteq> []) os (ls_file st) s1 of
          (Inl err, s2) \<Rightarrow> (Some err, close_files [out] s2)
        | (Inr f, s2) \<Rightarrow> (case New_logger os (primary_sink st out # file_sinks st f) s2 of
            (Inl err, s3) \<Rightarrow> (Some err, close_files [out, f] s3)
          | (Inr lg, s3) \<Rightarrow> (None, (close_files [lt_output s, lt_file s] s3)\<lparr>lt_logger := lg, lt_root := tee_out st base f,
              lt_output := out, lt_file := f\<rparr>))))"

definition log_start :: "'a log_state" where
  "log_start = \<lparr>lt_base = None, lt_root = Console, lt_file = None, lt_output = None, lt_open = {}, lt_next = 0, lt_logger = []\<rparr>"

definition setups :: "(log_os \<times> log_settings) list \<Rightarrow> 'a log_state \<Rightarrow> 'a log_state" where
  "setups calls s = fold (\<lambda>(os, st) s. snd (setupLogging os st s)) calls s"

section \<open>The texts of a record that is handed on\<close>

text \<open>
  The texts of a value as the masking handler reads them: numbers, times and booleans have none, an opaque value has the one
  \<open>fmt.Sprint\<close> gives. What the handler after it writes of an opaque value may differ (\<open>TextHandler\<close> prints a byte slice as
  text, the JSON handler marshals), so nothing is said here of the written line.
\<close>

fun texts :: "('a \<Rightarrow> string) \<Rightarrow> 'a log_value \<Rightarrow> string list" where
  "texts spr (LStr s) = [s]"
| "texts spr (LNum s) = []"
| "texts spr (LErr s) = [s]"
| "texts spr (LStringer s) = [s]"
| "texts spr (LOpaque a) = [spr a]"
| "texts spr (LGroup as) = concat (map (\<lambda>(k, v). texts spr v) as)"
| "texts spr (LValuer s v) = s # texts spr v"

definition bound_attrs :: "'a base_handler \<Rightarrow> 'a log_attrs" where
  "bound_attrs h = (case h of Std json l d bs \<Rightarrow> concat (map (\<lambda>b. case b of Bound as \<Rightarrow> as | Opened g \<Rightarrow> []) bs)
     | Color c \<Rightarrow> ch_attrs c)"

definition attrs_texts :: "('a \<Rightarrow> string) \<Rightarrow> 'a log_attrs \<Rightarrow> string list" where
  "attrs_texts spr as = concat (map (texts spr \<circ> snd) as)"

lemma maskValue_texts: "t \<in> set (texts spr (maskValue msk spr v)) \<Longrightarrow> \<exists>s. t = msk s"
proof (induction v)
  case (LOpaque a)
  then show ?case by (cases "msk (spr a) = spr a") (auto intro: exI[of _ "spr a"])
next
  case (LGroup as)
  then show ?case by fastforce
qed auto

lemma maskAttr_texts: "t \<in> set (attrs_texts spr (map (maskAttr msk spr) as)) \<Longrightarrow> \<exists>s. t = msk s"
  by (auto simp: attrs_texts_def maskAttr_def dest: maskValue_texts)

definition knows :: "string \<Rightarrow> log_masks \<Rightarrow> bool" where
  "knows v mk \<longleftrightarrow> \<not> lm_disabled mk \<and> registry_ok (lm_reg mk) \<and> v \<in> set (secrets (lm_reg mk)) \<and> list_all (line_rule v) (lm_rules mk)"

lemma masked_text_clean: "plain_secret v \<Longrightarrow> knows v mk \<Longrightarrow> \<not> contains_str (mask_text mk s) v"
  using mask_line(1)[of "lm_reg mk" v "lm_rules mk" s] by (simp add: knows_def mask_text_def)

definition clean_attrs :: "('a \<Rightarrow> string) \<Rightarrow> string \<Rightarrow> 'a log_attrs \<Rightarrow> bool" where
  "clean_attrs spr v as \<longleftrightarrow> (\<forall>t \<in> set (attrs_texts spr as). \<not> contains_str t v)"

lemma clean_masked: "plain_secret v \<Longrightarrow> knows v mk \<Longrightarrow> clean_attrs spr v (map (maskAttr (mask_text mk) spr) as)"
  using masked_text_clean unfolding clean_attrs_def by (metis maskAttr_texts)

lemma clean_append [simp]: "clean_attrs spr v (as @ bs) \<longleftrightarrow> clean_attrs spr v as \<and> clean_attrs spr v bs" "clean_attrs spr v []"
  by (auto simp: clean_attrs_def attrs_texts_def)

lemma clean_rename [simp]: "clean_attrs spr v (map (\<lambda>(k, w). (f k, w)) as) \<longleftrightarrow> clean_attrs spr v as"
  by (induction as) (auto simp: clean_attrs_def attrs_texts_def)

lemma bind_clean:
  assumes "plain_secret v"
  shows "list_all (knows v \<circ> fst) bs \<Longrightarrow> clean_attrs spr v (bound_attrs h) \<Longrightarrow> clean_attrs spr v (bound_attrs (fold (bind_one spr) bs h))"
proof (induction bs arbitrary: h)
  case (Cons b bs)
  have "clean_attrs spr v (bound_attrs (bind_one spr b h))"
    using Cons.prems clean_masked[OF assms, of "fst b" spr]
    by (auto simp: bind_one_def mh_WithAttrs_def mh_WithGroup_def Color_WithAttrs_def Color_WithGroup_def bound_attrs_def
        simp del: map_map split: binding.split base_handler.splits)
  then show ?case using Cons by simp
qed simp

lemma built_bare:
  "buildHandler os sk s = (Inr h, s') \<Longrightarrow> bound_attrs h = []"
  by (auto simp: buildHandler_def Let_def bound_attrs_def split: sum.splits prod.splits if_splits)

lemma built_all_bare: "build_handlers os sks s = (Inr hs, s') \<Longrightarrow> h \<in> set hs \<Longrightarrow> bound_attrs h = []"
  by (induction sks arbitrary: s hs s') (auto split: sum.splits prod.splits dest: built_bare)

text \<open>
  The record the masking handler passes on: for a logger built from any sinks, the message and every text in the attributes,
  nested groups, errors and opaque values that \<open>fmt.Sprint\<close> shows included, hold no secret that was registered when the record
  was made; nor do the attributes bound to the handlers before, when the secret was registered by the time they were bound.
  Attributes bound earlier than that, and numbers, are passed on as they are.
\<close>

theorem log_hides:
  fixes lg :: "'a logger"
  assumes "New_logger os sks (s :: 'a log_state) = (Inr lg, s')" and "plain_secret v" and "knows v mk"
    and "list_all (knows v \<circ> fst) bs" and "h \<in> set (bind_all spr bs lg)"
  shows "\<not> contains_str (fst (mask_record mk spr rec)) v \<and> clean_attrs spr v (snd (mask_record mk spr rec))
    \<and> clean_attrs spr v (bound_attrs h)"
proof -
  obtain h0 where h0: "h0 \<in> set lg" "h = fold (bind_one spr) bs h0" using assms(5) by (auto simp: bind_all_def)
  have "bound_attrs h0 = []" using built_all_bare[OF _ h0(1)] assms(1) by (auto simp: New_logger_def split: if_splits)
  then have "clean_attrs spr v (bound_attrs h)" using bind_clean[OF assms(2,4), of spr h0] h0(2) by simp
  then show ?thesis
    using clean_masked[OF assms(2,3), of spr] masked_text_clean[OF assms(2,3)] assms(3) by (simp add: mask_record_def knows_def)
qed

section \<open>The names of attributes\<close>

text \<open>What \<open>slog\<close> asks of a handler: an attribute is qualified by the groups that are open when it is bound.\<close>

fun dotted :: "string list \<Rightarrow> 'a binding list \<Rightarrow> 'a log_attrs \<times> string list" where
  "dotted gs [] = ([], gs)"
| "dotted gs (Bound as # bs) = (case dotted gs bs of (qs, gs') \<Rightarrow> (map (\<lambda>(k, v). (join_on ''.'' (gs @ [k]), v)) as @ qs, gs'))"
| "dotted gs (Opened g # bs) = dotted (gs @ [g]) bs"

definition color_bind :: "'a binding \<Rightarrow> 'a color_handler \<Rightarrow> 'a color_handler" where
  "color_bind b c = (case b of Bound as \<Rightarrow> Color_WithAttrs as c | Opened g \<Rightarrow> Color_WithGroup g c)"

lemma join_snoc: "join_on d (xs @ [x]) = (if xs = [] then x else join_on d xs @ d @ x)"
proof (induction xs)
  case (Cons y ys)
  then show ?case by (cases ys) auto
qed simp

lemma join_empty: "[] \<notin> set gs \<Longrightarrow> join_on ''.'' gs = [] \<longleftrightarrow> gs = []"
  by (induction gs rule: rev_induct) (auto simp: join_snoc)

lemma color_names:
  assumes "ch_group c = join_on ''.'' gs" "[] \<notin> set gs" "Opened [] \<notin> set bs" "dotted gs bs = (qs, gs')"
  shows "ch_attrs (fold color_bind bs c) = ch_attrs c @ qs
    \<and> (\<forall>k. attrKey (fold color_bind bs c) k = join_on ''.'' (gs' @ [k]))"
  using assms
proof (induction gs bs arbitrary: c qs gs' rule: dotted.induct)
  case (1 gs)
  then show ?case using join_empty[of gs] by (auto simp: attrKey_def join_snoc)
next
  case (2 gs as bs)
  have "attrKey c k = join_on ''.'' (gs @ [k])" for k
    using 2(2,3) join_empty[of gs] by (auto simp: attrKey_def join_snoc)
  moreover obtain qs0 where "dotted gs bs = (qs0, gs')" "qs = map (\<lambda>(k, v). (join_on ''.'' (gs @ [k]), v)) as @ qs0"
    using 2(5) by (auto split: prod.splits)
  ultimately show ?case using 2(1)[of "color_bind (Bound as) c" qs0 gs'] 2(2-4)
    by (simp add: color_bind_def Color_WithAttrs_def)
next
  case (3 gs g bs)
  have g: "g \<noteq> []" using 3(4) by auto
  have "ch_group (color_bind (Opened g) c) = join_on ''.'' (gs @ [g])"
    using 3(2,3) join_empty[of gs] by (auto simp: color_bind_def Color_WithGroup_def join_snoc)
  moreover have "ch_attrs (color_bind (Opened g) c) = ch_attrs c" by (simp add: color_bind_def Color_WithGroup_def)
  ultimately show ?case using 3(1)[of "color_bind (Opened g) c" qs gs'] 3(3-5) g by simp
qed

text \<open>
  The colored handler names every attribute by the groups open when it was bound or logged, whatever groups are opened later.
\<close>

theorem color_keys:
  assumes "Opened [] \<notin> set bs" and "ch_group c = []" and "ch_attrs c = []"
  shows "ch_attrs (fold color_bind bs c) = fst (dotted [] bs)
    \<and> (\<forall>k. attrKey (fold color_bind bs c) k = join_on ''.'' (snd (dotted [] bs) @ [k]))"
  using color_names[of c "[]" bs] assms by (cases "dotted [] bs") simp

lemma color_keys_witness:
  "map fst (ch_attrs (fold color_bind [Opened ''a'', Bound [(''x'', LNum ''1'')], Opened ''b'', Bound [(''y'', LNum ''2'')]]
     \<lparr>ch_output = Stderr, ch_level = 0, ch_attrs = [] :: nat log_attrs, ch_group = []\<rparr>)) = [''a.x'', ''a.b.y'']"
  using color_keys[of "[Opened ''a'', Bound [(''x'', LNum ''1'')], Opened ''b'', Bound [(''y'', LNum ''2'')]]"
    "\<lparr>ch_output = Stderr, ch_level = 0, ch_attrs = [] :: nat log_attrs, ch_group = []\<rparr>"] by simp

section \<open>The files of the logger\<close>

definition dest_open :: "nat set \<Rightarrow> log_dest \<Rightarrow> bool" where
  "dest_open hs d \<longleftrightarrow> (case d of File_handle h \<Rightarrow> h \<in> hs | _ \<Rightarrow> True)"

definition log_ok :: "'a log_state \<Rightarrow> bool" where
  "log_ok s \<longleftrightarrow> lt_open s = set_option (lt_output s) \<union> set_option (lt_file s)
     \<and> set_option (lt_output s) \<inter> set_option (lt_file s) = {} \<and> (\<forall>h \<in> lt_open s. h < lt_next s)
     \<and> (\<forall>h \<in> set (lt_logger s). dest_open (lt_open s) (base_dest h))
     \<and> (lt_root s = Console \<or> (\<exists>f. lt_file s = Some f \<and> lt_root s = Tee Console f))
     \<and> (case lt_base s of None \<Rightarrow> lt_root s = Console | Some b \<Rightarrow> b = Console)"

definition quiet_sink :: "nat set \<Rightarrow> log_sink \<Rightarrow> bool" where
  "quiet_sink hs sk \<longleftrightarrow> (case lk_Writer sk of Some d \<Rightarrow> dest_open hs d | None \<Rightarrow> \<not> own_output (lk_Output sk))"

lemma resolveWriter_quiet:
  "quiet_sink hs sk \<Longrightarrow> resolveWriter os sk s = (r, s') \<Longrightarrow> s' = s \<and> (\<forall>d. r = Inr d \<longrightarrow> dest_open hs d)"
  by (auto simp: quiet_sink_def resolveWriter_def openOutput_def own_output_def dest_open_def split: option.splits if_splits)

lemma buildHandler_quiet:
  assumes "quiet_sink hs sk" "buildHandler os sk s = (r, s')"
  shows "s' = s \<and> (\<forall>h. r = Inr h \<longrightarrow> dest_open hs (base_dest h))"
proof (cases "parseLevel (lk_Level sk)")
  case Inl
  then show ?thesis using assms(2) by (auto simp: buildHandler_def)
next
  case (Inr level)
  obtain rw s1 where w: "resolveWriter os sk s = (rw, s1)" by fastforce
  from resolveWriter_quiet[OF assms(1) w] show ?thesis
    using assms(2) Inr w by (auto simp: buildHandler_def Let_def base_dest_def split: sum.splits if_splits)
qed

lemma build_handlers_quiet:
  "list_all (quiet_sink hs) sks \<Longrightarrow> build_handlers os sks s = (r, s') \<Longrightarrow>
   s' = s \<and> (\<forall>lg. r = Inr lg \<longrightarrow> (\<forall>h \<in> set lg. dest_open hs (base_dest h)))"
proof (induction sks arbitrary: r s')
  case (Cons sk sks)
  obtain rh s1 where b: "buildHandler os sk s = (rh, s1)" by fastforce
  have q: "s1 = s" "\<And>h. rh = Inr h \<Longrightarrow> dest_open hs (base_dest h)" using buildHandler_quiet[OF _ b] Cons.prems(1) by auto
  obtain rs s2 where bs: "build_handlers os sks s = (rs, s2)" by fastforce
  have "s2 = s" "\<And>lg h. rs = Inr lg \<Longrightarrow> h \<in> set lg \<Longrightarrow> dest_open hs (base_dest h)"
    using Cons.IH[OF _ bs] Cons.prems(1) by auto
  then show ?case using Cons.prems(2) b bs q by (auto split: sum.splits)
qed simp

definition alike :: "'a log_state \<Rightarrow> 'a log_state \<Rightarrow> bool" where
  "alike s s' \<longleftrightarrow> lt_base s' = lt_base s \<and> lt_root s' = lt_root s \<and> lt_file s' = lt_file s \<and> lt_output s' = lt_output s
     \<and> lt_logger s' = lt_logger s"

lemma alike_trans: "alike s s' \<Longrightarrow> alike s' s'' \<Longrightarrow> alike s s''" "alike s s"
  by (simp_all add: alike_def)

lemma open_if_spec:
  assumes "open_if w os p s = (r, s')" "\<forall>h \<in> lt_open s. h < lt_next s"
  shows "alike s s' \<and> (\<forall>h \<in> lt_open s'. h < lt_next s')
    \<and> (case r of Inl err \<Rightarrow> lt_open s' = lt_open s
        | Inr f \<Rightarrow> lt_open s' = lt_open s \<union> set_option f \<and> set_option f \<inter> lt_open s = {} \<and> (f \<noteq> None \<longleftrightarrow> w))"
  using assms by (auto simp: open_if_def OpenAppend_def alike_def split: if_splits option.splits sum.splits) (metis less_SucI)+

lemma built_dests:
  assumes "New_logger os (primary_sink st out # file_sinks st f) s = (r, s')" "out \<noteq> None \<longleftrightarrow> own_output (ls_output st)"
    and "set_option out \<union> set_option f \<subseteq> lt_open s"
  shows "s' = s \<and> (\<forall>lg. r = Inr lg \<longrightarrow> (\<forall>h \<in> set lg. dest_open (set_option out \<union> set_option f) (base_dest h)))"
proof -
  have "list_all (quiet_sink (set_option out \<union> set_option f)) (primary_sink st out # file_sinks st f)"
    using assms(2) by (auto simp: quiet_sink_def primary_sink_def file_sinks_def dest_open_def own_output_def split: option.splits)
  from build_handlers_quiet[OF this] show ?thesis using assms(1) by (simp add: New_logger_def)
qed

lemma log_ok_alike:
  assumes "log_ok s" "alike s s'" "lt_open s' = lt_open s" "\<forall>h \<in> lt_open s'. h < lt_next s'"
  shows "log_ok s'"
proof -
  have "lt_base s' = lt_base s" "lt_root s' = lt_root s" "lt_file s' = lt_file s" "lt_output s' = lt_output s" "lt_logger s' = lt_logger s"
    using assms(2) by (simp_all add: alike_def)
  then show ?thesis using assms(1,3,4) unfolding log_ok_def by metis
qed

text \<open>What one call does to a state that is in order.\<close>

lemma setupLogging_spec:
  assumes ok: "log_ok s" and call: "setupLogging os st s = (r, s')"
  shows "log_ok s' \<and> (case r of
      Some err \<Rightarrow> lt_open s' = lt_open s \<and> lt_logger s' = lt_logger s \<and> lt_root s' = lt_root s
    | None \<Rightarrow> (lt_output s' \<noteq> None \<longleftrightarrow> own_output (ls_output st)) \<and> (lt_file s' \<noteq> None \<longleftrightarrow> ls_file st \<noteq> [])
        \<and> lt_root s' = tee_out st Console (lt_file s'))"
proof -
  let ?base = "case lt_base s of None \<Rightarrow> lt_root s | Some b \<Rightarrow> b" and ?s0 = "s\<lparr>lt_base := Some (case lt_base s of None \<Rightarrow> lt_root s | Some b \<Rightarrow> b)\<rparr>"
  have base: "?base = Console" using ok by (simp add: log_ok_def split: option.splits)
  have ok0: "log_ok ?s0" using ok base by (auto simp: log_ok_def)
  have b0: "\<forall>h \<in> lt_open ?s0. h < lt_next ?s0" using ok by (simp add: log_ok_def)
  obtain r1 s1 where 1: "open_if (own_output (ls_output st)) os (ls_output st) ?s0 = (r1, s1)" by fastforce
  note o1 = open_if_spec[OF 1 b0]
  show ?thesis
  proof (cases r1)
    case (Inl err)
    then have e: "r = Some err" "s' = s1" using call 1 by (simp_all add: setupLogging_def Let_def)
    then have "log_ok s'" using log_ok_alike[OF ok0, of s1] o1 Inl by simp
    then show ?thesis using e o1 Inl by (simp add: alike_def)
  next
    case out: (Inr out)
    obtain r2 s2 where 2: "open_if (ls_file st \<noteq> []) os (ls_file st) s1 = (r2, s2)" by fastforce
    note o2 = open_if_spec[OF 2 conjunct1[OF conjunct2[OF o1]]]
    have out1: "lt_open s1 = lt_open s \<union> set_option out" "set_option out \<inter> lt_open s = {}" "out \<noteq> None \<longleftrightarrow> own_output (ls_output st)"
      using o1 out by simp_all
    show ?thesis
    proof (cases r2)
      case (Inl err)
      then have e: "r = Some err" "s' = close_files [out] s2" using call 1 2 out by (simp_all add: setupLogging_def Let_def)
      have op: "lt_open s' = lt_open s" using e(2) o2 Inl out1 by (auto simp: close_files_def)
      moreover have al: "alike ?s0 s2" using o1 o2 alike_trans by blast
      moreover have "\<forall>h \<in> lt_open s'. h < lt_next s'" using conjunct1[OF conjunct2[OF o2]] unfolding e(2) by (simp add: close_files_def)
      ultimately have "log_ok s'" using log_ok_alike[OF ok0, of s'] e(2) by (simp add: alike_def close_files_def)
      then show ?thesis using e op al by (simp add: alike_def close_files_def)
    next
      case f: (Inr f)
      have bound2: "\<forall>h \<in> lt_open s2. h < lt_next s2" using o2 by blast
      have f2: "lt_open s2 = lt_open s1 \<union> set_option f" "set_option f \<inter> lt_open s1 = {}" "f \<noteq> None \<longleftrightarrow> ls_file st \<noteq> []"
        using o2 f by simp_all
      have al: "alike ?s0 s2" using o1 o2 alike_trans by blast
      obtain r3 s3 where 3: "New_logger os (primary_sink st out # file_sinks st f) s2 = (r3, s3)" by fastforce
      have d3: "s3 = s2" "\<And>lg. r3 = Inr lg \<Longrightarrow> \<forall>h \<in> set lg. dest_open (set_option out \<union> set_option f) (base_dest h)"
        using built_dests[OF 3 out1(3)] out1 f2 by blast+
      show ?thesis
      proof (cases r3)
        case (Inl err)
        then have e: "r = Some err" "s' = close_files [out, f] s2" using call 1 2 3 out f d3(1) by (simp_all add: setupLogging_def Let_def)
        have op: "lt_open s' = lt_open s" using out1(1,2) f2(1,2) unfolding e(2) by (simp add: close_files_def) blast
        moreover have "\<forall>h \<in> lt_open s'. h < lt_next s'" using bound2 unfolding e(2) by (simp add: close_files_def)
        ultimately have "log_ok s'" using log_ok_alike[OF ok0, of s'] al e(2) by (simp add: alike_def close_files_def)
        then show ?thesis using e op al by (simp add: alike_def close_files_def)
      next
        case (Inr lg)
        then have e: "r = None" "s' = (close_files [lt_output s, lt_file s] s2)\<lparr>lt_logger := lg, lt_root := tee_out st Console f,
            lt_output := out, lt_file := f\<rparr>"
          using call 1 2 3 out f d3(1) base by (simp_all add: setupLogging_def Let_def)
        have op: "lt_open s' = set_option out \<union> set_option f"
          using out1(1,2) f2(1,2) conjunct1[OF ok[unfolded log_ok_def]] unfolding e(2) by (simp add: close_files_def) blast
        have "\<forall>h \<in> lt_open s'. h < lt_next s'" using bound2 unfolding e(2) by (simp add: close_files_def)
        moreover have "lt_base s' = Some Console" using e(2) al base by (simp add: close_files_def alike_def)
        moreover have "lt_root s' = Console \<or> (\<exists>f. lt_file s' = Some f \<and> lt_root s' = Tee Console f)"
          using e(2) by (auto simp: tee_out_def split: option.splits)
        moreover have "set_option out \<inter> set_option f = {}" using out1 f2 by auto
        ultimately have "log_ok s'" using op e(2) d3(2)[OF Inr] by (simp add: log_ok_def)
        then show ?thesis using e out1(3) f2(3) by simp
      qed
    qed
  qed
qed

lemma setups_ok: "log_ok s \<Longrightarrow> log_ok (setups calls s)"
proof (induction calls arbitrary: s)
  case (Cons c calls)
  obtain os st where c: "c = (os, st)" by fastforce
  obtain r s' where "setupLogging os st s = (r, s')" by fastforce
  then show ?case using setupLogging_spec[OF Cons.prems] Cons.IH c by (auto simp: setups_def)
qed (simp add: setups_def)

lemma log_start_ok: "log_ok log_start" by (simp add: log_ok_def log_start_def)

text \<open>
  C40. However often logging is set up again, with whatever settings and failures, the log files that are open are exactly the
  two the process remembers, each handler writes to one of them or to the console, and the output of commands is the
  console, copied into the current file at most once. A call that fails leaves the previous logger working on its open files; one
  that succeeds has opened the files its settings ask for.
\<close>

theorem setupLogging_handles:
  assumes "s = setups calls log_start" and "setupLogging os st s = (r, s')"
  shows "lt_open s' = set_option (lt_output s') \<union> set_option (lt_file s')
    \<and> (\<forall>h \<in> set (lt_logger s'). dest_open (lt_open s') (base_dest h))
    \<and> (lt_root s' = Console \<or> (\<exists>f. lt_file s' = Some f \<and> lt_root s' = Tee Console f))
    \<and> (case r of
        Some err \<Rightarrow> lt_open s' = lt_open s \<and> lt_logger s' = lt_logger s \<and> lt_root s' = lt_root s
      | None \<Rightarrow> (lt_output s' \<noteq> None \<longleftrightarrow> own_output (ls_output st)) \<and> (lt_file s' \<noteq> None \<longleftrightarrow> ls_file st \<noteq> [])
          \<and> lt_root s' = tee_out st Console (lt_file s'))"
proof -
  have "log_ok s" using setups_ok[OF log_start_ok] assms(1) by simp
  from setupLogging_spec[OF this assms(2)] show ?thesis unfolding log_ok_def by (intro conjI) blast+
qed

section \<open>Concrete logs\<close>

definition demo_os :: log_os where
  "demo_os = \<lparr>lo_open = (\<lambda>p. if p = ''/denied'' then Some (Text ''permission denied'') else None), lo_tty = (\<lambda>d. d = Stdout)\<rparr>"

definition demo_log :: "string \<Rightarrow> log_settings" where
  "demo_log f = \<lparr>ls_level = ''info'', ls_format = ''text'', ls_output = [], ls_color = True, ls_file = f, ls_fileFormat = ''text''\<rparr>"

lemma setupLogging_handles_witness:
  "\<exists>s' :: nat log_state. setupLogging demo_os (demo_log ''/two'') (setups [(demo_os, demo_log ''/zero''), (demo_os, demo_log ''/one''), (demo_os, demo_log ''/denied'')] log_start)
     = (None, s') \<and> lt_open s' = {2} \<and> lt_root s' = Tee Console 2"
proof -
  let ?s = "setups [(demo_os, demo_log ''/zero''), (demo_os, demo_log ''/one''), (demo_os, demo_log ''/denied'')] log_start :: nat log_state"
  obtain r s' where c: "setupLogging demo_os (demo_log ''/two'') ?s = (r, s')" by fastforce
  have "fst (setupLogging demo_os (demo_log ''/two'') ?s) = None" "lt_file (snd (setupLogging demo_os (demo_log ''/two'') ?s)) = Some 2"
    "lt_output (snd (setupLogging demo_os (demo_log ''/two'') ?s)) = None" "\<not> equal_fold (ls_fileFormat (demo_log ''/two'')) ''json''" by code_simp+
  then have "r = None" "lt_file s' = Some 2" "lt_output s' = None" "\<not> equal_fold (ls_fileFormat (demo_log ''/two'')) ''json''"
    unfolding c by simp_all
  then show ?thesis using setupLogging_handles[OF refl c] c by (auto simp: tee_out_def)
qed

definition demo_masks :: log_masks where
  "demo_masks = \<lparr>lm_disabled = False, lm_rules = [], lm_reg = AddSecret ''hunter22'' no_secrets\<rparr>"

lemma log_hides_witness:
  "\<not> contains_str (fst (mask_record demo_masks (\<lambda>n :: nat. ''n'') (''pw=hunter22'', [(''err'', LErr ''bad hunter22'')]))) ''hunter22''
   \<and> mask_record demo_masks (\<lambda>n :: nat. ''n'') (''pw=hunter22'', [(''err'', LErr ''bad hunter22'')])
     = (''pw=[FILTERED]'', [(''err'', LStr ''bad [FILTERED]'')])"
proof -
  let ?h = "Std False 0 Stdout [] :: nat base_handler"
  let ?sk = "\<lparr>lk_Level = [], lk_Output = [], lk_Writer = None, lk_Format = [], lk_Color = False\<rparr>"
  have n: "New_logger demo_os [?sk] (log_start :: nat log_state) = (Inr [?h], log_start)"
    proof -
    have "map to_lower_char ''text'' = ''text''" by code_simp
    then show ?thesis by (simp add: New_logger_def buildHandler_def parseLevel_def resolveWriter_def openOutput_def or_str_def LevelInfo_def Let_def)
  qed
  have "''hunter22'' \<in> set (secrets (AddSecret ''hunter22'' no_secrets))" by code_simp
  then have k: "knows ''hunter22'' demo_masks"
    using AddSecret_registry[OF no_secrets_ok] by (simp add: knows_def demo_masks_def)
  have "mask_record demo_masks (\<lambda>n :: nat. ''n'') (''pw=hunter22'', [(''err'', LErr ''bad hunter22'')])
     = (''pw=[FILTERED]'', [(''err'', LStr ''bad [FILTERED]'')])" by code_simp
  moreover have "?h \<in> set (bind_all (\<lambda>n :: nat. ''n'') [] [?h])" by (simp add: bind_all_def)
  ultimately show ?thesis using log_hides[OF n demo_plain k, where bs = "[]"] by (metis list.pred_inject(1))
qed

end
