(* ===== verification/Hosts_Table.thy ===== *)
theory Hosts_Table
  imports Plugins Ast_Merge Shell
begin

text \<open>
  The print-hosts-table plugin (\<open>plugins/core/print_hosts_table/print_hosts_table.go\<close>), which is active without being
  listed: a hook function before the start of a deploy, and the command \<open>deploy:hosts\<close>, both show the resolved hosts.

  The layout of a table is a third-party package: \<open>ht_render\<close> gets the header and the rows. \<open>ht_write\<close> and \<open>ht_log\<close> are the
  console and the structured log.
\<close>

record 'w hosts_out =
  ht_render :: "string list \<Rightarrow> string list list \<Rightarrow> string res"
  ht_write :: "string \<Rightarrow> 'w \<Rightarrow> goerr option \<times> 'w"
  ht_log :: "host list \<Rightarrow> 'w \<Rightarrow> 'w"

definition hosts_plugin_name :: string where "hosts_plugin_name = ''print-hosts-table''"

definition hosts_header :: "string list" where
  "hosts_header = [''HOST'', ''ROLES'', ''DEPLOY'', ''PRIMARY'', ''TRANSPORT'', ''SOURCE'']"

definition host_row :: "host \<Rightarrow> string list" where
  "host_row h = [host_Address h, or_str (join_on '','' (host_Roles h)) ''-'', (if DeployEnabled h then ''yes'' else ''no''),
     (if host_Primary h then ''yes'' else []), (if host_Local h then ''local'' else ''ssh''), or_str (host_Source h) HostSourceConfig]"

definition hostsTable :: "'w hosts_out \<Rightarrow> host list \<Rightarrow> string res" where
  "hostsTable ho hosts = ht_render ho hosts_header (map host_row hosts)"

definition printHostsTable :: "'w hosts_out \<Rightarrow> host list \<Rightarrow> 'w \<Rightarrow> goerr option \<times> 'w" where
  "printHostsTable ho hosts w = (case hostsTable ho hosts of Inl err \<Rightarrow> (Some err, w) | Inr table \<Rightarrow> ht_write ho table w)"

definition show_hosts :: "'w hosts_out \<Rightarrow> deploy_file \<Rightarrow> 'w \<Rightarrow> goerr option \<times> 'w" where
  "show_hosts ho cfg w = (if equal_fold (log_Format (cfg_Log cfg)) ''json'' then (None, ht_log ho (cfg_Hosts cfg) w)
     else printHostsTable ho (cfg_Hosts cfg) w)"

definition hosts_hook :: hook_func where "hosts_hook = HookFunc ''print-hosts-table''"

definition hosts_install :: "'w startup" where
  "hosts_install cfg w = (None, AddHookFuncBefore PhaseStarting hosts_hook cfg, [], w)"

definition hosts_Configure :: "plugin_spec \<Rightarrow> 'w plugin_registry \<Rightarrow> 'w \<Rightarrow> goerr option \<times> 'w plugin_registry \<times> string list \<times> 'w" where
  "hosts_Configure spec reg w = (None, AddStartup hosts_install reg, [], w)"

definition hosts_commands :: "'w hosts_out \<Rightarrow> 'w plugin_command list" where
  "hosts_commands ho = [\<lparr>pc_Name = ''deploy:hosts'', pc_Short = ''Print the stage'' @ [sq] @ ''s hosts as a table'',
     pc_Run = (\<lambda>cfg reg args. show_hosts ho cfg)\<rparr>]"

definition hosts_plugin :: "'w hosts_out \<Rightarrow> 'w plugin" where
  "hosts_plugin ho = \<lparr>pl_Configure = hosts_Configure, pl_Version = Some ''1.0.0'', pl_Commands = Some (hosts_commands ho)\<rparr>"

section \<open>What the plugin adds\<close>

text \<open>
  Registered as a default, the plugin is configured although no Deployfile names it; its startup hook adds the one hook function,
  after those that are there, and changes nothing else.
\<close>

theorem hosts_plugin_default:
  assumes "RegisterDefault hosts_plugin_name (hosts_plugin ho) tbl = Some tbl'" and "hosts_plugin_name \<notin> ps_Name ` set listed"
  shows "\<exists>spec \<in> set (DefaultSpecs tbl' listed). ps_Name spec = hosts_plugin_name
    \<and> load_specs tbl' [spec] reg w = (Inr (AddStartup hosts_install reg), [], w)"
proof -
  have t: "m_get (pt_factories tbl') hosts_plugin_name = Some (hosts_plugin ho)" "hosts_plugin_name \<in> set (pt_defaults tbl')"
    using assms(1) by (auto simp: RegisterDefault_def Register_def split: if_splits option.splits)
  then have "zero_plugin\<lparr>ps_Name := hosts_plugin_name\<rparr> \<in> set (DefaultSpecs tbl' listed)"
    using assms(2) by (simp add: DefaultSpecs_spec)
  then show ?thesis using t(1) by (intro bexI[of _ "zero_plugin\<lparr>ps_Name := hosts_plugin_name\<rparr>"]) (simp_all add: hosts_plugin_def hosts_Configure_def)
qed

lemma hosts_install_spec:
  "fst (snd (hosts_install cfg w)) = cfg\<lparr>cfg_HookFuncsBefore := cfg_HookFuncsBefore (AddHookFuncBefore PhaseStarting hosts_hook cfg)\<rparr>"
  "m_list (cfg_HookFuncsBefore (fst (snd (hosts_install cfg w)))) PhaseStarting = m_list (cfg_HookFuncsBefore cfg) PhaseStarting @ [hosts_hook]"
  by (simp_all add: hosts_install_def AddHookFuncBefore_def)

end
