(* ===== verification/Tools.thy ===== *)
theory Tools
  imports Load Shell Plugins
begin

text \<open>
  Tools of the command line: \<open>whoosh init\<close> (\<open>internal/cli/init.go\<close>), which writes a first configuration, \<open>whoosh plugins\<close> and
  \<open>whoosh version\<close> (\<open>internal/cli/plugins.go\<close>, \<open>internal/cli/version.go\<close>), and \<open>whoosh build\<close>
  (\<open>internal/cli/builder/builder.go\<close>), which compiles a binary with further plugins.

  The files a scaffold writes are a map from paths to contents; \<open>init_env\<close> has the errors of the file system and the texts
  of the scaffold. Of a build, resolving a path, the file system and the Go toolchain are the fields of \<open>build_env\<close>.
\<close>

section \<open>Writing a first configuration\<close>

record init_env =
  in_mkdir :: "string \<Rightarrow> goerr option"
  in_open :: "string \<Rightarrow> goerr option"
  in_write :: "string \<Rightarrow> (string \<times> goerr) option"
  in_close :: "string \<Rightarrow> goerr option"
  in_deployfile :: string
  in_stage :: "string \<Rightarrow> string"
  in_script :: string

type_synonym files = "(string, string) map"

definition writeIfAbsent :: "init_env \<Rightarrow> string \<Rightarrow> string \<Rightarrow> files \<Rightarrow> goerr option \<times> files" where
  "writeIfAbsent ie path data s = (if s path \<noteq> None then (None, s)
     else (case in_open ie path of
        Some err \<Rightarrow> (Some (wrapf (''write '' @ path) err), s)
      | None \<Rightarrow> (case in_write ie path of
          Some (part, err) \<Rightarrow> (Some (wrapf (''write '' @ path) err), s(path \<mapsto> part))
        | None \<Rightarrow> (map_option (wrapf (''write '' @ path)) (in_close ie path), s(path \<mapsto> data)))))"

fun write_stages :: "init_env \<Rightarrow> string \<Rightarrow> string list \<Rightarrow> files \<Rightarrow> goerr option \<times> files" where
  "write_stages ie dir [] s = (None, s)"
| "write_stages ie dir (stage # stages) s = (case writeIfAbsent ie (path_join [dir, stage @ ''.yml'']) (in_stage ie stage) s of
      (Some err, s') \<Rightarrow> (Some err, s') | (None, s') \<Rightarrow> write_stages ie dir stages s')"

definition runInit :: "init_env \<Rightarrow> string list \<Rightarrow> files \<Rightarrow> goerr option \<times> files" where
  "runInit ie stages s =
     (let stageDir = hd StageDirs; scriptsDir = path_join [stageDir, ''scripts''] in
      case writeIfAbsent ie (hd DefaultDeployfiles) (in_deployfile ie) s of
        (Some err, s1) \<Rightarrow> (Some err, s1)
      | (None, s1) \<Rightarrow> (case in_mkdir ie stageDir of
          Some err \<Rightarrow> (Some (wrapf (''create '' @ stageDir @ ''/'') err), s1)
        | None \<Rightarrow> (case write_stages ie stageDir stages s1 of
            (Some err, s2) \<Rightarrow> (Some err, s2)
          | (None, s2) \<Rightarrow> (case in_mkdir ie scriptsDir of
              Some err \<Rightarrow> (Some (wrapf (''create '' @ scriptsDir @ ''/'') err), s2)
            | None \<Rightarrow> writeIfAbsent ie (path_join [scriptsDir, ''example.sh'']) (in_script ie) s2))))"

lemma writeIfAbsent_spec:
  assumes "writeIfAbsent ie path data s = (r, s')"
  shows "s \<subseteq>\<^sub>m s'" and "r = None \<Longrightarrow> s' path \<noteq> None" and "\<And>p. p \<noteq> path \<Longrightarrow> s' p = s p"
    and "r = None \<Longrightarrow> s path = None \<Longrightarrow> s' path = Some data"
  using assms by (auto simp: writeIfAbsent_def map_le_def dom_def split: if_splits option.splits)

lemma write_stages_spec:
  "write_stages ie dir stages s = (r, s') \<Longrightarrow> s \<subseteq>\<^sub>m s'
   \<and> (r = None \<longrightarrow> (\<forall>stage \<in> set stages. s' (path_join [dir, stage @ ''.yml'']) \<noteq> None))"
proof (induction stages arbitrary: s)
  case (Cons stage stages)
  obtain r1 s1 where 1: "writeIfAbsent ie (path_join [dir, stage @ ''.yml'']) (in_stage ie stage) s = (r1, s1)" by fastforce
  note w = writeIfAbsent_spec[OF 1]
  show ?case
  proof (cases r1)
    case None
    then have "s1 \<subseteq>\<^sub>m s'" "r = None \<longrightarrow> (\<forall>stage \<in> set stages. s' (path_join [dir, stage @ ''.yml'']) \<noteq> None)"
      using Cons 1 by auto
    moreover have "s' (path_join [dir, stage @ ''.yml'']) \<noteq> None"
      using w(2)[OF None] \<open>s1 \<subseteq>\<^sub>m s'\<close> by (metis domIff map_le_def)
    ultimately show ?thesis using w(1) map_le_trans by auto
  next
    case (Some err)
    then show ?thesis using Cons.prems 1 w(1) by auto
  qed
qed simp

text \<open>
  Scaffolding never changes a file that is there, whatever fails; when it succeeds, the Deployfile, a file for every stage and the
  example script exist, so running it again changes nothing.
\<close>

theorem init_keeps_files:
  assumes "runInit ie stages s = (r, s')"
  shows "s \<subseteq>\<^sub>m s' \<and> (r = None \<longrightarrow> runInit ie stages s' = (None, s'))"
proof -
  let ?dir = "hd StageDirs" and ?main = "hd DefaultDeployfiles"
  let ?script = "path_join [path_join [hd StageDirs, ''scripts''], ''example.sh'']"
  have absent: "writeIfAbsent ie p d t = (None, t)" if "t p \<noteq> None" for p d t using that by (simp add: writeIfAbsent_def)
  have again: "write_stages ie dir ss t = (None, t)" if "\<forall>stage \<in> set ss. t (path_join [dir, stage @ ''.yml'']) \<noteq> None" for dir ss t
    using that by (induction ss) (simp_all add: absent)
  obtain r1 s1 where 1: "writeIfAbsent ie ?main (in_deployfile ie) s = (r1, s1)" by fastforce
  obtain r2 s2 where 2: "write_stages ie ?dir stages s1 = (r2, s2)" by fastforce
  obtain r3 s3 where 3: "writeIfAbsent ie ?script (in_script ie) s2 = (r3, s3)" by fastforce
  note w1 = writeIfAbsent_spec[OF 1] and w2 = write_stages_spec[OF 2] and w3 = writeIfAbsent_spec[OF 3]
  have "s1 \<subseteq>\<^sub>m s2" "s2 \<subseteq>\<^sub>m s3" using w2 w3(1) by blast+
  then have le: "s \<subseteq>\<^sub>m s1" "s \<subseteq>\<^sub>m s2" "s \<subseteq>\<^sub>m s3" "s1 \<subseteq>\<^sub>m s3" using w1(1) map_le_trans by blast+
  have cases: "s' = s1 \<or> s' = s2 \<or> s' = s3"
    "r = None \<Longrightarrow> s' = s3 \<and> r1 = None \<and> r2 = None \<and> r3 = None \<and> in_mkdir ie ?dir = None \<and> in_mkdir ie (path_join [?dir, ''scripts'']) = None"
    using assms 1 2 3 by (auto simp: runInit_def Let_def split: option.splits)
  have "runInit ie stages s' = (None, s')" if "r = None"
  proof -
    note c = cases(2)[OF that]
    have here: "s3 p \<noteq> None" if "t p \<noteq> None" "t \<subseteq>\<^sub>m s3" for t p using that by (metis domIff map_le_def)
    have a: "s3 ?main \<noteq> None" "s3 ?script \<noteq> None" "\<forall>stage \<in> set stages. s3 (path_join [?dir, stage @ ''.yml'']) \<noteq> None"
      using c w1(2) w2 w3(2) here[OF _ le(4)] here[OF _ \<open>s2 \<subseteq>\<^sub>m s3\<close>] by blast+
    then show ?thesis using c by (simp add: runInit_def Let_def absent again)
  qed
  then show ?thesis using cases(1) le by blast
qed

section \<open>What the binary contains\<close>

definition plugins_cmd :: "'w plugin_table \<Rightarrow> string" where
  "plugins_cmd tbl = (if RegisteredInfo tbl = [] then ''(no plugins compiled in)'' @ [nl]
     else concat (map (\<lambda>(name, version). (if version = [] then name else name @ ''  '' @ version) @ [nl]) (RegisteredInfo tbl)))"

text \<open>\<open>linked\<close> is the version the linker has set, \<open>built\<close> the one of the build information.\<close>

definition resolveVersion :: "string \<Rightarrow> string option \<Rightarrow> string" where
  "resolveVersion linked built = (if linked \<noteq> [] \<and> linked \<noteq> ''dev'' then linked
     else (case built of Some v \<Rightarrow> if v \<noteq> [] \<and> v \<noteq> ''(devel)'' then v else linked | None \<Rightarrow> linked))"

definition version_cmd :: "string \<Rightarrow> string option \<Rightarrow> 'w plugin_table \<Rightarrow> string" where
  "version_cmd linked built tbl = resolveVersion linked built @ [nl] @ (if RegisteredInfo tbl = [] then []
     else ''plugins: '' @ join_on '', '' (map (\<lambda>(name, version). if version = [] then name else name @ '' '' @ version) (RegisteredInfo tbl)) @ [nl])"

section \<open>Building a binary with plugins\<close>

definition whooshModule :: string where "whooshModule = ''github.com/yousysadmin/whoosh''"

record build_options =
  bo_withs :: "string list"
  bo_replaces :: "string list"
  bo_output :: string
  bo_whooshVersion :: string
  bo_appVersion :: string
  bo_tags :: string
  bo_goBin :: string
  bo_keep :: bool

record mod_ver =
  mv_path :: string
  mv_version :: string

record 'w build_env =
  be_abs :: "string \<Rightarrow> string res"
  be_is_abs :: "string \<Rightarrow> bool"
  be_temp :: "'w \<Rightarrow> string res \<times> 'w"
  be_write :: "string \<Rightarrow> string \<Rightarrow> 'w \<Rightarrow> goerr option \<times> 'w"
  be_go :: "string \<Rightarrow> string \<Rightarrow> string list \<Rightarrow> 'w \<Rightarrow> goerr option \<times> 'w"
  be_remove :: "string \<Rightarrow> 'w \<Rightarrow> 'w"

definition parseModVer :: "string \<Rightarrow> mod_ver res" where
  "parseModVer raw = (let s = trim_space raw in
     if s = [] then Inl (Text ''empty module'')
     else (case cut (CHR ''@'') s of
        Some (path, ver) \<Rightarrow> if path = [] \<or> ver = [] then Inl (Text (''invalid module@version '' @ quoted s))
          else Inr \<lparr>mv_path = path, mv_version = ver\<rparr>
      | None \<Rightarrow> Inr \<lparr>mv_path = s, mv_version = []\<rparr>))"

definition replaceOldPath :: "string \<Rightarrow> string" where
  "replaceOldPath spec = (let left = trim_space (case cut (CHR ''='') spec of Some (before, _) \<Rightarrow> before | None \<Rightarrow> spec) in
     case cut (CHR ''@'') left of Some (path, _) \<Rightarrow> path | None \<Rightarrow> left)"

definition isLocalPath :: "'w build_env \<Rightarrow> string \<Rightarrow> bool" where
  "isLocalPath be p \<longleftrightarrow> p = ''.'' \<or> p = ''..'' \<or> has_prefix p ''./'' \<or> has_prefix p ''../''
     \<or> has_prefix p (CHR ''.'' # [bsl]) \<or> has_prefix p (''..'' @ [bsl]) \<or> be_is_abs be p"

definition replaceIsFilesystem :: "'w build_env \<Rightarrow> string \<Rightarrow> bool" where
  "replaceIsFilesystem be spec \<longleftrightarrow> (case cut (CHR ''='') spec of None \<Rightarrow> False | Some (_, after) \<Rightarrow> isLocalPath be (trim_space after))"

definition absReplace :: "'w build_env \<Rightarrow> string \<Rightarrow> string res" where
  "absReplace be spec = (case cut (CHR ''='') spec of
      None \<Rightarrow> Inr spec
    | Some (left, right) \<Rightarrow> if \<not> isLocalPath be (trim_space right) then Inr spec
        else (case be_abs be (trim_space right) of
            Inl err \<Rightarrow> Inl (wrapf ''resolve replace target'' err)
          | Inr p \<Rightarrow> Inr (left @ ''='' @ p)))"

definition versionOrLatest :: "string \<Rightarrow> string" where
  "versionOrLatest v = (if v = [] then ''latest'' else v)"

definition build_ldflags :: "build_options \<Rightarrow> string" where
  "build_ldflags o1 = (let ver = or_str (bo_appVersion o1) (bo_whooshVersion o1) in
     ''-s -w'' @ (if ver \<noteq> [] \<and> ver \<noteq> ''latest'' then '' -X '' @ whooshModule @ ''/internal/version.Version='' @ ver else []))"

definition generateMain :: "mod_ver list \<Rightarrow> string" where
  "generateMain plugins =
     ''// Code generated by `whoosh build`. DO NOT EDIT.'' @ [nl] @ ''package main'' @ [nl, nl] @ ''import ('' @ [nl]
     @ [CHR 0x09, dq] @ whooshModule @ ''/entrypoint'' @ [dq, nl]
     @ [CHR 0x09] @ ''_ '' @ [dq] @ whooshModule @ ''/plugins/core'' @ [dq, nl]
     @ concat (map (\<lambda>p. [CHR 0x09] @ ''_ '' @ [dq] @ mv_path p @ [dq, nl]) plugins)
     @ '')'' @ [nl, nl] @ ''func main() { entrypoint.Main() }'' @ [nl]"

definition runGo :: "'w build_env \<Rightarrow> string \<Rightarrow> string \<Rightarrow> string list \<Rightarrow> 'w \<Rightarrow> goerr option \<times> 'w" where
  "runGo be goBin dir args w = (case be_go be goBin dir args w of
      (Some err, w') \<Rightarrow> (Some (wrapf (''go '' @ join_on '' '' args) err), w') | (None, w') \<Rightarrow> (None, w'))"

fun parse_withs :: "string list \<Rightarrow> mod_ver list res" where
  "parse_withs [] = Inr []"
| "parse_withs (x # xs) = (case parseModVer x of
      Inl err \<Rightarrow> Inl (wrapf (''--with '' @ quoted x) err)
    | Inr mv \<Rightarrow> (case parse_withs xs of Inl err \<Rightarrow> Inl err | Inr mvs \<Rightarrow> Inr (mv # mvs)))"

definition fs_replaced :: "'w build_env \<Rightarrow> build_options \<Rightarrow> string \<Rightarrow> bool" where
  "fs_replaced be bo path \<longleftrightarrow> path \<in> set (map replaceOldPath (filter (replaceIsFilesystem be) (bo_replaces bo)))"

text \<open>The commands of a build in their order; a replacement that cannot be resolved ends it there.\<close>

definition get_args :: "string \<Rightarrow> string \<Rightarrow> string list" where
  "get_args path ver = [''get'', path @ ''@'' @ versionOrLatest ver]"

definition build_args :: "build_options \<Rightarrow> string \<Rightarrow> string list" where
  "build_args bo absOutput = [''build'', ''-trimpath'', ''-ldflags'', build_ldflags bo, ''-o'', absOutput]
     @ (if bo_tags bo \<noteq> [] then [''-tags'', bo_tags bo] else []) @ [''.'']"

definition build_commands :: "'w build_env \<Rightarrow> build_options \<Rightarrow> string \<Rightarrow> mod_ver list \<Rightarrow> string list res list" where
  "build_commands be bo absOutput plugins =
     [Inr [''mod'', ''init'', ''whoosh.custom'']]
     @ map (\<lambda>r. map_sum id (\<lambda>r. [''mod'', ''edit'', ''-replace='' @ r]) (absReplace be r)) (bo_replaces bo)
     @ (if fs_replaced be bo whooshModule then [] else [Inr (get_args whooshModule (bo_whooshVersion bo))])
     @ map (\<lambda>p. Inr (get_args (mv_path p) (mv_version p))) (filter (\<lambda>p. \<not> fs_replaced be bo (mv_path p)) plugins)
     @ [Inr [''mod'', ''tidy''], Inr (build_args bo absOutput)]"

fun run_go_commands :: "(string list \<Rightarrow> 'w \<Rightarrow> goerr option \<times> 'w) \<Rightarrow> string list res list \<Rightarrow> 'w \<Rightarrow> goerr option \<times> 'w" where
  "run_go_commands run [] w = (None, w)"
| "run_go_commands run (Inl err # cs) w = (Some err, w)"
| "run_go_commands run (Inr args # cs) w = (case run args w of (Some err, w') \<Rightarrow> (Some err, w') | (None, w') \<Rightarrow> run_go_commands run cs w')"

definition build_in_dir :: "'w build_env \<Rightarrow> build_options \<Rightarrow> string \<Rightarrow> mod_ver list \<Rightarrow> string \<Rightarrow> 'w \<Rightarrow> goerr option \<times> 'w" where
  "build_in_dir be bo absOutput plugins dir w = (case be_write be (path_join [dir, ''main.go'']) (generateMain plugins) w of
      (Some err, w') \<Rightarrow> (Some (wrapf ''write main.go'' err), w')
    | (None, w') \<Rightarrow> run_go_commands (runGo be (or_str (bo_goBin bo) ''go'') dir) (build_commands be bo absOutput plugins) w')"

definition runBuild :: "'w build_env \<Rightarrow> build_options \<Rightarrow> 'w \<Rightarrow> goerr option \<times> 'w" where
  "runBuild be bo w = (case be_abs be (or_str (bo_output bo) ''whoosh'') of
      Inl err \<Rightarrow> (Some (wrapf ''resolve output path'' err), w)
    | Inr absOutput \<Rightarrow> (case parse_withs (bo_withs bo) of
        Inl err \<Rightarrow> (Some err, w)
      | Inr plugins \<Rightarrow> (case be_temp be w of
          (Inl err, w1) \<Rightarrow> (Some (wrapf ''create build dir'' err), w1)
        | (Inr dir, w1) \<Rightarrow> (case build_in_dir be bo absOutput plugins dir w1 of
            (r, w2) \<Rightarrow> (r, if bo_keep bo then w2 else be_remove be dir w2)))))"

lemma cut_before: "cut c s = Some (a, b) \<Longrightarrow> c \<notin> set a"
  by (auto simp: cut_def split: if_splits dest: set_takeWhileD)

lemma cut_none_notin: "cut c s = None \<Longrightarrow> c \<notin> set s"
  by (auto simp: cut_def split: if_splits)

lemma parse_withs_path: "parse_withs ws = Inr ps \<Longrightarrow> p \<in> set ps \<Longrightarrow> CHR ''@'' \<notin> set (mv_path p)"
proof (induction ws arbitrary: ps)
  case (Cons x xs)
  obtain mv ps' where p: "parseModVer x = Inr mv" "parse_withs xs = Inr ps'" "ps = mv # ps'"
    using Cons.prems(1) by (auto split: sum.splits)
  have "CHR ''@'' \<notin> set (mv_path mv)"
    using p(1) cut_before cut_none_notin by (fastforce simp: parseModVer_def Let_def split: if_splits option.splits)
  then show ?case using Cons p by auto
qed simp

lemma get_args_path:
  assumes "get_args p v = get_args p' v'" "CHR ''@'' \<notin> set p" "CHR ''@'' \<notin> set p'"
  shows "p = p'"
proof -
  have "takeWhile (\<lambda>c. c \<noteq> CHR ''@'') (p @ ''@'' @ x) = p" if "CHR ''@'' \<notin> set p" for p x :: string
    using that by (induction p) auto
  from this[OF assms(2), of "versionOrLatest v"] this[OF assms(3), of "versionOrLatest v'"] assms(1)
  show ?thesis by (simp add: get_args_def)
qed

text \<open>No module that a replacement serves from a directory is ever fetched, whoosh itself included.\<close>

theorem build_spares_replaced:
  assumes "parse_withs (bo_withs bo) = Inr plugins" and "fs_replaced be bo path" and "CHR ''@'' \<notin> set path"
  shows "Inr (get_args path ver) \<notin> set (build_commands be bo absOutput plugins)"
proof
  assume "Inr (get_args path ver) \<in> set (build_commands be bo absOutput plugins)"
  moreover have "map_sum id (\<lambda>r. [''mod'', ''edit'', ''-replace='' @ r]) x \<noteq> Inr (get_args path ver)" for x :: "string res"
    by (cases x) (simp_all add: get_args_def)
  moreover have "CHR ''@'' \<notin> set whooshModule" by code_simp
  ultimately have "\<exists>p v. get_args path ver = get_args p v \<and> \<not> fs_replaced be bo p \<and> CHR ''@'' \<notin> set p"
    using parse_withs_path[OF assms(1)] by (auto simp: build_commands_def build_args_def get_args_def split: if_splits) metis+
  then show False using get_args_path[OF _ assms(3)] assms(2) by blast
qed

end
