(* ===== verification/Spec2Isabelle.thy ===== *)
theory Spec2Isabelle
  imports Runner Masking Systemd Rbenv Slack Cli Aws Ssh_Conns Logging Hosts_Table Tools
begin

text \<open>
  A verification development for whoosh, a deployment tool written in Go: it reads a \<open>Deployfile\<close>, and
  runs tasks and Capistrano-style release deployments on hosts over SSH.

  \<^bold>\<open>How the program is put together.\<close> A command loads the configuration (a base file, the included files, a
  stage file), fills in defaults and validates it; the plugins it lists configure themselves on a
  registry. An executor is built over it. Running a task resolves its dependencies and hooks, and its
  body runs commands or scripts on the hosts it selects, on the operator's machine, or calls a plugin
  action. Every command is rendered from a template and wrapped into one line of shell; a cluster keeps
  one connection per target and runs a command on many hosts at a time, up to a limit; the output comes
  back line by line through a writer that masks secrets. The deployer drives the executor through the
  release phases, under a lock, with the phase hooks around each one.

  \<^bold>\<open>Theories and sources\<close> (paths below \<open>src/\<close>; definitions keep the names of the code, with a suffix where the
  name is taken).

  \<^item> \<open>Prelude\<close>: strings, Go maps as association lists with distinct keys, the fallback operators of
    layered settings, and their laws (locales \<open>layering\<close> and \<open>override\<close>, interpreted on every operator the
    merge uses).
  \<^item> \<open>Errors\<close>: \<open>internal/errors\<close>. The error values, wrapping, and the exit code of a failure.
  \<^item> \<open>Ast_Model\<close>, \<open>Ast_Merge\<close>, \<open>Ast_Validate\<close>: \<open>internal/deployfile/ast\<close>. The configuration records, the
    precedence of a stage over the base, inherited defaults, host filters, redaction, and validation.
  \<^item> \<open>Load\<close>: \<open>internal/deployfile\<close> (\<open>deployfile.go\<close>, \<open>load.go\<close>, \<open>tasks.go\<close>). Include resolution and the load
    pipeline. The recursion over includes runs on fuel; \<open>resolve_total\<close> of \<open>Load\<close> shows that one more than the
    number of files is always enough.
  \<^item> \<open>Runner\<close>, \<open>Cluster\<close>: \<open>internal/runner\<close>. \<open>Fanout\<close> as a step relation whose steps are the scheduling points
    of its goroutines, the connection pool, and the classification of failures.
  \<^item> \<open>Ssh_Keys\<close>, \<open>Ssh_Hosts\<close>, \<open>Ssh_Client\<close>, \<open>Ssh_Conns\<close>: \<open>transport/ssh\<close>. Keys, the in-memory agent and the
    authentication methods of a dial (the keyring is the vendored one: a key replaces one with the same public key); host-key checks and trust on first use, with parallel dials as the step
    relation \<open>dial_step\<close>; dialling, the jump host, keepalive and running a command; the connections of a process
    as the step relation \<open>wire_step\<close> (locale \<open>conn_opener\<close>: what a dial relies on of the way a connection is
    opened, interpreted on the network and on the jump host), and the network of the connection pool built on it.
  \<^item> \<open>Masking\<close>, \<open>Lines\<close>: \<open>internal/masking\<close>, \<open>internal/runner/output.go\<close>. The registry of secrets and
    their replacement; the two line-buffering writers, both instances of the locale \<open>line_buffer\<close>.
  \<^item> \<open>Logging\<close>: \<open>internal/logger\<close> and \<open>setupLogging\<close> of \<open>internal/cli/logging.go\<close>. The masking and the colored handler, sinks,
    and the state of the installed logger with its open files.
  \<^item> \<open>Shell\<close>: \<open>internal/shtmpl\<close> and \<open>internal/executor/shell.go\<close>. Quoting and command wrapping, held against a
    reader for shell words and here-documents, which refuses what it does not read (command substitution, arithmetic, and
    parameter expansions other than of a plain name).
  \<^item> \<open>Varstmpl\<close>: \<open>internal/varstmpl\<close>. The template context and the names it defines.
  \<^item> \<open>Plugins\<close>: \<open>internal/plugins\<close>. The plugin table, the registry, loading and startup hooks. A plugin action
    is a \<open>prog\<close>, the tree of the calls it makes to the services the executor offers it.
  \<^item> \<open>Executor\<close>, \<open>Hosts\<close>, \<open>Render\<close>, \<open>Steps\<close>, \<open>Tasks\<close>: \<open>internal/executor\<close>, in this order the state and the output,
    host selection and the unreachable policy, rendering and the exported environment, the bodies of
    a task, and dependencies with hooks. \<open>Tasks\<close> has the abstract specification of a run: its \<open>plan\<close>, a
    sequence of acts that depends on the configuration only.
  \<^item> \<open>Hooks\<close>, \<open>Commands\<close>, \<open>Deploy\<close>, \<open>Deploy_Safety\<close>: \<open>internal/deploy\<close> and \<open>internal/deploy/scm\<close>. The phase hooks
    (locale \<open>phase_hooks\<close>: whatever the task runner and the functions hooked to a phase keep, the hooks keep), the
    commands of a release, the lifecycle, and what a deploy guarantees.
  \<^item> \<open>Params\<close>, \<open>Systemd\<close>: \<open>MergeParams\<close> of \<open>whoosh.go\<close>, and the systemd plugin (\<open>plugins/core/systemd\<close>).
    \<open>Hooked_Tasks\<close> is the contract of a plugin that adds hooked tasks (locale \<open>hooked_tasks\<close>, interpreted on the systemd and
    the Slack plugin).
  \<^item> \<open>Rbenv\<close>: \<open>plugins/rbenv\<close>. The environment and the task of the host setup.
  \<^item> \<open>Slack_Changelog\<close>, \<open>Slack\<close>: \<open>plugins/slack\<close>. Commits and messages of a notification; the configuration, the
    notification tasks and the \<open>slack:send\<close> action.
  \<^item> \<open>Dotenv\<close>, \<open>Secretstore\<close>, \<open>Ssm\<close>, \<open>Credentials\<close>, \<open>Ec2\<close>, \<open>Asg\<close>, \<open>Ami\<close>, \<open>Aws\<close>: the plugin under \<open>plugins/aws\<close>. The rendering of
    env files, held against a reader of them; secrets (\<open>secretstore\<close>, with the concurrent fetch as a step
    relation) and parameters (\<open>ssm\<close>); the sources of credentials; the EC2 inventory, instance refreshes and
    images (\<open>ec2\<close>); the whole plugin. \<open>Import_Hooks\<close> has the interfaces they share: what a startup hook may
    import (locale \<open>import_hook\<close>, interpreted on the hooks of both stores and of the inventory) and the loop of
    a dotenv action (locale \<open>dotenv_loop\<close> of \<open>Aws\<close>, interpreted on both actions). The API calls are the fields of
    \<open>cloud\<close>, \<open>secrets_api\<close> and \<open>ssm_api\<close>. A wait that polls takes a bound: how many polls the context allows before
    it ends, \<open>60\<close> for an image because of its own limit of thirty minutes.
  \<^item> \<open>Cli_Args\<close>, \<open>Cli_Load\<close>, \<open>Cli\<close>: \<open>internal/cli\<close>. The raw arguments and the commands of a stage, the log settings
    and the exit code; the load of a configuration with its rendered values, its template check and
    its plugins; the commands, each over the loaded configuration, the executor and the deployer.
  \<^item> \<open>Hosts_Table\<close>: \<open>plugins/core/print_hosts_table\<close>. The plugin that is active without being listed.
  \<^item> \<open>Tools\<close>: \<open>init\<close>, \<open>plugins\<close> and \<open>version\<close> of \<open>internal/cli\<close>, and the build of a binary with further plugins
    (\<open>internal/cli/builder\<close>).

  \<^bold>\<open>What the lemmas show.\<close> Loading: the files merged are the include tree, each once, a stack of
  layers resolves setting by setting to its last word, validation is exact, every load ends.
  Running: each schedule gives one result per target within the limit, and a pooled connection fits
  its target. Transport: a verified dial never gives an unverified connection, trust on first use gives
  one key per plain host, every connection has one owner, a silent host is found out; the in-memory agent holds one key for each
  public key. Output: no piece the masking writer hands on holds a registered secret, nor does the whole output as long as its
  lines are shorter than 64 KiB; the texts of a log record are masked; the log files that are open are those of the installed
  logger. Commands: no value breaks out of its word (those to be expanded hold no expansion but of a variable), a script
  arrives verbatim. Parameters: every string is rendered and nothing else is touched. Tasks: a run ends and is the execution of its
  plan; every operation keeps \<open>kept\<close>, the preorder of what a step may change. Deploys: phases run in
  the planned order under the lock, the lock is released exactly when it was taken, required hosts
  are never skipped, and a dry run acts only through the functions plugins hook to its phases. Commands of a stage: loading registers every secret of the ssh
  settings, checks every template but those that read the state of another task, and fails with a code of its own; in a dry run no
  built-in command does more than loading and the hooked functions did. The systemd plugin: its commands are the words they are meant to be, its hooks are installed
  once each. The rbenv plugin: its lists are read back by the host script, and which root a later task sees. The
  Slack plugin: no registered secret is posted, a notification never fails a deploy, the changelog is read back as captured.
  The aws plugin: what its hooks import is masked, an action only echoes itself in a dry run, every schedule of a fetch gives the sequential
  result, a dotenv reader gets back what was fetched, credentials are registered before they are used, a
  rollback waits for a refresh of its own, a clean-up spares the newest images.

  \<^bold>\<open>Conventions.\<close> A function that returns an error is a function into \<open>goerr option\<close> or \<open>goerr + 'a\<close>; state is passed
  explicitly. The world \<open>'w\<close> is whatever hosts, files and the network are: the operations that touch it
  are fields of \<open>net\<close> and \<open>ext\<close>, so a theorem holds for every behaviour of the outside.

  \<^bold>\<open>Parameters, because they are not code of the repository:\<close> YAML and JSON decoding, the template engine and
  its function library, the SSH library and the local shell, the built-in masking expressions, version
  constraints, the file system, HTTP and the AWS API.

  \<^bold>\<open>Not modelled.\<close> Locks and goroutines outside the step relations of \<open>Fanout\<close>, of the secret
  fetch and of the dials: the state is sequential. The order in which
  Go visits a map: where the code depends on it the model takes the sorted order. Upper and lower
  case outside ASCII. Of the command line the declaration of flags, help texts and the column layout of
  listings; the text and JSON handlers of the standard library; the plugin template, which is an example to copy; the host
  script of the rbenv plugin; and the generators \<open>cmd/gen-schema\<close> and \<open>hack/blanklines\<close>, which are not part of the program.
\<close>

end
